(* ===== verification/Prelude.thy ===== *)
theory Prelude
  imports Main "HOL-Library.Word"
begin

text \<open>
  Shared vocabulary of the development.

  \<^item> \<open>exn\<close> lists the exception classes of \<^verbatim>\<open>include/Tools/Exception\<close>; the text of a message is
    in \<^verbatim>\<open>Messages\<close>. Two constructors have no C++ class: \<open>UB\<close> marks a step whose behaviour the language
    leaves undefined (an out of range access), \<open>Other_exn\<close> an exception of the C++ library.
  \<^item> \<open>outcome\<close> is the result of an operation on a state: an exception or a value, and the state
    reached. A C++ \<^verbatim>\<open>throw\<close> keeps what was already written, so the state is there in both cases.
  \<^item> Helpers on lists for \<^verbatim>\<open>std::vector\<close>: \<open>ins_at\<close> (\<^verbatim>\<open>insert\<close>), \<open>del_at\<close> (\<^verbatim>\<open>erase\<close>),
    \<open>find_pos\<close> (\<^verbatim>\<open>std::find\<close> with \<^verbatim>\<open>std::distance\<close>).
\<close>

section \<open>Exceptions and outcomes\<close>

datatype exn =
    Cannot_allocate | Control_flow_error | Domain_error | Invalid_argument | Length_error
  | Logic_error | Out_of_range | Overflow_error | Processing_aborted | Range_error
  | Runtime_error | Underflow_error | Unimplemented_error | Waiting_canceled
  | Other_exn | UB

type_synonym ('s, 'a) outcome = "(exn + 'a) \<times> 's"

fun bindo :: "('s, 'a) outcome \<Rightarrow> ('a \<Rightarrow> 's \<Rightarrow> ('s, 'b) outcome) \<Rightarrow> ('s, 'b) outcome" where
  "bindo (Inl e, s) f = (Inl e, s)"
| "bindo (Inr a, s) f = f a s"

fun is_ok :: "('s, 'a) outcome \<Rightarrow> bool" where
  "is_ok (Inl e, s) = False"
| "is_ok (Inr a, s) = True"

named_theorems outcome_simps \<open>rules that evaluate an outcome\<close>

lemma bindo_assoc: "bindo (bindo m f) g = bindo m (\<lambda>a s. bindo (f a s) g)"
  by (cases "(m, f)" rule: bindo.cases) auto

lemma bindo_split:
  "P (bindo m f) =
     ((\<forall>e s. m = (Inl e, s) \<longrightarrow> P (Inl e, s)) \<and> (\<forall>a s. m = (Inr a, s) \<longrightarrow> P (f a s)))"
  by (cases "(m, f)" rule: bindo.cases) auto

lemma bindo_InrD:
  assumes "bindo m f = (Inr b, t)"
  obtains a s where "m = (Inr a, s)" and "f a s = (Inr b, t)"
  using assms by (cases "(m, f)" rule: bindo.cases) auto

lemma is_ok_iff [outcome_simps]: "is_ok r \<longleftrightarrow> (\<exists>a. fst r = Inr a)"
  by (cases r rule: is_ok.cases) auto

text \<open>Results without a state, for the functions that only read.\<close>

fun and_then :: "exn + 'a \<Rightarrow> ('a \<Rightarrow> exn + 'b) \<Rightarrow> exn + 'b" where
  "and_then (Inl e) f = Inl e"
| "and_then (Inr x) f = f x"

lemma and_then_Inr: "and_then r f = Inr y \<longleftrightarrow> (\<exists>x. r = Inr x \<and> f x = Inr y)"
  by (cases r) auto

text \<open>A loop over a list whose body may throw: the first exception stops it.\<close>

fun foreach :: "('x \<Rightarrow> 's \<Rightarrow> ('s, unit) outcome) \<Rightarrow> 'x list \<Rightarrow> 's \<Rightarrow> ('s, unit) outcome" where
  "foreach f [] s = (Inr (), s)"
| "foreach f (x # xs) s = bindo (f x s) (\<lambda>_ s'. foreach f xs s')"

lemma foreach_append:
  "foreach f (xs @ ys) s = bindo (foreach f xs s) (\<lambda>_. foreach f ys)"
proof (induction xs arbitrary: s)
  case (Cons x xs)
  then have "(\<lambda>_. foreach f (xs @ ys)) = (\<lambda>(_::unit) s. bindo (foreach f xs s) (\<lambda>_. foreach f ys))"
    by (simp add: fun_eq_iff)
  then show ?case by (simp add: bindo_assoc)
qed simp

lemma foreach_invariant:
  assumes "\<And>x s. x \<in> set xs \<Longrightarrow> P s \<Longrightarrow> P (snd (f x s))" and "P s"
  shows "P (snd (foreach f xs s))"
  using assms
proof (induction xs arbitrary: s)
  case Nil
  then show ?case by simp
next
  case (Cons x xs)
  from Cons.prems have step: "P (snd (f x s))" by simp
  show ?case
    using step Cons.IH Cons.prems(1) by (cases "f x s"; cases "fst (f x s)") auto
qed

lemma foreach_ok:
  assumes "\<And>x s. x \<in> set xs \<Longrightarrow> P s \<Longrightarrow> \<exists>s'. f x s = (Inr (), s') \<and> P s'" and "P s"
  shows "\<exists>s'. foreach f xs s = (Inr (), s') \<and> P s'"
  using assms
proof (induction xs arbitrary: s)
  case Nil
  then show ?case by simp
next
  case (Cons x xs)
  then obtain s1 where "f x s = (Inr (), s1)" and "P s1" by (meson list.set_intros(1))
  with Cons show ?case by simp
qed

lemma foreach_map: "foreach f (map h xs) s = foreach (\<lambda>x. f (h x)) xs s"
proof (induction xs arbitrary: s)
  case (Cons x xs)
  then have "(\<lambda>_. foreach f (map h xs)) = (\<lambda>(_::unit). foreach (\<lambda>x. f (h x)) xs)" by (simp add: fun_eq_iff)
  then show ?case by simp
qed simp

text \<open>A loop in a loop is one loop over the pairs, when the body keeps the inner lists.\<close>

lemma foreach_nested:
  assumes keep: "\<And>x y v. L (snd (g x y v)) = L v"
  shows "foreach (\<lambda>x v. foreach (g x) (L v x) v) xs w =
    foreach (\<lambda>(x, y). g x y) (concat (map (\<lambda>x. map (Pair x) (L w x)) xs)) w"
proof (induction xs arbitrary: w)
  case Nil
  then show ?case by simp
next
  case (Cons x xs)
  have "L (snd (foreach (g x) (L w x) w)) = L w"
    by (rule foreach_invariant [where P = "\<lambda>v. L v = L w"]) (simp_all add: keep)
  then show ?case
    by (cases "foreach (g x) (L w x) w" rule: is_ok.cases) (simp_all add: Cons.IH foreach_append foreach_map)
qed

section \<open>A contract for operations that keep an invariant\<close>

text \<open>
  The interface every stateful component of the library offers to its clients: a set of operations,
  each keeping the component's invariant whether it returns or throws. A client may then run any
  sequence of them, catching the exceptions or not.
\<close>

fun run_ops :: "('op \<Rightarrow> 's \<Rightarrow> ('s, 'a) outcome) \<Rightarrow> 'op list \<Rightarrow> 's \<Rightarrow> 's" where
  "run_ops exec [] s = s"
| "run_ops exec (x # xs) s = run_ops exec xs (snd (exec x s))"

fun all_legal ::
  "('op \<Rightarrow> 's \<Rightarrow> ('s, 'a) outcome) \<Rightarrow> ('op \<Rightarrow> 's \<Rightarrow> bool) \<Rightarrow> 'op list \<Rightarrow> 's \<Rightarrow> bool" where
  "all_legal exec legal [] s = True"
| "all_legal exec legal (x # xs) s = (legal x s \<and> all_legal exec legal xs (snd (exec x s)))"

locale invariant_ops =
  fixes exec :: "'op \<Rightarrow> 's \<Rightarrow> ('s, 'a) outcome"
    and legal :: "'op \<Rightarrow> 's \<Rightarrow> bool"
    and inv :: "'s \<Rightarrow> bool"
  assumes step_inv: "inv s \<Longrightarrow> legal x s \<Longrightarrow> inv (snd (exec x s))"
begin

lemma run_inv: "inv s \<Longrightarrow> all_legal exec legal xs s \<Longrightarrow> inv (run_ops exec xs s)"
  by (induction xs arbitrary: s) (auto intro: step_inv)

end

section \<open>Vectors\<close>

definition ins_at :: "nat \<Rightarrow> 'a \<Rightarrow> 'a list \<Rightarrow> 'a list" where
  "ins_at k x xs = take k xs @ x # drop k xs"

definition del_at :: "nat \<Rightarrow> 'a list \<Rightarrow> 'a list" where
  "del_at k xs = take k xs @ drop (Suc k) xs"

fun find_pos :: "'a \<Rightarrow> 'a list \<Rightarrow> nat option" where
  "find_pos x [] = None"
| "find_pos x (y # ys) = (if x = y then Some 0 else map_option Suc (find_pos x ys))"

lemma set_ins_at [simp]: "set (ins_at k x xs) = insert x (set xs)"
proof -
  have "set (ins_at k x xs) = insert x (set (take k xs @ drop k xs))"
    unfolding ins_at_def by (simp only: set_append list.set) blast
  then show ?thesis by (simp only: append_take_drop_id)
qed

lemma length_ins_at [simp]: "length (ins_at k x xs) = Suc (length xs)"
  by (simp add: ins_at_def)

lemma distinct_ins_at [simp]: "distinct (ins_at k x xs) \<longleftrightarrow> distinct xs \<and> x \<notin> set xs"
proof -
  have "distinct (ins_at k x xs) \<longleftrightarrow> distinct (x # (take k xs @ drop k xs))"
    unfolding ins_at_def by (simp only: distinct_append distinct.simps set_append list.set) blast
  then show ?thesis by (simp only: append_take_drop_id distinct.simps) blast
qed

lemma nth_ins_at: "k \<le> length xs \<Longrightarrow> ins_at k x xs ! k = x"
  by (simp add: ins_at_def nth_append)

lemma del_ins_at: "k \<le> length xs \<Longrightarrow> del_at k (ins_at k x xs) = xs"
  by (simp add: ins_at_def del_at_def)

lemma length_del_at: "k < length xs \<Longrightarrow> length (del_at k xs) = length xs - 1"
  by (auto simp: del_at_def)

lemma del_at_last: "del_at (length xs) (xs @ [x]) = xs"
  by (simp add: del_at_def)

lemma del_at_Suc [simp]: "del_at (Suc k) (x # xs) = x # del_at k xs"
  and del_at_0 [simp]: "del_at 0 (x # xs) = xs"
  by (simp_all add: del_at_def)

lemma find_pos_None [simp]: "find_pos x xs = None \<longleftrightarrow> x \<notin> set xs"
  by (induction xs) auto

lemma find_pos_Some: "find_pos x xs = Some k \<Longrightarrow> k < length xs \<and> xs ! k = x"
  by (induction xs arbitrary: k) (auto split: if_splits)

lemma find_pos_ex: "x \<in> set xs \<Longrightarrow> \<exists>k. find_pos x xs = Some k"
  using find_pos_None [of x xs] by (cases "find_pos x xs") auto

lemma del_find_pos: "find_pos x xs = Some k \<Longrightarrow> del_at k xs = remove1 x xs"
  by (induction xs arbitrary: k) (auto split: if_splits)

lemma find_pos_distinct:
  "distinct xs \<Longrightarrow> k < length xs \<Longrightarrow> find_pos (xs ! k) xs = Some k"
proof (induction xs arbitrary: k)
  case Nil
  then show ?case by simp
next
  case (Cons y ys)
  then show ?case by (cases k) (auto dest: nth_mem)
qed

lemma find_pos_ins_at:
  "x \<notin> set xs \<Longrightarrow> k \<le> length xs \<Longrightarrow> find_pos x (ins_at k x xs) = Some k"
proof (induction xs arbitrary: k)
  case Nil
  then show ?case by (simp add: ins_at_def)
next
  case (Cons y ys)
  then show ?case by (cases k) (auto simp: ins_at_def)
qed

section \<open>Machine integers\<close>

text \<open>
  \<open>size_cast\<close> is the conversion of an \<^verbatim>\<open>int\<close> to \<^verbatim>\<open>size_t\<close> (64 bits): \<^verbatim>\<open>(size_t)(-1)\<close> is the largest
  value of the type.
\<close>

definition size_cast :: "int \<Rightarrow> nat" where
  "size_cast i = nat (i mod 2 ^ 64)"

lemma size_cast_nonneg [simp]: "0 \<le> i \<Longrightarrow> i < 2 ^ 64 \<Longrightarrow> size_cast i = nat i"
  by (simp add: size_cast_def)

lemma size_cast_minus1: "size_cast (- 1) = 2 ^ 64 - 1"
  by (simp add: size_cast_def)

lemma size_cast_neg: "- (2 ^ 31) \<le> i \<Longrightarrow> i < 0 \<Longrightarrow> 2 ^ 63 \<le> size_cast i"
proof -
  assume "- (2 ^ 31) \<le> i" and "i < 0"
  then have "i mod 2 ^ 64 = i + 2 ^ 64"
    using mod_pos_pos_trivial [of "i + 2 ^ 64" "2 ^ 64"] by simp
  with \<open>- (2 ^ 31) \<le> i\<close> show ?thesis by (simp add: size_cast_def)
qed

text \<open>The subtraction of two \<^verbatim>\<open>size_t\<close> wraps.\<close>

definition size_sub :: "nat \<Rightarrow> nat \<Rightarrow> nat" where
  "size_sub a b = (if b \<le> a then a - b else a + 2 ^ 64 - b)"

text \<open>\<^verbatim>\<open>std::to_string\<close> of an unsigned integer: its decimal digits.\<close>

fun nat_to_string :: "nat \<Rightarrow> string" where
  "nat_to_string n =
     (if n < 10 then [char_of (48 + n)] else nat_to_string (n div 10) @ [char_of (48 + n mod 10)])"

declare nat_to_string.simps [simp del]

lemma nat_to_string_nonempty [simp]: "nat_to_string n \<noteq> []"
  by (subst nat_to_string.simps) simp

end
