(* ===== verification/Runtime_State.thy ===== *)
theory Runtime_State
  imports Prelude
begin

text \<open>
  The data of the runtime: the objects \<^verbatim>\<open>runtime::Socket\<close>, \<^verbatim>\<open>runtime::Task\<close> and \<^verbatim>\<open>module::Module\<close>
  as records (one field per member of the class the development uses), and the store \<open>world\<close> that
  holds them. Objects point at each other, so they live in the store under an address: \<open>sid\<close> for a
  socket, \<open>tid\<close> for a task, \<open>mid\<close> for a module. A data pointer is null or a block of the memory and
  an offset in it.
\<close>

section \<open>Types of the runtime\<close>

type_synonym sid = nat
type_synonym tid = nat
type_synonym mid = nat
type_synonym byte = "8 word"

datatype ptr = Null | Ptr nat int

datatype socket_t = SIN | SOUT | SFWD

datatype type_index =
  T_int8 | T_uint8 | T_int16 | T_uint16 | T_int32 | T_uint32 | T_int64 | T_uint64
  | T_float | T_double | T_other nat

text \<open>
  The two tables \<^verbatim>\<open>type_to_string\<close> and \<^verbatim>\<open>type_to_size\<close> are \<^verbatim>\<open>std::unordered_map\<close>s read with
  \<^verbatim>\<open>operator[]\<close>: a type they do not hold reads as the empty string and as 0.
\<close>

fun type_to_string :: "type_index \<Rightarrow> string" where
  "type_to_string T_int8 = ''int8''"
| "type_to_string T_uint8 = ''uint8''"
| "type_to_string T_int16 = ''int16''"
| "type_to_string T_uint16 = ''uint16''"
| "type_to_string T_int32 = ''int32''"
| "type_to_string T_uint32 = ''uint32''"
| "type_to_string T_int64 = ''int64''"
| "type_to_string T_uint64 = ''uint64''"
| "type_to_string T_float = ''float32''"
| "type_to_string T_double = ''float64''"
| "type_to_string (T_other _) = ''''"

fun type_to_size :: "type_index \<Rightarrow> nat" where
  "type_to_size T_int8 = 1"
| "type_to_size T_uint8 = 1"
| "type_to_size T_int16 = 2"
| "type_to_size T_uint16 = 2"
| "type_to_size T_int32 = 4"
| "type_to_size T_uint32 = 4"
| "type_to_size T_int64 = 8"
| "type_to_size T_uint64 = 8"
| "type_to_size T_float = 4"
| "type_to_size T_double = 8"
| "type_to_size (T_other _) = 0"

text \<open>A \<^verbatim>\<open>std::vector\<close> of bytes: the block of its storage (0 before the first allocation).\<close>

record vec =
  v_block :: nat
  v_cap :: nat
  v_size :: nat

definition empty_vec :: vec where
  "empty_vec = \<lparr>v_block = 0, v_cap = 0, v_size = 0\<rparr>"

definition vec_data :: "vec \<Rightarrow> ptr" where
  "vec_data v = (if v_block v = 0 then Null else Ptr (v_block v) 0)"

definition vec_clear :: "vec \<Rightarrow> vec" where
  "vec_clear v = v\<lparr>v_size := 0\<rparr>"

section \<open>Objects\<close>

record socket =
  s_task :: tid
  s_name :: string
  s_datatype :: type_index
  s_databytes :: nat
  s_fast :: bool
  s_dataptr :: ptr
  s_n_rows :: nat
  s_start_row :: nat
  s_bound_sockets :: "sid list"
  s_bound_socket :: "sid option"
  s_type :: socket_t
  s_out_buffer :: vec

record task =
  t_module :: mid
  t_name :: string
  t_stats :: bool
  t_fast :: bool
  t_debug :: bool
  t_debug_hex :: bool
  t_debug_limit :: "32 word"
  t_debug_precision :: "8 word"
  t_debug_frame_max :: "32 word"
  t_outbuffers_allocated :: bool
  t_replicable :: bool
  t_n_input_sockets :: nat
  t_n_output_sockets :: nat
  t_n_fwd_sockets :: nat
  t_status :: vec
  t_n_calls :: "32 word"
  t_duration_total :: int
  t_duration_min :: int
  t_duration_max :: int
  t_timers_name :: "string list"
  t_timers_n_calls :: "32 word list"
  t_timers_total :: "int list"
  t_timers_min :: "int list"
  t_timers_max :: "int list"
  t_last_input_socket :: "sid option"
  t_dataptr_init :: "ptr list"
  t_databytes_per_frame :: "nat list"
  t_data :: "vec list"
  t_fake_input_sockets :: "sid list"
  t_sockets :: "sid list"

record module =
  m_n_frames :: nat
  m_n_frames_per_wave :: nat
  m_n_waves :: nat
  m_n_frames_per_wave_rest :: nat
  m_single_wave :: bool
  m_name :: string
  m_short_name :: string
  m_custom_name :: string
  m_tasks :: "tid list"
  m_tasks_with_nullptr :: "tid option list"
  m_clonable :: bool
  m_stateless :: bool
  m_is_set :: bool

record world =
  socks :: "sid \<Rightarrow> socket"
  tsks :: "tid \<Rightarrow> task"
  mods :: "mid \<Rightarrow> module"
  mem :: "nat \<Rightarrow> byte list"
  next_sock :: sid
  next_task :: tid
  next_block :: nat
  task_autoalloc :: bool

definition upd_sck :: "sid \<Rightarrow> (socket \<Rightarrow> socket) \<Rightarrow> world \<Rightarrow> world" where
  "upd_sck i f w = w\<lparr>socks := (socks w)(i := f (socks w i))\<rparr>"

definition upd_tsk :: "tid \<Rightarrow> (task \<Rightarrow> task) \<Rightarrow> world \<Rightarrow> world" where
  "upd_tsk i f w = w\<lparr>tsks := (tsks w)(i := f (tsks w i))\<rparr>"

definition upd_mod :: "mid \<Rightarrow> (module \<Rightarrow> module) \<Rightarrow> world \<Rightarrow> world" where
  "upd_mod i f w = w\<lparr>mods := (mods w)(i := f (mods w i))\<rparr>"

text \<open>
  \<^verbatim>\<open>std::vector::resize\<close>: within the capacity the storage stays where it is; beyond it the elements
  move to a new block. New bytes are zero.
\<close>

definition resize_bytes :: "nat \<Rightarrow> byte list \<Rightarrow> byte list" where
  "resize_bytes n bs = take n bs @ replicate (n - length bs) 0"

definition vec_resize :: "nat \<Rightarrow> vec \<Rightarrow> world \<Rightarrow> vec \<times> world" where
  "vec_resize n v w =
     (if n \<le> v_cap v
      then (v\<lparr>v_size := n\<rparr>,
            w\<lparr>mem := (mem w)(v_block v := resize_bytes n (take (v_size v) (mem w (v_block v))))\<rparr>)
      else (let b = next_block w in
        (\<lparr>v_block = b, v_cap = n, v_size = n\<rparr>,
         w\<lparr>mem := (mem w)(b := resize_bytes n (take (v_size v) (mem w (v_block v)))),
           next_block := Suc b\<rparr>)))"

lemmas world_upd_defs = upd_sck_def upd_tsk_def upd_mod_def

lemma upd_sck_sel [simp]:
  "socks (upd_sck i f w) j = (if j = i then f (socks w i) else socks w j)"
  "tsks (upd_sck i f w) = tsks w" "mods (upd_sck i f w) = mods w" "mem (upd_sck i f w) = mem w"
  "next_sock (upd_sck i f w) = next_sock w" "next_task (upd_sck i f w) = next_task w"
  "next_block (upd_sck i f w) = next_block w" "task_autoalloc (upd_sck i f w) = task_autoalloc w"
  by (simp_all add: upd_sck_def)

lemma upd_tsk_sel [simp]:
  "tsks (upd_tsk i g w) j = (if j = i then g (tsks w i) else tsks w j)"
  "socks (upd_tsk i g w) = socks w" "mods (upd_tsk i g w) = mods w" "mem (upd_tsk i g w) = mem w"
  "next_sock (upd_tsk i g w) = next_sock w" "next_task (upd_tsk i g w) = next_task w"
  "next_block (upd_tsk i g w) = next_block w" "task_autoalloc (upd_tsk i g w) = task_autoalloc w"
  by (simp_all add: upd_tsk_def)

lemma upd_mod_sel [simp]:
  "mods (upd_mod i h w) j = (if j = i then h (mods w i) else mods w j)"
  "socks (upd_mod i h w) = socks w" "tsks (upd_mod i h w) = tsks w" "mem (upd_mod i h w) = mem w"
  "next_sock (upd_mod i h w) = next_sock w" "next_task (upd_mod i h w) = next_task w"
  "next_block (upd_mod i h w) = next_block w" "task_autoalloc (upd_mod i h w) = task_autoalloc w"
  by (simp_all add: upd_mod_def)

lemma upd_sck_upd_sck [simp]: "upd_sck i g (upd_sck i f w) = upd_sck i (\<lambda>s. g (f s)) w"
  by (simp add: upd_sck_def)

lemma upd_sck_id: "f (socks w i) = socks w i \<Longrightarrow> upd_sck i f w = w"
  by (simp add: upd_sck_def fun_upd_idem)

lemma upd_sck_commute: "i \<noteq> j \<Longrightarrow> upd_sck i f (upd_sck j g w) = upd_sck j g (upd_sck i f w)"
  by (simp add: upd_sck_def fun_upd_twist)

section \<open>Blank objects\<close>

text \<open>Objects with every member at its default: what the examples of the other theories start from.\<close>

definition blank_socket :: "socket_t \<Rightarrow> socket" where
  "blank_socket ty = \<lparr>s_task = 0, s_name = [], s_datatype = T_int32, s_databytes = 4, s_fast = False,
     s_dataptr = Null, s_n_rows = 1, s_start_row = 0, s_bound_sockets = [], s_bound_socket = None,
     s_type = ty, s_out_buffer = empty_vec\<rparr>"

definition blank_task :: task where
  "blank_task = \<lparr>t_module = 0, t_name = [], t_stats = False, t_fast = False, t_debug = False,
     t_debug_hex = False, t_debug_limit = -1, t_debug_precision = 2, t_debug_frame_max = -1,
     t_outbuffers_allocated = False, t_replicable = False, t_n_input_sockets = 0,
     t_n_output_sockets = 0, t_n_fwd_sockets = 0, t_status = empty_vec, t_n_calls = 0,
     t_duration_total = 0, t_duration_min = 0, t_duration_max = 0, t_timers_name = [],
     t_timers_n_calls = [], t_timers_total = [], t_timers_min = [], t_timers_max = [],
     t_last_input_socket = None, t_dataptr_init = [], t_databytes_per_frame = [], t_data = [],
     t_fake_input_sockets = [], t_sockets = []\<rparr>"

definition blank_module :: module where
  "blank_module = \<lparr>m_n_frames = 1, m_n_frames_per_wave = 1, m_n_waves = 1,
     m_n_frames_per_wave_rest = 0, m_single_wave = False, m_name = ''Module'',
     m_short_name = ''Module'', m_custom_name = [], m_tasks = [], m_tasks_with_nullptr = [],
     m_clonable = True, m_stateless = True, m_is_set = False\<rparr>"

definition blank_world :: "(sid \<Rightarrow> socket_t) \<Rightarrow> nat \<Rightarrow> world" where
  "blank_world ty n = \<lparr>socks = (\<lambda>i. blank_socket (ty i)), tsks = (\<lambda>_. blank_task),
     mods = (\<lambda>_. blank_module), mem = (\<lambda>_. []), next_sock = n, next_task = 1, next_block = 1,
     task_autoalloc = False\<rparr>"

lemmas blank_defs = blank_world_def blank_socket_def blank_task_def blank_module_def

end
