(* ===== verification/Float32.thy ===== *)
theory Float32
  imports Main
begin

text \<open>
  The rounding the code relies on when it divides two counts in single precision, as in
  \<^verbatim>\<open>std::ceil((float)n_frames / (float)n_frames_per_wave)\<close>. A positive \<^verbatim>\<open>float\<close> is a mantissa of 24
  bits times a power of two; conversion and division round to the nearest one, ties to even. The
  exponent range is not bounded here: counts of 64 bits and their quotients stay far inside it.
\<close>

section \<open>Rounding to nearest, ties to even\<close>

definition rne :: "nat \<Rightarrow> nat \<Rightarrow> nat" where
  "rne n m =
     (let q = n div m; r = n mod m in
      if 2 * r < m then q else if 2 * r > m then q + 1 else if even q then q else q + 1)"

text \<open>The number of bits of a natural number.\<close>

fun bit_len :: "nat \<Rightarrow> nat" where
  "bit_len n = (if n = 0 then 0 else Suc (bit_len (n div 2)))"

declare bit_len.simps [simp del]

text \<open>\<^verbatim>\<open>(float)n\<close> for a natural number: the low bits beyond the 24 leading ones are rounded away.\<close>

definition float_of_nat :: "nat \<Rightarrow> nat" where
  "float_of_nat n = (let k = bit_len n - 24 in rne n (2 ^ k) * 2 ^ k)"

text \<open>
  The quotient of two floats that hold natural numbers. With \<open>e\<close> the exponent of the quotient, the
  mantissa is the quotient scaled by \<open>2 ^ (23 - e)\<close> and rounded; the result is the pair of the
  mantissa and of the scale. \<open>float_exp\<close> is the exponent: the largest \<open>e\<close> with \<open>2 ^ e \<le> n / m\<close>.
\<close>

definition float_exp :: "nat \<Rightarrow> nat \<Rightarrow> int" where
  "float_exp n m =
     (let d = int (bit_len n) - int (bit_len m) in
      if (if 0 \<le> d then m * 2 ^ nat d \<le> n else m \<le> n * 2 ^ nat (- d)) then d else d - 1)"

definition float_div :: "nat \<Rightarrow> nat \<Rightarrow> nat \<times> int" where
  "float_div n m =
     (let s = 23 - float_exp n m in
      (if 0 \<le> s then rne (n * 2 ^ nat s) m else rne n (m * 2 ^ nat (- s)), s))"

text \<open>\<^verbatim>\<open>std::ceil\<close> of such a result, converted to an integer.\<close>

definition float_ceil :: "nat \<times> int \<Rightarrow> nat" where
  "float_ceil x = (case x of (k, s) \<Rightarrow>
     if 0 \<le> s then (k + 2 ^ nat s - 1) div 2 ^ nat s else k * 2 ^ nat (- s))"

definition ceil_div :: "nat \<Rightarrow> nat \<Rightarrow> nat" where
  "ceil_div n m = (n + m - 1) div m"

text \<open>\<^verbatim>\<open>std::ceil((float)n / (float)m)\<close>; a quotient of zero is exact.\<close>

definition float_ceil_div :: "nat \<Rightarrow> nat \<Rightarrow> nat" where
  "float_ceil_div n m =
     (if n = 0 then 0 else float_ceil (float_div (float_of_nat n) (float_of_nat m)))"

section \<open>Exactness on counts below \<open>2 ^ 24\<close>\<close>

lemma rne_exact: "0 < m \<Longrightarrow> rne (q * m) m = q"
  by (simp add: rne_def)

lemma rne_one [simp]: "rne n 1 = n" "rne n (Suc 0) = n"
  using rne_exact [of 1 n] by simp_all

lemma bit_len_bounds:
  assumes "0 < n"
  shows "2 ^ (bit_len n - 1) \<le> n" and "n < 2 ^ bit_len n" and "0 < bit_len n"
proof -
  have "2 ^ (bit_len n - 1) \<le> n \<and> n < 2 ^ bit_len n" using assms
  proof (induction n rule: bit_len.induct)
    case (1 n)
    show ?case
    proof (cases "n = 1")
      case True
      then show ?thesis by (simp add: bit_len.simps [of "Suc 0"] bit_len.simps [of 0])
    next
      case False
      with 1 have IH: "2 ^ (bit_len (n div 2) - 1) \<le> n div 2" "n div 2 < 2 ^ bit_len (n div 2)"
        by auto
      have "bit_len (n div 2) \<noteq> 0" using IH(2) False 1(2) by (intro notI) auto
      then obtain k where k: "bit_len (n div 2) = Suc k" by (cases "bit_len (n div 2)") auto
      have "bit_len n = Suc (Suc k)" using 1(2) k by (subst bit_len.simps) simp
      with IH k show ?thesis by auto
    qed
  qed
  then show "2 ^ (bit_len n - 1) \<le> n" and "n < 2 ^ bit_len n" by simp_all
  show "0 < bit_len n" using assms by (subst bit_len.simps) simp
qed

lemma bit_len_le: "n < 2 ^ k \<Longrightarrow> bit_len n \<le> k"
proof (cases "n = 0")
  case True
  then show ?thesis by (subst bit_len.simps) simp
next
  case False
  assume "n < 2 ^ k"
  with bit_len_bounds [of n] False have "(2::nat) ^ (bit_len n - 1) < 2 ^ k" by linarith
  then have "bit_len n - 1 < k" by (rule power_less_imp_less_exp [rotated]) simp
  then show ?thesis by simp
qed

lemma bit_len_mono: "n \<le> m \<Longrightarrow> bit_len n \<le> bit_len m"
proof (cases "m = 0")
  case False
  assume "n \<le> m"
  also have "m < 2 ^ bit_len m" using bit_len_bounds(2) False by simp
  finally show ?thesis by (rule bit_len_le)
qed simp

lemma float_of_nat_exact: "n < 2 ^ 24 \<Longrightarrow> float_of_nat n = n"
  by (simp add: float_of_nat_def bit_len_le)

text \<open>With quotient at least 1 the exponent brackets it.\<close>

lemma float_exp_bounds:
  assumes "0 < m" and "m \<le> n"
  shows "0 \<le> float_exp n m" and "m * 2 ^ nat (float_exp n m) \<le> n"
    and "n < m * 2 ^ (nat (float_exp n m) + 1)"
proof -
  let ?a = "bit_len n" and ?b = "bit_len m"
  from assms have n: "0 < n" by simp
  note A = bit_len_bounds [OF n] and B = bit_len_bounds [OF assms(1)]
  have ba: "?b \<le> ?a" using assms by (simp add: bit_len_mono)
  define d where "d = ?a - ?b"
  have a: "?a = ?b + d" using ba by (simp add: d_def)
  have d_int: "int ?a - int ?b = int d" by (simp add: a)
  have up: "n < m * 2 ^ (d + 1)"
  proof -
    have "?b - 1 + (d + 1) = ?a" using B(3) a by simp
    then have "2 ^ ?a = 2 ^ (?b - 1) * (2::nat) ^ (d + 1)" by (metis power_add)
    with A(2) have "n < 2 ^ (?b - 1) * 2 ^ (d + 1)" by simp
    also have "\<dots> \<le> m * 2 ^ (d + 1)" using B(1) by simp
    finally show ?thesis .
  qed
  have lo: "m * 2 ^ (d - 1) \<le> n" if "0 < d"
  proof -
    have "m * 2 ^ (d - 1) \<le> 2 ^ ?b * 2 ^ (d - 1)" using B(2) by simp
    also have "\<dots> = 2 ^ (?a - 1)" using a that by (simp flip: power_add)
    also have "\<dots> \<le> n" using A(1) .
    finally show ?thesis .
  qed
  have e: "float_exp n m = (if m * 2 ^ d \<le> n then int d else int d - 1)"
    by (simp add: float_exp_def d_int Let_def)
  have d0: "0 < d" if "\<not> m * 2 ^ d \<le> n" using that assms(2) by (cases d) auto
  show "0 \<le> float_exp n m" using e d0 by (auto split: if_splits)
  show "m * 2 ^ nat (float_exp n m) \<le> n"
    using e lo d0 by (auto simp: nat_diff_distrib split: if_splits)
  show "n < m * 2 ^ (nat (float_exp n m) + 1)"
  proof (cases "m * 2 ^ d \<le> n")
    case True
    with e up show ?thesis by simp
  next
    case False
    with d0 obtain k where "d = Suc k" by (cases d) auto
    with False e show ?thesis by simp
  qed
qed

lemma float_exp_neg:
  assumes "n < m" and "0 < n"
  shows "float_exp n m < 0"
proof -
  have "bit_len n \<le> bit_len m" using assms by (simp add: bit_len_mono)
  with assms show ?thesis by (auto simp: float_exp_def Let_def)
qed

text \<open>Rounding stays on the side of an integer bound that the exact quotient is on.\<close>

lemma rne_le: "0 < m \<Longrightarrow> n \<le> k * m \<Longrightarrow> rne n m \<le> k"
proof -
  assume m: "0 < m" and le: "n \<le> k * m"
  show ?thesis
  proof (cases "n = k * m")
    case True
    with m show ?thesis by (simp add: rne_exact)
  next
    case False
    with le m have "n div m < k" by (simp add: div_less_iff_less_mult)
    then show ?thesis by (simp add: rne_def Let_def)
  qed
qed

lemma rne_gt: "0 < m \<Longrightarrow> k * m + r \<le> n \<Longrightarrow> m < 2 * r \<Longrightarrow> k < rne n m"
proof -
  assume m: "0 < m" and le: "k * m + r \<le> n" and r: "m < 2 * r"
  have "k \<le> n div m" using m le by (simp add: less_eq_div_iff_mult_less_eq)
  moreover have "2 * (n mod m) > m" if "n div m = k"
  proof -
    have "k * m + n mod m = n" using that by (metis div_mult_mod_eq)
    with le r show ?thesis by simp
  qed
  ultimately show ?thesis by (auto simp: rne_def Let_def le_less)
qed

lemma ceil_div_bounds:
  assumes "0 < m" and "0 < n"
  shows "n \<le> ceil_div n m * m" and "0 < ceil_div n m" and "(ceil_div n m - 1) * m < n"
proof -
  have "n + m - 1 < m + ceil_div n m * m"
    using assms dividend_less_div_times [of m "n + m - 1"] by (simp add: ceil_div_def)
  then show "n \<le> ceil_div n m * m" using assms by simp
  then show c: "0 < ceil_div n m" using assms(2) by (cases "ceil_div n m") auto
  have "ceil_div n m * m \<le> n + m - 1" by (simp add: ceil_div_def)
  with c assms show "(ceil_div n m - 1) * m < n" by (cases "ceil_div n m") auto
qed

lemma ceil_div_unique:
  fixes n m c :: nat
  assumes "0 < m" and "n \<le> c * m" and "(c - 1) * m < n"
  shows "(n + m - 1) div m = c"
proof (rule div_nat_eqI)
  show "m * c \<le> n + m - 1" using assms by (cases c) (auto simp: mult.commute)
  show "n + m - 1 < m * Suc c" using assms by (simp add: mult.commute)
qed

lemma float_ceil_div_ge:
  assumes "0 < m" and "m \<le> n" and "n < 2 ^ 24"
  shows "float_ceil (float_div n m) = ceil_div n m"
proof -
  define e where "e = nat (float_exp n m)"
  note E = float_exp_bounds [OF assms(1,2), folded e_def]
  have "2 ^ e \<le> m * 2 ^ e" using assms(1) by simp
  with E(2) assms(3) have "(2::nat) ^ e < 2 ^ 24" by linarith
  then have e24: "e < 24" by (rule power_less_imp_less_exp [rotated]) simp
  define s where "s = 23 - e"
  have s: "23 - float_exp n m = int s" using E(1) e24 by (simp add: s_def e_def)
  let ?c = "ceil_div n m" and ?k = "rne (n * 2 ^ s) m"
  have n0: "0 < n" using assms by simp
  note C = ceil_div_bounds [OF assms(1) n0]
  have "n * 2 ^ s \<le> ?c * 2 ^ s * m" using C(1) by (simp add: mult.commute mult.left_commute)
  then have up: "?k \<le> ?c * 2 ^ s" using assms(1) by (intro rne_le) auto
  have "m * 2 ^ 23 = m * 2 ^ e * 2 ^ s" using e24 by (simp add: s_def flip: power_add)
  also have "\<dots> \<le> n * 2 ^ s" using E(2) by simp
  finally have "m * 2 ^ 23 < 2 ^ 24 * 2 ^ s"
    using assms(3) by (metis le_less_trans mult_less_mono1 zero_less_numeral zero_less_power)
  then have half: "m < 2 * 2 ^ s" by simp
  have "((?c - 1) * m + 1) * 2 ^ s \<le> n * 2 ^ s" using C(3) by (intro mult_le_mono1) simp
  then have "(?c - 1) * 2 ^ s * m + 2 ^ s \<le> n * 2 ^ s"
    by (simp add: distrib_right mult.commute mult.left_commute)
  then have lo: "(?c - 1) * 2 ^ s < ?k" using rne_gt [OF assms(1) _ half] by blast
  have "(?k + 2 ^ s - 1) div 2 ^ s = ?c" using up lo by (intro ceil_div_unique) auto
  then show ?thesis by (simp add: float_ceil_def float_div_def Let_def s)
qed

lemma float_ceil_div_lt:
  assumes "0 < n" and "n < m" and "m < 2 ^ 24"
  shows "float_ceil (float_div n m) = 1"
proof -
  have "0 < m" using assms by simp
  have e: "float_exp n m < 0" using assms by (intro float_exp_neg)
  define s where "s = nat (23 - float_exp n m)"
  have s: "23 - float_exp n m = int s" "24 \<le> s" using e by (simp_all add: s_def)
  let ?k = "rne (n * 2 ^ s) m"
  have up: "?k \<le> 2 ^ s" using assms by (intro rne_le) auto
  have "(2::nat) ^ 24 \<le> 2 ^ s" using s(2) by (rule power_increasing) simp
  also have "\<dots> \<le> n * 2 ^ s" using assms(1) by simp
  finally have "m < 2 * (n * 2 ^ s)" using assms(3) by linarith
  then have lo: "0 < ?k" using \<open>0 < m\<close> by (intro rne_gt [where r = "n * 2 ^ s"]) auto
  have "(?k + 2 ^ s - 1) div 2 ^ s = 1" using up lo by (intro ceil_div_unique) auto
  then show ?thesis by (simp add: float_ceil_def float_div_def Let_def s)
qed

lemma float_ceil_div_exact:
  assumes "0 < m" and "m < 2 ^ 24" and "n < 2 ^ 24"
  shows "float_ceil_div n m = ceil_div n m"
proof (cases "n = 0")
  case True
  with assms show ?thesis by (simp add: float_ceil_div_def ceil_div_def)
next
  case False
  have one: "ceil_div n m = 1" if "n < m"
    unfolding ceil_div_def using that False by (intro ceil_div_unique) auto
  show ?thesis
    using False assms float_ceil_div_ge [of m n] float_ceil_div_lt [of n m] one
    by (cases "n < m") (simp_all add: float_ceil_div_def float_of_nat_exact)
qed

lemma float_ceil_div_large: "float_ceil_div (2 ^ 24 + 1) 1 = 2 ^ 24"
  by (simp add: float_ceil_div_def float_of_nat_def float_div_def float_ceil_def float_exp_def
      bit_len.simps rne_def)

end
