(* ===== verification/Sockets.thy ===== *)
theory Sockets
  imports Runtime_State
begin

text \<open>
  \<^verbatim>\<open>runtime::Socket\<close> (\<^verbatim>\<open>include/Runtime/Socket/Socket.hxx\<close>): construction, binding of an input or
  forward socket to an output or forward socket, unbinding, buffers and setters, as operations on the
  store \<open>world\<close>. The build has \<^verbatim>\<open>SPU_FAST\<close> undefined (the default), so all checks are there.

  A link is written twice: \<^verbatim>\<open>bound_socket\<close> of the input side and an entry of \<^verbatim>\<open>bound_sockets\<close> of the
  output side. \<open>wf_links\<close> says that the two sides agree and that no entry is repeated. The lemmas show
  what each operation does to the links and that \<open>wf_links\<close> is kept, with the one exception of the
  rebinding of a forward socket.
\<close>

section \<open>Operations\<close>

subsection \<open>Construction and getters\<close>

definition new_socket ::
  "tid \<Rightarrow> string \<Rightarrow> type_index \<Rightarrow> nat \<times> nat \<Rightarrow> socket_t \<Rightarrow> bool \<Rightarrow> ptr \<Rightarrow> world \<Rightarrow> (world, sid) outcome" where
  "new_socket t name dt dim ty fast p w =
     (let databytes = fst dim * snd dim in
      if type_to_size dt = 0 then (Inl UB, w)
      else if databytes mod type_to_size dt \<noteq> 0 then (Inl Runtime_error, w)
      else (Inr (next_sock w),
        w\<lparr>socks := (socks w)(next_sock w :=
            \<lparr>s_task = t, s_name = name, s_datatype = dt, s_databytes = databytes, s_fast = fast,
             s_dataptr = p, s_n_rows = fst dim, s_start_row = 0, s_bound_sockets = [],
             s_bound_socket = None, s_type = ty, s_out_buffer = empty_vec\<rparr>),
          next_sock := Suc (next_sock w)\<rparr>))"

definition get_n_elmts :: "socket \<Rightarrow> nat" where
  "get_n_elmts s = s_databytes s div type_to_size (s_datatype s)"

fun ptr_add :: "ptr \<Rightarrow> int \<Rightarrow> ptr" where
  "ptr_add Null k = Null"
| "ptr_add (Ptr b off) k = Ptr b (off + k)"

definition get_dataptr :: "socket \<Rightarrow> nat \<Rightarrow> ptr" where
  "get_dataptr s start_col = ptr_add (s_dataptr s) (int start_col)"

definition get_bound_socket :: "sid \<Rightarrow> world \<Rightarrow> exn + sid" where
  "get_bound_socket i w =
     (case s_bound_socket (socks w i) of None \<Rightarrow> Inl Runtime_error | Some b \<Rightarrow> Inr b)"

text \<open>
  \<^verbatim>\<open>_get_2d_dataptr\<close>: the table of row pointers, seen from \<^verbatim>\<open>start_row\<close>. The two \<^verbatim>\<open>assert\<close>s abort the
  program, which is \<open>Other_exn\<close> here.
\<close>

definition get_2d_dataptr :: "sid \<Rightarrow> nat \<Rightarrow> nat \<Rightarrow> world \<Rightarrow> (world, ptr list) outcome" where
  "get_2d_dataptr i start_row start_col w =
     (let s = socks w i; n_cols = s_databytes s div s_n_rows s in
      if \<not> start_row < s_n_rows s then (Inl Other_exn, w)
      else if \<not> start_col < n_cols then (Inl Other_exn, w)
      else (Inr (drop start_row
                  (map (\<lambda>r. ptr_add (get_dataptr s 0) (int (start_col + r * n_cols))) [0..<s_n_rows s])),
            upd_sck i (\<lambda>s. s\<lparr>s_start_row := start_row\<rparr>) w))"

definition set_fast_sck :: "bool \<Rightarrow> sid \<Rightarrow> world \<Rightarrow> world" where
  "set_fast_sck b i w = upd_sck i (\<lambda>s. s\<lparr>s_fast := b\<rparr>) w"

subsection \<open>Links\<close>

definition unbind_sck :: "sid \<Rightarrow> sid \<Rightarrow> world \<Rightarrow> (world, nat) outcome" where
  "unbind_sck i out w =
     (if s_bound_socket (socks w i) = None then (Inl Runtime_error, w)
      else if s_bound_socket (socks w i) \<noteq> Some out then (Inl Runtime_error, w)
      else (let w1 = upd_sck i (\<lambda>s. s\<lparr>s_bound_socket := None\<rparr>) w in
        case find_pos i (s_bound_sockets (socks w1 out)) of
          None \<Rightarrow> (Inl Runtime_error, w1)
        | Some pos \<Rightarrow> (Inr pos,
            upd_sck out (\<lambda>s. s\<lparr>s_bound_sockets := del_at pos (s_bound_sockets s)\<rparr>) w1)))"

definition insert_bound :: "int \<Rightarrow> sid \<Rightarrow> sid list \<Rightarrow> sid list" where
  "insert_bound priority i bs =
     (if size_cast priority > length bs \<or> priority = -1 then bs @ [i] else ins_at (nat priority) i bs)"

definition bind_sck :: "sid \<Rightarrow> sid \<Rightarrow> int \<Rightarrow> world \<Rightarrow> (world, unit) outcome" where
  "bind_sck i out priority w =
     (let this = socks w i; s_out = socks w out in
      if \<not> s_fast this \<and> s_datatype s_out \<noteq> s_datatype this then (Inl Runtime_error, w)
      else if \<not> s_fast this \<and> s_databytes s_out \<noteq> s_databytes this then (Inl Runtime_error, w)
      else if \<not> s_fast this \<and> t_outbuffers_allocated (tsks w (s_task s_out)) \<and> s_dataptr s_out = Null
      then (Inl Runtime_error, w)
      else bindo
        (if s_bound_socket this = Some out then unbind_sck i out w else (Inr 0, w))
        (\<lambda>_ w1.
          if s_bound_socket (socks w1 i) \<noteq> None \<and> s_type (socks w1 i) = SIN
          then (Inl Runtime_error, w1)
          else (let w2 = upd_sck i (\<lambda>s. s\<lparr>s_bound_socket := Some out\<rparr>) w1 in
            if i \<in> set (s_bound_sockets (socks w2 out)) then (Inl Runtime_error, w2)
            else (let w3 = upd_sck out
                    (\<lambda>s. s\<lparr>s_bound_sockets := insert_bound priority i (s_bound_sockets s)\<rparr>) w2
              in (Inr (), upd_sck i (\<lambda>s. s\<lparr>s_dataptr := s_dataptr (socks w3 out)\<rparr>) w3)))))"

text \<open>\<^verbatim>\<open>operator=(Socket&)\<close>: the direction of the bind follows from the types of the two sides.\<close>

definition assign_sck :: "sid \<Rightarrow> sid \<Rightarrow> world \<Rightarrow> (world, unit) outcome" where
  "assign_sck i j w =
     (let this = s_type (socks w i); s = s_type (socks w j) in
      if (s = SOUT \<or> s = SFWD) \<and> (this = SIN \<or> this = SFWD) then bind_sck i j (-1) w
      else if (s = SIN \<or> s = SFWD) \<and> (this = SOUT \<or> this = SFWD) then bind_sck j i (-1) w
      else if s = SFWD \<and> this = SFWD then bind_sck i j (-1) w
      else (Inl Runtime_error, w))"

text \<open>\<^verbatim>\<open>reset\<close>: the loop goes backward because each \<^verbatim>\<open>unbind\<close> shortens the vector it reads.\<close>

fun reset_back :: "sid \<Rightarrow> nat \<Rightarrow> world \<Rightarrow> (world, unit) outcome" where
  "reset_back i 0 w = (Inr (), w)"
| "reset_back i (Suc n) w =
     (let bs = s_bound_sockets (socks w i) in
      if n < length bs then bindo (unbind_sck (bs ! n) i w) (\<lambda>_ w1. reset_back i n w1)
      else (Inl UB, w))"

definition reset_sck :: "sid \<Rightarrow> world \<Rightarrow> (world, unit) outcome" where
  "reset_sck i w =
     bindo (case s_bound_socket (socks w i) of
              Some b \<Rightarrow> bindo (unbind_sck i b w) (\<lambda>_ w1. (Inr (), w1))
            | None \<Rightarrow> (Inr (), w))
       (\<lambda>_ w1. reset_back i (length (s_bound_sockets (socks w1 i))) w1)"

subsection \<open>Data pointers, buffers and setters\<close>

definition check_bound_socket :: "sid \<Rightarrow> world \<Rightarrow> (world, unit) outcome" where
  "check_bound_socket i w =
     (if s_bound_sockets (socks w i) \<noteq> [] \<or> s_bound_socket (socks w i) \<noteq> None
      then (Inl Runtime_error, w) else (Inr (), w))"

definition bind_raw :: "sid \<Rightarrow> ptr \<Rightarrow> world \<Rightarrow> (world, unit) outcome" where
  "bind_raw i p w =
     bindo
       (if \<not> s_fast (socks w i) then
          (if p = Null then (Inl Runtime_error, w) else check_bound_socket i w)
        else (Inr (), w))
       (\<lambda>_ w1. (Inr (), upd_sck i (\<lambda>s. s\<lparr>s_dataptr := p\<rparr>) w1))"

definition bind_array :: "sid \<Rightarrow> type_index \<Rightarrow> ptr \<Rightarrow> world \<Rightarrow> (world, unit) outcome" where
  "bind_array i T p w =
     (if s_fast (socks w i) then (Inr (), upd_sck i (\<lambda>s. s\<lparr>s_dataptr := p\<rparr>) w)
      else if type_to_string T \<noteq> type_to_string (s_datatype (socks w i)) then (Inl Runtime_error, w)
      else bind_raw i p w)"

definition bind_vector :: "sid \<Rightarrow> type_index \<Rightarrow> ptr \<Rightarrow> nat \<Rightarrow> world \<Rightarrow> (world, unit) outcome" where
  "bind_vector i T p vsize w =
     (if s_fast (socks w i) then (Inr (), upd_sck i (\<lambda>s. s\<lparr>s_dataptr := p\<rparr>) w)
      else if vsize \<noteq> get_n_elmts (socks w i) then (Inl Runtime_error, w)
      else bind_array i T p w)"

definition assign_array :: "sid \<Rightarrow> type_index \<Rightarrow> ptr \<Rightarrow> world \<Rightarrow> (world, unit) outcome" where
  "assign_array i T p w =
     (if s_type (socks w i) = SIN \<or> s_type (socks w i) = SFWD then bind_array i T p w
      else (Inl Runtime_error, w))"

definition assign_vector :: "sid \<Rightarrow> type_index \<Rightarrow> ptr \<Rightarrow> nat \<Rightarrow> world \<Rightarrow> (world, unit) outcome" where
  "assign_vector i T p vsize w =
     (if s_type (socks w i) = SIN \<or> s_type (socks w i) = SFWD then bind_vector i T p vsize w
      else (Inl Runtime_error, w))"

definition set_dataptr :: "sid \<Rightarrow> ptr \<Rightarrow> world \<Rightarrow> world" where
  "set_dataptr i p w =
     (if p \<noteq> get_dataptr (socks w i) 0 then upd_sck i (\<lambda>s. s\<lparr>s_dataptr := p\<rparr>) w else w)"

definition resize_out_buffer :: "sid \<Rightarrow> nat \<Rightarrow> world \<Rightarrow> world" where
  "resize_out_buffer i n w =
     (let (v, w1) = vec_resize n (s_out_buffer (socks w i)) w in
      upd_sck i (\<lambda>s. s\<lparr>s_out_buffer := v, s_dataptr := vec_data v\<rparr>) w1)"

definition allocate_buffer :: "sid \<Rightarrow> world \<Rightarrow> (world, unit) outcome" where
  "allocate_buffer i w =
     (if s_dataptr (socks w i) \<noteq> Null then (Inl Runtime_error, w)
      else if s_type (socks w i) = SIN then (Inl Runtime_error, w)
      else if s_type (socks w i) = SFWD then (Inl Runtime_error, w)
      else (Inr (), resize_out_buffer i (s_databytes (socks w i)) w))"

definition deallocate_buffer :: "sid \<Rightarrow> world \<Rightarrow> (world, unit) outcome" where
  "deallocate_buffer i w =
     (if s_dataptr (socks w i) = Null then (Inl Runtime_error, w)
      else if s_type (socks w i) = SIN then (Inl Runtime_error, w)
      else if s_type (socks w i) = SFWD then (Inl Runtime_error, w)
      else (Inr (), upd_sck i
        (\<lambda>s. s\<lparr>s_out_buffer := vec_clear (s_out_buffer s), s_dataptr := Null\<rparr>) w))"

definition set_name_sck :: "sid \<Rightarrow> string \<Rightarrow> world \<Rightarrow> (world, unit) outcome" where
  "set_name_sck i name w =
     (if name \<noteq> s_name (socks w i)
      then bindo (check_bound_socket i w) (\<lambda>_ w1. (Inr (), upd_sck i (\<lambda>s. s\<lparr>s_name := name\<rparr>) w1))
      else (Inr (), w))"

definition set_datatype :: "sid \<Rightarrow> type_index \<Rightarrow> world \<Rightarrow> (world, unit) outcome" where
  "set_datatype i dt w =
     (if dt \<noteq> s_datatype (socks w i)
      then bindo (check_bound_socket i w) (\<lambda>_ w1. (Inr (), upd_sck i (\<lambda>s. s\<lparr>s_datatype := dt\<rparr>) w1))
      else (Inr (), w))"

definition set_databytes :: "sid \<Rightarrow> nat \<Rightarrow> world \<Rightarrow> (world, unit) outcome" where
  "set_databytes i n w =
     (if n \<noteq> s_databytes (socks w i)
      then bindo (check_bound_socket i w) (\<lambda>_ w1. (Inr (), upd_sck i (\<lambda>s. s\<lparr>s_databytes := n\<rparr>) w1))
      else (Inr (), w))"

definition set_n_rows :: "sid \<Rightarrow> nat \<Rightarrow> world \<Rightarrow> world" where
  "set_n_rows i n w =
     (if n \<noteq> s_n_rows (socks w i)
      then upd_sck i (\<lambda>s. s\<lparr>s_n_rows := n, s_start_row := 0\<rparr>) w else w)"

section \<open>The link invariant\<close>

definition wf_links :: "world \<Rightarrow> bool" where
  "wf_links w \<longleftrightarrow>
     (\<forall>i out. s_bound_socket (socks w i) = Some out \<longleftrightarrow> i \<in> set (s_bound_sockets (socks w out))) \<and>
     (\<forall>out. distinct (s_bound_sockets (socks w out))) \<and>
     (\<forall>i \<ge> next_sock w. s_bound_socket (socks w i) = None \<and> s_bound_sockets (socks w i) = [])"

named_theorems sck_defs \<open>the operations that write a link\<close>

lemmas [sck_defs] = unbind_sck_def bind_sck_def check_bound_socket_def Let_def

lemma wf_linksD:
  assumes "wf_links w"
  shows "s_bound_socket (socks w i) = Some out \<longleftrightarrow> i \<in> set (s_bound_sockets (socks w out))"
    and "distinct (s_bound_sockets (socks w out))"
    and "next_sock w \<le> i \<Longrightarrow> s_bound_socket (socks w i) = None"
    and "next_sock w \<le> i \<Longrightarrow> s_bound_sockets (socks w i) = []"
  using assms unfolding wf_links_def by blast+

lemma wf_links_linked: "wf_links w \<Longrightarrow> i \<in> set (s_bound_sockets (socks w out)) \<Longrightarrow>
    s_bound_socket (socks w i) = Some out"
  by (simp add: wf_linksD)

text \<open>What the links alone are: the store with everything else left as it is.\<close>

definition erase_links :: "world \<Rightarrow> world" where
  "erase_links w =
     w\<lparr>socks := (\<lambda>j. (socks w j)\<lparr>s_bound_sockets := [], s_bound_socket := None\<rparr>)\<rparr>"

definition unlink :: "sid \<Rightarrow> sid \<Rightarrow> world \<Rightarrow> world" where
  "unlink i out w = upd_sck out (\<lambda>s. s\<lparr>s_bound_sockets := remove1 i (s_bound_sockets s)\<rparr>)
     (upd_sck i (\<lambda>s. s\<lparr>s_bound_socket := None\<rparr>) w)"

lemma unlink_sel:
  "s_bound_socket (socks (unlink i out w) j) = (if j = i then None else s_bound_socket (socks w j))"
  "s_bound_sockets (socks (unlink i out w) j) =
     (if j = out then remove1 i (s_bound_sockets (socks w j)) else s_bound_sockets (socks w j))"
  "next_sock (unlink i out w) = next_sock w"
  by (simp_all add: unlink_def)

lemma erase_links_unlink [simp]: "erase_links (unlink i out w) = erase_links w"
  by (simp add: erase_links_def unlink_def upd_sck_def fun_eq_iff)

lemma unbind_linked:
  assumes "s_bound_socket (socks w i) = Some out" and "i \<in> set (s_bound_sockets (socks w out))"
  shows "\<exists>pos. find_pos i (s_bound_sockets (socks w out)) = Some pos \<and>
    unbind_sck i out w = (Inr pos, unlink i out w)"
proof -
  from assms(2) obtain pos where pos: "find_pos i (s_bound_sockets (socks w out)) = Some pos"
    using find_pos_ex by fast
  have "del_at pos (s_bound_sockets (socks w out)) = remove1 i (s_bound_sockets (socks w out))"
    using pos by (rule del_find_pos)
  with assms(1) pos show ?thesis
    by (auto simp: unbind_sck_def unlink_def upd_sck_def Let_def)
qed

lemma unbind_unlinked:
  assumes "s_bound_socket (socks w i) \<noteq> Some out"
  shows "unbind_sck i out w = (Inl Runtime_error, w)"
  using assms by (simp add: unbind_sck_def)

lemma wf_links_unlink:
  assumes "wf_links w" and "s_bound_socket (socks w i) = Some out"
  shows "wf_links (unlink i out w)"
proof -
  have other: "i \<notin> set (s_bound_sockets (socks w j))" if "j \<noteq> out" for j
    using that assms by (metis option.inject wf_linksD(1))
  with wf_linksD [OF assms(1)] show ?thesis
    unfolding wf_links_def unlink_sel by (auto split: if_splits)
qed

lemma wf_links_unbind: "wf_links w \<Longrightarrow> wf_links (snd (unbind_sck i out w))"
proof -
  assume wf: "wf_links w"
  show ?thesis
  proof (cases "s_bound_socket (socks w i) = Some out")
    case True
    with wf have "i \<in> set (s_bound_sockets (socks w out))" by (simp add: wf_linksD)
    with True obtain pos where "unbind_sck i out w = (Inr pos, unlink i out w)"
      using unbind_linked by blast
    with wf True show ?thesis by (simp add: wf_links_unlink)
  next
    case False
    with wf show ?thesis by (simp add: unbind_unlinked)
  qed
qed

section \<open>Unbind\<close>

text \<open>
  On a store whose links agree, \<^verbatim>\<open>unbind\<close> succeeds exactly on a bound pair; it then returns the
  position the input had among the sockets of the output, removes the link on both sides, and leaves
  everything else as it was.
\<close>

lemma unbind_correct:
  assumes "wf_links w"
  shows "is_ok (unbind_sck i out w) \<longleftrightarrow> s_bound_socket (socks w i) = Some out"
    and "unbind_sck i out w = (Inr pos, w') \<Longrightarrow>
      pos < length (s_bound_sockets (socks w out)) \<and> s_bound_sockets (socks w out) ! pos = i \<and>
      w' = unlink i out w \<and> wf_links w' \<and> erase_links w' = erase_links w"
proof -
  have ok: "\<exists>pos. find_pos i (s_bound_sockets (socks w out)) = Some pos \<and>
      unbind_sck i out w = (Inr pos, unlink i out w)" if "s_bound_socket (socks w i) = Some out"
    using that assms by (intro unbind_linked) (simp_all add: wf_linksD)
  then show "is_ok (unbind_sck i out w) \<longleftrightarrow> s_bound_socket (socks w i) = Some out"
    by (cases "s_bound_socket (socks w i) = Some out") (auto simp: unbind_unlinked)
  assume r: "unbind_sck i out w = (Inr pos, w')"
  then have b: "s_bound_socket (socks w i) = Some out"
    by (cases "s_bound_socket (socks w i) = Some out") (auto simp: unbind_unlinked)
  with ok r have "find_pos i (s_bound_sockets (socks w out)) = Some pos" and "w' = unlink i out w"
    by auto
  with b assms show "pos < length (s_bound_sockets (socks w out)) \<and>
      s_bound_sockets (socks w out) ! pos = i \<and>
      w' = unlink i out w \<and> wf_links w' \<and> erase_links w' = erase_links w"
    by (auto simp: wf_links_unlink dest: find_pos_Some)
qed

section \<open>Reset\<close>

lemma reset_back_correct:
  assumes "wf_links w" and "n = length (s_bound_sockets (socks w i))"
  shows "\<exists>w'. reset_back i n w = (Inr (), w') \<and> wf_links w' \<and> erase_links w' = erase_links w \<and>
    next_sock w' = next_sock w \<and> s_bound_sockets (socks w' i) = [] \<and>
    (\<forall>j. s_bound_socket (socks w' j) =
       (if s_bound_socket (socks w j) = Some i then None else s_bound_socket (socks w j))) \<and>
    (\<forall>j. j \<noteq> i \<longrightarrow> s_bound_sockets (socks w' j) = s_bound_sockets (socks w j))"
  using assms
proof (induction n arbitrary: w)
  case 0
  then have "s_bound_socket (socks w j) \<noteq> Some i" for j
    by (auto simp: wf_linksD)
  with 0 show ?case by auto
next
  case (Suc n)
  let ?bs = "s_bound_sockets (socks w i)" and ?j = "s_bound_sockets (socks w i) ! n"
  from Suc.prems have n: "n < length ?bs" by simp
  then have mem: "?j \<in> set ?bs" by (rule nth_mem)
  with Suc.prems have b: "s_bound_socket (socks w ?j) = Some i" by (simp add: wf_linksD)
  from unbind_linked [OF b mem] obtain pos where
    u: "unbind_sck ?j i w = (Inr pos, unlink ?j i w)" by blast
  have "wf_links (unlink ?j i w)" using Suc.prems(1) b by (rule wf_links_unlink)
  moreover have "n = length (s_bound_sockets (socks (unlink ?j i w) i))"
    using Suc.prems(2) mem by (simp add: unlink_sel length_remove1)
  ultimately obtain w' where w': "reset_back i n (unlink ?j i w) = (Inr (), w')" "wf_links w'"
      "erase_links w' = erase_links w" "next_sock w' = next_sock w"
      "s_bound_sockets (socks w' i) = []"
      "\<forall>j. s_bound_socket (socks w' j) = (if s_bound_socket (socks (unlink ?j i w) j) = Some i
         then None else s_bound_socket (socks (unlink ?j i w) j))"
      "\<forall>j. j \<noteq> i \<longrightarrow> s_bound_sockets (socks w' j) = s_bound_sockets (socks (unlink ?j i w) j)"
    using Suc.IH by (force simp: unlink_sel)
  have "reset_back i (Suc n) w = (Inr (), w')"
    using n u w'(1) by (simp add: Let_def)
  with w'(2-) b show ?case by (auto simp: unlink_sel)
qed

text \<open>
  On a store whose links agree, \<^verbatim>\<open>reset\<close> never throws: afterwards the socket is bound to nothing,
  nothing is bound to it, the other links are kept in their order, and nothing but links changed.
\<close>

lemma reset_correct:
  assumes wf: "wf_links w"
  shows "\<exists>w'. reset_sck i w = (Inr (), w') \<and> wf_links w' \<and> erase_links w' = erase_links w \<and>
    next_sock w' = next_sock w \<and>
    (\<forall>j. s_bound_socket (socks w' j) = (if j = i \<or> s_bound_socket (socks w j) = Some i
       then None else s_bound_socket (socks w j))) \<and>
    (\<forall>j. s_bound_sockets (socks w' j) = (if j = i then [] else remove1 i (s_bound_sockets (socks w j))))"
proof (cases "s_bound_socket (socks w i)")
  case None
  with wf have "i \<notin> set (s_bound_sockets (socks w j))" for j by (metis option.discI wf_linksD(1))
  then have same: "remove1 i (s_bound_sockets (socks w j)) = s_bound_sockets (socks w j)" for j
    by (rule remove1_idem)
  from reset_back_correct [OF wf refl, of i] None show ?thesis
    by (auto simp: reset_sck_def same)
next
  case (Some b)
  with wf have mem: "i \<in> set (s_bound_sockets (socks w b))" by (simp add: wf_linksD)
  from unbind_linked [OF Some mem] obtain pos where u: "unbind_sck i b w = (Inr pos, unlink i b w)"
    by blast
  have other: "remove1 i (s_bound_sockets (socks w j)) = s_bound_sockets (socks w j)" if "j \<noteq> b" for j
    using that wf Some by (intro remove1_idem) (metis option.inject wf_linksD(1))
  from wf Some have wf': "wf_links (unlink i b w)" by (rule wf_links_unlink)
  from reset_back_correct [OF wf' refl, of i] Some u other show ?thesis
    by (auto simp: reset_sck_def unlink_sel)
qed

lemma wf_links_reset: "wf_links w \<Longrightarrow> wf_links (snd (reset_sck i w))"
  using reset_correct [of w i] by (auto simp del: reset_back.simps)

section \<open>Bind\<close>

definition bind_checks :: "sid \<Rightarrow> sid \<Rightarrow> world \<Rightarrow> bool" where
  "bind_checks i out w \<longleftrightarrow> s_fast (socks w i) \<or>
     (s_datatype (socks w out) = s_datatype (socks w i) \<and>
      s_databytes (socks w out) = s_databytes (socks w i) \<and>
      \<not> (t_outbuffers_allocated (tsks w (s_task (socks w out))) \<and> s_dataptr (socks w out) = Null))"

text \<open>The bind may go on: no bind to an other socket, or one that the code does not refuse.\<close>

definition rebind_free :: "sid \<Rightarrow> sid \<Rightarrow> world \<Rightarrow> bool" where
  "rebind_free i out w \<longleftrightarrow> s_bound_socket (socks w i) = None \<or> s_bound_socket (socks w i) = Some out"

definition link :: "sid \<Rightarrow> sid \<Rightarrow> int \<Rightarrow> world \<Rightarrow> world" where
  "link i out p w = upd_sck i (\<lambda>s. s\<lparr>s_dataptr := s_dataptr (socks w out)\<rparr>)
     (upd_sck out (\<lambda>s. s\<lparr>s_bound_sockets := insert_bound p i (s_bound_sockets s)\<rparr>)
       (upd_sck i (\<lambda>s. s\<lparr>s_bound_socket := Some out\<rparr>) w))"

lemma insert_bound_facts [simp]:
  "set (insert_bound p i bs) = insert i (set bs)"
  "distinct (insert_bound p i bs) \<longleftrightarrow> distinct bs \<and> i \<notin> set bs"
  "length (insert_bound p i bs) = Suc (length bs)"
  by (auto simp: insert_bound_def)

lemma link_sel:
  "s_bound_socket (socks (link i out p w) j) = (if j = i then Some out else s_bound_socket (socks w j))"
  "s_bound_sockets (socks (link i out p w) j) =
     (if j = out then insert_bound p i (s_bound_sockets (socks w j)) else s_bound_sockets (socks w j))"
  "s_dataptr (socks (link i out p w) j) =
     (if j = i then s_dataptr (socks w out) else s_dataptr (socks w j))"
  "next_sock (link i out p w) = next_sock w"
  by (simp_all add: link_def)

lemma erase_links_link:
  "erase_links (link i out p w) =
     upd_sck i (\<lambda>s. s\<lparr>s_dataptr := s_dataptr (socks w out)\<rparr>) (erase_links w)"
  by (simp add: erase_links_def link_def upd_sck_def fun_eq_iff)

lemma bind_refused:
  assumes "\<not> bind_checks i out w"
  shows "bind_sck i out p w = (Inl Runtime_error, w)"
  using assms by (auto simp: bind_sck_def bind_checks_def Let_def)

lemma bind_passed:
  assumes "bind_checks i out w"
  shows "bind_sck i out p w = bindo
     (if s_bound_socket (socks w i) = Some out then unbind_sck i out w else (Inr 0, w))
     (\<lambda>_ w1. if s_bound_socket (socks w1 i) \<noteq> None \<and> s_type (socks w1 i) = SIN
        then (Inl Runtime_error, w1)
        else if i \<in> set (s_bound_sockets (socks w1 out))
        then (Inl Runtime_error, upd_sck i (\<lambda>s. s\<lparr>s_bound_socket := Some out\<rparr>) w1)
        else (Inr (), link i out p w1))"
proof -
  have keep: "s_bound_sockets (socks (upd_sck i (\<lambda>s. s\<lparr>s_bound_socket := Some out\<rparr>) w1) j) =
      s_bound_sockets (socks w1 j)" for w1 j by simp
  have data: "s_dataptr (socks (upd_sck out (\<lambda>s. s\<lparr>s_bound_sockets :=
      insert_bound p i (s_bound_sockets s)\<rparr>) (upd_sck i (\<lambda>s. s\<lparr>s_bound_socket := Some out\<rparr>) w1)) out) =
      s_dataptr (socks w1 out)" for w1 by simp
  from assms show ?thesis
    unfolding bind_sck_def bind_checks_def Let_def keep data link_def [symmetric]
    by (simp only: if_False if_True simp_thms de_Morgan_conj de_Morgan_disj split: if_split) blast
qed

lemma link_unlink_cases:
  assumes "wf_links w" and "rebind_free i out w"
  shows "s_bound_socket (socks (if s_bound_socket (socks w i) = Some out
      then unlink i out w else w) i) = None"
    and "wf_links (if s_bound_socket (socks w i) = Some out then unlink i out w else w)"
  using assms by (auto simp: rebind_free_def unlink_sel wf_links_unlink)

lemma wf_links_link:
  assumes "wf_links w" and "s_bound_socket (socks w i) = None"
    and "i < next_sock w" and "out < next_sock w"
  shows "wf_links (link i out p w)"
proof -
  from assms have "i \<notin> set (s_bound_sockets (socks w j))" for j
    by (metis option.discI wf_linksD(1))
  with assms wf_linksD [OF assms(1)] show ?thesis
    unfolding wf_links_def link_sel by (auto split: if_splits)
qed

lemma bind_unlinked:
  assumes wf: "wf_links w" and b: "s_bound_socket (socks w i) \<noteq> Some out"
    and ok: "s_bound_socket (socks w i) = None \<or> s_type (socks w i) \<noteq> SIN"
    and ch: "bind_checks i out w"
  shows "bind_sck i out p w = (Inr (), link i out p w)"
proof -
  from wf b have "i \<notin> set (s_bound_sockets (socks w out))" by (simp add: wf_linksD)
  with b ok show ?thesis by (auto simp: bind_passed [OF ch])
qed

lemma bind_linked:
  assumes wf: "wf_links w" and b: "s_bound_socket (socks w i) = Some out"
    and ch: "bind_checks i out w"
  shows "bind_sck i out p w = (Inr (), link i out p (unlink i out w))"
proof -
  from wf b have mem: "i \<in> set (s_bound_sockets (socks w out))" by (simp add: wf_linksD)
  from unbind_linked [OF b mem] obtain pos where "unbind_sck i out w = (Inr pos, unlink i out w)"
    by blast
  moreover have "i \<notin> set (s_bound_sockets (socks (unlink i out w) out))"
    using wf by (simp add: unlink_sel wf_linksD)
  ultimately show ?thesis using b by (simp add: bind_passed [OF ch] unlink_sel)
qed

text \<open>
  On a store whose links agree: \<^verbatim>\<open>_bind\<close> succeeds exactly when its checks pass and the input is free,
  already bound to this output, or not of type \<^verbatim>\<open>SIN\<close>; when it throws, the store is unchanged.
\<close>

lemma bind_outcome:
  assumes wf: "wf_links w"
  shows "is_ok (bind_sck i out p w) \<longleftrightarrow>
      bind_checks i out w \<and> (rebind_free i out w \<or> s_type (socks w i) \<noteq> SIN)"
    and "\<not> is_ok (bind_sck i out p w) \<Longrightarrow> bind_sck i out p w = (Inl Runtime_error, w)"
proof -
  have fail: "bind_sck i out p w = (Inl Runtime_error, w)"
    if "bind_checks i out w" "\<not> rebind_free i out w" "s_type (socks w i) = SIN"
    using that by (auto simp: bind_passed rebind_free_def)
  have okay: "is_ok (bind_sck i out p w)"
    if "bind_checks i out w" "rebind_free i out w \<or> s_type (socks w i) \<noteq> SIN"
    using that wf bind_linked [OF wf] bind_unlinked [OF wf]
    by (cases "s_bound_socket (socks w i) = Some out") (auto simp: rebind_free_def)
  show "is_ok (bind_sck i out p w) \<longleftrightarrow>
      bind_checks i out w \<and> (rebind_free i out w \<or> s_type (socks w i) \<noteq> SIN)"
    using fail okay bind_refused [of i out w p] is_ok.simps(1) [of Runtime_error w] by metis
  show "\<not> is_ok (bind_sck i out p w) \<Longrightarrow> bind_sck i out p w = (Inl Runtime_error, w)"
    using fail okay bind_refused [of i out w p] by blast
qed

lemma bind_effect:
  assumes wf: "wf_links w" and free: "rebind_free i out w" and ch: "bind_checks i out w"
    and live: "i < next_sock w" "out < next_sock w"
  shows "\<exists>w'. bind_sck i out p w = (Inr (), w') \<and> wf_links w' \<and>
    (\<forall>j. s_bound_socket (socks w' j) = (if j = i then Some out else s_bound_socket (socks w j))) \<and>
    (\<forall>j. s_bound_sockets (socks w' j) = (if j = out
       then insert_bound p i (remove1 i (s_bound_sockets (socks w out)))
       else s_bound_sockets (socks w j))) \<and>
    erase_links w' = upd_sck i (\<lambda>s. s\<lparr>s_dataptr := s_dataptr (socks w out)\<rparr>) (erase_links w)"
proof (cases "s_bound_socket (socks w i) = Some out")
  case True
  have "s_dataptr (socks (unlink i out w) out) = s_dataptr (socks w out)"
    by (simp add: unlink_def)
  with True live wf_links_unlink [OF wf True] show ?thesis
    by (auto simp: bind_linked [OF wf True ch] link_sel unlink_sel erase_links_link
        intro!: wf_links_link)
next
  case False
  with free have none: "s_bound_socket (socks w i) = None" by (simp add: rebind_free_def)
  from wf False have "remove1 i (s_bound_sockets (socks w out)) = s_bound_sockets (socks w out)"
    by (simp add: remove1_idem wf_linksD)
  with live show ?thesis
    by (auto simp: bind_unlinked [OF wf False _ ch] none link_sel erase_links_link
        intro!: wf_links_link [OF wf none])
qed

lemma wf_links_bind:
  assumes "wf_links w" and "i < next_sock w" and "out < next_sock w"
    and "rebind_free i out w \<or> s_type (socks w i) = SIN"
  shows "wf_links (snd (bind_sck i out p w))"
proof (cases "is_ok (bind_sck i out p w)")
  case True
  then have "bind_checks i out w" and "rebind_free i out w"
    using assms bind_outcome(1) by blast+
  with assms bind_effect [of w i out p] show ?thesis by auto
next
  case False
  then have "bind_sck i out p w = (Inl Runtime_error, w)" using assms bind_outcome(2) by blast
  with assms show ?thesis by simp
qed

text \<open>\<^verbatim>\<open>unbind\<close> undoes \<^verbatim>\<open>_bind\<close>: it returns the position of the insertion and restores the links.\<close>

definition bound_pos :: "int \<Rightarrow> nat \<Rightarrow> nat" where
  "bound_pos p n = (if size_cast p > n \<or> p = -1 then n else nat p)"

lemma insert_bound_pos:
  assumes "i \<notin> set bs" and p: "- (2 ^ 31) \<le> p" "p < 2 ^ 31"
  shows "find_pos i (insert_bound p i bs) = Some (bound_pos p (length bs))"
    and "del_at (bound_pos p (length bs)) (insert_bound p i bs) = bs"
proof -
  have ins: "insert_bound p i bs = ins_at (bound_pos p (length bs)) i bs"
    by (simp add: insert_bound_def bound_pos_def ins_at_def)
  have "bound_pos p (length bs) \<le> length bs"
    using p by (cases "0 \<le> p") (auto simp: bound_pos_def)
  with assms ins show "find_pos i (insert_bound p i bs) = Some (bound_pos p (length bs))"
    and "del_at (bound_pos p (length bs)) (insert_bound p i bs) = bs"
    by (simp_all add: find_pos_ins_at del_ins_at)
qed

lemma unbind_link:
  assumes wf: "wf_links w" and none: "s_bound_socket (socks w i) = None"
    and p: "- (2 ^ 31) \<le> p" "p < 2 ^ 31"
  shows "unbind_sck i out (link i out p w) =
    (Inr (bound_pos p (length (s_bound_sockets (socks w out)))),
     upd_sck i (\<lambda>s. s\<lparr>s_dataptr := s_dataptr (socks w out)\<rparr>) w)"
proof -
  let ?bs = "s_bound_sockets (socks w out)"
  from wf none have out: "i \<notin> set ?bs" by (metis option.discI wf_linksD(1))
  note pos = insert_bound_pos [OF out p]
  have f: "find_pos i (s_bound_sockets (socks (upd_sck i (\<lambda>s. s\<lparr>s_bound_socket := None\<rparr>)
      (link i out p w)) out)) = Some (bound_pos p (length ?bs))"
    using pos(1) by (auto simp: link_sel)
  have "upd_sck out (\<lambda>s. s\<lparr>s_bound_sockets := del_at (bound_pos p (length ?bs)) (s_bound_sockets s)\<rparr>)
      (upd_sck i (\<lambda>s. s\<lparr>s_bound_socket := None\<rparr>) (link i out p w)) =
    upd_sck i (\<lambda>s. s\<lparr>s_dataptr := s_dataptr (socks w out)\<rparr>) w" (is "?l = ?r")
  proof (rule world.equality)
    have "socks ?l j = socks ?r j" for j
      by (rule socket.equality) (use pos(2) in \<open>auto simp: link_def none\<close>)
    then show "socks ?l = socks ?r" by (rule ext)
  qed (simp_all add: link_def world_upd_defs)
  with f show ?thesis by (simp add: unbind_sck_def link_sel Let_def)
qed

section \<open>The rebinding of a forward socket\<close>

text \<open>
  A forward socket already bound to \<open>x\<close> may be bound to \<open>out\<close>: the check for an existing link is made
  for \<^verbatim>\<open>SIN\<close> only. Nothing removes the socket from \<^verbatim>\<open>x.bound_sockets\<close>, so the two sides no longer
  agree and a later \<^verbatim>\<open>x.reset()\<close> (or the destructor of \<open>x\<close>, which calls it) throws.
\<close>

lemma reset_back_throws:
  assumes "distinct (s_bound_sockets (socks w x))" and "n \<le> length (s_bound_sockets (socks w x))"
    and "i \<in> set (take n (s_bound_sockets (socks w x)))" and "s_bound_socket (socks w i) \<noteq> Some x"
    and "i \<noteq> x"
  shows "\<not> is_ok (reset_back x n w)"
  using assms
proof (induction n arbitrary: w)
  case 0
  then show ?case by simp
next
  case (Suc n)
  let ?bs = "s_bound_sockets (socks w x)"
  let ?j = "?bs ! n"
  have n: "n < length ?bs" using Suc.prems(2) by simp
  show ?case
  proof (cases "unbind_sck ?j x w")
    case (Pair r w1)
    show ?thesis
    proof (cases r)
      case (Inl e)
      with Pair n show ?thesis by (simp add: Let_def)
    next
      case (Inr pos)
      with Pair have b: "s_bound_socket (socks w ?j) = Some x"
        by (auto simp: unbind_sck_def split: if_splits)
      have "?j \<in> set ?bs" using n by (rule nth_mem)
      from unbind_linked [OF b this] Pair Inr have w1: "w1 = unlink ?j x w" by auto
      have del: "remove1 ?j ?bs = del_at n ?bs"
        using Suc.prems(1) n by (intro del_find_pos [symmetric] find_pos_distinct)
      have "i \<noteq> ?j" using b Suc.prems(4) by auto
      then have "i \<in> set (take n (remove1 ?j ?bs))"
        using Suc.prems(3) n del by (auto simp: take_Suc_conv_app_nth del_at_def)
      moreover have "n \<le> length (remove1 ?j ?bs)"
        using n \<open>?j \<in> set ?bs\<close> by (simp add: length_remove1)
      ultimately have "\<not> is_ok (reset_back x n w1)"
        using Suc.prems \<open>i \<noteq> ?j\<close> by (intro Suc.IH) (auto simp: w1 unlink_sel)
      with Pair Inr n show ?thesis by (simp add: Let_def)
    qed
  qed
qed

lemma reset_stale_throws:
  assumes "distinct (s_bound_sockets (socks w x))" and "i \<in> set (s_bound_sockets (socks w x))"
    and "s_bound_socket (socks w i) \<noteq> Some x" and "i \<noteq> x"
  shows "\<not> is_ok (reset_sck x w)"
proof (cases "s_bound_socket (socks w x)")
  case None
  with assms show ?thesis using reset_back_throws [where i = i] by (auto simp: reset_sck_def)
next
  case (Some b)
  show ?thesis
  proof (cases "unbind_sck x b w")
    case (Pair r w1)
    show ?thesis
    proof (cases r)
      case (Inl e)
      with Pair Some show ?thesis by (simp add: reset_sck_def)
    next
      case (Inr pos)
      with Pair Some have "x \<in> set (s_bound_sockets (socks w b))"
        by (auto simp: unbind_sck_def Let_def split: option.splits if_splits
            dest!: find_pos_Some) (metis nth_mem)
      from unbind_linked [OF Some this] Pair Inr have w1: "w1 = unlink x b w" by auto
      have "\<not> is_ok (reset_back x (length (s_bound_sockets (socks w1 x))) w1)"
        using assms by (intro reset_back_throws [where i = i]) (auto simp: w1 unlink_sel)
      with Pair Some Inr show ?thesis by (simp add: reset_sck_def)
    qed
  qed
qed

lemma rebind_forward:
  assumes wf: "wf_links w" and fwd: "s_type (socks w i) = SFWD"
    and b: "s_bound_socket (socks w i) = Some x" "x \<noteq> out" "x \<noteq> i"
    and ch: "bind_checks i out w"
  shows "bind_sck i out p w = (Inr (), link i out p w) \<and> \<not> wf_links (link i out p w) \<and>
    \<not> is_ok (reset_sck x (link i out p w))"
proof -
  let ?w = "link i out p w"
  have "s_bound_socket (socks w i) \<noteq> Some out" using b by simp
  with wf fwd ch have r: "bind_sck i out p w = (Inr (), ?w)" by (simp add: bind_unlinked)
  have mem: "i \<in> set (s_bound_sockets (socks ?w x))" and now: "s_bound_socket (socks ?w i) = Some out"
    and d: "distinct (s_bound_sockets (socks ?w x))"
    using wf b by (simp_all add: link_sel wf_linksD)
  have "\<not> wf_links ?w" using wf_links_linked [OF _ mem] now b by auto
  moreover have "\<not> is_ok (reset_sck x ?w)"
    using d mem now b by (intro reset_stale_throws [where i = i]) auto
  ultimately show ?thesis using r by simp
qed

section \<open>The other operations and the invariant\<close>

lemma wf_links_frame:
  assumes "\<And>j. s_bound_socket (socks w' j) = s_bound_socket (socks w j)"
    and "\<And>j. s_bound_sockets (socks w' j) = s_bound_sockets (socks w j)"
    and "next_sock w' = next_sock w"
  shows "wf_links w' \<longleftrightarrow> wf_links w"
  using assms by (simp add: wf_links_def)

lemma wf_links_upd [simp]:
  assumes "\<And>s. s_bound_socket (f s) = s_bound_socket s"
    and "\<And>s. s_bound_sockets (f s) = s_bound_sockets s"
  shows "wf_links (upd_sck i f w) \<longleftrightarrow> wf_links w"
  using assms by (intro wf_links_frame) auto

lemma vec_resize_socks [simp]:
  "socks (snd (vec_resize n v w)) = socks w" "next_sock (snd (vec_resize n v w)) = next_sock w"
  "tsks (snd (vec_resize n v w)) = tsks w" "mods (snd (vec_resize n v w)) = mods w"
  "next_task (snd (vec_resize n v w)) = next_task w"
  by (simp_all add: vec_resize_def Let_def)

lemma resize_out_buffer_links [simp]:
  "s_bound_socket (socks (resize_out_buffer i n w) j) = s_bound_socket (socks w j)"
  "s_bound_sockets (socks (resize_out_buffer i n w) j) = s_bound_sockets (socks w j)"
  "next_sock (resize_out_buffer i n w) = next_sock w"
  by (simp_all add: resize_out_buffer_def split_beta Let_def)

lemma wf_links_resize_out_buffer [simp]: "wf_links (resize_out_buffer i n w) \<longleftrightarrow> wf_links w"
  by (intro wf_links_frame) simp_all

lemma wf_links_setters:
  assumes "wf_links w"
  shows "wf_links (snd (bind_raw i p w))" and "wf_links (snd (bind_array i T p w))"
    and "wf_links (snd (bind_vector i T p n w))" and "wf_links (snd (assign_array i T p w))"
    and "wf_links (snd (assign_vector i T p n w))" and "wf_links (snd (allocate_buffer i w))"
    and "wf_links (snd (deallocate_buffer i w))" and "wf_links (snd (set_name_sck i nm w))"
    and "wf_links (snd (set_datatype i T w))" and "wf_links (snd (set_databytes i n w))"
    and "wf_links (set_n_rows i n w)" and "wf_links (set_fast_sck b i w)"
proof -
  show raw: "wf_links (snd (bind_raw i p w))" for p
    using assms by (simp add: bind_raw_def check_bound_socket_def)
  show arr: "wf_links (snd (bind_array i T p w))" for T p
    using assms raw by (simp add: bind_array_def)
  show vct: "wf_links (snd (bind_vector i T p n w))" for T p n
    using assms arr by (simp add: bind_vector_def)
  show "wf_links (snd (assign_array i T p w))" "wf_links (snd (assign_vector i T p n w))"
    using assms arr vct by (simp_all add: assign_array_def assign_vector_def)
qed (use assms in \<open>simp_all add: allocate_buffer_def deallocate_buffer_def set_name_sck_def
    set_datatype_def set_databytes_def set_n_rows_def set_fast_sck_def check_bound_socket_def\<close>)

datatype sck_op =
    Op_new tid string type_index "nat \<times> nat" socket_t bool ptr
  | Op_bind sid sid int
  | Op_unbind sid sid
  | Op_assign sid sid
  | Op_reset sid
  | Op_bind_raw sid ptr
  | Op_assign_array sid type_index ptr
  | Op_assign_vector sid type_index ptr nat
  | Op_allocate sid
  | Op_deallocate sid
  | Op_set_name sid string
  | Op_set_datatype sid type_index
  | Op_set_databytes sid nat
  | Op_set_n_rows sid nat
  | Op_set_fast sid bool

definition drop_value :: "('s, 'a) outcome \<Rightarrow> ('s, unit) outcome" where
  "drop_value r = bindo r (\<lambda>_ s. (Inr (), s))"

lemma snd_drop_value [simp]: "snd (drop_value r) = snd r"
  by (cases r; cases "fst r") (auto simp: drop_value_def)

fun exec_sck :: "sck_op \<Rightarrow> world \<Rightarrow> (world, unit) outcome" where
  "exec_sck (Op_new t name dt dim ty f p) w = drop_value (new_socket t name dt dim ty f p w)"
| "exec_sck (Op_bind i out p) w = bind_sck i out p w"
| "exec_sck (Op_unbind i out) w = drop_value (unbind_sck i out w)"
| "exec_sck (Op_assign i j) w = assign_sck i j w"
| "exec_sck (Op_reset i) w = reset_sck i w"
| "exec_sck (Op_bind_raw i p) w = bind_raw i p w"
| "exec_sck (Op_assign_array i T p) w = assign_array i T p w"
| "exec_sck (Op_assign_vector i T p n) w = assign_vector i T p n w"
| "exec_sck (Op_allocate i) w = allocate_buffer i w"
| "exec_sck (Op_deallocate i) w = deallocate_buffer i w"
| "exec_sck (Op_set_name i n) w = set_name_sck i n w"
| "exec_sck (Op_set_datatype i dt) w = set_datatype i dt w"
| "exec_sck (Op_set_databytes i n) w = set_databytes i n w"
| "exec_sck (Op_set_n_rows i n) w = (Inr (), set_n_rows i n w)"
| "exec_sck (Op_set_fast i b) w = (Inr (), set_fast_sck b i w)"

text \<open>
  Legal operations name live sockets, and a forward socket that is bound is not bound to a second
  socket. Nothing else is asked of the caller: types, sizes and null pointers are checked by the code.
\<close>

fun sck_legal :: "sck_op \<Rightarrow> world \<Rightarrow> bool" where
  "sck_legal (Op_bind i out p) w \<longleftrightarrow> i < next_sock w \<and> out < next_sock w \<and>
     (rebind_free i out w \<or> s_type (socks w i) = SIN)"
| "sck_legal (Op_assign i j) w \<longleftrightarrow> i < next_sock w \<and> j < next_sock w \<and>
     (rebind_free i j w \<or> s_type (socks w i) = SIN) \<and> (rebind_free j i w \<or> s_type (socks w j) = SIN)"
| "sck_legal _ w \<longleftrightarrow> True"

lemma wf_links_new: "wf_links w \<Longrightarrow> wf_links (snd (new_socket t name dt dim ty f p w))"
proof -
  assume wf: "wf_links w"
  note d = wf_linksD [OF wf]
  have "next_sock w \<notin> set (s_bound_sockets (socks w j))" for j
    using d(1, 3) by (metis option.discI order_refl)
  moreover have "s_bound_socket (socks w j) \<noteq> Some (next_sock w)" for j
    using d(1, 4) by (metis empty_iff list.set(1) order_refl)
  ultimately show ?thesis
    using d wf by (auto simp: new_socket_def Let_def wf_links_def)
qed

lemma exec_sck_inv:
  assumes "wf_links w" and "sck_legal x w"
  shows "wf_links (snd (exec_sck x w))"
proof (cases x)
  case (Op_assign i j)
  with assms show ?thesis by (auto simp: assign_sck_def Let_def intro: wf_links_bind)
next
  case (Op_bind i out p)
  with assms show ?thesis by (auto intro: wf_links_bind)
qed (use assms in \<open>simp_all add: wf_links_new wf_links_unbind wf_links_reset wf_links_setters\<close>)

interpretation sck: invariant_ops exec_sck sck_legal wf_links
  by unfold_locales (rule exec_sck_inv)

section \<open>Properties\<close>

text \<open>The store of the examples: an output socket 0, an input socket 1, forward sockets from 2 on.\<close>

definition demo_links :: world where
  "demo_links = blank_world (\<lambda>i. if i = 0 then SOUT else if i = 1 then SIN else SFWD) 6"

lemma wf_demo_links: "wf_links demo_links"
  by (simp add: wf_links_def demo_links_def blank_defs)

lemma demo_links_sel:
  "s_bound_socket (socks demo_links i) = None" "s_bound_sockets (socks demo_links i) = []"
  "next_sock demo_links = 6" "bind_checks i j demo_links"
  "s_type (socks demo_links i) = (if i = 0 then SOUT else if i = 1 then SIN else SFWD)"
  by (simp_all add: demo_links_def blank_defs bind_checks_def)

text \<open>
  C29: on a store whose links agree, \<^verbatim>\<open>Socket::_bind\<close> succeeds exactly when the type, size and null
  pointer checks pass and the socket is unbound, bound to this very output, or not a plain input; when
  it throws it is a \<^verbatim>\<open>runtime_error\<close> and the store is what it was before the call.
\<close>

theorem bind_succeeds_iff:
  assumes "wf_links w"
  shows "(is_ok (bind_sck i out p w) \<longleftrightarrow>
      bind_checks i out w \<and> (rebind_free i out w \<or> s_type (socks w i) \<noteq> SIN)) \<and>
    (is_ok (bind_sck i out p w) \<or> bind_sck i out p w = (Inl Runtime_error, w))"
  using bind_outcome [OF assms] by blast

theorem bind_succeeds_iff_witness: "is_ok (bind_sck 1 0 (-1) demo_links)"
  using bind_succeeds_iff [OF wf_demo_links, of 1 0 "-1"] by (simp add: demo_links_sel rebind_free_def)

text \<open>
  a bind of a free socket to an output sets the link on both sides (the input enters the
  output's list at the position the priority asks for), copies the data pointer, keeps the links of
  all other sockets and everything else, and keeps the two sides of every link in agreement.
\<close>

theorem bind_links_both_sides:
  assumes "wf_links w" and "rebind_free i out w" and "bind_checks i out w"
    and "i < next_sock w" and "out < next_sock w"
  shows "\<exists>w'. bind_sck i out p w = (Inr (), w') \<and> wf_links w' \<and>
    (\<forall>j. s_bound_socket (socks w' j) = (if j = i then Some out else s_bound_socket (socks w j))) \<and>
    (\<forall>j. s_bound_sockets (socks w' j) = (if j = out
       then insert_bound p i (remove1 i (s_bound_sockets (socks w out)))
       else s_bound_sockets (socks w j))) \<and>
    erase_links w' = upd_sck i (\<lambda>s. s\<lparr>s_dataptr := s_dataptr (socks w out)\<rparr>) (erase_links w)"
  using assms by (rule bind_effect)

theorem bind_links_both_sides_witness:
  "\<exists>w'. bind_sck 1 0 0 demo_links = (Inr (), w') \<and> s_bound_sockets (socks w' 0) = [1]"
  using bind_links_both_sides [OF wf_demo_links, of 1 0 0]
  by (auto simp: demo_links_sel rebind_free_def insert_bound_def ins_at_def)



text \<open>
  \<^verbatim>\<open>Socket::reset\<close> on a store whose links agree never throws. Afterwards the socket has no link on
  either side, the other links are kept in their order, and nothing but links has changed.
\<close>

theorem reset_isolates_socket:
  assumes "wf_links w"
  shows "\<exists>w'. reset_sck i w = (Inr (), w') \<and> wf_links w' \<and> erase_links w' = erase_links w \<and>
    next_sock w' = next_sock w \<and>
    (\<forall>j. s_bound_socket (socks w' j) = (if j = i \<or> s_bound_socket (socks w j) = Some i
       then None else s_bound_socket (socks w j))) \<and>
    (\<forall>j. s_bound_sockets (socks w' j) = (if j = i then [] else remove1 i (s_bound_sockets (socks w j))))"
  using assms by (rule reset_correct)

theorem reset_isolates_socket_witness:
  "\<exists>w'. reset_sck 0 (link 1 0 0 demo_links) = (Inr (), w') \<and> s_bound_socket (socks w' 1) = None"
proof -
  have "wf_links (link 1 0 0 demo_links)"
    using wf_demo_links by (intro wf_links_link) (simp_all add: demo_links_sel)
  from reset_isolates_socket [OF this, of 0] show ?thesis by (auto simp: link_sel)
qed



text \<open>
  the exception to the rule. A forward socket that is bound may be bound to another output: the
  call succeeds, the first output keeps a stale entry, and its own \<^verbatim>\<open>reset\<close> (which its destructor
  calls) then throws.
\<close>

theorem forward_rebind_leaves_stale_link:
  assumes "wf_links w" and "s_type (socks w i) = SFWD"
    and "s_bound_socket (socks w i) = Some x" and "x \<noteq> out" and "x \<noteq> i" and "bind_checks i out w"
  shows "\<exists>w'. bind_sck i out p w = (Inr (), w') \<and> \<not> wf_links w' \<and> \<not> is_ok (reset_sck x w')"
  using rebind_forward [OF assms] by blast

theorem forward_rebind_leaves_stale_link_witness:
  "\<exists>w'. bind_sck 2 3 (-1) (link 2 0 0 demo_links) = (Inr (), w') \<and> \<not> is_ok (reset_sck 0 w')"
proof -
  have wf: "wf_links (link 2 0 0 demo_links)"
    using wf_demo_links by (intro wf_links_link) (simp_all add: demo_links_sel)
  have ch: "bind_checks 2 3 (link 2 0 0 demo_links)"
    by (simp add: bind_checks_def link_def demo_links_def blank_defs)
  have ty: "s_type (socks (link 2 0 0 demo_links) 2) = SFWD"
    by (simp add: link_def demo_links_sel)
  from forward_rebind_leaves_stale_link [OF wf ty _ _ _ ch, of 0 "-1"] show ?thesis
    by (auto simp: link_sel)
qed

end
