(* ===== verification/Tasks.thy ===== *)
theory Tasks
  imports Sockets
begin

text \<open>
  \<^verbatim>\<open>runtime::Task\<close> (\<^verbatim>\<open>src/Runtime/Task/Task.cpp\<close>), execution apart: construction of a task and of its
  sockets, the codelet's status socket, the resizing that follows a change of the number of frames,
  the allocation of the output buffers, the binding of a task to a socket by a fake input socket, the
  timers, and cloning. A recursion along forward sockets (\<^verbatim>\<open>spread_dataptr\<close>) carries a fuel: the code
  does not return on a cycle of forward sockets, which is \<open>UB\<close> here.
\<close>

section \<open>Names\<close>

text \<open>\<^verbatim>\<open>erase(remove(...))\<close>: the spaces of a name are dropped before it is looked up.\<close>

definition strip_spaces :: "string \<Rightarrow> string" where
  "strip_spaces s = filter (\<lambda>c. c \<noteq> CHR '' '') s"

definition status_name :: string where
  "status_name = ''status''"

definition find_socket :: "tid \<Rightarrow> string \<Rightarrow> world \<Rightarrow> exn + sid" where
  "find_socket t name w =
     (case find (\<lambda>i. s_name (socks w i) = strip_spaces name) (t_sockets (tsks w t)) of
        None \<Rightarrow> Inl Invalid_argument | Some i \<Rightarrow> Inr i)"

section \<open>Construction of a task and of its sockets\<close>

text \<open>\<^verbatim>\<open>is_clonable\<close> of the module is its field \<open>m_clonable\<close>; the status vector holds one \<^verbatim>\<open>int\<close> per wave.\<close>

definition new_task :: "mid \<Rightarrow> string \<Rightarrow> world \<Rightarrow> tid \<times> world" where
  "new_task md name w =
     (let (st, w1) = vec_resize (4 * m_n_waves (mods w md)) empty_vec w; t = next_task w1 in
      (t, w1\<lparr>tsks := (tsks w1)(t := blank_task\<lparr>t_module := md, t_name := name,
             t_replicable := m_clonable (mods w md), t_status := st\<rparr>),
           next_task := Suc t\<rparr>))"

definition set_fast_task :: "bool \<Rightarrow> tid \<Rightarrow> world \<Rightarrow> world" where
  "set_fast_task b t w = fold (set_fast_sck b) (t_sockets (tsks w t))
     (upd_tsk t (\<lambda>x. x\<lparr>t_fast := b\<rparr>) w)"

definition create_2d_socket ::
  "tid \<Rightarrow> string \<Rightarrow> nat \<Rightarrow> nat \<Rightarrow> type_index \<Rightarrow> socket_t \<Rightarrow> bool \<Rightarrow> world \<Rightarrow> (world, sid) outcome" where
  "create_2d_socket t name n_rows n_cols T type hack_status w =
     (let tk = tsks w t; md = mods w (t_module tk) in
      if name = [] then (Inl Runtime_error, w)
      else if name = status_name \<and> \<not> hack_status then (Inl Runtime_error, w)
      else if \<exists>i \<in> set (t_sockets tk). s_name (socks w i) = name then (Inl Runtime_error, w)
      else if \<exists>i \<in> set (t_sockets tk). s_name (socks w i) = status_name then (Inl Runtime_error, w)
      else bindo
        (new_socket t name T (n_rows, n_cols * type_to_size T) type (t_fast tk) Null w)
        (\<lambda>i w1.
          let per_frame = s_databytes (socks w1 i) div m_n_frames md;
              (v, w2) = vec_resize
                (if m_n_frames_per_wave md > 1 then per_frame * m_n_frames_per_wave md else 0) empty_vec w1
          in (Inr i, upd_tsk t (\<lambda>x. x\<lparr>t_sockets := t_sockets x @ [i],
                 t_dataptr_init := t_dataptr_init x @ [Null],
                 t_databytes_per_frame := t_databytes_per_frame x @ [per_frame],
                 t_data := t_data x @ [v]\<rparr>) w2)))"

text \<open>The position of the new socket, which is what the public functions return.\<close>

definition last_pos :: "tid \<Rightarrow> world \<Rightarrow> nat" where
  "last_pos t w = length (t_sockets (tsks w t)) - 1"

definition create_2d_socket_in ::
  "tid \<Rightarrow> string \<Rightarrow> nat \<Rightarrow> nat \<Rightarrow> type_index \<Rightarrow> world \<Rightarrow> (world, nat) outcome" where
  "create_2d_socket_in t name n_rows n_cols T w =
     (case T of T_other _ \<Rightarrow> (Inl Runtime_error, w) | _ \<Rightarrow>
        bindo (create_2d_socket t name n_rows n_cols T SIN False w)
          (\<lambda>i w1. let w2 = upd_tsk t (\<lambda>x. x\<lparr>t_last_input_socket := Some i,
                        t_n_input_sockets := t_n_input_sockets x + 1\<rparr>) w1
                   in (Inr (last_pos t w2), w2)))"

definition create_2d_socket_out ::
  "tid \<Rightarrow> string \<Rightarrow> nat \<Rightarrow> nat \<Rightarrow> type_index \<Rightarrow> bool \<Rightarrow> world \<Rightarrow> (world, nat) outcome" where
  "create_2d_socket_out t name n_rows n_cols T hack_status w =
     (case T of T_other _ \<Rightarrow> (Inl Runtime_error, w) | _ \<Rightarrow>
        bindo (create_2d_socket t name n_rows n_cols T SOUT hack_status w)
          (\<lambda>i w1. let w2 = upd_tsk t (\<lambda>x. x\<lparr>t_n_output_sockets := t_n_output_sockets x + 1\<rparr>) w1
                   in (Inr (last_pos t w2), w2)))"

definition create_2d_socket_fwd ::
  "tid \<Rightarrow> string \<Rightarrow> nat \<Rightarrow> nat \<Rightarrow> type_index \<Rightarrow> world \<Rightarrow> (world, nat) outcome" where
  "create_2d_socket_fwd t name n_rows n_cols T w =
     (case T of T_other _ \<Rightarrow> (Inl Runtime_error, w) | _ \<Rightarrow>
        bindo (create_2d_socket t name n_rows n_cols T SFWD False w)
          (\<lambda>i w1. let w2 = upd_tsk t (\<lambda>x. x\<lparr>t_last_input_socket := Some i,
                        t_n_fwd_sockets := t_n_fwd_sockets x + 1\<rparr>) w1
                   in (Inr (last_pos t w2), w2)))"

text \<open>The overloads that take the type as a \<^verbatim>\<open>datatype_t\<close>.\<close>

datatype datatype_t = F64 | F32 | S64 | S32 | S16 | S8 | U64 | U32 | U16 | U8

fun type_of_datatype :: "datatype_t \<Rightarrow> type_index" where
  "type_of_datatype F64 = T_double"
| "type_of_datatype F32 = T_float"
| "type_of_datatype S64 = T_int64"
| "type_of_datatype S32 = T_int32"
| "type_of_datatype S16 = T_int16"
| "type_of_datatype S8 = T_int8"
| "type_of_datatype U64 = T_uint64"
| "type_of_datatype U32 = T_uint32"
| "type_of_datatype U16 = T_uint16"
| "type_of_datatype U8 = T_uint8"

definition create_2d_socket_in_dt ::
  "tid \<Rightarrow> string \<Rightarrow> nat \<Rightarrow> nat \<Rightarrow> datatype_t \<Rightarrow> world \<Rightarrow> (world, nat) outcome" where
  "create_2d_socket_in_dt t name n_rows n_cols dt w =
     create_2d_socket_in t name n_rows n_cols (type_of_datatype dt) w"

definition create_2d_socket_out_dt ::
  "tid \<Rightarrow> string \<Rightarrow> nat \<Rightarrow> nat \<Rightarrow> datatype_t \<Rightarrow> bool \<Rightarrow> world \<Rightarrow> (world, nat) outcome" where
  "create_2d_socket_out_dt t name n_rows n_cols dt hack_status w =
     create_2d_socket_out t name n_rows n_cols (type_of_datatype dt) hack_status w"

definition create_2d_socket_fwd_dt ::
  "tid \<Rightarrow> string \<Rightarrow> nat \<Rightarrow> nat \<Rightarrow> datatype_t \<Rightarrow> world \<Rightarrow> (world, nat) outcome" where
  "create_2d_socket_fwd_dt t name n_rows n_cols dt w =
     create_2d_socket_fwd t name n_rows n_cols (type_of_datatype dt) w"

section \<open>Output buffers\<close>

text \<open>
  \<^verbatim>\<open>spread_dataptr\<close> and \<^verbatim>\<open>spread_nullptr\<close>: the pointer goes to every socket bound to \<open>i\<close> and, behind a
  forward socket, to the sockets bound to that one. \<open>null_ok\<close> is the extra branch of the second one,
  which accepts an output socket of a \<^verbatim>\<open>module::Set\<close> (\<open>m_is_set\<close>).
\<close>

fun spread :: "nat \<Rightarrow> bool \<Rightarrow> ptr \<Rightarrow> sid \<Rightarrow> world \<Rightarrow> (world, unit) outcome" where
  "spread 0 null_ok p i w = (Inl UB, w)"
| "spread (Suc fuel) null_ok p i w =
     foreach (\<lambda>b w1.
         if s_type (socks w1 b) = SIN then (Inr (), set_dataptr b p w1)
         else if s_type (socks w1 b) = SFWD then spread fuel null_ok p b (set_dataptr b p w1)
         else if null_ok \<and> m_is_set (mods w1 (t_module (tsks w1 (s_task (socks w1 b)))))
         then (Inr (), set_dataptr b p w1)
         else (Inl Runtime_error, w1))
       (s_bound_sockets (socks w i)) w"

definition allocate_outbuffers :: "nat \<Rightarrow> tid \<Rightarrow> world \<Rightarrow> (world, unit) outcome" where
  "allocate_outbuffers fuel t w =
     (if t_outbuffers_allocated (tsks w t) then (Inr (), w)
      else bindo
        (foreach (\<lambda>i w1.
            if s_type (socks w1 i) = SOUT \<and> s_name (socks w1 i) \<noteq> status_name \<and>
               s_dataptr (socks w1 i) = Null
            then bindo (allocate_buffer i w1)
              (\<lambda>_ w2. spread fuel False (s_dataptr (socks w2 i)) i w2)
            else (Inr (), w1))
          (t_sockets (tsks w t)) w)
        (\<lambda>_ w1. (Inr (), upd_tsk t (\<lambda>x. x\<lparr>t_outbuffers_allocated := True\<rparr>) w1)))"

definition deallocate_outbuffers :: "nat \<Rightarrow> tid \<Rightarrow> world \<Rightarrow> (world, unit) outcome" where
  "deallocate_outbuffers fuel t w =
     (if \<not> t_outbuffers_allocated (tsks w t) then (Inl Runtime_error, w)
      else bindo
        (foreach (\<lambda>i w1.
            if s_type (socks w1 i) = SOUT \<and> s_name (socks w1 i) \<noteq> status_name \<and>
               s_dataptr (socks w1 i) \<noteq> Null
            then bindo (deallocate_buffer i w1) (\<lambda>_ w2. spread fuel True Null i w2)
            else (Inr (), w1))
          (t_sockets (tsks w t)) w)
        (\<lambda>_ w1. (Inr (), upd_tsk t (\<lambda>x. x\<lparr>t_outbuffers_allocated := False\<rparr>) w1)))"

definition can_exec :: "tid \<Rightarrow> world \<Rightarrow> bool" where
  "can_exec t w \<longleftrightarrow> (\<forall>i \<in> set (t_sockets (tsks w t)). s_dataptr (socks w i) \<noteq> Null)"

section \<open>The codelet and the number of frames\<close>

text \<open>
  \<^verbatim>\<open>create_codelet\<close> stores the function (a parameter of the execution here) and creates the status
  socket, whose data is the status vector of the task.
\<close>

definition create_codelet :: "nat \<Rightarrow> tid \<Rightarrow> world \<Rightarrow> (world, unit) outcome" where
  "create_codelet fuel t w =
     bindo (create_2d_socket_out t status_name 1 (m_n_waves (mods w (t_module (tsks w t)))) T_int32 True w)
       (\<lambda>s w1. let i = t_sockets (tsks w1 t) ! s;
                   w2 = upd_sck i (\<lambda>x. x\<lparr>s_dataptr := vec_data (t_status (tsks w1 t))\<rparr>) w1
                in if task_autoalloc w2 then allocate_outbuffers fuel t w2 else (Inr (), w2))"

definition resize_status :: "tid \<Rightarrow> sid \<Rightarrow> world \<Rightarrow> (world, unit) outcome" where
  "resize_status t i w =
     (let n = 4 * m_n_waves (mods w (t_module (tsks w t))) in
      if n \<noteq> s_databytes (socks w i)
      then bindo (set_databytes i n w) (\<lambda>_ w1.
        let (v, w2) = vec_resize n (t_status (tsks w1 t)) w1 in
        (Inr (), set_dataptr i (vec_data v) (upd_tsk t (\<lambda>x. x\<lparr>t_status := v\<rparr>) w2)))
      else (Inr (), w))"

definition resize_frames :: "tid \<Rightarrow> nat \<Rightarrow> nat \<Rightarrow> sid \<Rightarrow> world \<Rightarrow> (world, unit) outcome" where
  "resize_frames t old new i w =
     (if s_name (socks w i) = status_name then resize_status t i w
      else (let new_databytes = (s_databytes (socks w i) div old) * new in
        bindo (set_databytes i new_databytes w) (\<lambda>_ w1.
          let w2 = set_n_rows i (s_n_rows (socks w1 i) div old * new) w1 in
          (Inr (), if s_type (socks w2 i) = SOUT then resize_out_buffer i new_databytes w2 else w2))))"

definition update_n_frames :: "tid \<Rightarrow> nat \<Rightarrow> nat \<Rightarrow> world \<Rightarrow> (world, unit) outcome" where
  "update_n_frames t old new w = foreach (resize_frames t old new) (t_sockets (tsks w t)) w"

definition update_n_frames_per_wave :: "tid \<Rightarrow> nat \<Rightarrow> world \<Rightarrow> (world, unit) outcome" where
  "update_n_frames_per_wave t new w =
     foreach (\<lambda>(k, i) w1.
         if s_name (socks w1 i) = status_name then resize_status t i w1
         else (let (v, w2) = vec_resize
                 (if new > 1 then t_databytes_per_frame (tsks w1 t) ! k * new else 0)
                 (t_data (tsks w1 t) ! k) w1
           in (Inr (), upd_tsk t (\<lambda>x. x\<lparr>t_data := (t_data x)[k := v]\<rparr>) w2)))
       (enumerate 0 (t_sockets (tsks w t))) w"

section \<open>Fake input sockets\<close>

text \<open>
  \<^verbatim>\<open>Task::_bind\<close>: a task depends on a socket without reading it through a fake input socket. The first
  loop calls \<^verbatim>\<open>get_bound_socket\<close> on the fake sockets, which throws when one of them is not bound; the
  second one, on the real sockets, catches the exception.
\<close>

fun fake_bound_to :: "sid \<Rightarrow> sid list \<Rightarrow> world \<Rightarrow> exn + bool" where
  "fake_bound_to out [] w = Inr False"
| "fake_bound_to out (i # is) w =
     (case get_bound_socket i w of
        Inl e \<Rightarrow> Inl e
      | Inr b \<Rightarrow> if b = out then Inr True else fake_bound_to out is w)"

definition real_bound_to :: "sid \<Rightarrow> tid \<Rightarrow> world \<Rightarrow> bool" where
  "real_bound_to out t w \<longleftrightarrow> (\<exists>i \<in> set (t_sockets (tsks w t)).
     (s_type (socks w i) = SIN \<or> s_type (socks w i) = SFWD) \<and> get_bound_socket i w = Inr out)"

definition bind_tsk :: "tid \<Rightarrow> sid \<Rightarrow> int \<Rightarrow> world \<Rightarrow> (world, unit) outcome" where
  "bind_tsk t out priority w =
     (let tk = tsks w t in
      case fake_bound_to out (t_fake_input_sockets tk) w of
        Inl e \<Rightarrow> (Inl e, w)
      | Inr fake \<Rightarrow>
          if fake \<or> real_bound_to out t w then (Inr (), w)
          else bindo
            (new_socket t (''fake'' @ nat_to_string (length (t_fake_input_sockets tk)))
               (s_datatype (socks w out)) (1, s_databytes (socks w out)) SIN (t_fast tk) Null w)
            (\<lambda>i w1. let w2 = upd_tsk t (\<lambda>x. x\<lparr>t_fake_input_sockets := t_fake_input_sockets x @ [i]\<rparr>) w1 in
               bindo (bind_sck i out priority w2) (\<lambda>_ w3.
                 (Inr (), upd_tsk t (\<lambda>x. x\<lparr>t_last_input_socket := Some i,
                    t_n_input_sockets := t_n_input_sockets x + 1\<rparr>) w3))))"

definition bind_tsk_tsk :: "tid \<Rightarrow> tid \<Rightarrow> int \<Rightarrow> world \<Rightarrow> (world, unit) outcome" where
  "bind_tsk_tsk t t_out priority w =
     (if t_sockets (tsks w t_out) = [] then (Inl UB, w)
      else bind_tsk t (last (t_sockets (tsks w t_out))) priority w)"

definition assign_tsk :: "tid \<Rightarrow> sid \<Rightarrow> world \<Rightarrow> (world, unit) outcome" where
  "assign_tsk t out w =
     (if s_type (socks w out) = SOUT \<or> s_type (socks w out) = SFWD then bind_tsk t out (-1) w
      else (Inl Runtime_error, w))"

fun unbind_fake :: "tid \<Rightarrow> sid \<Rightarrow> nat \<Rightarrow> sid list \<Rightarrow> world \<Rightarrow> (world, nat) outcome" where
  "unbind_fake t out k [] w = (Inl Runtime_error, w)"
| "unbind_fake t out k (i # is) w =
     (case get_bound_socket i w of
        Inl e \<Rightarrow> (Inl e, w)
      | Inr b \<Rightarrow>
          if b \<noteq> out then unbind_fake t out (Suc k) is w
          else bindo (unbind_sck i out w) (\<lambda>pos w1.
            (Inr pos, upd_tsk t (\<lambda>x.
               let last0 = (if t_last_input_socket x = Some i then None else t_last_input_socket x);
                   fakes = del_at k (t_fake_input_sockets x)
               in x\<lparr>t_fake_input_sockets := fakes, t_n_input_sockets := t_n_input_sockets x - 1,
                    t_last_input_socket :=
                      (if fakes \<noteq> [] \<and> last0 = None then Some (last fakes) else last0)\<rparr>) w1)))"

definition unbind_tsk :: "tid \<Rightarrow> sid \<Rightarrow> world \<Rightarrow> (world, nat) outcome" where
  "unbind_tsk t out w =
     (if t_fake_input_sockets (tsks w t) \<noteq> []
      then unbind_fake t out 0 (t_fake_input_sockets (tsks w t)) w
      else (Inl Runtime_error, w))"

definition get_n_static_input_sockets :: "tid \<Rightarrow> world \<Rightarrow> nat" where
  "get_n_static_input_sockets t w = length (filter (\<lambda>i. s_type (socks w i) = SIN \<and>
     s_dataptr (socks w i) \<noteq> Null \<and> s_bound_socket (socks w i) = None) (t_sockets (tsks w t)))"

definition set_replicability :: "tid \<Rightarrow> bool \<Rightarrow> world \<Rightarrow> (world, unit) outcome" where
  "set_replicability t b w =
     (if b \<and> \<not> m_clonable (mods w (t_module (tsks w t))) then (Inl Runtime_error, w)
      else (Inr (), upd_tsk t (\<lambda>x. x\<lparr>t_replicable := b\<rparr>) w))"

text \<open>The setters of one member; the ones of the debug mode configure its display.\<close>

definition set_stats :: "tid \<Rightarrow> bool \<Rightarrow> world \<Rightarrow> world" where
  "set_stats t b w = upd_tsk t (\<lambda>x. x\<lparr>t_stats := b\<rparr>) w"

definition set_debug :: "tid \<Rightarrow> bool \<Rightarrow> world \<Rightarrow> world" where
  "set_debug t b w = upd_tsk t (\<lambda>x. x\<lparr>t_debug := b\<rparr>) w"

definition set_debug_hex :: "tid \<Rightarrow> bool \<Rightarrow> world \<Rightarrow> world" where
  "set_debug_hex t b w = upd_tsk t (\<lambda>x. x\<lparr>t_debug_hex := b\<rparr>) w"

definition set_debug_limit :: "tid \<Rightarrow> 32 word \<Rightarrow> world \<Rightarrow> world" where
  "set_debug_limit t limit w = upd_tsk t (\<lambda>x. x\<lparr>t_debug_limit := limit\<rparr>) w"

definition set_debug_precision :: "tid \<Rightarrow> 8 word \<Rightarrow> world \<Rightarrow> world" where
  "set_debug_precision t prec w = upd_tsk t (\<lambda>x. x\<lparr>t_debug_precision := prec\<rparr>) w"

definition set_debug_frame_max :: "tid \<Rightarrow> 32 word \<Rightarrow> world \<Rightarrow> world" where
  "set_debug_frame_max t limit w = upd_tsk t (\<lambda>x. x\<lparr>t_debug_frame_max := limit\<rparr>) w"

definition set_outbuffers_allocated :: "tid \<Rightarrow> bool \<Rightarrow> world \<Rightarrow> world" where
  "set_outbuffers_allocated t b w = upd_tsk t (\<lambda>x. x\<lparr>t_outbuffers_allocated := b\<rparr>) w"

section \<open>Timers and statistics\<close>

text \<open>
  Durations are counted in nanoseconds. The time a codelet takes is read from the clock, so it is an
  argument of the operations that record it.
\<close>

definition register_timer :: "tid \<Rightarrow> string \<Rightarrow> world \<Rightarrow> world" where
  "register_timer t name w = upd_tsk t (\<lambda>x. x\<lparr>t_timers_name := t_timers_name x @ [name],
     t_timers_n_calls := t_timers_n_calls x @ [0], t_timers_total := t_timers_total x @ [0],
     t_timers_max := t_timers_max x @ [0], t_timers_min := t_timers_min x @ [0]\<rparr>) w"

definition update_timer :: "tid \<Rightarrow> nat \<Rightarrow> int \<Rightarrow> world \<Rightarrow> world" where
  "update_timer t k d w =
     (if t_stats (tsks w t) then upd_tsk t (\<lambda>x. x\<lparr>
          t_timers_n_calls := (t_timers_n_calls x)[k := t_timers_n_calls x ! k + 1],
          t_timers_total := (t_timers_total x)[k := t_timers_total x ! k + d],
          t_timers_max := (t_timers_max x)[k :=
            (if t_n_calls x \<noteq> 0 then max (t_timers_max x ! k) d else d)],
          t_timers_min := (t_timers_min x)[k :=
            (if t_n_calls x \<noteq> 0 then min (t_timers_min x ! k) d else d)]\<rparr>) w
      else w)"

definition reset_task :: "tid \<Rightarrow> world \<Rightarrow> world" where
  "reset_task t w = upd_tsk t (\<lambda>x. x\<lparr>t_n_calls := 0, t_duration_total := 0, t_duration_min := 0,
     t_duration_max := 0, t_timers_n_calls := map (\<lambda>_. 0) (t_timers_n_calls x),
     t_timers_total := map (\<lambda>_. 0) (t_timers_total x), t_timers_min := map (\<lambda>_. 0) (t_timers_min x),
     t_timers_max := map (\<lambda>_. 0) (t_timers_max x)\<rparr>) w"

text \<open>
  The statistics part of \<^verbatim>\<open>exec\<close>: the duration \<open>d\<close> of the call is added, and is the first minimum and
  maximum when there was no call before. \<^verbatim>\<open>get_duration_avg\<close> divides by the number of calls, which
  traps when there was none.
\<close>

definition record_duration :: "tid \<Rightarrow> int \<Rightarrow> world \<Rightarrow> world" where
  "record_duration t d w = upd_tsk t (\<lambda>x. x\<lparr>t_duration_total := t_duration_total x + d,
     t_duration_min := (if t_n_calls x \<noteq> 0 then min (t_duration_min x) d else d),
     t_duration_max := (if t_n_calls x \<noteq> 0 then max (t_duration_max x) d else d)\<rparr>) w"

definition get_duration_avg :: "tid \<Rightarrow> world \<Rightarrow> exn + int" where
  "get_duration_avg t w =
     (if t_n_calls (tsks w t) = 0 then Inl UB
      else Inr (let n = uint (t_n_calls (tsks w t)); d = t_duration_total (tsks w t)
        in sgn d * (\<bar>d\<bar> div n)))"

section \<open>Cloning\<close>

text \<open>
  \<^verbatim>\<open>Task::clone\<close>: the vectors are copied (new blocks with the same bytes), the sockets are rebuilt one
  by one without their links: an input or forward socket keeps the data pointer, an output socket
  loses it, the status socket points at the copied status. The counter of input sockets is copied as
  it is, the fake input sockets it counts are not.
\<close>

definition copy_vec :: "vec \<Rightarrow> world \<Rightarrow> vec \<times> world" where
  "copy_vec v w = (let b = next_block w in
     if v_size v = 0 then (empty_vec, w)
     else (\<lparr>v_block = b, v_cap = v_size v, v_size = v_size v\<rparr>,
       w\<lparr>mem := (mem w)(b := take (v_size v) (mem w (v_block v))), next_block := Suc b\<rparr>))"

fun copy_vecs :: "vec list \<Rightarrow> world \<Rightarrow> vec list \<times> world" where
  "copy_vecs [] w = ([], w)"
| "copy_vecs (v # vs) w =
     (let (v', w1) = copy_vec v w; (vs', w2) = copy_vecs vs w1 in (v' # vs', w2))"

definition clone_socket :: "tid \<Rightarrow> sid \<Rightarrow> world \<Rightarrow> (world, unit) outcome" where
  "clone_socket t' i w =
     (let s = socks w i;
          p = (if s_type s = SOUT
               then (if s_name s = status_name then vec_data (t_status (tsks w t')) else Null)
               else get_dataptr s 0)
      in if s_n_rows s = 0 then (Inl UB, w)
      else bindo (new_socket t' (s_name s) (s_datatype s) (s_n_rows s, s_databytes s div s_n_rows s)
             (s_type s) (s_fast s) p w)
        (\<lambda>j w1. (Inr (), upd_tsk t' (\<lambda>x. x\<lparr>t_sockets := t_sockets x @ [j],
           t_last_input_socket := (if s_type s = SIN \<or> s_type s = SFWD then Some j
             else t_last_input_socket x)\<rparr>) w1)))"

definition clone_task :: "nat \<Rightarrow> tid \<Rightarrow> world \<Rightarrow> (world, tid) outcome" where
  "clone_task fuel t w =
     (let t' = next_task w; tk = tsks w t;
          (st, w1) = copy_vec (t_status tk) w;
          (dat, w2) = copy_vecs (t_data tk) w1;
          w3 = w2\<lparr>tsks := (tsks w2)(t' := tk\<lparr>t_status := st, t_data := dat, t_sockets := [],
                 t_last_input_socket := None, t_fake_input_sockets := [],
                 t_outbuffers_allocated := False\<rparr>), next_task := Suc t'\<rparr>
      in bindo (foreach (clone_socket t') (t_sockets tk) w3)
        (\<lambda>_ w4. bindo (if task_autoalloc w4 then allocate_outbuffers fuel t' w4 else (Inr (), w4))
          (\<lambda>_ w5. (Inr t', w5))))"

section \<open>The sockets of a task\<close>

text \<open>
  \<open>wf_task\<close>: the sockets of a task are live, distinct and have distinct names; the status socket, when
  there is one, is the last; the per-socket vectors have one entry per socket; the three counters count
  the sockets of each type, the fake input sockets being inputs.
\<close>

definition of_type :: "socket_t \<Rightarrow> tid \<Rightarrow> world \<Rightarrow> sid list" where
  "of_type ty t w = filter (\<lambda>i. s_type (socks w i) = ty) (t_sockets (tsks w t))"

definition wf_task :: "tid \<Rightarrow> world \<Rightarrow> bool" where
  "wf_task t w \<longleftrightarrow> (let tk = tsks w t; ss = t_sockets tk in
     distinct ss \<and> (\<forall>i \<in> set ss. i < next_sock w) \<and>
     distinct (map (\<lambda>i. s_name (socks w i)) ss) \<and>
     (\<forall>i \<in> set (butlast ss). s_name (socks w i) \<noteq> status_name) \<and>
     length (t_dataptr_init tk) = length ss \<and> length (t_databytes_per_frame tk) = length ss \<and>
     length (t_data tk) = length ss \<and>
     t_n_input_sockets tk = length (of_type SIN t w) + length (t_fake_input_sockets tk) \<and>
     t_n_output_sockets tk = length (of_type SOUT t w) \<and>
     t_n_fwd_sockets tk = length (of_type SFWD t w) \<and>
     (\<forall>i \<in> set (t_fake_input_sockets tk). i < next_sock w))"

text \<open>The socket a creation adds, and the store after it.\<close>

definition created :: "tid \<Rightarrow> string \<Rightarrow> nat \<Rightarrow> nat \<Rightarrow> type_index \<Rightarrow> socket_t \<Rightarrow> world \<Rightarrow> world \<Rightarrow> bool" where
  "created t name n_rows n_cols T type w w' \<longleftrightarrow> (let tk = tsks w t; i = next_sock w in
     next_sock w' = Suc i \<and>
     socks w' = (socks w)(i := \<lparr>s_task = t, s_name = name, s_datatype = T,
       s_databytes = n_rows * (n_cols * type_to_size T), s_fast = t_fast tk, s_dataptr = Null,
       s_n_rows = n_rows, s_start_row = 0, s_bound_sockets = [], s_bound_socket = None,
       s_type = type, s_out_buffer = empty_vec\<rparr>) \<and>
     t_sockets (tsks w' t) = t_sockets tk @ [i] \<and>
     length (t_dataptr_init (tsks w' t)) = Suc (length (t_dataptr_init tk)) \<and>
     t_databytes_per_frame (tsks w' t) = t_databytes_per_frame tk @
       [n_rows * (n_cols * type_to_size T) div m_n_frames (mods w (t_module tk))] \<and>
     length (t_data (tsks w' t)) = Suc (length (t_data tk)) \<and>
     t_fake_input_sockets (tsks w' t) = t_fake_input_sockets tk \<and>
     t_n_input_sockets (tsks w' t) = t_n_input_sockets tk \<and>
     t_n_output_sockets (tsks w' t) = t_n_output_sockets tk \<and>
     t_n_fwd_sockets (tsks w' t) = t_n_fwd_sockets tk \<and>
     mods w' = mods w \<and> t_module (tsks w' t) = t_module tk)"

definition name_free :: "tid \<Rightarrow> string \<Rightarrow> world \<Rightarrow> bool" where
  "name_free t name w \<longleftrightarrow> (\<forall>i \<in> set (t_sockets (tsks w t)).
     s_name (socks w i) \<noteq> name \<and> s_name (socks w i) \<noteq> status_name)"

lemma create_2d_socket_cases:
  "(\<exists>e. create_2d_socket t name n_rows n_cols T type hack w = (Inl e, w)) \<or>
   (name \<noteq> [] \<and> (name = status_name \<longrightarrow> hack) \<and> name_free t name w \<and> type_to_size T \<noteq> 0 \<and>
    (\<exists>w'. create_2d_socket t name n_rows n_cols T type hack w = (Inr (next_sock w), w') \<and>
      created t name n_rows n_cols T type w w'))"
proof -
  have mod0: "n_rows * (n_cols * type_to_size T) mod type_to_size T = 0"
    by (simp add: mult.assoc [symmetric])
  show ?thesis
    unfolding create_2d_socket_def new_socket_def created_def name_free_def Let_def split_beta
    using mod0 by auto
qed

lemma of_type_created:
  assumes "created t name r c T type w w'" and "\<forall>i \<in> set (t_sockets (tsks w t)). i < next_sock w"
  shows "of_type ty t w' = of_type ty t w @ (if ty = type then [next_sock w] else [])"
proof -
  have "filter (\<lambda>i. s_type (socks w' i) = ty) (t_sockets (tsks w t)) =
      filter (\<lambda>i. s_type (socks w i) = ty) (t_sockets (tsks w t))"
    using assms by (intro filter_cong) (auto simp: created_def Let_def)
  with assms(1) show ?thesis by (auto simp: of_type_def created_def Let_def)
qed

text \<open>The counters after the creation make up for the socket added.\<close>

definition bump :: "socket_t \<Rightarrow> task \<Rightarrow> task" where
  "bump ty x = (case ty of
     SIN \<Rightarrow> x\<lparr>t_n_input_sockets := t_n_input_sockets x + 1\<rparr>
   | SOUT \<Rightarrow> x\<lparr>t_n_output_sockets := t_n_output_sockets x + 1\<rparr>
   | SFWD \<Rightarrow> x\<lparr>t_n_fwd_sockets := t_n_fwd_sockets x + 1\<rparr>)"

lemma wf_task_created:
  assumes wf: "wf_task t w" and cr: "created t name r c T type w w'" and free: "name_free t name w"
    and upd: "\<And>x. t_sockets (f x) = t_sockets x" "\<And>x. t_dataptr_init (f x) = t_dataptr_init x"
      "\<And>x. t_databytes_per_frame (f x) = t_databytes_per_frame x" "\<And>x. t_data (f x) = t_data x"
      "\<And>x. t_fake_input_sockets (f x) = t_fake_input_sockets x"
      "\<And>x. t_n_input_sockets (f x) = t_n_input_sockets (bump type x)"
      "\<And>x. t_n_output_sockets (f x) = t_n_output_sockets (bump type x)"
      "\<And>x. t_n_fwd_sockets (f x) = t_n_fwd_sockets (bump type x)"
  shows "wf_task t (upd_tsk t f w')"
proof -
  let ?ss = "t_sockets (tsks w t)"
  have live: "\<forall>i \<in> set ?ss. i < next_sock w" using wf by (simp add: wf_task_def Let_def)
  then have fresh: "next_sock w \<notin> set ?ss" by blast
  have names: "map (\<lambda>i. s_name (socks w' i)) ?ss = map (\<lambda>i. s_name (socks w i)) ?ss"
    using cr live by (auto simp: created_def Let_def)
  have "of_type ty t (upd_tsk t f w') = of_type ty t w'" for ty by (simp add: of_type_def upd)
  note ot = this of_type_created [OF cr live]
  have old: "s_name (socks w' i) = s_name (socks w i)" if "i \<in> set ?ss" for i
    using cr live that by (auto simp: created_def Let_def)
  have st: "\<forall>i \<in> set ?ss. s_name (socks w' i) \<noteq> status_name"
    using free old by (auto simp: name_free_def)
  have "s_name (socks w' (next_sock w)) = name" using cr by (simp add: created_def Let_def)
  with names have "map (\<lambda>i. s_name (socks w' i)) (?ss @ [next_sock w]) =
      map (\<lambda>i. s_name (socks w i)) ?ss @ [name]" by simp
  moreover have "name \<notin> set (map (\<lambda>i. s_name (socks w i)) ?ss)"
    using free by (auto simp: name_free_def)
  moreover have "distinct (map (\<lambda>i. s_name (socks w i)) ?ss)"
    using wf by (simp add: wf_task_def Let_def)
  ultimately have dn: "distinct (map (\<lambda>i. s_name (socks w' i)) (?ss @ [next_sock w]))"
    by (simp only: distinct_append) simp
  have sts: "t_sockets (tsks w' t) = ?ss @ [next_sock w]" using cr by (simp add: created_def Let_def)
  have cnt: "t_n_input_sockets (f (tsks w' t)) = length (of_type SIN t w) +
        (if type = SIN then 1 else 0) + length (t_fake_input_sockets (tsks w t))"
      "t_n_output_sockets (f (tsks w' t)) = length (of_type SOUT t w) + (if type = SOUT then 1 else 0)"
      "t_n_fwd_sockets (f (tsks w' t)) = length (of_type SFWD t w) + (if type = SFWD then 1 else 0)"
    using wf cr by (auto simp: upd wf_task_def created_def Let_def bump_def split: socket_t.splits)
  have rest: "length (t_dataptr_init (tsks w' t)) = Suc (length ?ss)"
      "length (t_databytes_per_frame (tsks w' t)) = Suc (length ?ss)"
      "length (t_data (tsks w' t)) = Suc (length ?ss)" "next_sock w' = Suc (next_sock w)"
      "t_fake_input_sockets (tsks w' t) = t_fake_input_sockets (tsks w t)"
      "\<forall>i \<in> set (t_fake_input_sockets (tsks w t)). i < next_sock w"
    using wf cr by (simp_all add: wf_task_def created_def Let_def)
  show ?thesis
    using wf fresh st dn live rest unfolding wf_task_def Let_def ot
    by (auto simp: upd(1-5) sts cnt less_Suc_eq)
qed

lemma create_in_keeps: "wf_task t w \<Longrightarrow> wf_task t (snd (create_2d_socket_in t name r c T w))"
proof -
  assume wf: "wf_task t w"
  from create_2d_socket_cases [of t name r c T SIN False w] show ?thesis
    using wf by (cases T) (auto simp: create_2d_socket_in_def Let_def
        intro!: wf_task_created [OF wf] simp: bump_def)
qed

lemma create_out_keeps: "wf_task t w \<Longrightarrow> wf_task t (snd (create_2d_socket_out t name r c T h w))"
proof -
  assume wf: "wf_task t w"
  from create_2d_socket_cases [of t name r c T SOUT h w] show ?thesis
    using wf by (cases T) (auto simp: create_2d_socket_out_def Let_def
        intro!: wf_task_created [OF wf] simp: bump_def)
qed

lemma create_fwd_keeps: "wf_task t w \<Longrightarrow> wf_task t (snd (create_2d_socket_fwd t name r c T w))"
proof -
  assume wf: "wf_task t w"
  from create_2d_socket_cases [of t name r c T SFWD False w] show ?thesis
    using wf by (cases T) (auto simp: create_2d_socket_fwd_def Let_def
        intro!: wf_task_created [OF wf] simp: bump_def)
qed

section \<open>Binding a task to a socket\<close>

text \<open>The task holds no stale fake input socket, and does not depend on \<open>out\<close> yet.\<close>

definition fakes_bound :: "tid \<Rightarrow> world \<Rightarrow> bool" where
  "fakes_bound t w \<longleftrightarrow>
     (\<forall>i \<in> set (t_fake_input_sockets (tsks w t)). s_bound_socket (socks w i) \<noteq> None)"

definition depends_on :: "tid \<Rightarrow> sid \<Rightarrow> world \<Rightarrow> bool" where
  "depends_on t out w \<longleftrightarrow>
     (\<exists>i \<in> set (t_fake_input_sockets (tsks w t)). s_bound_socket (socks w i) = Some out) \<or>
     real_bound_to out t w"

definition bindable :: "tid \<Rightarrow> sid \<Rightarrow> world \<Rightarrow> bool" where
  "bindable t out w \<longleftrightarrow>
     (let s = socks w out in type_to_size (s_datatype s) \<noteq> 0 \<and>
        s_databytes s mod type_to_size (s_datatype s) = 0 \<and>
        (t_fast (tsks w t) \<or> \<not> (t_outbuffers_allocated (tsks w (s_task s)) \<and> s_dataptr s = Null)))"

lemma fake_bound_to_all_bound:
  assumes "\<forall>i \<in> set is. s_bound_socket (socks w i) \<noteq> None"
  shows "fake_bound_to out is w = Inr (\<exists>i \<in> set is. s_bound_socket (socks w i) = Some out)"
  using assms by (induction "is") (auto simp: get_bound_socket_def split: option.splits)

lemma fake_bound_to_stale:
  assumes "\<forall>i \<in> set is. s_bound_socket (socks w i) \<noteq> Some out"
    and "i \<in> set is" and "s_bound_socket (socks w i) = None"
  shows "fake_bound_to out is w = Inl Runtime_error"
  using assms by (induction "is") (auto simp: get_bound_socket_def split: option.splits)

text \<open>The store after a new fake input socket was linked to \<open>out\<close>.\<close>

definition fake_socket :: "tid \<Rightarrow> sid \<Rightarrow> world \<Rightarrow> socket" where
  "fake_socket t out w =
     \<lparr>s_task = t, s_name = ''fake'' @ nat_to_string (length (t_fake_input_sockets (tsks w t))),
      s_datatype = s_datatype (socks w out), s_databytes = s_databytes (socks w out),
      s_fast = t_fast (tsks w t), s_dataptr = Null, s_n_rows = 1, s_start_row = 0,
      s_bound_sockets = [], s_bound_socket = None, s_type = SIN, s_out_buffer = empty_vec\<rparr>"

definition with_fake :: "tid \<Rightarrow> sid \<Rightarrow> world \<Rightarrow> world" where
  "with_fake t out w = upd_tsk t
     (\<lambda>x. x\<lparr>t_fake_input_sockets := t_fake_input_sockets x @ [next_sock w]\<rparr>)
     (w\<lparr>socks := (socks w)(next_sock w := fake_socket t out w), next_sock := Suc (next_sock w)\<rparr>)"

lemma with_fake_sel [simp]:
  "socks (with_fake t out w) j = (if j = next_sock w then fake_socket t out w else socks w j)"
  "next_sock (with_fake t out w) = Suc (next_sock w)"
  "tsks (with_fake t out w) u = (if u = t
     then (tsks w t)\<lparr>t_fake_input_sockets := t_fake_input_sockets (tsks w t) @ [next_sock w]\<rparr>
     else tsks w u)"
  by (simp_all add: with_fake_def)

lemma wf_links_with_fake: "wf_links w \<Longrightarrow> wf_links (with_fake t out w)"
proof -
  assume wf: "wf_links w"
  note d = wf_linksD [OF wf]
  have "next_sock w \<notin> set (s_bound_sockets (socks w j))" for j
    using d(1, 3) by (metis option.discI order_refl)
  moreover have "s_bound_socket (socks w j) \<noteq> Some (next_sock w)" for j
    using d(1, 4) by (metis empty_iff list.set(1) order_refl)
  ultimately show ?thesis using d by (auto simp: wf_links_def fake_socket_def)
qed

definition after_bind_tsk :: "tid \<Rightarrow> sid \<Rightarrow> int \<Rightarrow> world \<Rightarrow> world" where
  "after_bind_tsk t out p w = upd_tsk t
     (\<lambda>x. x\<lparr>t_last_input_socket := Some (next_sock w), t_n_input_sockets := t_n_input_sockets x + 1\<rparr>)
     (link (next_sock w) out p (with_fake t out w))"

lemma bind_tsk_new:
  assumes wf: "wf_links w" and out: "out < next_sock w" and fb: "fakes_bound t w"
    and dep: "\<not> depends_on t out w" and ok: "bindable t out w"
  shows "bind_tsk t out p w = (Inr (), after_bind_tsk t out p w)"
    and "wf_links (after_bind_tsk t out p w)"
proof -
  let ?i = "next_sock w" and ?w = "with_fake t out w"
  from fb dep have no: "fake_bound_to out (t_fake_input_sockets (tsks w t)) w = Inr False"
    by (subst fake_bound_to_all_bound) (auto simp: fakes_bound_def depends_on_def)
  from ok have mk: "new_socket t (''fake'' @ nat_to_string (length (t_fake_input_sockets (tsks w t))))
      (s_datatype (socks w out)) (1, s_databytes (socks w out)) SIN (t_fast (tsks w t)) Null w =
    (Inr ?i, w\<lparr>socks := (socks w)(?i := fake_socket t out w), next_sock := Suc ?i\<rparr>)"
    by (simp add: new_socket_def bindable_def fake_socket_def Let_def)
  have w2: "upd_tsk t (\<lambda>x. x\<lparr>t_fake_input_sockets := t_fake_input_sockets x @ [?i]\<rparr>)
      (w\<lparr>socks := (socks w)(?i := fake_socket t out w), next_sock := Suc ?i\<rparr>) = ?w"
    by (simp add: with_fake_def)
  from wf have wf': "wf_links ?w" by (rule wf_links_with_fake)
  have ch: "bind_checks ?i out ?w"
    using ok out by (auto simp: bind_checks_def bindable_def fake_socket_def Let_def)
  have none: "s_bound_socket (socks ?w ?i) = None" by (simp add: fake_socket_def)
  then have "bind_sck ?i out p ?w = (Inr (), link ?i out p ?w)"
    using wf' ch by (intro bind_unlinked) auto
  with no mk w2 dep show "bind_tsk t out p w = (Inr (), after_bind_tsk t out p w)"
    by (simp add: bind_tsk_def Let_def depends_on_def after_bind_tsk_def)
  have "wf_links (link ?i out p ?w)" using wf' none out by (intro wf_links_link) auto
  then show "wf_links (after_bind_tsk t out p w)"
    unfolding after_bind_tsk_def by (subst wf_links_frame) auto
qed

lemma bind_tsk_again: "fakes_bound t w \<Longrightarrow> depends_on t out w \<Longrightarrow> bind_tsk t out p w = (Inr (), w)"
  unfolding bind_tsk_def Let_def
  by (subst fake_bound_to_all_bound) (auto simp: fakes_bound_def depends_on_def)

lemma unbind_fake_skip:
  assumes "\<forall>i \<in> set is. s_bound_socket (socks w i) \<noteq> None \<and> s_bound_socket (socks w i) \<noteq> Some out"
  shows "unbind_fake t out k (is @ js) w = unbind_fake t out (k + length is) js w"
  using assms
  by (induction "is" arbitrary: k) (auto simp: get_bound_socket_def split: option.splits)

lemma unbind_upd_tsk:
  "unbind_sck i out (upd_tsk t h v) =
     (fst (unbind_sck i out v), upd_tsk t h (snd (unbind_sck i out v)))"
proof -
  have comm: "upd_sck j f (upd_tsk t h u) = upd_tsk t h (upd_sck j f u)" for j f u
    by (simp add: world_upd_defs)
  have keep: "s_bound_sockets (socks (upd_sck i (\<lambda>s. s\<lparr>s_bound_socket := None\<rparr>) v) j) =
      s_bound_sockets (socks v j)" for j by simp
  show ?thesis
    unfolding unbind_sck_def Let_def comm upd_tsk_sel keep
    by (cases "find_pos i (s_bound_sockets (socks v out))") (simp_all del: find_pos_None)
qed

text \<open>Unbinding finds the fake socket the bind created, and leaves the task as it was before it.\<close>

lemma unbind_tsk_after_bind:
  assumes wf: "wf_links w" and out: "out < next_sock w" and fb: "fakes_bound t w"
    and dep: "\<not> depends_on t out w" and p: "- (2 ^ 31) \<le> p" "p < 2 ^ 31"
    and live: "\<forall>i \<in> set (t_fake_input_sockets (tsks w t)). i < next_sock w"
  shows "\<exists>w'. unbind_tsk t out (after_bind_tsk t out p w) =
      (Inr (bound_pos p (length (s_bound_sockets (socks w out)))), w') \<and>
    t_fake_input_sockets (tsks w' t) = t_fake_input_sockets (tsks w t) \<and>
    t_n_input_sockets (tsks w' t) = t_n_input_sockets (tsks w t) \<and>
    t_sockets (tsks w' t) = t_sockets (tsks w t) \<and>
    (\<forall>j < next_sock w. socks w' j = socks w j) \<and> wf_links w'"
proof -
  let ?i = "next_sock w" and ?w = "after_bind_tsk t out p w" and ?f = "with_fake t out w"
  let ?fs = "t_fake_input_sockets (tsks w t)" and ?pos = "bound_pos p (length (s_bound_sockets (socks w out)))"
  have wff: "wf_links ?f" using wf by (rule wf_links_with_fake)
  have none: "s_bound_socket (socks ?f ?i) = None" by (simp add: fake_socket_def)
  have sk: "socks ?w = socks (link ?i out p ?f)" by (simp add: after_bind_tsk_def)
  have fs: "t_fake_input_sockets (tsks ?w t) = ?fs @ [?i]"
    by (simp add: after_bind_tsk_def link_def)
  have "\<forall>j \<in> set ?fs. s_bound_socket (socks ?w j) \<noteq> None \<and> s_bound_socket (socks ?w j) \<noteq> Some out"
    using fb dep live unfolding sk by (auto simp: link_sel fakes_bound_def depends_on_def)
  from unbind_fake_skip [OF this, of t 0 "[?i]"] have
    u: "unbind_tsk t out ?w = unbind_fake t out (length ?fs) [?i] ?w"
    by (simp add: unbind_tsk_def fs)
  let ?g = "\<lambda>x. x\<lparr>t_last_input_socket := Some ?i, t_n_input_sockets := t_n_input_sockets x + 1\<rparr>"
  from unbind_link [OF wff none p, of out] have
    ul: "unbind_sck ?i out (link ?i out p ?f) =
      (Inr (bound_pos p (length (s_bound_sockets (socks ?f out)))),
       upd_sck ?i (\<lambda>s. s\<lparr>s_dataptr := s_dataptr (socks ?f out)\<rparr>) ?f)" .
  with ul out have us: "unbind_sck ?i out ?w = (Inr ?pos,
      upd_tsk t ?g (upd_sck ?i (\<lambda>s. s\<lparr>s_dataptr := s_dataptr (socks ?f out)\<rparr>) ?f))"
    by (simp add: after_bind_tsk_def unbind_upd_tsk)
  have gb: "get_bound_socket ?i ?w = Inr out" by (simp add: get_bound_socket_def sk link_sel)
  have wf2: "wf_links (upd_tsk t h (upd_tsk t ?g (upd_sck ?i (\<lambda>s. s\<lparr>s_dataptr := q\<rparr>) ?f)))" for h q
  proof -
    have "wf_links (upd_sck ?i (\<lambda>s. s\<lparr>s_dataptr := q\<rparr>) ?f)" using wff by simp
    then show ?thesis by (subst wf_links_frame) auto
  qed
  show ?thesis
    unfolding u using us gb wf2 by (auto simp: del_at_last Let_def)
qed

text \<open>
  A reset of \<open>out\<close> unbinds the fake socket but leaves it in the task: the next bind or unbind of the
  task throws.
\<close>

lemma bind_tsk_stale:
  assumes "i \<in> set (t_fake_input_sockets (tsks w t))" and "s_bound_socket (socks w i) = None"
    and "\<forall>j \<in> set (t_fake_input_sockets (tsks w t)). s_bound_socket (socks w j) \<noteq> Some out"
  shows "bind_tsk t out p w = (Inl Runtime_error, w)"
  using fake_bound_to_stale [OF assms(3,1,2)] by (simp add: bind_tsk_def Let_def)

lemma erase_links_tsks: "erase_links w' = erase_links w \<Longrightarrow> tsks w' = tsks w"
  by (metis (no_types, lifting) erase_links_def world.select_convs(2) world.surjective world.update_convs(1))

lemma reset_makes_fake_stale:
  assumes wf: "wf_links w" and i: "i \<in> set (t_fake_input_sockets (tsks w t))"
    and b: "s_bound_socket (socks w i) = Some out"
    and other: "\<forall>j \<in> set (t_fake_input_sockets (tsks w t)). s_bound_socket (socks w j) \<noteq> Some out2"
  shows "\<exists>w'. reset_sck out w = (Inr (), w') \<and> bind_tsk t out2 p w' = (Inl Runtime_error, w')"
proof -
  from reset_correct [OF wf, of out] obtain w' where r: "reset_sck out w = (Inr (), w')"
      "erase_links w' = erase_links w"
      "\<forall>j. s_bound_socket (socks w' j) = (if j = out \<or> s_bound_socket (socks w j) = Some out
         then None else s_bound_socket (socks w j))" by blast
  have "tsks w' = tsks w" using r(2) by (rule erase_links_tsks)
  with r i b other have "bind_tsk t out2 p w' = (Inl Runtime_error, w')"
    by (intro bind_tsk_stale [of i]) auto
  with r(1) show ?thesis by blast
qed

section \<open>The sizes after a change of the number of frames\<close>

definition unlinked :: "sid \<Rightarrow> world \<Rightarrow> bool" where
  "unlinked i w \<longleftrightarrow> s_bound_socket (socks w i) = None \<and> s_bound_sockets (socks w i) = []"

text \<open>What the resizing of a task may change: the buffers, not the shape of the store.\<close>

definition strip_task :: "task \<Rightarrow> task" where
  "strip_task x = x\<lparr>t_status := empty_vec, t_data := []\<rparr>"

definition same_shape :: "world \<Rightarrow> world \<Rightarrow> bool" where
  "same_shape w w' \<longleftrightarrow> mods w' = mods w \<and> next_sock w' = next_sock w \<and> next_task w' = next_task w \<and>
     (\<forall>u. strip_task (tsks w' u) = strip_task (tsks w u)) \<and>
     (\<forall>u. length (t_data (tsks w' u)) = length (t_data (tsks w u)))"

lemma same_shape_refl [simp]: "same_shape w w"
  by (simp add: same_shape_def)

lemma same_shape_trans: "same_shape u v \<Longrightarrow> same_shape v w \<Longrightarrow> same_shape u w"
  by (simp add: same_shape_def)

lemma same_shapeD:
  assumes "same_shape w w'"
  shows "mods w' = mods w" "t_sockets (tsks w' u) = t_sockets (tsks w u)"
    "t_module (tsks w' u) = t_module (tsks w u)"
    "t_databytes_per_frame (tsks w' u) = t_databytes_per_frame (tsks w u)"
    "length (t_data (tsks w' u)) = length (t_data (tsks w u))"
    "next_sock w' = next_sock w"
proof -
  from assms have s: "strip_task (tsks w' u) = strip_task (tsks w u)" by (simp add: same_shape_def)
  from arg_cong [OF s, of t_sockets] arg_cong [OF s, of t_module]
    arg_cong [OF s, of t_databytes_per_frame]
  show "t_sockets (tsks w' u) = t_sockets (tsks w u)" "t_module (tsks w' u) = t_module (tsks w u)"
    "t_databytes_per_frame (tsks w' u) = t_databytes_per_frame (tsks w u)"
    by (simp_all add: strip_task_def)
qed (use assms in \<open>simp_all add: same_shape_def\<close>)

text \<open>A socket with only its sizes and buffers changed.\<close>

definition strip_socket :: "socket \<Rightarrow> socket" where
  "strip_socket s = s\<lparr>s_databytes := 0, s_n_rows := 0, s_start_row := 0, s_dataptr := Null,
     s_out_buffer := empty_vec\<rparr>"

definition resized :: "sid \<Rightarrow> nat \<Rightarrow> nat \<Rightarrow> world \<Rightarrow> world \<Rightarrow> bool" where
  "resized i n rows w w' \<longleftrightarrow>
     strip_socket (socks w' i) = strip_socket (socks w i) \<and>
     s_databytes (socks w' i) = n \<and> s_n_rows (socks w' i) = rows \<and>
     (\<forall>j. j \<noteq> i \<longrightarrow> socks w' j = socks w j) \<and> same_shape w w'"

lemma strip_socket_sel:
  "strip_socket s = strip_socket s' \<Longrightarrow> s_name s = s_name s' \<and> s_type s = s_type s' \<and>
     s_bound_socket s = s_bound_socket s' \<and> s_bound_sockets s = s_bound_sockets s'"
  by (auto simp: strip_socket_def dest: arg_cong [where f = s_name] arg_cong [where f = s_type]
      arg_cong [where f = s_bound_socket] arg_cong [where f = s_bound_sockets])

lemma resize_status_unlinked:
  assumes "unlinked i w"
  shows "\<exists>w'. resize_status t i w = (Inr (), w') \<and>
    resized i (4 * m_n_waves (mods w (t_module (tsks w t)))) (s_n_rows (socks w i)) w w'"
  using assms
  by (auto simp: resize_status_def set_databytes_def check_bound_socket_def unlinked_def Let_def
      split_beta set_dataptr_def resized_def strip_socket_def same_shape_def strip_task_def
      vec_resize_def)

definition target_bytes :: "tid \<Rightarrow> nat \<Rightarrow> nat \<Rightarrow> world \<Rightarrow> sid \<Rightarrow> nat" where
  "target_bytes t old new w i =
     (if s_name (socks w i) = status_name then 4 * m_n_waves (mods w (t_module (tsks w t)))
      else s_databytes (socks w i) div old * new)"

definition target_rows :: "nat \<Rightarrow> nat \<Rightarrow> world \<Rightarrow> sid \<Rightarrow> nat" where
  "target_rows old new w i =
     (if s_name (socks w i) = status_name then s_n_rows (socks w i)
      else s_n_rows (socks w i) div old * new)"

lemma frames_step:
  assumes "unlinked i w"
  shows "\<exists>w'. resize_frames t old new i w = (Inr (), w') \<and>
    resized i (target_bytes t old new w i) (target_rows old new w i) w w'"
proof (cases "s_name (socks w i) = status_name")
  case True
  with resize_status_unlinked [OF assms, of t] show ?thesis
    by (simp add: target_bytes_def target_rows_def resize_frames_def)
next
  case False
  then show ?thesis using assms
    by (auto simp: set_databytes_def check_bound_socket_def unlinked_def Let_def split_beta
        set_n_rows_def resized_def strip_socket_def same_shape_def strip_task_def
        resize_out_buffer_def target_bytes_def target_rows_def resize_frames_def)
qed

text \<open>
  A loop that resizes one socket per element: the elements have different sockets, and the size an
  element gets depends on its own socket only.
\<close>

definition all_resized ::
  "('x \<Rightarrow> sid) \<Rightarrow> ('x \<Rightarrow> world \<Rightarrow> nat) \<Rightarrow> ('x \<Rightarrow> world \<Rightarrow> nat) \<Rightarrow> 'x list \<Rightarrow> world \<Rightarrow> world \<Rightarrow> bool" where
  "all_resized key B R xs w w' \<longleftrightarrow> same_shape w w' \<and>
     (\<forall>i. strip_socket (socks w' i) = strip_socket (socks w i)) \<and>
     (\<forall>x \<in> set xs. s_databytes (socks w' (key x)) = B x w \<and> s_n_rows (socks w' (key x)) = R x w) \<and>
     (\<forall>i. i \<notin> key ` set xs \<longrightarrow> socks w' i = socks w i)"

lemma resize_loop:
  assumes step: "\<And>x w. unlinked (key x) w \<Longrightarrow>
      \<exists>w'. f x w = (Inr (), w') \<and> resized (key x) (B x w) (R x w) w w'"
    and local: "\<And>x v v'. same_shape v v' \<Longrightarrow> socks v' (key x) = socks v (key x) \<Longrightarrow>
      B x v' = B x v \<and> R x v' = R x v"
    and "distinct (map key xs)" and "\<forall>x \<in> set xs. unlinked (key x) w"
  shows "\<exists>w'. foreach f xs w = (Inr (), w') \<and> all_resized key B R xs w w'"
  using assms(3,4)
proof (induction xs arbitrary: w)
  case Nil
  then show ?case by (simp add: all_resized_def)
next
  case (Cons x xs)
  then have "unlinked (key x) w" by simp
  from step [OF this] obtain w1 where
    w1: "f x w = (Inr (), w1)" and r: "resized (key x) (B x w) (R x w) w w1" by blast
  have same: "socks w1 j = socks w j" if "j \<noteq> key x" for j using r that by (simp add: resized_def)
  have ne: "key y \<noteq> key x" if "y \<in> set xs" for y
    using that Cons.prems(1) by (auto simp: image_iff)
  have "unlinked (key y) w1" if "y \<in> set xs" for y
    using same [OF ne [OF that]] Cons.prems that by (simp add: unlinked_def)
  with Cons.prems Cons.IH [of w1] obtain w' where
    w': "foreach f xs w1 = (Inr (), w')" "all_resized key B R xs w1 w'"
    by auto
  have sh: "same_shape w w1" using r by (simp add: resized_def)
  have tg: "B y w1 = B y w" "R y w1 = R y w" if "y \<in> set xs" for y
    using local [OF sh same [OF ne [OF that]]] by simp_all
  have ni: "socks w' (key x) = socks w1 (key x)" using w'(2) Cons.prems(1) by (simp add: all_resized_def)
  have st: "strip_socket (socks w' j) = strip_socket (socks w j)" for j
    using w'(2) r same by (cases "j = key x") (simp_all add: resized_def all_resized_def)
  have q: "s_databytes (socks w' (key y)) = B y w \<and> s_n_rows (socks w' (key y)) = R y w"
    if "y \<in> set (x # xs)" for y
  proof (cases "y \<in> set xs")
    case True
    with w'(2) tg [OF True] show ?thesis by (simp add: all_resized_def)
  next
    case False
    with that ni r show ?thesis by (simp add: resized_def)
  qed
  have "all_resized key B R (x # xs) w w'"
    using w'(2) sh st q same same_shape_trans [OF sh] by (auto simp: all_resized_def)
  with w1 w'(1) show ?case by simp
qed

text \<open>The loop of \<^verbatim>\<open>update_n_frames_per_wave\<close> resizes the status socket only.\<close>

definition wave_bytes :: "tid \<Rightarrow> world \<Rightarrow> sid \<Rightarrow> nat" where
  "wave_bytes t w i =
     (if s_name (socks w i) = status_name then 4 * m_n_waves (mods w (t_module (tsks w t)))
      else s_databytes (socks w i))"

definition resize_wave :: "tid \<Rightarrow> nat \<Rightarrow> nat \<times> sid \<Rightarrow> world \<Rightarrow> (world, unit) outcome" where
  "resize_wave t new = (\<lambda>(k, i) w1.
         if s_name (socks w1 i) = status_name then resize_status t i w1
         else (let (v, w2) = vec_resize
                 (if new > 1 then t_databytes_per_frame (tsks w1 t) ! k * new else 0)
                 (t_data (tsks w1 t) ! k) w1
           in (Inr (), upd_tsk t (\<lambda>x. x\<lparr>t_data := (t_data x)[k := v]\<rparr>) w2)))"

lemma update_n_frames_per_wave_alt:
  "update_n_frames_per_wave t new w = foreach (resize_wave t new) (enumerate 0 (t_sockets (tsks w t))) w"
  unfolding update_n_frames_per_wave_def resize_wave_def ..

lemma wave_step:
  assumes "unlinked i w"
  shows "\<exists>w'. resize_wave t new (k, i) w = (Inr (), w') \<and>
    resized i (wave_bytes t w i) (s_n_rows (socks w i)) w w'"
proof (cases "s_name (socks w i) = status_name")
  case True
  with resize_status_unlinked [OF assms, of t] show ?thesis
    by (simp add: wave_bytes_def resize_wave_def)
next
  case False
  then show ?thesis
    by (auto simp: resize_wave_def wave_bytes_def Let_def split_beta vec_resize_def resized_def
        strip_socket_def same_shape_def strip_task_def)
qed

lemma bytes_local:
  assumes "same_shape v v'" and "socks v' i = socks v i"
  shows "target_bytes t old new v' i = target_bytes t old new v i"
    and "target_rows old new v' i = target_rows old new v i"
    and "wave_bytes t v' i = wave_bytes t v i"
  using assms same_shapeD [OF assms(1)]
  by (simp_all add: target_bytes_def target_rows_def wave_bytes_def)

section \<open>Who gets the pointer of an output buffer\<close>

text \<open>\<open>feeds w i j\<close>: the socket \<open>j\<close> reads the data of \<open>i\<close>, directly or through forward sockets.\<close>

inductive feeds :: "world \<Rightarrow> sid \<Rightarrow> sid \<Rightarrow> bool" for w where
  direct: "b \<in> set (s_bound_sockets (socks w i)) \<Longrightarrow> feeds w i b"
| via: "b \<in> set (s_bound_sockets (socks w i)) \<Longrightarrow> s_type (socks w b) = SFWD \<Longrightarrow> feeds w b j \<Longrightarrow>
    feeds w i j"

inductive_simps feeds_iff: "feeds w i j"

definition set_all :: "ptr \<Rightarrow> sid set \<Rightarrow> world \<Rightarrow> world" where
  "set_all p A w = w\<lparr>socks := (\<lambda>j. if j \<in> A then (socks w j)\<lparr>s_dataptr := p\<rparr> else socks w j)\<rparr>"

lemma set_all_sel [simp]:
  "s_bound_sockets (socks (set_all p A w) i) = s_bound_sockets (socks w i)"
  "s_bound_socket (socks (set_all p A w) i) = s_bound_socket (socks w i)"
  "s_type (socks (set_all p A w) i) = s_type (socks w i)"
  "s_dataptr (socks (set_all p A w) i) = (if i \<in> A then p else s_dataptr (socks w i))"
  "tsks (set_all p A w) = tsks w" "mods (set_all p A w) = mods w" "mem (set_all p A w) = mem w"
  "next_sock (set_all p A w) = next_sock w"
  by (simp_all add: set_all_def)

lemma set_all_empty [simp]: "set_all p {} w = w"
  by (simp add: set_all_def)

lemma set_all_set_all [simp]: "set_all p A (set_all p B w) = set_all p (A \<union> B) w"
  by (auto simp: set_all_def fun_eq_iff)

lemma feeds_set_all [simp]: "feeds (set_all p A w) i j = feeds w i j"
proof
  show "feeds (set_all p A w) i j \<Longrightarrow> feeds w i j"
    by (induction rule: feeds.induct) (auto intro: feeds.intros)
  show "feeds w i j \<Longrightarrow> feeds (set_all p A w) i j"
    by (induction rule: feeds.induct) (auto intro: feeds.intros)
qed

lemma ptr_add_0 [simp]: "ptr_add p 0 = p"
  by (cases p) auto

lemma set_dataptr_set_all: "set_dataptr b p w = set_all p {b} w"
  by (auto simp: set_dataptr_def get_dataptr_def set_all_def upd_sck_def fun_eq_iff
      intro!: world.equality)

text \<open>Forward links go down in a rank: no cycle of forward sockets.\<close>

definition fwd_ranked :: "(sid \<Rightarrow> nat) \<Rightarrow> world \<Rightarrow> bool" where
  "fwd_ranked rank w \<longleftrightarrow> (\<forall>i. \<forall>b \<in> set (s_bound_sockets (socks w i)).
     s_type (socks w b) = SFWD \<longrightarrow> rank b < rank i)"

definition no_bound_out :: "world \<Rightarrow> bool" where
  "no_bound_out w \<longleftrightarrow> (\<forall>i. \<forall>b \<in> set (s_bound_sockets (socks w i)). s_type (socks w b) \<noteq> SOUT)"

lemma fwd_ranked_set_all [simp]: "fwd_ranked rank (set_all p A w) = fwd_ranked rank w"
  and no_bound_out_set_all [simp]: "no_bound_out (set_all p A w) = no_bound_out w"
  by (simp_all add: fwd_ranked_def no_bound_out_def)

lemma spread_reaches:
  assumes "fwd_ranked rank w" and "no_bound_out w" and "rank i < fuel"
  shows "spread fuel null_ok p i w = (Inr (), set_all p {j. feeds w i j} w)"
  using assms
proof (induction fuel arbitrary: i w)
  case 0
  then show ?case by simp
next
  case (Suc fuel)
  let ?f = "\<lambda>b w1. if s_type (socks w1 b) = SIN then (Inr (), set_dataptr b p w1)
         else if s_type (socks w1 b) = SFWD then spread fuel null_ok p b (set_dataptr b p w1)
         else if null_ok \<and> m_is_set (mods w1 (t_module (tsks w1 (s_task (socks w1 b)))))
         then (Inr (), set_dataptr b p w1) else (Inl Runtime_error, w1)"
  let ?r = "\<lambda>b. insert b (if s_type (socks w b) = SFWD then {j. feeds w b j} else {})"
  have loop: "foreach ?f bs (set_all p A w) = (Inr (), set_all p (A \<union> (\<Union>b \<in> set bs. ?r b)) w)"
    if "set bs \<subseteq> set (s_bound_sockets (socks w i))" for bs A
    using that
  proof (induction bs arbitrary: A)
    case Nil
    then show ?case by simp
  next
    case (Cons b bs)
    then have mem: "b \<in> set (s_bound_sockets (socks w i))" by simp
    then have ty: "s_type (socks w b) \<noteq> SOUT" using Suc.prems(2) by (simp add: no_bound_out_def)
    have rank: "rank b < fuel" if "s_type (socks w b) = SFWD"
      using mem that Suc.prems(1,3) by (fastforce simp: fwd_ranked_def)
    have "?f b (set_all p A w) = (Inr (), set_all p (A \<union> ?r b) w)"
    proof (cases "s_type (socks w b)")
      case SIN
      then show ?thesis by (simp add: set_dataptr_set_all)
    next
      case SFWD
      with rank Suc.prems Suc.IH [of "set_all p ({b} \<union> A) w" b]
      have "spread fuel null_ok p b (set_all p ({b} \<union> A) w) =
          (Inr (), set_all p ({j. feeds w b j} \<union> ({b} \<union> A)) w)" by (simp only: fwd_ranked_set_all
            no_bound_out_set_all feeds_set_all set_all_set_all simp_thms)
      with SFWD show ?thesis by (simp add: set_dataptr_set_all Un_commute)
    next
      case SOUT
      with ty show ?thesis by simp
    qed
    with Cons show ?case by (simp add: Un_assoc)
  qed
  have "(\<Union>b \<in> set (s_bound_sockets (socks w i)). ?r b) = {j. feeds w i j}"
    by (subst feeds_iff) (auto split: if_splits)
  with loop [OF subset_refl, of "{}"] show ?case by simp
qed

text \<open>
  The output buffers of a task: each gets a block, and every socket that reads it gets its address.
\<close>

lemma allocate_one:
  assumes "fwd_ranked rank w" and "no_bound_out w" and "rank i < fuel"
    and "s_type (socks w i) = SOUT" and "s_dataptr (socks w i) = Null"
  shows "bindo (allocate_buffer i w) (\<lambda>_ w2. spread fuel False (s_dataptr (socks w2 i)) i w2) =
    (let w2 = resize_out_buffer i (s_databytes (socks w i)) w in
     (Inr (), set_all (s_dataptr (socks w2 i)) {j. feeds w i j} w2))"
proof -
  let ?w2 = "resize_out_buffer i (s_databytes (socks w i)) w"
  have ty: "s_type (socks ?w2 j) = s_type (socks w j)" for j
    by (simp add: resize_out_buffer_def split_beta)
  have "fwd_ranked rank ?w2" and "no_bound_out ?w2"
    using assms(1,2) by (simp_all add: fwd_ranked_def no_bound_out_def ty)
  moreover have "feeds ?w2 = feeds w"
  proof (intro ext iffI)
    show "feeds ?w2 x y \<Longrightarrow> feeds w x y" for x y
      by (induction rule: feeds.induct) (auto intro: feeds.intros simp: ty)
    show "feeds w x y \<Longrightarrow> feeds ?w2 x y" for x y
      by (induction rule: feeds.induct) (auto intro: feeds.intros simp: ty)
  qed
  ultimately show ?thesis
    using assms(3-5) spread_reaches [of rank ?w2 i fuel False "s_dataptr (socks ?w2 i)"]
    by (simp add: allocate_buffer_def Let_def)
qed

text \<open>The same relation climbed from the reader: it has one source of type \<^verbatim>\<open>SOUT\<close>.\<close>

inductive feeds_up :: "world \<Rightarrow> sid \<Rightarrow> sid \<Rightarrow> bool" for w where
  up_direct: "s_bound_socket (socks w j) = Some i \<Longrightarrow> feeds_up w i j"
| up_via: "s_bound_socket (socks w j) = Some b \<Longrightarrow> s_type (socks w b) = SFWD \<Longrightarrow> feeds_up w i b \<Longrightarrow>
    feeds_up w i j"

lemma feeds_up_snoc:
  "feeds_up w b j \<Longrightarrow> s_bound_socket (socks w b) = Some i \<Longrightarrow> s_type (socks w b) = SFWD \<Longrightarrow>
    feeds_up w i j"
  by (induction rule: feeds_up.induct) (auto intro: feeds_up.intros)

lemma feeds_feeds_up: "feeds w i j \<Longrightarrow> wf_links w \<Longrightarrow> feeds_up w i j"
proof (induction rule: feeds.induct)
  case (direct b i)
  then show ?case by (auto intro: up_direct simp: wf_links_linked)
next
  case (via b i j)
  then show ?case by (auto intro: feeds_up_snoc simp: wf_links_linked)
qed

lemma feeds_up_source:
  "feeds_up w i j \<Longrightarrow> feeds_up w i' j \<Longrightarrow> s_type (socks w i) = SOUT \<Longrightarrow> s_type (socks w i') = SOUT \<Longrightarrow>
    i' = i"
proof (induction rule: feeds_up.induct)
  case (up_direct j i)
  from up_direct.prems(1) show ?case using up_direct by (cases rule: feeds_up.cases) auto
next
  case (up_via j b i)
  from up_via.prems(1) show ?case using up_via by (cases rule: feeds_up.cases) auto
qed

lemma feeds_source:
  assumes "wf_links w" and "feeds w i j" and "feeds w i' j"
    and "s_type (socks w i) = SOUT" and "s_type (socks w i') = SOUT"
  shows "i' = i"
  using assms by (blast intro: feeds_up_source feeds_feeds_up)

lemma feeds_not_out: "feeds w i j \<Longrightarrow> no_bound_out w \<Longrightarrow> s_type (socks w j) \<noteq> SOUT"
  by (induction rule: feeds.induct) (auto simp: no_bound_out_def)

section \<open>Allocation of the output buffers\<close>

definition buffers_ok :: "world \<Rightarrow> bool" where
  "buffers_ok w \<longleftrightarrow> 0 < next_block w \<and>
     (\<forall>i. v_cap (s_out_buffer (socks w i)) = 0 \<or> v_block (s_out_buffer (socks w i)) \<noteq> 0)"

definition to_allocate :: "world \<Rightarrow> sid \<Rightarrow> bool" where
  "to_allocate w i \<longleftrightarrow> s_type (socks w i) = SOUT \<and> s_name (socks w i) \<noteq> status_name \<and>
     s_dataptr (socks w i) = Null"

text \<open>What an allocation leaves as it was: links, names, types, sizes.\<close>

definition strip_data :: "socket \<Rightarrow> socket" where
  "strip_data s = s\<lparr>s_dataptr := Null, s_out_buffer := empty_vec\<rparr>"

definition same_net :: "world \<Rightarrow> world \<Rightarrow> bool" where
  "same_net w w' \<longleftrightarrow> (\<forall>i. strip_data (socks w' i) = strip_data (socks w i)) \<and>
     tsks w' = tsks w \<and> mods w' = mods w \<and> next_sock w' = next_sock w"

lemma strip_data_sel:
  assumes "strip_data s' = strip_data s"
  shows "s_type s' = s_type s" "s_name s' = s_name s" "s_bound_sockets s' = s_bound_sockets s"
    "s_bound_socket s' = s_bound_socket s" "s_databytes s' = s_databytes s"
  using arg_cong [OF assms, of s_type] arg_cong [OF assms, of s_name]
    arg_cong [OF assms, of s_bound_sockets] arg_cong [OF assms, of s_bound_socket]
    arg_cong [OF assms, of s_databytes] by (simp_all add: strip_data_def)

lemma same_net_sel:
  assumes "same_net w w'"
  shows "s_type (socks w' i) = s_type (socks w i)" "s_name (socks w' i) = s_name (socks w i)"
    "s_bound_sockets (socks w' i) = s_bound_sockets (socks w i)"
    "s_bound_socket (socks w' i) = s_bound_socket (socks w i)"
    "s_databytes (socks w' i) = s_databytes (socks w i)"
    "tsks w' = tsks w" "next_sock w' = next_sock w"
  using assms strip_data_sel [of "socks w' i" "socks w i"] by (simp_all add: same_net_def)

lemma same_net_facts:
  assumes "same_net w w'"
  shows "fwd_ranked rank w' = fwd_ranked rank w" and "no_bound_out w' = no_bound_out w"
    and "wf_links w' = wf_links w" and "feeds w' = feeds w"
proof -
  note s = same_net_sel [OF assms]
  show "fwd_ranked rank w' = fwd_ranked rank w" and "no_bound_out w' = no_bound_out w"
    by (simp_all add: fwd_ranked_def no_bound_out_def s)
  show "wf_links w' = wf_links w" using s by (intro wf_links_frame)
  show "feeds w' = feeds w"
  proof (intro ext iffI)
    show "feeds w' x y \<Longrightarrow> feeds w x y" for x y
      by (induction rule: feeds.induct) (auto intro: feeds.intros simp: s)
    show "feeds w x y \<Longrightarrow> feeds w' x y" for x y
      by (induction rule: feeds.induct) (auto intro: feeds.intros simp: s)
  qed
qed

lemma same_net_trans: "same_net u v \<Longrightarrow> same_net v w \<Longrightarrow> same_net u w"
  by (simp add: same_net_def)

lemma allocated_world:
  assumes "buffers_ok w" and "w2 = resize_out_buffer i (s_databytes (socks w i)) w"
  shows "same_net w (set_all p A w2)" and "buffers_ok (set_all p A w2)"
    and "0 < s_databytes (socks w i) \<Longrightarrow> s_dataptr (socks w2 i) \<noteq> Null"
    and "j \<noteq> i \<Longrightarrow> s_dataptr (socks w2 j) = s_dataptr (socks w j)"
proof -
  show "same_net w (set_all p A w2)" and "buffers_ok (set_all p A w2)"
    and "j \<noteq> i \<Longrightarrow> s_dataptr (socks w2 j) = s_dataptr (socks w j)"
    using assms by (auto simp: same_net_def strip_data_def set_all_def resize_out_buffer_def
        vec_resize_def Let_def buffers_ok_def vec_data_def)
  have nb: "0 < next_block w" using assms(1) by (simp add: buffers_ok_def)
  have "v_cap (s_out_buffer (socks w i)) = 0 \<or> v_block (s_out_buffer (socks w i)) \<noteq> 0"
    using assms(1) by (simp add: buffers_ok_def)
  then show "0 < s_databytes (socks w i) \<Longrightarrow> s_dataptr (socks w2 i) \<noteq> Null"
    using assms(2) nb by (auto simp: resize_out_buffer_def vec_resize_def Let_def vec_data_def)
qed

definition net_ok :: "(sid \<Rightarrow> nat) \<Rightarrow> nat \<Rightarrow> world \<Rightarrow> bool" where
  "net_ok rank fuel w \<longleftrightarrow> wf_links w \<and> fwd_ranked rank w \<and> no_bound_out w \<and> buffers_ok w \<and>
     (\<forall>i. rank i < fuel)"

definition alloc_socket :: "nat \<Rightarrow> sid \<Rightarrow> world \<Rightarrow> (world, unit) outcome" where
  "alloc_socket fuel i w =
     (if to_allocate w i then bindo (allocate_buffer i w)
        (\<lambda>_ w2. spread fuel False (s_dataptr (socks w2 i)) i w2)
      else (Inr (), w))"

lemma allocate_outbuffers_alt:
  "allocate_outbuffers fuel t w =
     (if t_outbuffers_allocated (tsks w t) then (Inr (), w)
      else bindo (foreach (alloc_socket fuel) (t_sockets (tsks w t)) w)
        (\<lambda>_ w1. (Inr (), upd_tsk t (\<lambda>x. x\<lparr>t_outbuffers_allocated := True\<rparr>) w1)))"
  unfolding allocate_outbuffers_def alloc_socket_def to_allocate_def ..

lemma allocate_loop:
  assumes "net_ok rank fuel w" and "distinct ss"
  shows "\<exists>w'. foreach (alloc_socket fuel) ss w = (Inr (), w') \<and> net_ok rank fuel w' \<and> same_net w w' \<and>
    (\<forall>i. (i \<notin> set ss \<or> \<not> to_allocate w i) \<and> s_type (socks w i) = SOUT \<longrightarrow>
       s_dataptr (socks w' i) = s_dataptr (socks w i)) \<and>
    (\<forall>j. (\<forall>i \<in> set ss. \<not> (to_allocate w i \<and> feeds w i j)) \<and> s_type (socks w j) \<noteq> SOUT \<longrightarrow>
       s_dataptr (socks w' j) = s_dataptr (socks w j)) \<and>
    (\<forall>i \<in> set ss. to_allocate w i \<and> 0 < s_databytes (socks w i) \<longrightarrow> s_dataptr (socks w' i) \<noteq> Null \<and>
       (\<forall>j. feeds w i j \<longrightarrow> s_dataptr (socks w' j) = s_dataptr (socks w' i)))"
  using assms
proof (induction ss arbitrary: w)
  case Nil
  then show ?case by (auto simp: same_net_def)
next
  case (Cons i ss)
  note net = Cons.prems(1) [unfolded net_ok_def]
  define w2 where "w2 = resize_out_buffer i (s_databytes (socks w i)) w"
  define w1 where "w1 = (if to_allocate w i
    then set_all (s_dataptr (socks w2 i)) {j. feeds w i j} w2 else w)"
  note A = allocated_world [OF _ w2_def]
  have step: "alloc_socket fuel i w = (Inr (), w1)"
    using net allocate_one [of rank w i fuel]
    by (auto simp: alloc_socket_def w1_def w2_def to_allocate_def Let_def)
  have same: "same_net w w1" using A net by (auto simp: w1_def same_net_def [of w w])
  have ok: "net_ok rank fuel w1"
    using net A(2) unfolding net_ok_def same_net_facts [OF same] by (auto simp: w1_def)
  have out: "s_dataptr (socks w1 k) = s_dataptr (socks w k)"
    if "s_type (socks w k) = SOUT" "k \<noteq> i \<or> \<not> to_allocate w k" for k
    using that net A(4) by (auto simp: w1_def dest: feeds_not_out)
  have unfed: "s_dataptr (socks w1 j) = s_dataptr (socks w j)"
    if "s_type (socks w j) \<noteq> SOUT" "\<not> (to_allocate w i \<and> feeds w i j)" for j
  proof (cases "to_allocate w i")
    case True
    with that(1) have "j \<noteq> i" by (auto simp: to_allocate_def)
    with True that A(4) net show ?thesis by (auto simp: w1_def)
  qed (simp add: w1_def)
  have ta: "to_allocate w1 k = to_allocate w k" if "k \<in> set ss" for k
  proof -
    from that Cons.prems(2) have "k \<noteq> i" by auto
    with out [of k] show ?thesis by (auto simp: to_allocate_def same_net_sel [OF same])
  qed
  from Cons.IH [OF ok] Cons.prems(2) obtain w' where w': "foreach (alloc_socket fuel) ss w1 = (Inr (), w')"
    "net_ok rank fuel w'" "same_net w1 w'"
    "\<And>k. k \<notin> set ss \<or> \<not> to_allocate w1 k \<Longrightarrow> s_type (socks w k) = SOUT \<Longrightarrow>
       s_dataptr (socks w' k) = s_dataptr (socks w1 k)"
    "\<And>j. \<forall>k \<in> set ss. \<not> (to_allocate w1 k \<and> feeds w k j) \<Longrightarrow> s_type (socks w j) \<noteq> SOUT \<Longrightarrow>
       s_dataptr (socks w' j) = s_dataptr (socks w1 j)"
    "\<And>k. k \<in> set ss \<Longrightarrow> to_allocate w1 k \<Longrightarrow> 0 < s_databytes (socks w k) \<Longrightarrow>
       s_dataptr (socks w' k) \<noteq> Null \<and> (\<forall>j. feeds w k j \<longrightarrow> s_dataptr (socks w' j) = s_dataptr (socks w' k))"
    unfolding same_net_facts [OF same] same_net_sel [OF same] by auto
  have i: "i \<notin> set ss" using Cons.prems(2) by simp
  have skip: "s_dataptr (socks w1 k) = s_dataptr (socks w k)"
    if "s_type (socks w k) = SOUT" "\<not> to_allocate w k" for k using out that by blast
  have mine: "s_dataptr (socks w' i) \<noteq> Null \<and>
      (\<forall>j. feeds w i j \<longrightarrow> s_dataptr (socks w' j) = s_dataptr (socks w' i))"
    if t: "to_allocate w i" and b: "0 < s_databytes (socks w i)"
  proof -
    have ty: "s_type (socks w i) = SOUT" using t by (simp add: to_allocate_def)
    then have "\<not> feeds w i i" using net by (auto dest: feeds_not_out)
    with t have p: "s_dataptr (socks w1 i) = s_dataptr (socks w2 i)" by (simp add: w1_def)
    have "s_dataptr (socks w' j) = s_dataptr (socks w' i)" if j: "feeds w i j" for j
    proof -
      have "\<forall>k \<in> set ss. \<not> (to_allocate w1 k \<and> feeds w k j)"
        using feeds_source [OF _ j _ ty] net i ta by (auto simp: to_allocate_def)
      moreover have "s_type (socks w j) \<noteq> SOUT" using j net by (auto dest: feeds_not_out)
      moreover have "s_dataptr (socks w1 j) = s_dataptr (socks w2 i)" using t j by (simp add: w1_def)
      ultimately show ?thesis using w'(4,5) i ty p by simp
    qed
    with w'(4) i ty p A(3) net b show ?thesis by auto
  qed
  show ?case
  proof (intro exI [of _ w'] conjI allI impI ballI)
    show "foreach (alloc_socket fuel) (i # ss) w = (Inr (), w')" using step w'(1) by simp
  qed (use w'(2-) mine same same_net_trans [OF same w'(3)] out skip unfed ta i in \<open>auto 4 3\<close>)
qed

end
