(* ===== verification/Task_Contract.thy ===== *)
theory Task_Contract
  imports Tasks
begin

text \<open>
  What a task promises to its clients: the sockets of a task stay well formed under any sequence of
  socket creations, binds, unbinds and setters (an interpretation of the contract of \<open>Prelude\<close>), the
  binding of a task to a socket can be undone, and the allocation of the output buffers reaches every
  reader. The properties of \<^verbatim>\<open>runtime::Task\<close> stand at the end.
\<close>

section \<open>The operations of a task as one interface\<close>

datatype task_op =
    Create_in string nat nat type_index
  | Create_out string nat nat type_index
  | Create_fwd string nat nat type_index
  | Bind_task sid int
  | Unbind_task sid
  | Set_replicability bool
  | Set_fast_task bool
  | Set_stats bool
  | Set_debug bool
  | Set_outbuffers_allocated bool
  | Register_timer string
  | Update_timer nat int
  | Record_duration int
  | Reset_task

definition quiet :: "world \<Rightarrow> (world, nat) outcome" where
  "quiet w = (Inr 0, w)"

fun exec_tsk :: "tid \<Rightarrow> task_op \<Rightarrow> world \<Rightarrow> (world, nat) outcome" where
  "exec_tsk t (Create_in name r c T) w = create_2d_socket_in t name r c T w"
| "exec_tsk t (Create_out name r c T) w = create_2d_socket_out t name r c T False w"
| "exec_tsk t (Create_fwd name r c T) w = create_2d_socket_fwd t name r c T w"
| "exec_tsk t (Bind_task out p) w = bindo (bind_tsk t out p w) (\<lambda>_. quiet)"
| "exec_tsk t (Unbind_task out) w = unbind_tsk t out w"
| "exec_tsk t (Set_replicability b) w = bindo (set_replicability t b w) (\<lambda>_. quiet)"
| "exec_tsk t (Set_fast_task b) w = quiet (set_fast_task b t w)"
| "exec_tsk t (Set_stats b) w = quiet (set_stats t b w)"
| "exec_tsk t (Set_debug b) w = quiet (set_debug t b w)"
| "exec_tsk t (Set_outbuffers_allocated b) w = quiet (set_outbuffers_allocated t b w)"
| "exec_tsk t (Register_timer name) w = quiet (register_timer t name w)"
| "exec_tsk t (Update_timer k d) w = quiet (update_timer t k d w)"
| "exec_tsk t (Record_duration d) w = quiet (record_duration t d w)"
| "exec_tsk t Reset_task w = quiet (reset_task t w)"

text \<open>
  A bind throws half way, with the fake socket left in the task, when the sizes or the buffers do not
  fit: the contract asks the client to bind what can be bound.
\<close>

fun tsk_legal :: "tid \<Rightarrow> task_op \<Rightarrow> world \<Rightarrow> bool" where
  "tsk_legal t (Bind_task out p) w \<longleftrightarrow> out < next_sock w \<and> bindable t out w"
| "tsk_legal t _ w \<longleftrightarrow> True"

text \<open>The part of a task and of its sockets that the invariant reads.\<close>

lemma wf_task_frame:
  assumes "wf_task t w" and "next_sock w \<le> next_sock w'"
    and "\<And>i. i < next_sock w \<Longrightarrow> s_name (socks w' i) = s_name (socks w i) \<and>
      s_type (socks w' i) = s_type (socks w i)"
    and "t_sockets (tsks w' t) = t_sockets (tsks w t)"
    and "length (t_dataptr_init (tsks w' t)) = length (t_dataptr_init (tsks w t))"
    and "t_databytes_per_frame (tsks w' t) = t_databytes_per_frame (tsks w t)"
    and "length (t_data (tsks w' t)) = length (t_data (tsks w t))"
    and "t_n_output_sockets (tsks w' t) = t_n_output_sockets (tsks w t)"
    and "t_n_fwd_sockets (tsks w' t) = t_n_fwd_sockets (tsks w t)"
    and "\<forall>i \<in> set (t_fake_input_sockets (tsks w' t)). i < next_sock w'"
    and "t_n_input_sockets (tsks w' t) + length (t_fake_input_sockets (tsks w t)) =
      t_n_input_sockets (tsks w t) + length (t_fake_input_sockets (tsks w' t))"
  shows "wf_task t w'"
proof -
  note wf = assms(1) [unfolded wf_task_def Let_def]
  have same: "s_name (socks w' i) = s_name (socks w i)" "s_type (socks w' i) = s_type (socks w i)"
    if "i \<in> set (t_sockets (tsks w t))" for i using that wf assms(3) by blast+
  have ot: "of_type ty t w' = of_type ty t w" for ty
    unfolding of_type_def assms(4) using same(2) by (intro filter_cong) auto
  have nm: "map (\<lambda>i. s_name (socks w' i)) (t_sockets (tsks w t)) =
      map (\<lambda>i. s_name (socks w i)) (t_sockets (tsks w t))" using same(1) by simp
  have st: "s_name (socks w' i) \<noteq> status_name" if "i \<in> set (butlast (t_sockets (tsks w t)))" for i
    using that wf same(1) by (simp add: in_set_butlastD)
  have live: "i < next_sock w'" if "i \<in> set (t_sockets (tsks w t))" for i
    using that wf assms(2) by fastforce
  show ?thesis
    unfolding wf_task_def Let_def assms(4) nm ot using wf st live assms(5-11) by simp
qed

definition sockets_of :: "task \<Rightarrow> sid list \<times> nat \<times> nat list \<times> nat \<times> sid list \<times> nat \<times> nat \<times> nat" where
  "sockets_of x = (t_sockets x, length (t_dataptr_init x), t_databytes_per_frame x, length (t_data x),
     t_fake_input_sockets x, t_n_input_sockets x, t_n_output_sockets x, t_n_fwd_sockets x)"

lemma wf_task_upd:
  assumes "wf_task t w" and "sockets_of (f (tsks w t)) = sockets_of (tsks w t)"
  shows "wf_task t (upd_tsk t f w)"
  using assms
  by (intro wf_task_frame [OF assms(1)]) (simp_all add: sockets_of_def wf_task_def Let_def)

text \<open>The links may change as they like.\<close>

lemma wf_task_links:
  assumes "wf_task t w" and "erase_links w' = erase_links w"
  shows "wf_task t w'"
proof -
  from assms(2) have t: "tsks w' = tsks w" by (rule erase_links_tsks)
  have n: "next_sock w' = next_sock w"
    using arg_cong [OF assms(2), of next_sock] by (simp add: erase_links_def)
  have s: "s_name (socks w' i) = s_name (socks w i) \<and> s_type (socks w' i) = s_type (socks w i)" for i
    using arg_cong [OF assms(2), of "\<lambda>v. s_name (socks v i)"]
      arg_cong [OF assms(2), of "\<lambda>v. s_type (socks v i)"] by (simp add: erase_links_def)
  from assms(1) t n s show ?thesis
    by (intro wf_task_frame [OF assms(1)]) (simp_all add: wf_task_def Let_def)
qed

lemma unbind_erase_links: "erase_links (snd (unbind_sck i out w)) = erase_links w"
  by (auto simp: unbind_sck_def Let_def erase_links_def world_upd_defs fun_eq_iff
      split: option.split intro!: world.equality)

lemma fold_set_fast:
  "socks (fold (set_fast_sck b) ss w) j =
     (if j \<in> set ss then (socks w j)\<lparr>s_fast := b\<rparr> else socks w j)"
  "tsks (fold (set_fast_sck b) ss w) = tsks w" "next_sock (fold (set_fast_sck b) ss w) = next_sock w"
  by (induction ss arbitrary: w) (auto simp: set_fast_sck_def)

lemma wf_task_fast: "wf_task t w \<Longrightarrow> wf_task t (set_fast_task b t w)"
  by (rule wf_task_frame) (auto simp: set_fast_task_def fold_set_fast wf_task_def Let_def)

lemma wf_links_fast: "wf_links w \<Longrightarrow> wf_links (set_fast_task b t w)"
  by (subst wf_links_frame) (auto simp: set_fast_task_def fold_set_fast)

lemma wf_task_after_bind:
  assumes "wf_task t w"
  shows "wf_task t (after_bind_tsk t out p w)"
  using assms
  by (intro wf_task_frame [OF assms])
    (auto simp: after_bind_tsk_def link_sel link_def fake_socket_def wf_task_def Let_def less_Suc_eq)

lemma fake_bound_to_False:
  "fake_bound_to out is w = Inr False \<Longrightarrow>
    \<forall>i \<in> set is. s_bound_socket (socks w i) \<noteq> None \<and> s_bound_socket (socks w i) \<noteq> Some out"
  by (induction "is") (auto simp: get_bound_socket_def split: option.splits if_splits)

text \<open>A bind that can be done is done, or changes nothing.\<close>

lemma bind_tsk_cases:
  assumes "wf_links w" and "out < next_sock w" and "bindable t out w"
  shows "(\<exists>r. bind_tsk t out p w = (r, w)) \<or> bind_tsk t out p w = (Inr (), after_bind_tsk t out p w)"
proof (cases "fake_bound_to out (t_fake_input_sockets (tsks w t)) w")
  case (Inl e)
  then show ?thesis by (simp add: bind_tsk_def Let_def)
next
  case (Inr b)
  show ?thesis
  proof (cases "b \<or> real_bound_to out t w")
    case True
    with Inr show ?thesis by (simp add: bind_tsk_def Let_def)
  next
    case False
    from Inr False have "fake_bound_to out (t_fake_input_sockets (tsks w t)) w = Inr False" by simp
    from fake_bound_to_False [OF this] False
      bind_tsk_new [OF assms(1,2) _ _ assms(3), of p] show ?thesis
      by (auto simp: fakes_bound_def depends_on_def)
  qed
qed

lemma set_del_at: "set (del_at k xs) \<subseteq> set xs"
  by (auto simp: del_at_def dest: in_set_takeD in_set_dropD)

lemma unbind_fake_keeps:
  assumes "wf_task t w" and "t_fake_input_sockets (tsks w t) = pre @ is" and "length pre = k"
  shows "wf_task t (snd (unbind_fake t out k is w))"
  using assms(2,3)
proof (induction "is" arbitrary: k pre)
  case Nil
  with assms(1) show ?case by simp
next
  case (Cons i "is")
  let ?u = "unbind_sck i out w"
  have er: "erase_links (snd ?u) = erase_links w" by (rule unbind_erase_links)
  then have ts: "tsks (snd ?u) = tsks w" by (rule erase_links_tsks)
  have wf: "wf_task t (snd ?u)" using assms(1) er by (rule wf_task_links)
  have len: "Suc (length (del_at k (t_fake_input_sockets (tsks w t)))) =
      length (t_fake_input_sockets (tsks w t))"
    using Cons.prems by (simp add: length_del_at)
  have pos: "0 < t_n_input_sockets (tsks w t)"
    using assms(1) Cons.prems by (simp add: wf_task_def Let_def)
  have removed: "wf_task t (upd_tsk t f v)"
    if "snd ?u = v" "\<And>x. t_fake_input_sockets (f x) = del_at k (t_fake_input_sockets x)"
      "\<And>x. t_n_input_sockets (f x) = t_n_input_sockets x - 1" "\<And>x. t_sockets (f x) = t_sockets x"
      "\<And>x. t_dataptr_init (f x) = t_dataptr_init x" "\<And>x. t_data (f x) = t_data x"
      "\<And>x. t_databytes_per_frame (f x) = t_databytes_per_frame x"
      "\<And>x. t_n_output_sockets (f x) = t_n_output_sockets x"
      "\<And>x. t_n_fwd_sockets (f x) = t_n_fwd_sockets x" for f v
    using wf set_del_at [of k "t_fake_input_sockets (tsks w t)"] len pos
    by (intro wf_task_frame [OF wf]) (auto simp: that(2-) that(1) [symmetric] ts wf_task_def Let_def)
  show ?case
  proof (cases "get_bound_socket i w")
    case (Inl e)
    with assms(1) show ?thesis by simp
  next
    case (Inr b)
    show ?thesis
    proof (cases "b = out")
      case True
      with Inr wf show ?thesis
        by (cases ?u rule: is_ok.cases) (auto simp: Let_def intro!: removed)
    next
      case False
      with Inr Cons.prems Cons.IH [of "pre @ [i]" "Suc k"] show ?thesis by simp
    qed
  qed
qed

text \<open>Every legal operation keeps the links of the store and the sockets of the task.\<close>

definition task_inv :: "tid \<Rightarrow> world \<Rightarrow> bool" where
  "task_inv t w \<longleftrightarrow> wf_links w \<and> wf_task t w"

lemma snd_quiet [simp]: "snd (quiet w) = w" "snd (bindo r (\<lambda>_. quiet)) = snd r"
  by (simp add: quiet_def) (cases r rule: is_ok.cases, simp_all add: quiet_def)

lemma wf_links_tsk_upd [simp]: "wf_links (upd_tsk t f w) = wf_links w"
  by (rule wf_links_frame) simp_all

lemma wf_links_vec_resize [simp]: "wf_links (snd (vec_resize n v w)) = wf_links w"
  by (rule wf_links_frame) simp_all

lemma wf_links_create:
  assumes "wf_links w"
  shows "wf_links (snd (create_2d_socket t name r c T type h w))"
proof -
  have "wf_links (snd (new_socket t name T (r, c * type_to_size T) type (t_fast (tsks w t)) Null w))"
    using assms by (rule wf_links_new)
  then show ?thesis using assms
    by (cases "new_socket t name T (r, c * type_to_size T) type (t_fast (tsks w t)) Null w" rule: is_ok.cases)
      (simp_all add: create_2d_socket_def Let_def split_beta)
qed

lemma wf_links_creations:
  assumes "wf_links w"
  shows "wf_links (snd (create_2d_socket_in t name r c T w))"
    and "wf_links (snd (create_2d_socket_out t name r c T h w))"
    and "wf_links (snd (create_2d_socket_fwd t name r c T w))"
proof -
  show "wf_links (snd (create_2d_socket_in t name r c T w))"
    using wf_links_create [OF assms, of t name r c T SIN False] assms
    by (cases "create_2d_socket t name r c T SIN False w" rule: is_ok.cases)
      (auto simp: create_2d_socket_in_def Let_def split: type_index.split)
  show "wf_links (snd (create_2d_socket_out t name r c T h w))"
    using wf_links_create [OF assms, of t name r c T SOUT h] assms
    by (cases "create_2d_socket t name r c T SOUT h w" rule: is_ok.cases)
      (auto simp: create_2d_socket_out_def Let_def split: type_index.split)
  show "wf_links (snd (create_2d_socket_fwd t name r c T w))"
    using wf_links_create [OF assms, of t name r c T SFWD False] assms
    by (cases "create_2d_socket t name r c T SFWD False w" rule: is_ok.cases)
      (auto simp: create_2d_socket_fwd_def Let_def split: type_index.split)
qed

lemma wf_links_unbind_fake: "wf_links w \<Longrightarrow> wf_links (snd (unbind_fake t out k is w))"
proof (induction "is" arbitrary: k)
  case (Cons i "is")
  have "wf_links (snd (unbind_sck i out w))" using Cons.prems by (rule wf_links_unbind)
  with Cons show ?case
    by (cases "unbind_sck i out w" rule: is_ok.cases) (auto split: sum.split)
qed simp

lemma exec_tsk_inv:
  assumes inv: "task_inv t w" and legal: "tsk_legal t x w"
  shows "task_inv t (snd (exec_tsk t x w))"
proof -
  note i = inv [unfolded task_inv_def]
  show ?thesis
  proof (cases x)
    case (Bind_task out p)
    with legal i bind_tsk_cases [of w out t p]
    have "(\<exists>r. bind_tsk t out p w = (r, w)) \<or> bind_tsk t out p w = (Inr (), after_bind_tsk t out p w)"
      by simp
    moreover have "wf_links (after_bind_tsk t out p w)"
    proof -
      have "wf_links (with_fake t out w)" using i by (simp add: wf_links_with_fake)
      with legal Bind_task show ?thesis unfolding after_bind_tsk_def
        by (simp, intro wf_links_link) (auto simp: fake_socket_def)
    qed
    ultimately show ?thesis using Bind_task i wf_task_after_bind by (auto simp: task_inv_def)
  next
    case (Unbind_task out)
    then show ?thesis
      using i unbind_fake_keeps [of t w "[]"] wf_links_unbind_fake
      by (auto simp: unbind_tsk_def task_inv_def)
  next
    case (Set_fast_task b)
    with i show ?thesis by (simp add: quiet_def task_inv_def wf_task_fast wf_links_fast)
  qed (use i in \<open>auto simp: task_inv_def quiet_def wf_links_creations create_in_keeps create_out_keeps
      create_fwd_keeps set_replicability_def register_timer_def update_timer_def record_duration_def
      reset_task_def set_stats_def set_debug_def
      set_outbuffers_allocated_def Let_def sockets_of_def intro!: wf_task_upd\<close>)
qed

interpretation tsk: invariant_ops "exec_tsk t" "tsk_legal t" "task_inv t" for t
  by unfold_locales (rule exec_tsk_inv)

section \<open>Properties of a task\<close>



text \<open>
  \<^verbatim>\<open>Task::_bind\<close> on a socket the task does not read yet creates one fake input socket bound to it,
  and \<^verbatim>\<open>Task::unbind\<close> undoes it: the fake sockets, the counter of inputs, the sockets of the task and
  every socket of the store are as before, and the position the bind used is returned.
\<close>

theorem bind_task_unbind_roundtrip:
  assumes "wf_links w" and "out < next_sock w" and "fakes_bound t w" and "\<not> depends_on t out w"
    and "bindable t out w" and "- (2 ^ 31) \<le> p" and "p < 2 ^ 31"
    and "\<forall>i \<in> set (t_fake_input_sockets (tsks w t)). i < next_sock w"
  shows "\<exists>w1 w2. bind_tsk t out p w = (Inr (), w1) \<and> s_bound_socket (socks w1 (next_sock w)) = Some out \<and>
    t_n_input_sockets (tsks w1 t) = t_n_input_sockets (tsks w t) + 1 \<and>
    unbind_tsk t out w1 = (Inr (bound_pos p (length (s_bound_sockets (socks w out)))), w2) \<and>
    t_fake_input_sockets (tsks w2 t) = t_fake_input_sockets (tsks w t) \<and>
    t_n_input_sockets (tsks w2 t) = t_n_input_sockets (tsks w t) \<and>
    t_sockets (tsks w2 t) = t_sockets (tsks w t) \<and> (\<forall>j < next_sock w. socks w2 j = socks w j)"
proof -
  have "s_bound_socket (socks (after_bind_tsk t out p w) (next_sock w)) = Some out"
    by (simp add: after_bind_tsk_def link_sel)
  moreover have "t_n_input_sockets (tsks (after_bind_tsk t out p w) t) = t_n_input_sockets (tsks w t) + 1"
    by (simp add: after_bind_tsk_def link_def)
  ultimately show ?thesis
    using bind_tsk_new(1) [OF assms(1-5)] unbind_tsk_after_bind [OF assms(1-4,6-8)] by blast
qed

theorem bind_task_unbind_roundtrip_witness:
  "\<exists>w1 w2. bind_tsk 0 0 (-1) (blank_world (\<lambda>_. SOUT) 1) = (Inr (), w1) \<and>
    s_bound_socket (socks w1 (next_sock (blank_world (\<lambda>_. SOUT) 1))) = Some 0 \<and>
    t_n_input_sockets (tsks w1 0) = t_n_input_sockets (tsks (blank_world (\<lambda>_. SOUT) 1) 0) + 1 \<and>
    unbind_tsk 0 0 w1 =
      (Inr (bound_pos (-1) (length (s_bound_sockets (socks (blank_world (\<lambda>_. SOUT) 1) 0)))), w2) \<and>
    t_fake_input_sockets (tsks w2 0) = t_fake_input_sockets (tsks (blank_world (\<lambda>_. SOUT) 1) 0) \<and>
    t_n_input_sockets (tsks w2 0) = t_n_input_sockets (tsks (blank_world (\<lambda>_. SOUT) 1) 0) \<and>
    t_sockets (tsks w2 0) = t_sockets (tsks (blank_world (\<lambda>_. SOUT) 1) 0) \<and>
    (\<forall>j < next_sock (blank_world (\<lambda>_. SOUT) 1). socks w2 j = socks (blank_world (\<lambda>_. SOUT) 1) j)"
  by (rule bind_task_unbind_roundtrip)
    (simp_all add: wf_links_def fakes_bound_def depends_on_def real_bound_to_def bindable_def blank_defs
      Let_def)

text \<open>
  Resetting an output unbinds the fake input sockets bound to it but leaves them in their task:
  every later bind of that task to an other socket throws, and so does the unbind.
\<close>

theorem reset_of_output_blocks_task:
  assumes "wf_links w" and "i \<in> set (t_fake_input_sockets (tsks w t))"
    and "s_bound_socket (socks w i) = Some out"
    and "\<forall>j \<in> set (t_fake_input_sockets (tsks w t)). s_bound_socket (socks w j) \<noteq> Some out2"
  shows "\<exists>w'. reset_sck out w = (Inr (), w') \<and> bind_tsk t out2 p w' = (Inl Runtime_error, w') \<and>
    i \<in> set (t_fake_input_sockets (tsks w' t)) \<and> s_bound_socket (socks w' i) = None"
proof -
  from reset_correct [OF assms(1), of out] obtain w' where r: "reset_sck out w = (Inr (), w')"
      "erase_links w' = erase_links w"
      "\<forall>j. s_bound_socket (socks w' j) = (if j = out \<or> s_bound_socket (socks w j) = Some out
         then None else s_bound_socket (socks w j))" by blast
  then have "tsks w' = tsks w" by (intro erase_links_tsks)
  with r assms(2,3) reset_makes_fake_stale [OF assms(1-4), of p] show ?thesis by auto
qed

definition fake_example :: world where
  "fake_example = after_bind_tsk 0 0 (-1) (blank_world (\<lambda>_. SOUT) 2)"

theorem reset_of_output_blocks_task_witness:
  "\<exists>w'. reset_sck 0 fake_example = (Inr (), w') \<and> bind_tsk 0 1 (-1) w' = (Inl Runtime_error, w') \<and>
    2 \<in> set (t_fake_input_sockets (tsks w' 0)) \<and> s_bound_socket (socks w' 2) = None"
proof (rule reset_of_output_blocks_task)
  show "wf_links fake_example" unfolding fake_example_def
    by (rule bind_tsk_new(2)) (simp_all add: wf_links_def fakes_bound_def depends_on_def
        real_bound_to_def bindable_def blank_defs Let_def)
qed (simp_all add: fake_example_def after_bind_tsk_def link_def link_sel blank_defs)

text \<open>
  C5: Allocating the output buffers of a task returns when the forward sockets form no cycle (their
  \<open>rank\<close> goes down along the links, and stays below the fuel). Afterwards every output socket that had no data has its
  buffer, every socket that reads it, through forward sockets too, points at this buffer, and no other
  reader changed.
\<close>

theorem output_buffers_reach_every_reader:
  assumes "net_ok rank fuel w" and "distinct (t_sockets (tsks w t))"
    and "\<not> t_outbuffers_allocated (tsks w t)"
  shows "\<exists>w'. allocate_outbuffers fuel t w = (Inr (), w') \<and> t_outbuffers_allocated (tsks w' t) \<and>
    (\<forall>i \<in> set (t_sockets (tsks w t)). to_allocate w i \<and> 0 < s_databytes (socks w i) \<longrightarrow>
       s_dataptr (socks w' i) \<noteq> Null \<and>
       (\<forall>j. feeds w i j \<longrightarrow> s_dataptr (socks w' j) = s_dataptr (socks w' i))) \<and>
    (\<forall>j. s_type (socks w j) \<noteq> SOUT \<and>
       (\<forall>i \<in> set (t_sockets (tsks w t)). \<not> (to_allocate w i \<and> feeds w i j)) \<longrightarrow>
       s_dataptr (socks w' j) = s_dataptr (socks w j))"
proof -
  from allocate_loop [OF assms(1,2)] obtain w1 where
    "foreach (alloc_socket fuel) (t_sockets (tsks w t)) w = (Inr (), w1)"
    "\<forall>j. (\<forall>i \<in> set (t_sockets (tsks w t)). \<not> (to_allocate w i \<and> feeds w i j)) \<and>
       s_type (socks w j) \<noteq> SOUT \<longrightarrow> s_dataptr (socks w1 j) = s_dataptr (socks w j)"
    "\<forall>i \<in> set (t_sockets (tsks w t)). to_allocate w i \<and> 0 < s_databytes (socks w i) \<longrightarrow>
       s_dataptr (socks w1 i) \<noteq> Null \<and>
       (\<forall>j. feeds w i j \<longrightarrow> s_dataptr (socks w1 j) = s_dataptr (socks w1 i))" by blast
  with assms(3) show ?thesis unfolding allocate_outbuffers_alt by auto
qed

text \<open>An output read by an input and, through a forward socket, by an other one.\<close>

definition fan_example :: world where
  "fan_example = link 3 2 (-1) (link 2 0 (-1) (link 1 0 (-1)
     (upd_tsk 0 (\<lambda>x. x\<lparr>t_sockets := [0]\<rparr>)
       (blank_world (\<lambda>i. if i = 0 then SOUT else if i = 2 then SFWD else SIN) 4))))"

lemma fan_example_bound:
  "s_bound_sockets (socks fan_example i) = (if i = 0 then [1, 2] else if i = 2 then [3] else [])"
  "s_bound_socket (socks fan_example i) =
     (if i = 1 \<or> i = 2 then Some 0 else if i = 3 then Some 2 else None)"
  by (auto simp: fan_example_def link_sel blank_defs insert_bound_def size_cast_minus1)

lemma fan_example_sel:
  "s_type (socks fan_example i) = (if i = 0 then SOUT else if i = 2 then SFWD else SIN)"
  "s_out_buffer (socks fan_example i) = empty_vec" "next_sock fan_example = 4"
  "next_block fan_example = 1"
  "tsks fan_example 0 = blank_task\<lparr>t_sockets := [0]\<rparr>"
  by (simp_all add: fan_example_def link_def blank_defs)

lemma fan_example_net: "net_ok (\<lambda>i. if i = 0 then 1 else 0) 2 fan_example"
  by (auto simp: net_ok_def wf_links_def fwd_ranked_def no_bound_out_def buffers_ok_def
      fan_example_bound fan_example_sel empty_vec_def)

theorem output_buffers_reach_every_reader_witness:
  "\<exists>w'. allocate_outbuffers 2 0 fan_example = (Inr (), w') \<and> t_outbuffers_allocated (tsks w' 0) \<and>
    (\<forall>i \<in> set (t_sockets (tsks fan_example 0)).
       to_allocate fan_example i \<and> 0 < s_databytes (socks fan_example i) \<longrightarrow>
       s_dataptr (socks w' i) \<noteq> Null \<and>
       (\<forall>j. feeds fan_example i j \<longrightarrow> s_dataptr (socks w' j) = s_dataptr (socks w' i))) \<and>
    (\<forall>j. s_type (socks fan_example j) \<noteq> SOUT \<and>
       (\<forall>i \<in> set (t_sockets (tsks fan_example 0)).
          \<not> (to_allocate fan_example i \<and> feeds fan_example i j)) \<longrightarrow>
       s_dataptr (socks w' j) = s_dataptr (socks fan_example j))"
  by (rule output_buffers_reach_every_reader [OF fan_example_net])
    (simp_all add: fan_example_sel blank_task_def)

end
