(* ===== verification/Task_Exec.thy ===== *)
theory Task_Exec
  imports Task_Contract
begin

text \<open>
  The execution of a task (\<^verbatim>\<open>Task::_exec\<close> and \<^verbatim>\<open>Task::exec\<close>). The codelet, a \<^verbatim>\<open>std::function\<close> given by
  the user, is a parameter: it takes the frame it is called for and the store, and returns its status or
  throws. Memory is accessed by bytes; an access out of its block is \<open>UB\<close>.
\<close>

section \<open>Memory\<close>

definition status_SUCCESS :: int where "status_SUCCESS = 0"
definition status_FAILURE :: int where "status_FAILURE = 1"
definition status_FAILURE_STOP :: int where "status_FAILURE_STOP = -1"
definition status_UNKNOWN :: int where "status_UNKNOWN = -2"
definition status_SKIPPED :: int where "status_SKIPPED = - (2 ^ 31)"

lemmas status_defs = status_SUCCESS_def status_FAILURE_def status_FAILURE_STOP_def status_UNKNOWN_def
  status_SKIPPED_def

definition read_bytes :: "ptr \<Rightarrow> nat \<Rightarrow> nat \<Rightarrow> world \<Rightarrow> byte list option" where
  "read_bytes p pos n w =
     (if n = 0 then Some []
      else case p of Null \<Rightarrow> None
      | Ptr b off \<Rightarrow> if 0 \<le> off \<and> nat off + pos + n \<le> length (mem w b)
          then Some (take n (drop (nat off + pos) (mem w b))) else None)"

definition write_bytes :: "ptr \<Rightarrow> nat \<Rightarrow> byte list \<Rightarrow> world \<Rightarrow> (world, unit) outcome" where
  "write_bytes p pos bs w =
     (if bs = [] then (Inr (), w)
      else case p of Null \<Rightarrow> (Inl UB, w)
      | Ptr b off \<Rightarrow> if 0 \<le> off \<and> nat off + pos + length bs \<le> length (mem w b)
          then (Inr (), w\<lparr>mem := (mem w)(b := take (nat off + pos) (mem w b) @ bs @
                 drop (nat off + pos + length bs) (mem w b))\<rparr>)
          else (Inl UB, w))"

text \<open>\<^verbatim>\<open>std::copy\<close> of bytes.\<close>

definition copy_bytes :: "ptr \<Rightarrow> nat \<Rightarrow> ptr \<Rightarrow> nat \<Rightarrow> nat \<Rightarrow> world \<Rightarrow> (world, unit) outcome" where
  "copy_bytes src from dst to n w =
     (case read_bytes src from n w of None \<Rightarrow> (Inl UB, w) | Some bs \<Rightarrow> write_bytes dst to bs w)"

text \<open>An \<^verbatim>\<open>int\<close> is four bytes, the low one first.\<close>

definition int_bytes :: "int \<Rightarrow> byte list" where
  "int_bytes i = map (\<lambda>k. word_of_int (i div 2 ^ (8 * k))) [0..<4]"

definition set_status :: "ptr \<Rightarrow> nat \<Rightarrow> int \<Rightarrow> world \<Rightarrow> (world, unit) outcome" where
  "set_status p k v w = write_bytes p (4 * k) (int_bytes v) w"

section \<open>The call of the codelet\<close>

type_synonym codelet = "nat \<Rightarrow> world \<Rightarrow> (world, int) outcome"

text \<open>The sockets of a task without the last one, which is the status, numbered.\<close>

definition data_sockets :: "tid \<Rightarrow> world \<Rightarrow> (nat \<times> sid) list" where
  "data_sockets t w = enumerate 0 (butlast (t_sockets (tsks w t)))"

definition status_ptr :: "tid \<Rightarrow> world \<Rightarrow> ptr" where
  "status_ptr t w = get_dataptr (socks w (last (t_sockets (tsks w t)))) 0"

definition save_ptr :: "tid \<Rightarrow> nat \<times> sid \<Rightarrow> world \<Rightarrow> world" where
  "save_ptr t = (\<lambda>(k, i) w. upd_tsk t
     (\<lambda>x. x\<lparr>t_dataptr_init := (t_dataptr_init x)[k := get_dataptr (socks w i) 0]\<rparr>) w)"

definition save_ptrs :: "tid \<Rightarrow> world \<Rightarrow> world" where
  "save_ptrs t w = fold (save_ptr t) (data_sockets t w) w"

definition restore_ptr :: "tid \<Rightarrow> nat \<times> sid \<Rightarrow> world \<Rightarrow> world" where
  "restore_ptr t = (\<lambda>(k, i) w. upd_sck i (\<lambda>s. s\<lparr>s_dataptr := t_dataptr_init (tsks w t) ! k\<rparr>) w)"

definition restore_ptrs :: "tid \<Rightarrow> world \<Rightarrow> world" where
  "restore_ptrs t w = fold (restore_ptr t) (data_sockets t w) w"

text \<open>The pointers of the wave \<open>k\<close>, \<open>k * n_frames_per_wave\<close> frames after the first one.\<close>

definition shift_ptr :: "tid \<Rightarrow> nat \<Rightarrow> nat \<times> sid \<Rightarrow> world \<Rightarrow> world" where
  "shift_ptr t first = (\<lambda>(k, i) w. upd_sck i (\<lambda>s. s\<lparr>s_dataptr :=
     ptr_add (t_dataptr_init (tsks w t) ! k) (int (first * t_databytes_per_frame (tsks w t) ! k))\<rparr>) w)"

definition shift_ptrs :: "tid \<Rightarrow> nat \<Rightarrow> world \<Rightarrow> world" where
  "shift_ptrs t first w = fold (shift_ptr t first) (data_sockets t w) w"

text \<open>Frames \<open>from .. from + n - 1\<close> of every input go to the frame \<open>to\<close> of its buffer, and the sockets
  point at the buffers; \<open>copy_out\<close> is the way back for the outputs.\<close>

definition copy_in_one :: "tid \<Rightarrow> nat \<Rightarrow> nat \<Rightarrow> nat \<Rightarrow> nat \<times> sid \<Rightarrow> world \<Rightarrow> (world, unit) outcome" where
  "copy_in_one t from to n = (\<lambda>(k, i) w.
     let tk = tsks w t; bpf = t_databytes_per_frame tk ! k; buf = vec_data (t_data tk ! k) in
     bindo (if s_type (socks w i) = SIN \<or> s_type (socks w i) = SFWD
            then copy_bytes (t_dataptr_init tk ! k) (from * bpf) buf (to * bpf) (n * bpf) w
            else (Inr (), w))
       (\<lambda>_ w1. (Inr (), upd_sck i (\<lambda>s. s\<lparr>s_dataptr := buf\<rparr>) w1)))"

definition copy_out_one :: "tid \<Rightarrow> nat \<Rightarrow> nat \<Rightarrow> nat \<Rightarrow> nat \<times> sid \<Rightarrow> world \<Rightarrow> (world, unit) outcome" where
  "copy_out_one t from to n = (\<lambda>(k, i) w.
     let tk = tsks w t; bpf = t_databytes_per_frame tk ! k; buf = vec_data (t_data tk ! k) in
     if s_type (socks w i) = SOUT \<or> s_type (socks w i) = SFWD
     then copy_bytes buf (from * bpf) (t_dataptr_init tk ! k) (to * bpf) (n * bpf) w
     else (Inr (), w))"

definition call_codelet :: "codelet \<Rightarrow> ptr \<Rightarrow> nat \<Rightarrow> nat \<Rightarrow> world \<Rightarrow> (world, int) outcome" where
  "call_codelet cod status wave frame w =
     bindo (cod frame w) (\<lambda>r w1. bindo (set_status status wave r w1) (\<lambda>_ w2. (Inr r, w2)))"

text \<open>The full waves \<open>wave, wave + 1, ...\<close>: the value is the wave after the last one and its status.\<close>

fun wave_loop ::
  "tid \<Rightarrow> codelet \<Rightarrow> ptr \<Rightarrow> nat \<Rightarrow> nat \<Rightarrow> nat \<Rightarrow> int \<Rightarrow> world \<Rightarrow> (world, nat \<times> int) outcome" where
  "wave_loop t cod status fpw wave 0 st w = (Inr (wave, st), w)"
| "wave_loop t cod status fpw wave (Suc n) st w =
     (if st = status_FAILURE_STOP then (Inr (wave, st), w)
      else bindo (call_codelet cod status wave (wave * fpw) (shift_ptrs t (wave * fpw) w))
        (\<lambda>r w1. wave_loop t cod status fpw (Suc wave) n r w1))"

definition last_wave ::
  "tid \<Rightarrow> codelet \<Rightarrow> ptr \<Rightarrow> nat \<Rightarrow> nat \<Rightarrow> nat \<Rightarrow> nat \<Rightarrow> world \<Rightarrow> (world, unit) outcome" where
  "last_wave t cod status n_frames fpw rest wave w =
     (if rest = 0
      then bindo (call_codelet cod status wave (wave * fpw) (shift_ptrs t (wave * fpw) w))
        (\<lambda>_ w1. (Inr (), w1))
      else bindo (foreach (copy_in_one t (wave * fpw) 0 (n_frames - wave * fpw)) (data_sockets t w) w)
        (\<lambda>_ w1. bindo (call_codelet cod status wave (wave * fpw) w1)
          (\<lambda>_ w2. foreach (copy_out_one t 0 (wave * fpw) rest) (data_sockets t w2) w2)))"

definition one_frame ::
  "tid \<Rightarrow> codelet \<Rightarrow> ptr \<Rightarrow> nat \<Rightarrow> nat \<Rightarrow> nat \<Rightarrow> world \<Rightarrow> (world, unit) outcome" where
  "one_frame t cod status n_frames fpw frame w =
     (let wave = (frame mod n_frames) div fpw; w_pos = frame mod fpw in
      bindo (foreach (copy_in_one t (frame mod n_frames) w_pos 1) (data_sockets t w) w)
        (\<lambda>_ w1. bindo (call_codelet cod status wave (wave * fpw) w1)
          (\<lambda>_ w2. foreach (copy_out_one t w_pos (frame mod n_frames) 1) (data_sockets t w2) w2)))"

definition all_waves ::
  "tid \<Rightarrow> codelet \<Rightarrow> ptr \<Rightarrow> module \<Rightarrow> int \<Rightarrow> world \<Rightarrow> (world, unit) outcome" where
  "all_waves t cod status md frame_id w =
     (let nw = m_n_waves md; fpw = m_n_frames_per_wave md;
          w_start = (if frame_id < 0 then 0 else nat frame_id mod nw);
          w_stop = (if frame_id < 0 then nw else w_start + 1)
      in bindo (wave_loop t cod status fpw w_start (w_stop - 1 - w_start) status_SUCCESS w)
        (\<lambda>(wave, st) w1. if st \<noteq> status_FAILURE_STOP
           then last_wave t cod status (m_n_frames md) fpw (m_n_frames_per_wave_rest md) wave w1
           else (Inr (), w1)))"

definition in_place :: "module \<Rightarrow> int \<Rightarrow> bool \<Rightarrow> bool" where
  "in_place md frame_id managed \<longleftrightarrow>
     (\<not> managed \<and> 0 \<le> frame_id) \<or> (frame_id = -1 \<and> m_n_frames_per_wave md = m_n_frames md) \<or>
     (frame_id = 0 \<and> m_n_frames_per_wave md = 1) \<or> (frame_id = 0 \<and> 1 < m_n_waves md) \<or>
     (frame_id = 0 \<and> m_n_frames_per_wave_rest md = 0)"

definition exec_codelet :: "tid \<Rightarrow> codelet \<Rightarrow> int \<Rightarrow> bool \<Rightarrow> world \<Rightarrow> (world, unit) outcome" where
  "exec_codelet t cod frame_id managed w =
     (let md = mods w (t_module (tsks w t)); status = status_ptr t w in
      if t_sockets (tsks w t) = [] \<or> m_n_waves md = 0 then (Inl UB, w)
      else bindo (foreach (\<lambda>k. set_status status k status_UNKNOWN) [0..<m_n_waves md] w)
        (\<lambda>_ w1.
          if in_place md frame_id managed
          then (let frame = (if frame_id = -1 then 0 else nat frame_id) in
            bindo (call_codelet cod status ((frame mod m_n_frames md) div m_n_frames_per_wave md) frame w1)
              (\<lambda>_ w2. (Inr (), w2)))
          else bindo
            (if 0 < frame_id \<and> managed \<and> 1 < m_n_frames_per_wave md
             then one_frame t cod status (m_n_frames md) (m_n_frames_per_wave md) (nat frame_id) (save_ptrs t w1)
             else all_waves t cod status md frame_id (save_ptrs t w1))
            (\<lambda>_ w2. (Inr (), restore_ptrs t w2))))"

text \<open>
  \<^verbatim>\<open>exec\<close>: the checks, the statistics (\<open>d\<close> is the duration measured by the clock) and the number of
  calls, which wraps at 32 bits. The display of the debug mode is not modelled. The value is the status
  vector of the task.
\<close>

definition exec_task :: "tid \<Rightarrow> codelet \<Rightarrow> int \<Rightarrow> int \<Rightarrow> bool \<Rightarrow> world \<Rightarrow> (world, vec) outcome" where
  "exec_task t cod d frame_id managed w =
     (let tk = tsks w t; count = upd_tsk t (\<lambda>x. x\<lparr>t_n_calls := t_n_calls x + 1\<rparr>) in
      if t_fast tk \<and> \<not> t_debug tk \<and> \<not> t_stats tk
      then bindo (exec_codelet t cod frame_id managed w)
        (\<lambda>_ w1. (Inr (t_status (tsks w1 t)), count w1))
      else if frame_id \<noteq> -1 \<and> size_cast frame_id \<ge> m_n_frames (mods w (t_module tk))
      then (Inl Length_error, w)
      else if t_fast tk \<or> can_exec t w
      then bindo (exec_codelet t cod frame_id managed w)
        (\<lambda>_ w1. (Inr (t_status (tsks w1 t)), count (if t_stats tk then record_duration t d w1 else w1)))
      else (Inl Runtime_error, w))"

section \<open>Pointers of the sockets\<close>

definition point_all :: "((tid \<Rightarrow> task) \<Rightarrow> nat \<Rightarrow> ptr) \<Rightarrow> (nat \<times> sid) list \<Rightarrow> world \<Rightarrow> world" where
  "point_all h = fold (\<lambda>(k, i) w. upd_sck i (\<lambda>s. s\<lparr>s_dataptr := h (tsks w) k\<rparr>) w)"

lemma point_all_keeps [simp]:
  "tsks (point_all h xs w) = tsks w" "mods (point_all h xs w) = mods w" "mem (point_all h xs w) = mem w"
  "next_sock (point_all h xs w) = next_sock w" "next_block (point_all h xs w) = next_block w"
  by (induction xs arbitrary: w) (auto simp: point_all_def)

lemma point_all_other: "i \<notin> snd ` set xs \<Longrightarrow> socks (point_all h xs w) i = socks w i"
  by (induction xs arbitrary: w) (auto simp: point_all_def)

lemma point_all_sel:
  "distinct (map snd xs) \<Longrightarrow> (k, i) \<in> set xs \<Longrightarrow>
    socks (point_all h xs w) i = (socks w i)\<lparr>s_dataptr := h (tsks w) k\<rparr>"
proof (induction xs arbitrary: w)
  case Nil
  then show ?case by simp
next
  case (Cons x xs)
  obtain l j where x: "x = (l, j)" by (cases x)
  let ?w = "upd_sck j (\<lambda>s. s\<lparr>s_dataptr := h (tsks w) l\<rparr>) w"
  have u: "point_all h (x # xs) w = point_all h xs ?w" by (simp add: point_all_def x)
  show ?case
  proof (cases "(k, i) = x")
    case True
    with Cons.prems(1) x have "i \<notin> snd ` set xs" by auto
    with u True x show ?thesis by (simp add: point_all_other)
  next
    case False
    with Cons.prems x have "(k, i) \<in> set xs" "i \<noteq> j" by force+
    with Cons u show ?thesis by simp
  qed
qed

lemma restore_ptrs_alt: "restore_ptrs t w = point_all (\<lambda>ts k. t_dataptr_init (ts t) ! k) (data_sockets t w) w"
  by (simp add: restore_ptrs_def point_all_def restore_ptr_def)

lemma shift_ptrs_alt: "shift_ptrs t first w = point_all (\<lambda>ts k. ptr_add (t_dataptr_init (ts t) ! k)
    (int (first * t_databytes_per_frame (ts t) ! k))) (data_sockets t w) w"
  by (simp add: shift_ptrs_def point_all_def shift_ptr_def)

lemma distinct_data_sockets: "distinct (t_sockets (tsks w t)) \<Longrightarrow> distinct (map snd (data_sockets t w))"
  by (simp add: data_sockets_def distinct_butlast)

lemma in_data_sockets:
  "(k, i) \<in> set (data_sockets t w) \<longleftrightarrow>
    k < length (t_sockets (tsks w t)) - 1 \<and> i = t_sockets (tsks w t) ! k"
  by (auto simp: data_sockets_def in_set_enumerate_eq nth_butlast)

lemma save_ptrs_fold:
  "distinct (map fst xs) \<Longrightarrow> \<forall>(k, i) \<in> set xs. k < length (t_dataptr_init (tsks w t)) \<Longrightarrow>
    fold (save_ptr t) xs w = upd_tsk t (\<lambda>x. x\<lparr>t_dataptr_init :=
      fold (\<lambda>(k, i) ps. ps[k := s_dataptr (socks w i)]) xs (t_dataptr_init x)\<rparr>) w"
proof (induction xs arbitrary: w)
  case Nil
  have "upd_tsk t (\<lambda>x. x) w = w" by (simp add: upd_tsk_def)
  then show ?case by simp
next
  case (Cons x xs)
  obtain k i where x: "x = (k, i)" by (cases x)
  let ?w = "save_ptr t x w"
  have w: "?w = upd_tsk t (\<lambda>y. y\<lparr>t_dataptr_init := (t_dataptr_init y)[k := s_dataptr (socks w i)]\<rparr>) w"
    by (simp add: save_ptr_def x get_dataptr_def)
  have "fold (save_ptr t) xs ?w = upd_tsk t (\<lambda>x. x\<lparr>t_dataptr_init :=
      fold (\<lambda>(k, i) ps. ps[k := s_dataptr (socks ?w i)]) xs (t_dataptr_init x)\<rparr>) ?w"
    using Cons.prems by (intro Cons.IH) (auto simp: w)
  then show ?case by (simp add: w [unfolded x] x upd_tsk_def)
qed

lemma fold_list_update_nth:
  "distinct (map fst xs) \<Longrightarrow> \<forall>(k, i) \<in> set xs. k < length ps \<Longrightarrow> (k, i) \<in> set xs \<Longrightarrow>
    fold (\<lambda>(k, i) ps. ps[k := f i]) xs ps ! k = f i"
proof (induction xs arbitrary: ps)
  case Nil
  then show ?case by simp
next
  case (Cons x xs)
  have skip: "k \<notin> fst ` set xs \<Longrightarrow> fold (\<lambda>(k, i) ps. ps[k := f i]) xs qs ! k = qs ! k" for qs
    by (induction xs arbitrary: qs) auto
  show ?case
  proof (cases "x = (k, i)")
    case True
    with Cons.prems skip show ?thesis by auto
  next
    case False
    with Cons show ?thesis by (cases x) auto
  qed
qed

lemma save_ptrs_sel:
  assumes "length (t_dataptr_init (tsks w t)) = length (t_sockets (tsks w t))"
  shows "socks (save_ptrs t w) = socks w" and "mem (save_ptrs t w) = mem w"
    and "t_sockets (tsks (save_ptrs t w) t) = t_sockets (tsks w t)"
    and "(k, i) \<in> set (data_sockets t w) \<Longrightarrow> t_dataptr_init (tsks (save_ptrs t w) t) ! k = s_dataptr (socks w i)"
proof -
  have d: "distinct (map fst (data_sockets t w))" by (simp add: data_sockets_def)
  have b: "\<forall>(k, i) \<in> set (data_sockets t w). k < length (t_dataptr_init (tsks w t))"
    using assms by (auto simp: in_data_sockets)
  note s = save_ptrs_fold [OF d b, folded save_ptrs_def]
  show "socks (save_ptrs t w) = socks w" "mem (save_ptrs t w) = mem w"
    "t_sockets (tsks (save_ptrs t w) t) = t_sockets (tsks w t)" by (simp_all add: s)
  show "(k, i) \<in> set (data_sockets t w) \<Longrightarrow> t_dataptr_init (tsks (save_ptrs t w) t) ! k = s_dataptr (socks w i)"
    using fold_list_update_nth [OF d b, of k i] by (simp add: s)
qed

section \<open>What an execution keeps\<close>

text \<open>
  The codelet may do anything to the memory and to the data pointers; it must leave alone the list of
  the sockets of its task and the vector where the execution saved their pointers.
\<close>

definition saved :: "tid \<Rightarrow> world \<Rightarrow> sid list \<times> ptr list" where
  "saved t w = (t_sockets (tsks w t), t_dataptr_init (tsks w t))"

definition keeps_saved :: "tid \<Rightarrow> codelet \<Rightarrow> bool" where
  "keeps_saved t cod \<longleftrightarrow> (\<forall>f v. saved t (snd (cod f v)) = saved t v)"

lemma saved_write [simp]: "saved t (snd (write_bytes p k bs w)) = saved t w"
  by (simp add: saved_def write_bytes_def split: ptr.split)

lemma saved_copy [simp]: "saved t (snd (copy_bytes p k q l n w)) = saved t w"
  by (simp add: copy_bytes_def split: option.split)

lemma saved_bindo:
  assumes "saved t (snd m) = c" and "\<And>a s. m = (Inr a, s) \<Longrightarrow> saved t s = c \<Longrightarrow> saved t (snd (f a s)) = c"
  shows "saved t (snd (bindo m f)) = c"
  using assms by (cases m rule: is_ok.cases) auto

lemma saved_upd_sck [simp]: "saved t (upd_sck i f w) = saved t w"
  by (simp add: saved_def)

lemma saved_point_all [simp]: "saved t (point_all h xs w) = saved t w"
  by (simp add: saved_def)

lemma saved_call: "keeps_saved t cod \<Longrightarrow> saved t (snd (call_codelet cod st k f w)) = saved t w"
  unfolding call_codelet_def set_status_def
  by (intro saved_bindo) (auto simp: keeps_saved_def dest: arg_cong [where f = snd])

lemma saved_foreach:
  assumes "\<And>x v. saved t (snd (f x v)) = saved t v"
  shows "saved t (snd (foreach f xs w)) = saved t w"
  by (rule foreach_invariant [where P = "\<lambda>v. saved t v = saved t w"]) (simp_all add: assms)

lemma saved_copy_in: "saved t (snd (copy_in_one t a b n x w)) = saved t w"
  by (cases x) (auto simp: copy_in_one_def Let_def intro!: saved_bindo)

lemma saved_copy_out: "saved t (snd (copy_out_one t a b n x w)) = saved t w"
  by (cases x) (simp add: copy_out_one_def Let_def)

lemma saved_wave_loop:
  "keeps_saved t cod \<Longrightarrow> saved t (snd (wave_loop t cod st fpw wave n r w)) = saved t w"
proof (induction n arbitrary: wave r w)
  case (Suc n)
  then show ?case
    by (auto simp: shift_ptrs_alt saved_call intro!: saved_bindo)
qed simp

lemma saved_last_wave: "keeps_saved t cod \<Longrightarrow> saved t (snd (last_wave t cod st nf fpw rest wave w)) = saved t w"
  unfolding last_wave_def shift_ptrs_alt
  by (auto simp: saved_call saved_foreach saved_copy_in saved_copy_out intro!: saved_bindo)

lemma saved_one_frame: "keeps_saved t cod \<Longrightarrow> saved t (snd (one_frame t cod st nf fpw f w)) = saved t w"
  unfolding one_frame_def Let_def
  by (auto simp: saved_call saved_foreach saved_copy_in saved_copy_out intro!: saved_bindo)

lemma saved_all_waves: "keeps_saved t cod \<Longrightarrow> saved t (snd (all_waves t cod st md f w)) = saved t w"
  unfolding all_waves_def Let_def
  by (auto simp: saved_wave_loop saved_last_wave intro!: saved_bindo)

text \<open>Writing statuses changes the memory only.\<close>

lemma write_bytes_frame:
  "socks (snd (write_bytes p k bs w)) = socks w" "tsks (snd (write_bytes p k bs w)) = tsks w"
  "mods (snd (write_bytes p k bs w)) = mods w"
  by (simp_all add: write_bytes_def split: ptr.split)

lemma statuses_frame:
  "socks (snd (foreach (\<lambda>k. set_status p k v) ks w)) = socks w"
  "tsks (snd (foreach (\<lambda>k. set_status p k v) ks w)) = tsks w"
  "mods (snd (foreach (\<lambda>k. set_status p k v) ks w)) = mods w"
proof -
  have "socks (snd (foreach (\<lambda>k. set_status p k v) ks w)) = socks w \<and>
      tsks (snd (foreach (\<lambda>k. set_status p k v) ks w)) = tsks w \<and>
      mods (snd (foreach (\<lambda>k. set_status p k v) ks w)) = mods w"
    by (rule foreach_invariant [where P = "\<lambda>u. socks u = socks w \<and> tsks u = tsks w \<and> mods u = mods w"])
      (simp_all add: set_status_def write_bytes_frame)
  then show "socks (snd (foreach (\<lambda>k. set_status p k v) ks w)) = socks w"
    "tsks (snd (foreach (\<lambda>k. set_status p k v) ks w)) = tsks w"
    "mods (snd (foreach (\<lambda>k. set_status p k v) ks w)) = mods w" by blast+
qed

lemma restore_after_save:
  assumes keep: "saved t w2 = saved t (save_ptrs t w1)" and wf: "wf_task t w1"
    and i: "(k, i) \<in> set (data_sockets t w1)"
  shows "s_dataptr (socks (restore_ptrs t w2) i) = s_dataptr (socks w1 i)"
proof -
  from wf have len: "length (t_dataptr_init (tsks w1 t)) = length (t_sockets (tsks w1 t))"
    and dist: "distinct (t_sockets (tsks w1 t))" by (simp_all add: wf_task_def Let_def)
  note sv = save_ptrs_sel [OF len]
  have ss: "t_sockets (tsks w2 t) = t_sockets (tsks w1 t)"
    and di: "t_dataptr_init (tsks w2 t) = t_dataptr_init (tsks (save_ptrs t w1) t)"
    using keep sv(3) by (simp_all add: saved_def)
  have ds: "data_sockets t w2 = data_sockets t w1" by (simp add: data_sockets_def ss)
  have "socks (restore_ptrs t w2) i = (socks w2 i)\<lparr>s_dataptr := t_dataptr_init (tsks w2 t) ! k\<rparr>"
    unfolding restore_ptrs_alt ds by (rule point_all_sel [OF distinct_data_sockets [OF dist] i])
  with sv(4) [OF i] di show ?thesis by simp
qed

lemma wf_task_same: "socks w' = socks w \<Longrightarrow> tsks w' = tsks w \<Longrightarrow> next_sock w' = next_sock w \<Longrightarrow>
    wf_task t w' = wf_task t w"
  by (simp add: wf_task_def of_type_def Let_def)

lemma statuses_next: "next_sock (snd (foreach (\<lambda>k. set_status p k v) ks w)) = next_sock w"
  by (rule foreach_invariant [where P = "\<lambda>u. next_sock u = next_sock w"])
    (simp_all add: set_status_def write_bytes_def split: ptr.split)

lemma exec_codelet_restores:
  assumes wf: "wf_task t w" and keep: "keeps_saved t cod"
    and place: "\<not> in_place (mods w (t_module (tsks w t))) frame_id managed"
    and run: "exec_codelet t cod frame_id managed w = (Inr (), w')"
    and i: "i \<in> set (butlast (t_sockets (tsks w t)))"
  shows "s_dataptr (socks w' i) = s_dataptr (socks w i)"
proof -
  let ?md = "mods w (t_module (tsks w t))" and ?p = "status_ptr t w"
  define w1 where "w1 = snd (foreach (\<lambda>k. set_status ?p k status_UNKNOWN) [0..<m_n_waves ?md] w)"
  let ?run = "if 0 < frame_id \<and> managed \<and> 1 < m_n_frames_per_wave ?md
    then one_frame t cod ?p (m_n_frames ?md) (m_n_frames_per_wave ?md) (nat frame_id) (save_ptrs t w1)
    else all_waves t cod ?p ?md frame_id (save_ptrs t w1)"
  from run place obtain w2 where r: "?run = (Inr (), w2)" and w': "w' = restore_ptrs t w2"
    unfolding exec_codelet_def Let_def w1_def
    by (cases "foreach (\<lambda>k. set_status ?p k status_UNKNOWN) [0..<m_n_waves ?md] w" rule: is_ok.cases)
      (auto split: if_splits elim!: bindo_InrD)
  have "saved t (snd ?run) = saved t (save_ptrs t w1)"
    using keep by (simp add: saved_one_frame saved_all_waves)
  with r have sv: "saved t w2 = saved t (save_ptrs t w1)" by (simp only: snd_conv)
  have same: "socks w1 = socks w" "tsks w1 = tsks w" "next_sock w1 = next_sock w"
    by (simp_all add: w1_def statuses_frame statuses_next)
  from i obtain k where "k < length (butlast (t_sockets (tsks w t)))"
    and "i = butlast (t_sockets (tsks w t)) ! k" by (auto simp: in_set_conv_nth)
  then have "(k, i) \<in> set (data_sockets t w1)" by (simp add: in_data_sockets same nth_butlast)
  with restore_after_save [OF sv] wf same wf_task_same [of w1 w t] show ?thesis by (simp add: w')
qed

lemma call_codelet_throws: "cod f v = (Inl e, v') \<Longrightarrow> call_codelet cod p k f v = (Inl e, v')"
  by (simp add: call_codelet_def)

text \<open>The status vector has room for one \<^verbatim>\<open>int\<close> per wave.\<close>

fun status_room :: "ptr \<Rightarrow> nat \<Rightarrow> world \<Rightarrow> bool" where
  "status_room Null n w = (n = 0)"
| "status_room (Ptr b off) n w = (0 \<le> off \<and> nat off + 4 * n \<le> length (mem w b))"

lemma length_int_bytes [simp]: "length (int_bytes v) = 4"
  by (simp add: int_bytes_def)

lemma set_status_ok:
  assumes "status_room p n w" and "k < n"
  shows "\<exists>w'. set_status p k v w = (Inr (), w') \<and> status_room p n w' \<and> socks w' = socks w \<and>
    tsks w' = tsks w \<and> mods w' = mods w"
proof -
  have "int_bytes v \<noteq> []" using length_int_bytes [of v] by fastforce
  with assms show ?thesis
    by (cases p) (auto simp: set_status_def write_bytes_def)
qed

lemma statuses_ok:
  assumes "status_room p n w" and "set ks \<subseteq> {0..<n}"
  shows "\<exists>w'. foreach (\<lambda>k. set_status p k v) ks w = (Inr (), w') \<and> status_room p n w' \<and>
    socks w' = socks w \<and> tsks w' = tsks w \<and> mods w' = mods w"
proof -
  have "\<exists>w'. foreach (\<lambda>k. set_status p k v) ks w = (Inr (), w') \<and>
      (status_room p n w' \<and> socks w' = socks w \<and> tsks w' = tsks w \<and> mods w' = mods w)"
  proof (rule foreach_ok)
    fix k u
    assume "k \<in> set ks" and u: "status_room p n u \<and> socks u = socks w \<and> tsks u = tsks w \<and> mods u = mods w"
    with assms(2) have "k < n" by auto
    with set_status_ok [of p n u k v] u
    show "\<exists>u'. set_status p k v u = (Inr (), u') \<and> status_room p n u' \<and> socks u' = socks w \<and>
        tsks u' = tsks w \<and> mods u' = mods w" by auto
  qed (use assms(1) in simp)
  then show ?thesis .
qed

section \<open>Properties of the execution\<close>

text \<open>
  C4: When a task returns from an execution by waves, or of one frame of a managed memory, every socket
  points where it pointed before, whatever the codelet did to the memory and to the pointers.
\<close>

theorem exec_restores_data_pointers:
  assumes "wf_task t w" and "keeps_saved t cod"
    and "\<not> in_place (mods w (t_module (tsks w t))) frame_id managed"
    and "exec_task t cod d frame_id managed w = (Inr v, w')"
    and "i \<in> set (butlast (t_sockets (tsks w t)))"
  shows "s_dataptr (socks w' i) = s_dataptr (socks w i)"
proof -
  from assms(4) obtain w1 where "exec_codelet t cod frame_id managed w = (Inr (), w1)"
    and "socks w' = socks w1"
    by (auto simp: exec_task_def Let_def record_duration_def split: if_splits elim!: bindo_InrD)
  with exec_codelet_restores [OF assms(1-3) _ assms(5)] show ?thesis by simp
qed

text \<open>One input of 4 bytes per frame, two frames of one frame per wave.\<close>

definition exec_example :: world where
  "exec_example = (upd_mod 0 (\<lambda>x. x\<lparr>m_n_frames := 2, m_n_waves := 2\<rparr>)
     (upd_tsk 0 (\<lambda>x. x\<lparr>t_sockets := [0, 1], t_dataptr_init := [Null, Null], t_n_input_sockets := 1,
          t_n_output_sockets := 1, t_databytes_per_frame := [4, 4], t_data := [empty_vec, empty_vec]\<rparr>)
       (upd_sck 0 (\<lambda>s. s\<lparr>s_dataptr := Ptr 1 0\<rparr>) (upd_sck 1 (\<lambda>s. s\<lparr>s_dataptr := Ptr 2 0, s_name := status_name\<rparr>)
         (blank_world (\<lambda>i. if i = 0 then SIN else SOUT) 2)))))\<lparr>mem := (\<lambda>b. replicate 8 0)\<rparr>"

lemma exec_example_sel [simp]:
  "mods exec_example 0 = blank_module\<lparr>m_n_frames := 2, m_n_waves := 2\<rparr>"
  "tsks exec_example 0 = blank_task\<lparr>t_sockets := [0, 1], t_dataptr_init := [Null, Null],
     t_n_input_sockets := 1, t_n_output_sockets := 1, t_databytes_per_frame := [4, 4],
     t_data := [empty_vec, empty_vec]\<rparr>"
  "s_dataptr (socks exec_example 0) = Ptr 1 0" "s_dataptr (socks exec_example (Suc 0)) = Ptr 2 0"
  "mem exec_example b = replicate 8 0"
  by (simp_all add: exec_example_def blank_world_def)

lemma exec_example_wf: "wf_task 0 exec_example"
  by (simp add: wf_task_def of_type_def Let_def blank_task_def)
    (simp add: exec_example_def blank_defs status_name_def)

theorem exec_restores_data_pointers_witness:
  "s_dataptr (socks (snd (exec_task 0 (\<lambda>f v. (Inr 0, v)) 7 (-1) False exec_example)) 0) = Ptr 1 0"
proof -
  have "is_ok (exec_task 0 (\<lambda>f v. (Inr 0, v)) 7 (-1) False exec_example)" by code_simp
  then obtain v w' where r: "exec_task 0 (\<lambda>f v. (Inr 0, v)) 7 (-1) False exec_example = (Inr v, w')"
    by (cases "exec_task 0 (\<lambda>f v. (Inr 0, v)) 7 (-1) False exec_example" rule: is_ok.cases) auto
  have "s_dataptr (socks w' 0) = s_dataptr (socks exec_example 0)"
    by (rule exec_restores_data_pointers [OF exec_example_wf _ _ r])
      (simp_all add: keeps_saved_def in_place_def blank_task_def blank_module_def)
  with r show ?thesis by simp
qed

text \<open>
  An exception of the codelet in the second wave leaves the task without the restoration: every
  socket of the task stays one wave further than where it pointed before the execution.
\<close>

theorem exec_throw_leaves_shifted_pointers:
  assumes wf: "wf_task t w" and md: "md = mods w (t_module (tsks w t))"
    and nw: "2 \<le> m_n_waves md" and rest: "m_n_frames_per_wave_rest md = 0"
    and fpw: "0 < m_n_frames_per_wave md" "m_n_frames_per_wave md \<noteq> m_n_frames md"
    and room: "status_room (status_ptr t w) (m_n_waves md) w" and ne: "t_sockets (tsks w t) \<noteq> []"
    and cod: "cod = (\<lambda>f v. if f = m_n_frames_per_wave md then (Inl e, v) else (Inr 0, v))"
    and ki: "(k, i) \<in> set (data_sockets t w)"
  shows "\<exists>w'. exec_codelet t cod (-1) True w = (Inl e, w') \<and> s_dataptr (socks w' i) =
    ptr_add (s_dataptr (socks w i)) (int (m_n_frames_per_wave md * t_databytes_per_frame (tsks w t) ! k))"
proof -
  let ?p = "status_ptr t w" and ?fpw = "m_n_frames_per_wave md"
  obtain m where m: "m_n_waves md = Suc (Suc m)" using nw by (metis add_2_eq_Suc le_Suc_ex)
  from statuses_ok [OF room, of "[0..<m_n_waves md]" status_UNKNOWN] obtain w1 where
    w1: "foreach (\<lambda>k. set_status ?p k status_UNKNOWN) [0..<m_n_waves md] w = (Inr (), w1)"
      "status_room ?p (m_n_waves md) w1" "socks w1 = socks w" "tsks w1 = tsks w" by auto
  have len: "length (t_dataptr_init (tsks w1 t)) = length (t_sockets (tsks w1 t))"
    and dist: "distinct (t_sockets (tsks w1 t))" using wf w1(4) by (simp_all add: wf_task_def Let_def)
  note sv = save_ptrs_sel [OF len]
  let ?w2 = "shift_ptrs t 0 (save_ptrs t w1)"
  have room2: "status_room ?p (m_n_waves md) ?w2" using w1(2) sv(2)
    by (cases ?p) (simp_all add: shift_ptrs_alt)
  from set_status_ok [OF this, of 0 0] nw obtain w3 where
    w3: "set_status ?p 0 0 ?w2 = (Inr (), w3)" "socks w3 = socks ?w2" "tsks w3 = tsks ?w2" by auto
  have call0: "call_codelet cod ?p 0 0 ?w2 = (Inr 0, w3)"
    using fpw w3(1) by (simp add: call_codelet_def cod)
  have call1: "call_codelet cod ?p 1 ?fpw (shift_ptrs t ?fpw w3) = (Inl e, shift_ptrs t ?fpw w3)"
    by (rule call_codelet_throws) (simp add: cod)
  have "all_waves t cod ?p md (-1) (save_ptrs t w1) = (Inl e, shift_ptrs t ?fpw w3)"
    using call0 call1 rest m
    by (cases m) (simp_all add: all_waves_def Let_def status_defs last_wave_def)
  then have run: "exec_codelet t cod (-1) True w = (Inl e, shift_ptrs t ?fpw w3)"
    using w1(1) ne m fpw md by (simp add: exec_codelet_def Let_def in_place_def)
  have ts3: "tsks w3 = tsks (save_ptrs t w1)" using w3(3) by (simp add: shift_ptrs_alt)
  have bpf: "t_databytes_per_frame (tsks (save_ptrs t w1) t) = t_databytes_per_frame (tsks w t)"
  proof -
    have "distinct (map fst (data_sockets t w1))" by (simp add: data_sockets_def)
    moreover have "\<forall>(k, i) \<in> set (data_sockets t w1). k < length (t_dataptr_init (tsks w1 t))"
      using len by (auto simp: in_data_sockets)
    ultimately show ?thesis using w1(4) by (simp add: save_ptrs_def save_ptrs_fold)
  qed
  have ds: "data_sockets t w1 = data_sockets t w" "data_sockets t w3 = data_sockets t w"
    using sv(3) ts3 w1(4) by (simp_all add: data_sockets_def)
  have "socks (shift_ptrs t ?fpw w3) i = (socks w3 i)\<lparr>s_dataptr := ptr_add (t_dataptr_init (tsks w3 t) ! k)
      (int (?fpw * t_databytes_per_frame (tsks w3 t) ! k))\<rparr>"
    unfolding shift_ptrs_alt ds
    by (rule point_all_sel [OF distinct_data_sockets ki]) (use wf in \<open>simp add: wf_task_def Let_def\<close>)
  moreover have "t_dataptr_init (tsks w3 t) ! k = s_dataptr (socks w i)"
    using sv(4) [of k i] ki ds(1) ts3 w1(3) by simp
  ultimately show ?thesis using run ts3 bpf by simp
qed

theorem exec_throw_leaves_shifted_pointers_witness:
  "\<exists>w'. exec_codelet 0 (\<lambda>f v. if f = m_n_frames_per_wave (mods exec_example 0) then (Inl Processing_aborted, v)
       else (Inr 0, v)) (-1) True exec_example = (Inl Processing_aborted, w') \<and>
    s_dataptr (socks w' 0) = ptr_add (s_dataptr (socks exec_example 0))
      (int (m_n_frames_per_wave (mods exec_example 0) * t_databytes_per_frame (tsks exec_example 0) ! 0))"
  by (rule exec_throw_leaves_shifted_pointers [OF exec_example_wf])
    (simp_all add: blank_task_def blank_module_def status_ptr_def get_dataptr_def data_sockets_def)

text \<open>
  C30: \<^verbatim>\<open>exec\<close> refuses a frame the module does not have (a negative one other than \<open>-1\<close> too, which the
  cast to \<^verbatim>\<open>size_t\<close> makes huge) and a task with a socket without data, before it calls the codelet: the
  store is unchanged. The fast mode skips both checks.
\<close>

theorem exec_checks_before_it_runs:
  assumes "\<not> t_fast (tsks w t)" and "- (2 ^ 31) \<le> frame_id" and "frame_id < 2 ^ 31"
    and "m_n_frames (mods w (t_module (tsks w t))) < 2 ^ 31"
  shows "((frame_id < -1 \<or> int (m_n_frames (mods w (t_module (tsks w t)))) \<le> frame_id) \<longrightarrow>
      exec_task t cod d frame_id managed w = (Inl Length_error, w)) \<and>
    (- 1 \<le> frame_id \<and> frame_id < int (m_n_frames (mods w (t_module (tsks w t)))) \<and>
      (\<exists>i \<in> set (t_sockets (tsks w t)). s_dataptr (socks w i) = Null) \<longrightarrow>
      exec_task t cod d frame_id managed w = (Inl Runtime_error, w))"
proof -
  have "size_cast frame_id = (if 0 \<le> frame_id then nat frame_id else size_cast frame_id)"
    using assms(3) by simp
  moreover have "frame_id < 0 \<Longrightarrow> m_n_frames (mods w (t_module (tsks w t))) \<le> size_cast frame_id"
    using size_cast_neg [OF assms(2)] assms(4) by simp
  ultimately show ?thesis
    using assms(1) by (auto simp: exec_task_def Let_def can_exec_def le_nat_iff split: if_splits)
qed

theorem exec_checks_before_it_runs_witness:
  "exec_task 0 (\<lambda>f v. (Inr 0, v)) 0 2 False exec_example = (Inl Length_error, exec_example) \<and>
   exec_task 0 (\<lambda>f v. (Inr 0, v)) 0 0 False (upd_sck 0 (\<lambda>s. s\<lparr>s_dataptr := Null\<rparr>) exec_example) =
     (Inl Runtime_error, upd_sck 0 (\<lambda>s. s\<lparr>s_dataptr := Null\<rparr>) exec_example)"
  using exec_checks_before_it_runs [of exec_example 0 2 "\<lambda>f v. (Inr 0, v)" 0 False]
    exec_checks_before_it_runs [of "upd_sck 0 (\<lambda>s. s\<lparr>s_dataptr := Null\<rparr>) exec_example" 0 0
      "\<lambda>f v. (Inr 0, v)" 0 False]
  by (simp add: blank_task_def blank_module_def)

end
