(* ===== verification/Module_Ops.thy ===== *)
theory Module_Ops
  imports Tasks Float32
begin

text \<open>
  \<^verbatim>\<open>module::Module\<close> (\<^verbatim>\<open>src/Module/Module.cpp\<close>): the number of frames, of frames per wave and of waves
  of a module, the creation of its tasks and sockets, the lookup of a socket by name, and the copy of
  the tasks into a clone. \<^verbatim>\<open>set_n_frames\<close> and \<^verbatim>\<open>set_n_frames_per_wave\<close> call each other when the module is
  in single wave mode; they carry a fuel, and two units are shown to be enough.
\<close>

section \<open>Frames and waves\<close>

definition new_module :: module where
  "new_module = \<lparr>m_n_frames = 1, m_n_frames_per_wave = 1, m_n_waves = 1, m_n_frames_per_wave_rest = 0,
     m_single_wave = False, m_name = ''Module'', m_short_name = ''Module'', m_custom_name = [],
     m_tasks = [], m_tasks_with_nullptr = [], m_clonable = False, m_stateless = False, m_is_set = False\<rparr>"

text \<open>The waves of a module: \<^verbatim>\<open>(size_t)std::ceil((float)n_frames / (float)n_frames_per_wave)\<close>.\<close>

definition with_waves :: "module \<Rightarrow> module" where
  "with_waves x = x\<lparr>m_n_frames_per_wave_rest := m_n_frames x mod m_n_frames_per_wave x,
     m_n_waves := float_ceil_div (m_n_frames x) (m_n_frames_per_wave x)\<rparr>"

definition set_n_frames_raw :: "mid \<Rightarrow> nat \<Rightarrow> world \<Rightarrow> (world, unit) outcome" where
  "set_n_frames_raw md n w =
     (if n = 0 then (Inl Invalid_argument, w)
      else (let old = m_n_frames (mods w md);
                w1 = upd_mod md (\<lambda>x. with_waves (x\<lparr>m_n_frames := n\<rparr>)) w
        in foreach (\<lambda>t. update_n_frames t old n) (m_tasks (mods w1 md)) w1))"

definition set_n_frames_per_wave_raw :: "mid \<Rightarrow> nat \<Rightarrow> world \<Rightarrow> (world, unit) outcome" where
  "set_n_frames_per_wave_raw md n w =
     (if n = 0 then (Inl Invalid_argument, w)
      else (let w1 = upd_mod md (\<lambda>x. with_waves (x\<lparr>m_n_frames_per_wave := n\<rparr>)) w
        in foreach (\<lambda>t. update_n_frames_per_wave t n) (m_tasks (mods w1 md)) w1))"

fun set_n_frames :: "nat \<Rightarrow> mid \<Rightarrow> nat \<Rightarrow> world \<Rightarrow> (world, unit) outcome"
  and set_n_frames_per_wave :: "nat \<Rightarrow> mid \<Rightarrow> nat \<Rightarrow> world \<Rightarrow> (world, unit) outcome" where
  "set_n_frames 0 md n w = (Inl UB, w)"
| "set_n_frames (Suc fuel) md n w =
     bindo (if m_n_frames (mods w md) \<noteq> n then set_n_frames_raw md n w else (Inr (), w))
       (\<lambda>_ w1. if m_single_wave (mods w1 md) \<and> m_n_frames_per_wave (mods w1 md) \<noteq> n
          then set_n_frames_per_wave fuel md n w1 else (Inr (), w1))"
| "set_n_frames_per_wave 0 md n w = (Inl UB, w)"
| "set_n_frames_per_wave (Suc fuel) md n w =
     bindo (if m_n_frames_per_wave (mods w md) \<noteq> n then set_n_frames_per_wave_raw md n w else (Inr (), w))
       (\<lambda>_ w1. if m_single_wave (mods w1 md) \<and> m_n_frames (mods w1 md) \<noteq> n
          then set_n_frames fuel md n w1 else (Inr (), w1))"

definition set_single_wave :: "mid \<Rightarrow> bool \<Rightarrow> world \<Rightarrow> (world, unit) outcome" where
  "set_single_wave md b w =
     (let w1 = upd_mod md (\<lambda>x. x\<lparr>m_single_wave := b\<rparr>) w in
      bindo (set_n_frames 2 md (m_n_frames (mods w1 md)) w1)
        (\<lambda>_ w2. set_n_frames_per_wave 2 md (m_n_frames (mods w2 md)) w2))"

section \<open>Names, tasks and sockets\<close>

definition set_name :: "mid \<Rightarrow> string \<Rightarrow> world \<Rightarrow> world" where
  "set_name md s w = upd_mod md (\<lambda>x. x\<lparr>m_name := s\<rparr>) w"

definition set_short_name :: "mid \<Rightarrow> string \<Rightarrow> world \<Rightarrow> world" where
  "set_short_name md s w = upd_mod md (\<lambda>x. x\<lparr>m_short_name := s\<rparr>) w"

definition set_custom_name :: "mid \<Rightarrow> string \<Rightarrow> world \<Rightarrow> world" where
  "set_custom_name md s w = upd_mod md (\<lambda>x. x\<lparr>m_custom_name := s\<rparr>) w"

definition remove_custom_name :: "mid \<Rightarrow> world \<Rightarrow> world" where
  "remove_custom_name md w = upd_mod md (\<lambda>x. x\<lparr>m_custom_name := []\<rparr>) w"

definition find_task :: "mid \<Rightarrow> string \<Rightarrow> world \<Rightarrow> exn + tid" where
  "find_task md name w =
     (case find (\<lambda>t. t_name (tsks w t) = name) (m_tasks (mods w md)) of
        None \<Rightarrow> Inl Invalid_argument | Some t \<Rightarrow> Inr t)"

text \<open>\<^verbatim>\<open>create_task\<close>: \<open>slot_id\<close> is negative for a new slot, or the number of an empty slot.\<close>

definition create_task :: "mid \<Rightarrow> string \<Rightarrow> int \<Rightarrow> world \<Rightarrow> (world, tid) outcome" where
  "create_task md name slot_id w =
     (if \<exists>t \<in> set (m_tasks (mods w md)). t_name (tsks w t) = name then (Inl Invalid_argument, w)
      else (let (t, w1) = new_task md name w; slots = m_tasks_with_nullptr (mods w md) in
        if slot_id < 0 then (Inr t, upd_mod md (\<lambda>x. x\<lparr>m_tasks_with_nullptr := slots @ [Some t],
             m_tasks := m_tasks x @ [t]\<rparr>) w1)
        else if nat slot_id < length slots \<and> slots ! nat slot_id = None
        then (Inr t, upd_mod md (\<lambda>x. x\<lparr>m_tasks_with_nullptr := slots[nat slot_id := Some t],
             m_tasks := m_tasks x @ [t]\<rparr>) w1)
        else (Inl Runtime_error, w1)))"

text \<open>\<^verbatim>\<open>create_reset_task\<close>: \<open>has_reset\<close> tells whether the module implements \<^verbatim>\<open>Interface_reset\<close>.\<close>

definition create_reset_task :: "nat \<Rightarrow> mid \<Rightarrow> bool \<Rightarrow> world \<Rightarrow> (world, unit) outcome" where
  "create_reset_task fuel md has_reset w =
     (if \<not> has_reset then (Inl Runtime_error, w)
      else bindo (create_task md ''reset'' (-1) w) (\<lambda>t w1. create_codelet fuel t w1))"

definition mod_create_2d_socket_in ::
  "mid \<Rightarrow> tid \<Rightarrow> string \<Rightarrow> nat \<Rightarrow> nat \<Rightarrow> type_index \<Rightarrow> world \<Rightarrow> (world, nat) outcome" where
  "mod_create_2d_socket_in md t name n_rows n_cols T w =
     create_2d_socket_in t name (m_n_frames (mods w md) * n_rows) n_cols T w"

definition mod_create_2d_socket_out ::
  "mid \<Rightarrow> tid \<Rightarrow> string \<Rightarrow> nat \<Rightarrow> nat \<Rightarrow> type_index \<Rightarrow> world \<Rightarrow> (world, nat) outcome" where
  "mod_create_2d_socket_out md t name n_rows n_cols T w =
     create_2d_socket_out t name (m_n_frames (mods w md) * n_rows) n_cols T False w"

definition mod_create_2d_socket_fwd ::
  "mid \<Rightarrow> tid \<Rightarrow> string \<Rightarrow> nat \<Rightarrow> nat \<Rightarrow> type_index \<Rightarrow> world \<Rightarrow> (world, nat) outcome" where
  "mod_create_2d_socket_fwd md t name n_rows n_cols T w =
     create_2d_socket_fwd t name (m_n_frames (mods w md) * n_rows) n_cols T w"

definition mod_create_socket_in ::
  "mid \<Rightarrow> tid \<Rightarrow> string \<Rightarrow> nat \<Rightarrow> type_index \<Rightarrow> world \<Rightarrow> (world, nat) outcome" where
  "mod_create_socket_in md t name n_elmts T w =
     create_2d_socket_in t name (m_n_frames (mods w md)) n_elmts T w"

definition mod_create_socket_out ::
  "mid \<Rightarrow> tid \<Rightarrow> string \<Rightarrow> nat \<Rightarrow> type_index \<Rightarrow> world \<Rightarrow> (world, nat) outcome" where
  "mod_create_socket_out md t name n_elmts T w =
     create_2d_socket_out t name (m_n_frames (mods w md)) n_elmts T False w"

definition mod_create_socket_fwd ::
  "mid \<Rightarrow> tid \<Rightarrow> string \<Rightarrow> nat \<Rightarrow> type_index \<Rightarrow> world \<Rightarrow> (world, nat) outcome" where
  "mod_create_socket_fwd md t name n_elmts T w =
     create_2d_socket_fwd t name (m_n_frames (mods w md)) n_elmts T w"

definition set_fast_module :: "mid \<Rightarrow> bool \<Rightarrow> world \<Rightarrow> world" where
  "set_fast_module md b w = fold (set_fast_task b) (m_tasks (mods w md)) w"

text \<open>
  \<^verbatim>\<open>operator[](const std::string&)\<close>: a name \<^verbatim>\<open>task::socket\<close> is cut at the first \<^verbatim>\<open>::\<close>, and spaces are
  dropped on both sides.
\<close>

fun split_colons :: "string \<Rightarrow> (string \<times> string) option" where
  "split_colons [] = None"
| "split_colons [c] = None"
| "split_colons (c # d # cs) =
     (if c = CHR '':'' \<and> d = CHR '':'' then Some ([], cs)
      else map_option (\<lambda>(a, b). (c # a, b)) (split_colons (d # cs)))"

definition lookup_socket :: "mid \<Rightarrow> string \<Rightarrow> world \<Rightarrow> exn + sid" where
  "lookup_socket md tsk_sck w =
     (case split_colons tsk_sck of
        None \<Rightarrow> Inl Invalid_argument
      | Some (a, b) \<Rightarrow>
          (case find_task md (strip_spaces a) w of
             Inl e \<Rightarrow> Inl e
           | Inr t \<Rightarrow>
               (case find (\<lambda>i. s_name (socks w i) = strip_spaces b) (t_sockets (tsks w t)) of
                  None \<Rightarrow> Inl Invalid_argument | Some i \<Rightarrow> Inr i)))"

section \<open>Copy of the tasks into a clone\<close>

text \<open>
  \<^verbatim>\<open>deep_copy\<close>: the clone (here \<open>md'\<close>, whose fields were copied from \<open>md\<close>) gets a clone of every task,
  slot by slot.
\<close>

definition deep_copy_slot :: "nat \<Rightarrow> mid \<Rightarrow> tid option \<Rightarrow> world \<Rightarrow> (world, unit) outcome" where
  "deep_copy_slot fuel md' slot w =
     (case slot of
        None \<Rightarrow> (Inr (), upd_mod md' (\<lambda>x. x\<lparr>m_tasks_with_nullptr := m_tasks_with_nullptr x @ [None]\<rparr>) w)
      | Some t \<Rightarrow> bindo (clone_task fuel t w) (\<lambda>t' w1.
          (Inr (), upd_mod md' (\<lambda>x. x\<lparr>m_tasks_with_nullptr := m_tasks_with_nullptr x @ [Some t'],
              m_tasks := m_tasks x @ [t']\<rparr>)
            (upd_tsk t' (\<lambda>x. x\<lparr>t_module := md'\<rparr>) w1))))"

definition deep_copy :: "nat \<Rightarrow> mid \<Rightarrow> mid \<Rightarrow> world \<Rightarrow> (world, unit) outcome" where
  "deep_copy fuel md md' w =
     (let w1 = upd_mod md' (\<lambda>_. (mods w md)\<lparr>m_tasks_with_nullptr := [], m_tasks := []\<rparr>) w in
      foreach (deep_copy_slot fuel md') (m_tasks_with_nullptr (mods w md)) w1)"

section \<open>Fuel\<close>

text \<open>The two setters stop each other after one exchange, so every fuel from 2 on gives one result.\<close>

lemma mods_resize_status [simp]: "mods (snd (resize_status t i w)) = mods w"
  by (simp add: resize_status_def set_databytes_def check_bound_socket_def set_dataptr_def
      vec_resize_def Let_def split_beta)

lemma mods_resize_frames [simp]: "mods (snd (resize_frames t old new i w)) = mods w"
  by (simp add: resize_frames_def set_databytes_def check_bound_socket_def set_n_rows_def
      resize_out_buffer_def vec_resize_def Let_def split_beta)

lemma mods_update_n_frames [simp]: "mods (snd (update_n_frames t old new w)) = mods w"
  unfolding update_n_frames_def
  by (rule foreach_invariant [where P = "\<lambda>v. mods v = mods w"]) simp_all

lemma mods_update_n_frames_per_wave [simp]: "mods (snd (update_n_frames_per_wave t new w)) = mods w"
  unfolding update_n_frames_per_wave_def
  by (rule foreach_invariant [where P = "\<lambda>v. mods v = mods w"])
    (auto simp: vec_resize_def split_beta Let_def)

lemma mods_foreach_update:
  "mods (snd (foreach (\<lambda>t. update_n_frames t old n) ts v)) = mods v"
  "mods (snd (foreach (\<lambda>t. update_n_frames_per_wave t n) ts v)) = mods v"
  by (rule foreach_invariant [where P = "\<lambda>s. mods s = mods v"], simp_all)+

lemma set_n_frames_raw_mods:
  assumes "n \<noteq> 0"
  shows "mods (snd (set_n_frames_raw md n w)) =
    (mods w)(md := with_waves ((mods w md)\<lparr>m_n_frames := n\<rparr>))"
  using assms by (simp add: set_n_frames_raw_def Let_def mods_foreach_update) (simp add: upd_mod_def)

lemma set_n_frames_per_wave_raw_mods:
  assumes "n \<noteq> 0"
  shows "mods (snd (set_n_frames_per_wave_raw md n w)) =
    (mods w)(md := with_waves ((mods w md)\<lparr>m_n_frames_per_wave := n\<rparr>))"
  using assms by (simp add: set_n_frames_per_wave_raw_def Let_def mods_foreach_update)
    (simp add: upd_mod_def)

lemma with_waves_sel [simp]:
  "m_n_frames (with_waves x) = m_n_frames x"
  "m_n_frames_per_wave (with_waves x) = m_n_frames_per_wave x"
  "m_single_wave (with_waves x) = m_single_wave x" "m_tasks (with_waves x) = m_tasks x"
  "m_tasks_with_nullptr (with_waves x) = m_tasks_with_nullptr x"
  "m_n_waves (with_waves x) = float_ceil_div (m_n_frames x) (m_n_frames_per_wave x)"
  "m_n_frames_per_wave_rest (with_waves x) = m_n_frames x mod m_n_frames_per_wave x"
  by (simp_all add: with_waves_def)

lemma set_n_frames_per_wave_stops:
  assumes "m_n_frames (mods w md) = n"
  shows "set_n_frames_per_wave (Suc fuel) md n w =
    (if m_n_frames_per_wave (mods w md) \<noteq> n then set_n_frames_per_wave_raw md n w else (Inr (), w))"
proof -
  have "m_n_frames (mods (snd (set_n_frames_per_wave_raw md n w)) md) = n"
    using assms set_n_frames_per_wave_raw_mods [of n md w]
    by (cases "n = 0") (simp_all add: set_n_frames_per_wave_raw_def)
  with assms show ?thesis
    by (cases "set_n_frames_per_wave_raw md n w"; cases "fst (set_n_frames_per_wave_raw md n w)") auto
qed

lemma set_n_frames_stops:
  assumes "m_n_frames_per_wave (mods w md) = n"
  shows "set_n_frames (Suc fuel) md n w =
    (if m_n_frames (mods w md) \<noteq> n then set_n_frames_raw md n w else (Inr (), w))"
proof -
  have "m_n_frames_per_wave (mods (snd (set_n_frames_raw md n w)) md) = n"
    using assms set_n_frames_raw_mods [of n md w]
    by (cases "n = 0") (simp_all add: set_n_frames_raw_def)
  with assms show ?thesis
    by (cases "set_n_frames_raw md n w"; cases "fst (set_n_frames_raw md n w)") auto
qed

lemma set_n_frames_unfold:
  "set_n_frames (Suc (Suc fuel)) md n w =
     bindo (if m_n_frames (mods w md) \<noteq> n then set_n_frames_raw md n w else (Inr (), w))
       (\<lambda>_ w1. if m_single_wave (mods w1 md) \<and> m_n_frames_per_wave (mods w1 md) \<noteq> n
          then set_n_frames_per_wave_raw md n w1 else (Inr (), w1))"
proof -
  let ?r = "if m_n_frames (mods w md) \<noteq> n then set_n_frames_raw md n w else (Inr (), w)"
  have "m_n_frames (mods w1 md) = n" if "?r = (Inr (), w1)" for w1
  proof (cases "m_n_frames (mods w md) = n")
    case False
    with that have r: "set_n_frames_raw md n w = (Inr (), w1)" by simp
    then have "n \<noteq> 0" by (cases "n = 0") (simp_all add: set_n_frames_raw_def)
    from set_n_frames_raw_mods [OF this, of md w] r show ?thesis by simp
  qed (use that in auto)
  then show ?thesis
    by (subst set_n_frames.simps(2)) (cases ?r rule: is_ok.cases,
      simp_all add: set_n_frames_per_wave_stops del: set_n_frames_per_wave.simps)
qed

lemma set_n_frames_per_wave_unfold:
  "set_n_frames_per_wave (Suc (Suc fuel)) md n w =
     bindo (if m_n_frames_per_wave (mods w md) \<noteq> n then set_n_frames_per_wave_raw md n w else (Inr (), w))
       (\<lambda>_ w1. if m_single_wave (mods w1 md) \<and> m_n_frames (mods w1 md) \<noteq> n
          then set_n_frames_raw md n w1 else (Inr (), w1))"
proof -
  let ?r = "if m_n_frames_per_wave (mods w md) \<noteq> n then set_n_frames_per_wave_raw md n w else (Inr (), w)"
  have "m_n_frames_per_wave (mods w1 md) = n" if "?r = (Inr (), w1)" for w1
  proof (cases "m_n_frames_per_wave (mods w md) = n")
    case False
    with that have r: "set_n_frames_per_wave_raw md n w = (Inr (), w1)" by simp
    then have "n \<noteq> 0" by (cases "n = 0") (simp_all add: set_n_frames_per_wave_raw_def)
    from set_n_frames_per_wave_raw_mods [OF this, of md w] r show ?thesis by simp
  qed (use that in auto)
  then show ?thesis
    by (subst set_n_frames_per_wave.simps(2)) (cases ?r rule: is_ok.cases,
      simp_all add: set_n_frames_stops del: set_n_frames.simps)
qed

section \<open>The sizes of the sockets of a module\<close>

text \<open>
  \<open>slots\<close>: the tasks of a module with their sockets. \<open>sizes_ok\<close>: the waves are those of the two numbers
  of frames, the sockets are distinct and not bound, a status has one \<^verbatim>\<open>int\<close> per wave and every other
  socket has the same number of bytes and of rows for each frame.
\<close>

definition slots :: "mid \<Rightarrow> world \<Rightarrow> (tid \<times> sid) list" where
  "slots md w = concat (map (\<lambda>t. map (Pair t) (t_sockets (tsks w t))) (m_tasks (mods w md)))"

definition sizes_ok :: "mid \<Rightarrow> world \<Rightarrow> bool" where
  "sizes_ok md w \<longleftrightarrow> (let x = mods w md in
     0 < m_n_frames x \<and> 0 < m_n_frames_per_wave x \<and> x = with_waves x \<and>
     distinct (map snd (slots md w)) \<and>
     (\<forall>(t, i) \<in> set (slots md w). t_module (tsks w t) = md \<and> unlinked i w \<and>
        (if s_name (socks w i) = status_name then s_databytes (socks w i) = 4 * m_n_waves x
         else m_n_frames x dvd s_databytes (socks w i) \<and> m_n_frames x dvd s_n_rows (socks w i))))"

text \<open>\<open>rescaled\<close>: the sockets have the bytes and the rows per frame they had.\<close>

definition per_frame :: "mid \<Rightarrow> world \<Rightarrow> sid \<Rightarrow> nat \<times> nat" where
  "per_frame md w i = (s_databytes (socks w i) div m_n_frames (mods w md),
     s_n_rows (socks w i) div m_n_frames (mods w md))"

definition rescaled :: "mid \<Rightarrow> world \<Rightarrow> world \<Rightarrow> bool" where
  "rescaled md w w' \<longleftrightarrow> slots md w' = slots md w \<and>
     (\<forall>(t, i) \<in> set (slots md w). s_name (socks w' i) = s_name (socks w i) \<and>
        s_type (socks w' i) = s_type (socks w i) \<and>
        (s_name (socks w i) \<noteq> status_name \<longrightarrow> per_frame md w' i = per_frame md w i))"

lemma rescaled_refl: "rescaled md w w"
  by (auto simp: rescaled_def)

lemma rescaled_trans: "rescaled md u v \<Longrightarrow> rescaled md v w \<Longrightarrow> rescaled md u w"
proof -
  assume A: "rescaled md u v" and B: "rescaled md v w"
  have "slots md w = slots md u" using A B by (simp add: rescaled_def)
  moreover have "s_name (socks w i) = s_name (socks u i) \<and> s_type (socks w i) = s_type (socks u i) \<and>
      (s_name (socks u i) \<noteq> status_name \<longrightarrow> per_frame md w i = per_frame md u i)"
    if "(t, i) \<in> set (slots md u)" for t i
  proof -
    from A that have "(t, i) \<in> set (slots md v)" by (simp add: rescaled_def)
    with A B that show ?thesis unfolding rescaled_def by fastforce
  qed
  ultimately show ?thesis by (auto simp: rescaled_def)
qed

lemma task_lists_kept:
  "(\<lambda>t. t_sockets (tsks (snd (resize_frames u old new i v)) t)) = (\<lambda>t. t_sockets (tsks v t))"
  "(\<lambda>t. enumerate 0 (t_sockets (tsks (snd (resize_wave u new p v)) t))) =
     (\<lambda>t. enumerate 0 (t_sockets (tsks v t)))"
  by (auto simp: fun_eq_iff resize_frames_def resize_status_def resize_wave_def set_databytes_def
      check_bound_socket_def set_dataptr_def vec_resize_def Let_def split_beta set_n_rows_def
      resize_out_buffer_def)

lemma frames_loop_flat:
  "foreach (\<lambda>t. update_n_frames t old n) ts w =
    foreach (\<lambda>(t, i). resize_frames t old n i)
      (concat (map (\<lambda>t. map (Pair t) (t_sockets (tsks w t))) ts)) w"
  unfolding update_n_frames_def
  by (rule foreach_nested [where L = "\<lambda>v t. t_sockets (tsks v t)"]) (rule task_lists_kept)

lemma waves_loop_flat:
  "foreach (\<lambda>t. update_n_frames_per_wave t n) ts w =
    foreach (\<lambda>(t, p). resize_wave t n p)
      (concat (map (\<lambda>t. map (Pair t) (enumerate 0 (t_sockets (tsks w t)))) ts)) w"
  unfolding update_n_frames_per_wave_alt
  by (rule foreach_nested [where L = "\<lambda>v t. enumerate 0 (t_sockets (tsks v t))"]) (rule task_lists_kept)

lemma map_snd_waves:
  "map (\<lambda>x. snd (snd x)) (concat (map (\<lambda>t. map (Pair t) (enumerate 0 (f t))) ts)) =
    map snd (concat (map (\<lambda>t. map (Pair t) (f t)) ts))"
  by (simp add: map_concat comp_def) 

lemma map_Pair_enumerate: "map (\<lambda>p. (x, snd p)) (enumerate n xs) = map (Pair x) xs"
proof -
  have "map (Pair x) (map snd (enumerate n xs)) = map (Pair x) xs" by (simp only: map_snd_enumerate)
  then show ?thesis by (simp only: map_map comp_def)
qed

lemma set_waves:
  "(\<lambda>(t, k, i). (t, i)) ` set (concat (map (\<lambda>t. map (Pair t) (enumerate 0 (f t))) ts)) =
    set (concat (map (\<lambda>t. map (Pair t) (f t)) ts))"
proof -
  have "(\<lambda>(t, k, i). (t, i)) ` set (concat (map (\<lambda>t. map (Pair t) (enumerate 0 (f t))) ts)) =
      set (map (\<lambda>(t, k, i). (t, i)) (concat (map (\<lambda>t. map (Pair t) (enumerate 0 (f t))) ts)))" by simp
  also have "map (\<lambda>(t, k, i). (t, i)) (concat (map (\<lambda>t. map (Pair t) (enumerate 0 (f t))) ts)) =
      concat (map (\<lambda>t. map (Pair t) (f t)) ts)"
    by (simp add: map_concat comp_def split_beta map_Pair_enumerate)
  finally show ?thesis by simp
qed

text \<open>One call of each raw setter.\<close>

lemma set_n_frames_raw_sizes:
  assumes ok: "sizes_ok md w" and n: "n \<noteq> 0"
  shows "\<exists>w'. set_n_frames_raw md n w = (Inr (), w') \<and> sizes_ok md w' \<and> rescaled md w w' \<and>
    mods w' = (mods w)(md := with_waves ((mods w md)\<lparr>m_n_frames := n\<rparr>))"
proof -
  let ?x = "mods w md"
  define w1 where "w1 = upd_mod md (\<lambda>x. with_waves (x\<lparr>m_n_frames := n\<rparr>)) w"
  have sl: "slots md w1 = slots md w" by (simp add: w1_def slots_def)
  note ok' = ok [unfolded sizes_ok_def Let_def]
  have un: "unlinked i w1" if "(t, i) \<in> set (slots md w)" for t i
    using that ok' by (auto simp: w1_def unlinked_def)
  have "\<exists>w'. foreach (\<lambda>(t, i). resize_frames t (m_n_frames ?x) n i) (slots md w) w1 = (Inr (), w') \<and>
      all_resized snd (\<lambda>(t, i) v. target_bytes t (m_n_frames ?x) n v i)
        (\<lambda>(t, i) v. target_rows (m_n_frames ?x) n v i) (slots md w) w1 w'"
    using ok' un frames_step
    by (intro resize_loop) (auto simp: split_beta bytes_local)
  then obtain w' where w': "foreach (\<lambda>(t, i). resize_frames t (m_n_frames ?x) n i) (slots md w) w1 = (Inr (), w')"
    and r: "all_resized snd (\<lambda>(t, i) v. target_bytes t (m_n_frames ?x) n v i)
        (\<lambda>(t, i) v. target_rows (m_n_frames ?x) n v i) (slots md w) w1 w'" by blast
  have run: "set_n_frames_raw md n w = (Inr (), w')"
    using n w' sl by (simp add: set_n_frames_raw_def Let_def frames_loop_flat w1_def slots_def)
  have sh: "same_shape w1 w'" using r by (simp add: all_resized_def)
  note shd = same_shapeD [OF sh]
  have md': "mods w' = (mods w)(md := with_waves (?x\<lparr>m_n_frames := n\<rparr>))"
    using shd(1) by (simp add: w1_def upd_mod_def)
  have sl': "slots md w' = slots md w" using shd by (simp add: slots_def w1_def)
  have each: "s_databytes (socks w' i) = target_bytes t (m_n_frames ?x) n w1 i \<and>
      s_n_rows (socks w' i) = target_rows (m_n_frames ?x) n w1 i"
    if "(t, i) \<in> set (slots md w)" for t i using that r by (auto simp: all_resized_def)
  have st: "s_name (socks w' i) = s_name (socks w i) \<and> s_type (socks w' i) = s_type (socks w i) \<and>
      unlinked i w' = unlinked i w" for i
    using r strip_socket_sel [of "socks w' i" "socks w1 i"]
    by (auto simp: all_resized_def unlinked_def w1_def)
  have tm: "t_module (tsks w' t) = t_module (tsks w t)" for t using shd by (simp add: w1_def)
  have "sizes_ok md w'"
    using ok' n each st tm
    by (auto simp: sizes_ok_def Let_def sl' md' target_bytes_def target_rows_def w1_def with_waves_def)
  moreover have "rescaled md w w'"
    using ok' n each st
    by (auto simp: rescaled_def sl' per_frame_def md' target_bytes_def target_rows_def w1_def)
  ultimately show ?thesis using run md' by blast
qed

lemma set_n_frames_per_wave_raw_sizes:
  assumes ok: "sizes_ok md w" and n: "n \<noteq> 0"
  shows "\<exists>w'. set_n_frames_per_wave_raw md n w = (Inr (), w') \<and> sizes_ok md w' \<and> rescaled md w w' \<and>
    mods w' = (mods w)(md := with_waves ((mods w md)\<lparr>m_n_frames_per_wave := n\<rparr>))"
proof -
  let ?x = "mods w md"
  let ?xs = "concat (map (\<lambda>t. map (Pair t) (enumerate 0 (t_sockets (tsks w t)))) (m_tasks (mods w md)))"
  let ?key = "\<lambda>x. snd (snd x)"
  define w1 where "w1 = upd_mod md (\<lambda>x. with_waves (x\<lparr>m_n_frames_per_wave := n\<rparr>)) w"
  note ok' = ok [unfolded sizes_ok_def Let_def]
  have keys: "map ?key ?xs = map snd (slots md w)" unfolding slots_def by (rule map_snd_waves)
  have sets: "(t, i) \<in> set (slots md w) \<longleftrightarrow> (\<exists>k. (t, k, i) \<in> set ?xs)" for t i
    unfolding slots_def
    by (subst set_waves [of "\<lambda>t. t_sockets (tsks w t)" "m_tasks (mods w md)", symmetric]) force
  have un: "unlinked i w1" if "(t, k, i) \<in> set ?xs" for t k i
    using that sets ok' by (fastforce simp: w1_def unlinked_def)
  have "\<exists>w'. foreach (\<lambda>(t, p). resize_wave t n p) ?xs w1 = (Inr (), w') \<and>
      all_resized ?key (\<lambda>(t, k, i) v. wave_bytes t v i) (\<lambda>(t, k, i) v. s_n_rows (socks v i)) ?xs w1 w'"
  proof (rule resize_loop)
    show "distinct (map ?key ?xs)" unfolding keys using ok' by simp
    show "\<forall>x \<in> set ?xs. unlinked (?key x) w1" using un by force
  qed (use wave_step in \<open>auto simp: split_beta bytes_local\<close>)
  then obtain w' where w': "foreach (\<lambda>(t, p). resize_wave t n p) ?xs w1 = (Inr (), w')"
    and r: "all_resized ?key (\<lambda>(t, k, i) v. wave_bytes t v i) (\<lambda>(t, k, i) v. s_n_rows (socks v i)) ?xs w1 w'"
    by blast
  have run: "set_n_frames_per_wave_raw md n w = (Inr (), w')"
    using n w' by (simp add: set_n_frames_per_wave_raw_def Let_def waves_loop_flat w1_def)
  have sh: "same_shape w1 w'" using r by (simp add: all_resized_def)
  note shd = same_shapeD [OF sh]
  have md': "mods w' = (mods w)(md := with_waves (?x\<lparr>m_n_frames_per_wave := n\<rparr>))"
    using shd(1) by (simp add: w1_def upd_mod_def)
  have sl': "slots md w' = slots md w" using shd by (simp add: slots_def w1_def)
  have each: "s_databytes (socks w' i) = wave_bytes t w1 i \<and> s_n_rows (socks w' i) = s_n_rows (socks w i)"
    if "(t, i) \<in> set (slots md w)" for t i using that r sets by (fastforce simp: all_resized_def w1_def)
  have st: "s_name (socks w' i) = s_name (socks w i) \<and> s_type (socks w' i) = s_type (socks w i) \<and>
      unlinked i w' = unlinked i w" for i
    using r strip_socket_sel [of "socks w' i" "socks w1 i"]
    by (auto simp: all_resized_def unlinked_def w1_def)
  have tm: "t_module (tsks w' t) = t_module (tsks w t)" for t using shd by (simp add: w1_def)
  have "sizes_ok md w'"
    using ok' n each st tm
    by (auto simp: sizes_ok_def Let_def sl' md' wave_bytes_def w1_def with_waves_def)
  moreover have "rescaled md w w'"
    using ok' n each st
    by (auto simp: rescaled_def sl' per_frame_def md' wave_bytes_def w1_def)
  ultimately show ?thesis using run md' by blast
qed

lemma set_n_frames_sizes:
  assumes ok: "sizes_ok md w" and n: "n \<noteq> 0"
  shows "\<exists>w'. set_n_frames (Suc (Suc fuel)) md n w = (Inr (), w') \<and> sizes_ok md w' \<and> rescaled md w w' \<and>
    mods w' = (mods w)(md := with_waves ((mods w md)\<lparr>m_n_frames := n, m_n_frames_per_wave :=
      (if m_single_wave (mods w md) then n else m_n_frames_per_wave (mods w md))\<rparr>))"
proof -
  let ?x = "mods w md"
  have "with_waves ?x = ?x" using ok by (simp add: sizes_ok_def Let_def)
  then have "with_waves (?x\<lparr>m_n_frames := n\<rparr>) = ?x" if "m_n_frames ?x = n" using that by (cases ?x) simp
  then obtain w1 where
    w1: "(if m_n_frames ?x \<noteq> n then set_n_frames_raw md n w else (Inr (), w)) = (Inr (), w1)"
      "sizes_ok md w1" "rescaled md w w1"
    and m1: "mods w1 = (mods w)(md := with_waves (?x\<lparr>m_n_frames := n\<rparr>))"
    using set_n_frames_raw_sizes [OF ok n] ok rescaled_refl [of md w]
    by (cases "m_n_frames ?x = n") auto
  let ?b = "m_single_wave (mods w1 md) \<and> m_n_frames_per_wave (mods w1 md) \<noteq> n"
  have idem: "with_waves (with_waves y\<lparr>m_n_frames_per_wave := k\<rparr>) = with_waves (y\<lparr>m_n_frames_per_wave := k\<rparr>)"
    for y k by (simp add: with_waves_def)
  have keep: "with_waves (?x\<lparr>m_n_frames := n\<rparr>) = with_waves (?x\<lparr>m_n_frames := n, m_n_frames_per_wave := k\<rparr>)"
    if "k = m_n_frames_per_wave ?x" for k using that by (cases ?x) (simp add: with_waves_def)
  have "\<exists>w'. (if ?b then set_n_frames_per_wave_raw md n w1 else (Inr (), w1)) = (Inr (), w') \<and>
      sizes_ok md w' \<and> rescaled md w1 w' \<and>
      mods w' = (mods w)(md := with_waves (?x\<lparr>m_n_frames := n, m_n_frames_per_wave :=
        (if m_single_wave ?x then n else m_n_frames_per_wave ?x)\<rparr>))"
  proof (cases ?b)
    case True
    with set_n_frames_per_wave_raw_sizes [OF w1(2) n] m1 show ?thesis by (auto simp: idem)
  next
    case False
    have "with_waves (?x\<lparr>m_n_frames := n\<rparr>) = with_waves (?x\<lparr>m_n_frames := n, m_n_frames_per_wave :=
        (if m_single_wave ?x then n else m_n_frames_per_wave ?x)\<rparr>)"
      using False m1 by (intro keep) simp
    with False w1(2) rescaled_refl [of md w1] m1 show ?thesis by simp
  qed
  with w1 rescaled_trans [OF w1(3)] show ?thesis unfolding set_n_frames_unfold by auto
qed

lemma set_n_frames_per_wave_sizes:
  assumes ok: "sizes_ok md w" and n: "n \<noteq> 0"
  shows "\<exists>w'. set_n_frames_per_wave (Suc (Suc fuel)) md n w = (Inr (), w') \<and> sizes_ok md w' \<and>
    rescaled md w w' \<and>
    mods w' = (mods w)(md := with_waves ((mods w md)\<lparr>m_n_frames_per_wave := n, m_n_frames :=
      (if m_single_wave (mods w md) then n else m_n_frames (mods w md))\<rparr>))"
proof -
  let ?x = "mods w md"
  have "with_waves ?x = ?x" using ok by (simp add: sizes_ok_def Let_def)
  then have "with_waves (?x\<lparr>m_n_frames_per_wave := n\<rparr>) = ?x" if "m_n_frames_per_wave ?x = n"
    using that by (cases ?x) simp
  then obtain w1 where
    w1: "(if m_n_frames_per_wave ?x \<noteq> n then set_n_frames_per_wave_raw md n w else (Inr (), w)) =
        (Inr (), w1)"
      "sizes_ok md w1" "rescaled md w w1"
    and m1: "mods w1 = (mods w)(md := with_waves (?x\<lparr>m_n_frames_per_wave := n\<rparr>))"
    using set_n_frames_per_wave_raw_sizes [OF ok n] ok rescaled_refl [of md w]
    by (cases "m_n_frames_per_wave ?x = n") auto
  let ?b = "m_single_wave (mods w1 md) \<and> m_n_frames (mods w1 md) \<noteq> n"
  have idem: "with_waves (with_waves y\<lparr>m_n_frames := k\<rparr>) = with_waves (y\<lparr>m_n_frames := k\<rparr>)"
    for y k by (simp add: with_waves_def)
  have keep: "with_waves (?x\<lparr>m_n_frames_per_wave := n\<rparr>) =
      with_waves (?x\<lparr>m_n_frames_per_wave := n, m_n_frames := k\<rparr>)"
    if "k = m_n_frames ?x" for k using that by (cases ?x) (simp add: with_waves_def)
  have "\<exists>w'. (if ?b then set_n_frames_raw md n w1 else (Inr (), w1)) = (Inr (), w') \<and>
      sizes_ok md w' \<and> rescaled md w1 w' \<and>
      mods w' = (mods w)(md := with_waves (?x\<lparr>m_n_frames_per_wave := n, m_n_frames :=
        (if m_single_wave ?x then n else m_n_frames ?x)\<rparr>))"
  proof (cases ?b)
    case True
    with set_n_frames_raw_sizes [OF w1(2) n] m1 show ?thesis by (auto simp: idem)
  next
    case False
    have "with_waves (?x\<lparr>m_n_frames_per_wave := n\<rparr>) = with_waves (?x\<lparr>m_n_frames_per_wave := n,
        m_n_frames := (if m_single_wave ?x then n else m_n_frames ?x)\<rparr>)"
      using False m1 by (intro keep) simp
    with False w1(2) rescaled_refl [of md w1] m1 show ?thesis by simp
  qed
  with w1 rescaled_trans [OF w1(3)] show ?thesis unfolding set_n_frames_per_wave_unfold by auto
qed

lemma fuel_2: "2 \<le> fuel \<Longrightarrow> \<exists>k. fuel = Suc (Suc k)"
  by presburger

lemma set_single_wave_sizes:
  assumes ok: "sizes_ok md w"
  shows "\<exists>w'. set_single_wave md b w = (Inr (), w') \<and> sizes_ok md w' \<and>
    mods w' = (mods w)(md := with_waves ((mods w md)\<lparr>m_single_wave := b,
      m_n_frames_per_wave := m_n_frames (mods w md)\<rparr>)) \<and> rescaled md w w'"
proof -
  let ?x = "mods w md" and ?w1 = "upd_mod md (\<lambda>x. x\<lparr>m_single_wave := b\<rparr>) w"
  let ?n = "m_n_frames ?x"
  have n: "?n \<noteq> 0" and fix1: "with_waves ?x = ?x" using ok by (simp_all add: sizes_ok_def Let_def)
  have sl: "slots md ?w1 = slots md w" by (simp add: slots_def)
  have "?x\<lparr>m_single_wave := b\<rparr> = with_waves (?x\<lparr>m_single_wave := b\<rparr>)"
    using fix1 by (cases ?x) (simp add: with_waves_def)
  with ok have ok1: "sizes_ok md ?w1" by (auto simp: sizes_ok_def Let_def sl unlinked_def)
  have res1: "rescaled md w ?w1" by (auto simp: rescaled_def sl per_frame_def)
  from set_n_frames_sizes [OF ok1 n, of 0] obtain w2 where
    w2: "set_n_frames 2 md ?n ?w1 = (Inr (), w2)" "sizes_ok md w2" "rescaled md ?w1 w2"
    and m2: "mods w2 = (mods ?w1)(md := with_waves ((mods ?w1 md)\<lparr>m_n_frames := ?n,
      m_n_frames_per_wave := (if b then ?n else m_n_frames_per_wave ?x)\<rparr>))"
    by (auto simp: numeral_2_eq_2)
  have n2: "m_n_frames (mods w2 md) = ?n" by (simp add: m2)
  from set_n_frames_per_wave_sizes [OF w2(2) n, of 0] obtain w3 where
    w3: "set_n_frames_per_wave 2 md ?n w2 = (Inr (), w3)" "sizes_ok md w3" "rescaled md w2 w3"
    and m3: "mods w3 = (mods w2)(md := with_waves ((mods w2 md)\<lparr>m_n_frames_per_wave := ?n,
      m_n_frames := (if m_single_wave (mods w2 md) then ?n else m_n_frames (mods w2 md))\<rparr>))"
    by (auto simp: numeral_2_eq_2)
  have "set_single_wave md b w = (Inr (), w3)"
    using w2(1) w3(1) n2 by (simp add: set_single_wave_def Let_def)
  moreover have "mods w3 = (mods w)(md := with_waves (?x\<lparr>m_single_wave := b, m_n_frames_per_wave := ?n\<rparr>))"
    unfolding m3 by (simp add: m2 with_waves_def upd_mod_def)
  moreover have "rescaled md w w3" using res1 w2(3) w3(3) by (meson rescaled_trans)
  ultimately show ?thesis using w3(2) by blast
qed

section \<open>Properties of a module\<close>

text \<open>The module of the examples: one task with an input socket and its status.\<close>

definition module_example :: world where
  "module_example = upd_sck 1 (\<lambda>s. s\<lparr>s_name := status_name\<rparr>)
     (upd_mod 0 (\<lambda>x. x\<lparr>m_tasks := [0]\<rparr>)
       (upd_tsk 0 (\<lambda>x. x\<lparr>t_sockets := [0, 1]\<rparr>) (blank_world (\<lambda>i. if i = 0 then SIN else SOUT) 2)))"

lemma module_example_sizes: "sizes_ok 0 module_example"
proof -
  have "float_ceil_div 1 1 = 1" by (simp add: float_ceil_div_exact ceil_div_def)
  then show ?thesis
    by (simp add: sizes_ok_def Let_def slots_def module_example_def blank_defs status_name_def
        unlinked_def with_waves_def)
qed

text \<open>
  C16: \<^verbatim>\<open>Module::set_n_frames\<close> returns on a module whose sockets are not bound, with two nested calls at
  most. Afterwards every socket has the bytes and the rows per frame it had, the status sockets have one
  \<^verbatim>\<open>int\<close> per wave, the number of frames is the one asked for, and in single wave mode so is the number
  of frames per wave. The invariant of the sizes holds again.
\<close>

theorem set_n_frames_rescales_sockets:
  assumes "sizes_ok md w" and "0 < n" and "2 \<le> fuel"
  shows "\<exists>w'. set_n_frames fuel md n w = (Inr (), w') \<and> sizes_ok md w' \<and> rescaled md w w' \<and>
    m_n_frames (mods w' md) = n \<and> m_n_frames_per_wave (mods w' md) =
      (if m_single_wave (mods w md) then n else m_n_frames_per_wave (mods w md))"
proof -
  from fuel_2 [OF assms(3)] obtain k where "fuel = Suc (Suc k)" ..
  with set_n_frames_sizes [OF assms(1), of n k] assms(2) show ?thesis by fastforce
qed

theorem set_n_frames_rescales_sockets_witness:
  "\<exists>w'. set_n_frames 2 0 6 module_example = (Inr (), w') \<and> sizes_ok 0 w' \<and>
    rescaled 0 module_example w' \<and> m_n_frames (mods w' 0) = 6 \<and>
    m_n_frames_per_wave (mods w' 0) = (if m_single_wave (mods module_example 0) then 6
      else m_n_frames_per_wave (mods module_example 0))"
  by (rule set_n_frames_rescales_sockets) (simp_all add: module_example_sizes)

text \<open>
  Changing the number of frames and changing it mods_back gives every socket that is not a status the
  size it had, and the module the waves it had, outside of the single wave mode.
\<close>

theorem set_n_frames_roundtrip:
  assumes "sizes_ok md w" and "0 < n" and "\<not> m_single_wave (mods w md)"
  shows "\<exists>w1 w2. set_n_frames 2 md n w = (Inr (), w1) \<and>
    set_n_frames 2 md (m_n_frames (mods w md)) w1 = (Inr (), w2) \<and>
    mods w2 = mods w \<and>
    (\<forall>(t, i) \<in> set (slots md w). s_databytes (socks w2 i) = s_databytes (socks w i) \<and>
       (s_name (socks w i) \<noteq> status_name \<longrightarrow> s_n_rows (socks w2 i) = s_n_rows (socks w i)))"
proof -
  let ?x = "mods w md"
  have n0: "m_n_frames ?x \<noteq> 0" and fixed: "with_waves ?x = ?x"
    using assms(1) by (simp_all add: sizes_ok_def Let_def)
  from set_n_frames_sizes [OF assms(1), of n 0] assms(2,3) obtain w1 where
    w1: "set_n_frames 2 md n w = (Inr (), w1)" "sizes_ok md w1" "rescaled md w w1"
    and m1: "mods w1 = (mods w)(md := with_waves (?x\<lparr>m_n_frames := n,
      m_n_frames_per_wave := m_n_frames_per_wave ?x\<rparr>))"
    by (auto simp: numeral_2_eq_2)
  have "\<not> m_single_wave (mods w1 md)" using assms(3) by (simp add: m1)
  with set_n_frames_sizes [OF w1(2) n0, of 0] obtain w2 where
    w2: "set_n_frames 2 md (m_n_frames ?x) w1 = (Inr (), w2)" "sizes_ok md w2" "rescaled md w1 w2"
    and m2: "mods w2 = (mods w1)(md := with_waves ((mods w1 md)\<lparr>m_n_frames := m_n_frames ?x,
      m_n_frames_per_wave := m_n_frames_per_wave (mods w1 md)\<rparr>))"
    by (auto simp: numeral_2_eq_2)
  have "with_waves (with_waves (?x\<lparr>m_n_frames := n\<rparr>)\<lparr>m_n_frames := m_n_frames ?x\<rparr>) = with_waves ?x"
    by (cases ?x) (simp add: with_waves_def)
  then have mods_back: "mods w2 = mods w" unfolding m2 using fixed by (simp add: m1 with_waves_def)
  have res: "rescaled md w w2" using w1(3) w2(3) by (rule rescaled_trans)
  have "s_databytes (socks w2 i) = s_databytes (socks w i) \<and>
      (s_name (socks w i) \<noteq> status_name \<longrightarrow> s_n_rows (socks w2 i) = s_n_rows (socks w i))"
    if "(t, i) \<in> set (slots md w)" for t i
  proof -
    have "(t, i) \<in> set (slots md w2)" using that res by (simp add: rescaled_def)
    moreover have "s_name (socks w2 i) = s_name (socks w i)" "s_name (socks w i) \<noteq> status_name \<longrightarrow>
        per_frame md w2 i = per_frame md w i" using that res by (auto simp: rescaled_def)
    ultimately show ?thesis
      using that assms(1) w2(2) n0 unfolding sizes_ok_def Let_def
      by (fastforce simp: mods_back per_frame_def dvd_div_eq_iff split: if_splits)
  qed
  with w1(1) w2(1) mods_back show ?thesis by blast
qed

theorem set_n_frames_roundtrip_witness:
  "\<exists>w1 w2. set_n_frames 2 0 6 module_example = (Inr (), w1) \<and>
    set_n_frames 2 0 (m_n_frames (mods module_example 0)) w1 = (Inr (), w2) \<and>
    mods w2 = mods module_example \<and>
    (\<forall>(t, i) \<in> set (slots 0 module_example).
       s_databytes (socks w2 i) = s_databytes (socks module_example i) \<and>
       (s_name (socks module_example i) \<noteq> status_name \<longrightarrow>
         s_n_rows (socks w2 i) = s_n_rows (socks module_example i)))"
  by (rule set_n_frames_roundtrip)
    (simp_all add: module_example_sizes, simp add: module_example_def blank_defs)

text \<open>
  In the single wave mode the module has exactly one wave and no rest, whatever the number of frames
  (below \<open>2 ^ 24\<close>, where \<^verbatim>\<open>float\<close> is exact), and entering the mode keeps the size per frame.
\<close>

theorem single_wave_is_one_wave:
  assumes "sizes_ok md w" and "m_n_frames (mods w md) < 2 ^ 24"
  shows "\<exists>w'. set_single_wave md True w = (Inr (), w') \<and> sizes_ok md w' \<and> rescaled md w w' \<and>
    m_single_wave (mods w' md) \<and> m_n_waves (mods w' md) = 1 \<and> m_n_frames_per_wave_rest (mods w' md) = 0 \<and>
    m_n_frames (mods w' md) = m_n_frames (mods w md)"
proof -
  have n: "0 < m_n_frames (mods w md)" using assms(1) by (simp add: sizes_ok_def Let_def)
  then have "float_ceil_div (m_n_frames (mods w md)) (m_n_frames (mods w md)) = 1"
    using assms(2) ceil_div_unique [of "m_n_frames (mods w md)" "m_n_frames (mods w md)" 1]
    by (simp add: float_ceil_div_exact ceil_div_def)
  then have w: "m_n_waves (with_waves ((mods w md)\<lparr>m_single_wave := True,
      m_n_frames_per_wave := m_n_frames (mods w md)\<rparr>)) = 1" by simp
  from set_single_wave_sizes [OF assms(1), of True] obtain w' where
    w': "set_single_wave md True w = (Inr (), w')" "sizes_ok md w'" "rescaled md w w'"
    and m: "mods w' md = with_waves ((mods w md)\<lparr>m_single_wave := True,
      m_n_frames_per_wave := m_n_frames (mods w md)\<rparr>)" by auto
  from w' show ?thesis by (intro exI [of _ w']) (simp add: m w del: with_waves_sel(6))
qed

theorem single_wave_is_one_wave_witness:
  "\<exists>w'. set_single_wave 0 True module_example = (Inr (), w') \<and> sizes_ok 0 w' \<and>
    rescaled 0 module_example w' \<and> m_single_wave (mods w' 0) \<and> m_n_waves (mods w' 0) = 1 \<and>
    m_n_frames_per_wave_rest (mods w' 0) = 0 \<and> m_n_frames (mods w' 0) = m_n_frames (mods module_example 0)"
  by (rule single_wave_is_one_wave) (simp_all add: module_example_sizes, simp add: module_example_def blank_defs)

text \<open>
  C37: Below \<open>2 ^ 24\<close> frames the number of waves computed in \<^verbatim>\<open>float\<close> is the exact one: the waves hold all
  the frames, one wave less does not, and the rest is what the last wave holds when it is not full.
\<close>

theorem waves_hold_the_frames:
  assumes "0 < m_n_frames x" and "0 < m_n_frames_per_wave x" and "m_n_frames x < 2 ^ 24"
    and "m_n_frames_per_wave x < 2 ^ 24"
  shows "m_n_frames (with_waves x) \<le> m_n_waves (with_waves x) * m_n_frames_per_wave (with_waves x) \<and>
    (m_n_waves (with_waves x) - 1) * m_n_frames_per_wave (with_waves x) +
      (if m_n_frames_per_wave_rest (with_waves x) = 0 then m_n_frames_per_wave (with_waves x)
       else m_n_frames_per_wave_rest (with_waves x)) = m_n_frames (with_waves x)"
proof -
  let ?n = "m_n_frames x" and ?m = "m_n_frames_per_wave x"
  have w: "float_ceil_div ?n ?m = ceil_div ?n ?m" using assms by (intro float_ceil_div_exact) auto
  have c: "ceil_div ?n ?m = ?n div ?m + (if ?n mod ?m = 0 then 0 else 1)"
  proof (cases "?n mod ?m = 0")
    case True
    then obtain k where k: "?n = ?m * k" by (auto elim: dvdE simp: mod_eq_0_iff_dvd)
    then have "(k - 1) * ?m < ?n" using assms(1,2) by (cases k) auto
    with k assms(2) have "ceil_div ?n ?m = k" unfolding ceil_div_def
      by (intro ceil_div_unique) (simp_all add: mult.commute)
    with k assms(2) show ?thesis by simp
  next
    case False
    then have "?n < (?n div ?m + 1) * ?m" using assms(2) by (simp add: dividend_less_div_times)
    moreover have "?n div ?m * ?m < ?n" using False
      by (metis add.right_neutral div_mult_mod_eq less_add_same_cancel1 neq0_conv)
    ultimately have "ceil_div ?n ?m = ?n div ?m + 1" unfolding ceil_div_def
      using assms(2) by (intro ceil_div_unique) auto
    with False show ?thesis by simp
  qed
  have d: "?n div ?m * ?m + ?n mod ?m = ?n" by simp
  have pos: "?n mod ?m = 0 \<Longrightarrow> 0 < ?n div ?m" using assms(1,2)
    by (metis d add.right_neutral mult_zero_left neq0_conv)
  have last: "(?n div ?m - 1) * ?m + ?m = ?n" if "?n mod ?m = 0"
    using pos [OF that] d that by (cases "?n div ?m") auto
  show ?thesis using assms ceil_div_bounds(1) [of ?m ?n] last d by (auto simp: w c)
qed

theorem waves_hold_the_frames_witness:
  "m_n_frames (with_waves (blank_module\<lparr>m_n_frames := 7, m_n_frames_per_wave := 3\<rparr>)) \<le>
     m_n_waves (with_waves (blank_module\<lparr>m_n_frames := 7, m_n_frames_per_wave := 3\<rparr>)) *
     m_n_frames_per_wave (with_waves (blank_module\<lparr>m_n_frames := 7, m_n_frames_per_wave := 3\<rparr>)) \<and>
   (m_n_waves (with_waves (blank_module\<lparr>m_n_frames := 7, m_n_frames_per_wave := 3\<rparr>)) - 1) *
     m_n_frames_per_wave (with_waves (blank_module\<lparr>m_n_frames := 7, m_n_frames_per_wave := 3\<rparr>)) +
     (if m_n_frames_per_wave_rest (with_waves (blank_module\<lparr>m_n_frames := 7, m_n_frames_per_wave := 3\<rparr>)) = 0
      then m_n_frames_per_wave (with_waves (blank_module\<lparr>m_n_frames := 7, m_n_frames_per_wave := 3\<rparr>))
      else m_n_frames_per_wave_rest (with_waves (blank_module\<lparr>m_n_frames := 7, m_n_frames_per_wave := 3\<rparr>))) =
   m_n_frames (with_waves (blank_module\<lparr>m_n_frames := 7, m_n_frames_per_wave := 3\<rparr>))"
  by (rule waves_hold_the_frames) simp_all

text \<open>
  The bound is sharp: with \<open>2 ^ 24 + 1\<close> frames of one frame per wave the \<^verbatim>\<open>float\<close> division rounds
  and the module has one wave less than it has frames.
\<close>

theorem float_waves_lose_a_frame:
  "m_n_waves (with_waves (new_module\<lparr>m_n_frames := 2 ^ 24 + 1\<rparr>)) *
   m_n_frames_per_wave (with_waves (new_module\<lparr>m_n_frames := 2 ^ 24 + 1\<rparr>)) <
   m_n_frames (with_waves (new_module\<lparr>m_n_frames := 2 ^ 24 + 1\<rparr>))"
  using float_ceil_div_large by (simp add: new_module_def)

end
