(* ===== verification/Tools_Math.thy ===== *)
theory Tools_Math
  imports Runtime_State
begin

unbundle bit_operations_syntax

text \<open>
  The integer functions of \<^verbatim>\<open>include/Tools/Math/utils.h\<close>, \<^verbatim>\<open>include/Tools/Math/utils.hxx\<close>,
  \<^verbatim>\<open>src/Tools/Math/utils.cpp\<close> and \<^verbatim>\<open>src/Tools/compute_bytes.cpp\<close>. A loop that may run for ever is a
  partial function: not returning is \<open>None\<close>.
\<close>

section \<open>Multiples and divisors\<close>

partial_function (option) scm_loop :: "nat \<Rightarrow> nat \<Rightarrow> nat \<Rightarrow> nat \<Rightarrow> nat option" where
  "scm_loop a b a2 b2 =
     (if a2 = b2 then Some a2
      else if a2 > b2 then scm_loop a b a2 (b2 + b) else scm_loop a b (a2 + a) b2)"

declare scm_loop.simps [code]

definition find_smallest_common_multiple :: "nat \<Rightarrow> nat \<Rightarrow> (exn + nat) option" where
  "find_smallest_common_multiple a b =
     (if a = 0 \<or> b = 0 then Some (Inl Invalid_argument) else map_option Inr (scm_loop a b a b))"

fun gcd_loop :: "nat \<Rightarrow> nat \<Rightarrow> nat" where
  "gcd_loop a b = (if b = 0 \<or> a mod b = 0 then b else gcd_loop b (a mod b))"

declare gcd_loop.simps [simp del]

definition greatest_common_divisor :: "nat \<Rightarrow> nat \<Rightarrow> nat" where
  "greatest_common_divisor a b = (if b = 0 then 1 else gcd_loop a b)"

definition least_common_multiple :: "nat \<Rightarrow> nat \<Rightarrow> nat" where
  "least_common_multiple a b = (a * b) div greatest_common_divisor a b"

lemma dvd_next: "(b::nat) dvd x \<Longrightarrow> b dvd y \<Longrightarrow> x < y \<Longrightarrow> x + b \<le> y"
proof -
  assume "b dvd x" and "b dvd y" and "x < y"
  then obtain k l where "x = b * k" "y = b * l" unfolding dvd_def by blast
  with \<open>x < y\<close> have "Suc k \<le> l" by (cases "b = 0") auto
  then have "b * Suc k \<le> b * l" by (rule mult_le_mono2)
  with \<open>x = b * k\<close> \<open>y = b * l\<close> show ?thesis by simp
qed

lemma scm_loop_lcm:
  assumes "0 < a" and "0 < b" and "a dvd a2" and "b dvd b2" and "0 < a2"
    and "a2 \<le> lcm a b" and "b2 \<le> lcm a b"
  shows "scm_loop a b a2 b2 = Some (lcm a b)"
  using assms
proof (induction "2 * lcm a b - (a2 + b2)" arbitrary: a2 b2 rule: less_induct)
  case less
  show ?case
  proof (cases "a2 = b2")
    case True
    then have "lcm a b dvd a2" using less.prems by simp
    then have "lcm a b \<le> a2" using less.prems by (intro dvd_imp_le)
    with True less.prems show ?thesis by (subst scm_loop.simps) simp
  next
    case ne: False
    show ?thesis
    proof (cases "a2 > b2")
      case True
      then have "b2 + b \<le> lcm a b" using less.prems by (intro dvd_next) auto
      with True less.hyps [of a2 "b2 + b"] less.prems have "scm_loop a b a2 (b2 + b) = Some (lcm a b)" by simp
      with True ne show ?thesis by (subst scm_loop.simps) simp
    next
      case False
      then have "a2 + a \<le> lcm a b" using ne less.prems by (intro dvd_next) auto
      with False ne less.hyps [of "a2 + a" b2] less.prems have "scm_loop a b (a2 + a) b2 = Some (lcm a b)" by simp
      with False ne show ?thesis by (subst scm_loop.simps) simp
    qed
  qed
qed

lemma find_scm: "0 < a \<Longrightarrow> 0 < b \<Longrightarrow> find_smallest_common_multiple a b = Some (Inr (lcm a b))"
  using dvd_imp_le [OF dvd_lcm1 [of a b]] dvd_imp_le [OF dvd_lcm2 [of b a]]
  by (simp add: find_smallest_common_multiple_def scm_loop_lcm lcm_pos_nat)

lemma gcd_loop_gcd: "0 < b \<Longrightarrow> gcd_loop a b = gcd a b"
proof (induction a b rule: gcd_loop.induct)
  case (1 a b)
  then show ?case
    by (subst gcd_loop.simps) (auto simp: gcd.commute [of b] gcd_red_nat [symmetric] dvd_imp_mod_0
        mod_eq_0_iff_dvd gcd_nat.absorb2)
qed

section \<open>Sizes\<close>

definition compute_bytes :: "nat \<Rightarrow> type_index \<Rightarrow> exn + nat" where
  "compute_bytes n_elmts T =
     (case T of T_other _ \<Rightarrow> Inl Runtime_error | _ \<Rightarrow> Inr (n_elmts * type_to_size T))"

fun compute_bytes_all :: "nat list \<Rightarrow> type_index list \<Rightarrow> exn + nat list" where
  "compute_bytes_all [] [] = Inr []"
| "compute_bytes_all (n # ns) (T # Ts) =
     (if length ns \<noteq> length Ts then Inl Invalid_argument
      else case compute_bytes n T of
        Inl e \<Rightarrow> Inl e
      | Inr b \<Rightarrow> (case compute_bytes_all ns Ts of Inl e \<Rightarrow> Inl e | Inr bs \<Rightarrow> Inr (b # bs)))"
| "compute_bytes_all _ _ = Inl Invalid_argument"

section \<open>Words and saturation\<close>

definition div2 :: "'a::len word \<Rightarrow> 'a word" where
  "div2 v = signed_drop_bit 1 v"

definition div4 :: "'a::len word \<Rightarrow> 'a word" where
  "div4 v = signed_drop_bit 2 v"

definition div8 :: "'a::len word \<Rightarrow> 'a word" where
  "div8 v = signed_drop_bit 3 v"

definition bit_init :: "'a::len word" where
  "bit_init = push_bit (LENGTH('a) - 1) 1"

definition saturate :: "int \<Rightarrow> int \<Rightarrow> int \<Rightarrow> int" where
  "saturate v lo hi = min (max v lo) hi"

definition saturate_all :: "int list \<Rightarrow> int \<Rightarrow> int \<Rightarrow> int list" where
  "saturate_all vs lo hi = map (\<lambda>v. saturate v lo hi) vs"

definition sgn_of :: "int \<Rightarrow> int" where
  "sgn_of v = (if 0 < v then 1 else 0) - (if v < 0 then 1 else 0)"

definition is_power_of_2 :: "'a::len word \<Rightarrow> bool" where
  "is_power_of_2 x \<longleftrightarrow> x > 0 \<and> (x AND (x - 1)) = 0"

partial_function (option) np2_loop :: "'a::len word \<Rightarrow> 'a word \<Rightarrow> 'a word option" where
  "np2_loop x n = (if n \<le> x then np2_loop x (push_bit 1 n) else Some n)"

definition next_power_of_2 :: "'a::len word \<Rightarrow> 'a word option" where
  "next_power_of_2 x = np2_loop x 1"

partial_function (option) power_loop :: "nat \<Rightarrow> nat \<Rightarrow> nat \<Rightarrow> nat option" where
  "power_loop x y p = (if p < y then power_loop x y (p * x) else Some p)"

definition is_power :: "nat \<Rightarrow> nat \<Rightarrow> bool option" where
  "is_power x y = (if x = 1 then Some (y = 1) else map_option (\<lambda>p. p = y) (power_loop x y 1))"

lemma np2_loop_returns:
  fixes x :: "'a::len word"
  assumes "unat x < 2 ^ (LENGTH('a) - 1)" and "j < LENGTH('a)" and "\<And>i. i < j \<Longrightarrow> 2 ^ i \<le> unat x"
  shows "\<exists>k < LENGTH('a). np2_loop x (2 ^ j) = Some (2 ^ k) \<and> unat x < 2 ^ k \<and> (\<forall>i < k. 2 ^ i \<le> unat x)"
  using assms(2,3)
proof (induction "LENGTH('a) - j" arbitrary: j rule: less_induct)
  case less
  have u: "unat (2 ^ j :: 'a word) = 2 ^ j"
    using less.prems(1) by (intro of_nat_inverse) simp_all
  show ?case
  proof (cases "2 ^ j \<le> unat x")
    case True
    with assms(1) have "(2::nat) ^ j < 2 ^ (LENGTH('a) - 1)" by linarith
    then have j: "Suc j < LENGTH('a)" using less.prems(1) by simp
    have "2 ^ i \<le> unat x" if "i < Suc j" for i using that less.prems(2) True by (cases "i = j") auto
    moreover have "LENGTH('a) - Suc j < LENGTH('a) - j" using less.prems(1) by simp
    ultimately obtain k where
      "k < LENGTH('a)" "np2_loop x (2 ^ Suc j) = Some (2 ^ k)" "unat x < 2 ^ k" "\<forall>i < k. 2 ^ i \<le> unat x"
      using less.hyps [of "Suc j"] j by blast
    moreover have "2 ^ j \<le> x" using True u by (simp add: word_le_nat_alt)
    moreover have "push_bit 1 (2 ^ j) = (2 ^ Suc j :: 'a word)" by (simp add: push_bit_eq_mult)
    ultimately show ?thesis by (intro exI [of _ k]) (subst np2_loop.simps, simp add: mult.commute)
  next
    case False
    then have "\<not> 2 ^ j \<le> x" using u by (simp add: word_le_nat_alt)
    with False less.prems show ?thesis by (intro exI [of _ j]) (subst np2_loop.simps, simp)
  qed
qed

lemma np2_loop_never:
  fixes x :: "'a::len word"
  assumes "np2_loop x n = Some y"
  shows "2 ^ (LENGTH('a) - 1) \<le> unat x \<longrightarrow> (\<exists>i. n = 2 ^ i) \<longrightarrow> False"
proof -
  let ?P = "\<lambda>x n (y::'a word). 2 ^ (LENGTH('a) - 1) \<le> unat x \<longrightarrow> (\<exists>i. n = 2 ^ i) \<longrightarrow> False"
  have "(case (x, n) of (x, n) \<Rightarrow> ?P x n) y"
  proof (rule np2_loop.raw_induct)
    show "(case (x, n) of (x, n) \<Rightarrow> np2_loop x n) = Some y" using assms by simp
  next
    fix f and x n y :: "'a word"
    assume f: "\<And>x n y. f x n = Some y \<Longrightarrow> ?P x n y"
      and r: "(if n \<le> x then f x (push_bit 1 n) else Some n) = Some y"
    show "?P x n y"
    proof (intro impI, elim exE)
      fix i
      assume x: "2 ^ (LENGTH('a) - 1) \<le> unat x" and n: "n = 2 ^ i"
      have "unat n \<le> 2 ^ (LENGTH('a) - 1)"
      proof (cases "i < LENGTH('a)")
        case True
        then have "unat n = 2 ^ i" unfolding n by (intro of_nat_inverse) simp_all
        with True show ?thesis by simp
      next
        case False
        then have "n = 0" unfolding n by simp
        then show ?thesis by simp
      qed
      with x have "n \<le> x" by (simp add: word_le_nat_alt)
      moreover have "push_bit 1 n = 2 ^ Suc i" by (simp add: n push_bit_eq_mult mult.commute)
      ultimately have "f x (2 ^ Suc i) = Some y" using r by simp
      from f [OF this] x show False by blast
    qed
  qed
  then show ?thesis by simp
qed

lemma np2_loop_diverges:
  fixes x :: "'a::len word"
  assumes "2 ^ (LENGTH('a) - 1) \<le> unat x"
  shows "np2_loop x (2 ^ j) = None"
  using np2_loop_never [of x "2 ^ j"] assms by fastforce

lemma greatest_common_divisor_gcd: "greatest_common_divisor a b = (if b = 0 then 1 else gcd a b)"
  by (simp add: greatest_common_divisor_def gcd_loop_gcd)

section \<open>Properties\<close>


text \<open>
  C40: On an unsigned type of \<open>w\<close> bits \<^verbatim>\<open>next_power_of_2\<close> returns the smallest power of 2 above its
  argument when the argument is below \<open>2 ^ (w - 1)\<close>, and never returns otherwise: the power overflows to
  0, which is not above anything.
\<close>

theorem next_power_of_2_returns_iff:
  fixes x :: "'a::len word"
  shows "next_power_of_2 x = None \<and> 2 ^ (LENGTH('a) - 1) \<le> unat x \<or>
    (\<exists>k < LENGTH('a). next_power_of_2 x = Some (2 ^ k) \<and> unat x < 2 ^ k \<and> (\<forall>i < k. 2 ^ i \<le> unat x))"
proof (cases "2 ^ (LENGTH('a) - 1) \<le> unat x")
  case True
  with np2_loop_diverges [of x 0] show ?thesis by (simp add: next_power_of_2_def)
next
  case False
  with np2_loop_returns [of x 0] show ?thesis by (simp add: next_power_of_2_def)
qed

theorem next_power_of_2_returns_iff_witness: "\<exists>k < 8. next_power_of_2 (100 :: 8 word) = Some (2 ^ k)"
  using next_power_of_2_returns_iff [of "100 :: 8 word"] by auto

end
