(* ===== verification/Adaptor.thy ===== *)
theory Adaptor
  imports Tools_Math
begin

text \<open>
  \<^verbatim>\<open>module::Adaptor_m_to_n\<close> (\<^verbatim>\<open>Adaptor_m_to_n.hxx\<close>, \<^verbatim>\<open>Adaptor_m_to_n.cpp\<close>): the synchronisation between
  two stages of a pipeline. \<open>m\<close> pushers and \<open>n\<close> pullers share a table of rings of \<open>buffer_size\<close> slots.

  The members behind a \<^verbatim>\<open>std::shared_ptr\<close> that all the clones share are the record \<open>shared\<close>, the others
  the record \<open>inst\<close>: an operation takes and returns both. \<^verbatim>\<open>waiting_canceled\<close> is in \<open>inst\<close>: \<^verbatim>\<open>deep_copy\<close>
  gives each clone its own. A buffer is a block; a copy of a whole buffer is the copy of its content,
  which has \<^verbatim>\<open>n_frames * n_bytes[s]\<close> bytes. The condition variables only make a waiter check again, so
  a wait is \<open>None\<close> as long as its condition holds, whether it is active or passive.
\<close>

section \<open>State\<close>

record shared =
  a_buffer :: "nat list list list"
  a_first :: "nat \<Rightarrow> nat"
  a_last :: "nat \<Rightarrow> nat"
  a_counter :: "nat \<Rightarrow> nat"
  a_n_pushers :: nat
  a_n_pullers :: nat
  a_n_clones :: nat
  a_allocated :: bool
  a_size :: nat
  a_n_bytes :: "nat list"
  a_data :: "nat \<Rightarrow> byte list"
  a_next :: nat

record inst =
  i_tid_push :: int
  i_tid_pull :: int
  i_cur_push :: nat
  i_cur_pull :: nat
  i_cloned :: bool
  i_canceled :: bool
  i_no_copy_push :: bool
  i_no_copy_pull :: bool
  i_n_frames :: nat
  i_to_free :: "nat list"

type_synonym 'a adp = "(shared \<times> inst, 'a) outcome"

section \<open>Construction and cloning\<close>

definition n_sockets :: "shared \<Rightarrow> nat" where
  "n_sockets sh = length (a_n_bytes sh)"

definition new_adaptor :: "nat list \<Rightarrow> type_index list \<Rightarrow> nat \<Rightarrow> exn + (shared \<times> inst)" where
  "new_adaptor n_elmts datatype buffer_size =
     (case compute_bytes_all n_elmts datatype of
        Inl e \<Rightarrow> Inl e
      | Inr n_bytes \<Rightarrow>
          if buffer_size = 0 then Inl Invalid_argument
          else if n_elmts = [] then Inl Invalid_argument
          else if 0 \<in> set n_elmts then Inl Invalid_argument
          else Inr
            (\<lparr>a_buffer = [replicate (length n_elmts) (replicate buffer_size 0)], a_first = (\<lambda>_. 0),
              a_last = (\<lambda>_. 0), a_counter = (\<lambda>_. 0), a_n_pushers = 1, a_n_pullers = 1, a_n_clones = 0,
              a_allocated = False, a_size = buffer_size, a_n_bytes = n_bytes, a_data = (\<lambda>_. []),
              a_next = 1\<rparr>,
             \<lparr>i_tid_push = 0, i_tid_pull = 0, i_cur_push = 0, i_cur_pull = 0, i_cloned = False,
              i_canceled = False, i_no_copy_push = False, i_no_copy_pull = False, i_n_frames = 1,
              i_to_free = []\<rparr>))"

text \<open>\<^verbatim>\<open>clone\<close> copies the object, \<^verbatim>\<open>deep_copy\<close> then makes it a clone.\<close>

definition clone_adaptor :: "shared \<times> inst \<Rightarrow> (shared \<times> inst, inst) outcome" where
  "clone_adaptor s = (case s of (sh, i) \<Rightarrow>
     if a_allocated sh then (Inl Runtime_error, s)
     else (Inr (i\<lparr>i_cloned := True, i_tid_push := -1, i_tid_pull := -1, i_cur_push := size_cast (-1),
             i_cur_pull := size_cast (-1)\<rparr>),
           (sh\<lparr>a_n_clones := a_n_clones sh + 1\<rparr>, i)))"

text \<open>\<open>n_pushers\<close> and \<open>n_pullers\<close> start at 1, so the subtractions of the check do not wrap.\<close>

definition add_pusher :: "shared \<times> inst \<Rightarrow> unit adp" where
  "add_pusher s = (case s of (sh, i) \<Rightarrow>
     if a_n_pushers sh - 1 + a_n_pullers sh - 1 \<ge> a_n_clones sh then (Inl Runtime_error, s)
     else (Inr (), (sh\<lparr>a_n_pushers := a_n_pushers sh + 1\<rparr>,
       i\<lparr>i_tid_push := int (a_n_pushers sh), i_cur_push := a_n_pushers sh\<rparr>)))"

definition add_puller :: "shared \<times> inst \<Rightarrow> unit adp" where
  "add_puller s = (case s of (sh, i) \<Rightarrow>
     if a_n_pushers sh - 1 + a_n_pullers sh - 1 \<ge> a_n_clones sh then (Inl Runtime_error, s)
     else (Inr (), (sh\<lparr>a_n_pullers := a_n_pullers sh + 1\<rparr>,
       i\<lparr>i_tid_pull := int (a_n_pullers sh), i_cur_pull := a_n_pullers sh\<rparr>)))"

text \<open>
  \<^verbatim>\<open>alloc_buffers\<close>: the blocks are numbered from \<open>a_next\<close> on, ring by ring, socket by socket, slot by
  slot, and \<^verbatim>\<open>buffer_to_free\<close> lists them in this order. Not returning (a multiple that is never found)
  is \<open>UB\<close>; it does not happen on positive counts.
\<close>

definition block_of :: "nat \<Rightarrow> nat \<Rightarrow> nat \<Rightarrow> nat \<Rightarrow> nat \<Rightarrow> nat \<Rightarrow> nat" where
  "block_of base n_sck sz d s b = base + (d * n_sck + s) * sz + b"

definition alloc_buffers :: "shared \<times> inst \<Rightarrow> unit adp" where
  "alloc_buffers st = (case st of (sh, i) \<Rightarrow>
     if a_allocated sh then (Inl Runtime_error, st)
     else if i_cloned i then (Inl Runtime_error, st)
     else case find_smallest_common_multiple (a_n_pushers sh) (a_n_pullers sh) of
       None \<Rightarrow> (Inl UB, st)
     | Some (Inl e) \<Rightarrow> (Inl e, st)
     | Some (Inr ppcm) \<Rightarrow>
         if ppcm > 1000 then (Inl Invalid_argument, st)
         else if i_to_free i \<noteq> [] then (Inl Runtime_error, st)
         else (let n = n_sockets sh; sz = a_size sh; total = ppcm * n * sz; base = a_next sh in
           (Inr (), (sh\<lparr>
             a_buffer := map (\<lambda>d. map (\<lambda>s. map (\<lambda>b. block_of base n sz d s b) [0..<sz]) [0..<n]) [0..<ppcm],
             a_data := (\<lambda>k. if base \<le> k \<and> k < base + total
                then replicate (i_n_frames i * a_n_bytes sh ! ((k - base) div sz mod n)) 0
                else a_data sh k),
             a_next := base + total,
             a_first := (\<lambda>d. if d < ppcm then 0 else a_first sh d),
             a_last := (\<lambda>d. if d < ppcm then 0 else a_last sh d),
             a_counter := (\<lambda>d. if d < ppcm then sz mod 2 ^ 32 else a_counter sh d),
             a_allocated := True\<rparr>,
             i\<lparr>i_to_free := [base..<base + total]\<rparr>))))"

section \<open>Waiting, pushing and pulling\<close>

definition is_full :: "shared \<Rightarrow> nat \<Rightarrow> bool" where
  "is_full sh r \<longleftrightarrow> a_counter sh r = 0"

definition is_empty :: "shared \<Rightarrow> nat \<Rightarrow> bool" where
  "is_empty sh r \<longleftrightarrow> a_counter sh r = a_size sh"

definition n_fill_slots :: "shared \<Rightarrow> nat \<Rightarrow> nat" where
  "n_fill_slots sh r = a_size sh - a_counter sh r"

definition n_free_slots :: "shared \<Rightarrow> nat \<Rightarrow> nat" where
  "n_free_slots sh r = a_counter sh r"

text \<open>\<open>None\<close>: the caller still waits.\<close>

definition wait_push :: "shared \<Rightarrow> inst \<Rightarrow> (exn + unit) option" where
  "wait_push sh i =
     (if i_tid_push i < 0 then Some (Inl Runtime_error)
      else if is_full sh (i_cur_push i) \<and> \<not> i_canceled i then None
      else if i_canceled i then Some (Inl Waiting_canceled) else Some (Inr ()))"

definition wait_pull :: "shared \<Rightarrow> inst \<Rightarrow> (exn + unit) option" where
  "wait_pull sh i =
     (if i_tid_pull i < 0 then Some (Inl Runtime_error)
      else if is_empty sh (i_cur_pull i) \<and> \<not> i_canceled i then None
      else if is_empty sh (i_cur_pull i) \<and> i_canceled i then Some (Inl Waiting_canceled) else Some (Inr ()))"

definition get_empty_buffer :: "shared \<Rightarrow> inst \<Rightarrow> nat \<Rightarrow> exn + nat" where
  "get_empty_buffer sh i s =
     (if \<not> a_allocated sh then Inl Runtime_error
      else Inr (a_buffer sh ! i_cur_push i ! s ! a_last sh (i_cur_push i)))"

definition get_filled_buffer :: "shared \<Rightarrow> inst \<Rightarrow> nat \<Rightarrow> exn + nat" where
  "get_filled_buffer sh i s =
     (if \<not> a_allocated sh then Inl Runtime_error
      else Inr (a_buffer sh ! i_cur_pull i ! s ! a_first sh (i_cur_pull i)))"

text \<open>The no copy mode exchanges the block of the slot with the one of the caller.\<close>

definition put_slot :: "nat \<Rightarrow> nat \<Rightarrow> nat \<Rightarrow> nat \<Rightarrow> shared \<Rightarrow> shared" where
  "put_slot r s k b sh = sh\<lparr>a_buffer := (a_buffer sh)[r := (a_buffer sh ! r)[s := (a_buffer sh ! r ! s)[k := b]]]\<rparr>"

definition swap_empty_buffer :: "nat \<Rightarrow> nat \<Rightarrow> shared \<times> inst \<Rightarrow> nat adp" where
  "swap_empty_buffer s b st = (case st of (sh, i) \<Rightarrow>
     case get_empty_buffer sh i s of Inl e \<Rightarrow> (Inl e, st)
     | Inr old \<Rightarrow> (Inr old, (put_slot (i_cur_push i) s (a_last sh (i_cur_push i)) b sh, i)))"

definition swap_filled_buffer :: "nat \<Rightarrow> nat \<Rightarrow> shared \<times> inst \<Rightarrow> nat adp" where
  "swap_filled_buffer s b st = (case st of (sh, i) \<Rightarrow>
     case get_filled_buffer sh i s of Inl e \<Rightarrow> (Inl e, st)
     | Inr old \<Rightarrow> (Inr old, (put_slot (i_cur_pull i) s (a_first sh (i_cur_pull i)) b sh, i)))"

text \<open>
  \<^verbatim>\<open>wake_up_puller\<close> and \<^verbatim>\<open>wake_up_pusher\<close>: the ring advances, the counter changes (32 bits), and the
  caller goes on to its next ring.
\<close>

definition wake_up_puller :: "shared \<times> inst \<Rightarrow> shared \<times> inst" where
  "wake_up_puller st = (case st of (sh, i) \<Rightarrow> let r = i_cur_push i in
     (sh\<lparr>a_last := (a_last sh)(r := ((a_last sh r + 1) mod 2 ^ 32) mod a_size sh),
         a_counter := (a_counter sh)(r := (a_counter sh r + 2 ^ 32 - 1) mod 2 ^ 32)\<rparr>,
      i\<lparr>i_cur_push := (r + a_n_pushers sh) mod length (a_buffer sh)\<rparr>))"

definition wake_up_pusher :: "shared \<times> inst \<Rightarrow> shared \<times> inst" where
  "wake_up_pusher st = (case st of (sh, i) \<Rightarrow> let r = i_cur_pull i in
     (sh\<lparr>a_first := (a_first sh)(r := ((a_first sh r + 1) mod 2 ^ 32) mod a_size sh),
         a_counter := (a_counter sh)(r := (a_counter sh r + 1) mod 2 ^ 32)\<rparr>,
      i\<lparr>i_cur_pull := (r + a_n_pullers sh) mod length (a_buffer sh)\<rparr>))"

definition copy_push :: "byte list list \<Rightarrow> nat \<Rightarrow> shared \<times> inst \<Rightarrow> unit adp" where
  "copy_push ins s st = (case st of (sh, i) \<Rightarrow>
     case get_empty_buffer sh i s of Inl e \<Rightarrow> (Inl e, st)
     | Inr b \<Rightarrow> (Inr (), (sh\<lparr>a_data := (a_data sh)(b := ins ! s)\<rparr>, i)))"

definition push :: "byte list list \<Rightarrow> shared \<times> inst \<Rightarrow> unit adp option" where
  "push ins st = (case wait_push (fst st) (snd st) of
     None \<Rightarrow> None
   | Some (Inl e) \<Rightarrow> Some (Inl e, st)
   | Some (Inr _) \<Rightarrow> Some (bindo (foreach (copy_push ins) [0..<n_sockets (fst st)] st)
       (\<lambda>_ st1. (Inr (), wake_up_puller st1))))"

fun copy_pull :: "nat list \<Rightarrow> shared \<times> inst \<Rightarrow> exn + byte list list" where
  "copy_pull [] st = Inr []"
| "copy_pull (s # ss) st = (case st of (sh, i) \<Rightarrow>
     case get_filled_buffer sh i s of Inl e \<Rightarrow> Inl e
     | Inr b \<Rightarrow> (case copy_pull ss st of Inl e \<Rightarrow> Inl e | Inr fs \<Rightarrow> Inr (a_data sh b # fs)))"

definition pull :: "shared \<times> inst \<Rightarrow> byte list list adp option" where
  "pull st = (case wait_pull (fst st) (snd st) of
     None \<Rightarrow> None
   | Some (Inl e) \<Rightarrow> Some (Inl e, st)
   | Some (Inr _) \<Rightarrow> (case copy_pull [0..<n_sockets (fst st)] st of
        Inl e \<Rightarrow> Some (Inl e, st)
      | Inr fs \<Rightarrow> Some (Inr fs, wake_up_pusher st)))"

section \<open>Cancelling, resetting, resizing\<close>

definition cancel_waiting :: "inst \<Rightarrow> inst" where
  "cancel_waiting i = i\<lparr>i_canceled := True\<rparr>"

definition set_no_copy_push :: "bool \<Rightarrow> inst \<Rightarrow> inst" where
  "set_no_copy_push b i = i\<lparr>i_no_copy_push := b\<rparr>"

definition set_no_copy_pull :: "bool \<Rightarrow> inst \<Rightarrow> inst" where
  "set_no_copy_pull b i = i\<lparr>i_no_copy_pull := b\<rparr>"

definition reset_buffer :: "shared \<times> inst \<Rightarrow> shared \<times> inst" where
  "reset_buffer st = (case st of (sh, i) \<Rightarrow>
     if \<not> i_cloned i \<and> a_allocated sh
     then (sh\<lparr>a_buffer := map (\<lambda>d. map (\<lambda>s. map (\<lambda>b. i_to_free i ! block_of 0 (n_sockets sh) (a_size sh) d s b)
             [0..<a_size sh]) [0..<n_sockets sh]) [0..<length (a_buffer sh)]\<rparr>, i)
     else st)"

definition reset_adaptor :: "shared \<times> inst \<Rightarrow> shared \<times> inst" where
  "reset_adaptor st = (case st of (sh, i) \<Rightarrow>
     let (sh1, i1) =
       (if \<not> i_cloned i
        then (let in_table = (\<lambda>d. d < length (a_buffer sh)) in
          (sh\<lparr>a_first := (\<lambda>d. if in_table d then 0 else a_first sh d),
              a_last := (\<lambda>d. if in_table d then 0 else a_last sh d),
              a_counter := (\<lambda>d. if in_table d then a_size sh mod 2 ^ 32 else a_counter sh d)\<rparr>,
           i\<lparr>i_canceled := False\<rparr>))
        else (sh, i))
     in reset_buffer (sh1, i1\<lparr>i_cur_push := size_cast (i_tid_push i1), i_cur_pull := size_cast (i_tid_pull i1)\<rparr>))"

text \<open>
  \<^verbatim>\<open>set_n_frames\<close> replaces every block of the table by a new one, which it finds in \<^verbatim>\<open>buffer_to_free\<close>;
  the part that resizes the sockets is the one of \<open>Module_Ops\<close>.
\<close>

fun replace_slot :: "nat \<Rightarrow> nat \<times> nat \<times> nat \<Rightarrow> shared \<times> inst \<Rightarrow> unit adp" where
  "replace_slot n_frames (d, s, b) (sh, i) =
     (let old = a_buffer sh ! d ! s ! b; new = a_next sh;
          sh1 = put_slot d s b new (sh\<lparr>a_next := Suc new,
            a_data := (a_data sh)(new := replicate (a_n_bytes sh ! s * n_frames) 0)\<rparr>)
      in case find_pos old (i_to_free i) of
           None \<Rightarrow> (Inl Runtime_error, (sh1, i))
         | Some k \<Rightarrow> (Inr (), (sh1, i\<lparr>i_to_free := (i_to_free i)[k := new]\<rparr>)))"

definition table_slots :: "nat list list list \<Rightarrow> (nat \<times> nat \<times> nat) list" where
  "table_slots buf = concat (map (\<lambda>d. concat (map (\<lambda>s. map (\<lambda>b. (d, s, b)) [0..<length (buf ! d ! s)])
     [0..<length (buf ! d)])) [0..<length buf])"

definition set_n_frames_adaptor :: "nat \<Rightarrow> shared \<times> inst \<Rightarrow> unit adp" where
  "set_n_frames_adaptor n_frames st = (case st of (sh, i) \<Rightarrow>
     if i_n_frames i = n_frames then (Inr (), st)
     else if n_frames = 0 then (Inl Invalid_argument, st)
     else let i1 = i\<lparr>i_n_frames := n_frames\<rparr> in
       if \<not> i_cloned i \<and> a_allocated sh
       then foreach (replace_slot n_frames) (table_slots (a_buffer sh)) (sh, i1)
       else (Inr (), (sh, i1)))"

end
