(* ===== verification/Adaptor_Net.thy ===== *)
theory Adaptor_Net
  imports Adaptor
begin

text \<open>
  The adaptor in use: \<open>m\<close> pusher threads and \<open>n\<close> puller threads run on the same shared tables, in any
  interleaving. A thread waits, copies its sockets one after the other and advances its ring; each of
  these is one step, made of the functions of \<open>Adaptor\<close> (\<^verbatim>\<open>last\<close>, \<^verbatim>\<open>cur_push_id\<close> are only touched by the
  pusher of the ring and \<^verbatim>\<open>first\<close>, \<^verbatim>\<open>cur_pull_id\<close> by its puller, so the advance is one step). The frames
  are numbered in the order of the pipeline: the pusher \<open>p\<close> sends the frames \<open>p, p + m, p + 2 * m, ...\<close>.
\<close>

section \<open>Round robin on the rings\<close>

text \<open>\<open>ring_count L r x\<close>: how many frames below \<open>x\<close> go through the ring \<open>r\<close> of \<open>L\<close>.\<close>

definition ring_count :: "nat \<Rightarrow> nat \<Rightarrow> nat \<Rightarrow> nat" where
  "ring_count L r x = (x + L - 1 - r) div L"

locale round_robin =
  fixes stride :: nat and L :: nat
  assumes stride_pos: "0 < stride" and L_pos: "0 < L" and stride_dvd: "stride dvd L"
begin

lemma stride_le: "stride \<le> L"
  using stride_dvd L_pos by (rule dvd_imp_le)

lemma own_ring: "x mod L mod stride = x mod stride"
  using stride_dvd by (simp add: mod_mod_cancel)

lemma count_eq: "x = c * L + y \<Longrightarrow> y + L - 1 - r < (k + 1) * L \<Longrightarrow> k * L \<le> y + L - 1 - r \<Longrightarrow> r < L \<Longrightarrow>
    ring_count L r x = c + k"
proof -
  assume x: "x = c * L + y" and hi: "y + L - 1 - r < (k + 1) * L" and lo: "k * L \<le> y + L - 1 - r" and "r < L"
  have "x + L - 1 - r = (y + L - 1 - r) + c * L" using \<open>r < L\<close> unfolding x by simp
  moreover have "(y + L - 1 - r) div L = k"
    using hi lo by (intro div_nat_eqI) (simp_all add: mult.commute)
  ultimately show ?thesis using L_pos by (simp add: ring_count_def)
qed

lemma count_own: "x mod L = r \<Longrightarrow> r + ring_count L r x * L = x"
proof -
  assume r: "x mod L = r"
  have x: "x = x div L * L + r" using mod_div_mult_eq [of x L] r by simp
  have "r < L" using r L_pos by auto
  then have "ring_count L r x = x div L + 0" using L_pos by (intro count_eq [OF x]) simp_all
  with x show ?thesis by simp
qed

lemma count_step:
  assumes r: "r < L" and same: "x mod stride = r mod stride"
  shows "ring_count L r (x + stride) = ring_count L r x + (if x mod L = r then 1 else 0)"
proof -
  let ?y = "x mod L"
  have x: "x = x div L * L + ?y" by simp
  have y: "?y < L" using L_pos by simp
  have cong: "?y mod stride = r mod stride" using same own_ring by simp
  have xs: "x + stride = x div L * L + (?y + stride)" using x by simp
  consider "?y = r" | "?y < r" | "r < ?y" by linarith
  then show ?thesis
  proof cases
    case 1
    have "ring_count L r x = x div L + 0"
      using x by (rule count_eq) (use 1 r in auto)
    moreover have "ring_count L r (x + stride) = x div L + 1"
      using xs by (rule count_eq) (use 1 r stride_le stride_pos in auto)
    ultimately show ?thesis using 1 by simp
  next
    case 2
    have "stride dvd r - ?y" using cong [symmetric] 2 by (simp add: mod_eq_dvd_iff_nat)
    then have "stride \<le> r - ?y" using 2 by (intro dvd_imp_le) simp_all
    then have "?y + stride \<le> r" using 2 by linarith
    then have "ring_count L r x = x div L + 0" "ring_count L r (x + stride) = x div L + 0"
      using r 2 by (intro count_eq [OF x] count_eq [OF xs]; simp)+
    with 2 show ?thesis by simp
  next
    case 3
    have "stride dvd ?y - r" using cong 3 by (simp add: mod_eq_dvd_iff_nat)
    then have "stride dvd L - (?y - r)" using stride_dvd by (simp add: dvd_diff_nat)
    moreover have "0 < L - (?y - r)" using y r by linarith
    ultimately have "stride \<le> L - (?y - r)" by (intro dvd_imp_le)
    then have s: "?y + stride \<le> L + r" using y 3 by simp
    have "ring_count L r x = x div L + 1" using r 3 y by (intro count_eq [OF x]) simp_all
    moreover have "ring_count L r (x + stride) = x div L + 1"
    proof (rule count_eq [OF xs])
      show "?y + stride + L - 1 - r < (1 + 1) * L" using s L_pos by simp
      show "1 * L \<le> ?y + stride + L - 1 - r" using 3 stride_pos by simp
    qed (rule r)
    ultimately show ?thesis using 3 by simp
  qed
qed

lemma count_le: "r < L \<Longrightarrow> ring_count L r x \<le> k \<longleftrightarrow> x \<le> r + k * L"
proof -
  assume r: "r < L"
  have "ring_count L r x \<le> k \<longleftrightarrow> x + L - 1 - r < Suc k * L"
    unfolding ring_count_def using L_pos by (simp add: div_less_iff_less_mult flip: less_Suc_eq_le)
  also have "\<dots> \<longleftrightarrow> x \<le> r + k * L" using r by auto
  finally show ?thesis .
qed

lemma count_start: "r < L \<Longrightarrow> p < stride \<Longrightarrow> p mod stride = r mod stride \<Longrightarrow> ring_count L r p = 0"
proof -
  assume r: "r < L" and p: "p < stride" "p mod stride = r mod stride"
  then have "p \<le> r" by (metis mod_less mod_less_eq_dividend)
  with r show ?thesis using L_pos by (simp add: ring_count_def)
qed

end

section \<open>The system\<close>

type_synonym frame = "byte list list"

datatype pc = At_wait | Copying nat | Stopped

record net =
  n_sh :: shared
  n_pu :: "nat \<Rightarrow> inst"
  n_pl :: "nat \<Rightarrow> inst"
  n_ppc :: "nat \<Rightarrow> pc"
  n_lpc :: "nat \<Rightarrow> pc"
  n_sent :: "nat \<Rightarrow> nat"
  n_part :: "nat \<Rightarrow> frame"
  n_outs :: "nat \<Rightarrow> frame list"

definition next_push :: "nat \<Rightarrow> net \<Rightarrow> nat \<Rightarrow> nat" where
  "next_push m v p = p + n_sent v p * m"

definition next_pull :: "nat \<Rightarrow> net \<Rightarrow> nat \<Rightarrow> nat" where
  "next_pull n v q = q + length (n_outs v q) * n"

inductive adp_step :: "(nat \<Rightarrow> frame) \<Rightarrow> nat \<Rightarrow> nat \<Rightarrow> net \<Rightarrow> net \<Rightarrow> bool" for inp m n where
  push_go: "p < m \<Longrightarrow> n_ppc v p = At_wait \<Longrightarrow> wait_push (n_sh v) (n_pu v p) = Some (Inr ()) \<Longrightarrow>
    adp_step inp m n v (v\<lparr>n_ppc := (n_ppc v)(p := Copying 0)\<rparr>)"
| push_stop: "p < m \<Longrightarrow> n_ppc v p = At_wait \<Longrightarrow> wait_push (n_sh v) (n_pu v p) = Some (Inl e) \<Longrightarrow>
    adp_step inp m n v (v\<lparr>n_ppc := (n_ppc v)(p := Stopped)\<rparr>)"
| push_copy: "p < m \<Longrightarrow> n_ppc v p = Copying s \<Longrightarrow> s < n_sockets (n_sh v) \<Longrightarrow>
    copy_push (inp (next_push m v p)) s (n_sh v, n_pu v p) = (Inr (), (sh', i')) \<Longrightarrow>
    adp_step inp m n v (v\<lparr>n_sh := sh', n_pu := (n_pu v)(p := i'), n_ppc := (n_ppc v)(p := Copying (Suc s))\<rparr>)"
| push_done: "p < m \<Longrightarrow> n_ppc v p = Copying (n_sockets (n_sh v)) \<Longrightarrow>
    wake_up_puller (n_sh v, n_pu v p) = (sh', i') \<Longrightarrow>
    adp_step inp m n v (v\<lparr>n_sh := sh', n_pu := (n_pu v)(p := i'), n_ppc := (n_ppc v)(p := At_wait),
      n_sent := (n_sent v)(p := n_sent v p + 1)\<rparr>)"
| pull_go: "q < n \<Longrightarrow> n_lpc v q = At_wait \<Longrightarrow> wait_pull (n_sh v) (n_pl v q) = Some (Inr ()) \<Longrightarrow>
    adp_step inp m n v (v\<lparr>n_lpc := (n_lpc v)(q := Copying 0)\<rparr>)"
| pull_stop: "q < n \<Longrightarrow> n_lpc v q = At_wait \<Longrightarrow> wait_pull (n_sh v) (n_pl v q) = Some (Inl e) \<Longrightarrow>
    adp_step inp m n v (v\<lparr>n_lpc := (n_lpc v)(q := Stopped)\<rparr>)"
| pull_copy: "q < n \<Longrightarrow> n_lpc v q = Copying s \<Longrightarrow> s < n_sockets (n_sh v) \<Longrightarrow>
    copy_pull [s] (n_sh v, n_pl v q) = Inr fs \<Longrightarrow>
    adp_step inp m n v (v\<lparr>n_part := (n_part v)(q := n_part v q @ fs), n_lpc := (n_lpc v)(q := Copying (Suc s))\<rparr>)"
| pull_done: "q < n \<Longrightarrow> n_lpc v q = Copying (n_sockets (n_sh v)) \<Longrightarrow>
    wake_up_pusher (n_sh v, n_pl v q) = (sh', i') \<Longrightarrow>
    adp_step inp m n v (v\<lparr>n_sh := sh', n_pl := (n_pl v)(q := i'), n_lpc := (n_lpc v)(q := At_wait),
      n_part := (n_part v)(q := []), n_outs := (n_outs v)(q := n_outs v q @ [n_part v q])\<rparr>)"
| cancel_push: "p < m \<Longrightarrow> adp_step inp m n v (v\<lparr>n_pu := (n_pu v)(p := cancel_waiting (n_pu v p))\<rparr>)"
| cancel_pull: "q < n \<Longrightarrow> adp_step inp m n v (v\<lparr>n_pl := (n_pl v)(q := cancel_waiting (n_pl v q))\<rparr>)"

section \<open>The invariant\<close>

text \<open>The tables: the blocks of the slots are all different.\<close>

definition table_ok :: "nat \<Rightarrow> nat \<Rightarrow> shared \<Rightarrow> bool" where
  "table_ok m n sh \<longleftrightarrow> a_allocated sh \<and> a_n_pushers sh = m \<and> a_n_pullers sh = n \<and>
     length (a_buffer sh) = lcm m n \<and> 0 < a_size sh \<and> a_size sh < 2 ^ 32 \<and>
     (\<forall>r s k r' s' k'. r < lcm m n \<longrightarrow> r' < lcm m n \<longrightarrow> s < n_sockets sh \<longrightarrow> s' < n_sockets sh \<longrightarrow>
        k < a_size sh \<longrightarrow> k' < a_size sh \<longrightarrow> a_buffer sh ! r ! s ! k = a_buffer sh ! r' ! s' ! k' \<longrightarrow>
        r = r' \<and> s = s' \<and> k = k')"

definition slot :: "shared \<Rightarrow> nat \<Rightarrow> nat \<Rightarrow> nat \<Rightarrow> byte list" where
  "slot sh r s k = a_data sh (a_buffer sh ! r ! s ! k)"

text \<open>The frames written to and read from a ring so far.\<close>

definition written :: "nat \<Rightarrow> nat \<Rightarrow> net \<Rightarrow> nat \<Rightarrow> nat" where
  "written m n v r = ring_count (lcm m n) r (next_push m v (r mod m))"

definition taken :: "nat \<Rightarrow> nat \<Rightarrow> net \<Rightarrow> nat \<Rightarrow> nat" where
  "taken m n v r = ring_count (lcm m n) r (next_pull n v (r mod n))"

text \<open>The counts do not depend on the tables and on the program counters.\<close>

lemma counts_frame [simp]:
  "next_push m (n_sh_update f_sh v) p = next_push m v p"
  "next_push m (n_pu_update f_pu v) p = next_push m v p"
  "next_push m (n_pl_update f_pl v) p = next_push m v p"
  "next_push m (n_ppc_update f_ppc v) p = next_push m v p"
  "next_push m (n_lpc_update f_lpc v) p = next_push m v p"
  "next_push m (n_part_update f_part v) p = next_push m v p"
  "next_push m (n_outs_update f_outs v) p = next_push m v p"
  "next_pull n (n_sh_update f_sh v) q = next_pull n v q"
  "next_pull n (n_pu_update f_pu v) q = next_pull n v q"
  "next_pull n (n_pl_update f_pl v) q = next_pull n v q"
  "next_pull n (n_ppc_update f_ppc v) q = next_pull n v q"
  "next_pull n (n_lpc_update f_lpc v) q = next_pull n v q"
  "next_pull n (n_part_update f_part v) q = next_pull n v q"
  "next_pull n (n_sent_update f_sent v) q = next_pull n v q"
  "written m n (n_sh_update f_sh v) r = written m n v r"
  "written m n (n_pu_update f_pu v) r = written m n v r"
  "written m n (n_pl_update f_pl v) r = written m n v r"
  "written m n (n_ppc_update f_ppc v) r = written m n v r"
  "written m n (n_lpc_update f_lpc v) r = written m n v r"
  "written m n (n_part_update f_part v) r = written m n v r"
  "written m n (n_outs_update f_outs v) r = written m n v r"
  "taken m n (n_sh_update f_sh v) r = taken m n v r"
  "taken m n (n_pu_update f_pu v) r = taken m n v r"
  "taken m n (n_pl_update f_pl v) r = taken m n v r"
  "taken m n (n_ppc_update f_ppc v) r = taken m n v r"
  "taken m n (n_lpc_update f_lpc v) r = taken m n v r"
  "taken m n (n_part_update f_part v) r = taken m n v r"
  "taken m n (n_sent_update f_sent v) r = taken m n v r"
  by (simp_all add: written_def taken_def next_push_def next_pull_def)

definition rings_ok :: "(nat \<Rightarrow> frame) \<Rightarrow> nat \<Rightarrow> nat \<Rightarrow> net \<Rightarrow> bool" where
  "rings_ok inp m n v \<longleftrightarrow> (\<forall>r < lcm m n. let sh = n_sh v; w = written m n v r; t = taken m n v r in
     a_last sh r = w mod a_size sh \<and> a_first sh r = t mod a_size sh \<and>
     t \<le> w \<and> w \<le> t + a_size sh \<and> a_counter sh r + w = t + a_size sh \<and>
     (\<forall>i s. t \<le> i \<longrightarrow> i < w \<longrightarrow> s < n_sockets sh \<longrightarrow>
        slot sh r s (i mod a_size sh) = inp (r + i * lcm m n) ! s))"

definition pusher_ok :: "(nat \<Rightarrow> frame) \<Rightarrow> nat \<Rightarrow> nat \<Rightarrow> net \<Rightarrow> nat \<Rightarrow> bool" where
  "pusher_ok inp m n v p \<longleftrightarrow> (let sh = n_sh v; x = next_push m v p; r = x mod lcm m n in
     i_tid_push (n_pu v p) = int p \<and> i_cur_push (n_pu v p) = r \<and>
     (case n_ppc v p of Copying c \<Rightarrow> c \<le> n_sockets sh \<and> written m n v r < taken m n v r + a_size sh \<and>
        (\<forall>s < c. slot sh r s (written m n v r mod a_size sh) = inp x ! s) | _ \<Rightarrow> True))"

definition puller_ok :: "(nat \<Rightarrow> frame) \<Rightarrow> nat \<Rightarrow> nat \<Rightarrow> net \<Rightarrow> nat \<Rightarrow> bool" where
  "puller_ok inp m n v q \<longleftrightarrow> (let sh = n_sh v; x = next_pull n v q; r = x mod lcm m n in
     i_tid_pull (n_pl v q) = int q \<and> i_cur_pull (n_pl v q) = r \<and>
     n_outs v q = map (\<lambda>j. inp (q + j * n)) [0..<length (n_outs v q)] \<and>
     (case n_lpc v q of Copying c \<Rightarrow> c \<le> n_sockets sh \<and> taken m n v r < written m n v r \<and>
        n_part v q = take c (inp x) | _ \<Rightarrow> n_part v q = []))"

definition adp_ok :: "(nat \<Rightarrow> frame) \<Rightarrow> nat \<Rightarrow> nat \<Rightarrow> net \<Rightarrow> bool" where
  "adp_ok inp m n v \<longleftrightarrow> 0 < m \<and> 0 < n \<and> table_ok m n (n_sh v) \<and>
     (\<forall>k. length (inp k) = n_sockets (n_sh v)) \<and> rings_ok inp m n v \<and>
     (\<forall>p < m. pusher_ok inp m n v p) \<and> (\<forall>q < n. puller_ok inp m n v q)"

text \<open>The rings of an adaptor seen by a pusher and by a puller, with at least one of each.\<close>

interpretation push_rr: round_robin "Suc m" "lcm (Suc m) (Suc n)" for m n
  by unfold_locales (simp_all add: lcm_pos_nat)

interpretation pull_rr: round_robin "Suc n" "lcm (Suc m) (Suc n)" for m n
  by unfold_locales (simp_all add: lcm_pos_nat)

section \<open>Every step keeps the invariant\<close>

lemma wake_up_puller_sel:
  assumes "wake_up_puller (sh, i) = (sh', i')"
  shows "a_buffer sh' = a_buffer sh" "a_size sh' = a_size sh" "n_sockets sh' = n_sockets sh"
    "a_data sh' = a_data sh" "a_first sh' = a_first sh"
    "a_last sh' = (a_last sh)(i_cur_push i := ((a_last sh (i_cur_push i) + 1) mod 2 ^ 32) mod a_size sh)"
    "a_counter sh' = (a_counter sh)(i_cur_push i := (a_counter sh (i_cur_push i) + 2 ^ 32 - 1) mod 2 ^ 32)"
    "i_tid_push i' = i_tid_push i"
    "i_cur_push i' = (i_cur_push i + a_n_pushers sh) mod length (a_buffer sh)"
    "table_ok m n sh' = table_ok m n sh" "slot sh' = slot sh"
proof -
  let ?r = "i_cur_push i"
  have "sh' = sh\<lparr>a_last := (a_last sh)(?r := ((a_last sh ?r + 1) mod 2 ^ 32) mod a_size sh),
      a_counter := (a_counter sh)(?r := (a_counter sh ?r + 2 ^ 32 - 1) mod 2 ^ 32)\<rparr>"
    and "i' = i\<lparr>i_cur_push := (?r + a_n_pushers sh) mod length (a_buffer sh)\<rparr>"
    using assms unfolding wake_up_puller_def Let_def prod.case by blast+
  then show "a_buffer sh' = a_buffer sh" "a_size sh' = a_size sh" "n_sockets sh' = n_sockets sh"
    "a_data sh' = a_data sh" "a_first sh' = a_first sh"
    "a_last sh' = (a_last sh)(?r := ((a_last sh ?r + 1) mod 2 ^ 32) mod a_size sh)"
    "a_counter sh' = (a_counter sh)(?r := (a_counter sh ?r + 2 ^ 32 - 1) mod 2 ^ 32)"
    "i_tid_push i' = i_tid_push i" "i_cur_push i' = (?r + a_n_pushers sh) mod length (a_buffer sh)"
    "table_ok m n sh' = table_ok m n sh" "slot sh' = slot sh"
    by (simp_all add: n_sockets_def table_ok_def slot_def [abs_def])
qed

lemma wake_up_pusher_sel:
  assumes "wake_up_pusher (sh, i) = (sh', i')"
  shows "a_buffer sh' = a_buffer sh" "a_size sh' = a_size sh" "n_sockets sh' = n_sockets sh"
    "a_data sh' = a_data sh" "a_last sh' = a_last sh"
    "a_first sh' = (a_first sh)(i_cur_pull i := ((a_first sh (i_cur_pull i) + 1) mod 2 ^ 32) mod a_size sh)"
    "a_counter sh' = (a_counter sh)(i_cur_pull i := (a_counter sh (i_cur_pull i) + 1) mod 2 ^ 32)"
    "i_tid_pull i' = i_tid_pull i"
    "i_cur_pull i' = (i_cur_pull i + a_n_pullers sh) mod length (a_buffer sh)"
    "table_ok m n sh' = table_ok m n sh" "slot sh' = slot sh"
proof -
  let ?r = "i_cur_pull i"
  have "sh' = sh\<lparr>a_first := (a_first sh)(?r := ((a_first sh ?r + 1) mod 2 ^ 32) mod a_size sh),
      a_counter := (a_counter sh)(?r := (a_counter sh ?r + 1) mod 2 ^ 32)\<rparr>"
    and "i' = i\<lparr>i_cur_pull := (?r + a_n_pullers sh) mod length (a_buffer sh)\<rparr>"
    using assms unfolding wake_up_pusher_def Let_def prod.case by blast+
  then show "a_buffer sh' = a_buffer sh" "a_size sh' = a_size sh" "n_sockets sh' = n_sockets sh"
    "a_data sh' = a_data sh" "a_last sh' = a_last sh"
    "a_first sh' = (a_first sh)(?r := ((a_first sh ?r + 1) mod 2 ^ 32) mod a_size sh)"
    "a_counter sh' = (a_counter sh)(?r := (a_counter sh ?r + 1) mod 2 ^ 32)"
    "i_tid_pull i' = i_tid_pull i" "i_cur_pull i' = (?r + a_n_pullers sh) mod length (a_buffer sh)"
    "table_ok m n sh' = table_ok m n sh" "slot sh' = slot sh"
    by (simp_all add: n_sockets_def table_ok_def slot_def [abs_def])
qed

lemma lcm_mod_mod: "r mod lcm m n mod m = r mod m" "r mod lcm m n mod n = r mod (n::nat)"
  by (simp_all add: mod_mod_cancel)

lemma next_push_mod: "p < m \<Longrightarrow> next_push m v p mod m = p"
  by (simp add: next_push_def)

lemma next_pull_mod: "q < n \<Longrightarrow> next_pull n v q mod n = q"
  by (simp add: next_pull_def)

lemma written_own:
  assumes "0 < m" and "0 < n" and "p < m" and "r = next_push m v p mod lcm m n"
  shows "r + written m n v r * lcm m n = next_push m v p"
proof -
  obtain m' n' where m: "m = Suc m'" "n = Suc n'" using assms(1,2) by (metis Suc_pred')
  have "r mod m = p" using assms(3,4) by (simp add: lcm_mod_mod next_push_mod)
  then show ?thesis using push_rr.count_own [of "next_push m v p" m' n' r] assms(4)
    by (simp add: written_def m)
qed

lemma taken_own:
  assumes "0 < m" and "0 < n" and "q < n" and "r = next_pull n v q mod lcm m n"
  shows "r + taken m n v r * lcm m n = next_pull n v q"
proof -
  obtain m' n' where m: "m = Suc m'" "n = Suc n'" using assms(1,2) by (metis Suc_pred')
  have "r mod n = q" using assms(3,4) by (simp add: lcm_mod_mod next_pull_mod)
  then show ?thesis using pull_rr.count_own [of "next_pull n v q" m' n' r] assms(4)
    by (simp add: taken_def m)
qed

lemma written_step:
  assumes "0 < m" and "0 < n" and "p < m" and "r < lcm m n"
    and "n_sent v' = (n_sent v)(p := n_sent v p + 1)"
  shows "written m n v' r = written m n v r + (if r = next_push m v p mod lcm m n then 1 else 0)"
proof (cases "r mod m = p")
  case True
  obtain m' n' where m: "m = Suc m'" "n = Suc n'" using assms(1,2) by (metis Suc_pred')
  have "next_push m v' p = next_push m v p + m" using assms(5) by (simp add: next_push_def)
  moreover have "next_push m v p mod m = r mod m" using True assms(3) by (simp add: next_push_mod)
  ultimately show ?thesis
    using push_rr.count_step [of r m' n' "next_push m v p"] assms(4) True
    by (simp add: written_def m)
next
  case False
  then have "r \<noteq> next_push m v p mod lcm m n" using assms(3) by (auto simp: lcm_mod_mod next_push_mod)
  with False assms(5) show ?thesis by (simp add: written_def next_push_def)
qed

lemma taken_step:
  assumes "0 < m" and "0 < n" and "q < n" and "r < lcm m n"
    and "n_outs v' = (n_outs v)(q := n_outs v q @ [x])"
  shows "taken m n v' r = taken m n v r + (if r = next_pull n v q mod lcm m n then 1 else 0)"
proof (cases "r mod n = q")
  case True
  obtain m' n' where m: "m = Suc m'" "n = Suc n'" using assms(1,2) by (metis Suc_pred')
  have "next_pull n v' q = next_pull n v q + n" using assms(5) by (simp add: next_pull_def)
  moreover have "next_pull n v q mod n = r mod n" using True assms(3) by (simp add: next_pull_mod)
  ultimately show ?thesis
    using pull_rr.count_step [of r m' n' "next_pull n v q"] assms(4) True
    by (simp add: taken_def m)
next
  case False
  then have "r \<noteq> next_pull n v q mod lcm m n" using assms(3) by (auto simp: lcm_mod_mod next_pull_mod)
  with False assms(5) show ?thesis by (simp add: taken_def next_pull_def)
qed

lemma written_same: "n_sent v' = n_sent v \<Longrightarrow> written m n v' = written m n v"
  and taken_same: "n_outs v' = n_outs v \<Longrightarrow> taken m n v' = taken m n v"
  by (auto simp: written_def taken_def next_push_def next_pull_def)

lemma adp_okD:
  assumes "adp_ok inp m n v"
  shows "0 < m" "0 < n" "table_ok m n (n_sh v)" "length (inp k) = n_sockets (n_sh v)"
    "rings_ok inp m n v" "p < m \<Longrightarrow> pusher_ok inp m n v p" "q < n \<Longrightarrow> puller_ok inp m n v q"
    "0 < lcm m n"
  using assms by (auto simp: adp_ok_def lcm_pos_nat)

text \<open>A step that leaves the shared tables and the counts as they are.\<close>

lemma adp_ok_pc:
  assumes ok: "adp_ok inp m n v" and same: "n_sh v' = n_sh v" "n_sent v' = n_sent v" "n_outs v' = n_outs v"
    and pu: "\<And>p. p < m \<Longrightarrow> pusher_ok inp m n v' p" and pl: "\<And>q. q < n \<Longrightarrow> puller_ok inp m n v' q"
  shows "adp_ok inp m n v'"
proof -
  have "rings_ok inp m n v'"
    using adp_okD(5) [OF ok] written_same [OF same(2)] taken_same [OF same(3)] same(1)
    by (simp add: rings_ok_def)
  with ok same(1) pu pl show ?thesis by (simp add: adp_ok_def)
qed

lemma pusher_ok_cong:
  assumes "pusher_ok inp m n v p" and "n_sh v' = n_sh v" "n_sent v' = n_sent v" "n_outs v' = n_outs v"
    and "i_tid_push (n_pu v' p) = i_tid_push (n_pu v p)" "i_cur_push (n_pu v' p) = i_cur_push (n_pu v p)"
    and "n_ppc v' p = n_ppc v p"
  shows "pusher_ok inp m n v' p"
proof -
  have "next_push m v' p = next_push m v p" using assms(3) by (simp add: next_push_def)
  with assms written_same [OF assms(3)] taken_same [OF assms(4)] show ?thesis
    by (simp add: pusher_ok_def Let_def cong: pc.case_cong)
qed

lemma puller_ok_cong:
  assumes "puller_ok inp m n v q" and "n_sh v' = n_sh v" "n_sent v' = n_sent v" "n_outs v' = n_outs v"
    and "i_tid_pull (n_pl v' q) = i_tid_pull (n_pl v q)" "i_cur_pull (n_pl v' q) = i_cur_pull (n_pl v q)"
    and "n_lpc v' q = n_lpc v q" "n_part v' q = n_part v q"
  shows "puller_ok inp m n v' q"
proof -
  have "next_pull n v' q = next_pull n v q" using assms(4) by (simp add: next_pull_def)
  with assms written_same [OF assms(3)] taken_same [OF assms(4)] show ?thesis
    by (simp add: puller_ok_def Let_def cong: pc.case_cong)
qed

lemma pc_pusher:
  assumes ok: "adp_ok inp m n v" and v': "v' = v\<lparr>n_ppc := (n_ppc v)(p := c)\<rparr>"
    and c: "case c of Copying k \<Rightarrow> k = 0 \<and> written m n v (i_cur_push (n_pu v p)) <
      taken m n v (i_cur_push (n_pu v p)) + a_size (n_sh v) | _ \<Rightarrow> True"
  shows "adp_ok inp m n v'"
proof (rule adp_ok_pc [OF ok])
  fix p' assume p': "p' < m"
  note P = adp_okD(6) [OF ok p']
  show "pusher_ok inp m n v' p'"
  proof (cases "p' = p")
    case True
    have "next_push m v' p = next_push m v p" by (simp add: v' next_push_def)
    moreover have "written m n v' = written m n v" "taken m n v' = taken m n v"
      by (rule written_same taken_same, simp add: v')+
    ultimately show ?thesis using P c True by (cases c) (simp_all add: pusher_ok_def Let_def v')
  next
    case False
    with P show ?thesis by (intro pusher_ok_cong [OF P]) (simp_all add: v')
  qed
next
  fix q assume "q < n"
  from adp_okD(7) [OF ok this] show "puller_ok inp m n v' q"
    by (rule puller_ok_cong) (simp_all add: v')
qed (simp_all add: v')

lemma pc_puller:
  assumes ok: "adp_ok inp m n v" and v': "v' = v\<lparr>n_lpc := (n_lpc v)(q := c)\<rparr>" and "n_lpc v q = At_wait"
    and c: "case c of Copying k \<Rightarrow> k = 0 \<and> taken m n v (i_cur_pull (n_pl v q)) <
      written m n v (i_cur_pull (n_pl v q)) | _ \<Rightarrow> True"
  shows "adp_ok inp m n v'"
proof (rule adp_ok_pc [OF ok])
  fix q' assume q': "q' < n"
  note P = adp_okD(7) [OF ok q']
  show "puller_ok inp m n v' q'"
  proof (cases "q' = q")
    case True
    have "next_pull n v' q = next_pull n v q" by (simp add: v' next_pull_def)
    moreover have "written m n v' = written m n v" "taken m n v' = taken m n v"
      by (rule written_same taken_same, simp add: v')+
    ultimately show ?thesis using P c True assms(3) by (cases c) (simp_all add: puller_ok_def Let_def v')
  next
    case False
    with P show ?thesis by (intro puller_ok_cong [OF P]) (simp_all add: v')
  qed
next
  fix p assume "p < m"
  from adp_okD(6) [OF ok this] show "pusher_ok inp m n v' p"
    by (rule pusher_ok_cong) (simp_all add: v')
qed (simp_all add: v')

lemma ring_facts:
  assumes "adp_ok inp m n v" and "r < lcm m n"
  shows "a_last (n_sh v) r = written m n v r mod a_size (n_sh v)"
    "a_first (n_sh v) r = taken m n v r mod a_size (n_sh v)"
    "taken m n v r \<le> written m n v r" "written m n v r \<le> taken m n v r + a_size (n_sh v)"
    "a_counter (n_sh v) r + written m n v r = taken m n v r + a_size (n_sh v)"
    "taken m n v r \<le> i \<Longrightarrow> i < written m n v r \<Longrightarrow> s < n_sockets (n_sh v) \<Longrightarrow>
      slot (n_sh v) r s (i mod a_size (n_sh v)) = inp (r + i * lcm m n) ! s"
  using adp_okD(5) [OF assms(1)] assms(2) by (simp_all add: rings_ok_def Let_def)

lemma cur_push_ring:
  assumes "adp_ok inp m n v" and "p < m"
  shows "i_cur_push (n_pu v p) = next_push m v p mod lcm m n" and "i_cur_push (n_pu v p) < lcm m n"
    and "i_cur_push (n_pu v p) mod m = p" and "i_tid_push (n_pu v p) = int p"
  using adp_okD(6) [OF assms] adp_okD(8) [OF assms(1)] assms(2)
  by (simp_all add: pusher_ok_def Let_def lcm_mod_mod next_push_mod)

lemma cur_pull_ring:
  assumes "adp_ok inp m n v" and "q < n"
  shows "i_cur_pull (n_pl v q) = next_pull n v q mod lcm m n" and "i_cur_pull (n_pl v q) < lcm m n"
    and "i_cur_pull (n_pl v q) mod n = q" and "i_tid_pull (n_pl v q) = int q"
  using adp_okD(7) [OF assms] adp_okD(8) [OF assms(1)] assms(2)
  by (simp_all add: puller_ok_def Let_def lcm_mod_mod next_pull_mod)

text \<open>The copy of one socket writes one slot.\<close>

lemma copy_push_slot:
  assumes tab: "table_ok m n sh" and r: "i_cur_push i < lcm m n" and s: "s < n_sockets sh"
    and l: "a_last sh (i_cur_push i) < a_size sh" and run: "copy_push ins s (sh, i) = (Inr (), (sh', i'))"
  shows "i' = i" and "table_ok m n sh'" and "a_size sh' = a_size sh" and "n_sockets sh' = n_sockets sh"
    and "a_last sh' = a_last sh" and "a_first sh' = a_first sh" and "a_counter sh' = a_counter sh"
    and "r' < lcm m n \<Longrightarrow> s' < n_sockets sh \<Longrightarrow> k' < a_size sh \<Longrightarrow> slot sh' r' s' k' =
      (if r' = i_cur_push i \<and> s' = s \<and> k' = a_last sh (i_cur_push i) then ins ! s else slot sh r' s' k')"
proof -
  let ?b = "a_buffer sh ! i_cur_push i ! s ! a_last sh (i_cur_push i)"
  have sh': "sh' = sh\<lparr>a_data := (a_data sh)(?b := ins ! s)\<rparr>" and i': "i' = i"
    using run tab by (auto simp: copy_push_def get_empty_buffer_def table_ok_def)
  show "i' = i" "table_ok m n sh'" "a_size sh' = a_size sh" "n_sockets sh' = n_sockets sh"
    "a_last sh' = a_last sh" "a_first sh' = a_first sh" "a_counter sh' = a_counter sh"
    using i' tab by (simp_all add: sh' table_ok_def n_sockets_def)
  show "slot sh' r' s' k' =
      (if r' = i_cur_push i \<and> s' = s \<and> k' = a_last sh (i_cur_push i) then ins ! s else slot sh r' s' k')"
    if "r' < lcm m n" "s' < n_sockets sh" "k' < a_size sh"
  proof -
    have "a_buffer sh ! r' ! s' ! k' = ?b \<longleftrightarrow> r' = i_cur_push i \<and> s' = s \<and> k' = a_last sh (i_cur_push i)"
      using tab that r s l unfolding table_ok_def by blast
    then show ?thesis by (simp add: slot_def sh')
  qed
qed

lemma mod_eq_near: "(i::nat) \<le> w \<Longrightarrow> w < i + sz \<Longrightarrow> i mod sz = w mod sz \<Longrightarrow> i = w"
  by (metis add_diff_cancel_left' diff_is_0_eq le_add_diff_inverse less_imp_le_nat linorder_not_less
      mod_eq_dvd_iff_nat nat_dvd_not_less neq0_conv nat_add_left_cancel_less)

lemma step_push_copy:
  assumes ok: "adp_ok inp m n v" and p: "p < m" and pc: "n_ppc v p = Copying s" and s: "s < n_sockets (n_sh v)"
    and run: "copy_push (inp (next_push m v p)) s (n_sh v, n_pu v p) = (Inr (), (sh', i'))"
    and v': "v' = v\<lparr>n_sh := sh', n_pu := (n_pu v)(p := i'), n_ppc := (n_ppc v)(p := Copying (Suc s))\<rparr>"
  shows "adp_ok inp m n v'"
proof -
  let ?sh = "n_sh v" and ?r = "i_cur_push (n_pu v p)" and ?L = "lcm m n"
  let ?w = "written m n v ?r" and ?sz = "a_size ?sh"
  note D = adp_okD [OF ok]
  note cr = cur_push_ring [OF ok p]
  have sz: "0 < ?sz" using D(3) by (simp add: table_ok_def)
  have last: "a_last ?sh ?r = ?w mod ?sz" using ring_facts(1) [OF ok cr(2)] .
  have "a_last ?sh ?r < ?sz" using last sz by simp
  note C = copy_push_slot [OF D(3) cr(2) s this run]
  have W: "written m n v' = written m n v" and T: "taken m n v' = taken m n v"
    by (rule written_same taken_same, simp add: v')+
  have full: "?w < taken m n v ?r + ?sz" using D(6) [OF p] pc cr(1) by (simp add: pusher_ok_def Let_def)
  have old: "slot sh' r k (i mod ?sz) = slot ?sh r k (i mod ?sz)"
    if "r < ?L" "k < n_sockets ?sh" "taken m n v r \<le> i" "i < written m n v r" for r k i
  proof -
    have "i mod ?sz \<noteq> ?w mod ?sz" if "r = ?r"
    proof
      assume e: "i mod ?sz = ?w mod ?sz"
      have b: "i \<le> ?w" "?w < i + ?sz" using \<open>i < written m n v r\<close> \<open>taken m n v r \<le> i\<close> that full by auto
      from mod_eq_near [OF b e] have "i = ?w" .
      with \<open>i < written m n v r\<close> that show False by simp
    qed
    then show ?thesis using C(8) [of r k "i mod ?sz"] that sz last by auto
  qed
  have rings: "rings_ok inp m n v'"
    unfolding rings_ok_def Let_def W T
    using ring_facts [OF ok] old C(3-7) by (simp add: v')
  have pushers: "pusher_ok inp m n v' p'" if p': "p' < m" for p'
  proof (cases "p' = p")
    case True
    have nx: "next_push m v' p = next_push m v p" by (simp add: v' next_push_def)
    have "slot sh' ?r k (?w mod ?sz) = inp (next_push m v p) ! k" if "k < Suc s" for k
    proof (cases "k = s")
      case True
      then show ?thesis using C(8) [OF cr(2) s, of "?w mod ?sz"] sz last by simp
    next
      case False
      with that have "k < s" by simp
      with D(6) [OF p] pc cr(1) have "slot ?sh ?r k (?w mod ?sz) = inp (next_push m v p) ! k"
        by (simp add: pusher_ok_def Let_def)
      with False \<open>k < s\<close> s show ?thesis using C(8) [OF cr(2), of k "?w mod ?sz"] sz by simp
    qed
    with True D(6) [OF p] pc s cr(1) C(1,3,4) show ?thesis
      by (simp add: pusher_ok_def Let_def nx W T) (simp add: v')
  next
    case False
    have ne: "next_push m v p' mod ?L \<noteq> ?r"
      using cr(3) False p' lcm_mod_mod(1) [of "next_push m v p'" m n] next_push_mod [OF p'] by metis
    have nx: "next_push m v' p' = next_push m v p'" by (simp add: v' next_push_def)
    have "slot sh' (next_push m v p' mod ?L) k (x mod ?sz) = slot ?sh (next_push m v p' mod ?L) k (x mod ?sz)"
      if "k < n_sockets ?sh" for k x
      using C(8) [of "next_push m v p' mod ?L" k "x mod ?sz"] that ne sz D(8) by simp
    with False D(6) [OF p'] C(3,4) show ?thesis
      by (simp add: pusher_ok_def Let_def nx W T) (auto simp: v' split: pc.split)
  qed
  have pullers: "puller_ok inp m n v' q" if "q < n" for q
  proof -
    have "next_pull n v' q = next_pull n v q" by (simp add: v' next_pull_def)
    with D(7) [OF that] C(3,4) show ?thesis
      by (simp add: puller_ok_def Let_def W T cong: pc.case_cong) (simp add: v' cong: pc.case_cong)
  qed
  have "table_ok m n (n_sh v')" using C(2) by (simp add: v')
  with D(1-4) C(4) rings pushers pullers show ?thesis by (simp add: adp_ok_def v')
qed

lemma advance_mod:
  assumes "0 < sz" and "sz < 2 ^ 32"
  shows "((w mod sz + 1) mod 2 ^ 32) mod sz = (w + 1) mod (sz::nat)"
proof -
  have "w mod sz + 1 \<le> sz" using assms(1) by (simp add: Suc_leI)
  then have "w mod sz + 1 < 2 ^ 32" using assms(2) by linarith
  then show ?thesis by (simp add: mod_Suc_eq)
qed

lemma count_down:
  assumes "0 < c" and "c < 2 ^ 32"
  shows "(c + 2 ^ 32 - 1) mod 2 ^ 32 = (c - 1 :: nat)"
proof -
  have "c + 2 ^ 32 - 1 = (c - 1) + 2 ^ 32" using assms(1) by simp
  then have "(c + 2 ^ 32 - 1) mod 2 ^ 32 = (c - 1) mod 2 ^ 32" by (simp only: mod_add_self2)
  with assms(2) show ?thesis by simp
qed

lemma step_push_done:
  assumes ok: "adp_ok inp m n v" and p: "p < m" and pc: "n_ppc v p = Copying (n_sockets (n_sh v))"
    and run: "wake_up_puller (n_sh v, n_pu v p) = (sh', i')"
    and v': "v' = v\<lparr>n_sh := sh', n_pu := (n_pu v)(p := i'), n_ppc := (n_ppc v)(p := At_wait),
      n_sent := (n_sent v)(p := n_sent v p + 1)\<rparr>"
  shows "adp_ok inp m n v'"
proof -
  let ?sh = "n_sh v" and ?r = "i_cur_push (n_pu v p)" and ?L = "lcm m n" and ?sz = "a_size (n_sh v)"
  note D = adp_okD [OF ok] and cr = cur_push_ring [OF ok p] and C = wake_up_puller_sel [OF run]
  have sz: "0 < ?sz" "?sz < 2 ^ 32" and len: "length (a_buffer ?sh) = ?L" and np: "a_n_pushers ?sh = m"
    using D(3) by (simp_all add: table_ok_def)
  have W: "written m n v' r = written m n v r + (if r = ?r then 1 else 0)" if "r < ?L" for r
    unfolding cr(1) by (rule written_step [OF D(1,2) p that]) (simp add: v')
  have T: "taken m n v' = taken m n v" by (rule taken_same) (simp add: v')
  have P: "written m n v ?r < taken m n v ?r + ?sz"
      "\<forall>k < n_sockets ?sh. slot ?sh ?r k (written m n v ?r mod ?sz) = inp (next_push m v p) ! k"
    using D(6) [OF p] pc cr(1) by (simp_all add: pusher_ok_def Let_def)
  have own: "?r + written m n v ?r * ?L = next_push m v p" using D(1,2) p cr(1) by (rule written_own)
  have rings: "rings_ok inp m n v'"
  proof -
    have "a_last sh' r = (written m n v' r) mod ?sz \<and> a_first sh' r = taken m n v r mod ?sz \<and>
        taken m n v r \<le> written m n v' r \<and> written m n v' r \<le> taken m n v r + ?sz \<and>
        a_counter sh' r + written m n v' r = taken m n v r + ?sz \<and>
        (\<forall>i s. taken m n v r \<le> i \<longrightarrow> i < written m n v' r \<longrightarrow> s < n_sockets ?sh \<longrightarrow>
          slot ?sh r s (i mod ?sz) = inp (r + i * ?L) ! s)" if r: "r < ?L" for r
    proof (cases "r = ?r")
      case False
      with W [OF r] ring_facts [OF ok r] C(5-7) show ?thesis by simp
    next
      case True
      note F = ring_facts [OF ok cr(2)]
      have c: "0 < a_counter ?sh ?r" "a_counter ?sh ?r < 2 ^ 32" using F(3,5) P(1) sz by linarith+
      have cd: "a_counter sh' ?r = a_counter ?sh ?r - 1" using C(7) count_down [OF c] by simp
      have la: "a_last sh' ?r = (written m n v ?r + 1) mod ?sz"
        using C(6) F(1) advance_mod [OF sz] by simp
      have w: "written m n v' ?r = written m n v ?r + 1" using W [OF cr(2)] by simp
      have new: "slot ?sh ?r s (written m n v ?r mod ?sz) = inp (?r + written m n v ?r * ?L) ! s"
        if "s < n_sockets ?sh" for s using P(2) that own by simp
      have "slot ?sh ?r s (i mod ?sz) = inp (?r + i * ?L) ! s"
        if "taken m n v ?r \<le> i" "i < written m n v ?r + 1" "s < n_sockets ?sh" for i s
        using that new F(6) by (cases "i = written m n v ?r") auto
      with True w la cd c F P(1) C(5) show ?thesis by simp
    qed
    then show ?thesis unfolding rings_ok_def Let_def T using C(2,3,11) by (simp add: v')
  qed
  have pushers: "pusher_ok inp m n v' p'" if p': "p' < m" for p'
  proof (cases "p' = p")
    case True
    have nx: "next_push m v' p = next_push m v p + m" by (simp add: v' next_push_def)
    have "i_cur_push i' = (?r + m) mod ?L" using C(9) len np by simp
    also have "\<dots> = (next_push m v p + m) mod ?L" unfolding cr(1) by (simp add: mod_add_left_eq)
    finally have "i_cur_push i' = (next_push m v p + m) mod ?L" .
    with True C(8) cr(4) show ?thesis by (simp add: pusher_ok_def Let_def nx) (simp add: v')
  next
    case False
    have nx: "next_push m v' p' = next_push m v p'" using False by (simp add: v' next_push_def)
    have "next_push m v p' mod ?L \<noteq> ?r"
      using cr(3) False p' lcm_mod_mod(1) [of "next_push m v p'" m n] next_push_mod [OF p'] by metis
    then have "written m n v' (next_push m v p' mod ?L) = written m n v (next_push m v p' mod ?L)"
      using W D(8) by simp
    with False D(6) [OF p'] C(2,3,11) show ?thesis
      unfolding pusher_ok_def Let_def nx T by (simp add: v' cong: pc.case_cong)
  qed
  have pullers: "puller_ok inp m n v' q" if "q < n" for q
  proof -
    have "next_pull n v' q = next_pull n v q" by (simp add: v' next_pull_def)
    moreover have "written m n v (next_pull n v q mod ?L) \<le> written m n v' (next_pull n v q mod ?L)"
      using W D(8) by simp
    ultimately show ?thesis using D(7) [OF that] C(3)
      by (simp add: puller_ok_def Let_def T cong: pc.case_cong) (auto simp: v' split: pc.split)
  qed
  have "table_ok m n (n_sh v')" using C(10) D(3) by (simp add: v')
  with D(1-4) C(3) rings pushers pullers show ?thesis by (simp add: adp_ok_def v')
qed

lemma take_Suc_nth: "k < length xs \<Longrightarrow> take k xs @ [xs ! k] = take (Suc k) xs"
  by (simp add: take_Suc_conv_app_nth)

lemma step_pull_copy:
  assumes ok: "adp_ok inp m n v" and q: "q < n" and pc: "n_lpc v q = Copying s" and s: "s < n_sockets (n_sh v)"
    and run: "copy_pull [s] (n_sh v, n_pl v q) = Inr fs"
    and v': "v' = v\<lparr>n_part := (n_part v)(q := n_part v q @ fs), n_lpc := (n_lpc v)(q := Copying (Suc s))\<rparr>"
  shows "adp_ok inp m n v'"
proof (rule adp_ok_pc [OF ok])
  let ?sh = "n_sh v" and ?r = "i_cur_pull (n_pl v q)" and ?L = "lcm m n" and ?sz = "a_size (n_sh v)"
  note D = adp_okD [OF ok] and cr = cur_pull_ring [OF ok q]
  note F = ring_facts [OF ok cr(2)]
  have P: "taken m n v ?r < written m n v ?r" "n_part v q = take s (inp (next_pull n v q))"
    using D(7) [OF q] pc cr(1) by (simp_all add: puller_ok_def Let_def)
  have "fs = [slot ?sh ?r s (a_first ?sh ?r)]"
    using run D(3) by (auto simp: get_filled_buffer_def table_ok_def slot_def)
  moreover have "?r + taken m n v ?r * ?L = next_pull n v q" using D(1,2) q cr(1) by (rule taken_own)
  ultimately have fs: "fs = [inp (next_pull n v q) ! s]" using F(2,6) P(1) s by simp
  fix q' assume q': "q' < n"
  show "puller_ok inp m n v' q'"
  proof (cases "q' = q")
    case True
    with fs P(2) s D(4) [of "next_pull n v q"] D(7) [OF q] pc show ?thesis
      by (simp add: puller_ok_def Let_def v' take_Suc_nth)
  next
    case False
    with D(7) [OF q'] show ?thesis by (intro puller_ok_cong [OF D(7) [OF q']]) (simp_all add: v')
  qed
next
  fix p assume "p < m"
  from adp_okD(6) [OF ok this] show "pusher_ok inp m n v' p"
    by (rule pusher_ok_cong) (simp_all add: v')
qed (simp_all add: v')

lemma step_pull_done:
  assumes ok: "adp_ok inp m n v" and q: "q < n" and pc: "n_lpc v q = Copying (n_sockets (n_sh v))"
    and run: "wake_up_pusher (n_sh v, n_pl v q) = (sh', i')"
    and v': "v' = v\<lparr>n_sh := sh', n_pl := (n_pl v)(q := i'), n_lpc := (n_lpc v)(q := At_wait),
      n_part := (n_part v)(q := []), n_outs := (n_outs v)(q := n_outs v q @ [n_part v q])\<rparr>"
  shows "adp_ok inp m n v'"
proof -
  let ?sh = "n_sh v" and ?r = "i_cur_pull (n_pl v q)" and ?L = "lcm m n" and ?sz = "a_size (n_sh v)"
  note D = adp_okD [OF ok] and cr = cur_pull_ring [OF ok q] and C = wake_up_pusher_sel [OF run]
  have sz: "0 < ?sz" "?sz < 2 ^ 32" and len: "length (a_buffer ?sh) = ?L" and np: "a_n_pullers ?sh = n"
    using D(3) by (simp_all add: table_ok_def)
  have T: "taken m n v' r = taken m n v r + (if r = ?r then 1 else 0)" if "r < ?L" for r
    unfolding cr(1) by (rule taken_step [OF D(1,2) q that]) (simp add: v')
  have W: "written m n v' = written m n v" by (rule written_same) (simp add: v')
  have P: "taken m n v ?r < written m n v ?r" "n_part v q = inp (next_pull n v q)"
    using D(7) [OF q] pc cr(1) D(4) [of "next_pull n v q"] by (simp_all add: puller_ok_def Let_def)
  have rings: "rings_ok inp m n v'"
  proof -
    have "a_last sh' r = written m n v r mod ?sz \<and> a_first sh' r = taken m n v' r mod ?sz \<and>
        taken m n v' r \<le> written m n v r \<and> written m n v r \<le> taken m n v' r + ?sz \<and>
        a_counter sh' r + written m n v r = taken m n v' r + ?sz \<and>
        (\<forall>i s. taken m n v' r \<le> i \<longrightarrow> i < written m n v r \<longrightarrow> s < n_sockets ?sh \<longrightarrow>
          slot ?sh r s (i mod ?sz) = inp (r + i * ?L) ! s)" if r: "r < ?L" for r
    proof (cases "r = ?r")
      case False
      with T [OF r] ring_facts [OF ok r] C(5-7) show ?thesis by simp
    next
      case True
      note F = ring_facts [OF ok cr(2)]
      have "a_counter ?sh ?r + 1 < 2 ^ 32" using F(3,5) P(1) sz by linarith
      then have cd: "a_counter sh' ?r = a_counter ?sh ?r + 1" using C(7) by simp
      have fi: "a_first sh' ?r = (taken m n v ?r + 1) mod ?sz" using C(6) F(2) advance_mod [OF sz] by simp
      have t: "taken m n v' ?r = taken m n v ?r + 1" using T [OF cr(2)] by simp
      from True t fi cd F P(1) C(5) show ?thesis by simp
    qed
    then show ?thesis unfolding rings_ok_def Let_def W using C(2,3,11) by (simp add: v')
  qed
  have pullers: "puller_ok inp m n v' q'" if q': "q' < n" for q'
  proof (cases "q' = q")
    case True
    have nx: "next_pull n v' q = next_pull n v q + n" by (simp add: v' next_pull_def)
    have "i_cur_pull i' = (?r + n) mod ?L" using C(9) len np by simp
    also have "\<dots> = (next_pull n v q + n) mod ?L" unfolding cr(1) by (simp add: mod_add_left_eq)
    finally have cur: "i_cur_pull i' = (next_pull n v q + n) mod ?L" .
    have "n_outs v q = map (\<lambda>j. inp (q + j * n)) [0..<length (n_outs v q)]"
      using D(7) [OF q] by (simp add: puller_ok_def Let_def)
    then have "n_outs v q @ [inp (next_pull n v q)] = map (\<lambda>j. inp (q + j * n)) [0..<Suc (length (n_outs v q))]"
      by (simp add: next_pull_def)
    with True C(8) cr(4) cur P(2) show ?thesis by (simp add: puller_ok_def Let_def nx del: upt_Suc) (simp add: v')
  next
    case False
    have nx: "next_pull n v' q' = next_pull n v q'" using False by (simp add: v' next_pull_def)
    have "next_pull n v q' mod ?L \<noteq> ?r"
      using cr(3) False q' lcm_mod_mod(2) [of "next_pull n v q'" m n] next_pull_mod [OF q'] by metis
    then have "taken m n v' (next_pull n v q' mod ?L) = taken m n v (next_pull n v q' mod ?L)"
      using T D(8) by simp
    with False D(7) [OF q'] C(2,3,11) show ?thesis
      unfolding puller_ok_def Let_def nx W by (simp add: v' cong: pc.case_cong)
  qed
  have pushers: "pusher_ok inp m n v' p" if "p < m" for p
  proof -
    have "next_push m v' p = next_push m v p" by (simp add: v' next_push_def)
    moreover have "taken m n v (next_push m v p mod ?L) \<le> taken m n v' (next_push m v p mod ?L)"
      using T D(8) by simp
    ultimately show ?thesis using D(6) [OF that] C(2,3,11)
      by (simp add: pusher_ok_def Let_def W cong: pc.case_cong) (auto simp: v' split: pc.split)
  qed
  have "table_ok m n (n_sh v')" using C(10) D(3) by (simp add: v')
  with D(1-4) C(3) rings pushers pullers show ?thesis by (simp add: adp_ok_def v')
qed

text \<open>Every step.\<close>

lemma wait_push_ok:
  assumes "wait_push sh i = Some (Inr ())"
  shows "0 < a_counter sh (i_cur_push i)"
  using assms by (auto simp: wait_push_def is_full_def split: if_splits)

lemma wait_pull_ok:
  assumes "wait_pull sh i = Some (Inr ())"
  shows "a_counter sh (i_cur_pull i) \<noteq> a_size sh"
  using assms by (auto simp: wait_pull_def is_empty_def split: if_splits)

lemma adp_step_keeps: "adp_step inp m n v v' \<Longrightarrow> adp_ok inp m n v \<Longrightarrow> adp_ok inp m n v'"
proof (induction rule: adp_step.induct)
  case (push_go p v)
  from ring_facts(5) [OF push_go.prems cur_push_ring(2) [OF push_go.prems push_go.hyps(1)]]
    wait_push_ok [OF push_go.hyps(3)]
  show ?case by (intro pc_pusher [OF push_go.prems refl]) simp
next
  case (push_stop p v e)
  then show ?case by (intro pc_pusher [OF push_stop.prems refl]) simp
next
  case (push_copy p v s sh' i')
  then show ?case by (intro step_push_copy [OF push_copy.prems push_copy.hyps refl])
next
  case (push_done p v sh' i')
  then show ?case by (intro step_push_done [OF push_done.prems push_done.hyps refl])
next
  case (pull_go q v)
  from ring_facts(3,5) [OF pull_go.prems cur_pull_ring(2) [OF pull_go.prems pull_go.hyps(1)]]
    wait_pull_ok [OF pull_go.hyps(3)]
  show ?case by (intro pc_puller [OF pull_go.prems refl pull_go.hyps(2)]) auto
next
  case (pull_stop q v e)
  then show ?case by (intro pc_puller [OF pull_stop.prems refl pull_stop.hyps(2)]) simp
next
  case (pull_copy q v s fs)
  then show ?case by (intro step_pull_copy [OF pull_copy.prems pull_copy.hyps refl])
next
  case (pull_done q v sh' i')
  then show ?case by (intro step_pull_done [OF pull_done.prems pull_done.hyps refl])
next
  case (cancel_push p v)
  then show ?case
    by (intro adp_ok_pc [OF cancel_push.prems])
      (auto intro: pusher_ok_cong [OF adp_okD(6)] puller_ok_cong [OF adp_okD(7)] simp: cancel_waiting_def)
next
  case (cancel_pull q v)
  then show ?case
    by (intro adp_ok_pc [OF cancel_pull.prems])
      (auto intro: pusher_ok_cong [OF adp_okD(6)] puller_ok_cong [OF adp_okD(7)] simp: cancel_waiting_def)
qed

section \<open>The start\<close>

text \<open>
  The order of \<^verbatim>\<open>Pipeline::create_adaptors\<close>: an adaptor for the first thread of the stage, a clone made
  pusher for every other thread, a clone made puller for every other thread of the next stage, then the
  buffers.
\<close>

fun clone_pushers :: "nat \<Rightarrow> shared \<times> inst \<Rightarrow> (shared \<times> inst, inst list) outcome" where
  "clone_pushers 0 s = (Inr [], s)"
| "clone_pushers (Suc k) s = bindo (clone_pushers k s) (\<lambda>cs s1. bindo (clone_adaptor s1) (\<lambda>c s2.
     case add_pusher (fst s2, c) of
       (Inl e, _) \<Rightarrow> (Inl e, s2)
     | (Inr _, (sh, c')) \<Rightarrow> (Inr (cs @ [c']), (sh, snd s2))))"

fun clone_pullers :: "nat \<Rightarrow> shared \<times> inst \<Rightarrow> (shared \<times> inst, inst list) outcome" where
  "clone_pullers 0 s = (Inr [], s)"
| "clone_pullers (Suc k) s = bindo (clone_pullers k s) (\<lambda>cs s1. bindo (clone_adaptor s1) (\<lambda>c s2.
     case add_puller (fst s2, c) of
       (Inl e, _) \<Rightarrow> (Inl e, s2)
     | (Inr _, (sh, c')) \<Rightarrow> (Inr (cs @ [c']), (sh, snd s2))))"

definition start_net :: "shared \<times> inst \<Rightarrow> inst list \<Rightarrow> inst list \<Rightarrow> net" where
  "start_net s ps qs = \<lparr>n_sh = fst s, n_pu = (\<lambda>p. if p = 0 then snd s else ps ! (p - 1)),
     n_pl = (\<lambda>q. if q = 0 then snd s else qs ! (q - 1)), n_ppc = (\<lambda>_. At_wait), n_lpc = (\<lambda>_. At_wait),
     n_sent = (\<lambda>_. 0), n_part = (\<lambda>_. []), n_outs = (\<lambda>_. [])\<rparr>"

definition connect :: "nat \<Rightarrow> nat \<Rightarrow> nat list \<Rightarrow> type_index list \<Rightarrow> nat \<Rightarrow> exn + net" where
  "connect m n n_elmts datatype buffer_size =
     (case new_adaptor n_elmts datatype buffer_size of Inl e \<Rightarrow> Inl e
      | Inr s \<Rightarrow> (case bindo (clone_pushers (m - 1) s) (\<lambda>ps s1. bindo (clone_pullers (n - 1) s1) (\<lambda>qs s2.
            bindo (alloc_buffers s2) (\<lambda>_ s3. (Inr (ps, qs), s3)))) of
          (Inl e, _) \<Rightarrow> Inl e
        | (Inr (ps, qs), s3) \<Rightarrow> Inr (start_net s3 ps qs)))"

definition fresh :: "nat \<Rightarrow> nat \<Rightarrow> nat \<Rightarrow> shared \<times> inst \<Rightarrow> bool" where
  "fresh m n sz s \<longleftrightarrow> (case s of (sh, i) \<Rightarrow> a_n_pushers sh = m \<and> a_n_pullers sh = n \<and>
     a_n_clones sh + 2 = m + n \<and> \<not> a_allocated sh \<and> a_size sh = sz \<and> \<not> i_cloned i \<and> i_tid_push i = 0 \<and>
     i_tid_pull i = 0 \<and> i_cur_push i = 0 \<and> i_cur_pull i = 0 \<and> i_to_free i = [])"

lemma clone_pushers_fresh:
  assumes "fresh 1 1 sz s"
  shows "\<exists>ps s'. clone_pushers k s = (Inr ps, s') \<and> fresh (Suc k) 1 sz s' \<and>
    n_sockets (fst s') = n_sockets (fst s) \<and> length ps = k \<and>
    (\<forall>j < k. i_tid_push (ps ! j) = int (Suc j) \<and> i_cur_push (ps ! j) = Suc j)"
proof (induction k)
  case 0
  with assms show ?case by (simp add: fresh_def)
next
  case (Suc k)
  then obtain ps s' where IH: "clone_pushers k s = (Inr ps, s')" "fresh (Suc k) 1 sz s'"
    "n_sockets (fst s') = n_sockets (fst s)" "length ps = k"
    "\<forall>j < k. i_tid_push (ps ! j) = int (Suc j) \<and> i_cur_push (ps ! j) = Suc j" by blast
  then show ?case
    by (cases s') (auto simp: fresh_def clone_adaptor_def add_pusher_def n_sockets_def nth_append less_Suc_eq)
qed

lemma clone_pullers_fresh:
  assumes "fresh m 1 sz s" and "0 < m"
  shows "\<exists>qs s'. clone_pullers k s = (Inr qs, s') \<and> fresh m (Suc k) sz s' \<and>
    n_sockets (fst s') = n_sockets (fst s) \<and> length qs = k \<and>
    (\<forall>j < k. i_tid_pull (qs ! j) = int (Suc j) \<and> i_cur_pull (qs ! j) = Suc j)"
proof (induction k)
  case 0
  with assms show ?case by (simp add: fresh_def)
next
  case (Suc k)
  then obtain qs s' where IH: "clone_pullers k s = (Inr qs, s')" "fresh m (Suc k) sz s'"
    "n_sockets (fst s') = n_sockets (fst s)" "length qs = k"
    "\<forall>j < k. i_tid_pull (qs ! j) = int (Suc j) \<and> i_cur_pull (qs ! j) = Suc j" by blast
  with assms(2) show ?case
    by (cases s') (auto simp: fresh_def clone_adaptor_def add_puller_def n_sockets_def nth_append less_Suc_eq)
qed

lemma mult_add_inj: "(x::nat) * k + y = x' * k + y' \<Longrightarrow> y < k \<Longrightarrow> y' < k \<Longrightarrow> x = x' \<and> y = y'"
  by (metis add.commute div_mult_self1 div_less mod_less mod_mult_self1 add_0 less_nat_zero_code)

lemma block_of_inj:
  assumes "block_of base n sz d s b = block_of base n sz d' s' b'" and "s < n" "s' < n" "b < sz" "b' < sz"
  shows "d = d' \<and> s = s' \<and> b = b'"
proof -
  have "(d * n + s) * sz + b = (d' * n + s') * sz + b'" using assms(1) by (simp add: block_of_def)
  from mult_add_inj [OF this assms(4,5)] have "d * n + s = d' * n + s'" and "b = b'" by simp_all
  with mult_add_inj [OF this(1) assms(2,3)] show ?thesis by simp
qed

lemma alloc_buffers_table:
  assumes f: "fresh m n sz s" and mn: "0 < m" "0 < n" and le: "lcm m n \<le> 1000" and sz: "0 < sz" "sz < 2 ^ 32"
  shows "\<exists>s'. alloc_buffers s = (Inr (), s') \<and> table_ok m n (fst s') \<and> a_size (fst s') = sz \<and>
    n_sockets (fst s') = n_sockets (fst s) \<and> i_tid_push (snd s') = 0 \<and> i_tid_pull (snd s') = 0 \<and>
    i_cur_push (snd s') = 0 \<and> i_cur_pull (snd s') = 0 \<and>
    (\<forall>r < lcm m n. a_first (fst s') r = 0 \<and> a_last (fst s') r = 0 \<and> a_counter (fst s') r = sz)"
proof -
  obtain sh i where s: "s = (sh, i)" by (cases s)
  note F = f [unfolded s fresh_def prod.case]
  have scm: "find_smallest_common_multiple (a_n_pushers sh) (a_n_pullers sh) = Some (Inr (lcm m n))"
    using F mn by (simp add: find_scm)
  have inj: "r = r' \<and> a = a' \<and> k = k'" if "r < lcm m n" "r' < lcm m n" "a < n_sockets sh" "a' < n_sockets sh"
    "k < sz" "k' < sz" "block_of (a_next sh) (n_sockets sh) sz r a k = block_of (a_next sh) (n_sockets sh) sz r' a' k'"
    for r a k r' a' k' using block_of_inj [OF that(7)] that by blast
  have "\<not> 1000 < lcm m n" using le by simp
  with F scm show ?thesis
    using sz mn inj by (simp add: alloc_buffers_def s Let_def table_ok_def n_sockets_def)
qed

lemma new_adaptor_fresh:
  assumes "new_adaptor n_elmts datatype sz = Inr s"
  shows "fresh 1 1 sz s" and "0 < sz"
  using assms by (auto simp: new_adaptor_def fresh_def split: sum.splits if_splits)

lemma count_zero:
  assumes "0 < m" and "0 < n" and "r < lcm m n"
  shows "ring_count (lcm m n) r (r mod m) = 0" and "ring_count (lcm m n) r (r mod n) = 0"
proof -
  obtain m' n' where m: "m = Suc m'" "n = Suc n'" using assms(1,2) by (metis Suc_pred')
  show "ring_count (lcm m n) r (r mod m) = 0" "ring_count (lcm m n) r (r mod n) = 0"
    using assms(3) push_rr.count_start [of r m' n' "r mod m"] pull_rr.count_start [of r m' n' "r mod n"]
    by (simp_all add: m)
qed

lemma start_net_ok:
  assumes con: "connect m n n_elmts datatype sz = Inr v" and mn: "0 < m" "0 < n" and sz: "sz < 2 ^ 32"
    and inp: "\<And>k. length (inp k) = n_sockets (n_sh v)"
  shows "adp_ok inp m n v"
proof -
  from con obtain s where s: "new_adaptor n_elmts datatype sz = Inr s"
    by (auto simp: connect_def split: sum.splits)
  from new_adaptor_fresh [OF s] have f0: "fresh 1 1 sz s" and sz0: "0 < sz" by simp_all
  from clone_pushers_fresh [OF f0, of "m - 1"] mn(1) obtain ps s1 where
    1: "clone_pushers (m - 1) s = (Inr ps, s1)" "fresh m 1 sz s1" "n_sockets (fst s1) = n_sockets (fst s)"
      "length ps = m - 1" "\<forall>j < m - 1. i_tid_push (ps ! j) = int (Suc j) \<and> i_cur_push (ps ! j) = Suc j"
    by auto
  from clone_pullers_fresh [OF 1(2) mn(1), of "n - 1"] mn(2) obtain qs s2 where
    2: "clone_pullers (n - 1) s1 = (Inr qs, s2)" "fresh m n sz s2" "n_sockets (fst s2) = n_sockets (fst s1)"
      "length qs = n - 1" "\<forall>j < n - 1. i_tid_pull (qs ! j) = int (Suc j) \<and> i_cur_pull (qs ! j) = Suc j"
    by auto
  have le: "lcm m n \<le> 1000"
  proof (rule ccontr)
    assume "\<not> lcm m n \<le> 1000"
    then have "\<exists>e. fst (alloc_buffers s2) = Inl e"
      using 2(2) mn by (cases s2) (auto simp: fresh_def alloc_buffers_def find_scm Let_def)
    then obtain e s3 where "alloc_buffers s2 = (Inl e, s3)" by (cases "alloc_buffers s2") auto
    with con s 1(1) 2(1) show False by (simp add: connect_def)
  qed
  from alloc_buffers_table [OF 2(2) mn le sz0 sz] obtain s3 where
    3: "alloc_buffers s2 = (Inr (), s3)" "table_ok m n (fst s3)" "a_size (fst s3) = sz"
      "i_tid_push (snd s3) = 0" "i_tid_pull (snd s3) = 0" "i_cur_push (snd s3) = 0" "i_cur_pull (snd s3) = 0"
      "\<forall>r < lcm m n. a_first (fst s3) r = 0 \<and> a_last (fst s3) r = 0 \<and> a_counter (fst s3) r = sz" by blast
  have v: "v = start_net s3 ps qs" using con s 1(1) 2(1) 3(1) by (simp add: connect_def)
  have np: "next_push m v p = p" and nq: "next_pull n v q = q" for p q
    by (simp_all add: v start_net_def next_push_def next_pull_def)
  have L: "p < lcm m n" if "p < m \<or> p < n" for p
    using that dvd_imp_le [of m "lcm m n"] dvd_imp_le [of n "lcm m n"] mn by (auto simp: lcm_pos_nat)
  have "rings_ok inp m n v"
    using 3(3,8) sz0 count_zero [OF mn]
    by (simp add: rings_ok_def Let_def written_def taken_def np nq) (simp add: v start_net_def)
  moreover have "pusher_ok inp m n v p" if "p < m" for p
    using that L [of p] 1(5) 3(4,6) by (cases p) (simp_all add: pusher_ok_def Let_def np, simp_all add: v start_net_def)
  moreover have "puller_ok inp m n v q" if "q < n" for q
    using that L [of q] 2(5) 3(5,7) by (cases q) (simp_all add: puller_ok_def Let_def nq, simp_all add: v start_net_def)
  moreover have "table_ok m n (n_sh v)" using 3(2) by (simp add: v start_net_def)
  ultimately show ?thesis using mn inp by (simp add: adp_ok_def)
qed

lemma reachable_ok: "(adp_step inp m n)\<^sup>*\<^sup>* v v' \<Longrightarrow> adp_ok inp m n v \<Longrightarrow> adp_ok inp m n v'"
  by (induction rule: rtranclp_induct) (auto intro: adp_step_keeps)

lemma written_le:
  assumes "0 < m" and "0 < n" and "r < lcm m n"
  shows "written m n v r \<le> k \<longleftrightarrow> next_push m v (r mod m) \<le> r + k * lcm m n"
proof -
  obtain m' n' where m: "m = Suc m'" "n = Suc n'" using assms(1,2) by (metis Suc_pred')
  show ?thesis using push_rr.count_le [of r m' n'] assms(3) by (simp add: written_def m)
qed

lemma taken_le:
  assumes "0 < m" and "0 < n" and "r < lcm m n"
  shows "taken m n v r \<le> k \<longleftrightarrow> next_pull n v (r mod n) \<le> r + k * lcm m n"
proof -
  obtain m' n' where m: "m = Suc m'" "n = Suc n'" using assms(1,2) by (metis Suc_pred')
  show ?thesis using pull_rr.count_le [of r m' n'] assms(3) by (simp add: taken_def m)
qed

text \<open>What was pulled had been pushed.\<close>

lemma pulled_was_pushed:
  assumes ok: "adp_ok inp m n v" and q: "q < n" and j: "j < length (n_outs v q)"
  shows "(q + j * n) div m < n_sent v ((q + j * n) mod m)"
proof -
  let ?x = "q + j * n" and ?L = "lcm m n"
  note D = adp_okD [OF ok]
  let ?r = "?x mod ?L"
  have r: "?r < ?L" using D(8) by simp
  have x: "?x = ?r + ?x div ?L * ?L" by (simp only: mod_div_mult_eq)
  have "?r mod n = q" using q by (simp add: lcm_mod_mod)
  have "?x < next_pull n v q" using j D(2) by (simp add: next_pull_def)
  then have "\<not> taken m n v ?r \<le> ?x div ?L"
    using taken_le [OF D(1,2) r, of v "?x div ?L"] x \<open>?r mod n = q\<close> by simp
  then have "\<not> written m n v ?r \<le> ?x div ?L" using ring_facts(3) [OF ok r] by simp
  then have "?x < next_push m v (?x mod m)" using written_le [OF D(1,2) r, of v "?x div ?L"] x
    by (simp add: lcm_mod_mod)
  then have "?x < ?x mod m + n_sent v (?x mod m) * m" by (simp add: next_push_def)
  then have "?x div m * m < n_sent v (?x mod m) * m" using mod_div_mult_eq [of ?x m] by linarith
  then show ?thesis by (simp only: mult_less_cancel2)
qed

text \<open>The thread with the oldest frame can always go on.\<close>

lemma not_all_blocked:
  assumes ok: "adp_ok inp m n v"
  shows "(\<exists>p < m. n_ppc v p \<noteq> At_wait \<or> wait_push (n_sh v) (n_pu v p) \<noteq> None) \<or>
    (\<exists>q < n. n_lpc v q \<noteq> At_wait \<or> wait_pull (n_sh v) (n_pl v q) \<noteq> None)"
proof (rule ccontr)
  assume no: "\<not> ?thesis"
  let ?L = "lcm m n" and ?sz = "a_size (n_sh v)"
  note D = adp_okD [OF ok]
  have sz: "0 < ?sz" using D(3) by (simp add: table_ok_def)
  have full: "a_counter (n_sh v) (i_cur_push (n_pu v p)) = 0" if "p < m" for p
    using no that by (auto simp: wait_push_def is_full_def split: if_splits)
  have empty: "a_counter (n_sh v) (i_cur_pull (n_pl v q)) = ?sz" if "q < n" for q
    using no that by (auto simp: wait_pull_def is_empty_def split: if_splits)
  define q0 where "q0 = (ARG_MIN (next_pull n v) q. q < n)"
  have q0: "q0 < n" and least: "next_pull n v q0 \<le> next_pull n v q" if "q < n" for q
    using arg_min_nat_lemma [of "\<lambda>q. q < n" 0 "next_pull n v"] arg_min_nat_le [of "\<lambda>q. q < n" q "next_pull n v"]
      D(2) that by (auto simp: q0_def)
  then have q0: "q0 < n" using D(2) by blast
  let ?x = "next_pull n v q0"
  let ?r0 = "i_cur_pull (n_pl v q0)"
  note r0 = cur_pull_ring [OF ok q0]
  have "written m n v ?r0 = taken m n v ?r0" using ring_facts(5) [OF ok r0(2)] empty [OF q0] by simp
  then have "next_push m v (?r0 mod m) \<le> ?r0 + taken m n v ?r0 * ?L"
    using written_le [OF D(1,2) r0(2), of v "taken m n v ?r0"] by simp
  also have "\<dots> = ?x" using D(1,2) q0 r0(1) by (rule taken_own)
  finally have y: "next_push m v (?r0 mod m) \<le> ?x" .
  let ?p = "?r0 mod m"
  have p: "?p < m" using D(1) by simp
  let ?r1 = "i_cur_push (n_pu v ?p)"
  note r1 = cur_push_ring [OF ok p]
  have own: "?r1 + written m n v ?r1 * ?L = next_push m v ?p" using D(1,2) p r1(1) by (rule written_own)
  have tw: "taken m n v ?r1 + ?sz = written m n v ?r1" using ring_facts(5) [OF ok r1(2)] full [OF p] by simp
  have "next_pull n v (?r1 mod n) \<le> ?r1 + taken m n v ?r1 * ?L" using taken_le [OF D(1,2) r1(2), of v "taken m n v ?r1"] by simp
  also have "\<dots> < ?r1 + written m n v ?r1 * ?L" using tw sz D(8) by auto
  also have "\<dots> \<le> ?x" using own y by simp
  also have "\<dots> \<le> next_pull n v (?r1 mod n)" using least D(2) by simp
  finally show False by simp
qed

section \<open>Properties\<close>

text \<open>
  C1: With \<open>m\<close> pushers and \<open>n\<close> pullers, in every interleaving of their steps, and whether some of them
  are cancelled or not, the puller \<open>q\<close> has received exactly the frames \<open>q, q + n, q + 2 * n, ...\<close>, in this
  order and with the content the pushers gave them, and each of them had been pushed before. No frame is
  lost, duplicated, mixed or reordered.
\<close>

theorem adaptor_keeps_frame_order:
  assumes "connect m n n_elmts datatype buffer_size = Inr v0" and "0 < m" and "0 < n"
    and "buffer_size < 2 ^ 32" and "\<And>k. length (inp k) = n_sockets (n_sh v0)"
    and "(adp_step inp m n)\<^sup>*\<^sup>* v0 v" and "q < n"
  shows "n_outs v q = map (\<lambda>j. inp (q + j * n)) [0..<length (n_outs v q)] \<and>
    (\<forall>j < length (n_outs v q). (q + j * n) div m < n_sent v ((q + j * n) mod m))"
proof -
  from reachable_ok [OF assms(6) start_net_ok [OF assms(1-5)]] have ok: "adp_ok inp m n v" .
  from adp_okD(7) [OF ok assms(7)] pulled_was_pushed [OF ok assms(7)] show ?thesis
    by (simp add: puller_ok_def Let_def)
qed


text \<open>
  The example: two pushers, three pullers, one socket of one \<^verbatim>\<open>int8_t\<close>, rings of two slots; the frame \<open>k\<close>
  is the byte \<open>k + 7\<close>. A turn is a push or a pull from the wait to the end.
\<close>

definition inp_example :: "nat \<Rightarrow> frame" where
  "inp_example k = [[word_of_nat (k + 7)]]"

definition push_turn :: "nat \<Rightarrow> net \<Rightarrow> net" where
  "push_turn p v = (let v1 = v\<lparr>n_ppc := (n_ppc v)(p := Copying 0)\<rparr>;
     (sh2, i2) = snd (copy_push (inp_example (next_push 2 v1 p)) 0 (n_sh v1, n_pu v1 p));
     v2 = v1\<lparr>n_sh := sh2, n_pu := (n_pu v1)(p := i2), n_ppc := (n_ppc v1)(p := Copying (Suc 0))\<rparr>;
     (sh3, i3) = wake_up_puller (n_sh v2, n_pu v2 p)
   in v2\<lparr>n_sh := sh3, n_pu := (n_pu v2)(p := i3), n_ppc := (n_ppc v2)(p := At_wait),
        n_sent := (n_sent v2)(p := n_sent v2 p + 1)\<rparr>)"

definition pull_turn :: "nat \<Rightarrow> net \<Rightarrow> net" where
  "pull_turn q v = (let v1 = v\<lparr>n_lpc := (n_lpc v)(q := Copying 0)\<rparr>;
     fs = projr (copy_pull [0] (n_sh v1, n_pl v1 q));
     v2 = v1\<lparr>n_part := (n_part v1)(q := n_part v1 q @ fs), n_lpc := (n_lpc v1)(q := Copying (Suc 0))\<rparr>;
     (sh3, i3) = wake_up_pusher (n_sh v2, n_pl v2 q)
   in v2\<lparr>n_sh := sh3, n_pl := (n_pl v2)(q := i3), n_lpc := (n_lpc v2)(q := At_wait),
        n_part := (n_part v2)(q := []), n_outs := (n_outs v2)(q := n_outs v2 q @ [n_part v2 q])\<rparr>)"

fun turns :: "bool \<times> nat \<Rightarrow> net \<Rightarrow> net" where
  "turns (True, p) v = push_turn p v"
| "turns (False, q) v = pull_turn q v"

fun can_turn :: "bool \<times> nat \<Rightarrow> net \<Rightarrow> bool" where
  "can_turn (True, p) v \<longleftrightarrow> p < 2 \<and> n_sockets (n_sh v) = 1 \<and> a_allocated (n_sh v) \<and> n_ppc v p = At_wait \<and>
     wait_push (n_sh v) (n_pu v p) = Some (Inr ())"
| "can_turn (False, q) v \<longleftrightarrow> q < 3 \<and> n_sockets (n_sh v) = 1 \<and> a_allocated (n_sh v) \<and> n_lpc v q = At_wait \<and>
     wait_pull (n_sh v) (n_pl v q) = Some (Inr ())"

fun can_turns :: "(bool \<times> nat) list \<Rightarrow> net \<Rightarrow> bool" where
  "can_turns [] v = True"
| "can_turns (x # xs) v = (can_turn x v \<and> can_turns xs (turns x v))"

lemma turn_steps: "can_turn x v \<Longrightarrow> (adp_step inp_example 2 3)\<^sup>*\<^sup>* v (turns x v)"
proof (cases x)
  case (Pair b k)
  assume c: "can_turn x v"
  show ?thesis
  proof (cases b)
    case True
    let ?v1 = "v\<lparr>n_ppc := (n_ppc v)(k := Copying 0)\<rparr>"
    have 1: "adp_step inp_example 2 3 v ?v1" using c Pair True by (intro push_go) auto
    obtain sh2 i2 where C: "copy_push (inp_example (next_push 2 ?v1 k)) 0 (n_sh ?v1, n_pu ?v1 k) = (Inr (), (sh2, i2))"
      using c Pair True by (simp add: copy_push_def get_empty_buffer_def)
    let ?v2 = "?v1\<lparr>n_sh := sh2, n_pu := (n_pu ?v1)(k := i2), n_ppc := (n_ppc ?v1)(k := Copying (Suc 0))\<rparr>"
    have 2: "adp_step inp_example 2 3 ?v1 ?v2" using c Pair True C
      by (intro push_copy [where p = k and v = ?v1 and s = 0 and sh' = sh2 and i' = i2]) auto
    have ns: "n_sockets sh2 = 1"
      using C c Pair True by (auto simp: copy_push_def get_empty_buffer_def n_sockets_def)
    obtain sh3 i3 where W: "wake_up_puller (n_sh ?v2, n_pu ?v2 k) = (sh3, i3)" by fastforce
    have "adp_step inp_example 2 3 ?v2 (?v2\<lparr>n_sh := sh3, n_pu := (n_pu ?v2)(k := i3),
        n_ppc := (n_ppc ?v2)(k := At_wait), n_sent := (n_sent ?v2)(k := n_sent ?v2 k + 1)\<rparr>)"
      using c Pair True ns W
      by (intro push_done [where p = k and v = ?v2 and sh' = sh3 and i' = i3]) auto
    with 1 2 have "(adp_step inp_example 2 3)\<^sup>*\<^sup>* v (?v2\<lparr>n_sh := sh3, n_pu := (n_pu ?v2)(k := i3),
        n_ppc := (n_ppc ?v2)(k := At_wait), n_sent := (n_sent ?v2)(k := n_sent ?v2 k + 1)\<rparr>)" by force
    moreover have "push_turn k v = ?v2\<lparr>n_sh := sh3, n_pu := (n_pu ?v2)(k := i3),
        n_ppc := (n_ppc ?v2)(k := At_wait), n_sent := (n_sent ?v2)(k := n_sent ?v2 k + 1)\<rparr>"
      unfolding push_turn_def Let_def C snd_conv prod.case W ..
    ultimately show ?thesis using Pair True by simp
  next
    case False
    let ?v1 = "v\<lparr>n_lpc := (n_lpc v)(k := Copying 0)\<rparr>"
    have 1: "adp_step inp_example 2 3 v ?v1" using c Pair False by (intro pull_go) auto
    obtain fs where C: "copy_pull [0] (n_sh ?v1, n_pl ?v1 k) = Inr fs"
      using c Pair False by (simp add: get_filled_buffer_def)
    let ?v2 = "?v1\<lparr>n_part := (n_part ?v1)(k := n_part ?v1 k @ fs), n_lpc := (n_lpc ?v1)(k := Copying (Suc 0))\<rparr>"
    have 2: "adp_step inp_example 2 3 ?v1 ?v2" using c Pair False C
      by (intro pull_copy [where q = k and v = ?v1 and s = 0]) auto
    obtain sh3 i3 where W: "wake_up_pusher (n_sh ?v2, n_pl ?v2 k) = (sh3, i3)" by fastforce
    have "adp_step inp_example 2 3 ?v2 (?v2\<lparr>n_sh := sh3, n_pl := (n_pl ?v2)(k := i3),
        n_lpc := (n_lpc ?v2)(k := At_wait), n_part := (n_part ?v2)(k := []),
        n_outs := (n_outs ?v2)(k := n_outs ?v2 k @ [n_part ?v2 k])\<rparr>)"
      using c Pair False W
      by (intro pull_done [where q = k and v = ?v2 and sh' = sh3 and i' = i3]) auto
    with 1 2 have "(adp_step inp_example 2 3)\<^sup>*\<^sup>* v (?v2\<lparr>n_sh := sh3, n_pl := (n_pl ?v2)(k := i3),
        n_lpc := (n_lpc ?v2)(k := At_wait), n_part := (n_part ?v2)(k := []),
        n_outs := (n_outs ?v2)(k := n_outs ?v2 k @ [n_part ?v2 k])\<rparr>)" by force
    moreover have "pull_turn k v = ?v2\<lparr>n_sh := sh3, n_pl := (n_pl ?v2)(k := i3),
        n_lpc := (n_lpc ?v2)(k := At_wait), n_part := (n_part ?v2)(k := []),
        n_outs := (n_outs ?v2)(k := n_outs ?v2 k @ [n_part ?v2 k])\<rparr>"
      unfolding pull_turn_def Let_def C sum.sel prod.case W ..
    ultimately show ?thesis using Pair False by simp
  qed
qed

lemma turns_steps: "can_turns xs v \<Longrightarrow> (adp_step inp_example 2 3)\<^sup>*\<^sup>* v (fold turns xs v)"
proof (induction xs arbitrary: v)
  case (Cons x xs)
  then show ?case using turn_steps [of x v] by (auto intro: rtranclp_trans)
qed simp

lemma lcm23: "lcm (2::nat) 3 = 6" by (simp add: lcm_nat_def gcd_non_0_nat)

definition net0 :: net where
  "net0 = start_net
     (\<lparr>a_buffer = map (\<lambda>d. [[block_of 1 1 2 d 0 0, block_of 1 1 2 d 0 1]]) [0..<6],
       a_first = (\<lambda>_. 0), a_last = (\<lambda>_. 0), a_counter = (\<lambda>d. if d < 6 then 2 else 0),
       a_n_pushers = 2, a_n_pullers = 3, a_n_clones = 3, a_allocated = True, a_size = 2,
       a_n_bytes = [1], a_data = (\<lambda>k. if 1 \<le> k \<and> k < 13 then [0] else []), a_next = 13\<rparr>,
      \<lparr>i_tid_push = 0, i_tid_pull = 0, i_cur_push = 0, i_cur_pull = 0, i_cloned = False,
       i_canceled = False, i_no_copy_push = False, i_no_copy_pull = False, i_n_frames = 1,
       i_to_free = [1..<13]\<rparr>)
     [\<lparr>i_tid_push = 1, i_tid_pull = - 1, i_cur_push = 1, i_cur_pull = size_cast (- 1),
       i_cloned = True, i_canceled = False, i_no_copy_push = False, i_no_copy_pull = False,
       i_n_frames = 1, i_to_free = []\<rparr>]
     [\<lparr>i_tid_push = - 1, i_tid_pull = 1, i_cur_push = size_cast (- 1), i_cur_pull = 1,
       i_cloned = True, i_canceled = False, i_no_copy_push = False, i_no_copy_pull = False,
       i_n_frames = 1, i_to_free = []\<rparr>,
      \<lparr>i_tid_push = - 1, i_tid_pull = 2, i_cur_push = size_cast (- 1), i_cur_pull = 2,
       i_cloned = True, i_canceled = False, i_no_copy_push = False, i_no_copy_pull = False,
       i_n_frames = 1, i_to_free = []\<rparr>]"

definition sh_init :: "nat \<Rightarrow> nat \<Rightarrow> nat \<Rightarrow> shared" where
  "sh_init m n c = \<lparr>a_buffer = [[[0, 0]]], a_first = (\<lambda>_. 0), a_last = (\<lambda>_. 0), a_counter = (\<lambda>_. 0),
     a_n_pushers = m, a_n_pullers = n, a_n_clones = c, a_allocated = False, a_size = 2,
     a_n_bytes = [1], a_data = (\<lambda>_. []), a_next = 1\<rparr>"

definition in_init :: inst where
  "in_init = \<lparr>i_tid_push = 0, i_tid_pull = 0, i_cur_push = 0, i_cur_pull = 0, i_cloned = False,
     i_canceled = False, i_no_copy_push = False, i_no_copy_pull = False, i_n_frames = 1,
     i_to_free = []\<rparr>"

lemma init_new: "new_adaptor [1] [T_int8] 2 = Inr (sh_init 1 1 0, in_init)"
  by (simp add: new_adaptor_def compute_bytes_def sh_init_def in_init_def numeral_2_eq_2)

lemma init_pushers: "clone_pushers 1 (sh_init 1 1 0, in_init) = (Inr [in_init\<lparr>i_tid_push := 1, i_tid_pull := -1,
    i_cur_push := 1, i_cur_pull := size_cast (- 1), i_cloned := True\<rparr>], (sh_init 2 1 1, in_init))"
  by (simp add: clone_adaptor_def add_pusher_def sh_init_def in_init_def)

lemma init_pullers: "clone_pullers 2 (sh_init 2 1 1, in_init) = (Inr [in_init\<lparr>i_tid_push := -1, i_tid_pull := 1,
    i_cur_push := size_cast (- 1), i_cur_pull := 1, i_cloned := True\<rparr>, in_init\<lparr>i_tid_push := -1, i_tid_pull := 2,
    i_cur_push := size_cast (- 1), i_cur_pull := 2, i_cloned := True\<rparr>], (sh_init 2 3 3, in_init))"
  by (simp add: clone_adaptor_def add_puller_def sh_init_def in_init_def numeral_2_eq_2)

lemma init_alloc: "alloc_buffers (sh_init 2 3 3, in_init) = (Inr (), ((sh_init 2 3 3)\<lparr>
    a_buffer := map (\<lambda>d. [[block_of 1 1 2 d 0 0, block_of 1 1 2 d 0 1]]) [0..<6],
    a_counter := (\<lambda>d. if d < 6 then 2 else 0), a_allocated := True,
    a_data := (\<lambda>k. if 1 \<le> k \<and> k < 13 then [0] else []), a_next := 13\<rparr>, in_init\<lparr>i_to_free := [1..<13]\<rparr>))"
proof -
  have scm: "find_smallest_common_multiple 2 3 = Some (Inr 6)"
    using find_scm [of 2 3] lcm23 by simp
  have two: "[0..<2] = [0, 1 :: nat]" by (simp add: upt_rec)
  have fst: "a_n_pushers (sh_init 2 3 3) = 2" "a_n_pullers (sh_init 2 3 3) = 3" "a_allocated (sh_init 2 3 3) = False"
    "a_size (sh_init 2 3 3) = 2" "a_next (sh_init 2 3 3) = 1" "n_sockets (sh_init 2 3 3) = 1"
    "a_first (sh_init 2 3 3) = (\<lambda>_. 0)" "a_last (sh_init 2 3 3) = (\<lambda>_. 0)" "a_counter (sh_init 2 3 3) = (\<lambda>_. 0)"
    "a_data (sh_init 2 3 3) = (\<lambda>_. [])" "a_n_bytes (sh_init 2 3 3) = [1]"
    by (simp_all add: sh_init_def n_sockets_def)
  have snd: "i_cloned in_init = False" "i_to_free in_init = []" "i_n_frames in_init = 1"
    by (simp add: in_init_def)+
  show ?thesis
    unfolding alloc_buffers_def prod.case fst snd if_False scm option.case sum.case Let_def two
    by (simp add: fst two fun_eq_iff)
qed

lemma net0_connect: "connect 2 3 [1] [T_int8] 2 = Inr net0"
proof -
  have "(2::nat) - 1 = 1" "(3::nat) - 1 = 2" by simp_all
  then show ?thesis
    unfolding connect_def init_new sum.case net0_def
    by (simp only: init_pushers init_pullers init_alloc bindo.simps prod.case sum.case)
      (simp add: sh_init_def in_init_def)
qed

lemma net0_wait: "can_turn (True, 0) net0"
  by (simp add: net0_def start_net_def n_sockets_def wait_push_def is_full_def)

definition net1 :: net where
  "net1 = net0\<lparr>n_sh := (n_sh net0)\<lparr>a_last := (\<lambda>_. 0)(0 := 1), a_counter := (\<lambda>d. if d < 6 then 2 else 0)(0 := 1),
       a_data := (\<lambda>k. if 1 \<le> k \<and> k < 13 then [0] else [])(1 := [7])\<rparr>,
     n_pu := (n_pu net0)(0 := (n_pu net0 0)\<lparr>i_cur_push := 2\<rparr>), n_sent := (\<lambda>_. 0)(0 := 1)\<rparr>"

lemma push0: "push_turn 0 net0 = net1"
  by (simp add: net1_def net0_def start_net_def Let_def push_turn_def copy_push_def get_empty_buffer_def 
      wake_up_puller_def next_push_def inp_example_def block_of_def) (simp add: fun_eq_iff)

lemma net1_wait: "can_turn (False, 0) net1"
  by (simp add: net1_def net0_def start_net_def n_sockets_def wait_pull_def is_empty_def)

lemma net1_out: "n_outs (pull_turn 0 net1) 0 = [inp_example 0]"
  by (simp add: net1_def net0_def start_net_def Let_def pull_turn_def get_filled_buffer_def
      wake_up_pusher_def inp_example_def block_of_def)

lemma example_run: "(adp_step inp_example 2 3)\<^sup>*\<^sup>* net0 (pull_turn 0 net1)"
  using turns_steps [of "[(True, 0), (False, 0)]" net0] net0_wait net1_wait by (simp add: push0 del: can_turn.simps)

lemma net0_sockets: "n_sockets (n_sh net0) = 1"
  by (simp add: net0_def start_net_def n_sockets_def)

lemma inp_example_length: "length (inp_example k) = 1"
  by (simp add: inp_example_def)

theorem adaptor_keeps_frame_order_witness:
  "n_outs (pull_turn 0 net1) 0 = [inp_example 0] \<and>
   n_outs (pull_turn 0 net1) 0 = map (\<lambda>j. inp_example (0 + j * 3)) [0..<1] \<and>
   0 < n_sent (pull_turn 0 net1) 0"
proof -
  have "n_outs (pull_turn 0 net1) 0 = map (\<lambda>j. inp_example (0 + j * 3)) [0..<length (n_outs (pull_turn 0 net1) 0)] \<and>
    (\<forall>j < length (n_outs (pull_turn 0 net1) 0). (0 + j * 3) div 2 < n_sent (pull_turn 0 net1) ((0 + j * 3) mod 2))"
    by (rule adaptor_keeps_frame_order [OF net0_connect])
      (simp_all add: example_run net0_sockets inp_example_length)
  then show ?thesis by (simp add: net1_out)
qed


section \<open>Resetting\<close>

text \<open>
  What \<^verbatim>\<open>reset\<close> leaves of a cancelled pusher. On the original adaptor the pusher can push again: its
  ring is empty and the cancellation is withdrawn. On a clone, which has its own flag since
  \<^verbatim>\<open>deep_copy\<close>, the flag is not cleared, and the next \<^verbatim>\<open>push\<close> throws \<^verbatim>\<open>waiting_canceled\<close> at once.
\<close>

theorem reset_rearms_the_original_only:
  assumes "0 \<le> i_tid_push i" and "i_tid_push i < int (length (a_buffer sh))" and "length (a_buffer sh) \<le> 1000"
    and "0 < a_size sh" and "a_size sh < 2 ^ 32"
  shows "if i_cloned i
    then push ins (reset_adaptor (sh, cancel_waiting i)) = Some (Inl Waiting_canceled, reset_adaptor (sh, cancel_waiting i))
    else wait_push (fst (reset_adaptor (sh, cancel_waiting i))) (snd (reset_adaptor (sh, cancel_waiting i))) = Some (Inr ())"
proof -
  have "size_cast (i_tid_push i) = nat (i_tid_push i)"
    using assms by (simp add: size_cast_def)
  with assms show ?thesis
    by (auto simp: reset_adaptor_def reset_buffer_def cancel_waiting_def push_def wait_push_def is_full_def Let_def nat_less_iff)
qed

theorem reset_rearms_the_original_only_witness:
  "push [[7]] (reset_adaptor (n_sh net0, cancel_waiting (n_pu net0 1))) =
     Some (Inl Waiting_canceled, reset_adaptor (n_sh net0, cancel_waiting (n_pu net0 1)))"
  using reset_rearms_the_original_only [of "n_pu net0 1" "n_sh net0" "[[7]]"]
  by (simp add: net0_def start_net_def)

end
