(* ===== verification/Doubles.thy ===== *)
theory Doubles
  imports Prelude Float32 Complex_Main
begin

text \<open>
  The floating-point numbers of the schedulers: \<^verbatim>\<open>double\<close> (53 bits of mantissa) with its infinities and
  its \<^verbatim>\<open>NaN\<close>, and the conversion to \<^verbatim>\<open>float\<close> (24 bits). A finite value is a rational; an operation rounds
  its exact result to the nearest value of the format, ties to even. The range of the exponent is not
  bounded: durations in nanoseconds and their quotients by counts stay far inside it.
\<close>

section \<open>Rounding a rational\<close>

definition round_even :: "rat \<Rightarrow> int" where
  "round_even x = (let q = \<lfloor>x\<rfloor>; r = x - of_int q in
     if r < 1 / 2 then q else if 1 / 2 < r then q + 1 else if even q then q else q + 1)"

definition rat_exp :: "rat \<Rightarrow> int" where
  "rat_exp x = (case quotient_of x of (n, d) \<Rightarrow> float_exp (nat n) (nat d))"

definition round_bits :: "nat \<Rightarrow> rat \<Rightarrow> rat" where
  "round_bits p x = (if x = 0 then 0
     else let s = int p - 1 - rat_exp \<bar>x\<bar> in sgn x * (of_int (round_even (\<bar>x\<bar> * 2 powi s)) * 2 powi (- s)))"

lemma round_even_of_int [simp]: "round_even (of_int k) = k"
  by (simp add: round_even_def)

lemma float_exp_rat:
  assumes "0 < n" and "0 < m"
  shows "2 powi float_exp n m \<le> (of_nat n / of_nat m :: rat)"
    and "(of_nat n / of_nat m :: rat) < 2 powi (float_exp n m + 1)"
proof -
  define d where "d = int (bit_len n) - int (bit_len m)"
  note A = bit_len_bounds [OF assms(1)] and B = bit_len_bounds [OF assms(2)]
  have A': "2 powi (int (bit_len n) - 1) \<le> (of_nat n :: rat)" "(of_nat n :: rat) < 2 powi (int (bit_len n))"
    and B': "2 powi (int (bit_len m) - 1) \<le> (of_nat m :: rat)" "(of_nat m :: rat) < 2 powi (int (bit_len m))"
  proof -
    have e: "int k - 1 = int (k - 1)" if "0 < k" for k using that by simp
    have "(of_nat (2 ^ (bit_len n - 1)) :: rat) \<le> of_nat n" using A(1) by (simp only: of_nat_le_iff)
    then show "2 powi (int (bit_len n) - 1) \<le> (of_nat n :: rat)" unfolding e [OF A(3)] by simp
    have "(of_nat n :: rat) < of_nat (2 ^ bit_len n)" using A(2) by (simp only: of_nat_less_iff)
    then show "(of_nat n :: rat) < 2 powi (int (bit_len n))" by simp
    have "(of_nat (2 ^ (bit_len m - 1)) :: rat) \<le> of_nat m" using B(1) by (simp only: of_nat_le_iff)
    then show "2 powi (int (bit_len m) - 1) \<le> (of_nat m :: rat)" unfolding e [OF B(3)] by simp
    have "(of_nat m :: rat) < of_nat (2 ^ bit_len m)" using B(2) by (simp only: of_nat_less_iff)
    then show "(of_nat m :: rat) < 2 powi (int (bit_len m))" by simp
  qed
  have m0: "(0 :: rat) < of_nat m" using assms by simp
  have lo: "2 powi (d - 1) \<le> (of_nat n / of_nat m :: rat)"
  proof -
    have "(2 :: rat) powi (d - 1) = 2 powi (int (bit_len n) - 1) / 2 powi int (bit_len m)"
      by (simp add: d_def power_int_diff)
    also have "\<dots> \<le> of_nat n / of_nat m" using A'(1) B'(2) m0 by (intro frac_le) auto
    finally show ?thesis .
  qed
  have hi: "(of_nat n / of_nat m :: rat) < 2 powi (d + 1)"
  proof -
    have "(of_nat n / of_nat m :: rat) < 2 powi int (bit_len n) / 2 powi (int (bit_len m) - 1)"
      using A'(2) B'(1) m0 by (intro frac_less) auto
    also have "\<dots> = 2 powi (d + 1)" by (simp add: d_def power_int_diff power_int_add)
    finally show ?thesis .
  qed
  have test: "(if 0 \<le> d then m * 2 ^ nat d \<le> n else m \<le> n * 2 ^ nat (- d)) \<longleftrightarrow> 2 powi d \<le> (of_nat n / of_nat m :: rat)"
  proof (cases "0 \<le> d")
    case True
    then have p: "(2 :: rat) powi d = of_nat (2 ^ nat d)" by (simp add: power_int_def)
    have "of_nat (2 ^ nat d) \<le> (of_nat n / of_nat m :: rat) \<longleftrightarrow> (of_nat (m * 2 ^ nat d) :: rat) \<le> of_nat n"
      using m0 by (simp add: pos_le_divide_eq mult.commute)
    also have "\<dots> \<longleftrightarrow> m * 2 ^ nat d \<le> n" by (rule of_nat_le_iff)
    finally show ?thesis using True unfolding p by (simp only: if_True)
  next
    case False
    then have p: "(2 :: rat) powi d = 1 / of_nat (2 ^ nat (- d))"
      by (simp add: power_int_def) (simp add: inverse_eq_divide power_one_over)
    have "1 / of_nat (2 ^ nat (- d)) \<le> (of_nat n / of_nat m :: rat) \<longleftrightarrow> (of_nat m :: rat) \<le> of_nat (n * 2 ^ nat (- d))"
      using m0 by (simp add: pos_le_divide_eq pos_divide_le_eq mult.commute)
    also have "\<dots> \<longleftrightarrow> m \<le> n * 2 ^ nat (- d)" by (rule of_nat_le_iff)
    finally show ?thesis using False p by simp
  qed
  have "float_exp n m = (if 2 powi d \<le> (of_nat n / of_nat m :: rat) then d else d - 1)"
    unfolding float_exp_def Let_def d_def [symmetric] test ..
  with lo hi show "2 powi float_exp n m \<le> (of_nat n / of_nat m :: rat)"
    and "(of_nat n / of_nat m :: rat) < 2 powi (float_exp n m + 1)" by auto
qed

lemma rat_exp_bounds:
  assumes "0 < x"
  shows "2 powi rat_exp x \<le> x" and "x < 2 powi (rat_exp x + 1)"
proof -
  obtain n d where q: "quotient_of x = (n, d)" by (cases "quotient_of x")
  then have d: "0 < d" and x: "x = of_int n / of_int d" by (simp_all add: quotient_of_denom_pos quotient_of_div)
  with assms have n: "0 < n" by (simp add: zero_less_divide_iff)
  have e: "(of_nat (nat n) / of_nat (nat d) :: rat) = x" using n d x by simp
  from float_exp_rat [of "nat n" "nat d"] n d
  show "2 powi rat_exp x \<le> x" and "x < 2 powi (rat_exp x + 1)" unfolding e by (simp_all add: rat_exp_def q)
qed

lemma powi_less: "(2 :: rat) powi a < 2 powi b \<Longrightarrow> a < b"
  using power_int_increasing [of b a "2 :: rat"] by (cases "b \<le> a") auto

lemma rat_exp_unique: "0 < x \<Longrightarrow> 2 powi k \<le> x \<Longrightarrow> x < 2 powi (k + 1) \<Longrightarrow> rat_exp x = k"
proof -
  assume a: "0 < x" "2 powi k \<le> x" "x < 2 powi (k + 1)"
  note b = rat_exp_bounds [OF a(1)]
  have "2 powi k < (2 :: rat) powi (rat_exp x + 1)" "2 powi rat_exp x < (2 :: rat) powi (k + 1)"
    using a b by linarith+
  then have "k < rat_exp x + 1" "rat_exp x < k + 1" by (auto dest: powi_less)
  then show ?thesis by simp
qed

text \<open>A value of at most \<open>p\<close> bits is not changed.\<close>

lemma round_bits_exact:
  assumes "x = of_int m * 2 powi k" and "\<bar>m\<bar> < 2 ^ p"
  shows "round_bits p x = x"
proof (cases "x = 0")
  case False
  let ?s = "int p - 1 - rat_exp \<bar>x\<bar>"
  from False have pos: "0 < \<bar>x\<bar>" by simp
  have ax: "\<bar>x\<bar> = of_int \<bar>m\<bar> * 2 powi k" using assms(1) by (simp add: abs_mult)
  have "2 powi rat_exp \<bar>x\<bar> \<le> \<bar>x\<bar>" by (rule rat_exp_bounds(1) [OF pos])
  also have "\<bar>x\<bar> < 2 powi (int p + k)"
  proof -
    have "(of_int \<bar>m\<bar> :: rat) < of_int (2 ^ p)" using assms(2) by (simp only: of_int_less_iff)
    then show ?thesis using ax by (simp add: power_int_add)
  qed
  finally have "rat_exp \<bar>x\<bar> < int p + k" by (rule powi_less)
  then obtain j where j: "k + ?s = int j" using nonneg_int_cases [of "k + ?s"] by auto
  have "\<bar>x\<bar> * 2 powi ?s = of_int (\<bar>m\<bar> * 2 ^ j)"
    using j by (simp add: ax mult.assoc flip: power_int_add)
  then have "of_int (round_even (\<bar>x\<bar> * 2 powi ?s)) = \<bar>x\<bar> * 2 powi ?s" by (simp only: round_even_of_int)
  then show ?thesis using False by (simp add: round_bits_def Let_def mult.assoc sgn_mult_abs flip: power_int_add)
qed (simp add: round_bits_def)

lemma round_bits_int: "\<bar>m\<bar> < 2 ^ p \<Longrightarrow> round_bits p (of_int m) = of_int m"
  by (rule round_bits_exact [where k = 0]) simp_all

lemma round_bits_0 [simp]: "round_bits p 0 = 0"
  by (simp add: round_bits_def)

lemma round_even_nonneg: "0 \<le> x \<Longrightarrow> 0 \<le> round_even x"
  using zero_le_floor [of x] by (auto simp: round_even_def Let_def)

lemma round_bits_nonneg: "0 \<le> x \<Longrightarrow> 0 \<le> round_bits p x"
proof (cases "x = 0")
  case False
  assume "0 \<le> x"
  have "0 \<le> round_even (\<bar>x\<bar> * 2 powi (int p - 1 - rat_exp \<bar>x\<bar>))" by (rule round_even_nonneg) simp
  with False \<open>0 \<le> x\<close> show ?thesis by (simp add: round_bits_def Let_def)
qed simp

lemma round_even_le: "x \<le> of_int k \<Longrightarrow> round_even x \<le> k"
proof -
  assume a: "x \<le> of_int k"
  show ?thesis
  proof (cases "\<lfloor>x\<rfloor> < k")
    case True
    then show ?thesis by (auto simp: round_even_def Let_def)
  next
    case False
    with a have "x = of_int k" by linarith
    then show ?thesis by simp
  qed
qed

lemma floor_le_round_even: "\<lfloor>x\<rfloor> \<le> round_even x"
  by (auto simp: round_even_def Let_def)

lemma round_bits_unit:
  assumes "0 < x" and "x \<le> 1" and "0 < p"
  shows "0 < round_bits p x" and "round_bits p x \<le> 1"
proof -
  let ?e = "rat_exp x" and ?s = "int p - 1 - rat_exp x"
  note b = rat_exp_bounds [OF assms(1)]
  have e1: "?e < 1" using b(1) assms(2) powi_less [of ?e 1] by simp
  have split: "(2 :: rat) powi (int p - 1) = 2 powi ?e * 2 powi ?s" by (simp flip: power_int_add)
  have "(1 :: rat) \<le> 2 powi (int p - 1)" using assms(3) power_int_increasing [of 0 "int p - 1" "2 :: rat"] by simp
  also have "\<dots> \<le> x * 2 powi ?s" unfolding split using b(1) by (intro mult_right_mono) auto
  finally have "1 \<le> \<lfloor>x * 2 powi ?s\<rfloor>" by linarith
  then have r1: "0 < round_even (x * 2 powi ?s)" using floor_le_round_even [of "x * 2 powi ?s"] by linarith
  have val: "round_bits p x = of_int (round_even (x * 2 powi ?s)) * 2 powi (- ?s)"
    using assms(1) by (simp add: round_bits_def Let_def)
  then show "0 < round_bits p x" using r1 by simp
  have s0: "0 \<le> ?s" using e1 assms(3) by linarith
  then obtain j where j: "?s = int j" using nonneg_int_cases by blast
  have "x * 2 powi ?s \<le> of_int (2 ^ j)" unfolding j using assms(2) by simp
  then have "round_even (x * 2 powi ?s) \<le> 2 ^ j" by (rule round_even_le)
  then have "(of_int (round_even (x * 2 powi ?s)) :: rat) \<le> 2 ^ j"
    by (metis of_int_le_iff of_int_numeral of_int_power)
  then show "round_bits p x \<le> 1" unfolding val unfolding j by (simp add: power_int_minus field_simps)
qed

lemma ceil_unit: "0 < x \<Longrightarrow> x \<le> 1 \<Longrightarrow> \<lceil>round_bits 53 x\<rceil> = 1"
  using round_bits_unit [of x 53] by (intro ceiling_unique) auto

section \<open>The operations\<close>

datatype dbl = Fin rat | PInf | NInf | NaN

definition dbl_of_int :: "int \<Rightarrow> dbl" where
  "dbl_of_int k = Fin (round_bits 53 (of_int k))"

fun dbl_add :: "dbl \<Rightarrow> dbl \<Rightarrow> dbl" where
  "dbl_add (Fin x) (Fin y) = Fin (round_bits 53 (x + y))"
| "dbl_add PInf (Fin _) = PInf"
| "dbl_add (Fin _) PInf = PInf"
| "dbl_add PInf PInf = PInf"
| "dbl_add NInf (Fin _) = NInf"
| "dbl_add (Fin _) NInf = NInf"
| "dbl_add NInf NInf = NInf"
| "dbl_add _ _ = NaN"

fun dbl_neg :: "dbl \<Rightarrow> dbl" where
  "dbl_neg (Fin x) = Fin (- x)"
| "dbl_neg PInf = NInf"
| "dbl_neg NInf = PInf"
| "dbl_neg NaN = NaN"

text \<open>A division by zero takes the sign of the dividend: the zeros here are positive.\<close>

fun dbl_div :: "dbl \<Rightarrow> dbl \<Rightarrow> dbl" where
  "dbl_div (Fin x) (Fin y) = (if y \<noteq> 0 then Fin (round_bits 53 (x / y))
     else if x > 0 then PInf else if x < 0 then NInf else NaN)"
| "dbl_div (Fin _) PInf = Fin 0"
| "dbl_div (Fin _) NInf = Fin 0"
| "dbl_div PInf (Fin y) = (if y \<ge> 0 then PInf else NInf)"
| "dbl_div NInf (Fin y) = (if y \<ge> 0 then NInf else PInf)"
| "dbl_div _ _ = NaN"

fun dbl_mul :: "dbl \<Rightarrow> dbl \<Rightarrow> dbl" where
  "dbl_mul (Fin x) (Fin y) = Fin (round_bits 53 (x * y))"
| "dbl_mul (Fin x) PInf = (if x > 0 then PInf else if x < 0 then NInf else NaN)"
| "dbl_mul PInf (Fin x) = (if x > 0 then PInf else if x < 0 then NInf else NaN)"
| "dbl_mul (Fin x) NInf = (if x > 0 then NInf else if x < 0 then PInf else NaN)"
| "dbl_mul NInf (Fin x) = (if x > 0 then NInf else if x < 0 then PInf else NaN)"
| "dbl_mul PInf PInf = PInf"
| "dbl_mul NInf NInf = PInf"
| "dbl_mul PInf NInf = NInf"
| "dbl_mul NInf PInf = NInf"
| "dbl_mul _ _ = NaN"

fun dbl_le :: "dbl \<Rightarrow> dbl \<Rightarrow> bool" where
  "dbl_le (Fin x) (Fin y) \<longleftrightarrow> x \<le> y"
| "dbl_le NaN _ \<longleftrightarrow> False"
| "dbl_le _ NaN \<longleftrightarrow> False"
| "dbl_le NInf _ \<longleftrightarrow> True"
| "dbl_le _ PInf \<longleftrightarrow> True"
| "dbl_le _ _ \<longleftrightarrow> False"

definition dbl_less :: "dbl \<Rightarrow> dbl \<Rightarrow> bool" where
  "dbl_less x y \<longleftrightarrow> dbl_le x y \<and> \<not> dbl_le y x"

text \<open>The conversion to \<^verbatim>\<open>float\<close>, whose values are doubles too.\<close>

fun to_float :: "dbl \<Rightarrow> dbl" where
  "to_float (Fin x) = Fin (round_bits 24 x)"
| "to_float x = x"

text \<open>\<^verbatim>\<open>std::ceil\<close> converted to an \<^verbatim>\<open>int\<close>: undefined outside the range of \<^verbatim>\<open>int\<close>.\<close>

fun dbl_ceil :: "dbl \<Rightarrow> int option" where
  "dbl_ceil (Fin x) = (if - (2 ^ 31) \<le> \<lceil>x\<rceil> \<and> \<lceil>x\<rceil> < 2 ^ 31 then Some \<lceil>x\<rceil> else None)"
| "dbl_ceil _ = None"

lemma dbl_less_Fin [simp]: "dbl_less (Fin x) (Fin y) \<longleftrightarrow> x < y"
  by (auto simp: dbl_less_def)

end
