(* ===== verification/Schedulers.thy ===== *)
theory Schedulers
  imports Doubles Strings Runtime_State
begin

text \<open>
  The schedulers (\<^verbatim>\<open>Scheduler.cpp\<close>, \<^verbatim>\<open>Scheduler_GR.cpp\<close>, \<^verbatim>\<open>Scheduler_OTAC.cpp\<close>): from the measured duration of
  the tasks of a sequence to the stages of a pipeline and their numbers of threads. A solution is the list
  of the pairs of a number of tasks and a number of resources, stage by stage.

  While it packs, OTAC asks the tasks for their average duration and for their replicability: \<open>tinfo\<close> is
  what the tasks answer. The durations of \<^verbatim>\<open>exec_duration\<close> are those of the profiling. Durations are
  nanoseconds in a \<^verbatim>\<open>double\<close>. The positions \<open>e\<close>, \<open>f\<close> of the code, \<^verbatim>\<open>int\<close>, count from 1.
\<close>

section \<open>State\<close>

record task_desc =
  td_task :: tid
  td_exec :: "dbl list"

record tinfo =
  avg :: "tid \<Rightarrow> int"
  repl :: "tid \<Rightarrow> bool"

type_synonym solution = "(nat \<times> nat) list"

record sched =
  sc_R :: nat
  sc_P :: dbl
  sc_descs :: "task_desc list"
  sc_profiled :: "nat list"
  sc_solution :: solution

section \<open>Weights\<close>

text \<open>The number of resources is an \<^verbatim>\<open>unsigned int\<close>.\<close>

definition dur_avg :: "tinfo \<Rightarrow> tid \<Rightarrow> dbl" where
  "dur_avg I t = dbl_of_int (avg I t)"

definition dur0 :: "task_desc \<Rightarrow> dbl" where
  "dur0 d = td_exec d ! 0"

definition weight :: "tinfo \<Rightarrow> tid list \<Rightarrow> 32 word \<Rightarrow> dbl" where
  "weight I s r = (if r = 0 then PInf
     else dbl_div (foldl (\<lambda>sum t. dbl_add sum (dur_avg I t)) (Fin 0) s) (dbl_of_int (uint r)))"

definition weight_t :: "tinfo \<Rightarrow> task_desc list \<Rightarrow> 32 word \<Rightarrow> dbl" where
  "weight_t I s r = (if r = 0 then PInf
     else dbl_div (foldl (\<lambda>sum d. dbl_add sum (dur_avg I (td_task d))) (Fin 0) s) (dbl_of_int (uint r)))"

definition getIndex :: "task_desc list \<Rightarrow> task_desc \<Rightarrow> int" where
  "getIndex chain target =
     foldl (\<lambda>index i. if td_task (chain ! i) = td_task target then int i else index) (- 1) [0..<length chain]"

fun is_replicable :: "tinfo \<Rightarrow> tid list \<Rightarrow> bool" where
  "is_replicable I [] \<longleftrightarrow> True"
| "is_replicable I (t # ts) \<longleftrightarrow> (if \<not> repl I t then False else is_replicable I ts)"

definition max_stateful_weight :: "tinfo \<Rightarrow> task_desc list \<Rightarrow> dbl" where
  "max_stateful_weight I chain = foldl (\<lambda>m d. if \<not> repl I (td_task d)
     then (if dbl_less m (dur_avg I (td_task d)) then dur_avg I (td_task d) else m) else m) (Fin 0) chain"

definition max_weight_t :: "tinfo \<Rightarrow> task_desc list \<Rightarrow> dbl" where
  "max_weight_t I tasks = (if length tasks \<ge> 1
     then foldl (\<lambda>m d. if dbl_less m (dur_avg I (td_task d)) then dur_avg I (td_task d) else m) (Fin 0) tasks
     else Fin 0)"

section \<open>Packing\<close>

text \<open>A stage under construction: the position after it, its tasks, their number.\<close>

function main_loop_packing :: "tinfo \<Rightarrow> task_desc list \<Rightarrow> dbl \<Rightarrow> nat \<times> tid list \<times> nat \<Rightarrow> nat \<times> tid list \<times> nat" where
  "main_loop_packing I chain P (e, s, n) =
     (if e \<le> length chain \<and> dbl_le (dbl_add (weight I s 1) (dur0 (chain ! (e - 1)))) P
      then main_loop_packing I chain P (e + 1, s @ [td_task (chain ! (e - 1))], n + 1) else (e, s, n))"
  by pat_completeness auto
termination by (relation "measure (\<lambda>(I, chain, P, e, s, n). Suc (length chain) - e)") auto

function stateless_packing :: "tinfo \<Rightarrow> task_desc list \<Rightarrow> nat \<times> tid list \<times> nat \<Rightarrow> nat \<times> tid list \<times> nat" where
  "stateless_packing I chain (f, s, n) =
     (if f \<le> length chain \<and> repl I (td_task (chain ! (f - 1)))
      then stateless_packing I chain (f + 1, s @ [td_task (chain ! (f - 1))], n + 1) else (f, s, n))"
  by pat_completeness auto
termination by (relation "measure (\<lambda>(I, chain, f, s, n). Suc (length chain) - f)") auto

text \<open>\<open>s_temp\<close> starts with the task at \<open>f\<close>; the task pushed on it is read at \<open>e - 1\<close> before \<open>e\<close> changes.\<close>

function extra_loop :: "tinfo \<Rightarrow> task_desc list \<Rightarrow> dbl \<Rightarrow> nat \<times> tid list \<times> nat \<times> tid list \<Rightarrow> nat \<times> tid list \<times> nat \<times> tid list" where
  "extra_loop I chain P (e, s, n, s_temp) =
     (if dbl_le (dbl_add (dur0 (chain ! (e - 2))) (weight I s_temp 1)) P \<and> length s > 1
      then extra_loop I chain P (e - 1, butlast s, n - 1, s_temp @ [td_task (chain ! (e - 1))])
      else (e, s, n, s_temp))"
  by pat_completeness auto
termination by (relation "measure (\<lambda>(I, chain, P, e, s, n, s_temp). length s)") auto

definition extra_tasks_packing ::
  "tinfo \<Rightarrow> task_desc list \<Rightarrow> dbl \<Rightarrow> nat \<Rightarrow> tid list \<times> nat \<Rightarrow> nat \<times> tid list \<times> nat" where
  "extra_tasks_packing I chain P f sn = (case sn of (s, n) \<Rightarrow>
     case extra_loop I chain P (f, s, n, [td_task (chain ! (f - 1))]) of (e, s', n', _) \<Rightarrow> (e, s', n'))"

function improved_loop :: "tinfo \<Rightarrow> task_desc list \<Rightarrow> dbl \<Rightarrow> int \<Rightarrow> nat \<times> tid list \<times> nat \<Rightarrow> nat \<times> tid list \<times> nat" where
  "improved_loop I chain P r (e, s, n) =
     (if e \<le> length chain \<and>
        dbl_le (dbl_add (weight I s (word_of_int r)) (dbl_div (dur0 (chain ! (e - 1))) (dbl_of_int r))) P
      then improved_loop I chain P r (e + 1, s @ [td_task (chain ! (e - 1))], n + 1) else (e, s, n))"
  by pat_completeness auto
termination by (relation "measure (\<lambda>(I, chain, P, r, e, s, n). Suc (length chain) - e)") auto

definition improved_packing ::
  "tinfo \<Rightarrow> task_desc list \<Rightarrow> dbl \<Rightarrow> nat \<times> tid list \<times> nat \<Rightarrow> int \<Rightarrow> (nat \<times> tid list \<times> nat) \<times> int" where
  "improved_packing I chain P esn r = (improved_loop I chain P (r - 1) esn, r - 1)"

lemma case_sum_mono [partial_function_mono]:
  assumes "\<And>a. monotone orda ordb (\<lambda>g. B g a)" and "\<And>b. monotone orda ordb (\<lambda>g. C g b)"
  shows "monotone orda ordb (\<lambda>g. case x of Inl a \<Rightarrow> B g a | Inr b \<Rightarrow> C g b)"
  using assms by (cases x) simp_all

text \<open>\<^verbatim>\<open>while (e != f)\<close>: it does not return when \<open>f\<close> is below \<open>e\<close>.\<close>

partial_function (option) go_back_packing ::
  "task_desc list \<Rightarrow> nat \<Rightarrow> nat \<times> tid list \<times> nat \<Rightarrow> (nat \<times> tid list \<times> nat) option" where
  "go_back_packing chain f esn = (case esn of (e, s, n) \<Rightarrow>
     if e \<noteq> f then go_back_packing chain f (e + 1, s @ [td_task (chain ! (e - 1))], n + 1) else Some (e, s, n))"

declare main_loop_packing.simps [simp del] stateless_packing.simps [simp del] extra_loop.simps [simp del]
  improved_loop.simps [simp del]

text \<open>
  The body of the loop of \<^verbatim>\<open>PROBE\<close>: one stage, from the task at \<open>b\<close>. The outer option is \<open>None\<close> when a
  loop does not return; \<open>Inl UB\<close> is a conversion to \<^verbatim>\<open>int\<close> out of its range.
\<close>

definition ceil_div_dbl :: "dbl \<Rightarrow> dbl \<Rightarrow> exn + int" where
  "ceil_div_dbl x y = (case dbl_ceil (dbl_div x y) of None \<Rightarrow> Inl UB | Some r \<Rightarrow> Inr r)"

definition probe_stage :: "tinfo \<Rightarrow> task_desc list \<Rightarrow> dbl \<Rightarrow> nat \<Rightarrow> (exn + (nat \<times> tid list \<times> nat) \<times> int) option" where
  "probe_stage I chain P b =
     (let (e, s, n) = main_loop_packing I chain P (b + 1, [td_task (chain ! (b - 1))], 1) in
      case ceil_div_dbl (weight I s 1) P of Inl x \<Rightarrow> Some (Inl x)
      | Inr r \<Rightarrow>
          if e \<le> length chain \<and> is_replicable I s
          then (let (f, s, n) = stateless_packing I chain (e, s, n) in
            case ceil_div_dbl (weight I s 1) P of Inl x \<Rightarrow> Some (Inl x)
            | Inr r \<Rightarrow>
                (let e = (if f > length chain then f else e) in
                 if e \<noteq> f
                 then (let (e, s, n) = extra_tasks_packing I chain P f (s, n) in
                   if dbl_le (weight I s (word_of_int (r - 1))) P
                   then Some (Inr (improved_packing I chain P (e, s, n) r))
                   else map_option (\<lambda>esn. Inr (esn, r)) (go_back_packing chain f (e, s, n)))
                 else Some (Inr ((e, s, n), r))))
          else Some (Inr ((e, s, n), r)))"

text \<open>\<^verbatim>\<open>tmp_nr.second = r\<close> converts an \<^verbatim>\<open>int\<close> to a \<^verbatim>\<open>size_t\<close>.\<close>

definition probe_step :: "tinfo \<Rightarrow> task_desc list \<Rightarrow> dbl \<Rightarrow> nat \<times> dbl \<times> solution \<Rightarrow> (exn + nat \<times> dbl \<times> solution) option" where
  "probe_step I chain P st = (case st of (e, maxWeight, sol) \<Rightarrow>
     map_option (map_sum id (\<lambda>((e', s, n), r).
       (e', (let w = to_float (weight I s (word_of_int r)) in if dbl_le maxWeight w then w else maxWeight),
        sol @ [(n, size_cast r)]))) (probe_stage I chain P e))"

partial_function (option) probe_loop ::
  "tinfo \<Rightarrow> task_desc list \<Rightarrow> dbl \<Rightarrow> nat \<times> dbl \<times> solution \<Rightarrow> (exn + dbl \<times> solution) option" where
  "probe_loop I chain P st =
     (if fst st \<le> length chain
      then Option.bind (probe_step I chain P st)
        (\<lambda>res. case res of Inl x \<Rightarrow> Some (Inl x) | Inr st' \<Rightarrow> probe_loop I chain P st')
      else Some (Inr (snd st)))"

definition PROBE :: "tinfo \<Rightarrow> task_desc list \<Rightarrow> nat \<Rightarrow> dbl \<Rightarrow> (exn + bool \<times> dbl \<times> solution) option" where
  "PROBE I chain R P = map_option (map_sum id (\<lambda>(maxWeight, sol).
     let sum = foldl (\<lambda>a nr. (a + snd nr) mod 2 ^ 64) 0 sol in
     if sum \<le> R then (True, maxWeight, sol) else (False, P, sol))) (probe_loop I chain P (1, Fin 0, []))"

section \<open>The search of the period\<close>

definition dbl_sub :: "dbl \<Rightarrow> dbl \<Rightarrow> dbl" where
  "dbl_sub x y = dbl_add x (dbl_neg y)"

definition mid_period :: "dbl \<Rightarrow> dbl \<Rightarrow> dbl" where
  "mid_period Pmax Pmin = dbl_div (dbl_add Pmax Pmin) (Fin 2)"

text \<open>The state of the search: the period tried, its bounds, the best solution.\<close>

definition solve_step :: "tinfo \<Rightarrow> task_desc list \<Rightarrow> nat \<Rightarrow> dbl \<times> dbl \<times> dbl \<times> solution \<Rightarrow>
  (exn + dbl \<times> dbl \<times> dbl \<times> solution) option" where
  "solve_step I chain R st = (case st of (P, Pmax, Pmin, cur) \<Rightarrow>
     map_option (map_sum id (\<lambda>(ok, P', tmp).
       if ok then (mid_period P' Pmin, P', Pmin, tmp) else (mid_period Pmax P', Pmax, P', cur))) (PROBE I chain R P))"

definition solve_goes_on :: "dbl \<Rightarrow> dbl \<Rightarrow> dbl \<times> dbl \<times> dbl \<times> solution \<Rightarrow> bool" where
  "solve_goes_on eps maxTf st \<longleftrightarrow>
     (case st of (P, Pmax, Pmin, cur) \<Rightarrow> dbl_less eps (dbl_sub Pmax Pmin) \<and> dbl_less maxTf P)"

partial_function (option) solve_loop ::
  "tinfo \<Rightarrow> task_desc list \<Rightarrow> nat \<Rightarrow> dbl \<Rightarrow> dbl \<Rightarrow> dbl \<times> dbl \<times> dbl \<times> solution \<Rightarrow> (exn + dbl \<times> solution) option" where
  "solve_loop I chain R eps maxTf st =
     (if solve_goes_on eps maxTf st
      then Option.bind (solve_step I chain R st)
        (\<lambda>res. case res of Inl x \<Rightarrow> Some (Inl x) | Inr st' \<Rightarrow> solve_loop I chain R eps maxTf st')
      else Some (Inr (fst st, snd (snd (snd st)))))"

text \<open>\<open>weight_t(chain, R)\<close> converts the \<^verbatim>\<open>size_t\<close> to an \<^verbatim>\<open>unsigned int\<close>.\<close>

definition SOLVE :: "tinfo \<Rightarrow> task_desc list \<Rightarrow> nat \<Rightarrow> solution \<Rightarrow> (exn + dbl \<times> solution) option" where
  "SOLVE I chain R sol =
     (if R = 0 then Some (Inl Invalid_argument)
      else if sol \<noteq> [] then Some (Inl Runtime_error)
      else
        let maxTf = max_stateful_weight I chain; maxWeight = max_weight_t I chain;
            eps = dbl_div (Fin 1) (dbl_of_int (int R)); wt = weight_t I chain (word_of_nat R);
            Pmin = (if dbl_less maxTf wt then wt else maxTf); Pmax = dbl_add Pmin maxWeight
        in if R = 1 then Some (Inr (Pmax, [(length chain, R)]))
           else solve_loop I chain R eps maxTf (mid_period Pmax Pmin, Pmax, Pmin, []))"

section \<open>Profiling\<close>

text \<open>
  \<^verbatim>\<open>_profile\<close> checks, runs the sequence and records the average duration of each task. The run is an
  argument: \<open>tasks\<close> are the tasks of the first sequence in their order, \<open>I\<close> what they answer after it. A
  second run adds to the durations of the first.
\<close>

definition profile_guard :: "nat \<Rightarrow> nat \<Rightarrow> bool \<Rightarrow> exn + unit" where
  "profile_guard n_exec n_threads control_flow =
     (if n_exec = 0 then Inl Invalid_argument
      else if n_threads > 1 then Inl Invalid_argument
      else if control_flow then Inl Invalid_argument else Inr ())"

fun record_loop :: "tinfo \<Rightarrow> (nat \<times> tid) list \<Rightarrow> sched \<Rightarrow> (sched, unit) outcome" where
  "record_loop I [] sc = (Inr (), sc)"
| "record_loop I ((i, t) # ts) sc =
     (if i \<ge> length (sc_descs sc) then (Inl UB, sc)
      else let cur = sc_descs sc ! i in
        if t \<noteq> td_task cur then (Inl Runtime_error, sc)
        else record_loop I ts (sc\<lparr>sc_descs := (sc_descs sc)[i := cur\<lparr>td_exec := td_exec cur @ [dur_avg I t]\<rparr>]\<rparr>))"

definition record_profile :: "tinfo \<Rightarrow> tid list \<Rightarrow> sched \<Rightarrow> (sched, unit) outcome" where
  "record_profile I tasks sc =
     (if sc_descs sc = []
      then (Inr (), sc\<lparr>sc_descs := map (\<lambda>t. \<lparr>td_task = t, td_exec = [dur_avg I t]\<rparr>) tasks\<rparr>)
      else record_loop I (enumerate 0 tasks) sc)"

definition profile_once :: "nat \<Rightarrow> nat \<Rightarrow> bool \<Rightarrow> tid list \<Rightarrow> tinfo \<Rightarrow> sched \<Rightarrow> (sched, unit) outcome" where
  "profile_once n_exec n_threads control_flow tasks I sc =
     (case profile_guard n_exec n_threads control_flow of Inl x \<Rightarrow> (Inl x, sc)
      | Inr _ \<Rightarrow> record_profile I tasks sc)"

definition profile_default :: "nat \<Rightarrow> nat \<Rightarrow> bool \<Rightarrow> tid list \<Rightarrow> tinfo \<Rightarrow> sched \<Rightarrow> (sched, unit) outcome" where
  "profile_default n_exec n_threads control_flow tasks I sc =
     (if sc_descs sc \<noteq> [] then (Inl Runtime_error, sc)
      else profile_once n_exec n_threads control_flow tasks I sc)"

definition profile_on :: "nat list \<Rightarrow> nat \<Rightarrow> nat \<Rightarrow> bool \<Rightarrow> tid list \<Rightarrow> (nat \<Rightarrow> tinfo) \<Rightarrow> sched \<Rightarrow> (sched, unit) outcome" where
  "profile_on puids n_exec n_threads control_flow tasks I sc =
     (if sc_descs sc \<noteq> [] then (Inl Runtime_error, sc)
      else bindo (foreach (\<lambda>p. profile_once n_exec n_threads control_flow tasks (I p)) puids sc)
        (\<lambda>_ sc'. (Inr (), sc'\<lparr>sc_profiled := puids\<rparr>)))"

section \<open>Scheduling\<close>

definition new_sched :: "nat \<Rightarrow> sched" where
  "new_sched R = \<lparr>sc_R = R, sc_P = PInf, sc_descs = [], sc_profiled = [], sc_solution = []\<rparr>"

definition reset_sched :: "sched \<Rightarrow> sched" where
  "reset_sched sc = sc\<lparr>sc_solution := [], sc_descs := []\<rparr>"

definition otac_reset :: "sched \<Rightarrow> sched" where
  "otac_reset sc = (reset_sched sc)\<lparr>sc_P := PInf\<rparr>"

definition otac_schedule :: "tinfo \<Rightarrow> sched \<Rightarrow> (sched, unit) outcome option" where
  "otac_schedule I sc =
     (if sc_descs sc = [] then Some (Inl Runtime_error, sc)
      else let sc1 = (if sc_solution sc \<noteq> [] then sc\<lparr>sc_solution := []\<rparr> else sc) in
        case SOLVE I (sc_descs sc1) (sc_R sc1) (sc_solution sc1) of None \<Rightarrow> None
        | Some (Inl x) \<Rightarrow> Some (Inl x, sc1)
        | Some (Inr (P, sol)) \<Rightarrow> Some (Inr (), sc1\<lparr>sc_P := P, sc_solution := sol\<rparr>))"

definition gr_schedule :: "tinfo \<Rightarrow> sched \<Rightarrow> (sched, unit) outcome" where
  "gr_schedule I sc =
     (if sc_descs sc = [] then (Inl Runtime_error, sc)
      else (Inr (), sc\<lparr>sc_solution :=
        map (\<lambda>d. (1, if repl I (td_task d) then sc_R sc else 1)) (sc_descs sc)\<rparr>))"

definition get_period :: "sched \<Rightarrow> exn + dbl" where
  "get_period sc = (if sc_P sc = PInf then Inl Runtime_error else Inr (sc_P sc))"

definition get_throughput_est :: "sched \<Rightarrow> exn + dbl" where
  "get_throughput_est sc = (case get_period sc of Inl x \<Rightarrow> Inl x
     | Inr P \<Rightarrow> Inr (dbl_mul (dbl_div (Fin 1) P) (Fin 1000000000)))"

section \<open>From a solution to a pipeline\<close>

definition get_n_alloc_ressources :: "sched \<Rightarrow> exn + nat" where
  "get_n_alloc_ressources sc = (if sc_solution sc = [] then Inl Invalid_argument
     else Inr (foldl (\<lambda>R s. (R + snd s) mod 2 ^ 64) 0 (sc_solution sc)))"

text \<open>
  A vector of \<^verbatim>\<open>size() - 1\<close> elements: the subtraction wraps on an empty solution, and the vector throws
  the \<^verbatim>\<open>std::length_error\<close> of the library.
\<close>

definition vec_minus_1 :: "solution \<Rightarrow> 'a \<Rightarrow> exn + 'a list" where
  "vec_minus_1 sol x = (if sol = [] then Inl Other_exn else Inr (replicate (length sol - 1) x))"

definition get_sync_buff_sizes :: "sched \<Rightarrow> exn + nat list" where
  "get_sync_buff_sizes sc = vec_minus_1 (sc_solution sc) 1"

definition get_sync_active_waitings :: "sched \<Rightarrow> exn + bool list" where
  "get_sync_active_waitings sc = vec_minus_1 (sc_solution sc) False"

definition get_thread_pinnings :: "bool \<Rightarrow> sched \<Rightarrow> bool list" where
  "get_thread_pinnings pin_init sc = replicate (length (sc_solution sc)) pin_init"

text \<open>The mapping: the units \<open>PU_0\<close>, \<open>PU_1\<close>, ... in the order of the stages and of their threads.\<close>

definition stage_mapping :: "nat \<Rightarrow> nat \<Rightarrow> string" where
  "stage_mapping puid r = concat (map (\<lambda>st. (if st = 0 then '''' else ''; '') @ ''PU_'' @ nat_to_string (puid + st)) [0..<r])"

fun mapping_loop :: "bool \<Rightarrow> nat \<Rightarrow> solution \<Rightarrow> string" where
  "mapping_loop first_stage puid [] = ''''"
| "mapping_loop first_stage puid ((n, r) # sol) =
     (if \<not> first_stage then '' | '' else '''') @ stage_mapping puid r @ mapping_loop False (puid + r) sol"

definition get_threads_mapping :: "sched \<Rightarrow> exn + string" where
  "get_threads_mapping sc = (if sc_solution sc = [] then Inl Invalid_argument
     else Inr (mapping_loop True 0 (sc_solution sc)))"

text \<open>The arguments of the constructor of \<^verbatim>\<open>Pipeline\<close>; \<open>None\<close> is a null pointer.\<close>

record pipeline_args =
  pa_firsts :: "tid option list"
  pa_lasts :: "tid option list"
  pa_stages :: "(tid list \<times> tid list) list"
  pa_threads :: "nat list"
  pa_buffers :: "nat list"
  pa_waits :: "bool list"
  pa_pins :: "bool list"
  pa_policy :: string

fun stages_loop :: "task_desc list \<Rightarrow> nat \<Rightarrow> solution \<Rightarrow> exn + (tid list \<times> tid list) list" where
  "stages_loop descs i [] = Inr []"
| "stages_loop descs i ((n, r) # sol) =
     (if i + n > length descs then Inl UB
      else let ts = map (\<lambda>t. td_task (descs ! (i + t))) [0..<n] in
        case stages_loop descs (i + n) sol of Inl x \<Rightarrow> Inl x | Inr st \<Rightarrow> Inr ((ts, ts) # st))"

definition instantiate_pipeline :: "nat list \<Rightarrow> bool list \<Rightarrow> bool list \<Rightarrow> string \<Rightarrow> sched \<Rightarrow> exn + pipeline_args" where
  "instantiate_pipeline bufs waits pins policy sc =
     (if sc_solution sc = [] then Inl Invalid_argument
      else case stages_loop (sc_descs sc) 0 (sc_solution sc) of Inl x \<Rightarrow> Inl x
      | Inr st \<Rightarrow>
          let used = sum_list (map fst (sc_solution sc));
              ts = map (\<lambda>i. if i < used then Some (td_task (sc_descs sc ! i)) else None) [0..<length (sc_descs sc)]
          in Inr \<lparr>pa_firsts = ts, pa_lasts = ts, pa_stages = st, pa_threads = map snd (sc_solution sc),
            pa_buffers = bufs, pa_waits = waits, pa_pins = pins, pa_policy = policy\<rparr>)"

definition instantiate_pipeline_all :: "nat \<Rightarrow> bool \<Rightarrow> bool \<Rightarrow> string \<Rightarrow> sched \<Rightarrow> exn + pipeline_args" where
  "instantiate_pipeline_all buffer_size wait pin policy sc =
     (case vec_minus_1 (sc_solution sc) buffer_size of Inl x \<Rightarrow> Inl x
      | Inr bufs \<Rightarrow> (case vec_minus_1 (sc_solution sc) wait of Inl x \<Rightarrow> Inl x
      | Inr waits \<Rightarrow> instantiate_pipeline bufs waits (replicate (length (sc_solution sc)) pin) policy sc))"

text \<open>\<^verbatim>\<open>generate_pipeline\<close>, after the profiling; \<open>schedule\<close> is the one of the concrete scheduler.\<close>

definition generate_pipeline ::
  "(sched \<Rightarrow> (sched, unit) outcome option) \<Rightarrow> bool \<Rightarrow> sched \<Rightarrow> (sched, pipeline_args) outcome option" where
  "generate_pipeline schedule pin_init sc =
     (let finish = (\<lambda>sc1. (case get_threads_mapping sc1 of Inl x \<Rightarrow> Inl x
        | Inr mapping \<Rightarrow> (case get_sync_buff_sizes sc1 of Inl x \<Rightarrow> Inl x
        | Inr bufs \<Rightarrow> (case get_sync_active_waitings sc1 of Inl x \<Rightarrow> Inl x
        | Inr waits \<Rightarrow> instantiate_pipeline bufs waits
            (if mapping = '''' then replicate (length (sc_solution sc1)) False else get_thread_pinnings pin_init sc1)
            mapping sc1)), sc1))
      in if sc_solution sc = []
         then (case schedule sc of None \<Rightarrow> None | Some (Inl x, sc1) \<Rightarrow> Some (Inl x, sc1)
           | Some (Inr _, sc1) \<Rightarrow> Some (finish sc1))
         else Some (finish sc))"

end
