(* ===== verification/Scheduling.thy ===== *)
theory Scheduling
  imports Schedulers
begin

text \<open>
  What the schedulers guarantee: whatever the durations and their rounding, OTAC cuts the chain of the
  tasks into consecutive stages, and the search of the period and the packing have defects the
  theorems exhibit.
\<close>

section \<open>Segments of the chain\<close>

definition seg :: "task_desc list \<Rightarrow> nat \<Rightarrow> nat \<Rightarrow> tid list" where
  "seg chain b e = map td_task (take (e - b) (drop (b - 1) chain))"

definition stage_ok :: "task_desc list \<Rightarrow> nat \<Rightarrow> nat \<times> tid list \<times> nat \<Rightarrow> bool" where
  "stage_ok chain b x \<longleftrightarrow> (case x of (e, s, n) \<Rightarrow>
     0 < b \<and> b < e \<and> e \<le> Suc (length chain) \<and> s = seg chain b e \<and> n = e - b)"

lemma stage_okI: "0 < b \<Longrightarrow> b < e \<Longrightarrow> e \<le> Suc (length chain) \<Longrightarrow> s = seg chain b e \<Longrightarrow> n = e - b \<Longrightarrow>
    stage_ok chain b (e, s, n)"
  by (simp add: stage_ok_def)

lemma length_seg: "0 < b \<Longrightarrow> b \<le> e \<Longrightarrow> e \<le> Suc (length chain) \<Longrightarrow> length (seg chain b e) = e - b"
  by (simp add: seg_def)

lemma seg_snoc:
  assumes "0 < b" and "b \<le> e" and "e \<le> length chain"
  shows "seg chain b e @ [td_task (chain ! (e - 1))] = seg chain b (Suc e)"
proof -
  have "e - b < length (drop (b - 1) chain)" using assms by simp
  then have "take (Suc (e - b)) (drop (b - 1) chain) = take (e - b) (drop (b - 1) chain) @ [drop (b - 1) chain ! (e - b)]"
    by (rule take_Suc_conv_app_nth)
  moreover have "drop (b - 1) chain ! (e - b) = chain ! (e - 1)" using assms by simp
  moreover have "Suc e - b = Suc (e - b)" using assms by simp
  ultimately show ?thesis by (simp add: seg_def)
qed

lemma seg_butlast:
  assumes "0 < b" and "b < e" and "e \<le> Suc (length chain)"
  shows "butlast (seg chain b e) = seg chain b (e - 1)"
proof -
  have "seg chain b (e - 1) @ [td_task (chain ! (e - 1 - 1))] = seg chain b (Suc (e - 1))"
    using assms by (intro seg_snoc) auto
  then show ?thesis using assms by (simp add: butlast_append flip: seg_snoc) (metis Suc_pred assms(1,2) butlast_snoc less_trans)
qed

lemma stage_ok_snoc:
  "stage_ok chain b (e, s, n) \<Longrightarrow> e \<le> length chain \<Longrightarrow>
     stage_ok chain b (e + 1, s @ [td_task (chain ! (e - 1))], n + 1)"
  using seg_snoc [of b e chain] by (auto simp: stage_ok_def)

lemma main_loop_ok: "stage_ok chain b x \<Longrightarrow> stage_ok chain b (main_loop_packing I chain P x)"
proof (induction I chain P x rule: main_loop_packing.induct)
  case (1 I chain P e s n)
  then show ?case by (subst main_loop_packing.simps) (auto dest: stage_ok_snoc)
qed

lemma stateless_ok: "stage_ok chain b x \<Longrightarrow>
    stage_ok chain b (stateless_packing I chain x) \<and> fst x \<le> fst (stateless_packing I chain x)"
proof (induction I chain x rule: stateless_packing.induct)
  case (1 I chain f s n)
  show ?case
  proof (cases "f \<le> length chain \<and> repl I (td_task (chain ! (f - 1)))")
    case True
    with 1 show ?thesis by (subst (1 2) stateless_packing.simps) (force dest: stage_ok_snoc)
  next
    case False
    then have "stateless_packing I chain (f, s, n) = (f, s, n)" by (subst stateless_packing.simps) auto
    with 1 show ?thesis by simp
  qed
qed

lemma improved_ok: "stage_ok chain b x \<Longrightarrow> stage_ok chain b (improved_loop I chain P r x)"
proof (induction I chain P r x rule: improved_loop.induct)
  case (1 I chain P r e s n)
  then show ?case by (subst improved_loop.simps) (auto dest: stage_ok_snoc)
qed

lemma extra_loop_ok:
  "stage_ok chain b (e, s, n) \<Longrightarrow> extra_loop I chain P (e, s, n, tmp) = (e', s', n', tmp') \<Longrightarrow>
     stage_ok chain b (e', s', n') \<and> e' \<le> e"
proof (induction I chain P "(e, s, n, tmp)" arbitrary: e s n tmp rule: extra_loop.induct)
  case (1 I chain P e s n tmp)
  let ?c = "dbl_le (dbl_add (dur0 (chain ! (e - 2))) (weight I tmp 1)) P \<and> length s > 1"
  show ?case
  proof (cases ?c)
    case True
    from 1(2) True have "b < e - 1" by (auto simp: stage_ok_def length_seg)
    with 1(2) have "stage_ok chain b (e - 1, butlast s, n - 1)" by (auto simp: stage_ok_def seg_butlast)
    from 1(1) [OF True this] 1(3) True show ?thesis by (subst (asm) (2) extra_loop.simps) auto
  next
    case False
    with 1 show ?thesis by (subst (asm) (2) extra_loop.simps) auto
  qed
qed

lemma extra_tasks_ok:
  "stage_ok chain b (f, s, n) \<Longrightarrow>
     stage_ok chain b (extra_tasks_packing I chain P f (s, n)) \<and> fst (extra_tasks_packing I chain P f (s, n)) \<le> f"
  using extra_loop_ok [of chain b f s n I P "[td_task (chain ! (f - 1))]"]
  by (cases "extra_loop I chain P (f, s, n, [td_task (chain ! (f - 1))])") (auto simp: extra_tasks_packing_def)

lemma go_back_ok:
  assumes "stage_ok chain b (e, s, n)" and "e \<le> f" and "f \<le> Suc (length chain)"
  shows "\<exists>s' n'. go_back_packing chain f (e, s, n) = Some (f, s', n') \<and> stage_ok chain b (f, s', n')"
  using assms
proof (induction "f - e" arbitrary: e s n)
  case 0
  then show ?case by (subst go_back_packing.simps) simp
next
  case (Suc k)
  then have "stage_ok chain b (e + 1, s @ [td_task (chain ! (e - 1))], n + 1)" by (intro stage_ok_snoc) auto
  then obtain s' n' where "go_back_packing chain f (e + 1, s @ [td_task (chain ! (e - 1))], n + 1) = Some (f, s', n')"
    "stage_ok chain b (f, s', n')"
    using Suc.hyps(1) [of "e + 1"] Suc.hyps(2) Suc.prems(3) by fastforce
  moreover have "e \<noteq> f" using Suc.hyps(2) by simp
  ultimately show ?case by (subst go_back_packing.simps) simp
qed

lemma probe_stage_ok:
  assumes "0 < b" and "b \<le> length chain"
  shows "\<exists>x. probe_stage I chain P b = Some x \<and> (\<forall>esn r. x = Inr (esn, r) \<longrightarrow> stage_ok chain b esn)"
proof -
  have "seg chain b b = []" by (simp add: seg_def)
  with seg_snoc [of b b chain] assms have "stage_ok chain b (b + 1, [td_task (chain ! (b - 1))], 1)"
    by (simp add: stage_ok_def)
  then have ok1: "stage_ok chain b (main_loop_packing I chain P (b + 1, [td_task (chain ! (b - 1))], 1))"
    by (rule main_loop_ok)
  obtain e s n where m: "main_loop_packing I chain P (b + 1, [td_task (chain ! (b - 1))], 1) = (e, s, n)"
    by (rule prod_cases3)
  note ok1 = ok1 [unfolded m]
  obtain f s1 n1 where st: "stateless_packing I chain (e, s, n) = (f, s1, n1)" by (rule prod_cases3)
  from stateless_ok [OF ok1, of I] st have ok2: "stage_ok chain b (f, s1, n1)" "e \<le> f" by auto
  obtain e2 s2 n2 where ex: "extra_tasks_packing I chain P f (s1, n1) = (e2, s2, n2)" by (rule prod_cases3)
  from extra_tasks_ok [OF ok2(1), of I P] ex have ok3: "stage_ok chain b (e2, s2, n2)" "e2 \<le> f" by auto
  from ok2 have fN: "f \<le> Suc (length chain)" by (simp add: stage_ok_def)
  from go_back_ok [OF ok3 fN] obtain s3 n3
    where gb: "go_back_packing chain f (e2, s2, n2) = Some (f, s3, n3)" "stage_ok chain b (f, s3, n3)" by blast
  have same: "stage_ok chain b (e, s1, n1)" if "e = f" using that ok2 by simp
  have improved_step: "stage_ok chain b y" if "improved_loop I chain P r (e2, s2, n2) = y" for r y
    using improved_ok [OF ok3(1), of I P r] that by simp
  show ?thesis
    unfolding probe_stage_def m st ex gb Let_def prod.case option.map
    using ok1 ok2 ok3 gb(2) same
    by (auto simp: improved_packing_def split: sum.split dest: improved_step)
qed

section \<open>The stages of a probe\<close>

lemma probe_loop_ok:
  assumes "0 < e" and "e \<le> Suc (length chain)" and "sum_list (map fst sol) = e - 1" and "list_all (\<lambda>s. 0 < fst s) sol"
  shows "\<exists>x. probe_loop I chain P (e, m, sol) = Some x \<and> (\<forall>m' sol'. x = Inr (m', sol') \<longrightarrow>
    sum_list (map fst sol') = length chain \<and> list_all (\<lambda>s. 0 < fst s) sol')"
  using assms
proof (induction "Suc (length chain) - e" arbitrary: e m sol rule: less_induct)
  case less
  show ?case
  proof (cases "e \<le> length chain")
    case False
    with less.prems show ?thesis by (subst probe_loop.simps) auto
  next
    case True
    from probe_stage_ok [OF less.prems(1) True, of I P] obtain x
      where x: "probe_stage I chain P e = Some x" "\<forall>esn r. x = Inr (esn, r) \<longrightarrow> stage_ok chain e esn" by blast
    show ?thesis
    proof (cases x)
      case (Inl y)
      with x True show ?thesis by (subst probe_loop.simps) (simp add: probe_step_def)
    next
      case (Inr y)
      obtain e' s n r where y: "y = ((e', s, n), r)" by (metis prod.collapse)
      with x Inr have ok: "stage_ok chain e (e', s, n)" by simp
      let ?m = "let w = to_float (weight I s (word_of_int r)) in if dbl_le m w then w else m"
      have "\<exists>x. probe_loop I chain P (e', ?m, sol @ [(n, size_cast r)]) = Some x \<and> (\<forall>m' sol'. x = Inr (m', sol') \<longrightarrow>
          sum_list (map fst sol') = length chain \<and> list_all (\<lambda>s. 0 < fst s) sol')"
        using ok less.prems True by (intro less.hyps) (auto simp: stage_ok_def)
      with x Inr y True show ?thesis by (subst probe_loop.simps) (simp add: probe_step_def)
    qed
  qed
qed

lemma PROBE_ok:
  "\<exists>x. PROBE I chain R P = Some x \<and> (\<forall>ok P' sol. x = Inr (ok, P', sol) \<longrightarrow>
     sum_list (map fst sol) = length chain \<and> list_all (\<lambda>s. 0 < fst s) sol \<and>
     (ok \<longrightarrow> foldl (\<lambda>a nr. (a + snd nr) mod 2 ^ 64) 0 sol \<le> R))"
proof -
  from probe_loop_ok [of 1 chain "[]" I P "Fin 0"] obtain x where x: "probe_loop I chain P (1, Fin 0, []) = Some x"
    "\<forall>m' sol'. x = Inr (m', sol') \<longrightarrow> sum_list (map fst sol') = length chain \<and> list_all (\<lambda>s. 0 < fst s) sol'" by auto
  then show ?thesis by (cases x) (auto simp: PROBE_def Let_def split: if_splits)
qed

text \<open>
  C13: One round of OTAC's search always ends, and whatever the durations, their rounding and the period
  tried, when it succeeds its stages are not empty, together they hold every task of the chain exactly
  once, and their resources (summed as \<^verbatim>\<open>size_t\<close>) are at most \<open>R\<close>.
\<close>

theorem probe_partitions_chain:
  "PROBE I chain R P \<noteq> None \<and>
   (PROBE I chain R P = Some (Inr (True, P', sol)) \<longrightarrow>
     sum_list (map fst sol) = length chain \<and> list_all (\<lambda>s. 0 < fst s) sol \<and>
     foldl (\<lambda>a nr. (a + snd nr) mod 2 ^ 64) 0 sol \<le> R)"
  using PROBE_ok [of I chain R P] by auto

section \<open>A search that never ends\<close>

text \<open>
  Two stateful tasks of 33554435 ns each. The period the probe gives back went through a \<^verbatim>\<open>float\<close>: it is
  33554436, above the period it tried.
\<close>

definition ex_info :: tinfo where
  "ex_info = \<lparr>avg = (\<lambda>_. 33554435), repl = (\<lambda>_. False)\<rparr>"

definition ex_chain :: "task_desc list" where
  "ex_chain = [\<lparr>td_task = 1, td_exec = [Fin 33554435]\<rparr>, \<lparr>td_task = 2, td_exec = [Fin 33554435]\<rparr>]"

lemma round53_int: "\<bar>m\<bar> < 2 ^ 53 \<Longrightarrow> round_bits 53 (of_int m) = of_int m"
  by (rule round_bits_int)

lemma round53_nums [simp]:
  "round_bits 53 1 = 1" "round_bits 53 2 = 2" "round_bits 53 33554435 = 33554435" "round_bits 53 67108870 = 67108870"
  "round_bits 53 67108871 = 67108871" "round_bits 53 100663305 = 100663305"
  using round53_int [of 1] round53_int [of 2] round53_int [of 33554435] round53_int [of 67108870]
    round53_int [of 67108871] round53_int [of 100663305] by simp_all

lemma round53_half: "\<bar>m\<bar> < 2 ^ 53 \<Longrightarrow> round_bits 53 (of_int m / 2) = of_int m / 2"
  by (rule round_bits_exact [of _ m "- 1"]) (simp_all add: power_int_minus)

lemma round53_halves [simp]:
  "round_bits 53 (1 / 2) = 1 / 2" "round_bits 53 (67108871 / 2) = 67108871 / 2"
  "round_bits 53 (100663305 / 2) = 100663305 / 2"
  using round53_half [of 1] round53_half [of 67108871] round53_half [of 100663305] by simp_all

lemma round24_dur: "round_bits 24 33554435 = 33554436"
proof -
  have e: "rat_exp 33554435 = 25" by (rule rat_exp_unique) simp_all
  have f: "\<lfloor>33554435 / 4 :: rat\<rfloor> = 8388608" by (rule floor_unique) simp_all
  show ?thesis by (simp add: round_bits_def e round_even_def Let_def power_int_minus f)
qed

lemma ex_weight: "weight ex_info [t] 1 = Fin 33554435"
  by (simp add: weight_def dur_avg_def ex_info_def dbl_of_int_def)

lemma ex_stage:
  assumes "33554435 \<le> P" and "P < 67108870" and "b \<in> {1, 2}"
  shows "probe_stage ex_info ex_chain (Fin P) b = Some (Inr ((b + 1, [b], 1), 1))"
proof -
  have main: "main_loop_packing ex_info ex_chain (Fin P) (b + 1, [b], 1) = (b + 1, [b], 1)"
    using assms by (subst main_loop_packing.simps) (auto simp: ex_weight ex_chain_def dur0_def)
  have t: "td_task (ex_chain ! (b - 1)) = b" using assms(3) by (auto simp: ex_chain_def)
  have nr: "\<not> is_replicable ex_info [b]" by (simp add: ex_info_def)
  have "ceil_div_dbl (Fin 33554435) (Fin P) = Inr 1"
    using assms ceil_unit [of "33554435 / P"] by (simp add: ceil_div_dbl_def)
  then show ?thesis unfolding probe_stage_def t main Let_def prod.case ex_weight using nr by simp
qed

lemma ex_probe:
  assumes "33554435 \<le> P" and "P < 67108870"
  shows "PROBE ex_info ex_chain 2 (Fin P) = Some (Inr (True, Fin 33554436, [(1, 1), (1, 1)]))"
proof -
  have 1: "probe_step ex_info ex_chain (Fin P) (1, Fin 0, []) = Some (Inr (2, Fin 33554436, [(1, 1)]))"
    using ex_stage [OF assms, of 1]
    by (simp add: probe_step_def ex_weight round24_dur size_cast_def Let_def numeral_2_eq_2)
  have 2: "probe_step ex_info ex_chain (Fin P) (2, Fin 33554436, [(1, 1)]) = Some (Inr (3, Fin 33554436, [(1, 1), (1, 1)]))"
    using ex_stage [OF assms, of 2]
    by (simp add: probe_step_def ex_weight round24_dur size_cast_def Let_def numeral_3_eq_3)
  have l: "length ex_chain = 2" by (simp add: ex_chain_def)
  have "probe_loop ex_info ex_chain (Fin P) (3, Fin 33554436, [(1, 1), (1, 1)]) = Some (Inr (Fin 33554436, [(1, 1), (1, 1)]))"
    by (subst probe_loop.simps) (simp add: l)
  then have "probe_loop ex_info ex_chain (Fin P) (2, Fin 33554436, [(1, 1)]) = Some (Inr (Fin 33554436, [(1, 1), (1, 1)]))"
    by (subst probe_loop.simps) (simp add: l 2 [simplified])
  then have "probe_loop ex_info ex_chain (Fin P) (1, Fin 0, []) = Some (Inr (Fin 33554436, [(1, 1), (1, 1)]))"
    by (subst probe_loop.simps) (simp add: l 1 [simplified])
  then show ?thesis by (simp add: PROBE_def)
qed

lemma solve_loop_stuck:
  assumes "solve_goes_on eps maxTf st" and "solve_step I chain R st = Some (Inr st)"
  shows "solve_loop I chain R eps maxTf st = None"
proof -
  let ?Q = "\<lambda>I' chain' R' eps' maxTf' st' (x :: exn + dbl \<times> solution).
    \<not> (I' = I \<and> chain' = chain \<and> R' = R \<and> eps' = eps \<and> maxTf' = maxTf \<and> st' = st)"
  have "?Q I chain R eps maxTf st x" if "solve_loop I chain R eps maxTf st = Some x" for x
    by (rule solve_loop.raw_induct [where P = ?Q, OF _ that])
      (use assms in \<open>cases st, fastforce\<close>)
  then show ?thesis by (cases "solve_loop I chain R eps maxTf st") auto
qed

lemma ex_stuck:
  "solve_loop ex_info ex_chain 2 (Fin (1 / 2)) (Fin 33554435)
     (Fin (67108871 / 2), Fin 33554436, Fin 33554435, [(1, 1), (1, 1)]) = None"
  by (rule solve_loop_stuck)
    (simp_all add: solve_goes_on_def solve_step_def ex_probe dbl_sub_def mid_period_def)

text \<open>
  OTAC does not return on two stateful tasks of 33554435 ns and two resources, although it finds a
  solution at every round: \<^verbatim>\<open>PROBE\<close> hands the period over in a \<^verbatim>\<open>float\<close>, which rounds it above the upper
  bound of the search, so the interval stops shrinking.
\<close>

theorem otac_may_search_forever:
  "otac_schedule ex_info ((new_sched 2)\<lparr>sc_descs := ex_chain\<rparr>) = None"
proof -
  have eps: "dbl_div (Fin 1) (dbl_of_int (int 2)) = Fin (1 / 2)" by (simp add: dbl_of_int_def)
  have Tf: "max_stateful_weight ex_info ex_chain = Fin 33554435" "max_weight_t ex_info ex_chain = Fin 33554435"
    by (simp_all add: max_stateful_weight_def max_weight_t_def ex_chain_def ex_info_def dur_avg_def dbl_of_int_def)
  have wt: "weight_t ex_info ex_chain (word_of_nat 2) = Fin 33554435"
    by (simp add: weight_t_def ex_chain_def ex_info_def dur_avg_def dbl_of_int_def)
  have step: "solve_step ex_info ex_chain 2 (Fin (100663305 / 2), Fin 67108870, Fin 33554435, []) =
      Some (Inr (Fin (67108871 / 2), Fin 33554436, Fin 33554435, [(1, 1), (1, 1)]))"
    by (simp add: solve_step_def ex_probe mid_period_def)
  have "solve_loop ex_info ex_chain 2 (Fin (1 / 2)) (Fin 33554435)
      (Fin (100663305 / 2), Fin 67108870, Fin 33554435, []) = None"
    by (subst solve_loop.simps) (simp add: solve_goes_on_def dbl_sub_def step ex_stuck [simplified])
  note stuck = this
  have "SOLVE ex_info ex_chain 2 [] = None"
    unfolding SOLVE_def by (simp add: Let_def Tf wt [simplified] mid_period_def eps [simplified] stuck)
  then show ?thesis by (simp add: otac_schedule_def new_sched_def) (simp add: ex_chain_def)
qed

theorem probe_partitions_chain_witness:
  "sum_list (map fst [(1, 1 :: nat), (1, 1)]) = length ex_chain \<and> 1 + 1 \<le> (2 :: nat)"
  using probe_partitions_chain [of ex_info ex_chain 2 "Fin 33554435" "Fin 33554436" "[(1, 1), (1, 1)]"]
    ex_probe [of 33554435] by simp

section \<open>From the solution to the pipeline\<close>

lemma stages_loop_concat:
  "i + sum_list (map fst sol) \<le> length descs \<Longrightarrow>
     \<exists>st. stages_loop descs i sol = Inr st \<and> length st = length sol \<and>
       concat (map fst st) = map (\<lambda>k. td_task (descs ! k)) [i..<i + sum_list (map fst sol)] \<and>
       map snd st = map fst st"
proof (induction sol arbitrary: i)
  case (Cons x sol)
  obtain n r where x: "x = (n, r)" by fastforce
  with Cons.prems have le: "i + n + sum_list (map fst sol) \<le> length descs" by simp
  from Cons.IH [OF le] obtain st where st: "stages_loop descs (i + n) sol = Inr st" "length st = length sol"
    "concat (map fst st) = map (\<lambda>k. td_task (descs ! k)) [i + n..<i + n + sum_list (map fst sol)]"
    "map snd st = map fst st" by blast
  have "map (\<lambda>t. td_task (descs ! (i + t))) [0..<n] = map (\<lambda>k. td_task (descs ! k)) [i..<i + n]"
    by (rule nth_equalityI) simp_all
  moreover have "[i..<i + n + sum_list (map fst sol)] = [i..<i + n] @ [i + n..<i + n + sum_list (map fst sol)]"
    by (rule upt_add_eq_append) simp
  ultimately show ?case using st le by (simp add: x Let_def add.assoc)
qed simp

lemma instantiate_covers:
  assumes "sc_solution sc \<noteq> []" and "sum_list (map fst (sc_solution sc)) = length (sc_descs sc)"
  shows "\<exists>args. instantiate_pipeline bufs waits pins policy sc = Inr args \<and>
    concat (map fst (pa_stages args)) = map td_task (sc_descs sc) \<and> map snd (pa_stages args) = map fst (pa_stages args) \<and>
    pa_firsts args = map (\<lambda>d. Some (td_task d)) (sc_descs sc) \<and> pa_threads args = map snd (sc_solution sc) \<and>
    pa_buffers args = bufs \<and> pa_waits args = waits \<and> length (pa_stages args) = length (sc_solution sc)"
proof -
  from stages_loop_concat [of 0 "sc_solution sc" "sc_descs sc"] assms obtain st where
    "stages_loop (sc_descs sc) 0 (sc_solution sc) = Inr st" "length st = length (sc_solution sc)"
    "concat (map fst st) = map (\<lambda>k. td_task (sc_descs sc ! k)) [0..<length (sc_descs sc)]"
    "map snd st = map fst st" by auto
  moreover have "map (\<lambda>k. f (sc_descs sc ! k)) [0..<length (sc_descs sc)] = map f (sc_descs sc)" for f :: "task_desc \<Rightarrow> 'b"
    by (rule nth_equalityI) simp_all
  moreover have "map (\<lambda>i. if i < length (sc_descs sc) then Some (td_task (sc_descs sc ! i)) else None) [0..<length (sc_descs sc)] =
      map (\<lambda>d. Some (td_task d)) (sc_descs sc)"
    by (rule nth_equalityI) simp_all
  ultimately show ?thesis using assms by (simp add: instantiate_pipeline_def Let_def)
qed

definition fits :: "task_desc list \<Rightarrow> nat \<Rightarrow> solution \<Rightarrow> bool" where
  "fits chain R sol \<longleftrightarrow> sol = [] \<or> sum_list (map fst sol) = length chain \<and> list_all (\<lambda>s. 0 < fst s) sol \<and>
     foldl (\<lambda>a nr. (a + snd nr) mod 2 ^ 64) 0 sol \<le> R"

lemma solve_step_fits:
  assumes "solve_step I chain R st = Some (Inr st')" and "fits chain R (snd (snd (snd st)))"
  shows "fits chain R (snd (snd (snd st')))"
proof -
  obtain P Pmax Pmin cur where st: "st = (P, Pmax, Pmin, cur)" by (rule prod_cases4)
  from PROBE_ok [of I chain R P] obtain x where x: "PROBE I chain R P = Some x"
    "\<forall>ok P' sol. x = Inr (ok, P', sol) \<longrightarrow> sum_list (map fst sol) = length chain \<and> list_all (\<lambda>s. 0 < fst s) sol \<and>
     (ok \<longrightarrow> foldl (\<lambda>a nr. (a + snd nr) mod 2 ^ 64) 0 sol \<le> R)" by blast
  from assms(1) x(1) obtain y where y: "x = Inr y" by (cases x) (auto simp: solve_step_def st)
  obtain ok P' tmp where z: "y = (ok, P', tmp)" by (rule prod_cases3)
  from x(2) y z have "ok \<longrightarrow> fits chain R tmp" by (simp add: fits_def)
  with assms x(1) y z show ?thesis by (auto simp: solve_step_def st split: if_splits)
qed

lemma solve_loop_fits:
  assumes "solve_loop I chain R eps maxTf st = Some (Inr (P, sol))" and "fits chain R (snd (snd (snd st)))"
  shows "fits chain R sol"
proof -
  let ?Q = "\<lambda>I chain R eps maxTf st (x :: exn + dbl \<times> solution). fits chain R (snd (snd (snd st))) \<longrightarrow>
    (\<forall>P sol. x = Inr (P, sol) \<longrightarrow> fits chain R sol)"
  have "?Q I chain R eps maxTf st (Inr (P, sol))"
  proof (rule solve_loop.raw_induct [where P = ?Q, OF _ assms(1)])
    fix f I chain R eps maxTf st x
    assume IH: "\<And>I chain R eps maxTf st x. f I chain R eps maxTf st = Some x \<Longrightarrow> ?Q I chain R eps maxTf st x"
      and body: "(if solve_goes_on eps maxTf st
        then Option.bind (solve_step I chain R st)
          (\<lambda>res. case res of Inl x \<Rightarrow> Some (Inl x) | Inr st' \<Rightarrow> f I chain R eps maxTf st')
        else Some (Inr (fst st, snd (snd (snd st))))) = Some x"
    show "?Q I chain R eps maxTf st x"
    proof (cases "solve_goes_on eps maxTf st")
      case False
      with body show ?thesis by auto
    next
      case True
      with body obtain res where res: "solve_step I chain R st = Some res"
        "(case res of Inl x \<Rightarrow> Some (Inl x) | Inr st' \<Rightarrow> f I chain R eps maxTf st') = Some x"
        by (auto simp: bind_eq_Some_conv)
      show ?thesis
      proof (cases res)
        case (Inl a)
        with res show ?thesis by auto
      next
        case (Inr st')
        have "solve_step I chain R st = Some (Inr st')" unfolding res(1) Inr ..
        then have step: "fits chain R (snd (snd (snd st))) \<Longrightarrow> fits chain R (snd (snd (snd st')))"
          by (rule solve_step_fits)
        have "f I chain R eps maxTf st' = Some x" using res(2) unfolding Inr by simp
        from IH [OF this] step show ?thesis by blast
      qed
    qed
  qed
  with assms(2) show ?thesis by blast
qed

lemma SOLVE_fits:
  assumes "SOLVE I chain R [] = Some (Inr (P, sol))" and "R < 2 ^ 64" and "chain \<noteq> []"
  shows "fits chain R sol"
proof (cases "R = 1")
  case True
  with assms(1) have "sol = [(length chain, 1)]" by (simp add: SOLVE_def Let_def)
  with True assms(3) show ?thesis by (simp add: fits_def)
next
  case False
  with assms(1) obtain eps maxTf P0 Pmax Pmin where
    "solve_loop I chain R eps maxTf (P0, Pmax, Pmin, []) = Some (Inr (P, sol))"
    by (simp add: SOLVE_def Let_def split: if_splits)
  from solve_loop_fits [OF this] show ?thesis by (simp add: fits_def)
qed

lemma otac_schedule_fits:
  assumes "otac_schedule I sc = Some (Inr (), sc')" and "sc_R sc < 2 ^ 64"
  shows "sc_descs sc' = sc_descs sc \<and> sc_R sc' = sc_R sc \<and> fits (sc_descs sc) (sc_R sc) (sc_solution sc')"
proof -
  from assms(1) have d: "sc_descs sc \<noteq> []" by (auto simp: otac_schedule_def)
  with assms(1) obtain P sol where "SOLVE I (sc_descs sc) (sc_R sc) [] = Some (Inr (P, sol))"
    and "sc_descs sc' = sc_descs sc" "sc_R sc' = sc_R sc" "sc_solution sc' = sol"
    by (auto simp: otac_schedule_def Let_def split: option.splits sum.splits if_splits)
  with SOLVE_fits assms(2) d show ?thesis by blast
qed

text \<open>
  C26: When OTAC returns and has a solution, the pipeline made from it holds every task of the sequence
  exactly once and in the order of the sequence, stage after stage, no first or last task is a null
  pointer, and the resources it allocates are at most \<open>R\<close>.
\<close>

theorem otac_pipeline_covers_tasks:
  assumes "otac_schedule I sc = Some (Inr (), sc')" and "sc_solution sc' \<noteq> []" and "sc_R sc < 2 ^ 64"
  shows "\<exists>args n. instantiate_pipeline bufs waits pins policy sc' = Inr args \<and>
    concat (map fst (pa_stages args)) = map td_task (sc_descs sc) \<and>
    pa_firsts args = map (\<lambda>d. Some (td_task d)) (sc_descs sc) \<and>
    get_n_alloc_ressources sc' = Inr n \<and> n \<le> sc_R sc"
proof -
  from otac_schedule_fits [OF assms(1,3)] have
    s: "sc_descs sc' = sc_descs sc" "sc_R sc' = sc_R sc" "fits (sc_descs sc) (sc_R sc) (sc_solution sc')" by simp_all
  with assms(2) have sum: "sum_list (map fst (sc_solution sc')) = length (sc_descs sc')"
    "foldl (\<lambda>a nr. (a + snd nr) mod 2 ^ 64) 0 (sc_solution sc') \<le> sc_R sc" by (simp_all add: fits_def)
  from instantiate_covers [OF assms(2) sum(1), of bufs waits pins policy] sum(2) assms(2) s(1)
  show ?thesis by (auto simp: get_n_alloc_ressources_def)
qed

theorem otac_pipeline_covers_tasks_witness:
  "\<exists>args n. instantiate_pipeline [] [] [False] ''''
      ((new_sched 1)\<lparr>sc_descs := ex_chain, sc_P := Fin 100663305, sc_solution := [(2, 1)]\<rparr>) = Inr args \<and>
    concat (map fst (pa_stages args)) = [1, 2] \<and> n \<le> (1 :: nat)"
proof -
  have 1: "max_stateful_weight ex_info ex_chain = Fin 33554435" "max_weight_t ex_info ex_chain = Fin 33554435"
    "weight_t ex_info ex_chain 1 = Fin 67108870"
    by (simp_all add: max_stateful_weight_def max_weight_t_def weight_t_def ex_chain_def ex_info_def dur_avg_def dbl_of_int_def)
  have "length ex_chain = 2" "ex_chain \<noteq> []" by (simp_all add: ex_chain_def)
  then have "otac_schedule ex_info ((new_sched 1)\<lparr>sc_descs := ex_chain\<rparr>) =
      Some (Inr (), (new_sched 1)\<lparr>sc_descs := ex_chain, sc_P := Fin 100663305, sc_solution := [(2, 1)]\<rparr>)"
    by (simp add: otac_schedule_def new_sched_def SOLVE_def Let_def 1)
  from otac_pipeline_covers_tasks [OF this, of "[]" "[]" "[False]" "''''"]
  show ?thesis by (auto simp: new_sched_def ex_chain_def)
qed

text \<open>
  \<^verbatim>\<open>Scheduler_GR\<close> gives each task a stage of its own, in the order of the sequence, with one thread, or
  \<open>R\<close> threads when the task is replicable; the pipeline is made with one buffer between two stages and
  no active wait.
\<close>

theorem gr_pipeline_is_one_task_per_stage:
  assumes "sc_descs sc \<noteq> []" and "sc_solution sc = []"
  shows "\<exists>sc' args. generate_pipeline (\<lambda>s. Some (gr_schedule I s)) pin_init sc = Some (Inr args, sc') \<and>
    pa_stages args = map (\<lambda>d. ([td_task d], [td_task d])) (sc_descs sc) \<and>
    pa_threads args = map (\<lambda>d. if repl I (td_task d) then sc_R sc else 1) (sc_descs sc) \<and>
    pa_buffers args = replicate (length (sc_descs sc) - 1) 1 \<and>
    pa_waits args = replicate (length (sc_descs sc) - 1) False"
proof -
  let ?sol = "map (\<lambda>d. (1, if repl I (td_task d) then sc_R sc else 1)) (sc_descs sc)"
  let ?sc = "sc\<lparr>sc_solution := ?sol\<rparr>"
  have ones: "stages_loop descs i (map (\<lambda>d. (1, f d)) (drop i descs)) =
      Inr (map (\<lambda>d. ([td_task d], [td_task d])) (drop i descs))" for descs i and f :: "task_desc \<Rightarrow> nat"
  proof (induction "length descs - i" arbitrary: i)
    case 0
    then show ?case by simp
  next
    case (Suc k)
    then have i: "i < length descs" by simp
    then have "drop i descs = descs ! i # drop (Suc i) descs" by (rule Cons_nth_drop_Suc [symmetric])
    with Suc(1) [of "Suc i"] Suc(2) i show ?case by (simp add: Let_def)
  qed
  have st: "stages_loop (sc_descs sc) 0 ?sol = Inr (map (\<lambda>d. ([td_task d], [td_task d])) (sc_descs sc))"
    using ones [of "sc_descs sc" 0] by simp
  have thr: "map (snd \<circ> (\<lambda>d. (1, if repl I (td_task d) then sc_R sc else 1))) (sc_descs sc) =
      map (\<lambda>d. if repl I (td_task d) then sc_R sc else 1) (sc_descs sc)" by (simp add: comp_def)
  show ?thesis using assms
    by (simp add: generate_pipeline_def gr_schedule_def get_threads_mapping_def get_sync_buff_sizes_def
        get_sync_active_waitings_def vec_minus_1_def instantiate_pipeline_def st [simplified] thr Let_def)
qed

theorem gr_pipeline_is_one_task_per_stage_witness:
  "\<exists>sc' args. generate_pipeline (\<lambda>s. Some (gr_schedule ex_info s)) False ((new_sched 3)\<lparr>sc_descs := ex_chain\<rparr>) =
      Some (Inr args, sc') \<and> pa_stages args = [([1], [1]), ([2], [2])] \<and> pa_threads args = [1, 1]"
  using gr_pipeline_is_one_task_per_stage [of "(new_sched 3)\<lparr>sc_descs := ex_chain\<rparr>" ex_info False]
  by (auto simp: new_sched_def ex_chain_def ex_info_def)

text \<open>
  Without a solution the general \<^verbatim>\<open>instantiate_pipeline\<close> throws the exception the code announces
  (\<^verbatim>\<open>invalid_argument\<close>), but the overload on scalars builds vectors of \<^verbatim>\<open>size() - 1\<close> elements first
  and dies of the \<^verbatim>\<open>std::length_error\<close> of the library.
\<close>

theorem instantiate_without_solution:
  "instantiate_pipeline bufs waits pins policy (reset_sched sc) = Inl Invalid_argument \<and>
   instantiate_pipeline_all buffer_size wait pin policy (reset_sched sc) = Inl Other_exn"
  by (simp add: instantiate_pipeline_def instantiate_pipeline_all_def vec_minus_1_def reset_sched_def)

section \<open>The tasks given to the next stage\<close>

definition ex_extra :: "task_desc list" where
  "ex_extra = [\<lparr>td_task = 1, td_exec = [Fin 5]\<rparr>, \<lparr>td_task = 2, td_exec = [Fin 5]\<rparr>,
     \<lparr>td_task = 3, td_exec = [Fin 10]\<rparr>, \<lparr>td_task = 4, td_exec = [Fin 1]\<rparr>]"

definition ex_extra_info :: tinfo where
  "ex_extra_info = \<lparr>avg = (\<lambda>t. if t = 4 then 1 else if t = 3 then 10 else 5), repl = (\<lambda>_. True)\<rparr>"

lemma round53_small [simp]: "round_bits 53 (numeral n) = numeral n" if "(numeral n :: int) < 2 ^ 53"
  using round53_int [of "numeral n"] that by simp

text \<open>
  \<^verbatim>\<open>extra_tasks_packing\<close> counts its first task twice and never the task it has just moved: here the
  durations are 5, 5, 10 and 1 and the period is 12, and it moves three tasks of a total of 16, more than the
  period it is asked to respect.
\<close>

theorem extra_tasks_may_not_fit:
  "extra_tasks_packing ex_extra_info ex_extra (Fin 12) 4 ([1, 2, 3], 3) = (2, [1], 1) \<and>
   \<not> dbl_le (weight ex_extra_info [2, 3, 4] 1) (Fin 12)"
proof -
  have w: "weight ex_extra_info [4] 1 = Fin 1" "weight ex_extra_info [4, 4] 1 = Fin 2"
    "weight ex_extra_info [2, 3, 4] 1 = Fin 16"
    by (simp_all add: weight_def dur_avg_def ex_extra_info_def dbl_of_int_def)
  have d: "td_task (ex_extra ! 3) = 4" "td_task (ex_extra ! 2) = 3" "dur0 (ex_extra ! 2) = Fin 10"
    "dur0 (ex_extra ! 1) = Fin 5" by (simp_all add: ex_extra_def dur0_def)
  have "extra_loop ex_extra_info ex_extra (Fin 12) (2, [1], 1, [4, 4, 3]) = (2, [1], 1, [4, 4, 3])"
    by (subst extra_loop.simps) simp
  then have "extra_loop ex_extra_info ex_extra (Fin 12) (3, [1, 2], 2, [4, 4]) = (2, [1], 1, [4, 4, 3])"
    by (subst extra_loop.simps) (simp add: w d [simplified])
  then have "extra_loop ex_extra_info ex_extra (Fin 12) (4, [1, 2, 3], 3, [4]) = (2, [1], 1, [4, 4, 3])"
    by (subst extra_loop.simps) (simp add: w d [simplified])
  then show ?thesis by (simp add: extra_tasks_packing_def d w)
qed

end
