(* ===== verification/Digraph.thy ===== *)
theory Digraph
  imports Prelude
begin

text \<open>
  \<^verbatim>\<open>tools::Digraph_node\<close> (\<^verbatim>\<open>Digraph_node.hxx\<close>): nodes that point at their parents and children. They are
  shared, so they live in a store; a node is a number of the store, allocated in order. \<open>dfs\<close> is the
  traversal every pass over a sequence is written with: depth first, an \<open>already_parsed_nodes\<close> list shared
  by the whole traversal.
\<close>

section \<open>Nodes\<close>

record 'c dnode =
  dn_parents :: "nat list"
  dn_children :: "nat list"
  dn_contents :: "'c option"
  dn_depth :: nat

record 'c graph =
  g_node :: "nat \<Rightarrow> 'c dnode"
  g_next :: nat

definition new_node :: "nat list \<Rightarrow> nat list \<Rightarrow> 'c option \<Rightarrow> nat \<Rightarrow> 'c graph \<Rightarrow> nat \<times> 'c graph" where
  "new_node parents children contents depth G =
     (g_next G, G\<lparr>g_node := (g_node G)(g_next G :=
        \<lparr>dn_parents = parents, dn_children = children, dn_contents = contents, dn_depth = depth\<rparr>),
        g_next := Suc (g_next G)\<rparr>)"

definition upd_node :: "nat \<Rightarrow> ('c dnode \<Rightarrow> 'c dnode) \<Rightarrow> 'c graph \<Rightarrow> 'c graph" where
  "upd_node n f G = G\<lparr>g_node := (g_node G)(n := f (g_node G n))\<rparr>"

abbreviation parents_of :: "'c graph \<Rightarrow> nat \<Rightarrow> nat list" where
  "parents_of G n \<equiv> dn_parents (g_node G n)"

abbreviation children_of :: "'c graph \<Rightarrow> nat \<Rightarrow> nat list" where
  "children_of G n \<equiv> dn_children (g_node G n)"

abbreviation contents_of :: "'c graph \<Rightarrow> nat \<Rightarrow> 'c option" where
  "contents_of G n \<equiv> dn_contents (g_node G n)"

definition is_no_parent :: "'c graph \<Rightarrow> nat \<Rightarrow> bool" where
  "is_no_parent G n \<longleftrightarrow> length (parents_of G n) = 0"

definition is_no_child :: "'c graph \<Rightarrow> nat \<Rightarrow> bool" where
  "is_no_child G n \<longleftrightarrow> length (children_of G n) = 0"

definition is_empty_node :: "'c graph \<Rightarrow> nat \<Rightarrow> bool" where
  "is_empty_node G n \<longleftrightarrow> contents_of G n = None"

definition set_contents :: "nat \<Rightarrow> 'c option \<Rightarrow> 'c graph \<Rightarrow> 'c graph" where
  "set_contents n c = upd_node n (\<lambda>x. x\<lparr>dn_contents := c\<rparr>)"

definition set_depth :: "nat \<Rightarrow> nat \<Rightarrow> 'c graph \<Rightarrow> 'c graph" where
  "set_depth n d = upd_node n (\<lambda>x. x\<lparr>dn_depth := d\<rparr>)"

text \<open>The position of the node among the children of \<open>parent\<close>, -1 when it is not a parent.\<close>

definition get_child_pos :: "'c graph \<Rightarrow> nat \<Rightarrow> nat \<Rightarrow> int" where
  "get_child_pos G n parent = (if parent \<in> set (parents_of G n)
     then (case find_pos n (children_of G parent) of Some c \<Rightarrow> int c | None \<Rightarrow> -1) else -1)"

definition get_parent_pos :: "'c graph \<Rightarrow> nat \<Rightarrow> nat \<Rightarrow> int" where
  "get_parent_pos G n child = (if child \<in> set (children_of G n)
     then (case find_pos n (parents_of G child) of Some f \<Rightarrow> int f | None \<Rightarrow> -1) else -1)"

definition cut_child :: "nat \<Rightarrow> nat \<Rightarrow> 'c graph \<Rightarrow> bool \<times> 'c graph" where
  "cut_child n pos G = (if pos < length (children_of G n)
     then (True, upd_node n (\<lambda>x. x\<lparr>dn_children := del_at pos (dn_children x)\<rparr>) G) else (False, G))"

definition cut_parent :: "nat \<Rightarrow> nat \<Rightarrow> 'c graph \<Rightarrow> bool \<times> 'c graph" where
  "cut_parent n pos G = (if pos < length (parents_of G n)
     then (True, upd_node n (\<lambda>x. x\<lparr>dn_parents := del_at pos (dn_parents x)\<rparr>) G) else (False, G))"

text \<open>\<^verbatim>\<open>(size_t)pos\<close> makes a negative position a huge one.\<close>

definition insert_pos :: "int \<Rightarrow> 'a \<Rightarrow> 'a list \<Rightarrow> 'a list" where
  "insert_pos pos x xs = (if size_cast pos > length xs \<or> pos = -1 then xs @ [x] else ins_at (size_cast pos) x xs)"

definition add_child :: "nat \<Rightarrow> nat \<Rightarrow> int \<Rightarrow> 'c graph \<Rightarrow> 'c graph" where
  "add_child n child pos = upd_node n (\<lambda>x. x\<lparr>dn_children := insert_pos pos child (dn_children x)\<rparr>)"

definition add_parent :: "nat \<Rightarrow> nat \<Rightarrow> int \<Rightarrow> 'c graph \<Rightarrow> 'c graph" where
  "add_parent n parent pos = upd_node n (\<lambda>x. x\<lparr>dn_parents := insert_pos pos parent (dn_parents x)\<rparr>)"

lemma upd_node_sel [simp]:
  "g_node (upd_node n f G) m = (if m = n then f (g_node G n) else g_node G m)"
  "g_next (upd_node n f G) = g_next G"
  by (simp_all add: upd_node_def)

lemma upd_node_same [simp]: "upd_node n g (upd_node n f G) = upd_node n (\<lambda>x. g (f x)) G"
  by (simp add: upd_node_def)

lemma upd_node_id: "f (g_node G n) = g_node G n \<Longrightarrow> upd_node n f G = G"
  by (simp add: upd_node_def fun_upd_idem)

lemma insert_pos_del:
  assumes "length xs < 2 ^ 31" and "k < length xs"
  shows "insert_pos (int k) (xs ! k) (del_at k xs) = xs"
proof -
  have "size_cast (int k) = k" using assms by (simp add: size_cast_def)
  moreover have "k \<le> length (del_at k xs)" using assms by (simp add: length_del_at)
  ultimately show ?thesis using assms
    by (simp add: insert_pos_def ins_at_def del_at_def id_take_nth_drop [symmetric])
qed

section \<open>Depth-first traversal\<close>

text \<open>
  The action runs when a node is met for the first time, before its children. The code recurses; the
  fuel bounds the depth of the recursion, and \<open>dfs_total\<close> shows that the number of nodes is enough.
\<close>

type_synonym 's visit = "nat list \<times> 's"

fun dfs :: "nat \<Rightarrow> (nat \<Rightarrow> 's \<Rightarrow> ('s, unit) outcome) \<Rightarrow> (nat \<Rightarrow> nat list) \<Rightarrow> nat \<Rightarrow> 's visit \<Rightarrow> ('s visit, unit) outcome" where
  "dfs 0 act ch n v = (Inl UB, v)"
| "dfs (Suc k) act ch n (vis, s) =
     (if n \<in> set vis then (Inr (), (vis, s))
      else case act n s of
        (Inl e, s') \<Rightarrow> (Inl e, (vis @ [n], s'))
      | (Inr _, s') \<Rightarrow> foreach (dfs k act ch) (ch n) (vis @ [n], s'))"

definition reach :: "(nat \<Rightarrow> nat list) \<Rightarrow> nat \<Rightarrow> nat set" where
  "reach ch n = {m. (\<lambda>x y. y \<in> set (ch x))\<^sup>*\<^sup>* n m}"

lemma reach_refl [simp]: "n \<in> reach ch n"
  by (simp add: reach_def)

lemma reach_step: "m \<in> reach ch n \<Longrightarrow> c \<in> set (ch m) \<Longrightarrow> c \<in> reach ch n"
  unfolding reach_def mem_Collect_eq by (rule rtranclp.rtrancl_into_rtrancl)

lemma reach_child: "c \<in> set (ch n) \<Longrightarrow> m \<in> reach ch c \<Longrightarrow> m \<in> reach ch n"
  unfolding reach_def mem_Collect_eq by (rule converse_rtranclp_into_rtranclp)

lemma reach_least:
  assumes "m \<in> reach ch n" and "n \<in> S" and "\<And>x. x \<in> S \<Longrightarrow> set (ch x) \<subseteq> S"
  shows "m \<in> S"
proof -
  from assms(1) have "(\<lambda>x y. y \<in> set (ch x))\<^sup>*\<^sup>* n m" by (simp add: reach_def)
  then show ?thesis by (induction rule: rtranclp_induct) (use assms in auto)
qed

text \<open>
  What a traversal adds to the visited nodes: \<open>new\<close> nodes, each once, all their children visited, all
  reachable; the state is the one of running the action on them in order.
\<close>

definition visits :: "(nat \<Rightarrow> 's \<Rightarrow> ('s, unit) outcome) \<Rightarrow> (nat \<Rightarrow> nat list) \<Rightarrow> nat set \<Rightarrow> 's visit \<Rightarrow> 's visit \<Rightarrow> bool" where
  "visits act ch R v v' \<longleftrightarrow> (\<exists>new. fst v' = fst v @ new \<and> distinct new \<and> set new \<inter> set (fst v) = {} \<and>
     set new \<subseteq> R \<and> (\<forall>x \<in> set new. set (ch x) \<subseteq> set (fst v')) \<and> foreach act new (snd v) = (Inr (), snd v'))"

lemma visits_refl: "visits act ch R v v"
  by (simp add: visits_def)

lemma visits_trans:
  assumes "visits act ch R v v1" and "visits act ch R v1 v2"
  shows "visits act ch R v v2"
proof -
  from assms(1) obtain n1 where 1: "fst v1 = fst v @ n1" "distinct n1" "set n1 \<inter> set (fst v) = {}" "set n1 \<subseteq> R"
    "\<forall>x \<in> set n1. set (ch x) \<subseteq> set (fst v1)" "foreach act n1 (snd v) = (Inr (), snd v1)" by (auto simp: visits_def)
  from assms(2) obtain n2 where 2: "fst v2 = fst v1 @ n2" "distinct n2" "set n2 \<inter> set (fst v1) = {}" "set n2 \<subseteq> R"
    "\<forall>x \<in> set n2. set (ch x) \<subseteq> set (fst v2)" "foreach act n2 (snd v1) = (Inr (), snd v2)" by (auto simp: visits_def)
  show ?thesis unfolding visits_def
    using 1 2 by (intro exI [of _ "n1 @ n2"]) (auto simp: foreach_append)
qed

lemma visits_mono: "visits act ch R v v' \<Longrightarrow> R \<subseteq> R' \<Longrightarrow> visits act ch R' v v'"
  unfolding visits_def by blast

text \<open>
  With as much fuel as there are nodes left, the traversal returns, when the action does not throw on the
  nodes of the graph and keeps what it needs.
\<close>

lemma dfs_total:
  assumes act: "\<And>x s. x \<in> V \<Longrightarrow> P s \<Longrightarrow> \<exists>s'. act x s = (Inr (), s') \<and> P s'"
    and fin: "finite V" and closed: "\<And>x. x \<in> V \<Longrightarrow> set (ch x) \<subseteq> V"
  shows "n \<in> V \<Longrightarrow> P (snd v) \<Longrightarrow> card (V - set (fst v)) < k \<Longrightarrow>
    \<exists>v'. dfs k act ch n v = (Inr (), v') \<and> visits act ch (reach ch n) v v' \<and> n \<in> set (fst v') \<and> P (snd v')"
proof (induction k arbitrary: n v)
  case (Suc k)
  obtain vis s where v: "v = (vis, s)" by fastforce
  show ?case
  proof (cases "n \<in> set vis")
    case True
    with Suc.prems show ?thesis by (auto simp: v visits_refl)
  next
    case False
    obtain s1 where a: "act n s = (Inr (), s1)" "P s1" using act Suc.prems by (auto simp: v)
    have less: "card (V - set (vis @ [n])) < k"
    proof -
      have "n \<in> V - set vis" using Suc.prems False by simp
      then have "card (V - set vis - {n}) < card (V - set vis)" using fin by (intro card_Diff1_less) auto
      moreover have "V - set (vis @ [n]) = V - set vis - {n}" by auto
      ultimately show ?thesis using Suc.prems by (simp add: v)
    qed
    have loop: "\<exists>v'. foreach (dfs k act ch) cs v0 = (Inr (), v') \<and> visits act ch (reach ch n) v0 v' \<and>
        set cs \<subseteq> set (fst v') \<and> P (snd v')"
      if "set cs \<subseteq> set (ch n)" and "P (snd v0)" and "card (V - set (fst v0)) < k" for cs v0
      using that
    proof (induction cs arbitrary: v0)
      case Nil
      then show ?case by (simp add: visits_refl)
    next
      case (Cons c cs)
      from Cons.prems closed [OF Suc.prems(1)] have cV: "c \<in> V" by auto
      from Suc.IH [OF cV Cons.prems(2,3)] obtain v1 where v1: "dfs k act ch c v0 = (Inr (), v1)"
        "visits act ch (reach ch c) v0 v1" "c \<in> set (fst v1)" "P (snd v1)" by blast
      have v1': "visits act ch (reach ch n) v0 v1"
        by (rule visits_mono [OF v1(2)]) (use Cons.prems(1) in \<open>auto intro: reach_child\<close>)
      from v1(2) have sub: "set (fst v0) \<subseteq> set (fst v1)" by (auto simp: visits_def)
      have "card (V - set (fst v1)) \<le> card (V - set (fst v0))" using fin sub by (intro card_mono) auto
      with Cons.prems have "card (V - set (fst v1)) < k" by simp
      with Cons.IH [of v1] Cons.prems(1) v1(4) obtain v2 where v2: "foreach (dfs k act ch) cs v1 = (Inr (), v2)"
        "visits act ch (reach ch n) v1 v2" "set cs \<subseteq> set (fst v2)" "P (snd v2)" by auto
      from v2(2) have "set (fst v1) \<subseteq> set (fst v2)" by (auto simp: visits_def)
      with v1 v2 visits_trans [OF v1' v2(2)] show ?case by auto
    qed
    from loop [of "ch n" "(vis @ [n], s1)"] less a(2) obtain v' where v':
      "foreach (dfs k act ch) (ch n) (vis @ [n], s1) = (Inr (), v')" "visits act ch (reach ch n) (vis @ [n], s1) v'"
      "set (ch n) \<subseteq> set (fst v')" "P (snd v')" by auto
    then obtain new where new: "fst v' = (vis @ [n]) @ new" "distinct new" "set new \<inter> set (vis @ [n]) = {}"
      "set new \<subseteq> reach ch n" "\<forall>x \<in> set new. set (ch x) \<subseteq> set (fst v')" "foreach act new s1 = (Inr (), snd v')"
      by (auto simp: visits_def)
    have "visits act ch (reach ch n) v v'"
      unfolding visits_def v using new v'(3) False a by (intro exI [of _ "n # new"]) auto
    moreover have "n \<in> set (fst v')" using new(1) by simp
    ultimately show ?thesis using False a v'(1,4) by (auto simp: v)
  qed
qed simp

text \<open>From an empty list of visited nodes, a traversal runs the action once on every reachable node.\<close>

lemma dfs_complete:
  assumes "\<And>x s. x \<in> V \<Longrightarrow> P s \<Longrightarrow> \<exists>s'. act x s = (Inr (), s') \<and> P s'" and "finite V"
    and "\<And>x. x \<in> V \<Longrightarrow> set (ch x) \<subseteq> V" and "n \<in> V" and "P s" and "card V < k"
  shows "\<exists>vis s'. dfs k act ch n ([], s) = (Inr (), (vis, s')) \<and> distinct vis \<and> set vis = reach ch n \<and>
    foreach act vis s = (Inr (), s') \<and> P s'"
proof -
  have "\<exists>v'. dfs k act ch n ([], s) = (Inr (), v') \<and> visits act ch (reach ch n) ([], s) v' \<and> n \<in> set (fst v') \<and> P (snd v')"
    by (rule dfs_total [where V = V]) (use assms in auto)
  then obtain v' where v': "dfs k act ch n ([], s) = (Inr (), v')"
    "visits act ch (reach ch n) ([], s) v'" "n \<in> set (fst v')" "P (snd v')" by blast
  then have c: "distinct (fst v')" "set (fst v') \<subseteq> reach ch n" "\<forall>x \<in> set (fst v'). set (ch x) \<subseteq> set (fst v')"
    "foreach act (fst v') s = (Inr (), snd v')" by (auto simp: visits_def)
  have "reach ch n \<subseteq> set (fst v')"
    using reach_least [of _ ch n "set (fst v')"] v'(3) c(3) by blast
  with c v'(1,4) show ?thesis by (intro exI [of _ "fst v'"] exI [of _ "snd v'"]) auto
qed

end
