(* ===== verification/Sequences.thy ===== *)
theory Sequences
  imports Digraph Module_Ops
begin

text \<open>
  \<^verbatim>\<open>runtime::Sequence\<close> (\<^verbatim>\<open>Sequence.hpp\<close>, \<^verbatim>\<open>Sequence.hxx\<close>, \<^verbatim>\<open>Sequence.cpp\<close>): its state, the checks of its
  construction, the passes over its graph of sub-sequences, and its execution. The graph of a thread starts
  at the node \<open>q_sequences ! tid\<close>.

  A run of a task is an argument: \<open>run t s\<close> is the process of the task \<open>t\<close> (its \<^verbatim>\<open>exec\<close> and the first element
  of its status socket) on the state \<open>s\<close> of the program. \<open>UB\<close> stands for a null dereference or an access
  out of a vector. The messages of the exceptions are \<open>what\<close> (the signature) and \<open>what_full\<close>.
\<close>

section \<open>State\<close>

datatype subseq_t = STD | COMMUTE | SELECT

record subseq =
  ss_type :: subseq_t
  ss_tasks :: "tid list"
  ss_tasks_id :: "nat list"
  ss_id :: nat
  ss_rebind_sockets :: "sid list list list"
  ss_rebind_dataptrs :: "ptr list list list"

definition new_subseq :: subseq where
  "new_subseq = \<lparr>ss_type = STD, ss_tasks = [], ss_tasks_id = [], ss_id = 0,
     ss_rebind_sockets = [], ss_rebind_dataptrs = []\<rparr>"

record seq =
  q_n_threads :: nat
  q_graph :: "subseq graph"
  q_sequences :: "nat list"
  q_firsts_id :: "nat list"
  q_lasts_id :: "nat list"
  q_firsts :: "tid list list"
  q_lasts :: "tid list list"
  q_all_modules :: "mid list list"
  q_messages :: "string list"
  q_display :: "string list"
  q_force_exit :: bool
  q_n_tasks :: nat
  q_inplace :: bool
  q_pinning :: bool
  q_puids :: "nat list"
  q_pin_objects :: "string list"
  q_no_copy :: bool
  q_exclusions :: "tid list"
  q_auto_stop :: bool
  q_in_pipeline :: bool
  q_next_over :: "bool list"
  q_cur_task :: "nat list"
  q_cur_ss :: "nat list"
  q_memory :: bool

section \<open>The checks of the construction\<close>

definition pin_guard :: "bool \<Rightarrow> nat list \<Rightarrow> nat \<Rightarrow> exn + unit" where
  "pin_guard pinning puids n_threads =
     (if pinning \<and> length puids < n_threads then Inl Invalid_argument else Inr ())"

fun exclusions_guard :: "tid list \<Rightarrow> tid list \<Rightarrow> tid list \<Rightarrow> exn + unit" where
  "exclusions_guard firsts lasts [] = Inr ()"
| "exclusions_guard firsts lasts (x # xs) =
     (if x \<in> set firsts then Inl Invalid_argument
      else if x \<in> set lasts then Inl Invalid_argument else exclusions_guard firsts lasts xs)"

text \<open>\<open>is_commute t\<close>: the task is the \<^verbatim>\<open>commute\<close> task of a switcher.\<close>

definition init_guard :: "(tid \<Rightarrow> bool) \<Rightarrow> tid list \<Rightarrow> tid list \<Rightarrow> tid list \<Rightarrow> nat \<Rightarrow> exn + unit" where
  "init_guard is_commute firsts lasts exclusions n_threads =
     (if length firsts = 0 then Inl Invalid_argument
      else if n_threads = 0 then Inl Invalid_argument
      else case exclusions_guard firsts lasts exclusions of Inl e \<Rightarrow> Inl e
      | Inr _ \<Rightarrow> if \<exists>t \<in> set lasts. is_commute t then Inl Invalid_argument else Inr ())"

definition set_thread_pinning :: "bool \<Rightarrow> nat list \<Rightarrow> seq \<Rightarrow> (seq, unit) outcome" where
  "set_thread_pinning pinning puids q =
     (if pinning \<and> length puids < q_n_threads q then (Inl Invalid_argument, q)
      else (Inr (), q\<lparr>q_pinning := pinning, q_puids := puids, q_pin_objects := []\<rparr>))"

definition set_no_copy_mode :: "bool \<Rightarrow> seq \<Rightarrow> seq" where
  "set_no_copy_mode b q = q\<lparr>q_no_copy := b\<rparr>"

definition set_auto_stop :: "bool \<Rightarrow> seq \<Rightarrow> seq" where
  "set_auto_stop b q = q\<lparr>q_auto_stop := b\<rparr>"

section \<open>Passes over the graph\<close>

definition seq_fuel :: "subseq graph \<Rightarrow> nat" where
  "seq_fuel G = Suc (g_next G)"

text \<open>Every task of the nodes, in the order of the traversal.\<close>

definition add_tasks :: "subseq graph \<Rightarrow> nat \<Rightarrow> tid list \<Rightarrow> (tid list, unit) outcome" where
  "add_tasks G n ts = (case contents_of G n of None \<Rightarrow> (Inl UB, ts) | Some c \<Rightarrow> (Inr (), ts @ ss_tasks c))"

definition tasks_from :: "subseq graph \<Rightarrow> nat \<Rightarrow> exn + tid list" where
  "tasks_from G r = (case dfs (seq_fuel G) (add_tasks G) (children_of G) r ([], []) of
     (Inl e, _) \<Rightarrow> Inl e | (Inr _, (_, ts)) \<Rightarrow> Inr ts)"

fun map_exn :: "('a \<Rightarrow> exn + 'b) \<Rightarrow> 'a list \<Rightarrow> exn + 'b list" where
  "map_exn f [] = Inr []"
| "map_exn f (x # xs) = (case f x of Inl e \<Rightarrow> Inl e
     | Inr y \<Rightarrow> (case map_exn f xs of Inl e \<Rightarrow> Inl e | Inr ys \<Rightarrow> Inr (y # ys)))"

definition get_tasks_per_threads :: "seq \<Rightarrow> exn + tid list list" where
  "get_tasks_per_threads q = map_exn (\<lambda>tid. tasks_from (q_graph q) (q_sequences q ! tid)) [0..<q_n_threads q]"

text \<open>The task \<open>k\<close> of every thread; a thread with more than \<open>n_tasks\<close> tasks runs out of the vector.\<close>

definition get_tasks_per_types :: "seq \<Rightarrow> exn + tid list list" where
  "get_tasks_per_types q = (case get_tasks_per_threads q of Inl e \<Rightarrow> Inl e
     | Inr tss \<Rightarrow> if \<exists>ts \<in> set tss. length ts > q_n_tasks q then Inl UB
         else Inr (map (\<lambda>k. concat (map (\<lambda>ts. if k < length ts then [ts ! k] else []) tss)) [0..<q_n_tasks q]))"

definition get_modules_per_threads :: "seq \<Rightarrow> mid list list" where
  "get_modules_per_threads q = q_all_modules q"

definition get_modules_per_types :: "seq \<Rightarrow> exn + mid list list" where
  "get_modules_per_types q = (case q_all_modules q of [] \<Rightarrow> Inl UB
     | ms # _ \<Rightarrow> if \<exists>e \<in> set (q_all_modules q). length e > length ms then Inl UB
         else Inr (map (\<lambda>k. concat (map (\<lambda>e. if k < length e then [e ! k] else []) (q_all_modules q))) [0..<length ms]))"

text \<open>\<^verbatim>\<open>get_tasks_from_id\<close>: the search of a thread stops below a node that holds the number.\<close>

definition find_id :: "subseq graph \<Rightarrow> nat \<Rightarrow> nat \<Rightarrow> tid list \<Rightarrow> (tid list, unit) outcome" where
  "find_id G taid n ts = (case contents_of G n of None \<Rightarrow> (Inl UB, ts)
     | Some c \<Rightarrow> (case find_pos taid (ss_tasks_id c) of None \<Rightarrow> (Inr (), ts)
       | Some t \<Rightarrow> if t < length (ss_tasks c) then (Inr (), ts @ [ss_tasks c ! t]) else (Inl UB, ts)))"

definition search_children :: "subseq graph \<Rightarrow> nat \<Rightarrow> nat \<Rightarrow> nat list" where
  "search_children G taid n = (case contents_of G n of None \<Rightarrow> []
     | Some c \<Rightarrow> if taid \<in> set (ss_tasks_id c) then [] else children_of G n)"

definition get_tasks_from_id :: "seq \<Rightarrow> nat \<Rightarrow> exn + tid list" where
  "get_tasks_from_id q taid = (case foreach (\<lambda>r ts. case
       dfs (seq_fuel (q_graph q)) (find_id (q_graph q) taid) (search_children (q_graph q) taid) r ([], ts) of
         (Inl e, _) \<Rightarrow> (Inl e, ts) | (Inr _, (_, ts')) \<Rightarrow> (Inr (), ts')) (q_sequences q) [] of
     (Inl e, _) \<Rightarrow> Inl e | (Inr _, ts) \<Rightarrow> Inr ts)"

text \<open>\<open>spread_ids\<close>: the \<open>k\<close>-th task found for each number goes to the thread \<open>k\<close>.\<close>

definition give_threads :: "tid list \<Rightarrow> tid list list \<Rightarrow> exn + tid list list" where
  "give_threads ts acc = (if length ts > length acc then Inl UB
     else Inr (map (\<lambda>k. if k < length ts then acc ! k @ [ts ! k] else acc ! k) [0..<length acc]))"

fun spread_ids :: "seq \<Rightarrow> nat list \<Rightarrow> tid list list \<Rightarrow> exn + tid list list" where
  "spread_ids q [] acc = Inr acc"
| "spread_ids q (i # is) acc = (case get_tasks_from_id q i of Inl e \<Rightarrow> Inl e
     | Inr ts \<Rightarrow> (case give_threads ts acc of Inl e \<Rightarrow> Inl e | Inr acc' \<Rightarrow> spread_ids q is acc'))"

definition update_firsts_and_lasts_tasks :: "seq \<Rightarrow> (seq, unit) outcome" where
  "update_firsts_and_lasts_tasks q =
     (case spread_ids q (q_firsts_id q) (replicate (q_n_threads q) []) of Inl e \<Rightarrow> (Inl e, q)
      | Inr fs \<Rightarrow> let q1 = q\<lparr>q_firsts := fs\<rparr> in
        case spread_ids q1 (q_lasts_id q1) (replicate (q_n_threads q1) []) of Inl e \<Rightarrow> (Inl e, q1)
        | Inr ls \<Rightarrow> (Inr (), q1\<lparr>q_lasts := ls\<rparr>))"

text \<open>\<^verbatim>\<open>update_tasks_id\<close>: consecutive numbers in each node, from the first one.\<close>

definition renumber :: "nat \<Rightarrow> subseq graph \<Rightarrow> (subseq graph, unit) outcome" where
  "renumber n G = (case contents_of G n of None \<Rightarrow> (Inl UB, G)
     | Some c \<Rightarrow> (if ss_tasks c = [] then (Inl UB, G)
        else let front = (case ss_tasks_id c of [] \<Rightarrow> 0 | i # _ \<Rightarrow> i) in
          (Inr (), set_contents n (Some (c\<lparr>ss_tasks_id := [front..<front + length (ss_tasks c)]\<rparr>)) G)))"

definition update_tasks_id :: "nat \<Rightarrow> seq \<Rightarrow> (seq, unit) outcome" where
  "update_tasks_id tid q =
     (case dfs (seq_fuel (q_graph q)) renumber (children_of (q_graph q)) (q_sequences q ! tid) ([], q_graph q) of
        (r, (_, G)) \<Rightarrow> (r, q\<lparr>q_graph := G\<rparr>))"

text \<open>
  \<^verbatim>\<open>get_last_subsequence\<close>: the leaf of the graph; two different leaves are an error. The result is the node
  of the leaf, \<open>None\<close> when the traversal met only visited nodes.
\<close>

fun last_leaf :: "nat \<Rightarrow> subseq graph \<Rightarrow> nat \<Rightarrow> nat list \<Rightarrow> (nat list, nat option) outcome"
  and last_leaf_children :: "nat \<Rightarrow> subseq graph \<Rightarrow> nat list \<Rightarrow> nat option \<Rightarrow> nat list \<Rightarrow> (nat list, nat option) outcome" where
  "last_leaf 0 G n vis = (Inl UB, vis)"
| "last_leaf (Suc k) G n vis =
     (if n \<in> set vis then (Inr None, vis)
      else if children_of G n = [] then (Inr (Some n), vis @ [n])
      else last_leaf_children k G (children_of G n) None (vis @ [n]))"
| "last_leaf_children k G [] last_ss vis = (Inr last_ss, vis)"
| "last_leaf_children k G (c # cs) last_ss vis =
     (case last_leaf k G c vis of (Inl e, vis') \<Rightarrow> (Inl e, vis')
      | (Inr branch, vis') \<Rightarrow>
          if last_ss \<noteq> None \<and> branch \<noteq> None \<and> last_ss \<noteq> branch then (Inl Runtime_error, vis')
          else last_leaf_children k G cs (if branch \<noteq> None then branch else last_ss) vis')"

definition get_last_subsequence :: "nat \<Rightarrow> seq \<Rightarrow> exn + nat option" where
  "get_last_subsequence tid q = fst (last_leaf (seq_fuel (q_graph q)) (q_graph q) (q_sequences q ! tid) [])"

definition is_control_flow :: "seq \<Rightarrow> bool" where
  "is_control_flow q \<longleftrightarrow> length (children_of (q_graph q) (q_sequences q ! 0)) \<noteq> 0"

section \<open>One pass of execution\<close>

text \<open>
  A node runs its tasks and says which nodes come next: all its children, or, after a \<^verbatim>\<open>commute\<close>, the child
  whose position is the status (converted to \<^verbatim>\<open>size_t\<close>), if there is one. The recursion of the code is
  the stack of the nodes still to run; it may not end when the graph has a loop.
\<close>

type_synonym statuses = "int option list"

fun run_list :: "(tid \<Rightarrow> 's \<Rightarrow> (exn + int) \<times> 's) \<Rightarrow> (tid \<times> nat) list \<Rightarrow> statuses \<times> 's \<Rightarrow> (statuses \<times> 's, unit) outcome" where
  "run_list run [] v = (Inr (), v)"
| "run_list run ((t, i) # ts) (st, s) =
     (case run t s of (Inl e, s') \<Rightarrow> (Inl e, (st, s'))
      | (Inr x, s') \<Rightarrow> if i < length st then run_list run ts (st[i := Some x], s') else (Inl UB, (st, s')))"

definition seq_step :: "(tid \<Rightarrow> 's \<Rightarrow> (exn + int) \<times> 's) \<Rightarrow> subseq graph \<Rightarrow> nat \<Rightarrow> statuses \<times> 's \<Rightarrow> (statuses \<times> 's, nat list) outcome" where
  "seq_step run G n v = (case contents_of G n of None \<Rightarrow> (Inl UB, v)
     | Some c \<Rightarrow>
         if ss_type c = COMMUTE
         then (case zip (ss_tasks c) (ss_tasks_id c) of [] \<Rightarrow> (Inl UB, v)
           | x # _ \<Rightarrow> bindo (run_list run [x] v) (\<lambda>_ v'.
               case fst v' ! snd x of None \<Rightarrow> (Inl UB, v')
               | Some path \<Rightarrow> (Inr (if size_cast path < length (children_of G n)
                   then [children_of G n ! size_cast path] else []), v')))
         else if length (ss_tasks_id c) < length (ss_tasks c) then (Inl UB, v)
         else bindo (run_list run (zip (ss_tasks c) (ss_tasks_id c)) v) (\<lambda>_ v'. (Inr (children_of G n), v')))"

partial_function (option) exec_nodes ::
  "(tid \<Rightarrow> 's \<Rightarrow> (exn + int) \<times> 's) \<Rightarrow> subseq graph \<Rightarrow> nat list \<Rightarrow> statuses \<times> 's \<Rightarrow> (statuses \<times> 's, unit) outcome option" where
  "exec_nodes run G stack v = (case stack of [] \<Rightarrow> Some (Inr (), v)
     | n # rest \<Rightarrow> (case seq_step run G n v of (r, v') \<Rightarrow>
         (case r of Inl e \<Rightarrow> Some (Inl e, v') | Inr next \<Rightarrow> exec_nodes run G (next @ rest) v')))"

text \<open>
  The walk without the statuses: \<^verbatim>\<open>_exec_without_statuses\<close> (with the processes of the tasks) and
  \<^verbatim>\<open>exec_seq\<close> (with the \<^verbatim>\<open>exec\<close> of the tasks themselves).
\<close>

definition run_one :: "(tid \<Rightarrow> 's \<Rightarrow> (exn + int) \<times> 's) \<Rightarrow> tid \<Rightarrow> 's \<Rightarrow> ('s, unit) outcome" where
  "run_one run t s = bindo (run t s) (\<lambda>_ s'. (Inr (), s'))"

definition node_walk :: "(tid \<Rightarrow> 's \<Rightarrow> (exn + int) \<times> 's) \<Rightarrow> subseq graph \<Rightarrow> nat \<Rightarrow> 's \<Rightarrow> ('s, nat list) outcome" where
  "node_walk run G n s = (case contents_of G n of None \<Rightarrow> (Inl UB, s)
     | Some c \<Rightarrow>
         if ss_type c = COMMUTE
         then (case ss_tasks c of [] \<Rightarrow> (Inl UB, s)
           | t # _ \<Rightarrow> bindo (run t s) (\<lambda>path s'. (Inr (if size_cast path < length (children_of G n)
                then [children_of G n ! size_cast path] else []), s')))
         else bindo (foreach (run_one run) (ss_tasks c) s) (\<lambda>_ s'. (Inr (children_of G n), s')))"

partial_function (option) walk ::
  "(tid \<Rightarrow> 's \<Rightarrow> (exn + int) \<times> 's) \<Rightarrow> subseq graph \<Rightarrow> nat list \<Rightarrow> 's \<Rightarrow> ('s, unit) outcome option" where
  "walk run G stack s = (case stack of [] \<Rightarrow> Some (Inr (), s)
     | n # rest \<Rightarrow> (case node_walk run G n s of (r, s') \<Rightarrow>
         (case r of Inl e \<Rightarrow> Some (Inl e, s') | Inr next \<Rightarrow> walk run G (next @ rest) s')))"

definition exec_seq ::
  "(tid \<Rightarrow> 's \<Rightarrow> (exn + int) \<times> 's) \<Rightarrow> seq \<Rightarrow> nat \<Rightarrow> 's \<Rightarrow> ('s, unit) outcome option" where
  "exec_seq run q tid s = (if tid \<ge> length (q_sequences q) then Some (Inl Runtime_error, s)
     else walk run (q_graph q) [q_sequences q ! tid] s)"

section \<open>The loop of a thread\<close>

text \<open>
  \<open>env\<close> is what the loop asks of the rest of the program: the reset of the switchers of the thread, the
  stop condition, the flag that forces the exit and the signal. \<^verbatim>\<open>processing_aborted\<close> ends the pass only.
\<close>

record 's loop_env =
  le_reset :: "'s \<Rightarrow> 's"
  le_stop :: "statuses \<Rightarrow> 's \<Rightarrow> bool \<times> 's"
  le_force :: "'s \<Rightarrow> bool"
  le_sigint :: "'s \<Rightarrow> bool"
  le_cancel :: "'s \<Rightarrow> 's"

definition again :: "'s loop_env \<Rightarrow> statuses \<Rightarrow> 's \<Rightarrow> bool \<times> 's" where
  "again E st s = (if le_force E s then (False, s)
     else case le_stop E st s of (stop, s') \<Rightarrow> if stop then (False, s') else (\<not> le_sigint E s', s'))"

text \<open>The stop condition \<^verbatim>\<open>exec\<close> makes of the one of the caller; \<open>donners\<close> are the modules that know the end.\<close>

definition is_done_seq :: "('s \<Rightarrow> bool) list \<Rightarrow> 's \<Rightarrow> bool" where
  "is_done_seq donners s \<longleftrightarrow> (\<exists>d \<in> set donners. d s)"

definition real_stop :: "bool \<Rightarrow> ('s \<Rightarrow> bool) list \<Rightarrow> (statuses \<Rightarrow> 's \<Rightarrow> bool \<times> 's) \<Rightarrow> statuses \<Rightarrow> 's \<Rightarrow> bool \<times> 's" where
  "real_stop auto_stop donners stop st s = (if auto_stop
     then (case stop st s of (res, s') \<Rightarrow> (res \<or> is_done_seq donners s', s')) else stop st s)"

definition pass_result :: "(statuses \<times> 's, unit) outcome \<Rightarrow> exn option" where
  "pass_result r = (case fst r of Inr _ \<Rightarrow> None | Inl e \<Rightarrow> if e = Processing_aborted then None else Some e)"

definition one_pass ::
  "(tid \<Rightarrow> 's \<Rightarrow> (exn + int) \<times> 's) \<Rightarrow> 's loop_env \<Rightarrow> seq \<Rightarrow> nat \<Rightarrow> 's \<Rightarrow> (statuses \<times> 's, unit) outcome option" where
  "one_pass run E q tid s = exec_nodes run (q_graph q) [q_sequences q ! tid] (replicate (q_n_tasks q) None, le_reset E s)"

partial_function (option) thread_loop ::
  "(tid \<Rightarrow> 's \<Rightarrow> (exn + int) \<times> 's) \<Rightarrow> 's loop_env \<Rightarrow> seq \<Rightarrow> nat \<Rightarrow> 's \<Rightarrow> (exn option \<times> 's) option" where
  "thread_loop run E q tid s = Option.bind (one_pass run E q tid s) (\<lambda>r.
     (case pass_result r of Some e \<Rightarrow> Some (Some e, snd (snd r))
      | None \<Rightarrow> (let (b, s') = again E (fst (snd r)) (snd (snd r)) in
          if b then thread_loop run E q tid s'
          else Some (None, if le_sigint E s' then le_cancel E s' else s'))))"

section \<open>The end of an execution\<close>

text \<open>
  What a thread records of the exception that ended it: nothing for \<^verbatim>\<open>waiting_canceled\<close>, otherwise its
  message, once per signature, and the exit of the other threads.
\<close>

definition record_message :: "string \<Rightarrow> string \<Rightarrow> seq \<Rightarrow> (seq, unit) outcome" where
  "record_message msg full q =
     (if msg \<notin> set (q_messages q)
      then (Inr (), q\<lparr>q_messages := q_messages q @ [msg], q_display := q_display q @ [full]\<rparr>)
      else if q_display q = [] then (Inl UB, q)
      else if length full > length (last (q_display q))
      then (Inr (), q\<lparr>q_display := (q_display q)[length (q_display q) - 1 := full]\<rparr>)
      else (Inr (), q))"

definition thread_end :: "(exn \<Rightarrow> string) \<Rightarrow> (exn \<Rightarrow> string) \<Rightarrow> exn option \<Rightarrow> seq \<Rightarrow> (seq, unit) outcome" where
  "thread_end what what_full r q = (case r of None \<Rightarrow> (Inr (), q)
     | Some e \<Rightarrow> if e = Waiting_canceled then (Inr (), q)
         else record_message (what e) (what_full e) (q\<lparr>q_force_exit := True\<rparr>))"

text \<open>\<^verbatim>\<open>exec\<close>: once all the threads have ended, with the exceptions in the order they were recorded.\<close>

definition exec_end :: "(exn \<Rightarrow> string) \<Rightarrow> (exn \<Rightarrow> string) \<Rightarrow> exn option list \<Rightarrow> seq \<Rightarrow> (seq, unit) outcome" where
  "exec_end what what_full rs q = bindo (foreach (thread_end what what_full) rs q) (\<lambda>_ q1.
     if q_display q1 \<noteq> [] then (Inl Other_exn, q1\<lparr>q_force_exit := False\<rparr>) else (Inr (), q1))"

section \<open>Step by step\<close>

text \<open>
  \<^verbatim>\<open>exec_step\<close> runs one task. At the end of a round the next call only starts the round again. Below a
  node with no task the walk goes to the first child.
\<close>

partial_function (option) skip_empty :: "subseq graph \<Rightarrow> nat \<Rightarrow> nat option" where
  "skip_empty G n = (if children_of G n = [] then Some n
     else let c = hd (children_of G n) in
       case contents_of G c of Some x \<Rightarrow> if ss_tasks x \<noteq> [] then Some c else skip_empty G c
       | None \<Rightarrow> skip_empty G c)"

definition n_tasks_of :: "subseq graph \<Rightarrow> nat \<Rightarrow> nat option" where
  "n_tasks_of G n = map_option (\<lambda>c. length (ss_tasks c)) (contents_of G n)"

text \<open>The end of a step: the place reached, its task, and whether the round is over.\<close>

definition settle :: "nat \<Rightarrow> seq \<Rightarrow> nat \<Rightarrow> nat \<Rightarrow> (seq, unit) outcome option" where
  "settle tid q n k = map_option (\<lambda>n'. let k' = (if children_of (q_graph q) n = [] then k else 0) in
     case n_tasks_of (q_graph q) n' of None \<Rightarrow> (Inl UB, q)
     | Some l \<Rightarrow> (Inr (), q\<lparr>q_cur_ss := (q_cur_ss q)[tid := n'], q_cur_task := (q_cur_task q)[tid := k'],
         q_next_over := (if k' \<ge> l then (q_next_over q)[tid := True] else q_next_over q)\<rparr>)) (skip_empty (q_graph q) n)"

definition step_move :: "nat \<Rightarrow> int \<Rightarrow> seq \<Rightarrow> (seq, unit) outcome option" where
  "step_move tid ret q = (let G = q_graph q; n = q_cur_ss q ! tid; k = q_cur_task q ! tid in
     case contents_of G n of None \<Rightarrow> Some (Inl UB, q)
     | Some c \<Rightarrow>
        if ss_type c = COMMUTE
        then (if size_cast ret < length (children_of G n)
          then (let m = children_of G n ! size_cast ret; q1 = q\<lparr>q_cur_ss := (q_cur_ss q)[tid := m], q_cur_task := (q_cur_task q)[tid := 0]\<rparr> in
            case n_tasks_of G m of None \<Rightarrow> Some (Inl UB, q1)
            | Some l \<Rightarrow> if l = 0 then settle tid q1 m 0 else Some (Inr (), q1))
          else Some (Inl Invalid_argument, q))
        else (let q1 = q\<lparr>q_cur_task := (q_cur_task q)[tid := k + 1]\<rparr> in
          if k + 1 = length (ss_tasks c) then settle tid q1 n (k + 1) else Some (Inr (), q1)))"

definition exec_step ::
  "(tid \<Rightarrow> 's \<Rightarrow> (exn + int) \<times> 's) \<Rightarrow> nat \<Rightarrow> seq \<times> 's \<Rightarrow> (seq \<times> 's, tid option) outcome option" where
  "exec_step run tid v = (case v of (q, s) \<Rightarrow>
     if tid \<ge> length (q_sequences q) then Some (Inl Runtime_error, v)
     else if q_next_over q ! tid
     then Some (Inr None, (q\<lparr>q_next_over := (q_next_over q)[tid := False],
       q_cur_ss := (q_cur_ss q)[tid := q_sequences q ! tid], q_cur_task := (q_cur_task q)[tid := 0]\<rparr>, s))
     else case contents_of (q_graph q) (q_cur_ss q ! tid) of None \<Rightarrow> Some (Inl UB, v)
     | Some c \<Rightarrow>
        if q_cur_task q ! tid \<ge> length (ss_tasks c) then Some (Inl UB, v)
        else let t = ss_tasks c ! (q_cur_task q ! tid) in
          case run t s of (Inl e, s') \<Rightarrow> Some (Inl e, (q, s'))
          | (Inr ret, s') \<Rightarrow> map_option (\<lambda>(r, q'). (map_sum id (\<lambda>_. Some t) r, (q', s'))) (step_move tid ret q))"

end
