(* ===== verification/Sequence_Exec.thy ===== *)
theory Sequence_Exec
  imports Sequences
begin

text \<open>
  What the execution of a sequence guarantees: a traversal meets every node once; running a round step by
  step runs the same tasks in the same order as running it at once; and an exception that was reported once
  is reported by every later execution.
\<close>

section \<open>The tasks of a thread\<close>

definition node_tasks :: "subseq graph \<Rightarrow> nat \<Rightarrow> tid list" where
  "node_tasks G n = (case contents_of G n of None \<Rightarrow> [] | Some c \<Rightarrow> ss_tasks c)"

definition graph_ok :: "subseq graph \<Rightarrow> bool" where
  "graph_ok G \<longleftrightarrow> (\<forall>n < g_next G. set (children_of G n) \<subseteq> {..<g_next G} \<and> contents_of G n \<noteq> None)"

lemma foreach_add_tasks:
  "(\<forall>n \<in> set ns. contents_of G n \<noteq> None) \<Longrightarrow>
     foreach (add_tasks G) ns ts = (Inr (), ts @ concat (map (node_tasks G) ns))"
  by (induction ns arbitrary: ts) (auto simp: add_tasks_def node_tasks_def)

text \<open>The nodes a graph can reach from one of its nodes are nodes of the graph.\<close>

lemma reach_in_graph: "graph_ok G \<Longrightarrow> r < g_next G \<Longrightarrow> reach (children_of G) r \<subseteq> {..<g_next G}"
  using reach_least [of _ "children_of G" r "{..<g_next G}"] by (auto simp: graph_ok_def)

lemma tasks_from_ok:
  assumes "graph_ok G" and "r < g_next G"
  shows "\<exists>vis. distinct vis \<and> set vis = reach (children_of G) r \<and> tasks_from G r = Inr (concat (map (node_tasks G) vis))"
proof -
  have "\<exists>vis s'. dfs (seq_fuel G) (add_tasks G) (children_of G) r ([], []) = (Inr (), (vis, s')) \<and> distinct vis \<and>
      set vis = reach (children_of G) r \<and> foreach (add_tasks G) vis [] = (Inr (), s') \<and> True"
    by (rule dfs_complete [where V = "{..<g_next G}" and P = "\<lambda>_. True"])
      (use assms in \<open>auto simp: graph_ok_def seq_fuel_def add_tasks_def\<close>)
  then obtain vis s' where 1: "dfs (seq_fuel G) (add_tasks G) (children_of G) r ([], []) = (Inr (), (vis, s'))" "distinct vis"
    "set vis = reach (children_of G) r" "foreach (add_tasks G) vis [] = (Inr (), s')" by blast
  have "\<forall>n \<in> set vis. contents_of G n \<noteq> None"
    using 1(3) reach_in_graph [OF assms] assms(1) by (auto simp: graph_ok_def)
  from foreach_add_tasks [OF this, of "[]"] 1 show ?thesis by (intro exI [of _ vis]) (simp add: tasks_from_def)
qed

section \<open>Step by step and at once\<close>

fun steps :: "(tid \<Rightarrow> 's \<Rightarrow> (exn + int) \<times> 's) \<Rightarrow> nat \<Rightarrow> nat \<Rightarrow> seq \<times> 's \<Rightarrow> (seq \<times> 's) option" where
  "steps run tid 0 v = Some v"
| "steps run tid (Suc k) v = (case exec_step run tid v of
     Some (Inr (Some t), v') \<Rightarrow> steps run tid k v' | _ \<Rightarrow> None)"

lemma steps_add: "steps run tid j v = Some v1 \<Longrightarrow> steps run tid (j + k) v = steps run tid k v1"
  by (induction j arbitrary: v) (auto split: option.splits sum.splits)

text \<open>The sequence with the place of a thread: its node, its task, and whether the round is over.\<close>

definition place :: "nat \<Rightarrow> nat \<Rightarrow> nat \<Rightarrow> bool \<Rightarrow> seq \<Rightarrow> seq" where
  "place tid n k b q = q\<lparr>q_cur_ss := (q_cur_ss q)[tid := n], q_cur_task := (q_cur_task q)[tid := k],
     q_next_over := (q_next_over q)[tid := b]\<rparr>"

definition seq_slots :: "nat \<Rightarrow> seq \<Rightarrow> bool" where
  "seq_slots tid q \<longleftrightarrow> tid < length (q_sequences q) \<and> tid < length (q_next_over q) \<and>
     tid < length (q_cur_ss q) \<and> tid < length (q_cur_task q)"

lemma place_sel [simp]:
  "q_graph (place tid n k b q) = q_graph q" "q_sequences (place tid n k b q) = q_sequences q"
  "seq_slots tid (place tid n k b q) = seq_slots tid q"
  "seq_slots tid q \<Longrightarrow> q_cur_ss (place tid n k b q) ! tid = n"
  "seq_slots tid q \<Longrightarrow> q_cur_task (place tid n k b q) ! tid = k"
  "seq_slots tid q \<Longrightarrow> q_next_over (place tid n k b q) ! tid = b"
  by (auto simp: place_def seq_slots_def)

lemma place_upd:
  "seq_slots tid q \<Longrightarrow> (place tid n k b q)\<lparr>q_cur_task := (q_cur_task (place tid n k b q))[tid := k']\<rparr> = place tid n k' b q"
  "(place tid n k b q)\<lparr>q_cur_ss := (q_cur_ss (place tid n k b q))[tid := n'],
      q_cur_task := (q_cur_task (place tid n k b q))[tid := k']\<rparr> = place tid n' k' b q"
  "(place tid n k b q)\<lparr>q_next_over := (q_next_over (place tid n k b q))[tid := b'],
      q_cur_ss := (q_cur_ss (place tid n k b q))[tid := n'],
      q_cur_task := (q_cur_task (place tid n k b q))[tid := k']\<rparr> = place tid n' k' b' q"
  "(place tid n k b q)\<lparr>q_cur_ss := (q_cur_ss (place tid n k b q))[tid := n'],
      q_cur_task := (q_cur_task (place tid n k b q))[tid := k'],
      q_next_over := (q_next_over (place tid n k b q))[tid := b']\<rparr> = place tid n' k' b' q"
  "(place tid n k b q)\<lparr>q_cur_ss := (q_cur_ss (place tid n k b q))[tid := n'],
      q_cur_task := (q_cur_task (place tid n k b q))[tid := k'],
      q_next_over := q_next_over (place tid n k b q)\<rparr> = place tid n' k' b q"
  by (simp_all add: place_def)

lemma step_ends_round:
  "seq_slots tid q \<Longrightarrow> q_sequences q ! tid = r \<Longrightarrow>
     exec_step run tid (place tid n k True q, s) = Some (Inr None, (place tid r 0 False q, s))"
  by (simp add: exec_step_def place_upd) (simp add: seq_slots_def)

text \<open>
  The graphs of the code: a node is either a chain node with at most one child, or a \<^verbatim>\<open>commute\<close> node with one
  task whose status is always the position of a child.
\<close>

definition walkable :: "(tid \<Rightarrow> 's \<Rightarrow> (exn + int) \<times> 's) \<Rightarrow> subseq graph \<Rightarrow> bool" where
  "walkable run G \<longleftrightarrow> (\<forall>n c. contents_of G n = Some c \<longrightarrow>
     (if ss_type c = COMMUTE
      then \<exists>t. ss_tasks c = [t] \<and> (\<forall>s x s'. run t s = (Inr x, s') \<longrightarrow> size_cast x < length (children_of G n))
      else length (children_of G n) \<le> 1))"

definition target :: "subseq graph \<Rightarrow> nat \<Rightarrow> nat option" where
  "target G n = (if node_tasks G n \<noteq> [] then Some n else skip_empty G n)"

lemma skip_empty_target:
  "skip_empty G n = (if children_of G n = [] then Some n else target G (hd (children_of G n)))"
  by (subst skip_empty.simps) (auto simp: target_def node_tasks_def Let_def split: option.split)

lemma run_all_Cons:
  "foreach (run_one run) (a # ts) s = (Inr (), s') \<longleftrightarrow>
     (\<exists>x s2. run a s = (Inr x, s2) \<and> foreach (run_one run) ts s2 = (Inr (), s'))"
  by (cases "run a s" rule: is_ok.cases) (auto simp: run_one_def)

text \<open>The steps through the tasks of a chain node, from the \<open>j\<close>-th one to the one before the last.\<close>

lemma chain_steps:
  assumes c: "contents_of (q_graph q) n = Some c" "ss_type c \<noteq> COMMUTE" and q: "seq_slots tid q"
  shows "ss_tasks c = pre @ ts @ [t] \<Longrightarrow> foreach (run_one run) (ts @ [t]) s = (Inr (), s') \<Longrightarrow>
    \<exists>s1 x. steps run tid (length ts) (place tid n (length pre) False q, s) = Some (place tid n (length pre + length ts) False q, s1) \<and>
      run t s1 = (Inr x, s')"
proof (induction ts arbitrary: pre s)
  case Nil
  then show ?case using run_all_Cons [of run t "[]" s s'] by auto
next
  case (Cons a ts)
  from Cons.prems obtain x s2 where r: "run a s = (Inr x, s2)" "foreach (run_one run) (ts @ [t]) s2 = (Inr (), s')"
    using run_all_Cons [of run a "ts @ [t]" s s'] by auto
  have step: "exec_step run tid (place tid n (length pre) False q, s) =
      Some (Inr (Some a), (place tid n (length pre + 1) False q, s2))"
    using Cons.prems(1) c r(1) q
    by (simp add: exec_step_def step_move_def Let_def place_upd) (simp add: seq_slots_def)
  from Cons.IH [of "pre @ [a]" s2] Cons.prems(1) r(2) step show ?case by auto
qed

text \<open>
  The rest of a round from the node \<open>n\<close>: the first node with tasks below \<open>n\<close> is reached, and steps from there
  end the round in the state \<open>s'\<close>.
\<close>

definition round_from :: "(tid \<Rightarrow> 's \<Rightarrow> (exn + int) \<times> 's) \<Rightarrow> seq \<Rightarrow> nat \<Rightarrow> nat \<Rightarrow> 's \<Rightarrow> 's \<Rightarrow> bool" where
  "round_from run q tid n s s' \<longleftrightarrow> (\<exists>m. target (q_graph q) n = Some m \<and> contents_of (q_graph q) m \<noteq> None \<and>
     (if node_tasks (q_graph q) m = [] then s' = s
      else \<exists>k m' k'. steps run tid k (place tid m 0 False q, s) = Some (place tid m' k' True q, s')))"

lemma settle_place:
  assumes "seq_slots tid q" and "skip_empty (q_graph q) n = Some m" and "contents_of (q_graph q) m \<noteq> None"
    and "k' = (if children_of (q_graph q) n = [] then k else 0)"
  shows "settle tid (place tid n k False q) n k =
    Some (Inr (), place tid m k' (k' \<ge> length (node_tasks (q_graph q) m)) q)"
  using assms by (auto simp: settle_def n_tasks_of_def node_tasks_def place_def Let_def)

lemma arrive:
  assumes r: "round_from run q tid n s s'" and m: "target (q_graph q) n = Some m"
    and step: "exec_step run tid v = Some (Inr (Some t), (place tid m 0 (node_tasks (q_graph q) m = []) q, s))"
  shows "\<exists>k m' k'. steps run tid k v = Some (place tid m' k' True q, s')"
proof (cases "node_tasks (q_graph q) m = []")
  case True
  with r m have "s' = s" by (auto simp: round_from_def)
  with step True have "steps run tid 1 v = Some (place tid m 0 True q, s')" by simp
  then show ?thesis by blast
next
  case False
  with r m obtain k m' k' where "steps run tid k (place tid m 0 False q, s) = Some (place tid m' k' True q, s')"
    by (auto simp: round_from_def)
  with step False have "steps run tid (Suc k) v = Some (place tid m' k' True q, s')" by simp
  then show ?thesis by blast
qed

text \<open>The last task of a chain node.\<close>

lemma chain_last:
  assumes c: "contents_of (q_graph q) n = Some c" "ss_type c \<noteq> COMMUTE" and q: "seq_slots tid q"
    and t: "ss_tasks c = ts @ [t]" "run t s = (Inr x, s2)"
    and ch: "children_of (q_graph q) n = cs" "length cs \<le> 1"
    and nxt: "cs = [] \<Longrightarrow> s' = s2" "\<And>d. cs = [d] \<Longrightarrow> round_from run q tid d s2 s'"
  shows "\<exists>k m' k'. steps run tid k (place tid n (length ts) False q, s) = Some (place tid m' k' True q, s')"
proof (cases cs)
  case Nil
  have "skip_empty (q_graph q) n = Some n" using ch Nil by (subst skip_empty.simps) simp
  with q c ch Nil have s: "settle tid (place tid n (length ts + 1) False q) n (length ts + 1) =
      Some (Inr (), place tid n (length ts + 1) True q)"
    using settle_place [of tid q n n "length ts + 1" "length ts + 1"] t(1) by (simp add: node_tasks_def)
  have "exec_step run tid (place tid n (length ts) False q, s) =
      Some (Inr (Some t), (place tid n (length ts + 1) True q, s2))"
    using c t q s by (simp add: exec_step_def step_move_def Let_def place_upd) (simp add: seq_slots_def)
  then have "steps run tid 1 (place tid n (length ts) False q, s) = Some (place tid n (length ts + 1) True q, s2)" by simp
  with nxt(1) Nil show ?thesis by blast
next
  case (Cons d ds)
  with ch(2) have cs: "cs = [d]" by simp
  from nxt(2) [OF cs] obtain m where m: "target (q_graph q) d = Some m" "contents_of (q_graph q) m \<noteq> None"
    by (auto simp: round_from_def)
  have "skip_empty (q_graph q) n = Some m" using m(1) ch cs by (subst skip_empty_target) simp
  with settle_place [of tid q n m 0 "length ts + 1"] q m(2) ch cs
  have s: "settle tid (place tid n (length ts + 1) False q) n (length ts + 1) =
      Some (Inr (), place tid m 0 (node_tasks (q_graph q) m = []) q)" by simp
  have step: "exec_step run tid (place tid n (length ts) False q, s) =
      Some (Inr (Some t), (place tid m 0 (node_tasks (q_graph q) m = []) q, s2))"
    using c t q s by (simp add: exec_step_def step_move_def Let_def place_upd) (simp add: seq_slots_def)
  show ?thesis by (rule arrive [OF nxt(2) [OF cs] m(1) step])
qed

text \<open>A \<^verbatim>\<open>commute\<close> node.\<close>

lemma commute_step:
  assumes c: "contents_of (q_graph q) n = Some c" "ss_type c = COMMUTE" and q: "seq_slots tid q"
    and t: "ss_tasks c = [t]" "run t s = (Inr x, s2)"
    and d: "size_cast x < length (children_of (q_graph q) n)" "children_of (q_graph q) n ! size_cast x = d"
      "contents_of (q_graph q) d \<noteq> None"
    and nxt: "round_from run q tid d s2 s'"
  shows "\<exists>k m' k'. steps run tid k (place tid n 0 False q, s) = Some (place tid m' k' True q, s')"
proof -
  from nxt obtain m where m: "target (q_graph q) d = Some m" "contents_of (q_graph q) m \<noteq> None"
    by (auto simp: round_from_def)
  have move: "step_move tid x (place tid n 0 False q) = Some (Inr (), place tid m 0 (node_tasks (q_graph q) m = []) q)"
  proof (cases "node_tasks (q_graph q) d = []")
    case True
    then have "skip_empty (q_graph q) d = Some m" using m(1) by (simp add: target_def)
    with settle_place [of tid q d m 0 0] q m(2)
    have "settle tid (place tid d 0 False q) d 0 = Some (Inr (), place tid m 0 (node_tasks (q_graph q) m = []) q)" by simp
    then show ?thesis using c q d True
      by (auto simp: step_move_def Let_def place_upd n_tasks_of_def node_tasks_def split: option.splits)
  next
    case False
    then have "m = d" using m(1) by (simp add: target_def)
    then show ?thesis using c q d False
      by (auto simp: step_move_def Let_def place_upd n_tasks_of_def node_tasks_def split: option.splits)
  qed
  have "exec_step run tid (place tid n 0 False q, s) =
      Some (Inr (Some t), (place tid m 0 (node_tasks (q_graph q) m = []) q, s2))"
    using c t q move by (simp add: exec_step_def) (simp add: seq_slots_def)
  then show ?thesis by (rule arrive [OF nxt m(1)])
qed

lemma node_walk_chain:
  "contents_of G n = Some c \<Longrightarrow> ss_type c \<noteq> COMMUTE \<Longrightarrow> node_walk run G n s = (Inr next', s') \<longleftrightarrow>
     foreach (run_one run) (ss_tasks c) s = (Inr (), s') \<and> next' = children_of G n"
  by (cases "foreach (run_one run) (ss_tasks c) s" rule: is_ok.cases) (auto simp: node_walk_def)

text \<open>One node of a walk: \<open>follow\<close> is what is known of the rest of the walk.\<close>

lemma walk_node:
  assumes w: "walkable run (q_graph q)" and q: "seq_slots tid q"
    and nw: "node_walk run (q_graph q) n s = (Inr ns, s2)"
    and nil: "ns = [] \<Longrightarrow> s' = s2"
    and one: "\<And>d. ns = [d] \<Longrightarrow> round_from run q tid d s2 s' \<and> contents_of (q_graph q) d \<noteq> None"
  shows "round_from run q tid n s s' \<and> contents_of (q_graph q) n \<noteq> None"
proof -
  let ?G = "q_graph q"
  from nw obtain c where c: "contents_of ?G n = Some c" by (auto simp: node_walk_def split: option.splits)
  have "round_from run q tid n s s'"
  proof (cases "ss_type c = COMMUTE")
    case True
    with w c obtain t where t: "ss_tasks c = [t]"
      and p: "\<And>s x s'. run t s = (Inr x, s') \<Longrightarrow> size_cast x < length (children_of ?G n)"
      unfolding walkable_def by meson
    with nw c True obtain x where x: "run t s = (Inr x, s2)" "ns = [children_of ?G n ! size_cast x]"
      using p by (cases "run t s" rule: is_ok.cases) (auto simp: node_walk_def)
    have "\<exists>k m' k'. steps run tid k (place tid n 0 False q, s) = Some (place tid m' k' True q, s')"
      by (rule commute_step [where run = run and t = t and d = "children_of ?G n ! size_cast x", OF c True q t x(1) p [OF x(1)]])
        (use one [OF x(2)] in auto)
    with c t show ?thesis by (simp add: round_from_def target_def node_tasks_def)
  next
    case False
    with w c have ch: "length (children_of ?G n) \<le> 1" unfolding walkable_def by meson
    from nw c False have run: "foreach (run_one run) (ss_tasks c) s = (Inr (), s2)" "ns = children_of ?G n"
      by (auto simp: node_walk_chain)
    show ?thesis
    proof (cases "ss_tasks c" rule: rev_cases)
      case Nil
      with run have "s2 = s" by simp
      show ?thesis
      proof (cases "children_of ?G n")
        case cs: Nil
        then have "skip_empty ?G n = Some n" by (subst skip_empty.simps) simp
        with nil run c Nil cs \<open>s2 = s\<close> show ?thesis by (simp add: round_from_def target_def node_tasks_def)
      next
        case (Cons d ds)
        with ch have d: "children_of ?G n = [d]" by simp
        with one run(2) \<open>s2 = s\<close> have "round_from run q tid d s s'" by simp
        moreover have "target ?G n = target ?G d"
          using c Nil d by (simp add: target_def [of _ n] node_tasks_def) (subst skip_empty_target, simp)
        ultimately show ?thesis by (simp add: round_from_def)
      qed
    next
      case (snoc ts t)
      from chain_steps [OF c False q, of "[]" ts t run s s2] snoc run(1) obtain s1 x where
        1: "steps run tid (length ts) (place tid n 0 False q, s) = Some (place tid n (length ts) False q, s1)"
          "run t s1 = (Inr x, s2)" by auto
      from chain_last [where run = run and t = t and s' = s', OF c False q snoc 1(2) refl ch] nil one run(2) obtain k m' k' where
        "steps run tid k (place tid n (length ts) False q, s1) = Some (place tid m' k' True q, s')" by blast
      with steps_add [OF 1(1)] have "steps run tid (length ts + k) (place tid n 0 False q, s) = Some (place tid m' k' True q, s')"
        by simp
      with c snoc show ?thesis unfolding round_from_def target_def node_tasks_def by auto
    qed
  qed
  with c show ?thesis by simp
qed

lemma walk_one:
  fixes run :: "tid \<Rightarrow> 's \<Rightarrow> (exn + int) \<times> 's"
  assumes "walkable run (q_graph q)" and "seq_slots tid q" and "walk run (q_graph q) [n] s = Some (Inr (), s')"
  shows "round_from run q tid n s s'"
proof -
  let ?Q = "\<lambda>(run' :: tid \<Rightarrow> 's \<Rightarrow> (exn + int) \<times> 's) G stack (s :: 's) (x :: ('s, unit) outcome).
    run' = run \<and> G = q_graph q \<longrightarrow> (stack = [] \<longrightarrow> x = (Inr (), s)) \<and> (\<forall>n s'. stack = [n] \<and> x = (Inr (), s') \<longrightarrow>
      round_from run q tid n s s' \<and> contents_of (q_graph q) n \<noteq> None)"
  have "?Q run (q_graph q) [n] s (Inr (), s')"
  proof (rule walk.raw_induct [where P = ?Q, OF _ assms(3)])
    fix walk' :: "(tid \<Rightarrow> 's \<Rightarrow> (exn + int) \<times> 's) \<Rightarrow> subseq graph \<Rightarrow> nat list \<Rightarrow> 's \<Rightarrow> ('s, unit) outcome option"
    fix run' :: "tid \<Rightarrow> 's \<Rightarrow> (exn + int) \<times> 's" and G stack and s :: 's and x :: "('s, unit) outcome"
    assume IH: "\<And>run' G stack s x. walk' run' G stack s = Some x \<Longrightarrow> ?Q run' G stack s x"
      and body: "(case stack of [] \<Rightarrow> Some (Inr (), s)
        | n # rest \<Rightarrow> (case node_walk run' G n s of (r, s') \<Rightarrow>
         (case r of Inl e \<Rightarrow> Some (Inl e, s') | Inr next \<Rightarrow> walk' run' G (next @ rest) s'))) = Some x"
    show "?Q run' G stack s x"
    proof (rule impI)
      assume eq: "run' = run \<and> G = q_graph q"
      have "round_from run q tid n s s' \<and> contents_of (q_graph q) n \<noteq> None"
        if st: "stack = [n]" "x = (Inr (), s')" for n s'
      proof -
        from eq st body obtain ns s2 where nw: "node_walk run (q_graph q) n s = (Inr ns, s2)"
          and rest: "walk' run (q_graph q) ns s2 = Some (Inr (), s')"
          by (auto split: prod.splits sum.splits)
        show ?thesis by (rule walk_node [OF assms(1,2) nw]) (use IH [OF rest] in auto)
      qed
      moreover have "x = (Inr (), s)" if "stack = []" using body that by simp
      ultimately show "(stack = [] \<longrightarrow> x = (Inr (), s)) \<and> (\<forall>n s'. stack = [n] \<and> x = (Inr (), s') \<longrightarrow>
        round_from run q tid n s s' \<and> contents_of (q_graph q) n \<noteq> None)" by blast
    qed
  qed
  then show ?thesis by simp
qed

text \<open>
  C20: Running a sequence step by step runs the round of \<^verbatim>\<open>exec_seq\<close>. When \<^verbatim>\<open>exec_seq\<close> returns normally on
  the thread, some number of calls of \<^verbatim>\<open>exec_step\<close>, each running one task, take the program to the same
  state; the call after them runs no task and puts the sequence back where the round began.
\<close>

theorem stepping_runs_the_round:
  assumes "walkable run (q_graph q)" and "seq_slots tid q"
    and "q_cur_ss q ! tid = q_sequences q ! tid" and "q_cur_task q ! tid = 0" and "\<not> q_next_over q ! tid"
    and "node_tasks (q_graph q) (q_sequences q ! tid) \<noteq> []"
    and "exec_seq run q tid s = Some (Inr (), s')"
  shows "\<exists>k q'. steps run tid k (q, s) = Some (q', s') \<and> exec_step run tid (q', s') = Some (Inr None, (q, s'))"
proof -
  let ?n = "q_sequences q ! tid"
  have q: "place tid ?n 0 False q = q"
    using assms(2-5) list_update_id [of "q_cur_ss q" tid] list_update_id [of "q_cur_task q" tid]
      list_update_id [of "q_next_over q" tid] by (simp add: place_def)
  have "walk run (q_graph q) [?n] s = Some (Inr (), s')"
    using assms(2,7) by (simp add: exec_seq_def seq_slots_def)
  from walk_one [OF assms(1,2) this] assms(6) have "\<exists>k m' k'. steps run tid k (q, s) = Some (place tid m' k' True q, s')"
    by (simp add: round_from_def target_def q)
  then obtain k m' k' where "steps run tid k (q, s) = Some (place tid m' k' True q, s')" by blast
  moreover have "exec_step run tid (place tid m' k' True q, s') = Some (Inr None, (q, s'))"
    using step_ends_round [OF assms(2) refl] q by simp
  ultimately show ?thesis by blast
qed

section \<open>With and without the statuses\<close>

text \<open>The numbers of the tasks of every node fit the vector of the statuses.\<close>

definition numbered :: "nat \<Rightarrow> subseq graph \<Rightarrow> bool" where
  "numbered n G \<longleftrightarrow> (\<forall>x c. contents_of G x = Some c \<longrightarrow> length (ss_tasks_id c) = length (ss_tasks c) \<and>
     (\<forall>i \<in> set (ss_tasks_id c). i < n))"

lemma run_list_statuses:
  assumes "length ids = length ts" and "\<forall>i \<in> set ids. i < length st"
  shows "\<exists>st'. length st' = length st \<and>
    run_list run (zip ts ids) (st, s) = (fst (foreach (run_one run) ts s), (st', snd (foreach (run_one run) ts s)))"
  using assms
proof (induction ts ids arbitrary: st s rule: list_induct2')
  case (4 t ts i ids)
  then show ?case
    using "4.IH" [of "st[i := Some x]" for x] by (cases "run t s" rule: is_ok.cases) (auto simp: run_one_def)
qed auto

lemma seq_step_node_walk:
  assumes "numbered (length st) G"
  shows "\<exists>st'. length st' = length st \<and> seq_step run G n (st, s) = (fst (node_walk run G n s), (st', snd (node_walk run G n s)))"
proof (cases "contents_of G n")
  case (Some c)
  with assms have c: "length (ss_tasks_id c) = length (ss_tasks c)" "\<forall>i \<in> set (ss_tasks_id c). i < length st"
    by (auto simp: numbered_def)
  show ?thesis
  proof (cases "ss_type c = COMMUTE")
    case True
    with Some c show ?thesis
      by (cases "ss_tasks c"; cases "ss_tasks_id c"; cases "run (hd (ss_tasks c)) s" rule: is_ok.cases)
        (auto simp: seq_step_def node_walk_def)
  next
    case False
    from run_list_statuses [OF c, of run s] obtain st' where "length st' = length st"
      "run_list run (zip (ss_tasks c) (ss_tasks_id c)) (st, s) =
        (fst (foreach (run_one run) (ss_tasks c) s), (st', snd (foreach (run_one run) (ss_tasks c) s)))" by blast
    with Some False c show ?thesis
      by (cases "foreach (run_one run) (ss_tasks c) s" rule: is_ok.cases) (auto simp: seq_step_def node_walk_def)
  qed
qed (auto simp: seq_step_def node_walk_def)

lemma exec_nodes_to_walk:
  fixes run :: "tid \<Rightarrow> 's \<Rightarrow> (exn + int) \<times> 's"
  assumes "exec_nodes run G stack v = Some x" and "numbered (length (fst v)) G"
  shows "walk run G stack (snd v) = Some (fst x, snd (snd x))"
proof -
  let ?Q = "\<lambda>(run :: tid \<Rightarrow> 's \<Rightarrow> (exn + int) \<times> 's) G stack v (x :: (statuses \<times> 's, unit) outcome).
    numbered (length (fst v)) G \<longrightarrow> walk run G stack (snd v) = Some (fst x, snd (snd x))"
  have "?Q run G stack v x"
  proof (rule exec_nodes.raw_induct [where P = ?Q, OF _ assms(1)])
    fix walk' :: "(tid \<Rightarrow> 's \<Rightarrow> (exn + int) \<times> 's) \<Rightarrow> subseq graph \<Rightarrow> nat list \<Rightarrow> statuses \<times> 's \<Rightarrow>
      (statuses \<times> 's, unit) outcome option"
    fix run :: "tid \<Rightarrow> 's \<Rightarrow> (exn + int) \<times> 's" and G stack and v :: "statuses \<times> 's" and x :: "(statuses \<times> 's, unit) outcome"
    assume IH: "\<And>run G stack v x. walk' run G stack v = Some x \<Longrightarrow> ?Q run G stack v x"
      and body: "(case stack of [] \<Rightarrow> Some (Inr (), v)
        | n # rest \<Rightarrow> (case seq_step run G n v of (r, v') \<Rightarrow>
         (case r of Inl e \<Rightarrow> Some (Inl e, v') | Inr next \<Rightarrow> walk' run G (next @ rest) v'))) = Some x"
    show "?Q run G stack v x"
    proof (rule impI)
      assume num: "numbered (length (fst v)) G"
      show "walk run G stack (snd v) = Some (fst x, snd (snd x))"
      proof (cases stack)
        case Nil
        with body show ?thesis by (subst walk.simps) auto
      next
        case (Cons n rest)
        obtain st s where v: "v = (st, s)" by fastforce
        with num obtain st' where st': "length st' = length st"
          "seq_step run G n (st, s) = (fst (node_walk run G n s), (st', snd (node_walk run G n s)))"
          using seq_step_node_walk [of st G run n s] by auto
        show ?thesis
        proof (cases "node_walk run G n s" rule: is_ok.cases)
          case (1 e s')
          with body Cons v st' show ?thesis by (subst walk.simps) auto
        next
          case (2 nxt s')
          with body Cons v st' have "walk' run G (nxt @ rest) (st', s') = Some x" by simp
          from IH [OF this] num v st'(1) have "walk run G (nxt @ rest) s' = Some (fst x, snd (snd x))" by simp
          with Cons v 2 show ?thesis by (subst walk.simps) simp
        qed
      qed
    qed
  qed
  with assms(2) show ?thesis by simp
qed

lemma walk_to_exec_nodes:
  fixes run :: "tid \<Rightarrow> 's \<Rightarrow> (exn + int) \<times> 's"
  assumes "walk run G stack s = Some x" and "numbered (length st) G"
  shows "exec_nodes run G stack (st, s) \<noteq> None"
proof -
  let ?Q = "\<lambda>(run :: tid \<Rightarrow> 's \<Rightarrow> (exn + int) \<times> 's) G stack (s :: 's) (x :: ('s, unit) outcome).
    \<forall>st. numbered (length st) G \<longrightarrow> exec_nodes run G stack (st, s) \<noteq> None"
  have "?Q run G stack s x"
  proof (rule walk.raw_induct [where P = ?Q, OF _ assms(1)])
    fix walk' :: "(tid \<Rightarrow> 's \<Rightarrow> (exn + int) \<times> 's) \<Rightarrow> subseq graph \<Rightarrow> nat list \<Rightarrow> 's \<Rightarrow> ('s, unit) outcome option"
    fix run :: "tid \<Rightarrow> 's \<Rightarrow> (exn + int) \<times> 's" and G stack and s :: 's and x :: "('s, unit) outcome"
    assume IH: "\<And>run G stack s x. walk' run G stack s = Some x \<Longrightarrow> ?Q run G stack s x"
      and body: "(case stack of [] \<Rightarrow> Some (Inr (), s)
        | n # rest \<Rightarrow> (case node_walk run G n s of (r, s') \<Rightarrow>
         (case r of Inl e \<Rightarrow> Some (Inl e, s') | Inr next \<Rightarrow> walk' run G (next @ rest) s'))) = Some x"
    show "?Q run G stack s x"
    proof (intro allI impI)
      fix st :: statuses
      assume num: "numbered (length st) G"
      show "exec_nodes run G stack (st, s) \<noteq> None"
      proof (cases stack)
        case Nil
        then show ?thesis by (subst exec_nodes.simps) simp
      next
        case (Cons n rest)
        from num obtain st' where st': "length st' = length st"
          "seq_step run G n (st, s) = (fst (node_walk run G n s), (st', snd (node_walk run G n s)))"
          using seq_step_node_walk [of st G run n s] by auto
        show ?thesis
        proof (cases "node_walk run G n s" rule: is_ok.cases)
          case (1 e s')
          with Cons st' show ?thesis by (subst exec_nodes.simps) simp
        next
          case (2 nxt s')
          with body Cons have "walk' run G (nxt @ rest) s' = Some x" by simp
          from IH [OF this] num st'(1) have "exec_nodes run G (nxt @ rest) (st', s') \<noteq> None" by simp
          with Cons 2 st' show ?thesis by (subst exec_nodes.simps) simp
        qed
      qed
    qed
  qed
  with assms(2) show ?thesis by simp
qed

text \<open>
  C36: The pass of the loop of a thread and \<^verbatim>\<open>exec_seq\<close> are the same walk: when the numbers of the tasks fit
  the vector of the statuses, both return or neither does, with the same exception or none, in the same
  state. The recorded statuses are an addition only.
\<close>

theorem pass_is_exec_seq:
  assumes "numbered (q_n_tasks q) (q_graph q)" and "tid < length (q_sequences q)"
  shows "map_option (\<lambda>r. (fst r, snd (snd r))) (one_pass run E q tid s) = exec_seq run q tid (le_reset E s)"
proof -
  let ?n = "q_sequences q ! tid" and ?s = "le_reset E s" and ?st = "replicate (q_n_tasks q) None"
  have num: "numbered (length ?st) (q_graph q)" using assms(1) by simp
  show ?thesis
  proof (cases "one_pass run E q tid s")
    case None
    then have "exec_nodes run (q_graph q) [?n] (?st, ?s) = None" by (simp add: one_pass_def)
    then have "walk run (q_graph q) [?n] ?s = None"
      using walk_to_exec_nodes [OF _ num, of run "[?n]" ?s] by (cases "walk run (q_graph q) [?n] ?s") auto
    with None assms(2) show ?thesis by (simp add: exec_seq_def)
  next
    case (Some x)
    then have "walk run (q_graph q) [?n] ?s = Some (fst x, snd (snd x))"
      using exec_nodes_to_walk [of run "q_graph q" "[?n]" "(?st, ?s)" x] num by (simp add: one_pass_def)
    with Some assms(2) show ?thesis by (simp add: exec_seq_def)
  qed
qed

section \<open>Passes over the graph\<close>

lemma map_exn_all: "(\<And>x. x \<in> set xs \<Longrightarrow> f x = Inr (g x)) \<Longrightarrow> map_exn f xs = Inr (map g xs)"
  by (induction xs) auto

text \<open>
  On a graph whose nodes all have contents, \<^verbatim>\<open>get_tasks_per_threads\<close> returns one list per thread, with
  the tasks of every node that can be reached from the first node of the thread: each node once, also when
  several paths lead to it or the graph has a loop.
\<close>

theorem threads_list_every_task:
  assumes "graph_ok (q_graph q)" and "\<forall>k < q_n_threads q. q_sequences q ! k < g_next (q_graph q)"
    and "tid < q_n_threads q"
  shows "\<exists>tss vis. get_tasks_per_threads q = Inr tss \<and> length tss = q_n_threads q \<and> distinct vis \<and>
    set vis = reach (children_of (q_graph q)) (q_sequences q ! tid) \<and>
    tss ! tid = concat (map (node_tasks (q_graph q)) vis)"
proof -
  let ?P = "\<lambda>k vis. distinct vis \<and> set vis = reach (children_of (q_graph q)) (q_sequences q ! k) \<and>
    tasks_from (q_graph q) (q_sequences q ! k) = Inr (concat (map (node_tasks (q_graph q)) vis))"
  have "\<exists>vis. k < q_n_threads q \<longrightarrow> ?P k vis" for k
    using tasks_from_ok [OF assms(1)] assms(2) by blast
  then obtain V where V: "k < q_n_threads q \<Longrightarrow> ?P k (V k)" for k by metis
  then have "get_tasks_per_threads q = Inr (map (\<lambda>k. concat (map (node_tasks (q_graph q)) (V k))) [0..<q_n_threads q])"
    unfolding get_tasks_per_threads_def by (intro map_exn_all) simp
  with V [OF assms(3)] assms(3) show ?thesis
    by (intro exI [of _ "map (\<lambda>k. concat (map (node_tasks (q_graph q)) (V k))) [0..<q_n_threads q]"] exI [of _ "V tid"]) simp
qed

section \<open>Exceptions\<close>

definition same_messages :: "seq \<Rightarrow> bool" where
  "same_messages q \<longleftrightarrow> (q_messages q = [] \<longleftrightarrow> q_display q = [])"

lemma thread_end_ok:
  assumes "same_messages q"
  shows "\<exists>q'. thread_end what what_full r q = (Inr (), q') \<and> same_messages q' \<and>
    (q_display q \<noteq> [] \<longrightarrow> q_display q' \<noteq> []) \<and> (\<forall>e. r = Some e \<and> e \<noteq> Waiting_canceled \<longrightarrow> q_display q' \<noteq> [])"
  using assms by (auto simp: thread_end_def record_message_def same_messages_def Let_def split: option.split)

lemma thread_ends_ok:
  "same_messages q \<Longrightarrow> \<exists>q'. foreach (thread_end what what_full) rs q = (Inr (), q') \<and>
    (q_display q \<noteq> [] \<longrightarrow> q_display q' \<noteq> []) \<and> ((\<exists>e. Some e \<in> set rs \<and> e \<noteq> Waiting_canceled) \<longrightarrow> q_display q' \<noteq> [])"
proof (induction rs arbitrary: q)
  case (Cons r rs)
  from thread_end_ok [OF Cons.prems, of what what_full r] obtain q1 where q1: "thread_end what what_full r q = (Inr (), q1)"
    "same_messages q1" "q_display q \<noteq> [] \<longrightarrow> q_display q1 \<noteq> []"
    "\<forall>e. r = Some e \<and> e \<noteq> Waiting_canceled \<longrightarrow> q_display q1 \<noteq> []" by blast
  from Cons.IH [OF q1(2)] obtain q' where "foreach (thread_end what what_full) rs q1 = (Inr (), q')"
    "q_display q1 \<noteq> [] \<longrightarrow> q_display q' \<noteq> []"
    "(\<exists>e. Some e \<in> set rs \<and> e \<noteq> Waiting_canceled) \<longrightarrow> q_display q' \<noteq> []" by blast
  with q1 show ?case by auto
qed simp

lemma no_thread_ends: "foreach (thread_end what what_full) (replicate n None) q = (Inr (), q)"
  by (induction n) (auto simp: thread_end_def)

text \<open>
  An exception is reported for ever. When a thread of an execution ends with an exception other than
  \<^verbatim>\<open>waiting_canceled\<close>, \<^verbatim>\<open>exec\<close> throws; and as nothing clears the list of the messages, every later \<^verbatim>\<open>exec\<close>
  of the sequence throws the same message again, even if none of its threads throws.
\<close>

theorem reported_exception_never_clears:
  assumes "q_messages q = []" and "q_display q = []" and "Some e \<in> set rs" and "e \<noteq> Waiting_canceled"
  shows "\<exists>q1. exec_end what what_full rs q = (Inl Other_exn, q1) \<and> q_display q1 \<noteq> [] \<and>
    exec_end what what_full (replicate n None) q1 = (Inl Other_exn, q1)"
proof -
  have "same_messages q" using assms by (simp add: same_messages_def)
  from thread_ends_ok [OF this, of what what_full rs] assms obtain q' where
    q': "foreach (thread_end what what_full) rs q = (Inr (), q')" "q_display q' \<noteq> []" by auto
  then show ?thesis by (intro exI [of _ "q'\<lparr>q_force_exit := False\<rparr>"]) (simp add: exec_end_def no_thread_ends)
qed

section \<open>Concrete instances\<close>

text \<open>A task, a \<^verbatim>\<open>commute\<close> with a path without task and a path with one, and a task after the \<^verbatim>\<open>select\<close>.\<close>

definition demo_node :: "subseq_t \<Rightarrow> tid list \<Rightarrow> nat list \<Rightarrow> nat list \<Rightarrow> nat list \<Rightarrow> subseq dnode" where
  "demo_node ty ts ids ps cs = \<lparr>dn_parents = ps, dn_children = cs,
     dn_contents = Some (new_subseq\<lparr>ss_type := ty, ss_tasks := ts, ss_tasks_id := ids\<rparr>), dn_depth = 0\<rparr>"

definition demo_graph :: "subseq graph" where
  "demo_graph = \<lparr>g_node = (\<lambda>_. \<lparr>dn_parents = [], dn_children = [], dn_contents = None, dn_depth = 0\<rparr>)
     (0 := demo_node STD [10] [0] [] [1], 1 := demo_node COMMUTE [11] [1] [0] [2, 3],
      2 := demo_node STD [] [] [1] [4], 3 := demo_node STD [12] [2] [1] [4],
      4 := demo_node SELECT [13, 14] [3, 4] [2, 3] []), g_next = 5\<rparr>"

definition demo_seq :: seq where
  "demo_seq = \<lparr>q_n_threads = 1, q_graph = demo_graph, q_sequences = [0], q_firsts_id = [0], q_lasts_id = [4],
     q_firsts = [[10]], q_lasts = [[14]], q_all_modules = [[]], q_messages = [], q_display = [],
     q_force_exit = False, q_n_tasks = 5, q_inplace = True, q_pinning = False, q_puids = [], q_pin_objects = [],
     q_no_copy = True, q_exclusions = [], q_auto_stop = True, q_in_pipeline = False, q_next_over = [False],
     q_cur_task = [0], q_cur_ss = [0], q_memory = True\<rparr>"

definition demo_run :: "tid \<Rightarrow> tid list \<Rightarrow> (exn + int) \<times> tid list" where
  "demo_run t s = (Inr (if t = 11 then int (length s mod 2) else 0), s @ [t])"

lemma demo_contents:
  "contents_of demo_graph n = Some c \<Longrightarrow> n = 0 \<or> n = 1 \<or> n = 2 \<or> n = 3 \<or> n = 4"
  by (simp add: demo_graph_def split: if_splits)

lemmas demo_defs = demo_graph_def demo_node_def new_subseq_def demo_seq_def demo_run_def

lemma demo_walkable: "walkable demo_run demo_graph"
  unfolding walkable_def
proof (intro allI impI)
  fix n c
  assume c: "contents_of demo_graph n = Some c"
  from demo_contents [OF c] c
  show "if ss_type c = COMMUTE
      then \<exists>t. ss_tasks c = [t] \<and> (\<forall>s x s'. demo_run t s = (Inr x, s') \<longrightarrow> size_cast x < length (children_of demo_graph n))
      else length (children_of demo_graph n) \<le> 1"
    by (elim disjE) (auto simp: demo_defs size_cast_def)
qed

lemma demo_numbered: "numbered 5 demo_graph"
  unfolding numbered_def
proof (intro allI impI)
  fix n c
  assume c: "contents_of demo_graph n = Some c"
  from demo_contents [OF c] c show "length (ss_tasks_id c) = length (ss_tasks c) \<and> (\<forall>i \<in> set (ss_tasks_id c). i < 5)"
    by (elim disjE) (auto simp: demo_defs)
qed

lemma demo_exec_seq: "exec_seq demo_run demo_seq 0 [9] = Some (Inr (), [9, 10, 11, 13, 14])"
  by (simp add: exec_seq_def demo_defs)
    (simp add: walk.simps node_walk_def run_one_def size_cast_def demo_run_def)

lemma stepping_runs_the_round_witness:
  "\<exists>k q'. steps demo_run 0 k (demo_seq, [9]) = Some (q', [9, 10, 11, 13, 14]) \<and>
     exec_step demo_run 0 (q', [9, 10, 11, 13, 14]) = Some (Inr None, (demo_seq, [9, 10, 11, 13, 14]))"
  by (rule stepping_runs_the_round)
    (use demo_walkable demo_exec_seq in \<open>simp_all add: seq_slots_def demo_seq_def node_tasks_def\<close>,
     simp add: demo_defs)

lemma pass_is_exec_seq_witness:
  "map_option (\<lambda>r. (fst r, snd (snd r))) (one_pass demo_run \<lparr>le_reset = (\<lambda>s. s), le_stop = (\<lambda>_ s. (True, s)),
     le_force = (\<lambda>_. False), le_sigint = (\<lambda>_. False), le_cancel = (\<lambda>s. s)\<rparr> demo_seq 0 [9]) =
   Some (Inr (), [9, 10, 11, 13, 14])"
  by (subst pass_is_exec_seq) (use demo_numbered demo_exec_seq in \<open>simp_all add: demo_seq_def\<close>)

lemma threads_list_every_task_witness:
  "\<exists>tss vis. get_tasks_per_threads demo_seq = Inr tss \<and> length tss = 1 \<and> distinct vis \<and>
    set vis = reach (children_of demo_graph) 0 \<and> tss ! 0 = concat (map (node_tasks demo_graph) vis)"
proof -
  have 1: "graph_ok (q_graph demo_seq)"
    by (simp add: graph_ok_def demo_defs eval_nat_numeral less_Suc_eq)
  have 2: "\<forall>k < q_n_threads demo_seq. q_sequences demo_seq ! k < g_next (q_graph demo_seq)"
    by (simp add: demo_defs)
  show ?thesis using threads_list_every_task [OF 1 2, of 0] by (simp add: demo_seq_def)
qed

lemma reported_exception_never_clears_witness:
  "\<exists>q1. exec_end (\<lambda>_. ''f'') (\<lambda>_. ''f: error'') [None, Some Runtime_error] demo_seq = (Inl Other_exn, q1) \<and>
    q_display q1 \<noteq> [] \<and> exec_end (\<lambda>_. ''f'') (\<lambda>_. ''f: error'') (replicate 3 None) q1 = (Inl Other_exn, q1)"
  by (rule reported_exception_never_clears [where e = Runtime_error]) (simp_all add: demo_seq_def)

end
