(* ===== verification/Sequence_Frames.thy ===== *)
theory Sequence_Frames
  imports Sequence_Exec
begin

text \<open>
  \<^verbatim>\<open>Sequence::set_n_frames\<close>: the sockets bound inside of the sequence are unbound, the modules are resized,
  and the sockets are bound again. The first pass runs on a store; it remembers the pairs to bind again.
\<close>

section \<open>Operations\<close>

type_synonym unbound = "world \<times> (sid \<times> sid) list \<times> (tid \<times> sid) list"

definition seq_get_n_frames :: "seq \<Rightarrow> world \<Rightarrow> exn + nat" where
  "seq_get_n_frames q w = (case q_all_modules q of
     (m # _) # _ \<Rightarrow> (if \<forall>mm \<in> set (q_all_modules q). \<forall>m' \<in> set mm. m_n_frames (mods w m') = m_n_frames (mods w m)
       then Inr (m_n_frames (mods w m)) else Inl Runtime_error)
   | _ \<Rightarrow> Inl UB)"

text \<open>
  One bound input \<open>i\<close> of the output \<open>out\<close>, read from a copy of the list of the output: a fake input that an
  earlier \<^verbatim>\<open>unbind\<close> of its task has freed is a dangling pointer.
\<close>

definition unbind_pair :: "tid list \<Rightarrow> sid \<Rightarrow> sid \<Rightarrow> unbound \<Rightarrow> (unbound, unit) outcome" where
  "unbind_pair own out i v = (case v of (w, us, ut) \<Rightarrow>
     if i \<notin> set (s_bound_sockets (socks w out)) then (Inl UB, v)
     else let t = s_task (socks w i) in
       if t \<in> set own
       then (case unbind_tsk t out w of
           (Inr _, w1) \<Rightarrow> (Inr (), (w1, us, ut @ [(t, out)]))
         | (Inl e, w1) \<Rightarrow> if e = UB then (Inl UB, (w1, us, ut)) else
             (case unbind_sck i out w1 of (Inl e, w2) \<Rightarrow> (Inl e, (w2, us, ut))
              | (Inr _, w2) \<Rightarrow> (Inr (), (w2, us @ [(i, out)], ut))))
       else (Inr (), v))"

definition unbind_out :: "tid list \<Rightarrow> sid \<Rightarrow> unbound \<Rightarrow> (unbound, unit) outcome" where
  "unbind_out own out v =
     (if s_type (socks (fst v) out) = SOUT \<or> s_type (socks (fst v) out) = SFWD
      then foreach (unbind_pair own out) (s_bound_sockets (socks (fst v) out)) v else (Inr (), v))"

definition unbind_outs :: "tid list \<Rightarrow> tid \<Rightarrow> unbound \<Rightarrow> (unbound, unit) outcome" where
  "unbind_outs own t v = foreach (unbind_out own) (t_sockets (tsks (fst v) t)) v"

definition unbind_node :: "tid list \<Rightarrow> subseq graph \<Rightarrow> nat \<Rightarrow> unbound \<Rightarrow> (unbound, unit) outcome" where
  "unbind_node own G n v = (case contents_of G n of None \<Rightarrow> (Inl UB, v)
     | Some c \<Rightarrow> foreach (unbind_outs own) (ss_tasks c) v)"

definition unbind_thread :: "seq \<Rightarrow> tid list list \<Rightarrow> nat \<Rightarrow> unbound \<Rightarrow> (unbound, unit) outcome" where
  "unbind_thread q tss tid v =
     (case dfs (seq_fuel (q_graph q)) (unbind_node (tss ! tid) (q_graph q)) (children_of (q_graph q)) (q_sequences q ! tid) ([], v) of
        (r, (_, v')) \<Rightarrow> (r, v'))"

definition frames_unbind :: "seq \<Rightarrow> world \<Rightarrow> (unbound, unit) outcome" where
  "frames_unbind q w = (case get_tasks_per_threads q of Inl e \<Rightarrow> (Inl e, (w, [], []))
     | Inr tss \<Rightarrow> foreach (unbind_thread q tss) [0..<q_n_threads q] (w, [], []))"

definition frames_set :: "nat \<Rightarrow> seq \<Rightarrow> nat \<Rightarrow> world \<Rightarrow> (world, unit) outcome" where
  "frames_set F q n w = (if n = 0 then (Inl Invalid_argument, w)
     else foreach (\<lambda>md. set_n_frames F md n) (concat (q_all_modules q)) w)"

definition frames_rebind :: "(sid \<times> sid) list \<Rightarrow> (tid \<times> sid) list \<Rightarrow> world \<Rightarrow> (world, unit) outcome" where
  "frames_rebind us ut w = bindo (foreach (\<lambda>(i, out). assign_sck i out) us w)
     (\<lambda>_. foreach (\<lambda>(t, out). assign_tsk t out) ut)"

definition seq_set_n_frames :: "nat \<Rightarrow> seq \<Rightarrow> nat \<Rightarrow> world \<Rightarrow> (world, unit) outcome" where
  "seq_set_n_frames F q n w = (case seq_get_n_frames q w of Inl e \<Rightarrow> (Inl e, w)
     | Inr old \<Rightarrow> if old = n then (Inr (), w)
         else (case frames_unbind q w of (Inl e, (w1, _, _)) \<Rightarrow> (Inl e, w1)
           | (Inr _, (w1, us, ut)) \<Rightarrow> bindo (frames_set F q n w1) (\<lambda>_. frames_rebind us ut)))"

section \<open>What the first pass unbinds\<close>

text \<open>\<open>severed L\<close>: the links of \<open>L\<close> are gone, nothing else has changed.\<close>

definition severed :: "(sid \<times> sid) set \<Rightarrow> world \<Rightarrow> world \<Rightarrow> bool" where
  "severed L w w' \<longleftrightarrow> wf_links w' \<and> erase_links w' = erase_links w \<and>
     (\<forall>i. s_bound_socket (socks w' i) = (case s_bound_socket (socks w i) of None \<Rightarrow> None
        | Some out \<Rightarrow> if (i, out) \<in> L then None else Some out))"

lemma cut_refl: "wf_links w \<Longrightarrow> severed {} w w"
  by (simp add: severed_def split: option.split)

lemma cut_trans: "severed L w w1 \<Longrightarrow> severed M w1 w2 \<Longrightarrow> severed (L \<union> M) w w2"
  by (auto simp: severed_def split: option.splits)

lemma cut_cong:
  "severed L w w' \<Longrightarrow> (\<And>i out. s_bound_socket (socks w i) = Some out \<Longrightarrow> (i, out) \<in> L \<longleftrightarrow> (i, out) \<in> M) \<Longrightarrow> severed M w w'"
  unfolding severed_def by (auto split: option.splits)

lemma cut_unlink: "wf_links w \<Longrightarrow> s_bound_socket (socks w i) = Some out \<Longrightarrow> severed {(i, out)} w (unlink i out w)"
  by (auto simp: severed_def wf_links_unlink unlink_sel split: option.split)

lemma erase_links_sel:
  "s_task (socks (erase_links w) i) = s_task (socks w i)" "s_type (socks (erase_links w) i) = s_type (socks w i)"
  "tsks (erase_links w) = tsks w" "mods (erase_links w) = mods w"
  by (simp_all add: erase_links_def)

lemma erase_links_same:
  assumes "erase_links w' = erase_links w"
  shows "s_task (socks w' i) = s_task (socks w i)" "s_type (socks w' i) = s_type (socks w i)"
    "tsks w' = tsks w" "mods w' = mods w"
  using assms erase_links_sel by metis+

text \<open>
  The links from the outputs \<open>outs\<close> to the inputs of the tasks \<open>own\<close>, in the store \<open>w\<close>; \<open>cuts own w outs\<close> is
  a pass that removes them, when no task has a fake input.
\<close>

definition inner :: "tid list \<Rightarrow> world \<Rightarrow> sid set \<Rightarrow> (sid \<times> sid) set" where
  "inner own w outs = {(i, out). out \<in> outs \<and> s_type (socks w out) \<noteq> SIN \<and> s_task (socks w i) \<in> set own}"

definition no_fakes :: "world \<Rightarrow> bool" where
  "no_fakes w \<longleftrightarrow> (\<forall>t. t_fake_input_sockets (tsks w t) = [])"

definition variant_of :: "world \<Rightarrow> unbound \<Rightarrow> bool" where
  "variant_of w v \<longleftrightarrow> wf_links (fst v) \<and> erase_links (fst v) = erase_links w \<and> no_fakes w"

definition cuts :: "world \<Rightarrow> (unbound \<Rightarrow> (unbound, unit) outcome) \<Rightarrow> (sid \<times> sid) set \<Rightarrow> bool" where
  "cuts w f L \<longleftrightarrow> (\<forall>v. variant_of w v \<longrightarrow> (\<exists>v'. f v = (Inr (), v') \<and> severed L (fst v) (fst v')))"

lemma cutsI:
  "(\<And>v. variant_of w v \<Longrightarrow> \<exists>v'. f v = (Inr (), v') \<and> severed L (fst v) (fst v')) \<Longrightarrow> cuts w f L"
  by (simp only: cuts_def) blast

lemma cutsD: "cuts w f L \<Longrightarrow> variant_of w v \<Longrightarrow> \<exists>v'. f v = (Inr (), v') \<and> severed L (fst v) (fst v')"
  by (simp only: cuts_def)

lemma cuts_cong: "cuts w f L \<Longrightarrow> (\<And>v. variant_of w v \<Longrightarrow> g v = f v) \<Longrightarrow> cuts w g L"
  by (rule cutsI) (use cutsD in fastforce)

lemma cut_variant: "variant_of w v \<Longrightarrow> severed L (fst v) (fst v') \<Longrightarrow> variant_of w v'"
  by (simp add: variant_of_def severed_def)

lemma cuts_foreach:
  "(\<And>x. x \<in> set xs \<Longrightarrow> cuts w (f x) (L x)) \<Longrightarrow> cuts w (foreach f xs) (\<Union>x \<in> set xs. L x)"
proof (induction xs)
  case Nil
  show ?case by (rule cutsI) (auto simp: variant_of_def cut_refl)
next
  case (Cons x xs)
  show ?case
  proof (rule cutsI)
    fix v
    assume v: "variant_of w v"
    from cutsD [OF Cons.prems [of x] v] obtain v1 where v1: "f x v = (Inr (), v1)" "severed (L x) (fst v) (fst v1)"
      by auto
    from cutsD [OF Cons.IH cut_variant [OF v v1(2)]] Cons.prems obtain v2 where v2: "foreach f xs v1 = (Inr (), v2)"
      "severed (\<Union>x \<in> set xs. L x) (fst v1) (fst v2)" by (meson list.set_intros(2))
    from cut_trans [OF v1(2) v2(2)] v1(1) v2(1)
    show "\<exists>v'. foreach f (x # xs) v = (Inr (), v') \<and> severed (\<Union>x \<in> set (x # xs). L x) (fst v) (fst v')" by simp
  qed
qed

lemma unbind_pair_cut:
  assumes "variant_of w v" and "s_bound_socket (socks (fst v) i) = Some out"
  shows "\<exists>v'. unbind_pair own out i v = (Inr (), v') \<and>
    severed (if s_task (socks w i) \<in> set own then {(i, out)} else {}) (fst v) (fst v')"
proof -
  obtain w1 us ut where v: "v = (w1, us, ut)" by (cases v)
  have w1: "wf_links w1" "erase_links w1 = erase_links w" "no_fakes w" using assms(1) by (auto simp: variant_of_def v)
  note same = erase_links_same [OF w1(2)]
  have b: "i \<in> set (s_bound_sockets (socks w1 out))" "s_bound_socket (socks w1 i) = Some out"
    using assms(2) wf_linksD(1) [OF w1(1)] by (auto simp: v)
  obtain pos where "unbind_sck i out w1 = (Inr pos, unlink i out w1)" using unbind_linked [OF b(2,1)] by blast
  with b w1(3) cut_unlink [OF w1(1) b(2)] cut_refl [OF w1(1)] show ?thesis
    by (auto simp: v unbind_pair_def unbind_tsk_def same no_fakes_def)
qed

lemma unbind_pairs_cut:
  "variant_of w v \<Longrightarrow> distinct is' \<Longrightarrow> (\<And>i. i \<in> set is' \<Longrightarrow> s_bound_socket (socks (fst v) i) = Some out) \<Longrightarrow>
    \<exists>v'. foreach (unbind_pair own out) is' v = (Inr (), v') \<and>
      severed {(i, out) | i. i \<in> set is' \<and> s_task (socks w i) \<in> set own} (fst v) (fst v')"
proof (induction is' arbitrary: v)
  case Nil
  then show ?case by (auto simp: variant_of_def cut_refl)
next
  case (Cons i js)
  from unbind_pair_cut [OF Cons.prems(1), of i out own] Cons.prems(3) obtain v1 where
    v1: "unbind_pair own out i v = (Inr (), v1)"
      "severed (if s_task (socks w i) \<in> set own then {(i, out)} else {}) (fst v) (fst v1)" by auto
  have "s_bound_socket (socks (fst v1) j) = Some out" if "j \<in> set js" for j
    using v1(2) Cons.prems(2,3) that by (auto simp: severed_def)
  from Cons.IH [OF cut_variant [OF Cons.prems(1) v1(2)] _ this] Cons.prems(2) obtain v2 where
    v2: "foreach (unbind_pair own out) js v1 = (Inr (), v2)"
      "severed {(i, out) | i. i \<in> set js \<and> s_task (socks w i) \<in> set own} (fst v1) (fst v2)" by auto
  show ?case
    using v1(1) v2(1) cut_trans [OF v1(2) v2(2)] by (auto elim!: cut_cong split: if_splits)
qed

lemma unbind_out_cuts: "cuts w (unbind_out own out) (inner own w {out})"
proof (rule cutsI)
  fix v
  assume v: "variant_of w v"
  then have w1: "wf_links (fst v)" "erase_links (fst v) = erase_links w" by (auto simp: variant_of_def)
  note same = erase_links_same [OF w1(2)]
  show "\<exists>v'. unbind_out own out v = (Inr (), v') \<and> severed (inner own w {out}) (fst v) (fst v')"
  proof (cases "s_type (socks w out) = SIN")
    case True
    then have "inner own w {out} = {}" by (auto simp: inner_def)
    with True cut_refl [OF w1(1)] show ?thesis by (auto simp: unbind_out_def same)
  next
    case False
    then have t: "s_type (socks (fst v) out) = SOUT \<or> s_type (socks (fst v) out) = SFWD"
      by (simp add: same) (metis socket_t.exhaust)
    from unbind_pairs_cut [OF v, of "s_bound_sockets (socks (fst v) out)" out own] wf_linksD [OF w1(1)]
    obtain v' where v': "foreach (unbind_pair own out) (s_bound_sockets (socks (fst v) out)) v = (Inr (), v')"
      "severed {(i, out) | i. i \<in> set (s_bound_sockets (socks (fst v) out)) \<and> s_task (socks w i) \<in> set own} (fst v) (fst v')"
      by auto
    have "severed (inner own w {out}) (fst v) (fst v')"
      by (rule cut_cong [OF v'(2)]) (use False wf_linksD(1) [OF w1(1)] in \<open>auto simp: inner_def\<close>)
    with v'(1) t show ?thesis by (auto simp: unbind_out_def)
  qed
qed

lemma inner_Union: "(\<Union>x \<in> A. inner own w (S x)) = inner own w (\<Union>x \<in> A. S x)"
  by (auto simp: inner_def)

lemma unbind_outs_cuts: "cuts w (unbind_outs own t) (inner own w (set (t_sockets (tsks w t))))"
proof -
  have "cuts w (foreach (unbind_out own) (t_sockets (tsks w t))) (inner own w (\<Union>out \<in> set (t_sockets (tsks w t)). {out}))"
    unfolding inner_Union [symmetric] by (rule cuts_foreach) (rule unbind_out_cuts)
  then have "cuts w (foreach (unbind_out own) (t_sockets (tsks w t))) (inner own w (set (t_sockets (tsks w t))))" by simp
  then show ?thesis by (rule cuts_cong) (auto simp: unbind_outs_def variant_of_def dest: erase_links_same(3))
qed

definition outs_of :: "world \<Rightarrow> tid set \<Rightarrow> sid set" where
  "outs_of w ts = (\<Union>t \<in> ts. set (t_sockets (tsks w t)))"

lemma unbind_node_cuts:
  assumes "contents_of G n \<noteq> None"
  shows "cuts w (unbind_node own G n) (inner own w (outs_of w (set (node_tasks G n))))"
proof -
  from assms obtain c where c: "contents_of G n = Some c" by auto
  have "cuts w (foreach (unbind_outs own) (ss_tasks c)) (inner own w (\<Union>t \<in> set (ss_tasks c). set (t_sockets (tsks w t))))"
    unfolding inner_Union [symmetric] by (rule cuts_foreach) (rule unbind_outs_cuts)
  then have "cuts w (foreach (unbind_outs own) (ss_tasks c)) (inner own w (outs_of w (set (node_tasks G n))))"
    using c by (simp add: node_tasks_def outs_of_def)
  then show ?thesis by (rule cuts_cong) (simp add: unbind_node_def c)
qed

lemma unbind_thread_cuts:
  assumes G: "graph_ok (q_graph q)" and r: "q_sequences q ! tid < g_next (q_graph q)"
    and own: "set (tss ! tid) = (\<Union>n \<in> reach (children_of (q_graph q)) (q_sequences q ! tid). set (node_tasks (q_graph q) n))"
  shows "cuts w (unbind_thread q tss tid) (inner (tss ! tid) w (outs_of w (set (tss ! tid))))"
proof (rule cutsI)
  fix v
  assume v: "variant_of w v"
  let ?G = "q_graph q" and ?own = "tss ! tid"
  have node: "cuts w (unbind_node ?own ?G n) (inner ?own w (outs_of w (set (node_tasks ?G n))))" if "n < g_next ?G" for n
    by (rule unbind_node_cuts) (use G that in \<open>simp add: graph_ok_def\<close>)
  have "\<exists>vis s'. dfs (seq_fuel ?G) (unbind_node ?own ?G) (children_of ?G) (q_sequences q ! tid) ([], v) = (Inr (), (vis, s')) \<and>
      distinct vis \<and> set vis = reach (children_of ?G) (q_sequences q ! tid) \<and>
      foreach (unbind_node ?own ?G) vis v = (Inr (), s') \<and> variant_of w s'"
  proof (rule dfs_complete [where V = "{..<g_next ?G}"])
    fix x s
    assume "x \<in> {..<g_next ?G}" and s: "variant_of w s"
    with cutsD [OF node s] show "\<exists>s'. unbind_node ?own ?G x s = (Inr (), s') \<and> variant_of w s'"
      using cut_variant [OF s] by blast
  qed (use G r v in \<open>auto simp: graph_ok_def seq_fuel_def\<close>)
  then obtain vis s' where d: "dfs (seq_fuel ?G) (unbind_node ?own ?G) (children_of ?G) (q_sequences q ! tid) ([], v) = (Inr (), (vis, s'))"
    "set vis = reach (children_of ?G) (q_sequences q ! tid)" "foreach (unbind_node ?own ?G) vis v = (Inr (), s')" by blast
  have "cuts w (foreach (unbind_node ?own ?G) vis) (inner ?own w (\<Union>n \<in> set vis. outs_of w (set (node_tasks ?G n))))"
    unfolding inner_Union [symmetric]
    by (rule cuts_foreach) (use d(2) reach_in_graph [OF G r] in \<open>auto intro: node\<close>)
  from cutsD [OF this v] d(3) have "severed (inner ?own w (\<Union>n \<in> set vis. outs_of w (set (node_tasks ?G n)))) (fst v) (fst s')" by simp
  moreover have "(\<Union>n \<in> set vis. outs_of w (set (node_tasks ?G n))) = outs_of w (set ?own)"
    by (simp add: d(2) own outs_of_def)
  ultimately show "\<exists>v'. unbind_thread q tss tid v = (Inr (), v') \<and> severed (inner ?own w (outs_of w (set ?own))) (fst v) (fst v')"
    using d(1) by (simp add: unbind_thread_def)
qed

lemma map_exn_Inr: "map_exn f xs = Inr ys \<Longrightarrow> length ys = length xs \<and> (\<forall>k < length xs. f (xs ! k) = Inr (ys ! k))"
proof (induction xs arbitrary: ys)
  case (Cons x xs)
  then show ?case by (auto split: sum.splits simp: nth_Cons split: nat.splits)
qed simp

lemma frames_unbind_cuts:
  assumes "graph_ok (q_graph q)" and "\<forall>k < q_n_threads q. q_sequences q ! k < g_next (q_graph q)"
    and "get_tasks_per_threads q = Inr tss" and "wf_links w" and "no_fakes w"
  shows "\<exists>w' us ut. frames_unbind q w = (Inr (), (w', us, ut)) \<and>
    severed (\<Union>ts \<in> set tss. inner ts w (outs_of w (set ts))) w w'"
proof -
  let ?G = "q_graph q"
  from map_exn_Inr [OF assms(3) [unfolded get_tasks_per_threads_def]] have tss: "length tss = q_n_threads q"
    "tasks_from ?G (q_sequences q ! k) = Inr (tss ! k)" if "k < q_n_threads q" for k using that by auto
  have len: "length tss = q_n_threads q"
    using map_exn_Inr [OF assms(3) [unfolded get_tasks_per_threads_def]] by simp
  have one: "cuts w (unbind_thread q tss k) (inner (tss ! k) w (outs_of w (set (tss ! k))))" if k: "k < q_n_threads q" for k
  proof -
    obtain vis where vis: "set vis = reach (children_of ?G) (q_sequences q ! k)"
      "tasks_from ?G (q_sequences q ! k) = Inr (concat (map (node_tasks ?G) vis))"
      using tasks_from_ok [OF assms(1)] assms(2) k by blast
    then have "tss ! k = concat (map (node_tasks ?G) vis)" using tss(2) [OF k] by simp
    then have "set (tss ! k) = (\<Union>n \<in> set vis. set (node_tasks ?G n))" by simp
    with vis(1) assms(1,2) k show ?thesis by (intro unbind_thread_cuts) auto
  qed
  have "cuts w (foreach (unbind_thread q tss) [0..<q_n_threads q]) (\<Union>k \<in> set [0..<q_n_threads q]. inner (tss ! k) w (outs_of w (set (tss ! k))))"
    by (rule cuts_foreach) (simp add: one)
  moreover have "(\<Union>k \<in> set [0..<q_n_threads q]. inner (tss ! k) w (outs_of w (set (tss ! k)))) =
      (\<Union>ts \<in> set tss. inner ts w (outs_of w (set ts)))"
    using len by (auto simp: set_conv_nth)
  ultimately have "cuts w (foreach (unbind_thread q tss) [0..<q_n_threads q]) (\<Union>ts \<in> set tss. inner ts w (outs_of w (set ts)))" by simp
  from cutsD [OF this, of "(w, [], [])"] assms(4,5) obtain v' where
    "foreach (unbind_thread q tss) [0..<q_n_threads q] (w, [], []) = (Inr (), v')"
    "severed (\<Union>ts \<in> set tss. inner ts w (outs_of w (set ts))) w (fst v')"
    by (auto simp: variant_of_def)
  then show ?thesis
    by (intro exI [of _ "fst v'"] exI [of _ "fst (snd v')"] exI [of _ "snd (snd v')"]) (simp add: frames_unbind_def assms(3))
qed

text \<open>
  A refused \<^verbatim>\<open>set_n_frames\<close> takes the sequence apart. The sockets are unbound before the argument is
  checked, so \<^verbatim>\<open>set_n_frames(0)\<close> throws \<^verbatim>\<open>invalid_argument\<close> after it has removed every link from an output of
  a task of a thread to an input of a task of the same thread, and exactly those; nothing binds them again.
\<close>

theorem refused_frames_cut_the_sequence:
  assumes "graph_ok (q_graph q)" and "\<forall>k < q_n_threads q. q_sequences q ! k < g_next (q_graph q)"
    and "get_tasks_per_threads q = Inr tss" and "wf_links w" and "no_fakes w"
    and "seq_get_n_frames q w = Inr m" and "0 < m"
  shows "\<exists>w'. seq_set_n_frames F q 0 w = (Inl Invalid_argument, w') \<and> erase_links w' = erase_links w \<and>
    (\<forall>i. s_bound_socket (socks w' i) = (case s_bound_socket (socks w i) of None \<Rightarrow> None
       | Some out \<Rightarrow> if \<exists>ts \<in> set tss. (i, out) \<in> inner ts w (outs_of w (set ts)) then None else Some out))"
proof -
  from frames_unbind_cuts [OF assms(1-5)] obtain w' us ut where w': "frames_unbind q w = (Inr (), (w', us, ut))"
    "severed (\<Union>ts \<in> set tss. inner ts w (outs_of w (set ts))) w w'" by blast
  then have "seq_set_n_frames F q 0 w = (Inl Invalid_argument, w')"
    using assms(6,7) by (simp add: seq_set_n_frames_def frames_set_def)
  with w'(2) show ?thesis by (auto simp: severed_def split: option.split)
qed

text \<open>Two tasks in one node, the input 1 of the second bound to the output 0 of the first.\<close>

definition frames_world :: world where
  "frames_world = link 1 0 (-1) (demo_links\<lparr>
     tsks := (tsks demo_links)(0 := blank_task\<lparr>t_sockets := [0]\<rparr>, 1 := blank_task\<lparr>t_sockets := [1]\<rparr>),
     socks := (socks demo_links)(1 := (blank_socket SIN)\<lparr>s_task := 1\<rparr>)\<rparr>)"

definition frames_seq :: seq where
  "frames_seq = demo_seq\<lparr>q_graph := \<lparr>g_node = (\<lambda>_. demo_node STD [0, 1] [0, 1] [] []), g_next = 1\<rparr>,
     q_all_modules := [[0]]\<rparr>"

lemma frames_seq_tasks: "get_tasks_per_threads frames_seq = Inr [[0, 1]]"
  by (simp add: get_tasks_per_threads_def tasks_from_def seq_fuel_def add_tasks_def frames_seq_def demo_defs eval_nat_numeral)

lemma frames_world_sel:
  "s_bound_socket (socks frames_world 1) = Some 0" "s_task (socks frames_world 1) = 1"
  "s_type (socks frames_world 0) = SOUT" "t_sockets (tsks frames_world 0) = [0]" "t_sockets (tsks frames_world 1) = [1]"
  by (simp_all add: frames_world_def link_def demo_links_def blank_world_def blank_socket_def world_upd_defs)

lemma refused_frames_cut_the_sequence_witness:
  "\<exists>w'. seq_set_n_frames 2 frames_seq 0 frames_world = (Inl Invalid_argument, w') \<and>
    s_bound_socket (socks frames_world 1) = Some 0 \<and> s_bound_socket (socks w' 1) = None"
proof -
  have wf: "wf_links (demo_links\<lparr>
     tsks := (tsks demo_links)(0 := blank_task\<lparr>t_sockets := [0]\<rparr>, 1 := blank_task\<lparr>t_sockets := [1]\<rparr>),
     socks := (socks demo_links)(1 := (blank_socket SIN)\<lparr>s_task := 1\<rparr>)\<rparr>)"
    by (simp add: wf_links_def demo_links_def blank_defs)
  have 1: "graph_ok (q_graph frames_seq)" "\<forall>k < q_n_threads frames_seq. q_sequences frames_seq ! k < g_next (q_graph frames_seq)"
    "wf_links frames_world" "no_fakes frames_world" "seq_get_n_frames frames_seq frames_world = Inr 1"
    subgoal by (simp add: graph_ok_def frames_seq_def demo_defs)
    subgoal by (simp add: frames_seq_def demo_defs)
    subgoal unfolding frames_world_def by (rule wf_links_link [OF wf]) (simp_all add: demo_links_def blank_defs)
    subgoal by (simp add: no_fakes_def frames_world_def link_def demo_links_def blank_defs world_upd_defs)
    subgoal by (simp add: seq_get_n_frames_def frames_seq_def demo_defs frames_world_def link_def demo_links_def blank_defs world_upd_defs)
    done
  from refused_frames_cut_the_sequence [OF 1(1,2) frames_seq_tasks 1(3-5) zero_less_one, of 2] obtain w' where
    w': "seq_set_n_frames 2 frames_seq 0 frames_world = (Inl Invalid_argument, w')"
      "\<forall>i. s_bound_socket (socks w' i) = (case s_bound_socket (socks frames_world i) of None \<Rightarrow> None
       | Some out \<Rightarrow> if \<exists>ts \<in> set [[0, 1]]. (i, out) \<in> inner ts frames_world (outs_of frames_world (set ts)) then None else Some out)"
    by blast
  from w'(2) [rule_format, of 1] have "s_bound_socket (socks w' 1) = None"
    by (simp add: frames_world_sel [simplified] inner_def outs_of_def)
  with w'(1) frames_world_sel(1) show ?thesis by blast
qed

end
