(* ===== verification/Sequence_Build.thy ===== *)
theory Sequence_Build
  imports Sequence_Exec Tasks
begin

text \<open>
  The construction of the graph of a sequence (\<^verbatim>\<open>Sequence::init\<close> and \<^verbatim>\<open>init_recursive\<close>): a walk along the
  bound sockets from the first tasks. A task is added when its last input is met; a \<^verbatim>\<open>commute\<close> opens one
  branch per data socket, a \<^verbatim>\<open>select\<close> closes them.

  The walk only reads the sockets. \<open>ctx\<close> holds what it reads: the store, which modules are adaptors and
  which are switchers (with their number of data sockets), and the arguments of the construction.
\<close>

section \<open>State\<close>

record ctx =
  c_world :: world
  c_adaptor :: "mid \<Rightarrow> bool"
  c_switch :: "mid \<Rightarrow> nat option"
  c_inplace :: bool
  c_lasts :: "tid list"
  c_exclusions :: "tid list"

record build =
  b_graph :: "subseq graph"
  b_ssid :: nat
  b_taid :: nat
  b_selectors :: "(tid \<times> nat) list"
  b_switchers :: "tid list"
  b_lasts_id :: "nat list"
  b_real_lasts :: "tid list"
  b_feed :: "tid \<Rightarrow> nat"
  b_subseq :: "tid \<Rightarrow> (nat \<times> nat) option"

text \<open>
  The parameter \<^verbatim>\<open>size_t& ssid\<close> refers to the counter of \<^verbatim>\<open>init\<close> or, in a recursive call, to the second
  member of the entry of a task in \<^verbatim>\<open>task_subseq\<close>.
\<close>

datatype ssref = Top | Entry tid

definition read_ssid :: "ssref \<Rightarrow> build \<Rightarrow> nat" where
  "read_ssid r b = (case r of Top \<Rightarrow> b_ssid b | Entry t \<Rightarrow> (case b_subseq b t of Some (_, i) \<Rightarrow> i | None \<Rightarrow> 0))"

definition inc_ssid :: "ssref \<Rightarrow> build \<Rightarrow> build" where
  "inc_ssid r b = (case r of Top \<Rightarrow> b\<lparr>b_ssid := b_ssid b + 1\<rparr>
     | Entry t \<Rightarrow> b\<lparr>b_subseq := (b_subseq b)(t := map_option (\<lambda>(n, i). (n, i + 1)) (b_subseq b t))\<rparr>)"

section \<open>Tasks\<close>

definition is_select :: "ctx \<Rightarrow> tid \<Rightarrow> bool" where
  "is_select C t \<longleftrightarrow> c_switch C (t_module (tsks (c_world C) t)) \<noteq> None \<and> t_name (tsks (c_world C) t) = ''select''"

definition is_last_input_socket :: "ctx \<Rightarrow> tid \<Rightarrow> sid \<Rightarrow> bool" where
  "is_last_input_socket C t i \<longleftrightarrow> t_last_input_socket (tsks (c_world C) t) = Some i"

text \<open>The inputs a task waits for: \<^verbatim>\<open>(n_input + n_fwd) - n_static\<close> on \<^verbatim>\<open>size_t\<close>.\<close>

definition n_awaited :: "ctx \<Rightarrow> tid \<Rightarrow> nat" where
  "n_awaited C t = (let x = tsks (c_world C) t in
     size_sub (t_n_input_sockets x + t_n_fwd_sockets x) (get_n_static_input_sockets t (c_world C)))"

section \<open>Nodes\<close>

definition graph_op :: "(subseq graph \<Rightarrow> subseq graph) \<Rightarrow> build \<Rightarrow> build" where
  "graph_op f b = b\<lparr>b_graph := f (b_graph b)\<rparr>"

definition create_node :: "nat \<Rightarrow> build \<Rightarrow> nat \<times> build" where
  "create_node parent b = (case new_node [parent] [] None (dn_depth (g_node (b_graph b) parent) + 1) (b_graph b) of
     (n, G) \<Rightarrow> (n, b\<lparr>b_graph := G\<rparr>))"

definition add_task :: "nat \<Rightarrow> tid \<Rightarrow> build \<Rightarrow> (build, unit) outcome" where
  "add_task n t b = (case contents_of (b_graph b) n of None \<Rightarrow> (Inl UB, b)
     | Some c \<Rightarrow> (Inr (), (graph_op (set_contents n (Some (c\<lparr>ss_tasks := ss_tasks c @ [t],
         ss_tasks_id := ss_tasks_id c @ [b_taid b]\<rparr>))) b)\<lparr>b_taid := b_taid b + 1\<rparr>))"

definition set_type :: "nat \<Rightarrow> subseq_t \<Rightarrow> build \<Rightarrow> build" where
  "set_type n ty b = graph_op (set_contents n (map_option (\<lambda>c. c\<lparr>ss_type := ty\<rparr>) (contents_of (b_graph b) n))) b"

text \<open>
  The node of a \<^verbatim>\<open>select\<close> that still waits for an input. Where \<open>twice\<close> holds the code adds the parent also to
  a node it has just created with this parent.
\<close>

definition selector_of :: "tid \<Rightarrow> build \<Rightarrow> nat option" where
  "selector_of t b = map_of (b_selectors b) t"

definition wait_selector :: "bool \<Rightarrow> nat \<Rightarrow> tid \<Rightarrow> build \<Rightarrow> build" where
  "wait_selector twice n t b = (case selector_of t b of
     None \<Rightarrow> (case create_node n b of (m, b1) \<Rightarrow>
        graph_op (\<lambda>G. add_child n m (-1) (if twice then add_parent m n (-1) G else G))
          (b1\<lparr>b_selectors := b_selectors b1 @ [(t, m)]\<rparr>))
   | Some m \<Rightarrow> graph_op (\<lambda>G. add_child n m (-1) (add_parent m n (-1) G)) b)"

section \<open>One bound socket\<close>

text \<open>
  What the visit of a task keeps: whether it is still a last task, and the node of the last recursive call.
  \<open>mode\<close> says what to do with a \<^verbatim>\<open>select\<close> that is not complete: \<open>None\<close> nothing.
\<close>

type_synonym visit_state = "(bool \<times> nat option) \<times> build"

type_synonym recursion = "nat \<Rightarrow> ssref \<Rightarrow> tid \<Rightarrow> build \<Rightarrow> (build, nat) outcome"

definition note_socket :: "nat \<Rightarrow> ssref \<Rightarrow> tid \<Rightarrow> build \<Rightarrow> build" where
  "note_socket n r u b =
     (let i = read_ssid r b;
          b1 = (case b_subseq b u of
              None \<Rightarrow> b\<lparr>b_subseq := (b_subseq b)(u := Some (n, i))\<rparr>
            | Some (_, j) \<Rightarrow> if j < i then b\<lparr>b_subseq := (b_subseq b)(u := Some (n, i))\<rparr> else b)
      in b1\<lparr>b_feed := (b_feed b1)(u := (b_feed b1 u + 1) mod 2 ^ 32)\<rparr>)"

definition complete :: "ctx \<Rightarrow> tid \<Rightarrow> sid \<Rightarrow> build \<Rightarrow> bool" where
  "complete C u i b \<longleftrightarrow> (if is_select C u then is_last_input_socket C u i else b_feed b u \<ge> n_awaited C u)"

definition feed_socket :: "ctx \<Rightarrow> recursion \<Rightarrow> nat \<Rightarrow> ssref \<Rightarrow> bool option \<Rightarrow> sid \<Rightarrow> visit_state \<Rightarrow> (visit_state, unit) outcome" where
  "feed_socket C rec n r mode i v = (case v of (l, b) \<Rightarrow>
     let u = s_task (socks (c_world C) i) in
     if u \<in> set (c_exclusions C) then (Inr (), v)
     else let b1 = note_socket n r u b in
       if complete C u i b1
       then (case b_subseq b1 u of None \<Rightarrow> (Inl UB, (l, b1))
         | Some (m, _) \<Rightarrow> (case rec m (Entry u) u b1 of
             (Inl e, b2) \<Rightarrow> (Inl e, ((False, snd l), b2))
           | (Inr k, b2) \<Rightarrow> (Inr (), ((False, Some k), b2))))
       else if is_select C u \<and> mode \<noteq> None
       then (Inr (), (l, wait_selector (the mode) n u b1))
       else (Inr (), (l, b1)))"

definition feed_sockets :: "ctx \<Rightarrow> recursion \<Rightarrow> nat \<Rightarrow> ssref \<Rightarrow> bool option \<Rightarrow> sid \<Rightarrow> visit_state \<Rightarrow> (visit_state, unit) outcome" where
  "feed_sockets C rec n r mode out = foreach (feed_socket C rec n r mode) (s_bound_sockets (socks (c_world C) out))"

section \<open>One task\<close>

definition drop_last :: "tid \<Rightarrow> build \<Rightarrow> build" where
  "drop_last t b = (case find_pos t (b_real_lasts b) of None \<Rightarrow> b
     | Some d \<Rightarrow> b\<lparr>b_real_lasts := del_at d (b_real_lasts b), b_lasts_id := del_at d (b_lasts_id b)\<rparr>)"

definition open_node :: "nat \<Rightarrow> ssref \<Rightarrow> build \<Rightarrow> build" where
  "open_node n r b = (if contents_of (b_graph b) n = None
     then inc_ssid r (graph_op (set_contents n (Some new_subseq)) b) else b)"

text \<open>A branch of a \<^verbatim>\<open>commute\<close>.\<close>

definition commute_branch :: "ctx \<Rightarrow> recursion \<Rightarrow> nat \<Rightarrow> ssref \<Rightarrow> tid \<Rightarrow> nat \<Rightarrow> visit_state \<Rightarrow> (visit_state, unit) outcome" where
  "commute_branch C rec nc r t k v = (case v of (l, b) \<Rightarrow>
     (case create_node nc b of (son, b1) \<Rightarrow>
       let b2 = graph_op (add_child nc son (-1)) (inc_ssid r (graph_op (set_contents son (Some new_subseq)) b1));
           scks = t_sockets (tsks (c_world C) t) in
       if k + 2 < length scks then feed_sockets C rec son r (Some False) (scks ! (k + 2)) (l, b2)
       else (Inl UB, (l, b2))))"

definition visit_commute :: "ctx \<Rightarrow> recursion \<Rightarrow> nat \<Rightarrow> ssref \<Rightarrow> tid \<Rightarrow> nat \<Rightarrow> visit_state \<Rightarrow> (visit_state, unit) outcome" where
  "visit_commute C rec n r t n_data v = (case v of (l, b) \<Rightarrow>
     (case create_node n (b\<lparr>b_switchers := b_switchers b @ [t]\<rparr>) of (nc, b1) \<Rightarrow>
       case add_task nc t (graph_op (set_contents nc (Some new_subseq)) b1) of
         (Inl e, b2) \<Rightarrow> (Inl e, (l, b2))
       | (Inr _, b2) \<Rightarrow>
         let b3 = graph_op (add_child n nc (-1)) (inc_ssid r (set_type nc COMMUTE b2));
             scks = t_sockets (tsks (c_world C) t) in
         bindo (foreach (commute_branch C rec nc r t) [0..<n_data] (l, b3)) (\<lambda>_ w.
           if n_data + 2 < length scks then feed_sockets C rec nc r None (scks ! (n_data + 2)) w
           else (Inl UB, w))))"

definition visit_select :: "ctx \<Rightarrow> recursion \<Rightarrow> nat \<Rightarrow> ssref \<Rightarrow> tid \<Rightarrow> visit_state \<Rightarrow> (visit_state, unit) outcome" where
  "visit_select C rec n r t v = (case v of (l, b) \<Rightarrow>
     (case (case selector_of t b of Some m \<Rightarrow> (m, b)
         | None \<Rightarrow> (case create_node n b of (m, b1) \<Rightarrow> (m, b1\<lparr>b_selectors := b_selectors b1 @ [(t, m)]\<rparr>))) of (ns, b1) \<Rightarrow>
       case add_task ns t (graph_op (set_contents ns (Some new_subseq)) b1) of
         (Inl e, b2) \<Rightarrow> (Inl e, (l, b2))
       | (Inr _, b2) \<Rightarrow>
         (case create_node ns (graph_op (add_child n ns (-1)) (inc_ssid r (set_type ns SELECT b2))) of (son, b3) \<Rightarrow>
           let b4 = graph_op (add_child ns son (-1)) (inc_ssid r (graph_op (set_contents son (Some new_subseq)) b3)) in
           foreach (\<lambda>out. if s_type (socks (c_world C) out) = SOUT then feed_sockets C rec son r (Some True) out else Pair (Inr ()))
             (t_sockets (tsks (c_world C) t)) (l, b4))))"

definition visit_std :: "ctx \<Rightarrow> recursion \<Rightarrow> nat \<Rightarrow> ssref \<Rightarrow> tid \<Rightarrow> visit_state \<Rightarrow> (visit_state, unit) outcome" where
  "visit_std C rec n r t v = (case v of (l, b) \<Rightarrow>
     (case add_task n t b of (Inl e, b1) \<Rightarrow> (Inl e, (l, b1))
      | (Inr _, b1) \<Rightarrow>
        if t \<in> set (c_lasts C) then (Inr (), (l, b1))
        else foreach (\<lambda>s. if s_type (socks (c_world C) s) = SIN
             then (if length (s_bound_sockets (socks (c_world C) s)) > 1 then Pair (Inl Runtime_error) else Pair (Inr ()))
             else feed_sockets C rec n r (Some True) s)
           (t_sockets (tsks (c_world C) t)) (l, b1)))"

definition note_last :: "nat \<Rightarrow> tid \<Rightarrow> build \<Rightarrow> (build, unit) outcome" where
  "note_last n t b = (if t \<in> set (b_real_lasts b) then (Inr (), b)
     else case contents_of (b_graph b) n of None \<Rightarrow> (Inl UB, b)
     | Some c \<Rightarrow> if ss_tasks_id c = [] then (Inl UB, b)
         else (Inr (), b\<lparr>b_real_lasts := b_real_lasts b @ [t], b_lasts_id := b_lasts_id b @ [last (ss_tasks_id c)]\<rparr>))"

definition visit_body :: "ctx \<Rightarrow> recursion \<Rightarrow> nat \<Rightarrow> ssref \<Rightarrow> tid \<Rightarrow> visit_state \<Rightarrow> (visit_state, unit) outcome" where
  "visit_body C rec n r t v =
     (case c_switch C (t_module (tsks (c_world C) t)) of
        None \<Rightarrow> visit_std C rec n r t v
      | Some n_data \<Rightarrow>
          if t_name (tsks (c_world C) t) = ''commute'' \<and> t \<notin> set (b_switchers (snd v))
          then visit_commute C rec n r t n_data v
          else if t_name (tsks (c_world C) t) = ''select'' then visit_select C rec n r t v
          else (Inr (), v))"

definition visit_task :: "ctx \<Rightarrow> recursion \<Rightarrow> recursion" where
  "visit_task C rec n r t b =
     (if c_adaptor C (t_module (tsks (c_world C) t)) \<and> \<not> c_inplace C then (Inl Runtime_error, b)
      else case visit_body C rec n r t ((True, None), open_node n r (drop_last t b)) of
        (Inl e, (_, b1)) \<Rightarrow> (Inl e, b1)
      | (Inr _, ((is_last, last_node), b1)) \<Rightarrow>
          bindo (if is_last then note_last n t b1 else (Inr (), b1))
            (\<lambda>_ b2. (Inr (case last_node of Some k \<Rightarrow> k | None \<Rightarrow> n), b2)))"

text \<open>The recursion; the fuel bounds its depth.\<close>

primrec init_recursive :: "nat \<Rightarrow> ctx \<Rightarrow> recursion" where
  "init_recursive 0 C = (\<lambda>_ _ _ b. (Inl UB, b))"
| "init_recursive (Suc k) C = visit_task C (init_recursive k C)"

section \<open>From the first tasks\<close>

text \<open>\<^verbatim>\<open>task_subseq\<close> is empty for each of the first tasks; the other maps are shared.\<close>

definition init_first :: "nat \<Rightarrow> ctx \<Rightarrow> tid \<Rightarrow> (nat \<times> nat list) \<times> build \<Rightarrow> ((nat \<times> nat list) \<times> build, unit) outcome" where
  "init_first F C t v = (case v of ((last_node, ids), b) \<Rightarrow>
     (case (case contents_of (b_graph b) last_node of None \<Rightarrow> Inr 0
         | Some c \<Rightarrow> if ss_tasks_id c = [] then Inl UB else Inr (last (ss_tasks_id c))) of
        Inl e \<Rightarrow> (Inl e, v)
      | Inr i \<Rightarrow> (case init_recursive F C last_node Top t (b\<lparr>b_subseq := (\<lambda>_. None)\<rparr>) of
          (Inl e, b1) \<Rightarrow> (Inl e, ((last_node, ids @ [i]), b1))
        | (Inr k, b1) \<Rightarrow> (Inr (), ((k, ids @ [i]), b1)))))"

definition start_build :: build where
  "start_build = \<lparr>b_graph = \<lparr>g_node = (\<lambda>_. \<lparr>dn_parents = [], dn_children = [], dn_contents = None, dn_depth = 0\<rparr>), g_next = 1\<rparr>,
     b_ssid = 0, b_taid = 0, b_selectors = [], b_switchers = [], b_lasts_id = [], b_real_lasts = [],
     b_feed = (\<lambda>_. 0), b_subseq = (\<lambda>_. None)\<rparr>"

text \<open>The graph (its root is the node 0), and the numbers recorded for the first tasks.\<close>

definition init_graph :: "nat \<Rightarrow> ctx \<Rightarrow> tid list \<Rightarrow> (nat list \<times> build, unit) outcome" where
  "init_graph F C firsts = (case foreach (init_first F C) firsts ((0, []), start_build) of
     (Inl e, ((_, ids), b)) \<Rightarrow> (Inl e, (ids, b))
   | (Inr _, ((_, ids), b)) \<Rightarrow>
       if \<exists>t \<in> set (c_lasts C). t \<notin> set (b_real_lasts b) then (Inl Runtime_error, (ids, b))
       else (Inr (), (ids, b)))"

end
