(* ===== verification/Sequence_Order.thy ===== *)
theory Sequence_Order
  imports Sequence_Build
begin

text \<open>
  What the construction of a sequence guarantees when it has no switcher: one node, each task once, after the
  tasks it reads from, numbered in order; and the recursion ends.
\<close>

section \<open>Inputs and successors\<close>

text \<open>The bound inputs of a task, and the inputs its outputs feed.\<close>

definition bound_inputs :: "ctx \<Rightarrow> tid \<Rightarrow> sid set" where
  "bound_inputs C u = {i. s_task (socks (c_world C) i) = u \<and> s_bound_socket (socks (c_world C) i) \<noteq> None}"

definition succs :: "ctx \<Rightarrow> tid \<Rightarrow> sid set" where
  "succs C t = (if t \<in> set (c_lasts C) then {} else
     {i. \<exists>s \<in> set (t_sockets (tsks (c_world C) t)). s_type (socks (c_world C) s) \<noteq> SIN \<and>
       i \<in> set (s_bound_sockets (socks (c_world C) s)) \<and> s_task (socks (c_world C) i) \<notin> set (c_exclusions C)})"

definition producer :: "ctx \<Rightarrow> sid \<Rightarrow> tid" where
  "producer C i = s_task (socks (c_world C) (the (s_bound_socket (socks (c_world C) i))))"

definition all_tasks :: "ctx \<Rightarrow> tid \<Rightarrow> tid set" where
  "all_tasks C f = insert f ((\<lambda>i. s_task (socks (c_world C) i)) ` {..<next_sock (c_world C)})"

text \<open>
  The stores of the theorem: no switcher; sockets and tasks that agree; no bound socket on a plain input; every
  task waits at least for its bound inputs; the first task has none.
\<close>

definition std_net :: "ctx \<Rightarrow> tid \<Rightarrow> bool" where
  "std_net C f \<longleftrightarrow> (let w = c_world C in wf_links w \<and> next_sock w < 2 ^ 32 \<and>
     (\<forall>t. c_switch C (t_module (tsks w t)) = None \<and> (c_adaptor C (t_module (tsks w t)) \<longrightarrow> c_inplace C) \<and>
        distinct (t_sockets (tsks w t)) \<and> (\<forall>s \<in> set (t_sockets (tsks w t)). s_task (socks w s) = t) \<and>
        card (bound_inputs C t) \<le> n_awaited C t) \<and>
     (\<forall>s. s_bound_sockets (socks w s) \<noteq> [] \<longrightarrow> s_type (socks w s) \<noteq> SIN \<and> s \<in> set (t_sockets (tsks w (s_task (socks w s))))) \<and>
     bound_inputs C f = {})"

lemma std_netD:
  assumes "std_net C f"
  shows "wf_links (c_world C)" "next_sock (c_world C) < 2 ^ 32" "c_switch C (t_module (tsks (c_world C) t)) = None"
    "\<not> (c_adaptor C (t_module (tsks (c_world C) t)) \<and> \<not> c_inplace C)" "distinct (t_sockets (tsks (c_world C) t))"
    "s \<in> set (t_sockets (tsks (c_world C) t)) \<Longrightarrow> s_task (socks (c_world C) s) = t"
    "card (bound_inputs C t) \<le> n_awaited C t"
    "s_type (socks (c_world C) s) = SIN \<Longrightarrow> s_bound_sockets (socks (c_world C) s) = []" "bound_inputs C f = {}"
    "s_bound_sockets (socks (c_world C) s) \<noteq> [] \<Longrightarrow> s \<in> set (t_sockets (tsks (c_world C) (s_task (socks (c_world C) s))))"
  using assms unfolding std_net_def Let_def by blast+

lemma bound_inputs_less: "std_net C f \<Longrightarrow> bound_inputs C u \<subseteq> {..<next_sock (c_world C)}"
proof
  fix i
  assume net: "std_net C f" and i: "i \<in> bound_inputs C u"
  then have "\<not> next_sock (c_world C) \<le> i"
    using wf_linksD(3) [OF std_netD(1) [OF net], of i] by (auto simp: bound_inputs_def)
  then show "i \<in> {..<next_sock (c_world C)}" by simp
qed

lemma finite_bound_inputs: "std_net C f \<Longrightarrow> finite (bound_inputs C u)"
  by (rule finite_subset [OF bound_inputs_less finite_lessThan])

lemma finite_all_tasks [simp]: "finite (all_tasks C f)"
  by (simp add: all_tasks_def)

lemma succs_bound:
  assumes "std_net C f" and "i \<in> succs C t"
  shows "i \<in> bound_inputs C (s_task (socks (c_world C) i))" and "producer C i = t"
    and "s_task (socks (c_world C) i) \<in> all_tasks C f"
proof -
  from assms(2) obtain s where s: "s \<in> set (t_sockets (tsks (c_world C) t))" "i \<in> set (s_bound_sockets (socks (c_world C) s))"
    by (auto simp: succs_def split: if_splits)
  from wf_links_linked [OF std_netD(1) [OF assms(1)] s(2)] have b: "s_bound_socket (socks (c_world C) i) = Some s" .
  then show 1: "i \<in> bound_inputs C (s_task (socks (c_world C) i))" by (simp add: bound_inputs_def)
  show "producer C i = t" using b s(1) std_netD(6) [OF assms(1)] by (simp add: producer_def)
  show "s_task (socks (c_world C) i) \<in> all_tasks C f"
    using bound_inputs_less [OF assms(1)] 1 by (auto simp: all_tasks_def)
qed

section \<open>The invariant of the walk\<close>

text \<open>
  \<open>V\<close>: the tasks visited, in order; \<open>Fd\<close>: the inputs met. A task with as many inputs met as it waits for is
  visited, or is one of \<open>A\<close>, about to be.
\<close>

definition walk_inv :: "ctx \<Rightarrow> tid \<Rightarrow> tid set \<Rightarrow> tid list \<Rightarrow> sid set \<Rightarrow> build \<Rightarrow> bool" where
  "walk_inv C f A V Fd b \<longleftrightarrow>
     (case contents_of (b_graph b) 0 of None \<Rightarrow> V = [] | Some c \<Rightarrow> ss_tasks c = V \<and> ss_tasks_id c = [0..<length V]) \<and>
     b_taid b = length V \<and> distinct V \<and> set V \<subseteq> all_tasks C f \<and>
     (\<forall>u. b_feed b u = card {i \<in> Fd. s_task (socks (c_world C) i) = u}) \<and>
     (\<forall>u m j. b_subseq b u = Some (m, j) \<longrightarrow> m = 0) \<and>
     (\<forall>i \<in> Fd. b_subseq b (s_task (socks (c_world C) i)) \<noteq> None \<and> producer C i \<in> set V \<and>
        i \<in> bound_inputs C (s_task (socks (c_world C) i))) \<and>
     (\<forall>u \<in> set V. u \<noteq> f \<longrightarrow> bound_inputs C u \<subseteq> Fd) \<and>
     (\<forall>i \<in> Fd. n_awaited C (s_task (socks (c_world C) i)) \<le> b_feed b (s_task (socks (c_world C) i)) \<longrightarrow>
        s_task (socks (c_world C) i) \<in> set V \<union> A) \<and>
     (\<forall>k < length V. \<forall>i \<in> bound_inputs C (V ! k). producer C i \<in> set (take k V))"

lemma walk_invD:
  assumes "walk_inv C f A V Fd b"
  shows "distinct V" "set V \<subseteq> all_tasks C f" "b_feed b u = card {i \<in> Fd. s_task (socks (c_world C) i) = u}"
    "i \<in> Fd \<Longrightarrow> b_subseq b (s_task (socks (c_world C) i)) \<noteq> None"
    "i \<in> Fd \<Longrightarrow> i \<in> bound_inputs C (s_task (socks (c_world C) i))" "i \<in> Fd \<Longrightarrow> producer C i \<in> set V"
    "u \<in> set V \<Longrightarrow> u \<noteq> f \<Longrightarrow> bound_inputs C u \<subseteq> Fd" "b_taid b = length V"
    "b_subseq b u = Some (m, j) \<Longrightarrow> m = 0"
    "i \<in> Fd \<Longrightarrow> n_awaited C (s_task (socks (c_world C) i)) \<le> b_feed b (s_task (socks (c_world C) i)) \<Longrightarrow>
      s_task (socks (c_world C) i) \<in> set V \<union> A"
  using assms unfolding walk_inv_def by blast+

text \<open>The inputs met so far are few enough for the counters.\<close>

lemma fed_few:
  assumes "std_net C f" and "walk_inv C f A V Fd b"
  shows "finite Fd" and "card {i \<in> Fd. s_task (socks (c_world C) i) = u} < 2 ^ 32"
proof -
  have "Fd \<subseteq> {..<next_sock (c_world C)}"
    using walk_invD(5) [OF assms(2)] bound_inputs_less [OF assms(1)] by blast
  then show fin: "finite Fd" using finite_subset by blast
  have "card {i \<in> Fd. s_task (socks (c_world C) i) = u} \<le> card {..<next_sock (c_world C)}"
    using \<open>Fd \<subseteq> _\<close> by (intro card_mono) auto
  then show "card {i \<in> Fd. s_task (socks (c_world C) i) = u} < 2 ^ 32" using std_netD(2) [OF assms(1)] by simp
qed

lemma note_socket_inv:
  assumes net: "std_net C f" and inv: "walk_inv C f {} V Fd b" and i: "i \<in> succs C t" "t \<in> set V" "i \<notin> Fd"
  shows "walk_inv C f {s_task (socks (c_world C) i)} V (insert i Fd) (note_socket 0 r (s_task (socks (c_world C) i)) b)"
proof -
  let ?u = "s_task (socks (c_world C) i)"
  note few = fed_few [OF net inv]
  have bi: "i \<in> bound_inputs C ?u" "producer C i = t" using succs_bound [OF net i(1)] by auto
  have bin: "{j \<in> insert i Fd. s_task (socks (c_world C) j) = ?u} \<subseteq> bound_inputs C ?u"
  proof
    fix j
    assume "j \<in> {j \<in> insert i Fd. s_task (socks (c_world C) j) = ?u}"
    then have "s_task (socks (c_world C) j) = ?u" "j = i \<or> j \<in> Fd" by auto
    with walk_invD(5) [OF inv, of j] bi(1) show "j \<in> bound_inputs C ?u" by auto
  qed
  have "card {j \<in> insert i Fd. s_task (socks (c_world C) j) = ?u} \<le> card {..<next_sock (c_world C)}"
    using bin bound_inputs_less [OF net] by (intro card_mono) blast+
  then have lt: "card {j \<in> insert i Fd. s_task (socks (c_world C) j) = ?u} < 2 ^ 32" using std_netD(2) [OF net] by simp
  have eq: "{j \<in> insert i Fd. s_task (socks (c_world C) j) = ?u} = insert i {j \<in> Fd. s_task (socks (c_world C) j) = ?u}" by auto
  have card: "card {j \<in> insert i Fd. s_task (socks (c_world C) j) = ?u} = Suc (card {j \<in> Fd. s_task (socks (c_world C) j) = ?u})"
    unfolding eq using few(1) i(3) by (intro card_insert_disjoint) auto
  have feed: "b_feed (note_socket 0 r ?u b) u = card {j \<in> insert i Fd. s_task (socks (c_world C) j) = u}" for u
  proof (cases "u = ?u")
    case True
    with lt card walk_invD(3) [OF inv, of ?u] show ?thesis
      by (simp add: note_socket_def Let_def split: option.split prod.split)
  next
    case False
    then have "{j \<in> insert i Fd. s_task (socks (c_world C) j) = u} = {j \<in> Fd. s_task (socks (c_world C) j) = u}" by auto
    with False walk_invD(3) [OF inv, of u] show ?thesis
      by (simp add: note_socket_def Let_def split: option.split prod.split)
  qed
  have sub: "b_subseq (note_socket 0 r ?u b) (s_task (socks (c_world C) x)) \<noteq> None" if "x \<in> insert i Fd" for x
    using that walk_invD(4) [OF inv, of x] by (cases "x = i") (auto simp: note_socket_def Let_def split: option.split)
  have zero: "m = 0" if "b_subseq (note_socket 0 r ?u b) u = Some (m, j)" for u m j
    using that walk_invD(9) [OF inv, of u m] walk_invD(9) [OF inv, of ?u]
    by (auto simp: note_socket_def Let_def split: option.splits if_splits)
  have full: "s_task (socks (c_world C) j) = ?u \<or> s_task (socks (c_world C) j) \<in> set V"
    if "j \<in> Fd" "n_awaited C (s_task (socks (c_world C) j)) \<le> b_feed (note_socket 0 r ?u b) (s_task (socks (c_world C) j))" for j
  proof (cases "s_task (socks (c_world C) j) = ?u")
    case False
    then have "{x \<in> insert i Fd. s_task (socks (c_world C) x) = s_task (socks (c_world C) j)} =
      {x \<in> Fd. s_task (socks (c_world C) x) = s_task (socks (c_world C) j)}" by auto
    with that(2) have "n_awaited C (s_task (socks (c_world C) j)) \<le> b_feed b (s_task (socks (c_world C) j))"
      by (simp add: feed walk_invD(3) [OF inv])
    with walk_invD(10) [OF inv that(1)] show ?thesis by simp
  qed simp
  have same: "b_graph (note_socket 0 r ?u b) = b_graph b" "b_taid (note_socket 0 r ?u b) = b_taid b"
    by (simp_all add: note_socket_def Let_def split: option.split prod.split)
  show ?thesis
    using inv bi i(2) full unfolding walk_inv_def same by (auto simp: sub dest: zero) (simp_all add: feed)
qed

text \<open>A visit adds the task at the end.\<close>

lemma contents_upd [simp]:
  "contents_of (set_contents n c G) m = (if m = n then c else contents_of G m)"
  by (simp add: set_contents_def)

lemma inc_ssid_sel [simp]:
  "b_graph (inc_ssid r b) = b_graph b" "b_taid (inc_ssid r b) = b_taid b" "b_feed (inc_ssid r b) = b_feed b"
  "b_subseq (inc_ssid r b) u = None \<longleftrightarrow> b_subseq b u = None"
  by (auto simp: inc_ssid_def split: ssref.split)

lemma inc_ssid_fst: "b_subseq (inc_ssid r b) u = Some (m, j) \<Longrightarrow> \<exists>j'. b_subseq b u = Some (m, j')"
  by (auto simp: inc_ssid_def split: ssref.splits if_splits)

lemma open_node_inv: "walk_inv C f A V Fd b \<Longrightarrow> walk_inv C f A V Fd (open_node 0 r b) \<and> contents_of (b_graph (open_node 0 r b)) 0 \<noteq> None"
  by (auto simp: walk_inv_def open_node_def graph_op_def new_subseq_def dest!: inc_ssid_fst) blast

lemma drop_last_sel [simp]:
  "b_graph (drop_last t b) = b_graph b" "b_taid (drop_last t b) = b_taid b" "b_feed (drop_last t b) = b_feed b"
  "b_subseq (drop_last t b) = b_subseq b"
  by (simp_all add: drop_last_def split: option.split)

lemma drop_last_inv: "walk_inv C f A V Fd b \<Longrightarrow> walk_inv C f A V Fd (drop_last t b)"
  by (simp add: walk_inv_def)

lemma note_last_inv: "walk_inv C f A V Fd b \<Longrightarrow> V \<noteq> [] \<Longrightarrow> \<exists>b'. note_last 0 t b = (Inr (), b') \<and> walk_inv C f A V Fd b'"
  by (cases "contents_of (b_graph b) 0") (auto simp: walk_inv_def note_last_def)

definition ready :: "ctx \<Rightarrow> tid \<Rightarrow> tid list \<Rightarrow> sid set \<Rightarrow> tid \<Rightarrow> bool" where
  "ready C f V Fd t \<longleftrightarrow> t \<notin> set V \<and> t \<in> all_tasks C f \<and> (t = f \<or> bound_inputs C t \<subseteq> Fd)"

lemma add_task_inv:
  assumes net: "std_net C f" and inv: "walk_inv C f {t} V Fd b" and r: "ready C f V Fd t"
    and c: "contents_of (b_graph b) 0 \<noteq> None"
  shows "\<exists>b'. add_task 0 t b = (Inr (), b') \<and> walk_inv C f {} (V @ [t]) Fd b'"
proof -
  have prod: "producer C i \<in> set V" if "i \<in> bound_inputs C t" for i
    using that r walk_invD(6) [OF inv, of i] std_netD(9) [OF net] by (auto simp: ready_def)
  have t: "t \<notin> set V" "t \<in> all_tasks C f" "t \<noteq> f \<longrightarrow> bound_inputs C t \<subseteq> Fd"
    using r by (auto simp: ready_def)
  have "\<forall>i \<in> bound_inputs C t. producer C i \<in> set V" using prod by blast
  with c inv t show ?thesis
    by (auto simp: walk_inv_def add_task_def graph_op_def nth_append less_Suc_eq split: if_splits)
qed

lemma walk_inv_drop: "walk_inv C f {u} V Fd b \<Longrightarrow> \<not> n_awaited C u \<le> b_feed b u \<Longrightarrow> walk_inv C f {} V Fd b"
  unfolding walk_inv_def by auto

section \<open>The walk\<close>

text \<open>
  \<open>grows k t g L\<close>: with fuel for \<open>k\<close> more tasks, the step \<open>g\<close> of the visit of \<open>t\<close> meets the inputs \<open>L\<close> and
  visits some new tasks, with all their inputs.
\<close>

abbreviation node_0 :: "nat option \<Rightarrow> bool" where
  "node_0 x \<equiv> x = None \<or> x = Some 0"

definition unseen :: "ctx \<Rightarrow> tid \<Rightarrow> tid list \<Rightarrow> nat" where
  "unseen C f V = card (all_tasks C f - set V)"

definition grows :: "ctx \<Rightarrow> tid \<Rightarrow> nat \<Rightarrow> tid \<Rightarrow> (visit_state \<Rightarrow> (visit_state, unit) outcome) \<Rightarrow> sid set \<Rightarrow> bool" where
  "grows C f k t g L \<longleftrightarrow> (\<forall>V Fd l b. walk_inv C f {} V Fd b \<and> t \<in> set V \<and> L \<inter> Fd = {} \<and> unseen C f V \<le> k \<and> node_0 (snd l) \<longrightarrow>
     (\<exists>l' b' new. g (l, b) = (Inr (), (l', b')) \<and> walk_inv C f {} (V @ new) (Fd \<union> L \<union> (\<Union>x \<in> set new. succs C x)) b' \<and>
        node_0 (snd l')))"

definition rec_ok :: "ctx \<Rightarrow> tid \<Rightarrow> nat \<Rightarrow> recursion \<Rightarrow> bool" where
  "rec_ok C f k rec \<longleftrightarrow> (\<forall>V Fd b r t. walk_inv C f {t} V Fd b \<and> ready C f V Fd t \<and> unseen C f V \<le> k \<longrightarrow>
     (\<exists>b' new. rec 0 r t b = (Inr 0, b') \<and>
        walk_inv C f {} (V @ t # new) (Fd \<union> (\<Union>x \<in> set (t # new). succs C x)) b'))"

lemma growsD:
  "grows C f k t g L \<Longrightarrow> walk_inv C f {} V Fd b \<Longrightarrow> t \<in> set V \<Longrightarrow> L \<inter> Fd = {} \<Longrightarrow> unseen C f V \<le> k \<Longrightarrow> node_0 (snd l) \<Longrightarrow>
    \<exists>l' b' new. g (l, b) = (Inr (), (l', b')) \<and> walk_inv C f {} (V @ new) (Fd \<union> L \<union> (\<Union>x \<in> set new. succs C x)) b' \<and>
        node_0 (snd l')"
  unfolding grows_def by blast

lemma growsI:
  "(\<And>V Fd l b. walk_inv C f {} V Fd b \<Longrightarrow> t \<in> set V \<Longrightarrow> L \<inter> Fd = {} \<Longrightarrow> unseen C f V \<le> k \<Longrightarrow> node_0 (snd l) \<Longrightarrow>
    \<exists>l' b' new. g (l, b) = (Inr (), (l', b')) \<and> walk_inv C f {} (V @ new) (Fd \<union> L \<union> (\<Union>x \<in> set new. succs C x)) b' \<and>
        node_0 (snd l')) \<Longrightarrow> grows C f k t g L"
  unfolding grows_def by blast

lemma rec_okD:
  "rec_ok C f k rec \<Longrightarrow> walk_inv C f {t} V Fd b \<Longrightarrow> ready C f V Fd t \<Longrightarrow> unseen C f V \<le> k \<Longrightarrow>
     \<exists>b' new. rec 0 r t b = (Inr 0, b') \<and> walk_inv C f {} (V @ t # new) (Fd \<union> (\<Union>x \<in> set (t # new). succs C x)) b'"
  unfolding rec_ok_def by blast

lemma unseen_append: "unseen C f (V @ new) \<le> unseen C f V"
  unfolding unseen_def by (intro card_mono) auto

lemma unseen_ready: "ready C f V Fd t \<Longrightarrow> unseen C f (V @ [t]) < unseen C f V"
  unfolding unseen_def ready_def by (intro psubset_card_mono) auto

lemma succs_apart: "std_net C f \<Longrightarrow> x \<noteq> y \<Longrightarrow> succs C x \<inter> succs C y = {}"
  using succs_bound(2) by blast

lemma grows_nothing: "(\<And>l b. g (l, b) = (Inr (), (l, b))) \<Longrightarrow> grows C f k t g {}"
  by (rule growsI) (intro exI [of _ "[]"] exI, auto)

lemma grows_foreach:
  assumes net: "std_net C f"
  shows "distinct xs \<Longrightarrow> (\<And>x. x \<in> set xs \<Longrightarrow> grows C f k t (g x) (L x) \<and> L x \<subseteq> succs C t) \<Longrightarrow>
    (\<And>x y. x \<in> set xs \<Longrightarrow> y \<in> set xs \<Longrightarrow> x \<noteq> y \<Longrightarrow> L x \<inter> L y = {}) \<Longrightarrow> grows C f k t (foreach g xs) (\<Union>x \<in> set xs. L x)"
proof (induction xs)
  case Nil
  show ?case by simp (rule grows_nothing, simp)
next
  case (Cons x xs)
  have rest: "grows C f k t (foreach g xs) (\<Union>x \<in> set xs. L x)" by (rule Cons.IH) (use Cons.prems in auto)
  show ?case
  proof (rule growsI)
    fix V Fd and l :: "bool \<times> nat option" and b
    assume a: "walk_inv C f {} V Fd b" "t \<in> set V" "(\<Union>x \<in> set (x # xs). L x) \<inter> Fd = {}" "unseen C f V \<le> k" "node_0 (snd l)"
    have gx: "grows C f k t (g x) (L x)" using Cons.prems(2) by simp
    have "L x \<inter> Fd = {}" using a(3) by auto
    from growsD [OF gx a(1,2) this a(4,5)] obtain l1 b1 n1 where 1: "g x (l, b) = (Inr (), (l1, b1))"
      "walk_inv C f {} (V @ n1) (Fd \<union> L x \<union> (\<Union>x \<in> set n1. succs C x)) b1" "node_0 (snd l1)" by auto
    have "t \<notin> set n1" using walk_invD(1) [OF 1(2)] a(2) by auto
    then have "succs C t \<inter> succs C y = {}" if "y \<in> set n1" for y
      by (intro succs_apart [OF net]) (use that in auto)
    then have "succs C t \<inter> (\<Union>x \<in> set n1. succs C x) = {}" by (simp add: Int_UN_distrib)
    moreover have "L y \<inter> L x = {}" if "y \<in> set xs" for y using Cons.prems(3) [of y x] that Cons.prems(1) by auto
    then have "(\<Union>x \<in> set xs. L x) \<inter> L x = {}" by auto
    moreover have "(\<Union>x \<in> set xs. L x) \<subseteq> succs C t" using Cons.prems(2) by auto
    ultimately have dis: "(\<Union>x \<in> set xs. L x) \<inter> (Fd \<union> L x \<union> (\<Union>x \<in> set n1. succs C x)) = {}" using a(3) by auto
    have "t \<in> set (V @ n1)" "unseen C f (V @ n1) \<le> k" using a(2,4) unseen_append [of C f V n1] by auto
    from growsD [OF rest 1(2) this(1) dis this(2) 1(3)] obtain l2 b2 n2 where 2: "foreach g xs (l1, b1) = (Inr (), (l2, b2))"
      "walk_inv C f {} ((V @ n1) @ n2) (Fd \<union> L x \<union> (\<Union>x \<in> set n1. succs C x) \<union> (\<Union>x \<in> set xs. L x) \<union> (\<Union>x \<in> set n2. succs C x)) b2"
      "node_0 (snd l2)" by blast
    have "Fd \<union> L x \<union> (\<Union>x \<in> set n1. succs C x) \<union> (\<Union>x \<in> set xs. L x) \<union> (\<Union>x \<in> set n2. succs C x) =
        Fd \<union> (\<Union>x \<in> set (x # xs). L x) \<union> (\<Union>x \<in> set (n1 @ n2). succs C x)" by auto
    with 1(1) 2 show "\<exists>l' b' new. foreach g (x # xs) (l, b) = (Inr (), (l', b')) \<and>
        walk_inv C f {} (V @ new) (Fd \<union> (\<Union>x \<in> set (x # xs). L x) \<union> (\<Union>x \<in> set new. succs C x)) b' \<and> node_0 (snd l')"
      by (intro exI [of _ l2] exI [of _ b2] exI [of _ "n1 @ n2"]) simp
  qed
qed

text \<open>A complete task has met all its bound inputs, and was not visited before.\<close>

lemma complete_ready:
  assumes net: "std_net C f" and inv: "walk_inv C f {} V Fd b" and inv1: "walk_inv C f {u} V (insert i Fd) b1"
    and i: "i \<in> succs C t" "i \<notin> Fd" and u: "u = s_task (socks (c_world C) i)" and full: "b_feed b1 u \<ge> n_awaited C u"
  shows "ready C f V (insert i Fd) u"
proof -
  let ?S = "{j \<in> insert i Fd. s_task (socks (c_world C) j) = u}"
  have bi: "i \<in> bound_inputs C u" "u \<in> all_tasks C f" using succs_bound [OF net i(1)] by (auto simp: u)
  have sub: "?S \<subseteq> bound_inputs C u" using walk_invD(5) [OF inv1] by auto
  have "card (bound_inputs C u) \<le> card ?S"
    using full std_netD(7) [OF net, of u] walk_invD(3) [OF inv1, of u] by simp
  then have "?S = bound_inputs C u" using card_seteq [OF finite_bound_inputs [OF net] sub] by simp
  then have "bound_inputs C u \<subseteq> insert i Fd" by blast
  moreover have "u \<notin> set V"
    using walk_invD(7) [OF inv, of u] bi(1) i(2) std_netD(9) [OF net] by (cases "u = f") auto
  ultimately show ?thesis using bi(2) by (simp add: ready_def)
qed

lemma feed_socket_grows:
  assumes net: "std_net C f" and rec: "rec_ok C f k rec" and i: "i \<in> succs C t"
  shows "grows C f k t (feed_socket C rec 0 r m i) {i}"
proof (rule growsI)
  fix V Fd and l :: "bool \<times> nat option" and b
  assume a: "walk_inv C f {} V Fd b" "t \<in> set V" "{i} \<inter> Fd = {}" "unseen C f V \<le> k" "node_0 (snd l)"
  let ?u = "s_task (socks (c_world C) i)"
  let ?b = "note_socket 0 r ?u b"
  have ex: "?u \<notin> set (c_exclusions C)" using i by (auto simp: succs_def split: if_splits)
  have sel: "\<not> is_select C ?u" using std_netD(3) [OF net] by (simp add: is_select_def)
  have inv: "walk_inv C f {?u} V (insert i Fd) ?b" by (rule note_socket_inv [OF net a(1) i a(2)]) (use a(3) in simp)
  show "\<exists>l' b' new. feed_socket C rec 0 r m i (l, b) = (Inr (), (l', b')) \<and>
      walk_inv C f {} (V @ new) (Fd \<union> {i} \<union> (\<Union>x \<in> set new. succs C x)) b' \<and> node_0 (snd l')"
  proof (cases "b_feed ?b ?u \<ge> n_awaited C ?u")
    case True
    have ready: "ready C f V (insert i Fd) ?u"
      by (rule complete_ready [OF net a(1) inv i _ refl True]) (use a(3) in simp)
    obtain x j where x: "b_subseq ?b ?u = Some (x, j)" using walk_invD(4) [OF inv, of i] by auto
    have x0: "x = 0" using walk_invD(9) [OF inv x] .
    from rec_okD [OF rec inv ready a(4), of "Entry ?u"] obtain b' new where
      b': "rec 0 (Entry ?u) ?u ?b = (Inr 0, b')"
        "walk_inv C f {} (V @ ?u # new) (insert i Fd \<union> (\<Union>x \<in> set (?u # new). succs C x)) b'" by blast
    have "feed_socket C rec 0 r m i (l, b) = (Inr (), ((False, Some 0), b'))"
      using ex sel True x x0 b'(1) by (simp add: feed_socket_def Let_def complete_def)
    with b'(2) show ?thesis
      by (intro exI [of _ "(False, Some 0)"] exI [of _ b'] exI [of _ "?u # new"]) (simp add: Un_insert_left)
  next
    case False
    then have "feed_socket C rec 0 r m i (l, b) = (Inr (), (l, ?b))"
      using ex sel by (simp add: feed_socket_def Let_def complete_def)
    moreover have "walk_inv C f {} V (insert i Fd) ?b" using walk_inv_drop [OF inv False] .
    ultimately show ?thesis using a(5) by (intro exI [of _ l] exI [of _ ?b] exI [of _ "[]"]) simp
  qed
qed

lemma feed_sockets_grows:
  assumes net: "std_net C f" and rec: "rec_ok C f k rec" and t: "t \<notin> set (c_lasts C)"
    and s: "s \<in> set (t_sockets (tsks (c_world C) t))" "s_type (socks (c_world C) s) \<noteq> SIN"
  shows "grows C f k t (feed_sockets C rec 0 r m s) (succs C t \<inter> set (s_bound_sockets (socks (c_world C) s)))"
proof -
  let ?bs = "s_bound_sockets (socks (c_world C) s)"
  let ?L = "\<lambda>i. if s_task (socks (c_world C) i) \<in> set (c_exclusions C) then {} else {i}"
  have "grows C f k t (feed_socket C rec 0 r m i) (?L i) \<and> ?L i \<subseteq> succs C t" if "i \<in> set ?bs" for i
  proof (cases "s_task (socks (c_world C) i) \<in> set (c_exclusions C)")
    case True
    then have "grows C f k t (feed_socket C rec 0 r m i) {}"
      by (intro grows_nothing) (simp add: feed_socket_def Let_def)
    with True show ?thesis by simp
  next
    case False
    with t s that have i: "i \<in> succs C t" by (auto simp: succs_def)
    with False feed_socket_grows [OF net rec i] show ?thesis by simp
  qed
  then have "grows C f k t (foreach (feed_socket C rec 0 r m) ?bs) (\<Union>i \<in> set ?bs. ?L i)"
    by (intro grows_foreach [OF net]) (use wf_linksD(2) [OF std_netD(1) [OF net]] in auto)
  moreover have "(\<Union>i \<in> set ?bs. ?L i) = succs C t \<inter> set ?bs" using t s by (auto simp: succs_def)
  ultimately show ?thesis by (simp add: feed_sockets_def)
qed

lemma visit_std_grows:
  assumes net: "std_net C f" and rec: "rec_ok C f k rec" and last: "t \<notin> set (c_lasts C)"
  shows "grows C f k t (foreach (\<lambda>s. if s_type (socks (c_world C) s) = SIN
      then (if length (s_bound_sockets (socks (c_world C) s)) > 1 then Pair (Inl Runtime_error) else Pair (Inr ()))
      else feed_sockets C rec 0 r (Some True) s) (t_sockets (tsks (c_world C) t))) (succs C t)"
proof -
  let ?g = "\<lambda>s. if s_type (socks (c_world C) s) = SIN
      then (if length (s_bound_sockets (socks (c_world C) s)) > 1 then Pair (Inl Runtime_error) else Pair (Inr ()))
      else feed_sockets C rec 0 r (Some True) s"
  let ?ss = "t_sockets (tsks (c_world C) t)"
  let ?L = "\<lambda>s. if s_type (socks (c_world C) s) = SIN then {} else succs C t \<inter> set (s_bound_sockets (socks (c_world C) s))"
  have "grows C f k t (?g s) (?L s) \<and> ?L s \<subseteq> succs C t" if "s \<in> set ?ss" for s
  proof (cases "s_type (socks (c_world C) s) = SIN")
    case True
    then have "grows C f k t (?g s) {}" by (intro grows_nothing) (simp add: std_netD(8) [OF net True])
    with True show ?thesis by simp
  next
    case False
    with feed_sockets_grows [OF net rec last that False] show ?thesis by simp
  qed
  moreover have "?L s \<inter> ?L s' = {}" if "s \<noteq> s'" for s s'
  proof -
    have "i \<notin> set (s_bound_sockets (socks (c_world C) s'))" if i: "i \<in> set (s_bound_sockets (socks (c_world C) s))" for i
      using wf_links_linked [OF std_netD(1) [OF net] i] wf_links_linked [OF std_netD(1) [OF net], of i s'] \<open>s \<noteq> s'\<close>
      by auto
    then show ?thesis by auto
  qed
  ultimately have "grows C f k t (foreach ?g ?ss) (\<Union>s \<in> set ?ss. ?L s)"
    by (intro grows_foreach [OF net]) (use std_netD(5) [OF net] in auto)
  moreover have "(\<Union>s \<in> set ?ss. ?L s) = succs C t" using last by (auto simp: succs_def)
  ultimately show ?thesis by simp
qed

lemma visit_task_ok:
  assumes net: "std_net C f" and rec: "rec_ok C f k rec"
  shows "rec_ok C f (Suc k) (visit_task C rec)"
  unfolding rec_ok_def
proof (intro allI impI, elim conjE)
  fix V Fd b r t
  assume inv: "walk_inv C f {t} V Fd b" and ready: "ready C f V Fd t" and less: "unseen C f V \<le> Suc k"
  let ?b = "open_node 0 r (drop_last t b)"
  have b: "walk_inv C f {t} V Fd ?b" "contents_of (b_graph ?b) 0 \<noteq> None"
    using open_node_inv [OF drop_last_inv [OF inv]] by auto
  from add_task_inv [OF net b(1) ready b(2)] obtain b1 where b1: "add_task 0 t ?b = (Inr (), b1)"
    "walk_inv C f {} (V @ [t]) Fd b1" by blast
  have small: "unseen C f (V @ [t]) \<le> k" using unseen_ready [OF ready] less by simp
  have fresh: "succs C t \<inter> Fd = {}"
    using walk_invD(6) [OF inv] succs_bound(2) [OF net] ready by (fastforce simp: ready_def)
  have "\<exists>l' b' new. visit_body C rec 0 r t ((True, None), ?b) = (Inr (), (l', b')) \<and>
      walk_inv C f {} ((V @ [t]) @ new) (Fd \<union> succs C t \<union> (\<Union>x \<in> set new. succs C x)) b' \<and> node_0 (snd l')"
  proof (cases "t \<in> set (c_lasts C)")
    case True
    then have "visit_body C rec 0 r t ((True, None), ?b) = (Inr (), ((True, None), b1))" "succs C t = {}"
      using b1(1) std_netD(3) [OF net] by (simp_all add: visit_body_def visit_std_def succs_def)
    with b1(2) show ?thesis by (intro exI [of _ "(True, None)"] exI [of _ b1] exI [of _ "[]"]) simp
  next
    case False
    from growsD [OF visit_std_grows [OF net rec False, of r] b1(2) _ fresh small, of "(True, None)"]
    show ?thesis using b1(1) False std_netD(3) [OF net] by (simp add: visit_body_def visit_std_def)
  qed
  then obtain l' b2 new where body: "visit_body C rec 0 r t ((True, None), ?b) = (Inr (), (l', b2))"
    "walk_inv C f {} ((V @ [t]) @ new) (Fd \<union> succs C t \<union> (\<Union>x \<in> set new. succs C x)) b2" "node_0 (snd l')" by blast
  obtain b3 where b3: "(if fst l' then note_last 0 t b2 else (Inr (), b2)) = (Inr (), b3)"
    "walk_inv C f {} ((V @ [t]) @ new) (Fd \<union> succs C t \<union> (\<Union>x \<in> set new. succs C x)) b3"
    using note_last_inv [OF body(2)] body(2) by (cases "fst l'") auto
  have "visit_task C rec 0 r t b = (Inr 0, b3)"
    using body(1,3) b3(1) std_netD(4) [OF net] by (cases l') (auto simp: visit_task_def)
  moreover have "Fd \<union> succs C t \<union> (\<Union>x \<in> set new. succs C x) = Fd \<union> (\<Union>x \<in> set (t # new). succs C x)" by auto
  ultimately show "\<exists>b' new. visit_task C rec 0 r t b = (Inr 0, b') \<and>
      walk_inv C f {} (V @ t # new) (Fd \<union> (\<Union>x \<in> set (t # new). succs C x)) b'"
    using b3(2) by (intro exI [of _ b3] exI [of _ new]) simp
qed

lemma init_recursive_ok: "std_net C f \<Longrightarrow> rec_ok C f k (init_recursive k C)"
proof (induction k)
  case 0
  show ?case
    unfolding rec_ok_def
  proof (intro allI impI, elim conjE)
    fix V Fd b r t
    assume "ready C f V Fd t" "unseen C f V \<le> 0"
    then show "\<exists>b' new. init_recursive 0 C 0 r t b = (Inr 0, b') \<and>
        walk_inv C f {} (V @ t # new) (Fd \<union> (\<Union>x \<in> set (t # new). succs C x)) b'"
      by (simp add: ready_def unseen_def) blast
  qed
next
  case (Suc k)
  with visit_task_ok show ?case by simp
qed

section \<open>The graph\<close>

text \<open>Every input of a task whose producers are in the graph and feed it is met.\<close>

lemma input_met:
  assumes net: "std_net C f" and i: "i \<in> bound_inputs C t" and t: "t \<notin> set (c_exclusions C)"
    and p: "producer C i \<notin> set (c_lasts C)"
  shows "i \<in> succs C (producer C i)"
proof -
  from i obtain s where s: "s_bound_socket (socks (c_world C) i) = Some s" "s_task (socks (c_world C) i) = t"
    by (auto simp: bound_inputs_def)
  then have b: "i \<in> set (s_bound_sockets (socks (c_world C) s))" using wf_linksD(1) [OF std_netD(1) [OF net]] by simp
  then have "s_bound_sockets (socks (c_world C) s) \<noteq> []" by auto
  then have "s \<in> set (t_sockets (tsks (c_world C) (s_task (socks (c_world C) s))))" "s_type (socks (c_world C) s) \<noteq> SIN"
    using std_netD(8,10) [OF net, of s] by auto
  moreover have "producer C i = s_task (socks (c_world C) s)" by (simp add: producer_def s(1))
  ultimately show ?thesis using b s(2) t p by (auto simp: succs_def)
qed

text \<open>
  C14: The graph of a sequence without switchers is one node, and the construction ends: the depth of the
  recursion is at most the number of tasks. The node starts with the first task and holds each task once,
  after every task it reads from, numbered from 0 in this order; a task that is not excluded and whose inputs
  all come from tasks of the sequence is in it. The construction throws only if a last task was not met.
\<close>

theorem graph_in_dependency_order:
  assumes "std_net C f" and "card (all_tasks C f) \<le> F"
  shows "\<exists>r b c. init_graph F C [f] = (r, ([0], b)) \<and> (r = Inr () \<or> r = Inl Runtime_error) \<and>
    contents_of (b_graph b) 0 = Some c \<and> hd (ss_tasks c) = f \<and> distinct (ss_tasks c) \<and>
    ss_tasks_id c = [0..<length (ss_tasks c)] \<and>
    (\<forall>k < length (ss_tasks c). \<forall>i \<in> bound_inputs C (ss_tasks c ! k). producer C i \<in> set (take k (ss_tasks c))) \<and>
    (\<forall>t. t \<notin> set (c_exclusions C) \<and> bound_inputs C t \<noteq> {} \<and> n_awaited C t = card (bound_inputs C t) \<and>
       (\<forall>i \<in> bound_inputs C t. producer C i \<in> set (ss_tasks c) - set (c_lasts C)) \<longrightarrow> t \<in> set (ss_tasks c))"
proof -
  let ?b = "start_build\<lparr>b_subseq := (\<lambda>_. None)\<rparr>"
  have start: "walk_inv C f {f} [] {} ?b" by (simp add: walk_inv_def start_build_def)
  have ready: "ready C f [] {} f" by (simp add: ready_def all_tasks_def)
  have "unseen C f [] \<le> F" using assms(2) by (simp add: unseen_def)
  from rec_okD [OF init_recursive_ok [OF assms(1)] start ready this, of Top] obtain b new where
    b: "init_recursive F C 0 Top f ?b = (Inr 0, b)"
      "walk_inv C f {} (f # new) (\<Union>x \<in> set (f # new). succs C x) b" by auto
  let ?V = "f # new"
  let ?Fd = "\<Union>x \<in> set ?V. succs C x"
  from b(2) obtain c where c: "contents_of (b_graph b) 0 = Some c" "ss_tasks c = ?V" "ss_tasks_id c = [0..<length ?V]"
    by (auto simp: walk_inv_def split: option.splits)
  have graph: "init_graph F C [f] = ((if \<exists>t \<in> set (c_lasts C). t \<notin> set (b_real_lasts b) then Inl Runtime_error else Inr ()), ([0], b))"
    using b(1) by (simp add: init_graph_def init_first_def start_build_def)
  have all: "t \<in> set ?V"
    if t: "t \<notin> set (c_exclusions C)" "bound_inputs C t \<noteq> {}" "n_awaited C t = card (bound_inputs C t)"
      "\<forall>i \<in> bound_inputs C t. producer C i \<in> set ?V - set (c_lasts C)" for t
  proof -
    have met: "bound_inputs C t \<subseteq> ?Fd" using input_met [OF assms(1) _ t(1)] t(4) by blast
    then have "bound_inputs C t \<subseteq> {i \<in> ?Fd. s_task (socks (c_world C) i) = t}" by (auto simp: bound_inputs_def)
    then have "card (bound_inputs C t) \<le> b_feed b t"
      unfolding walk_invD(3) [OF b(2)] by (rule card_mono [rotated]) (rule finite_subset [OF _ fed_few(1) [OF assms(1) b(2)]], blast)
    moreover obtain i where "i \<in> bound_inputs C t" using t(2) by blast
    ultimately show ?thesis
      using walk_invD(10) [OF b(2), of i] met t(3) by (auto simp: bound_inputs_def)
  qed
  have "\<forall>k < length ?V. \<forall>i \<in> bound_inputs C (?V ! k). producer C i \<in> set (take k ?V)"
    using b(2) unfolding walk_inv_def by blast
  with graph c all walk_invD(1) [OF b(2)] show ?thesis
    by (intro exI [of _ "if \<exists>t \<in> set (c_lasts C). t \<notin> set (b_real_lasts b) then Inl Runtime_error else Inr ()"]
        exI [of _ b] exI [of _ c]) (auto simp del: set_simps upt.simps)
qed

section \<open>Concrete instances\<close>

text \<open>Task 0 feeds the tasks 1 and 2, task 1 feeds task 2: the input 4 of task 2 is met before its input 3.\<close>

definition order_world :: world where
  "order_world = (blank_world (\<lambda>_. SIN) 5)\<lparr>
     socks := (\<lambda>_. blank_socket SIN)
       (0 := (blank_socket SOUT)\<lparr>s_bound_sockets := [1, 3]\<rparr>,
        1 := (blank_socket SIN)\<lparr>s_task := 1, s_bound_socket := Some 0\<rparr>,
        2 := (blank_socket SOUT)\<lparr>s_task := 1, s_bound_sockets := [4]\<rparr>,
        3 := (blank_socket SIN)\<lparr>s_task := 2, s_bound_socket := Some 0\<rparr>,
        4 := (blank_socket SIN)\<lparr>s_task := 2, s_bound_socket := Some 2\<rparr>),
     tsks := (\<lambda>_. blank_task)
       (0 := blank_task\<lparr>t_sockets := [0]\<rparr>,
        1 := blank_task\<lparr>t_sockets := [1, 2], t_n_input_sockets := 1\<rparr>,
        2 := blank_task\<lparr>t_sockets := [3, 4], t_n_input_sockets := 2\<rparr>)\<rparr>"

definition order_ctx :: ctx where
  "order_ctx = \<lparr>c_world = order_world, c_adaptor = (\<lambda>_. False), c_switch = (\<lambda>_. None), c_inplace = True,
     c_lasts = [2], c_exclusions = []\<rparr>"

lemmas order_defs = order_ctx_def order_world_def blank_world_def blank_socket_def blank_task_def

lemma order_inputs: "bound_inputs order_ctx t = (if t = 1 then {1} else if t = 2 then {3, 4} else {})"
  by (auto simp: bound_inputs_def order_defs split: if_splits)

lemma order_awaited: "n_awaited order_ctx t = (if t = 1 then 1 else if t = 2 then 2 else 0)"
  by (simp add: n_awaited_def Let_def size_sub_def get_n_static_input_sockets_def order_defs)

lemma order_net: "std_net order_ctx 0"
  unfolding std_net_def Let_def
proof (intro conjI allI)
  show "wf_links (c_world order_ctx)" by (auto simp: wf_links_def order_defs)
  show "card (bound_inputs order_ctx t) \<le> n_awaited order_ctx t" for t by (simp add: order_inputs order_awaited)
  show "bound_inputs order_ctx 0 = {}" by (simp add: order_inputs)
qed (simp_all add: order_defs)

lemma graph_in_dependency_order_witness:
  "\<exists>r b c. init_graph 3 order_ctx [0] = (r, ([0], b)) \<and> contents_of (b_graph b) 0 = Some c \<and>
    hd (ss_tasks c) = 0 \<and> distinct (ss_tasks c) \<and> ss_tasks_id c = [0..<length (ss_tasks c)]"
proof -
  have "all_tasks order_ctx 0 = {0, 1, 2}"
    by (auto simp: all_tasks_def order_defs lessThan_def image_iff eval_nat_numeral less_Suc_eq)
  then have "card (all_tasks order_ctx 0) \<le> 3" by simp
  from graph_in_dependency_order [OF order_net this] show ?thesis by blast
qed

text \<open>
  The number recorded for a first task is the one of the last task added before it, or 0: with two first tasks
  the second number is the one of an other task. Here 0 feeds 1, and 2 is on its own with the number 2.
\<close>

definition firsts_ctx :: ctx where
  "firsts_ctx = order_ctx\<lparr>c_lasts := [], c_world := order_world\<lparr>
     socks := (socks order_world)(0 := (blank_socket SOUT)\<lparr>s_bound_sockets := [1]\<rparr>,
       2 := (blank_socket SOUT)\<lparr>s_task := 1\<rparr>, 3 := blank_socket SIN, 4 := blank_socket SIN)\<rparr>\<rparr>"

lemma firsts_sel:
  "c_adaptor firsts_ctx m = False" "c_switch firsts_ctx m = None" "c_lasts firsts_ctx = []" "c_exclusions firsts_ctx = []"
  "t_sockets (tsks (c_world firsts_ctx) t) = (if t = 0 then [0] else if t = 1 then [1, 2] else if t = 2 then [3, 4] else [])"
  "s_bound_sockets (socks (c_world firsts_ctx) s) = (if s = 0 then [1] else [])"
  "s_type (socks (c_world firsts_ctx) s) = (if s = 0 \<or> s = 2 then SOUT else SIN)"
  "s_task (socks (c_world firsts_ctx) s) = (if s = 1 \<or> s = 2 then 1 else 0)"
  by (simp_all add: firsts_ctx_def order_defs)

lemma firsts_awaited: "n_awaited firsts_ctx 1 = 1" "n_awaited firsts_ctx (Suc 0) = 1"
  by (simp_all add: n_awaited_def Let_def size_sub_def get_n_static_input_sockets_def firsts_ctx_def order_defs)

lemmas visit_simps = visit_task_def visit_body_def visit_std_def drop_last_def open_node_def add_task_def graph_op_def
  feed_sockets_def feed_socket_def note_socket_def complete_def is_select_def note_last_def read_ssid_def inc_ssid_def
  new_subseq_def Let_def firsts_sel firsts_awaited

lemma second_first_is_misnumbered:
  "\<exists>b c. init_graph 3 firsts_ctx [0, 2] = (Inr (), ([0, 1], b)) \<and> contents_of (b_graph b) 0 = Some c \<and>
    ss_tasks c = [0, 1, 2] \<and> ss_tasks_id c = [0, 1, 2]"
  by (simp add: init_graph_def init_first_def numeral_3_eq_3 start_build_def visit_simps)

end
