(* ===== verification/Sequence_Nocopy.thy ===== *)
theory Sequence_Nocopy
  imports Sequences Tasks
begin

text \<open>
  The mode without copies (\<^verbatim>\<open>Sequence::gen_processes\<close> and \<^verbatim>\<open>reset_no_copy_mode\<close>): around a \<^verbatim>\<open>select\<close>, a
  \<^verbatim>\<open>commute\<close> or a task of an adaptor, the data pointers of the sockets are redirected instead of copying the
  data. \<open>gen_processes\<close> saves the pointers of the sockets that may be redirected, \<open>reset_no_copy_mode\<close> puts
  them back.

  The state is the store and the rest of the program \<open>'x\<close>; \<open>nc_env\<close> says what the switchers and the adaptors
  do with it. The result of a process is the first element of the status.
\<close>

section \<open>What the processes ask of the modules\<close>

datatype nc_flag = Copy_select | Copy_commute | Copy_pull | Copy_push

record 'x nc_env =
  nc_switcher :: "mid \<Rightarrow> bool"
  nc_adaptor :: "mid \<Rightarrow> bool"
  nc_exec :: "tid \<Rightarrow> world \<times> 'x \<Rightarrow> (world \<times> 'x, int) outcome"
  nc_set :: "nc_flag \<Rightarrow> bool \<Rightarrow> mid \<Rightarrow> 'x \<Rightarrow> 'x"
  nc_path :: "mid \<Rightarrow> 'x \<Rightarrow> nat"
  nc_filled :: "mid \<Rightarrow> nat \<Rightarrow> ptr \<Rightarrow> 'x \<Rightarrow> ptr \<times> 'x"
  nc_empty :: "mid \<Rightarrow> nat \<Rightarrow> ptr \<Rightarrow> 'x \<Rightarrow> ptr \<times> 'x"
  nc_wake_pusher :: "mid \<Rightarrow> 'x \<Rightarrow> 'x"
  nc_wake_puller :: "mid \<Rightarrow> 'x \<Rightarrow> 'x"
  nc_reset_buffer :: "mid \<Rightarrow> 'x \<Rightarrow> 'x"

definition contains_str :: "string \<Rightarrow> string \<Rightarrow> bool" where
  "contains_str sub s \<longleftrightarrow> list_ex (\<lambda>k. take (length sub) (drop k s) = sub) [0..<Suc (length s)]"

definition of_kind :: "'x nc_env \<Rightarrow> nc_flag \<Rightarrow> world \<Rightarrow> tid \<Rightarrow> bool" where
  "of_kind E k w t \<longleftrightarrow> (let m = t_module (tsks w t); name = t_name (tsks w t) in
     case k of Copy_select \<Rightarrow> nc_switcher E m \<and> contains_str ''select'' name
     | Copy_commute \<Rightarrow> nc_switcher E m \<and> contains_str ''commute'' name
     | Copy_pull \<Rightarrow> nc_adaptor E m \<and> contains_str ''pull'' name
     | Copy_push \<Rightarrow> nc_adaptor E m \<and> contains_str ''push'' name)"

section \<open>The sockets that share a buffer\<close>

text \<open>The fuel bounds the length of a chain of forward sockets; the number of sockets is enough.\<close>

fun explore :: "nat \<Rightarrow> world \<Rightarrow> sid \<Rightarrow> sid list \<Rightarrow> (sid list, unit) outcome" where
  "explore 0 w i l = (Inl UB, l)"
| "explore (Suc k) w i l = foreach (\<lambda>j l.
     let l1 = (if j \<notin> set l \<and> s_type (socks w j) \<noteq> SOUT then l @ [j] else l) in
     if s_type (socks w j) = SFWD then explore k w j l1 else (Inr (), l1)) (s_bound_sockets (socks w i)) l"

fun explore_reverse :: "nat \<Rightarrow> world \<Rightarrow> sid \<Rightarrow> sid list \<Rightarrow> (sid list, unit) outcome" where
  "explore_reverse 0 w i l = (Inl UB, l)"
| "explore_reverse (Suc k) w i l = (case get_bound_socket i w of Inl e \<Rightarrow> (Inl e, l)
     | Inr b \<Rightarrow> let l1 = (if b \<notin> set l then l @ [b] else l) in
         if s_type (socks w b) = SFWD
         then bindo (explore (Suc (next_sock w)) w b l1) (\<lambda>_. explore_reverse k w b)
         else (Inr (), l1))"

definition fuel_of :: "world \<Rightarrow> nat" where
  "fuel_of w = Suc (next_sock w)"

definition listed :: "world \<Rightarrow> sid \<Rightarrow> sid list \<Rightarrow> (sid list, unit) outcome" where
  "listed w i l = foreach (\<lambda>j l. if s_type (socks w j) = SFWD then explore (fuel_of w) w j (l @ [j]) else (Inr (), l @ [j]))
     (s_bound_sockets (socks w i)) l"

text \<open>The lists of a task, one per output (per input for a push).\<close>

definition list_for :: "nc_flag \<Rightarrow> world \<Rightarrow> sid \<Rightarrow> (sid list, unit) outcome" where
  "list_for k w i = (case k of
     Copy_pull \<Rightarrow> listed w i [i]
   | Copy_push \<Rightarrow> (case get_bound_socket i w of Inl e \<Rightarrow> (Inl e, [i])
       | Inr b \<Rightarrow> bindo (explore (fuel_of w) w b [i, b]) (\<lambda>_ l.
           if s_type (socks w b) = SFWD then explore_reverse (fuel_of w) w b l else (Inr (), l)))
   | _ \<Rightarrow> listed w i [])"

definition relevant :: "nc_flag \<Rightarrow> world \<Rightarrow> sid \<Rightarrow> bool" where
  "relevant k w i \<longleftrightarrow> s_type (socks w i) = (if k = Copy_push then SIN else SOUT)"

definition one_list :: "nc_flag \<Rightarrow> world \<Rightarrow> sid \<Rightarrow> sid list list \<Rightarrow> (sid list list, unit) outcome" where
  "one_list k w i ls = (if relevant k w i
     then (case list_for k w i of (Inl e, _) \<Rightarrow> (Inl e, ls) | (Inr _, l) \<Rightarrow> (Inr (), ls @ [l]))
     else (Inr (), ls))"

definition lists_for :: "nc_flag \<Rightarrow> world \<Rightarrow> tid \<Rightarrow> (sid list list, unit) outcome" where
  "lists_for k w t = (if t_sockets (tsks w t) = [] then (Inl UB, [])
     else foreach (one_list k w) (butlast (t_sockets (tsks w t))) [])"

section \<open>Generation\<close>

text \<open>
  A process is a task with, in the mode without copies, its kind and the index of its lists in the node. A task
  whose name matches several kinds has the last one, and lists for each.
\<close>

datatype process = Plain tid | Redirect nc_flag tid nat

text \<open>
  One kind of one task: the flag of the module, the lists and the pointers they hold. After an exception the
  lists that were complete stay in the node, and the process of the task is not changed.
\<close>

definition gen_kind :: "'x nc_env \<Rightarrow> nc_flag \<Rightarrow> tid \<Rightarrow> (process \<times> subseq) \<times> world \<times> 'x \<Rightarrow>
    ((process \<times> subseq) \<times> world \<times> 'x, unit) outcome" where
  "gen_kind E k t v = (case v of ((p, c), (w, x)) \<Rightarrow>
     if of_kind E k w t
     then (let x1 = nc_set E k True (t_module (tsks w t)) x in
       case lists_for k w t of (r, ls) \<Rightarrow>
         (r, (((if r = Inr () then Redirect k t (length (ss_rebind_sockets c)) else p),
           c\<lparr>ss_rebind_sockets := ss_rebind_sockets c @ [ls],
             ss_rebind_dataptrs := ss_rebind_dataptrs c @ [map (map (\<lambda>i. s_dataptr (socks w i))) ls]\<rparr>), (w, x1))))
     else (Inr (), v))"

definition gen_task :: "'x nc_env \<Rightarrow> bool \<Rightarrow> tid \<Rightarrow> (process list \<times> subseq) \<times> world \<times> 'x \<Rightarrow>
    ((process list \<times> subseq) \<times> world \<times> 'x, unit) outcome" where
  "gen_task E no_copy t v = (case v of ((ps, c), s) \<Rightarrow>
     if no_copy
     then (case foreach (\<lambda>k. gen_kind E k t) [Copy_select, Copy_commute, Copy_pull, Copy_push] ((Plain t, c), s) of
         (r, ((p, c1), s1)) \<Rightarrow> (r, ((ps @ [p], c1), s1)))
     else (Inr (), ((ps @ [Plain t], c), s)))"

text \<open>One node: \<open>procs\<close> are the processes of the nodes.\<close>

record 'x nc_state =
  ns_graph :: "subseq graph"
  ns_procs :: "nat \<Rightarrow> process list"
  ns_world :: world
  ns_rest :: 'x

definition gen_node :: "'x nc_env \<Rightarrow> bool \<Rightarrow> nat \<Rightarrow> 'x nc_state \<Rightarrow> ('x nc_state, unit) outcome" where
  "gen_node E no_copy n s = (case contents_of (ns_graph s) n of None \<Rightarrow> (Inl UB, s)
     | Some c \<Rightarrow> (case foreach (gen_task E no_copy) (ss_tasks c)
           (([], c\<lparr>ss_rebind_sockets := [], ss_rebind_dataptrs := []\<rparr>), (ns_world s, ns_rest s)) of
         (r, ((ps, c1), (w, x))) \<Rightarrow> (r, s\<lparr>ns_graph := set_contents n (Some c1) (ns_graph s),
             ns_procs := (ns_procs s)(n := if r = Inr () then ps else []), ns_world := w, ns_rest := x\<rparr>)))"

text \<open>One traversal per thread; the actions do not change the links of the graph.\<close>

definition over_roots :: "subseq graph \<Rightarrow> (nat \<Rightarrow> 's \<Rightarrow> ('s, unit) outcome) \<Rightarrow> nat list \<Rightarrow> 's \<Rightarrow> ('s, unit) outcome" where
  "over_roots G act roots s = foreach (\<lambda>r s. case dfs (seq_fuel G) act (children_of G) r ([], s) of (q, (_, s')) \<Rightarrow> (q, s')) roots s"

definition gen_processes :: "'x nc_env \<Rightarrow> bool \<Rightarrow> nat list \<Rightarrow> 'x nc_state \<Rightarrow> ('x nc_state, unit) outcome" where
  "gen_processes E no_copy roots s = over_roots (ns_graph s) (gen_node E no_copy) roots s"

section \<open>Processes\<close>

text \<open>The sequence writes the member itself (it is a friend of the class), without the checks of the setters.\<close>

definition assign_dataptr :: "sid \<Rightarrow> ptr \<Rightarrow> world \<Rightarrow> world" where
  "assign_dataptr i p = upd_sck i (\<lambda>s. s\<lparr>s_dataptr := p\<rparr>)"

definition redirect :: "ptr \<Rightarrow> sid list \<Rightarrow> world \<Rightarrow> world" where
  "redirect p l w = foldl (\<lambda>w i. assign_dataptr i p w) w l"

text \<open>The lists of a pull or a push: the second socket gets the buffer for the one it had, the others the same.\<close>

fun swap_lists :: "(nat \<Rightarrow> ptr \<Rightarrow> 'x \<Rightarrow> ptr \<times> 'x) \<Rightarrow> bool \<Rightarrow> nat \<Rightarrow> sid list list \<Rightarrow> world \<times> 'x \<Rightarrow> (world \<times> 'x, unit) outcome" where
  "swap_lists buf lazy k [] v = (Inr (), v)"
| "swap_lists buf lazy k (l # ls) (w, x) =
     (if length l > 1
      then (case buf k (s_dataptr (socks w (l ! 1))) x of (p, x1) \<Rightarrow>
         swap_lists buf lazy (Suc k) ls (redirect p (tl l) w, x1))
      else if lazy then swap_lists buf lazy (Suc k) ls (w, x) else (Inl UB, (w, x)))"

definition run_process :: "'x nc_env \<Rightarrow> subseq \<Rightarrow> process \<Rightarrow> world \<times> 'x \<Rightarrow> (world \<times> 'x, int) outcome" where
  "run_process E c p v = (case p of
     Plain t \<Rightarrow> nc_exec E t v
   | Redirect k t r \<Rightarrow> bindo (nc_exec E t v) (\<lambda>status v1. case v1 of (w, x) \<Rightarrow>
       let m = t_module (tsks w t); scks = t_sockets (tsks w t) in
       if r \<ge> length (ss_rebind_sockets c) then (Inl UB, v1)
       else let ls = ss_rebind_sockets c ! r in
         case k of
           Copy_select \<Rightarrow> (if nc_path E m x < length scks
             then (Inr status, (redirect (s_dataptr (socks w (scks ! nc_path E m x))) (concat ls) w, x)) else (Inl UB, v1))
         | Copy_commute \<Rightarrow> (if scks \<noteq> [] \<and> nc_path E m x < length ls
             then (Inr status, (redirect (s_dataptr (socks w (hd scks))) (ls ! nc_path E m x) w, x)) else (Inl UB, v1))
         | Copy_pull \<Rightarrow> bindo (swap_lists (nc_filled E m) True 0 ls v1) (\<lambda>_ v2. (Inr status, (fst v2, nc_wake_pusher E m (snd v2))))
         | Copy_push \<Rightarrow> bindo (swap_lists (nc_empty E m) False 0 ls v1) (\<lambda>_ v2. (Inr status, (fst v2, nc_wake_puller E m (snd v2))))))"

section \<open>Reset\<close>

definition reset_kind :: "'x nc_env \<Rightarrow> world \<Rightarrow> tid \<Rightarrow> nc_flag \<Rightarrow> 'x \<Rightarrow> 'x" where
  "reset_kind E w t k x = (if of_kind E k w t
     then (let x1 = nc_set E k False (t_module (tsks w t)) x in
       if k = Copy_pull \<or> k = Copy_push then nc_reset_buffer E (t_module (tsks w t)) x1 else x1)
     else x)"

text \<open>The saved pointers, in the order of the lists.\<close>

fun saved_pairs :: "sid list list list \<Rightarrow> ptr list list list \<Rightarrow> (sid \<times> ptr) list" where
  "saved_pairs (iss # isss) (pss # psss) = zip (concat iss) (concat pss) @ saved_pairs isss psss"
| "saved_pairs _ _ = []"

definition put_back :: "(sid \<times> ptr) list \<Rightarrow> world \<Rightarrow> world" where
  "put_back l w = foldl (\<lambda>w (i, p). assign_dataptr i p w) w l"

definition reset_node :: "'x nc_env \<Rightarrow> nat \<Rightarrow> 'x nc_state \<Rightarrow> ('x nc_state, unit) outcome" where
  "reset_node E n s = (case contents_of (ns_graph s) n of None \<Rightarrow> (Inl UB, s)
     | Some c \<Rightarrow> (Inr (), s\<lparr>
         ns_rest := foldl (\<lambda>x t. foldl (\<lambda>x k. reset_kind E (ns_world s) t k x) x
           [Copy_select, Copy_commute, Copy_pull, Copy_push]) (ns_rest s) (ss_tasks c),
         ns_world := put_back (saved_pairs (ss_rebind_sockets c) (ss_rebind_dataptrs c)) (ns_world s)\<rparr>))"

definition reset_no_copy_mode :: "'x nc_env \<Rightarrow> nat list \<Rightarrow> 'x nc_state \<Rightarrow> ('x nc_state, unit) outcome" where
  "reset_no_copy_mode E roots s = over_roots (ns_graph s) (reset_node E) roots s"

text \<open>
  What the threads do between the two: any processes of the nodes, in any order, whether they throw or not.
\<close>

fun run_any :: "'x nc_env \<Rightarrow> (nat \<times> process) list \<Rightarrow> 'x nc_state \<Rightarrow> 'x nc_state" where
  "run_any E [] s = s"
| "run_any E ((n, p) # ps) s = run_any E ps (case contents_of (ns_graph s) n of None \<Rightarrow> s
     | Some c \<Rightarrow> (case snd (run_process E c p (ns_world s, ns_rest s)) of (w, x) \<Rightarrow> s\<lparr>ns_world := w, ns_rest := x\<rparr>))"

section \<open>A traversal and the nodes it visits\<close>

abbreviation skip_act :: "nat \<Rightarrow> unit \<Rightarrow> (unit, unit) outcome" where
  "skip_act n s \<equiv> (Inr (), s)"

lemma foreach_grows:
  fixes v :: "'a list \<times> 'b"
  assumes "\<And>c v. \<exists>new. fst (snd (f c v)) = fst v @ new"
  shows "\<exists>new. fst (snd (foreach f cs v)) = fst v @ new"
proof (rule foreach_invariant [where P = "\<lambda>w. \<exists>new. fst w = fst v @ new"])
  fix c and w :: "'a list \<times> 'b"
  assume "\<exists>new. fst w = fst v @ new"
  then show "\<exists>new. fst (snd (f c w)) = fst v @ new" using assms [of c w] by (metis append_assoc)
qed simp

lemma dfs_grows: "\<exists>new. fst (snd (dfs k act ch n v)) = fst v @ new"
proof (induction k arbitrary: n v)
  case (Suc k)
  obtain vis s where v: "v = (vis, s)" by fastforce
  have "\<exists>new. fst (snd (foreach (dfs k act ch) (ch n) (vis @ [n], s'))) = vis @ new" for s'
    using foreach_grows [of "dfs k act ch" "ch n" "(vis @ [n], s')"] Suc by auto
  then show ?case by (auto simp: v split: prod.splits sum.splits)
qed simp

lemma foreach_dfs_grows: "\<exists>new. fst (snd (foreach (dfs k act ch) cs v)) = fst v @ new"
  by (rule foreach_grows [OF dfs_grows])

lemma foreach_dfs_iff:
  assumes step: "\<And>n vis s vis' s'. (dfs k act ch n (vis, s) = (Inr (), (vis', s'))) =
    (\<exists>new. vis' = vis @ new \<and> dfs k skip_act ch n (vis, ()) = (Inr (), (vis', ())) \<and> foreach act new s = (Inr (), s'))"
  shows "(foreach (dfs k act ch) cs (vis, s) = (Inr (), (vis', s'))) =
    (\<exists>new. vis' = vis @ new \<and> foreach (dfs k skip_act ch) cs (vis, ()) = (Inr (), (vis', ())) \<and> foreach act new s = (Inr (), s'))"
proof (induction cs arbitrary: vis s)
  case Nil
  then show ?case by auto
next
  case (Cons c cs)
  show ?case
  proof
    assume "foreach (dfs k act ch) (c # cs) (vis, s) = (Inr (), (vis', s'))"
    then obtain vis1 s1 where 1: "dfs k act ch c (vis, s) = (Inr (), (vis1, s1))"
      and 2: "foreach (dfs k act ch) cs (vis1, s1) = (Inr (), (vis', s'))" by (auto elim!: bindo_InrD)
    from 1 step obtain n1 where n1: "vis1 = vis @ n1" "dfs k skip_act ch c (vis, ()) = (Inr (), (vis1, ()))"
      "foreach act n1 s = (Inr (), s1)" by blast
    from 2 Cons.IH obtain n2 where n2: "vis' = vis1 @ n2" "foreach (dfs k skip_act ch) cs (vis1, ()) = (Inr (), (vis', ()))"
      "foreach act n2 s1 = (Inr (), s')" by blast
    show "\<exists>new. vis' = vis @ new \<and> foreach (dfs k skip_act ch) (c # cs) (vis, ()) = (Inr (), (vis', ())) \<and>
        foreach act new s = (Inr (), s')"
      using n1 n2 by (intro exI [of _ "n1 @ n2"]) (simp add: foreach_append)
  next
    assume "\<exists>new. vis' = vis @ new \<and> foreach (dfs k skip_act ch) (c # cs) (vis, ()) = (Inr (), (vis', ())) \<and>
        foreach act new s = (Inr (), s')"
    then obtain new vis1 where new: "vis' = vis @ new" "dfs k skip_act ch c (vis, ()) = (Inr (), (vis1, ()))"
      "foreach (dfs k skip_act ch) cs (vis1, ()) = (Inr (), (vis', ()))" "foreach act new s = (Inr (), s')"
      by (auto elim!: bindo_InrD)
    obtain n1 where n1: "vis1 = vis @ n1" using dfs_grows [of k skip_act ch c "(vis, ())"] new(2) by auto
    obtain n2 where n2: "vis' = vis1 @ n2" using foreach_dfs_grows [of k skip_act ch cs "(vis1, ())"] new(3) by auto
    have "new = n1 @ n2" using new(1) n1 n2 by simp
    with new(4) obtain s1 where s1: "foreach act n1 s = (Inr (), s1)" "foreach act n2 s1 = (Inr (), s')"
      by (auto simp: foreach_append elim!: bindo_InrD)
    have "dfs k act ch c (vis, s) = (Inr (), (vis1, s1))" using step new(2) n1 s1(1) by blast
    moreover have "foreach (dfs k act ch) cs (vis1, s1) = (Inr (), (vis', s'))" using Cons.IH new(3) n2 s1(2) by blast
    ultimately show "foreach (dfs k act ch) (c # cs) (vis, s) = (Inr (), (vis', s'))" by simp
  qed
qed

text \<open>
  A traversal succeeds exactly when the traversal without an action does and the action succeeds on the nodes it
  visits, in order: the action has no influence on the nodes.
\<close>

lemma dfs_iff:
  "(dfs k act ch n (vis, s) = (Inr (), (vis', s'))) \<longleftrightarrow>
    (\<exists>new. vis' = vis @ new \<and> dfs k skip_act ch n (vis, ()) = (Inr (), (vis', ())) \<and> foreach act new s = (Inr (), s'))"
proof (induction k arbitrary: n vis s vis' s')
  case (Suc k)
  show ?case
  proof (cases "n \<in> set vis")
    case False
    have "(dfs (Suc k) act ch n (vis, s) = (Inr (), (vis', s'))) \<longleftrightarrow>
      (\<exists>s1. act n s = (Inr (), s1) \<and> foreach (dfs k act ch) (ch n) (vis @ [n], s1) = (Inr (), (vis', s')))"
      using False by (auto split: prod.splits sum.splits)
    also have "\<dots> \<longleftrightarrow> (\<exists>s1 new. act n s = (Inr (), s1) \<and> vis' = (vis @ [n]) @ new \<and>
      foreach (dfs k skip_act ch) (ch n) (vis @ [n], ()) = (Inr (), (vis', ())) \<and> foreach act new s1 = (Inr (), s'))"
      by (subst foreach_dfs_iff [OF Suc.IH]) auto
    also have "\<dots> \<longleftrightarrow> (\<exists>new. vis' = vis @ new \<and> dfs (Suc k) skip_act ch n (vis, ()) = (Inr (), (vis', ())) \<and>
      foreach act new s = (Inr (), s'))" (is "?l \<longleftrightarrow> ?r")
    proof
      assume ?l
      then obtain s1 new where "act n s = (Inr (), s1)" "vis' = (vis @ [n]) @ new"
        "foreach (dfs k skip_act ch) (ch n) (vis @ [n], ()) = (Inr (), (vis', ()))" "foreach act new s1 = (Inr (), s')" by blast
      then show ?r using False by (intro exI [of _ "n # new"]) simp
    next
      assume ?r
      then obtain new where new: "vis' = vis @ new" "dfs (Suc k) skip_act ch n (vis, ()) = (Inr (), (vis', ()))"
        "foreach act new s = (Inr (), s')" by blast
      from new(2) False have *: "foreach (dfs k skip_act ch) (ch n) (vis @ [n], ()) = (Inr (), (vis', ()))" by simp
      then obtain n2 where "vis' = (vis @ [n]) @ n2" using foreach_dfs_grows [of k skip_act ch "ch n" "(vis @ [n], ())"] by auto
      with new * show ?l by (auto elim!: bindo_InrD)
    qed
    finally show ?thesis .
  qed auto
qed simp

lemma over_roots_iff:
  "(over_roots G act roots s = (Inr (), s')) \<longleftrightarrow>
    (\<exists>viss. list_all2 (\<lambda>r vis. dfs (seq_fuel G) skip_act (children_of G) r ([], ()) = (Inr (), (vis, ()))) roots viss \<and>
      foreach act (concat viss) s = (Inr (), s'))" (is "_ \<longleftrightarrow> (\<exists>viss. ?all roots viss \<and> _)")
proof (induction roots arbitrary: s)
  case Nil
  then show ?case by (auto simp: over_roots_def)
next
  case (Cons r roots)
  have head: "(dfs (seq_fuel G) act (children_of G) r ([], s) = (Inr (), (vis, s1))) \<longleftrightarrow>
      dfs (seq_fuel G) skip_act (children_of G) r ([], ()) = (Inr (), (vis, ())) \<and> foreach act vis s = (Inr (), s1)" for vis s1
    by (subst dfs_iff) auto
  have "(over_roots G act (r # roots) s = (Inr (), s')) \<longleftrightarrow>
      (\<exists>vis s1. dfs (seq_fuel G) act (children_of G) r ([], s) = (Inr (), (vis, s1)) \<and> over_roots G act roots s1 = (Inr (), s'))"
    by (auto simp: over_roots_def split: prod.splits elim!: bindo_InrD)
  also have "\<dots> \<longleftrightarrow> (\<exists>vis viss. ?all (r # roots) (vis # viss) \<and> foreach act (concat (vis # viss)) s = (Inr (), s'))"
    unfolding Cons.IH head by (auto simp: foreach_append elim!: bindo_InrD)
  also have "\<dots> \<longleftrightarrow> (\<exists>viss. ?all (r # roots) viss \<and> foreach act (concat viss) s = (Inr (), s'))"
    by (auto simp: list_all2_Cons1) (metis concat.simps(2))
  finally show ?case .
qed

section \<open>Saved pointers\<close>

abbreviation dptr :: "world \<Rightarrow> sid \<Rightarrow> ptr" where
  "dptr w i \<equiv> s_dataptr (socks w i)"

definition saves :: "(sid \<Rightarrow> ptr) \<Rightarrow> subseq \<Rightarrow> bool" where
  "saves D c \<longleftrightarrow> ss_rebind_dataptrs c = map (map (map D)) (ss_rebind_sockets c)"

definition redirected :: "subseq \<Rightarrow> sid set" where
  "redirected c = set (concat (concat (ss_rebind_sockets c)))"

lemma dptr_assign [simp]: "dptr (assign_dataptr i p w) j = (if j = i then p else dptr w j)"
  by (simp add: assign_dataptr_def)

lemma saved_pairs_saves: "saved_pairs iss (map (map (map D)) iss) = map (\<lambda>i. (i, D i)) (concat (concat iss))"
  by (induction iss) (simp_all add: map_concat [symmetric] zip_map2 zip_same_conv_map)

lemma put_back_saves: "dptr (put_back (map (\<lambda>i. (i, D i)) l) w) j = (if j \<in> set l then D j else dptr w j)"
  unfolding put_back_def by (induction l arbitrary: w) auto

lemma gen_kind_saves:
  assumes "saves (dptr w) c" and "gen_kind E k t ((p, c), (w, x)) = (r, ((p', c'), (w', x')))"
  shows "saves (dptr w) c' \<and> w' = w"
  using assms by (auto simp: gen_kind_def saves_def Let_def split: if_splits prod.splits)

lemma gen_task_saves:
  assumes "saves (dptr w) c"
  shows "saves (dptr w) (snd (fst (snd (gen_task E b t ((ps, c), (w, x :: 'a)))))) \<and>
    fst (snd (snd (gen_task E b t ((ps, c), (w, x))))) = w"
proof (cases b)
  case True
  let ?P = "\<lambda>v :: (process \<times> subseq) \<times> world \<times> 'a. saves (dptr w) (snd (fst v)) \<and> fst (snd v) = w"
  have "?P (snd (foreach (\<lambda>k. gen_kind E k t) ks ((p, c), (w, x))))" for ks p
  proof (rule foreach_invariant [where P = ?P])
    fix k v
    assume "?P v"
    then show "?P (snd (gen_kind E k t v))"
      by (cases v; cases "fst v"; cases "snd v"; cases "gen_kind E k t v") (auto dest: gen_kind_saves)
  qed (use assms in simp)
  from this [of "[Copy_select, Copy_commute, Copy_pull, Copy_push]" "Plain t"] True show ?thesis
    by (auto simp: gen_task_def simp del: foreach.simps split: prod.splits)
qed (use assms in \<open>simp add: gen_task_def\<close>)

lemma gen_node_saves:
  assumes "gen_node E b n s = (Inr (), s')"
  shows "\<exists>c c' ps. contents_of (ns_graph s) n = Some c \<and> saves (dptr (ns_world s)) c' \<and>
    ns_graph s' = set_contents n (Some c') (ns_graph s) \<and> ns_procs s' = (ns_procs s)(n := ps) \<and> ns_world s' = ns_world s"
proof -
  let ?D = "dptr (ns_world s)"
  let ?P = "\<lambda>v :: (process list \<times> subseq) \<times> world \<times> 'a. saves ?D (snd (fst v)) \<and> fst (snd v) = ns_world s"
  obtain c where c: "contents_of (ns_graph s) n = Some c" using assms by (auto simp: gen_node_def split: option.splits)
  let ?v = "(([], c\<lparr>ss_rebind_sockets := [], ss_rebind_dataptrs := []\<rparr>), (ns_world s, ns_rest s))"
  have "?P (snd (foreach (gen_task E b) (ss_tasks c) ?v))"
  proof (rule foreach_invariant [where P = ?P])
    fix t and v :: "(process list \<times> subseq) \<times> world \<times> 'a"
    obtain ps c w x where v: "v = ((ps, c), (w, x))" by (metis surj_pair)
    assume "?P v"
    then show "?P (snd (gen_task E b t v))" using gen_task_saves [of w c E b t ps x] by (simp add: v)
  qed (simp add: saves_def)
  then obtain r ps c' x where run: "foreach (gen_task E b) (ss_tasks c) ?v = (r, ((ps, c'), (ns_world s, x)))"
    and c': "saves ?D c'" by (metis prod.collapse)
  with assms c have "s' = s\<lparr>ns_graph := set_contents n (Some c') (ns_graph s), ns_procs := (ns_procs s)(n := ps),
      ns_world := ns_world s, ns_rest := x\<rparr>" by (auto simp: gen_node_def)
  with c c' show ?thesis by auto
qed

lemma gen_nodes_save:
  assumes "foreach (gen_node E b) ns s = (Inr (), s')"
  shows "ns_world s' = ns_world s \<and>
    (\<forall>n \<in> set ns. \<exists>c. contents_of (ns_graph s') n = Some c \<and> saves (dptr (ns_world s)) c) \<and>
    (\<forall>n. n \<notin> set ns \<longrightarrow> contents_of (ns_graph s') n = contents_of (ns_graph s) n \<and> ns_procs s' n = ns_procs s n) \<and>
    (\<forall>n. children_of (ns_graph s') n = children_of (ns_graph s) n) \<and> g_next (ns_graph s') = g_next (ns_graph s)"
  using assms
proof (induction ns arbitrary: s)
  case (Cons n ns)
  then obtain s1 where 1: "gen_node E b n s = (Inr (), s1)" and 2: "foreach (gen_node E b) ns s1 = (Inr (), s')"
    by (auto elim!: bindo_InrD)
  from gen_node_saves [OF 1] obtain c' ps where "saves (dptr (ns_world s)) c'"
    "ns_graph s1 = set_contents n (Some c') (ns_graph s)" "ns_procs s1 = (ns_procs s)(n := ps)" "ns_world s1 = ns_world s" by blast
  with Cons.IH [OF 2] show ?case by (cases "n \<in> set ns") (auto simp: set_contents_def)
qed simp

section \<open>The pointers come back\<close>

text \<open>A pointer is settled when it is the one of the generation, or when its socket is in the lists of a node.\<close>

definition moved_in :: "(sid \<Rightarrow> ptr) \<Rightarrow> subseq graph \<Rightarrow> nat set \<Rightarrow> world \<Rightarrow> bool" where
  "moved_in D G N w \<longleftrightarrow> (\<forall>i. dptr w i \<noteq> D i \<longrightarrow> (\<exists>n c. n \<in> N \<and> contents_of G n = Some c \<and> i \<in> redirected c))"

lemma redirect_moved:
  assumes "moved_in D G N w" and "n \<in> N" and "contents_of G n = Some c" and "set l \<subseteq> redirected c"
  shows "moved_in D G N (redirect p l w)"
  using assms(1,4) unfolding redirect_def
proof (induction l arbitrary: w)
  case (Cons i l)
  have "moved_in D G N (assign_dataptr i p w)" using Cons.prems assms(2,3) by (auto simp: moved_in_def)
  with Cons show ?case by simp
qed simp

lemma swap_lists_moved:
  assumes "n \<in> N" and "contents_of G n = Some c"
  shows "(\<forall>l \<in> set ls. set l \<subseteq> redirected c) \<Longrightarrow> moved_in D G N (fst v) \<Longrightarrow>
    moved_in D G N (fst (snd (swap_lists buf lazy k ls v)))"
proof (induction buf lazy k ls v rule: swap_lists.induct)
  case (2 buf lazy k l ls w x)
  have "set (tl l) \<subseteq> redirected c" using 2(3) by (cases l) auto
  then have "moved_in D G N (redirect p (tl l) w)" for p using redirect_moved [of D G N w n c] 2(4) assms by simp
  with 2 show ?case by (auto simp del: One_nat_def split: prod.splits)
qed simp

lemma listed_redirected: "r < length (ss_rebind_sockets c) \<Longrightarrow> l \<in> set (ss_rebind_sockets c ! r) \<Longrightarrow> set l \<subseteq> redirected c"
  unfolding redirected_def by (auto dest!: nth_mem)

lemma run_process_moved:
  assumes exec: "\<And>t v i. dptr (fst (snd (nc_exec E t v))) i = dptr (fst v) i"
    and node: "n \<in> N" "contents_of G n = Some c" and "moved_in D G N (fst v)"
  shows "moved_in D G N (fst (snd (run_process E c p v)))"
proof (cases p)
  case (Plain t)
  then show ?thesis using assms by (simp add: run_process_def moved_in_def)
next
  case (Redirect k t r)
  obtain q w x where ex: "nc_exec E t v = (q, (w, x))" by (metis surj_pair)
  with exec [of t v] assms(4) have w: "moved_in D G N w" by (simp add: moved_in_def)
  show ?thesis
  proof (cases q)
    case (Inr status)
    show ?thesis
    proof (cases "r < length (ss_rebind_sockets c)")
      case True
      let ?ls = "ss_rebind_sockets c ! r"
      have all: "\<forall>l \<in> set ?ls. set l \<subseteq> redirected c" using listed_redirected [OF True] by blast
      then have cat: "set (concat ?ls) \<subseteq> redirected c" by auto
      have swap: "moved_in D G N (fst (snd (swap_lists buf lazy 0 ?ls (w, x))))" for buf lazy
        using swap_lists_moved [OF node all, where v = "(w, x)"] w by simp
      show ?thesis
      proof (cases k)
        case Copy_select
        then show ?thesis using Redirect ex Inr True w redirect_moved [OF w node cat]
          by (simp add: run_process_def Let_def)
      next
        case Copy_commute
        have "moved_in D G N (redirect p (?ls ! path) w)" if "path < length ?ls" for path p
          by (rule redirect_moved [OF w node]) (use all that nth_mem in blast)
        then show ?thesis using Copy_commute Redirect ex Inr True w by (simp add: run_process_def Let_def)
      next
        case Copy_pull
        then show ?thesis using Redirect ex Inr True swap [of "nc_filled E (t_module (tsks w t))" True]
          by (auto simp: run_process_def Let_def split: bindo_split)
      next
        case Copy_push
        then show ?thesis using Redirect ex Inr True swap [of "nc_empty E (t_module (tsks w t))" False]
          by (auto simp: run_process_def Let_def split: bindo_split)
      qed
    qed (use Redirect ex Inr w in \<open>simp add: run_process_def Let_def\<close>)
  qed (use Redirect ex w in \<open>simp add: run_process_def\<close>)
qed

lemma run_any_moved:
  assumes exec: "\<And>t v i. dptr (fst (snd (nc_exec E t v))) i = dptr (fst v) i"
    and "\<forall>(n, p) \<in> set ps. n \<in> N" and "moved_in D (ns_graph s) N (ns_world s)"
  shows "moved_in D (ns_graph s) N (ns_world (run_any E ps s)) \<and> ns_graph (run_any E ps s) = ns_graph s"
  using assms(2,3)
proof (induction ps arbitrary: s)
  case (Cons np ps)
  obtain n p where np: "np = (n, p)" by fastforce
  show ?case
  proof (cases "contents_of (ns_graph s) n")
    case (Some c)
    obtain q w x where run: "run_process E c p (ns_world s, ns_rest s) = (q, (w, x))" by (metis surj_pair)
    have "moved_in D (ns_graph s) N w"
      using run_process_moved [OF exec _ Some, where N = N and D = D and p = p and v = "(ns_world s, ns_rest s)"] Cons.prems np run by simp
    with Cons.IH [of "s\<lparr>ns_world := w, ns_rest := x\<rparr>"] Cons.prems(1) np Some run show ?thesis by simp
  qed (use Cons np in auto)
qed simp

lemma reset_node_settles:
  assumes "contents_of (ns_graph s) n = Some c" and "saves D c"
  shows "\<exists>s'. reset_node E n s = (Inr (), s') \<and> ns_graph s' = ns_graph s \<and>
    (\<forall>i. dptr (ns_world s') i = (if i \<in> redirected c then D i else dptr (ns_world s) i))"
  using assms by (auto simp: reset_node_def saves_def saved_pairs_saves put_back_saves redirected_def)

lemma reset_nodes_settle:
  assumes "\<forall>n \<in> set ns. \<exists>c. contents_of (ns_graph s) n = Some c \<and> saves D c"
    and "moved_in D (ns_graph s) (N \<union> set ns) (ns_world s)"
  shows "\<exists>s'. foreach (reset_node E) ns s = (Inr (), s') \<and> ns_graph s' = ns_graph s \<and> moved_in D (ns_graph s) N (ns_world s')"
  using assms
proof (induction ns arbitrary: s)
  case (Cons n ns)
  then obtain c where c: "contents_of (ns_graph s) n = Some c" "saves D c" by auto
  from reset_node_settles [OF c] obtain s1 where s1: "reset_node E n s = (Inr (), s1)" "ns_graph s1 = ns_graph s"
    "\<forall>i. dptr (ns_world s1) i = (if i \<in> redirected c then D i else dptr (ns_world s) i)" by blast
  have "moved_in D (ns_graph s1) (N \<union> set ns) (ns_world s1)"
    using Cons.prems(2) s1 c(1) unfolding moved_in_def by (auto split: if_splits) (metis option.inject)
  with Cons.IH [of s1] Cons.prems(1) s1 show ?case by simp
qed simp


text \<open>One \<^verbatim>\<open>commute\<close> task: its input 0 takes the place of the pointer of the input 3, which reads from the output 1.\<close>

definition nc_world :: world where
  "nc_world = (blank_world (\<lambda>_. SIN) 4)\<lparr>
     socks := (\<lambda>_. blank_socket SIN)
       (0 := (blank_socket SIN)\<lparr>s_dataptr := Ptr 9 0\<rparr>, 1 := (blank_socket SOUT)\<lparr>s_bound_sockets := [3], s_dataptr := Ptr 7 0\<rparr>,
        2 := blank_socket SOUT, 3 := (blank_socket SIN)\<lparr>s_bound_socket := Some 1, s_dataptr := Ptr 7 0\<rparr>),
     tsks := (\<lambda>_. blank_task)(0 := blank_task\<lparr>t_name := ''commute'', t_sockets := [0, 1, 2]\<rparr>)\<rparr>"

definition nc_demo :: "unit nc_env" where
  "nc_demo = \<lparr>nc_switcher = (\<lambda>_. True), nc_adaptor = (\<lambda>_. False), nc_exec = (\<lambda>t v. (Inr 0, v)),
     nc_set = (\<lambda>_ _ _ x. x), nc_path = (\<lambda>_ _. 0), nc_filled = (\<lambda>_ _ p x. (p, x)), nc_empty = (\<lambda>_ _ p x. (p, x)),
     nc_wake_pusher = (\<lambda>_ x. x), nc_wake_puller = (\<lambda>_ x. x), nc_reset_buffer = (\<lambda>_ x. x)\<rparr>"

definition nc_start :: "unit nc_state" where
  "nc_start = \<lparr>ns_graph = \<lparr>g_node = (\<lambda>_. \<lparr>dn_parents = [], dn_children = [],
       dn_contents = Some (new_subseq\<lparr>ss_tasks := [0]\<rparr>), dn_depth = 0\<rparr>), g_next = 1\<rparr>,
     ns_procs = (\<lambda>_. []), ns_world = nc_world, ns_rest = ()\<rparr>"

lemmas nc_defs = nc_start_def nc_demo_def nc_world_def blank_world_def blank_socket_def blank_task_def new_subseq_def

lemma nc_gen:
  "\<exists>s1. gen_processes nc_demo True [0] nc_start = (Inr (), s1) \<and> ns_procs s1 0 = [Redirect Copy_commute 0 0] \<and>
     dptr (ns_world (run_any nc_demo [(0, Redirect Copy_commute 0 0)] s1)) 3 = Ptr 9 0"
proof -
  have "of_kind nc_demo k nc_world 0 = (k = Copy_commute)" for k
    by (cases k) (code_simp | simp add: of_kind_def nc_demo_def)+
  then show ?thesis
    by (simp add: gen_processes_def over_roots_def seq_fuel_def gen_node_def gen_task_def gen_kind_def lists_for_def
        one_list_def relevant_def list_for_def listed_def set_contents_def upd_node_def run_process_def redirect_def
        assign_dataptr_def nc_defs)
qed


end
