(* ===== verification/Sequence_Init.thy ===== *)
theory Sequence_Init
  imports Sequence_Order
begin

text \<open>
  After the construction of the graph (\<^verbatim>\<open>Sequence::_init\<close>): empty nodes between one parent and one child are
  removed, the depths are set again, the nodes are numbered, and the graph is copied for the other threads
  (\<^verbatim>\<open>replicate\<close>). The constructor on constant tasks only copies the graph.
\<close>

section \<open>Empty nodes\<close>

text \<open>The loops over the children read the vector at each turn: its length does not change.\<close>

definition min_depth :: "subseq graph \<Rightarrow> nat \<Rightarrow> nat" where
  "min_depth G n = (case map (\<lambda>p. dn_depth (g_node G p)) (parents_of G n) of [] \<Rightarrow> 0
     | d # ds \<Rightarrow> foldl min d ds + 1)"

text \<open>The parent and the child of a removed node are linked at the positions it had.\<close>

definition bypass :: "nat \<Rightarrow> nat \<Rightarrow> nat \<Rightarrow> subseq graph \<Rightarrow> (subseq graph, unit) outcome" where
  "bypass n parent child G =
     (let cpos = get_child_pos G n parent in
      if cpos = -1 then (Inl Runtime_error, G)
      else case cut_child parent (size_cast cpos) G of (ok1, G1) \<Rightarrow>
        if \<not> ok1 then (Inl Runtime_error, G1)
        else let ppos = get_parent_pos G1 n child in
          if ppos = -1 then (Inl Runtime_error, G1)
          else case cut_parent child (size_cast ppos) G1 of (ok2, G2) \<Rightarrow>
            if \<not> ok2 then (Inl Runtime_error, G2)
            else (Inr (), add_parent child parent ppos (add_child parent child cpos G2)))"

definition useless :: "subseq graph \<Rightarrow> nat \<Rightarrow> exn + bool" where
  "useless G n = (if length (parents_of G n) = 1 \<and> length (children_of G n) = 1
     then (case contents_of G n of None \<Rightarrow> Inl UB | Some c \<Rightarrow> Inr (ss_tasks c = [])) else Inr False)"

fun remove_useless :: "nat \<Rightarrow> nat \<Rightarrow> nat list \<times> nat \<times> subseq graph \<Rightarrow> (nat list \<times> nat \<times> subseq graph, unit) outcome" where
  "remove_useless 0 n (vis, root, G) = (Inl UB, (vis, root, G))"
| "remove_useless (Suc k) n (vis, root, G) =
     (if n \<in> set vis then (Inr (), (vis, root, G))
      else case (case useless G n of Inl e \<Rightarrow> (Inl e, (n, root, G))
            | Inr False \<Rightarrow> (Inr (), (n, root, G))
            | Inr True \<Rightarrow> (case bypass n (hd (parents_of G n)) (hd (children_of G n)) G of
                (Inl e, G1) \<Rightarrow> (Inl e, (n, root, G1))
              | (Inr _, G1) \<Rightarrow> (Inr (), (hd (children_of G n), (if n = root then hd (children_of G n) else root), G1)))) of
          (Inl e, (_, root1, G1)) \<Rightarrow> (Inl e, (vis, root1, G1))
        | (Inr _, (m, root1, G1)) \<Rightarrow>
            if m \<in> set vis then (Inr (), (vis, root1, G1))
            else let G2 = set_depth m (min_depth G1 m) G1 in
              foreach (\<lambda>i v. case v of (_, _, G') \<Rightarrow>
                  if i < length (children_of G' m) then remove_useless k (children_of G' m ! i) v else (Inl UB, v))
                [0..<length (children_of G2 m)] (vis @ [m], root1, G2))"

section \<open>Numbers of the nodes\<close>

text \<open>
  A \<^verbatim>\<open>select\<close> is numbered when it was met from each of its parents that are above it. The state holds the
  graph, the next number and the counts of the selects.
\<close>

record id_state =
  is_graph :: "subseq graph"
  is_ssid :: nat
  is_select_parents :: "nat \<Rightarrow> (nat \<times> nat) option"

definition upper_parents :: "subseq graph \<Rightarrow> nat \<Rightarrow> nat" where
  "upper_parents G c = length (filter (\<lambda>f. dn_depth (g_node G f) < dn_depth (g_node G c)) (parents_of G c))"

definition meet_select :: "nat \<Rightarrow> id_state \<Rightarrow> bool \<times> id_state" where
  "meet_select c s = (let (a, b) = (case is_select_parents s c of Some p \<Rightarrow> p | None \<Rightarrow> (0, upper_parents (is_graph s) c))
     in (a + 1 = b, s\<lparr>is_select_parents := (is_select_parents s)(c := Some (a + 1, b))\<rparr>))"

fun init_ss_ids :: "nat \<Rightarrow> nat \<Rightarrow> nat list \<times> id_state \<Rightarrow> (nat list \<times> id_state, unit) outcome" where
  "init_ss_ids 0 n (vis, s) = (Inl UB, (vis, s))"
| "init_ss_ids (Suc k) n (vis, s) =
     (if n \<in> set vis then (Inr (), (vis, s))
      else case contents_of (is_graph s) n of None \<Rightarrow> (Inl UB, (vis @ [n], s))
      | Some x \<Rightarrow> foreach (\<lambda>c v. case v of (vis1, s1) \<Rightarrow>
            (case contents_of (is_graph s1) c of None \<Rightarrow> (Inl UB, v)
             | Some y \<Rightarrow> if ss_type y = SELECT
                 then (case meet_select c s1 of (all, s2) \<Rightarrow>
                    if all then init_ss_ids k c (vis1, s2) else (Inr (), (vis1, s2)))
                 else init_ss_ids k c v))
          (children_of (is_graph s) n)
          (vis @ [n], s\<lparr>is_graph := set_contents n (Some (x\<lparr>ss_id := is_ssid s\<rparr>)) (is_graph s), is_ssid := is_ssid s + 1\<rparr>))"

text \<open>The modules of a graph; a \<^verbatim>\<open>std::set\<close> of pointers lists them by address.\<close>

definition collect_modules :: "world \<Rightarrow> subseq graph \<Rightarrow> nat \<Rightarrow> exn + mid list" where
  "collect_modules w G r = map_sum id (\<lambda>ts. sort (remdups (map (\<lambda>t. t_module (tsks w t)) ts))) (tasks_from G r)"

definition prepare_graph :: "nat \<Rightarrow> subseq graph \<Rightarrow> exn + (nat \<times> subseq graph)" where
  "prepare_graph root G = (case remove_useless (seq_fuel G) root ([], root, G) of
     (Inl e, _) \<Rightarrow> Inl e
   | (Inr _, (_, root1, G1)) \<Rightarrow>
       (case init_ss_ids (seq_fuel G1) root1 ([], \<lparr>is_graph = G1, is_ssid = 0, is_select_parents = (\<lambda>_. None)\<rparr>) of
          (Inl e, _) \<Rightarrow> Inl e | (Inr _, (_, s)) \<Rightarrow> Inr (root1, is_graph s)))"

section \<open>Replication\<close>

text \<open>
  The copy of a task in the clone of its module: \<open>mv\<close> are the modules of the sequence, \<open>am\<close> their clones for
  the thread, in the same order.
\<close>

definition copy_of :: "mid list \<Rightarrow> mid list \<Rightarrow> tid \<Rightarrow> world \<Rightarrow> tid option" where
  "copy_of mv am t w = (case find_pos (t_module (tsks w t)) mv of None \<Rightarrow> None
     | Some m \<Rightarrow> (case find_pos t (m_tasks (mods w (t_module (tsks w t)))) of None \<Rightarrow> None
       | Some k \<Rightarrow> if m < length am \<and> k < length (m_tasks (mods w (am ! m))) then Some (m_tasks (mods w (am ! m)) ! k) else None))"

definition copy_socket :: "mid list \<Rightarrow> mid list \<Rightarrow> sid \<Rightarrow> world \<Rightarrow> sid option" where
  "copy_socket mv am i w = (case copy_of mv am (s_task (socks w i)) w of None \<Rightarrow> None
     | Some t \<Rightarrow> (case find_pos i (t_sockets (tsks w (s_task (socks w i)))) of None \<Rightarrow> None
       | Some k \<Rightarrow> if k < length (t_sockets (tsks w t)) then Some (t_sockets (tsks w t) ! k) else None))"

definition in_sequence :: "tid list \<Rightarrow> mid list \<Rightarrow> sid \<Rightarrow> world \<Rightarrow> bool" where
  "in_sequence tv mv out w \<longleftrightarrow> s_task (socks w out) \<in> set tv \<and> t_module (tsks w (s_task (socks w out))) \<in> set mv"

definition copy_bind :: "tid list \<Rightarrow> mid list \<Rightarrow> mid list \<Rightarrow> sid \<Rightarrow> world \<Rightarrow> (world, unit) outcome" where
  "copy_bind tv mv am i w =
     (if s_type (socks w i) = SIN \<or> s_type (socks w i) = SFWD
      then (case get_bound_socket i w of Inl _ \<Rightarrow> (Inr (), w)
        | Inr out \<Rightarrow> if in_sequence tv mv out w
            then (case (copy_socket mv am i w, copy_socket mv am out w) of
                (Some i', Some out') \<Rightarrow> assign_sck i' out' w | _ \<Rightarrow> (Inl UB, w))
            else (Inr (), w))
      else (Inr (), w))"

definition copy_fake :: "tid list \<Rightarrow> mid list \<Rightarrow> mid list \<Rightarrow> tid \<Rightarrow> sid \<Rightarrow> world \<Rightarrow> (world, unit) outcome" where
  "copy_fake tv mv am t i w = (case get_bound_socket i w of Inl _ \<Rightarrow> (Inr (), w)
     | Inr out \<Rightarrow> if in_sequence tv mv out w
         then (case copy_socket mv am out w of Some out' \<Rightarrow> assign_tsk t out' w | None \<Rightarrow> (Inl UB, w))
         else (Inr (), w))"

text \<open>The tasks of a node: the copies and their bindings.\<close>

fun copy_tasks :: "tid list \<Rightarrow> mid list \<Rightarrow> mid list \<Rightarrow> tid list \<Rightarrow> tid list \<Rightarrow> world \<Rightarrow> (world, tid list) outcome" where
  "copy_tasks tv mv am [] ts' w = (Inr ts', w)"
| "copy_tasks tv mv am (t # ts) ts' w = (case copy_of mv am t w of None \<Rightarrow> (Inl UB, w)
     | Some t' \<Rightarrow> bindo (foreach (copy_bind tv mv am) (t_sockets (tsks w t)) w) (\<lambda>_ w1.
         bindo (foreach (copy_fake tv mv am t') (t_fake_input_sockets (tsks w1 t)) w1) (\<lambda>_.
           copy_tasks tv mv am ts (ts' @ [t']))))"

text \<open>
  The copy \<open>H\<close> of the graph \<open>G\<close>. \<open>alloc\<close> is \<^verbatim>\<open>allocated_nodes\<close>: the copy of the last node with a number,
  a null pointer where there is none (\<^verbatim>\<open>operator[]\<close>), here \<open>UB\<close>. The tasks are copied by \<open>ct\<close>.
\<close>

record 'w copy_state =
  cs_graph :: "subseq graph"
  cs_parsed :: "nat list"
  cs_alloc :: "nat \<Rightarrow> nat option"
  cs_world :: 'w

definition copy_child :: "subseq graph \<Rightarrow> nat \<Rightarrow> nat \<Rightarrow> 'w copy_state \<Rightarrow> ('w copy_state, unit) outcome" where
  "copy_child G m c s =
     (if c \<in> set (cs_parsed s)
      then (case contents_of G c of None \<Rightarrow> (Inl UB, s)
        | Some x \<Rightarrow> (case cs_alloc s (ss_id x) of None \<Rightarrow> (Inl UB, s)
          | Some k \<Rightarrow> (Inr (), s\<lparr>cs_graph := add_child m k (-1) (cs_graph s)\<rparr>)))
      else (case new_node [m] [] None (dn_depth (g_node (cs_graph s) m) + 1) (cs_graph s) of
        (k, H) \<Rightarrow> (Inr (), s\<lparr>cs_graph := add_child m k (-1) H\<rparr>)))"

fun replicate_node :: "(tid list \<Rightarrow> 'w \<Rightarrow> ('w, tid list) outcome) \<Rightarrow> nat \<Rightarrow> subseq graph \<Rightarrow> nat \<Rightarrow> nat \<Rightarrow>
    'w copy_state \<Rightarrow> ('w copy_state, unit) outcome" where
  "replicate_node ct 0 G n m s = (Inl UB, s)"
| "replicate_node ct (Suc k) G n m s =
     (case contents_of G n of None \<Rightarrow> (Inr (), s)
      | Some x \<Rightarrow> if n \<in> set (cs_parsed s) then (Inr (), s)
          else let s1 = s\<lparr>cs_parsed := cs_parsed s @ [n]\<rparr> in
            case ct (ss_tasks x) (cs_world s1) of
              (Inl e, w) \<Rightarrow> (Inl e, s1\<lparr>cs_world := w\<rparr>)
            | (Inr ts, w) \<Rightarrow>
                let s2 = s1\<lparr>cs_world := w,
                  cs_graph := set_contents m (Some (new_subseq\<lparr>ss_type := ss_type x, ss_id := ss_id x, ss_tasks_id := ss_tasks_id x, ss_tasks := ts\<rparr>)) (cs_graph s1),
                  cs_alloc := (cs_alloc s1)(ss_id x := Some m)\<rparr>
                in bindo (foreach (copy_child G m) (children_of G n) s2) (\<lambda>_ s3.
                  foreach (\<lambda>i s'. if i < length (children_of (cs_graph s') m)
                      then replicate_node ct k G (children_of G n ! i) (children_of (cs_graph s') m ! i) s'
                      else (Inl UB, s')) [0..<length (children_of G n)] s3))"

definition replicate_graph :: "(tid list \<Rightarrow> 'w \<Rightarrow> ('w, tid list) outcome) \<Rightarrow> subseq graph \<Rightarrow> nat \<Rightarrow> 'w \<Rightarrow>
    ('w copy_state, unit) outcome" where
  "replicate_graph ct G root w = replicate_node ct (seq_fuel G) G root 0
     \<lparr>cs_graph = \<lparr>g_node = (\<lambda>_. \<lparr>dn_parents = [], dn_children = [], dn_contents = None, dn_depth = 0\<rparr>), g_next = 1\<rparr>,
      cs_parsed = [], cs_alloc = (\<lambda>_. None), cs_world = w\<rparr>"

text \<open>The clones of the modules for one thread; an exception of \<^verbatim>\<open>clone\<close> becomes a \<^verbatim>\<open>runtime_error\<close>.\<close>

fun clone_modules :: "(mid \<Rightarrow> world \<Rightarrow> (world, mid) outcome) \<Rightarrow> mid list \<Rightarrow> mid list \<Rightarrow> world \<Rightarrow> (world, mid list) outcome" where
  "clone_modules cl [] ms' w = (Inr ms', w)"
| "clone_modules cl (m # ms) ms' w = (case cl m w of
     (Inl _, w1) \<Rightarrow> (Inl Runtime_error, w1) | (Inr m', w1) \<Rightarrow> clone_modules cl ms (ms' @ [m']) w1)"

fun clone_all :: "(mid \<Rightarrow> world \<Rightarrow> (world, mid) outcome) \<Rightarrow> mid list \<Rightarrow> nat \<Rightarrow> mid list list \<Rightarrow> world \<Rightarrow> (world, mid list list) outcome" where
  "clone_all cl mv 0 acc w = (Inr acc, w)"
| "clone_all cl mv (Suc n) acc w = bindo (clone_modules cl mv [] w) (\<lambda>ms. clone_all cl mv n (acc @ [ms]))"

fun replicate_threads :: "tid list \<Rightarrow> mid list \<Rightarrow> subseq graph \<Rightarrow> nat \<Rightarrow> mid list list \<Rightarrow> (subseq graph) list \<Rightarrow> world \<Rightarrow>
    (world, (subseq graph) list) outcome" where
  "replicate_threads tv mv G root [] Hs w = (Inr Hs, w)"
| "replicate_threads tv mv G root (am # ams) Hs w = (case replicate_graph (\<lambda>ts. copy_tasks tv mv am ts []) G root w of
     (Inl e, s) \<Rightarrow> (Inl e, cs_world s)
   | (Inr _, s) \<Rightarrow> replicate_threads tv mv G root ams (Hs @ [cs_graph s]) (cs_world s))"

text \<open>\<^verbatim>\<open>replicate\<close>: one clone per thread, less the first thread when the tasks are used in place.\<close>

definition replicate_seq :: "(mid \<Rightarrow> world \<Rightarrow> (world, mid) outcome) \<Rightarrow> bool \<Rightarrow> nat \<Rightarrow> subseq graph \<Rightarrow> nat \<Rightarrow> world \<Rightarrow>
    (world, mid list list \<times> (subseq graph) list) outcome" where
  "replicate_seq cl inplace n_threads G root w =
     (let n = n_threads - (if inplace then 1 else 0) in
      case (tasks_from G root, collect_modules w G root) of
        (Inr tv, Inr mv) \<Rightarrow>
          if n \<noteq> 0 \<and> (\<exists>t \<in> set tv. \<not> t_replicable (tsks w t)) then (Inl Runtime_error, w)
          else bindo (clone_all cl mv n [] w) (\<lambda>ams w1.
            bindo (replicate_threads tv mv G root ams [] w1) (\<lambda>Hs w2. (Inr (ams, Hs), w2)))
      | _ \<Rightarrow> (Inl UB, w))"

end
