(* ===== verification/Sequence_Clean.thy ===== *)
theory Sequence_Clean
  imports Sequence_Init
begin

text \<open>
  \<^verbatim>\<open>remove_useless_nodes\<close> (\<^verbatim>\<open>Sequence.hxx\<close>) on a graph whose links agree: it returns, and a round of the
  cleaned graph is a round of the built one. A removed node is skipped: \<open>\<tau>\<close> sends it to the node that takes
  its place.
\<close>

section \<open>Graphs whose links agree\<close>

definition linked :: "(nat \<Rightarrow> nat) \<Rightarrow> subseq graph \<Rightarrow> nat set \<Rightarrow> bool" where
  "linked rank G A \<longleftrightarrow> finite A \<and> (\<forall>n \<in> A.
     (\<exists>c. contents_of G n = Some c \<and> (ss_type c = COMMUTE \<longrightarrow> ss_tasks c \<noteq> [])) \<and>
     set (children_of G n) \<subseteq> A \<and> set (parents_of G n) \<subseteq> A \<and>
     length (children_of G n) < 2 ^ 31 \<and> length (parents_of G n) < 2 ^ 31 \<and>
     (\<forall>m \<in> A. count_list (children_of G n) m = count_list (parents_of G m) n) \<and>
     (\<forall>c \<in> set (children_of G n). rank n < rank c))"

lemma linkedD:
  assumes "linked rank G A" and "n \<in> A"
  shows "\<exists>c. contents_of G n = Some c \<and> (ss_type c = COMMUTE \<longrightarrow> ss_tasks c \<noteq> [])"
    and "set (children_of G n) \<subseteq> A" and "set (parents_of G n) \<subseteq> A"
    and "length (children_of G n) < 2 ^ 31" and "length (parents_of G n) < 2 ^ 31"
    and "m \<in> A \<Longrightarrow> count_list (children_of G n) m = count_list (parents_of G m) n"
    and "c \<in> set (children_of G n) \<Longrightarrow> rank n < rank c"
  using assms unfolding linked_def by blast+

abbreviation swap_to :: "nat \<Rightarrow> nat \<Rightarrow> nat \<Rightarrow> nat" where
  "swap_to n c x \<equiv> if x = n then c else x"

lemma replace_once:
  assumes "count_list xs n = 1" and "length xs < 2 ^ 31"
  shows "\<exists>i. find_pos n xs = Some i \<and> i < length xs \<and> size_cast (int i) = i \<and>
    insert_pos (int i) c (del_at i xs) = map (swap_to n c) xs"
proof -
  from assms(1) have "n \<in> set xs" by (metis count_notin zero_neq_one)
  then obtain i where i: "find_pos n xs = Some i" using find_pos_ex by fast
  with find_pos_Some have len: "i < length xs" "xs ! i = n" by fast+
  have cast: "size_cast (int i) = i" using len assms(2) by (simp add: size_cast_def)
  have split: "xs = take i xs @ n # drop (Suc i) xs" using len by (metis id_take_nth_drop)
  then have "count_list (take i xs @ n # drop (Suc i) xs) n = 1" using assms(1) by simp
  then have "count_list (take i xs) n = 0" "count_list (drop (Suc i) xs) n = 0" by simp_all
  then have out: "n \<notin> set (take i xs)" "n \<notin> set (drop (Suc i) xs)" by (simp_all add: count_list_0_iff)
  have same: "map (swap_to n c) ys = ys" if "n \<notin> set ys" for ys by (rule map_idI) (use that in auto)
  have "map (swap_to n c) xs = map (swap_to n c) (take i xs @ n # drop (Suc i) xs)" using split by simp
  also have "\<dots> = take i xs @ c # drop (Suc i) xs" using out by (simp add: same)
  finally have "insert_pos (int i) c (del_at i xs) = map (swap_to n c) xs"
    using len cast by (simp add: insert_pos_def length_del_at ins_at_def del_at_def)
  with i len(1) cast show ?thesis by blast
qed

lemma count_swap: "y \<noteq> n \<Longrightarrow> count_list (map (swap_to n c) xs) y = count_list xs y + (if y = c then count_list xs n else 0)"
  by (induction xs) auto

section \<open>One node\<close>

lemma bypass_linked:
  assumes L: "linked rank G A" and n: "n \<in> A" "parents_of G n = [p]" "children_of G n = [c]"
  shows "\<exists>G'. bypass n p c G = (Inr (), G') \<and> linked rank G' (A - {n}) \<and> p \<in> A - {n} \<and> c \<in> A - {n} \<and>
    (\<forall>x. contents_of G' x = contents_of G x) \<and>
    (\<forall>x \<in> A - {n}. children_of G' x = map (swap_to n c) (children_of G x))"
proof -
  have pc: "p \<in> A" "c \<in> A" using linkedD(2,3) [OF L n(1)] n by auto
  have rc: "rank n < rank c" using linkedD(7) [OF L n(1)] n by simp
  have once: "count_list (children_of G p) n = 1" using linkedD(6) [OF L pc(1) n(1)] n by simp
  then have "n \<in> set (children_of G p)" by (metis count_notin zero_neq_one)
  then have rp: "rank p < rank n" using linkedD(7) [OF L pc(1)] by simp
  have once': "count_list (parents_of G c) n = 1" using linkedD(6) [OF L n(1) pc(2)] n by simp
  from rc rp have ne: "p \<noteq> n" "c \<noteq> n" "p \<noteq> c" by auto
  obtain i where i: "find_pos n (children_of G p) = Some i" "i < length (children_of G p)" "size_cast (int i) = i"
    "insert_pos (int i) c (del_at i (children_of G p)) = map (swap_to n c) (children_of G p)"
    using replace_once [OF once linkedD(4) [OF L pc(1)]] by blast
  obtain j where j: "find_pos n (parents_of G c) = Some j" "j < length (parents_of G c)" "size_cast (int j) = j"
    "insert_pos (int j) p (del_at j (parents_of G c)) = map (swap_to n p) (parents_of G c)"
    using replace_once [OF once' linkedD(5) [OF L pc(2)]] by blast
  define G' where "G' = upd_node c (\<lambda>x. x\<lparr>dn_parents := map (swap_to n p) (parents_of G c)\<rparr>)
    (upd_node p (\<lambda>x. x\<lparr>dn_children := map (swap_to n c) (children_of G p)\<rparr>) G)"
  have run: "bypass n p c G = (Inr (), G')"
    using n ne i j by (simp add: bypass_def get_child_pos_def cut_child_def get_parent_pos_def cut_parent_def
        add_child_def add_parent_def G'_def Let_def upd_node_def fun_upd_twist)
  have none: "count_list (children_of G x) n = (if x = p then 1 else 0)" if "x \<in> A" for x
    using linkedD(6) [OF L that n(1)] n by simp
  have none': "count_list (parents_of G x) n = (if x = c then 1 else 0)" if "x \<in> A" for x
    using linkedD(6) [OF L n(1) that] n by (simp split: if_splits)
  have ch: "children_of G' x = map (swap_to n c) (children_of G x)" if "x \<in> A" for x
  proof (cases "x = p")
    case False
    then have "n \<notin> set (children_of G x)" using none [OF that] by (simp add: count_list_0_iff)
    then have "map (swap_to n c) (children_of G x) = children_of G x" by (intro map_idI) auto
    with False show ?thesis by (simp add: G'_def)
  qed (use ne in \<open>simp add: G'_def\<close>)
  have pa: "parents_of G' x = map (swap_to n p) (parents_of G x)" if "x \<in> A" for x
  proof (cases "x = c")
    case False
    then have "n \<notin> set (parents_of G x)" using none' [OF that] by (simp add: count_list_0_iff)
    then have "map (swap_to n p) (parents_of G x) = parents_of G x" by (intro map_idI) auto
    with False show ?thesis by (simp add: G'_def)
  qed (use ne in \<open>simp add: G'_def\<close>)
  have cont: "contents_of G' x = contents_of G x" for x by (simp add: G'_def)
  have "linked rank G' (A - {n})"
    unfolding linked_def
  proof (intro conjI ballI)
    fix x assume x: "x \<in> A - {n}"
    then have xA: "x \<in> A" by simp
    show "\<exists>c. contents_of G' x = Some c \<and> (ss_type c = COMMUTE \<longrightarrow> ss_tasks c \<noteq> [])"
      using linkedD(1) [OF L xA] by (simp add: cont)
    show "set (children_of G' x) \<subseteq> A - {n}" using linkedD(2) [OF L xA] pc ne by (auto simp: ch [OF xA])
    show "set (parents_of G' x) \<subseteq> A - {n}" using linkedD(3) [OF L xA] pc ne by (auto simp: pa [OF xA])
    show "length (children_of G' x) < 2 ^ 31" using linkedD(4) [OF L xA] by (simp add: ch [OF xA])
    show "length (parents_of G' x) < 2 ^ 31" using linkedD(5) [OF L xA] by (simp add: pa [OF xA])
    show "count_list (children_of G' x) m = count_list (parents_of G' m) x" if "m \<in> A - {n}" for m
    proof -
      have mA: "m \<in> A" and "m \<noteq> n" "x \<noteq> n" using that x by auto
      then show ?thesis using linkedD(6) [OF L xA mA]
        by (simp add: ch [OF xA] pa [OF mA] count_swap none [OF xA] none' [OF mA] once once')
    qed
    show "rank x < rank y" if "y \<in> set (children_of G' x)" for y
    proof -
      from that ch [OF xA] obtain z where z: "z \<in> set (children_of G x)" "y = swap_to n c z" by auto
      have "rank x < rank z" using linkedD(7) [OF L xA z(1)] .
      with z(2) rc show ?thesis by auto
    qed
  qed (use L in \<open>simp add: linked_def\<close>)
  with run pc ne ch cont show ?thesis by auto
qed

section \<open>Rounds\<close>

text \<open>
  \<open>follows \<tau> A G G'\<close>: the nodes of \<open>A\<close> that \<open>\<tau>\<close> keeps have the same contents in both graphs and their children
  follow \<open>\<tau>\<close>; the others have no task, one child, and go where the child goes.
\<close>

definition follows :: "(nat \<Rightarrow> nat) \<Rightarrow> nat set \<Rightarrow> subseq graph \<Rightarrow> subseq graph \<Rightarrow> bool" where
  "follows \<tau> A G G' \<longleftrightarrow> (\<forall>x \<in> A. set (children_of G x) \<subseteq> A \<and>
     (if \<tau> x = x then contents_of G' x = contents_of G x \<and> children_of G' x = map \<tau> (children_of G x)
      else \<exists>c y. contents_of G x = Some c \<and> ss_type c \<noteq> COMMUTE \<and> ss_tasks c = [] \<and> children_of G x = [y] \<and>
        \<tau> x = y \<and> \<tau> y = y))"

lemma node_walk_follows:
  assumes "contents_of G' x = contents_of G x" and "children_of G' x = map \<tau> (children_of G x)"
  shows "node_walk run G' x s = (case node_walk run G x s of (r, s') \<Rightarrow> (map_sum id (map \<tau>) r, s'))"
proof (cases "contents_of G x")
  case (Some c)
  show ?thesis
  proof (cases "ss_type c = COMMUTE")
    case True
    then show ?thesis
    proof (cases "ss_tasks c")
      case (Cons t ts)
      then show ?thesis using True Some assms by (cases "run t s" rule: is_ok.cases) (auto simp: node_walk_def)
    qed (use Some assms in \<open>simp add: node_walk_def\<close>)
  next
    case False
    then show ?thesis using Some assms
      by (cases "foreach (run_one run) (ss_tasks c) s" rule: is_ok.cases) (auto simp: node_walk_def)
  qed
qed (use assms in \<open>simp add: node_walk_def\<close>)

lemma node_walk_children: "node_walk run G x s = (Inr next, s') \<Longrightarrow> set next \<subseteq> set (children_of G x)"
proof (cases "contents_of G x")
  case (Some c)
  assume walks: "node_walk run G x s = (Inr next, s')"
  show ?thesis
  proof (cases "ss_type c = COMMUTE")
    case True
    then show ?thesis
    proof (cases "ss_tasks c")
      case (Cons t ts)
      then show ?thesis using walks True Some
        by (cases "run t s" rule: is_ok.cases) (auto simp: node_walk_def split: if_splits)
    qed (use walks Some in \<open>simp add: node_walk_def\<close>)
  next
    case False
    then show ?thesis using walks Some
      by (cases "foreach (run_one run) (ss_tasks c) s" rule: is_ok.cases) (auto simp: node_walk_def)
  qed
qed (simp add: node_walk_def)

lemma walk_Nil [simp]: "walk run G [] s = Some (Inr (), s)"
  by (simp add: walk.simps)

lemma walk_Cons: "walk run G (x # rest) s = (case node_walk run G x s of (r, s') \<Rightarrow>
    (case r of Inl e \<Rightarrow> Some (Inl e, s') | Inr next \<Rightarrow> walk run G (next @ rest) s'))"
  by (subst walk.simps) simp

lemma walk_gone:
  assumes "follows \<tau> A G G'" and "x \<in> A" and "\<tau> x \<noteq> x"
  shows "\<tau> (\<tau> x) = \<tau> x \<and> \<tau> x \<in> A \<and> walk run G (x # rest) s = walk run G (\<tau> x # rest) s"
proof -
  from assms obtain c y where "contents_of G x = Some c" "ss_type c \<noteq> COMMUTE" "ss_tasks c = []"
    "children_of G x = [y]" "\<tau> x = y" "\<tau> y = y" "set (children_of G x) \<subseteq> A" unfolding follows_def by metis
  then show ?thesis by (subst walk_Cons) (simp add: node_walk_def)
qed

lemma walk_follows:
  fixes run :: "tid \<Rightarrow> 's \<Rightarrow> (exn + int) \<times> 's"
  assumes F: "follows \<tau> A G G'" and "walk run G stack s = Some x" and "set stack \<subseteq> A"
  shows "walk run G' (map \<tau> stack) s = Some x"
proof -
  let ?Q = "\<lambda>(run' :: tid \<Rightarrow> 's \<Rightarrow> (exn + int) \<times> 's) G0 stack (s :: 's) (x :: ('s, unit) outcome).
    run' = run \<and> G0 = G \<and> set stack \<subseteq> A \<longrightarrow> walk run G' (map \<tau> stack) s = Some x"
  have "?Q run G stack s x"
  proof (rule walk.raw_induct [where P = ?Q, OF _ assms(2)])
    fix walk' :: "(tid \<Rightarrow> 's \<Rightarrow> (exn + int) \<times> 's) \<Rightarrow> subseq graph \<Rightarrow> nat list \<Rightarrow> 's \<Rightarrow> ('s, unit) outcome option"
    fix run' :: "tid \<Rightarrow> 's \<Rightarrow> (exn + int) \<times> 's" and G0 stack and s :: 's and x :: "('s, unit) outcome"
    assume IH: "\<And>run' G0 stack s x. walk' run' G0 stack s = Some x \<Longrightarrow> ?Q run' G0 stack s x"
      and body: "(case stack of [] \<Rightarrow> Some (Inr (), s)
        | n # rest \<Rightarrow> (case node_walk run' G0 n s of (r, s') \<Rightarrow>
         (case r of Inl e \<Rightarrow> Some (Inl e, s') | Inr next \<Rightarrow> walk' run' G0 (next @ rest) s'))) = Some x"
    show "?Q run' G0 stack s x"
    proof (rule impI)
      assume eq: "run' = run \<and> G0 = G \<and> set stack \<subseteq> A"
      show "walk run G' (map \<tau> stack) s = Some x"
      proof (cases stack)
        case (Cons n rest)
        with eq have n: "n \<in> A" "set rest \<subseteq> A" by auto
        then have ch: "set (children_of G n) \<subseteq> A" using F by (simp add: follows_def)
        obtain r s' where nw: "node_walk run G n s = (r, s')" by fastforce
        show ?thesis
        proof (cases "\<tau> n = n")
          case True
          then have step: "node_walk run G' n s = (map_sum id (map \<tau>) r, s')"
            using F n node_walk_follows [of G' n G \<tau> run s] nw by (simp add: follows_def)
          then show ?thesis
          proof (cases r)
            case (Inr ns)
            have "set ns \<subseteq> A" using node_walk_children [of run G n s ns s'] nw Inr ch by simp
            moreover have "walk' run G (ns @ rest) s' = Some x" using body eq Cons nw Inr by simp
            ultimately have "walk run G' (map \<tau> (ns @ rest)) s' = Some x" using IH [of run G "ns @ rest" s' x] n by simp
            with step True Cons Inr show ?thesis by (simp add: walk_Cons)
          qed (use True body eq Cons nw in \<open>simp add: walk_Cons\<close>)
        next
          case False
          then obtain c y where y: "contents_of G n = Some c" "ss_type c \<noteq> COMMUTE" "ss_tasks c = []"
            "children_of G n = [y]" "\<tau> n = y" "\<tau> y = y" using F n unfolding follows_def by metis
          then have "walk' run G (y # rest) s = Some x" using body eq Cons by (simp add: node_walk_def)
          from IH [OF this] y ch n have "walk run G' (map \<tau> (y # rest)) s = Some x" by simp
          with y Cons show ?thesis by simp
        qed
      qed (use body in simp)
    qed
  qed
  with assms(3) show ?thesis by simp
qed

lemma walk_follows_back:
  fixes run :: "tid \<Rightarrow> 's \<Rightarrow> (exn + int) \<times> 's"
  assumes F: "follows \<tau> A G G'" and "walk run G' (map \<tau> stack) s = Some x" and "set stack \<subseteq> A"
  shows "walk run G stack s = Some x"
proof -
  let ?Q = "\<lambda>(run' :: tid \<Rightarrow> 's \<Rightarrow> (exn + int) \<times> 's) G0 stack' (s :: 's) (x :: ('s, unit) outcome).
    \<forall>stack. run' = run \<and> G0 = G' \<and> stack' = map \<tau> stack \<and> set stack \<subseteq> A \<longrightarrow> walk run G stack s = Some x"
  have "?Q run G' (map \<tau> stack) s x"
  proof (rule walk.raw_induct [where P = ?Q, OF _ assms(2)])
    fix walk' :: "(tid \<Rightarrow> 's \<Rightarrow> (exn + int) \<times> 's) \<Rightarrow> subseq graph \<Rightarrow> nat list \<Rightarrow> 's \<Rightarrow> ('s, unit) outcome option"
    fix run' :: "tid \<Rightarrow> 's \<Rightarrow> (exn + int) \<times> 's" and G0 stack' and s :: 's and x :: "('s, unit) outcome"
    assume IH: "\<And>run' G0 stack s x. walk' run' G0 stack s = Some x \<Longrightarrow> ?Q run' G0 stack s x"
      and body: "(case stack' of [] \<Rightarrow> Some (Inr (), s)
        | n # rest \<Rightarrow> (case node_walk run' G0 n s of (r, s') \<Rightarrow>
         (case r of Inl e \<Rightarrow> Some (Inl e, s') | Inr next \<Rightarrow> walk' run' G0 (next @ rest) s'))) = Some x"
    show "?Q run' G0 stack' s x"
    proof (intro allI impI)
      fix stack
      assume eq: "run' = run \<and> G0 = G' \<and> stack' = map \<tau> stack \<and> set stack \<subseteq> A"
      have kept: "walk run G (n # rest) s = Some x"
        if n: "\<tau> n = n" "n \<in> A" "set rest \<subseteq> A" "stack' = map \<tau> (n # rest)" for n rest
      proof -
        have ch: "set (children_of G n) \<subseteq> A" using F n by (simp add: follows_def)
        obtain r s' where nw: "node_walk run G n s = (r, s')" by fastforce
        have step: "node_walk run G' n s = (map_sum id (map \<tau>) r, s')"
          using F n node_walk_follows [of G' n G \<tau> run s] nw by (simp add: follows_def)
        have here: "stack' = n # map \<tau> rest" "run' = run" "G0 = G'" using n eq by simp_all
        show ?thesis
        proof (cases r)
          case (Inr ns)
          have "set ns \<subseteq> A" using node_walk_children [of run G n s ns s'] nw Inr ch by simp
          moreover have "walk' run G' (map \<tau> (ns @ rest)) s' = Some x" using body step Inr by (simp add: here)
          ultimately have "walk run G (ns @ rest) s' = Some x"
            using IH [of run G' "map \<tau> (ns @ rest)" s' x] n by simp
          with nw Inr show ?thesis by (simp add: walk_Cons)
        qed (use body nw step in \<open>simp add: walk_Cons here\<close>)
      qed
      show "walk run G stack s = Some x"
      proof (cases stack)
        case (Cons n rest)
        with eq have n: "n \<in> A" "set rest \<subseteq> A" by auto
        show ?thesis
        proof (cases "\<tau> n = n")
          case False
          have g: "\<tau> (\<tau> n) = \<tau> n" "\<tau> n \<in> A" "walk run G (n # rest) s = walk run G (\<tau> n # rest) s"
            using walk_gone [OF F n(1) False, of run rest s] by simp_all
          show ?thesis using kept [OF g(1,2) n(2)] eq Cons g by simp
        qed (use kept n eq Cons in simp)
      qed (use body eq in simp)
    qed
  qed
  with assms(3) show ?thesis by simp
qed

text \<open>Both ways: the rounds are the same, whether they return, throw or never end.\<close>

lemma walk_same:
  assumes "follows \<tau> A G G'" and "set stack \<subseteq> A"
  shows "walk run G' (map \<tau> stack) s = walk run G stack s"
  using walk_follows [OF assms(1) _ assms(2), of run s] walk_follows_back [OF assms(1) _ assms(2), of run s]
  by (cases "walk run G stack s"; cases "walk run G' (map \<tau> stack) s") auto

section \<open>The whole pass\<close>

text \<open>
  \<open>cleaned\<close> relates a graph and the nodes it has left before and after some removals: the length of the vectors
  is kept, no new node appears, and a round is the same from the nodes that are left.
\<close>

definition cleaned :: "(tid \<Rightarrow> 's \<Rightarrow> (exn + int) \<times> 's) \<Rightarrow> nat set \<Rightarrow> subseq graph \<Rightarrow> nat set \<Rightarrow> subseq graph \<Rightarrow> (nat \<Rightarrow> nat) \<Rightarrow> bool" where
  "cleaned run A G A' G' \<tau> \<longleftrightarrow> A' \<subseteq> A \<and> \<tau> ` A \<subseteq> A' \<and> (\<forall>x \<in> A'. \<tau> x = x) \<and>
     (\<forall>x \<in> A'. length (children_of G' x) = length (children_of G x)) \<and>
     (\<forall>stack s. set stack \<subseteq> A \<longrightarrow> walk run G' (map \<tau> stack) s = walk run G stack s)"

lemma cleaned_refl: "cleaned run A G A G id"
  by (simp add: cleaned_def)

lemma cleanedD:
  assumes "cleaned run A G A' G' \<tau>"
  shows "A' \<subseteq> A" and "x \<in> A \<Longrightarrow> \<tau> x \<in> A'" and "x \<in> A' \<Longrightarrow> \<tau> x = x"
    and "x \<in> A' \<Longrightarrow> length (children_of G' x) = length (children_of G x)"
    and "set stack \<subseteq> A \<Longrightarrow> walk run G' (map \<tau> stack) s = walk run G stack s"
  using assms unfolding cleaned_def by blast+

lemma cleaned_trans:
  assumes 1: "cleaned run A G A1 G1 \<tau>1" and 2: "cleaned run A1 G1 A2 G2 \<tau>2"
  shows "cleaned run A G A2 G2 (\<tau>2 \<circ> \<tau>1)"
  unfolding cleaned_def
proof (intro conjI allI impI ballI)
  show "A2 \<subseteq> A" using cleanedD(1) [OF 1] cleanedD(1) [OF 2] by blast
  show "(\<tau>2 \<circ> \<tau>1) ` A \<subseteq> A2" using cleanedD(2) [OF 1] cleanedD(2) [OF 2] by auto
  fix x
  assume x: "x \<in> A2"
  then have "x \<in> A1" using cleanedD(1) [OF 2] by blast
  with x show "(\<tau>2 \<circ> \<tau>1) x = x" "length (children_of G2 x) = length (children_of G x)"
    using cleanedD(3,4) [OF 1] cleanedD(3,4) [OF 2] by simp_all
next
  fix stack and s
  assume st: "set stack \<subseteq> A"
  then have "set (map \<tau>1 stack) \<subseteq> A1" using cleanedD(2) [OF 1] by auto
  from cleanedD(5) [OF 2 this, of s] cleanedD(5) [OF 1 st, of s]
  show "walk run G2 (map (\<tau>2 \<circ> \<tau>1) stack) s = walk run G stack s" by simp
qed

lemma set_depth_sel [simp]:
  "contents_of (set_depth m d G) x = contents_of G x" "children_of (set_depth m d G) x = children_of G x"
  "parents_of (set_depth m d G) x = parents_of G x"
  by (simp_all add: set_depth_def)

lemma walk_set_depth: "walk run (set_depth m d G) stack s = walk run G stack s"
proof -
  have "follows id (UNIV :: nat set) G (set_depth m d G)" by (simp add: follows_def)
  from walk_same [OF this, of stack run s] show ?thesis by simp
qed

lemma linked_set_depth: "linked rank G A \<Longrightarrow> linked rank (set_depth m d G) A"
  by (simp add: linked_def)

lemma cleaned_set_depth: "cleaned run A G A' G' \<tau> \<Longrightarrow> cleaned run A G A' (set_depth m d G') \<tau>"
  by (simp add: cleaned_def walk_set_depth)

text \<open>The node the pass goes on with: itself, or the child of a removed node.\<close>

lemma useless_step:
  assumes L: "linked rank G A" and n: "n \<in> A" and "useless G n = Inr True"
  shows "\<exists>G'. bypass n (hd (parents_of G n)) (hd (children_of G n)) G = (Inr (), G') \<and> linked rank G' (A - {n}) \<and>
    hd (children_of G n) \<in> A - {n} \<and> cleaned run A G (A - {n}) G' (swap_to n (hd (children_of G n)))"
proof -
  obtain c where u: "length (parents_of G n) = 1" "length (children_of G n) = 1" "contents_of G n = Some c" "ss_tasks c = []"
    using assms(3) by (auto simp: useless_def split: if_splits option.splits)
  then obtain p ch where pc: "parents_of G n = [p]" "children_of G n = [ch]" by (auto simp: length_Suc_conv)
  from bypass_linked [OF L n pc] obtain G' where G': "bypass n p ch G = (Inr (), G')" "linked rank G' (A - {n})"
    "ch \<in> A - {n}" "\<forall>x. contents_of G' x = contents_of G x"
    "\<forall>x \<in> A - {n}. children_of G' x = map (swap_to n ch) (children_of G x)" by blast
  have F: "follows (swap_to n ch) A G G'"
    unfolding follows_def
  proof (intro ballI conjI)
    fix x
    assume x: "x \<in> A"
    then show "set (children_of G x) \<subseteq> A" using linkedD(2) [OF L] by blast
    show "if swap_to n ch x = x then contents_of G' x = contents_of G x \<and>
        children_of G' x = map (swap_to n ch) (children_of G x)
      else \<exists>c y. contents_of G x = Some c \<and> ss_type c \<noteq> COMMUTE \<and> ss_tasks c = [] \<and> children_of G x = [y] \<and>
        swap_to n ch x = y \<and> swap_to n ch y = y"
    proof (cases "x = n")
      case True
      with u pc G'(3) linkedD(1) [OF L n] show ?thesis by auto
    qed (use x G' in simp)
  qed
  have "cleaned run A G (A - {n}) G' (swap_to n ch)"
    unfolding cleaned_def using walk_same [OF F] G' by auto
  with G' show ?thesis unfolding pc list.sel by blast
qed

text \<open>What a call of the pass on a state ensures.\<close>

definition done_from ::
  "(nat \<Rightarrow> nat) \<Rightarrow> (tid \<Rightarrow> 's \<Rightarrow> (exn + int) \<times> 's) \<Rightarrow> nat set \<Rightarrow> nat list \<times> nat \<times> subseq graph \<Rightarrow>
    (nat list \<times> nat \<times> subseq graph, unit) outcome \<Rightarrow> bool" where
  "done_from rank run A v r \<longleftrightarrow> (\<exists>vis' root' G' A' \<tau>. r = (Inr (), (vis', root', G')) \<and> linked rank G' A' \<and>
     set (fst v) \<subseteq> set vis' \<and> set vis' \<subseteq> A' \<and> root' = \<tau> (fst (snd v)) \<and> cleaned run A (snd (snd v)) A' G' \<tau>)"

lemma done_fromE:
  assumes "done_from rank run A (vis, root, G) r"
  obtains vis' root' G' A' \<tau> where "r = (Inr (), (vis', root', G'))" and "linked rank G' A'" and "set vis \<subseteq> set vis'"
    and "set vis' \<subseteq> A'" and "root' = \<tau> root" and "cleaned run A G A' G' \<tau>"
  using assms unfolding done_from_def by auto

lemma done_fromI:
  "linked rank G' A' \<Longrightarrow> set vis \<subseteq> set vis' \<Longrightarrow> set vis' \<subseteq> A' \<Longrightarrow> cleaned run A G A' G' \<tau> \<Longrightarrow>
    done_from rank run A (vis, root, G) (Inr (), (vis', \<tau> root, G'))"
  unfolding done_from_def by auto

lemma done_from_trans:
  assumes "cleaned run A G A1 G1 \<tau>" and "set vis \<subseteq> set vis1" and "done_from rank run A1 (vis1, \<tau> root, G1) r"
  shows "done_from rank run A (vis, root, G) r"
proof -
  from assms(3) obtain vis' root' G' A' \<tau>' where d: "r = (Inr (), (vis', root', G'))" "linked rank G' A'"
    "set vis1 \<subseteq> set vis'" "set vis' \<subseteq> A'" "root' = \<tau>' (\<tau> root)" "cleaned run A1 G1 A' G' \<tau>'" by (rule done_fromE)
  from done_fromI [OF d(2) order_trans [OF assms(2) d(3)] d(4) cleaned_trans [OF assms(1) d(6)], of root] d(1,5)
  show ?thesis by simp
qed

definition pass_ok :: "(nat \<Rightarrow> nat) \<Rightarrow> (tid \<Rightarrow> 's \<Rightarrow> (exn + int) \<times> 's) \<Rightarrow> nat \<Rightarrow> bool" where
  "pass_ok rank run k \<longleftrightarrow> (\<forall>n vis root G A. linked rank G A \<longrightarrow> n \<in> A \<longrightarrow> set vis \<subseteq> A \<longrightarrow> card (A - set vis) < k \<longrightarrow>
     done_from rank run A (vis, root, G) (remove_useless k n (vis, root, G)))"

lemma children_loop:
  assumes ok: "pass_ok rank run k" and F: "F = (\<lambda>i v. case v of (_, _, G') \<Rightarrow>
      if i < length (children_of G' m) then remove_useless k (children_of G' m ! i) v else (Inl UB, v))"
  shows "linked rank G A \<Longrightarrow> m \<in> set vis \<Longrightarrow> set vis \<subseteq> A \<Longrightarrow> card (A - set vis) < k \<Longrightarrow>
    \<forall>i \<in> set is. i < length (children_of G m) \<Longrightarrow> done_from rank run A (vis, root, G) (foreach F is (vis, root, G))"
proof (induction "is" arbitrary: vis root G A)
  case Nil
  with done_fromI [OF Nil(1) order_refl Nil(3) cleaned_refl, of run root] show ?case by simp
next
  case (Cons i "is")
  let ?c = "children_of G m ! i"
  have "m \<in> A" using Cons.prems(2,3) by blast
  moreover have "?c \<in> set (children_of G m)" using Cons.prems(5) by simp
  ultimately have "?c \<in> A" using linkedD(2) [OF Cons.prems(1)] by blast
  then have "done_from rank run A (vis, root, G) (remove_useless k ?c (vis, root, G))"
    using ok Cons.prems unfolding pass_ok_def by blast
  then obtain vis1 root1 G1 A1 \<tau> where s1: "remove_useless k ?c (vis, root, G) = (Inr (), (vis1, root1, G1))"
    "linked rank G1 A1" "set vis \<subseteq> set vis1" "set vis1 \<subseteq> A1" "root1 = \<tau> root" "cleaned run A G A1 G1 \<tau>" by (rule done_fromE)
  have "A1 \<subseteq> A" and len: "length (children_of G1 m) = length (children_of G m)"
    using s1(3,4,6) Cons.prems(2) unfolding cleaned_def by auto
  then have "A1 - set vis1 \<subseteq> A - set vis" and "finite A" using s1(3) Cons.prems(1) by (auto simp: linked_def)
  then have small: "card (A1 - set vis1) < k" using Cons.prems(4) card_mono [of "A - set vis" "A1 - set vis1"] by simp
  have "m \<in> set vis1" and "\<forall>i \<in> set is. i < length (children_of G1 m)" using Cons.prems(2,5) s1(3) len by auto
  from Cons.IH [OF s1(2) this(1) s1(4) small this(2), of root1]
  have "done_from rank run A1 (vis1, \<tau> root, G1) (foreach F is (vis1, root1, G1))" by (simp only: s1(5))
  from done_from_trans [OF s1(6,3) this]
  have "done_from rank run A (vis, root, G) (foreach F is (vis1, root1, G1))" .
  moreover have "F i (vis, root, G) = (Inr (), (vis1, root1, G1))" using s1(1) Cons.prems(5) by (simp add: F)
  ultimately show ?case by simp
qed

lemma pass_ok_all: "pass_ok rank run k"
proof (induction k)
  case (Suc k)
  show ?case
    unfolding pass_ok_def
  proof (intro allI impI)
    fix n vis root G A
    assume L: "linked rank G A" and n: "n \<in> A" and vis: "set vis \<subseteq> A" and k: "card (A - set vis) < Suc k"
    let ?r = "remove_useless (Suc k) n (vis, root, G)"
    show "done_from rank run A (vis, root, G) ?r"
    proof (cases "n \<in> set vis")
      case True
      with done_fromI [OF L order_refl vis cleaned_refl, of run root] show ?thesis by simp
    next
      case False
      define F where "F = (\<lambda>m i v. case v of (_, _, G') \<Rightarrow>
        if i < length (children_of G' m) then remove_useless k (children_of G' m ! i) v else (Inl UB :: exn + unit, v))"
      define visit where "visit = (\<lambda>m root1 G1. if m \<in> set vis then (Inr (), (vis, root1, G1))
        else foreach (F m) [0..<length (children_of G1 m)] (vis @ [m], root1, set_depth m (min_depth G1 m) G1))"
      have visited: "done_from rank run A (vis, root, G) (visit m (\<tau> root) G1)"
        if L1: "linked rank G1 A1" and m: "m \<in> A1" and sub: "set vis \<subseteq> A1" and C: "cleaned run A G A1 G1 \<tau>"
          and less: "card (A1 - set vis) < Suc k" for m G1 A1 \<tau>
      proof (cases "m \<in> set vis")
        case True
        with done_fromI [OF L1 order_refl sub C, of root] show ?thesis by (simp add: visit_def)
      next
        case False
        have "A1 - set (vis @ [m]) = (A1 - set vis) - {m}" by auto
        moreover have "finite (A1 - set vis)" and "m \<in> A1 - set vis" using L1 m False by (auto simp: linked_def)
        ultimately have "card (A1 - set (vis @ [m])) < card (A1 - set vis)" by (simp only: card_Diff1_less)
        with less have "card (A1 - set (vis @ [m])) < k" by linarith
        then have "done_from rank run A1 (vis @ [m], \<tau> root, set_depth m (min_depth G1 m) G1)
            (foreach (F m) [0..<length (children_of G1 m)] (vis @ [m], \<tau> root, set_depth m (min_depth G1 m) G1))"
          by (intro children_loop [OF Suc] linked_set_depth [OF L1]) (use sub m in \<open>auto simp: F_def\<close>)
        then have "done_from rank run A1 (vis @ [m], \<tau> root, set_depth m (min_depth G1 m) G1) (visit m (\<tau> root) G1)"
          using False by (simp add: visit_def)
        from done_from_trans [OF cleaned_set_depth [OF C] _ this, of vis] show ?thesis by auto
      qed
      show ?thesis
      proof (cases "useless G n = Inr True")
        case True
        from useless_step [OF L n True, of run] obtain G1 where G1:
          "bypass n (hd (parents_of G n)) (hd (children_of G n)) G = (Inr (), G1)" "linked rank G1 (A - {n})"
          "hd (children_of G n) \<in> A - {n}" "cleaned run A G (A - {n}) G1 (swap_to n (hd (children_of G n)))" by blast
        have "card (A - {n} - set vis) \<le> card (A - set vis)" using L by (intro card_mono) (auto simp: linked_def)
        with k have "card (A - {n} - set vis) < Suc k" by simp
        moreover have "set vis \<subseteq> A - {n}" using vis False by auto
        ultimately have "done_from rank run A (vis, root, G) (visit (hd (children_of G n)) (swap_to n (hd (children_of G n)) root) G1)"
          by (intro visited [OF G1(2,3) _ G1(4)])
        moreover have "?r = visit (hd (children_of G n)) (swap_to n (hd (children_of G n)) root) G1"
          using False True G1(1) by (simp add: visit_def F_def Let_def)
        ultimately show ?thesis by simp
      next
        case useful: False
        then have "useless G n = Inr False"
          using linkedD(1) [OF L n] by (auto simp: useless_def split: if_splits)
        then have "?r = visit n root G" using False by (simp add: visit_def F_def Let_def)
        then show ?thesis using visited [OF L n vis cleaned_refl k] by simp
      qed
    qed
  qed
qed (simp add: pass_ok_def)


text \<open>
  A \<^verbatim>\<open>commute\<close> (node 0) with an empty branch (node 1) and a branch with a task (node 2), joined by a \<^verbatim>\<open>select\<close>
  (node 3): the empty branch is removed.
\<close>

definition branch_graph :: "subseq graph" where
  "branch_graph = \<lparr>g_node = (\<lambda>_. \<lparr>dn_parents = [], dn_children = [], dn_contents = None, dn_depth = 0\<rparr>)
     (0 := \<lparr>dn_parents = [], dn_children = [1, 2], dn_contents = Some (new_subseq\<lparr>ss_type := COMMUTE, ss_tasks := [10]\<rparr>), dn_depth = 0\<rparr>,
      1 := \<lparr>dn_parents = [0], dn_children = [3], dn_contents = Some new_subseq, dn_depth = 1\<rparr>,
      2 := \<lparr>dn_parents = [0], dn_children = [3], dn_contents = Some (new_subseq\<lparr>ss_tasks := [11]\<rparr>), dn_depth = 1\<rparr>,
      3 := \<lparr>dn_parents = [1, 2], dn_children = [], dn_contents = Some (new_subseq\<lparr>ss_type := SELECT, ss_tasks := [12]\<rparr>), dn_depth = 2\<rparr>),
     g_next = 4\<rparr>"

lemma branch_linked: "linked (\<lambda>n. dn_depth (g_node branch_graph n)) branch_graph {0, 1, 2, 3}"
  by (simp add: linked_def branch_graph_def new_subseq_def)


end
