(* ===== verification/Bit_packer.thy ===== *)
theory Bit_packer
  imports Prelude Float32
begin

unbundle bit_operations_syntax

text \<open>
  \<^verbatim>\<open>tools::Bit_packer\<close> (\<^verbatim>\<open>Bit_packer.hxx\<close>): bits, one per element, packed \<open>Nbps\<close> at a time into symbols, from the
  low bit up or from the high bit down, frame by frame. The two template overloads (from a vector to a vector,
  in one vector) are the same loops on an other memory: the loops take the memory as an argument, with the
  access they use (\<open>rd\<close>, \<open>wr\<close>), which is \<open>None\<close> out of the memory. A symbol is a \<open>'s word\<close>, an element an
  \<open>'e word\<close>, read as a bit by \<open>\<noteq> 0\<close>.
\<close>

section \<open>One symbol\<close>

fun sym_lsb :: "nat \<Rightarrow> bool list \<Rightarrow> 's::len word \<Rightarrow> 's word" where
  "sym_lsb j [] symb = symb"
| "sym_lsb j (b # bs) symb = sym_lsb (Suc j) bs (symb OR push_bit j (of_bool b))"

fun sym_msb :: "bool list \<Rightarrow> 's::len word \<Rightarrow> 's word" where
  "sym_msb [] symb = symb"
| "sym_msb (b # bs) symb = sym_msb bs (push_bit 1 symb OR of_bool b)"

definition symbol :: "bool \<Rightarrow> bool list \<Rightarrow> 's::len word" where
  "symbol msb bs = (if \<not> msb then sym_lsb 0 bs 0 else push_bit (LENGTH('s) - length bs) (sym_msb bs (0 :: 's word)))"

fun read_bits :: "(nat \<Rightarrow> 'm \<Rightarrow> bool option) \<Rightarrow> nat \<Rightarrow> nat \<Rightarrow> 'm \<Rightarrow> bool list option" where
  "read_bits rd k 0 m = Some []"
| "read_bits rd k (Suc n) m = (case rd k m of None \<Rightarrow> None
     | Some b \<Rightarrow> (case read_bits rd (Suc k) n m of None \<Rightarrow> None | Some bs \<Rightarrow> Some (b # bs)))"

section \<open>One frame\<close>

text \<open>The \<open>nb\<close> bits from the element \<open>k\<close> go to the symbol \<open>p\<close>.\<close>

definition pack_at :: "(nat \<Rightarrow> 'm \<Rightarrow> bool option) \<Rightarrow> (nat \<Rightarrow> 's::len word \<Rightarrow> 'm \<Rightarrow> 'm option) \<Rightarrow> bool \<Rightarrow>
    nat \<times> nat \<times> nat \<Rightarrow> 'm \<Rightarrow> ('m, unit) outcome" where
  "pack_at rd wr msb job m = (case job of (k, p, nb) \<Rightarrow>
     (case read_bits rd k nb m of None \<Rightarrow> (Inl UB, m)
      | Some bs \<Rightarrow> (case wr p (symbol msb bs) m of None \<Rightarrow> (Inl UB, m) | Some m' \<Rightarrow> (Inr (), m'))))"

definition unpack_at :: "(nat \<Rightarrow> 'm \<Rightarrow> 's::len word option) \<Rightarrow> (nat \<Rightarrow> bool \<Rightarrow> 'm \<Rightarrow> 'm option) \<Rightarrow> bool \<Rightarrow>
    nat \<times> nat \<times> nat \<Rightarrow> 'm \<Rightarrow> ('m, unit) outcome" where
  "unpack_at rd wr msb job = (case job of (k, p, nb) \<Rightarrow> foreach (\<lambda>j m. (case rd p m of None \<Rightarrow> (Inl UB, m)
     | Some symb \<Rightarrow> (case wr (k + j) (bit symb (if msb then LENGTH('s) - 1 - j else j)) m of
         None \<Rightarrow> (Inl UB, m) | Some m' \<Rightarrow> (Inr (), m')))) [0..<nb])"

text \<open>
  The loops of \<^verbatim>\<open>_pack\<close> and \<^verbatim>\<open>_unpack\<close>: \<open>n_bits / Nbps\<close> whole symbols, then the rest. \<open>k\<close> and \<open>p\<close> are the
  positions of the pointers the caller passes.
\<close>

definition over_symbols :: "(nat \<times> nat \<times> nat \<Rightarrow> 'm \<Rightarrow> ('m, unit) outcome) \<Rightarrow> nat \<Rightarrow> nat \<Rightarrow> nat \<Rightarrow> nat \<Rightarrow> 'm \<Rightarrow> ('m, unit) outcome" where
  "over_symbols act k p n_bits Nbps m = (let n_symbs = n_bits div Nbps; rest = n_bits - n_symbs * Nbps in
     bindo (foreach (\<lambda>i. act (k + i * Nbps, p + i, Nbps)) [0..<n_symbs] m)
       (\<lambda>_ m'. if rest \<noteq> 0 then act (k + n_symbs * Nbps, p + n_symbs, rest) m' else (Inr (), m')))"

section \<open>Frames\<close>

text \<open>
  The overloads on pointers. The widths of the symbol and of the byte are those of the types; a number of bits
  is not negative.
\<close>

definition nbps_ok :: "nat \<Rightarrow> int \<Rightarrow> bool" where
  "nbps_ok w Nbps \<longleftrightarrow> Nbps \<le> int w \<and> 0 < Nbps"

definition over_frames :: "(nat \<times> nat \<times> nat \<Rightarrow> 'm \<Rightarrow> ('m, unit) outcome) \<Rightarrow> nat \<Rightarrow> nat \<Rightarrow> int \<Rightarrow> int \<Rightarrow> 'm \<Rightarrow> ('m, unit) outcome" where
  "over_frames act w n_bits n_frames Nbps m =
     (if \<not> nbps_ok w Nbps then (Inl Invalid_argument, m)
      else let n_symbs = float_ceil_div n_bits (nat Nbps) in
        foreach (\<lambda>f. over_symbols act (f * n_bits) (f * n_symbs) n_bits (nat Nbps)) [0..<nat n_frames] m)"

text \<open>From a vector to a vector: the memory is the pair of the two.\<close>

definition rd_elt :: "nat \<Rightarrow> 'e::len word list \<times> 's::len word list \<Rightarrow> bool option" where
  "rd_elt k m = (if k < length (fst m) then Some (fst m ! k \<noteq> 0) else None)"

definition wr_sym :: "nat \<Rightarrow> 's::len word \<Rightarrow> 'e::len word list \<times> 's word list \<Rightarrow> ('e word list \<times> 's word list) option" where
  "wr_sym p v m = (if p < length (snd m) then Some (fst m, (snd m)[p := v]) else None)"

definition rd_sym :: "nat \<Rightarrow> 'e::len word list \<times> 's::len word list \<Rightarrow> 's word option" where
  "rd_sym p m = (if p < length (snd m) then Some (snd m ! p) else None)"

definition wr_elt :: "nat \<Rightarrow> bool \<Rightarrow> 'e::len word list \<times> 's::len word list \<Rightarrow> ('e word list \<times> 's word list) option" where
  "wr_elt k b m = (if k < length (fst m) then Some ((fst m)[k := of_bool b], snd m) else None)"

definition pack_ptr :: "'e::len word list \<Rightarrow> 's::len word list \<Rightarrow> nat \<Rightarrow> int \<Rightarrow> bool \<Rightarrow> int \<Rightarrow> ('e word list \<times> 's word list, unit) outcome" where
  "pack_ptr vec_in vec_out n_bits n_frames msb Nbps =
     over_frames (pack_at rd_elt wr_sym msb) LENGTH('s) n_bits n_frames Nbps (vec_in, vec_out)"

definition unpack_ptr :: "'s::len word list \<Rightarrow> 'e::len word list \<Rightarrow> nat \<Rightarrow> int \<Rightarrow> bool \<Rightarrow> int \<Rightarrow> ('e word list \<times> 's word list, unit) outcome" where
  "unpack_ptr vec_in vec_out n_bits n_frames msb Nbps =
     over_frames (unpack_at rd_sym wr_elt msb) LENGTH('s) n_bits n_frames Nbps (vec_out, vec_in)"

text \<open>
  The overloads on vectors: the checks of the sizes, then the pointers. With \<open>pack_per_byte\<close> the symbols are the
  bytes of the other vector, \<open>sz\<close> bytes for each of its elements; the tests are on \<^verbatim>\<open>size_t\<close>.
\<close>

definition frames_guard :: "nat \<Rightarrow> int \<Rightarrow> exn + unit" where
  "frames_guard len n_frames = (if n_frames \<le> 0 then Inl Invalid_argument
     else if len mod nat n_frames \<noteq> 0 then Inl Length_error else Inr ())"

definition room :: "nat \<Rightarrow> nat \<Rightarrow> int \<Rightarrow> nat" where
  "room len sz Nbps = (len * sz * size_cast Nbps) mod 2 ^ 64"

definition pack_vec :: "nat \<Rightarrow> nat \<Rightarrow> 'e::len word list \<Rightarrow> 's::len word list \<Rightarrow> int \<Rightarrow> bool \<Rightarrow> int \<Rightarrow> ('e word list \<times> 's word list, unit) outcome" where
  "pack_vec out_size sz vec_in vec_out n_frames msb Nbps = (case frames_guard (length vec_in) n_frames of
     Inl e \<Rightarrow> (Inl e, (vec_in, vec_out))
   | Inr _ \<Rightarrow> if room out_size sz Nbps < length vec_in then (Inl Length_error, (vec_in, vec_out))
       else pack_ptr vec_in vec_out (length vec_in div nat n_frames) n_frames msb Nbps)"

definition pack_per_symbol :: "'e::len word list \<Rightarrow> 's::len word list \<Rightarrow> int \<Rightarrow> bool \<Rightarrow> int \<Rightarrow> ('e word list \<times> 's word list, unit) outcome" where
  "pack_per_symbol vec_in vec_out = pack_vec (length vec_out) 1 vec_in vec_out"

definition pack_per_byte :: "nat \<Rightarrow> 'e::len word list \<Rightarrow> 8 word list \<Rightarrow> int \<Rightarrow> bool \<Rightarrow> int \<Rightarrow> ('e word list \<times> 8 word list, unit) outcome" where
  "pack_per_byte sz vec_in bytes = pack_vec (length bytes div sz) sz vec_in bytes"

text \<open>\<^verbatim>\<open>unpack\<close> multiplies by the size of the elements of its output, not by the one of its input.\<close>

definition unpack_vec :: "nat \<Rightarrow> nat \<Rightarrow> 's::len word list \<Rightarrow> 'e::len word list \<Rightarrow> int \<Rightarrow> bool \<Rightarrow> int \<Rightarrow> ('e word list \<times> 's word list, unit) outcome" where
  "unpack_vec in_size sz vec_in vec_out n_frames msb Nbps = (case frames_guard (length vec_out) n_frames of
     Inl e \<Rightarrow> (Inl e, (vec_out, vec_in))
   | Inr _ \<Rightarrow> if room in_size sz Nbps < length vec_out then (Inl Length_error, (vec_out, vec_in))
       else unpack_ptr vec_in vec_out (length vec_out div nat n_frames) n_frames msb Nbps)"

definition unpack_per_symbol :: "'s::len word list \<Rightarrow> 'e::len word list \<Rightarrow> int \<Rightarrow> bool \<Rightarrow> int \<Rightarrow> ('e word list \<times> 's word list, unit) outcome" where
  "unpack_per_symbol vec_in vec_out = unpack_vec (length vec_in) 1 vec_in vec_out"

definition unpack_per_byte :: "nat \<Rightarrow> 8 word list \<Rightarrow> 'e::len word list \<Rightarrow> int \<Rightarrow> bool \<Rightarrow> int \<Rightarrow> ('e word list \<times> 8 word list, unit) outcome" where
  "unpack_per_byte sz bytes vec_out = unpack_vec (length bytes div sz) (LENGTH('e) div 8) bytes vec_out"

section \<open>In one vector\<close>

text \<open>
  The memory is the bytes of the vector, \<open>sb\<close> per element. \<^verbatim>\<open>unpack\<close> copies the symbols of each frame in
  \<open>bytes_cpy\<close>, which holds one frame, and reads it from the position of the frame in the vector.
\<close>

definition rd_byte_elt :: "nat \<Rightarrow> nat \<Rightarrow> 8 word list \<Rightarrow> bool option" where
  "rd_byte_elt sb k m = (if (k + 1) * sb \<le> length m then Some (list_ex (\<lambda>v. v \<noteq> 0) (take sb (drop (k * sb) m))) else None)"

definition wr_byte :: "nat \<Rightarrow> 8 word \<Rightarrow> 8 word list \<Rightarrow> 8 word list option" where
  "wr_byte p v m = (if p < length m then Some (m[p := v]) else None)"

definition wr_byte_elt :: "nat \<Rightarrow> nat \<Rightarrow> bool \<Rightarrow> 8 word list \<Rightarrow> 8 word list option" where
  "wr_byte_elt sb k b m = (if (k + 1) * sb \<le> length m
     then Some (take (k * sb) m @ of_bool b # replicate (sb - 1) 0 @ drop ((k + 1) * sb) m) else None)"

definition pack_in_place :: "nat \<Rightarrow> 8 word list \<Rightarrow> nat \<Rightarrow> int \<Rightarrow> bool \<Rightarrow> int \<Rightarrow> (8 word list, unit) outcome" where
  "pack_in_place sb vec n_bits n_frames msb Nbps = over_frames (pack_at (rd_byte_elt sb) wr_byte msb) 8 n_bits n_frames Nbps vec"

definition pack_vec_in_place :: "nat \<Rightarrow> 8 word list \<Rightarrow> int \<Rightarrow> bool \<Rightarrow> int \<Rightarrow> (8 word list, unit) outcome" where
  "pack_vec_in_place sb vec n_frames msb Nbps = (let len = length vec div sb in case frames_guard len n_frames of
     Inl e \<Rightarrow> (Inl e, vec) | Inr _ \<Rightarrow> pack_in_place sb vec (len div nat n_frames) n_frames msb Nbps)"

definition unpack_frame_in_place :: "nat \<Rightarrow> nat \<Rightarrow> nat \<Rightarrow> bool \<Rightarrow> nat \<Rightarrow> nat \<Rightarrow> 8 word list \<Rightarrow> (8 word list, unit) outcome" where
  "unpack_frame_in_place sb n_bits n_symbs msb Nbps f vec = (if (f + 1) * n_symbs > length vec then (Inl UB, vec)
     else let bytes_cpy = take n_symbs (drop (f * n_symbs) vec) in
       over_symbols (unpack_at (\<lambda>p _. if p < length bytes_cpy then Some (bytes_cpy ! p) else None) (wr_byte_elt sb) msb)
         (f * n_bits) (f * n_symbs) n_bits Nbps vec)"

definition unpack_in_place :: "nat \<Rightarrow> 8 word list \<Rightarrow> nat \<Rightarrow> int \<Rightarrow> bool \<Rightarrow> int \<Rightarrow> (8 word list, unit) outcome" where
  "unpack_in_place sb vec n_bits n_frames msb Nbps = (if \<not> nbps_ok 8 Nbps then (Inl Invalid_argument, vec)
     else foreach (unpack_frame_in_place sb n_bits (float_ceil_div n_bits (nat Nbps)) msb (nat Nbps)) [0..<nat n_frames] vec)"

definition unpack_vec_in_place :: "nat \<Rightarrow> 8 word list \<Rightarrow> int \<Rightarrow> bool \<Rightarrow> int \<Rightarrow> (8 word list, unit) outcome" where
  "unpack_vec_in_place sb vec n_frames msb Nbps = (let len = length vec div sb in case frames_guard len n_frames of
     Inl e \<Rightarrow> (Inl e, vec) | Inr _ \<Rightarrow> unpack_in_place sb vec (len div nat n_frames) n_frames msb Nbps)"

section \<open>The bits of a symbol\<close>

lemma bit_sym_lsb:
  "bit (sym_lsb j bs (symb :: 's::len word)) i \<longleftrightarrow>
    bit symb i \<or> (i < LENGTH('s) \<and> j \<le> i \<and> i < j + length bs \<and> bs ! (i - j))"
proof (induction bs arbitrary: j symb)
  case (Cons b bs)
  have "bit (symb OR push_bit j (of_bool b)) i \<longleftrightarrow> bit symb i \<or> (i < LENGTH('s) \<and> i = j \<and> b)"
    by (auto simp: bit_simps)
  with Cons show ?case by (cases "i = j") (auto simp: nth_Cons' Suc_diff_Suc)
qed auto

lemma bit_shift_in: "bit (push_bit 1 (symb :: 's::len word) OR of_bool b) i \<longleftrightarrow>
    i < LENGTH('s) \<and> (if i = 0 then b else bit symb (i - 1))"
  by (cases i) (auto simp: bit_or_iff bit_push_bit_iff bit_of_bool_iff simp del: push_bit_Suc push_bit_of_Suc_0 dest: bit_imp_le_length)

lemma bit_sym_msb:
  "bit (sym_msb bs (symb :: 's::len word)) i \<longleftrightarrow>
    i < LENGTH('s) \<and> (if i < length bs then bs ! (length bs - 1 - i) else bit symb (i - length bs))"
proof (induction bs arbitrary: symb)
  case Nil
  then show ?case by (auto dest: bit_imp_le_length)
next
  case (Cons b bs)
  show ?case
    unfolding sym_msb.simps Cons.IH bit_shift_in by (cases "i = length bs") (auto simp: nth_Cons' not_less)
qed

lemma bit_symbol:
  assumes "length bs \<le> LENGTH('s)" and "j < length bs"
  shows "bit (symbol msb bs :: 's::len word) (if msb then LENGTH('s) - 1 - j else j) \<longleftrightarrow> bs ! j"
proof (cases msb)
  case True
  have "bit (symbol True bs :: 's word) (LENGTH('s) - 1 - j) \<longleftrightarrow> bit (sym_msb bs (0 :: 's word)) (length bs - 1 - j)"
    using assms by (auto simp: symbol_def bit_simps)
  moreover have "length bs - 1 - j < length bs" and "length bs - 1 - (length bs - 1 - j) = j" using assms by auto
  ultimately show ?thesis using True assms by (simp only: bit_sym_msb) auto
qed (use assms in \<open>simp add: symbol_def bit_sym_lsb\<close>)

lemma read_bits_elt:
  "k + n \<le> length xs \<Longrightarrow> read_bits rd_elt k n (xs, sy) = Some (map (\<lambda>j. xs ! (k + j) \<noteq> 0) [0..<n])"
proof (induction n arbitrary: k)
  case (Suc n)
  from Suc.IH [of "Suc k"] Suc.prems have "read_bits rd_elt (Suc k) n (xs, sy) = Some (map (\<lambda>j. xs ! (Suc k + j) \<noteq> 0) [0..<n])" by simp
  moreover have "rd_elt k (xs, sy) = Some (xs ! k \<noteq> 0)" using Suc.prems by (simp add: rd_elt_def)
  ultimately show ?case by (simp add: upt_conv_Cons map_Suc_upt [symmetric] del: upt_Suc)
qed simp

section \<open>The loops, symbol by symbol\<close>

text \<open>The jobs of the loops, numbered by the symbol: its frame \<open>q div c\<close> and its position \<open>q mod c\<close> in the frame.\<close>

definition job_of :: "nat \<Rightarrow> nat \<Rightarrow> nat \<Rightarrow> nat \<times> nat \<times> nat" where
  "job_of n N q = (let c = ceil_div n N in
     ((q div c) * n + (q mod c) * N, q, min N (n - (q mod c) * N)))"

lemma ceil_div_parts:
  assumes N: "0 < N"
  shows "ceil_div n N = n div N + (if n mod N = 0 then 0 else 1)"
proof (cases "n = 0")
  case False
  define d r where "d = n div N" and "r = n mod N"
  have n: "n = d * N + r" "r < N" using N by (simp_all add: d_def r_def)
  have "(n + N - 1) div N = d + (if r = 0 then 0 else 1)"
    by (rule ceil_div_unique) (use N n False in \<open>auto simp: algebra_simps gr0_conv_Suc\<close>)
  then show ?thesis by (simp add: ceil_div_def d_def r_def)
qed (use N in \<open>simp add: ceil_div_def\<close>)

lemma bindo_return: "bindo m (\<lambda>_ s. (Inr (), s)) = m"
  by (cases m rule: is_ok.cases) auto

lemma foreach_one: "foreach f [x] = f x"
proof
  fix s
  have "foreach f [] = (\<lambda>s. (Inr (), s))" by (rule ext) simp
  then show "foreach f [x] s = f x s" by (simp add: bindo_return)
qed

lemma foreach_concat: "foreach f (concat xss) s = foreach (foreach f) xss s"
proof (induction xss arbitrary: s)
  case (Cons xs xss)
  then have "foreach f (concat xss) = foreach (foreach f) xss" by (simp add: fun_eq_iff)
  then show ?case by (simp add: foreach_append)
qed simp

lemma upt_block: "map (\<lambda>q. g (q div c) (q mod c)) [0..<F * c] = concat (map (\<lambda>f. map (g f) [0..<c]) [0..<F])"
proof (cases "c = 0")
  case False
  show ?thesis
  proof (induction F)
    case (Suc F)
    have "[0..<Suc F * c] = [0..<F * c] @ map (\<lambda>i. F * c + i) [0..<c]"
      using upt_add_eq_append [of 0 "F * c" c] by (simp add: map_add_upt add.commute)
    moreover have "map (\<lambda>i. g ((F * c + i) div c) ((F * c + i) mod c)) [0..<c] = map (g F) [0..<c]" by simp
    ultimately show ?case using Suc by (simp add: comp_def del: upt_Suc mult_Suc)  simp
  qed simp
qed simp

lemma over_symbols_jobs:
  assumes N: "0 < N"
  shows "over_symbols act k p n N m = foreach act (map (\<lambda>i. (k + i * N, p + i, min N (n - i * N))) [0..<ceil_div n N]) m"
proof -
  define d r where "d = n div N" and "r = n mod N"
  have n: "n = d * N + r" "r < N" using N by (simp_all add: d_def r_def)
  have rest: "n - d * N = r" by (simp add: d_def r_def minus_div_mult_eq_mod)
  have whole: "map (\<lambda>i. (k + i * N, p + i, min N (n - i * N))) [0..<d] = map (\<lambda>i. (k + i * N, p + i, N)) [0..<d]"
  proof (rule map_cong [OF refl])
    fix i
    assume "i \<in> set [0..<d]"
    then have "(i + 1) * N \<le> d * N" by (intro mult_right_mono) auto
    then have "N \<le> n - i * N" using n by (simp add: algebra_simps)
    then show "(k + i * N, p + i, min N (n - i * N)) = (k + i * N, p + i, N)" by simp
  qed
  have body: "over_symbols act k p n N m = bindo (foreach act (map (\<lambda>i. (k + i * N, p + i, min N (n - i * N))) [0..<d]) m)
      (\<lambda>_ m'. if r \<noteq> 0 then act (k + d * N, p + d, r) m' else (Inr (), m'))"
    unfolding over_symbols_def Let_def d_def [symmetric] rest whole foreach_map by (rule refl)
  show ?thesis
  proof (cases "r = 0")
    case True
    then have "ceil_div n N = d" using ceil_div_parts [OF N, of n] by (simp add: d_def r_def)
    with True show ?thesis unfolding body by (simp add: bindo_return)
  next
    case False
    then have c: "ceil_div n N = Suc d" using ceil_div_parts [OF N, of n] by (simp add: d_def r_def)
    have "min N (n - d * N) = r" using n by simp
    with False show ?thesis unfolding body c by (simp add: foreach_append foreach_one del: foreach.simps(2))
  qed
qed

text \<open>All the frames are one loop over the symbols.\<close>

lemma over_frames_jobs:
  assumes "nbps_ok w (int N)" and "n < 2 ^ 24" and "N < 2 ^ 24"
  shows "over_frames act w n (int F) (int N) m = foreach act (map (job_of n N) [0..<F * ceil_div n N]) m"
proof -
  have N: "0 < N" using assms(1) by (simp add: nbps_ok_def)
  let ?c = "ceil_div n N"
  have c: "float_ceil_div n N = ?c" using assms N by (intro float_ceil_div_exact) auto
  let ?job = "\<lambda>f i. (f * n + i * N, f * ?c + i, min N (n - i * N))"
  have "over_frames act w n (int F) (int N) m = foreach (\<lambda>f. foreach act (map (?job f) [0..<?c])) [0..<F] m"
  proof -
    have "over_symbols act (f * n) (f * ?c) n N = foreach act (map (?job f) [0..<?c])" for f
      by (rule ext) (rule over_symbols_jobs [OF N])
    with assms(1) show ?thesis by (simp add: over_frames_def c)
  qed
  also have "\<dots> = foreach act (concat (map (\<lambda>f. map (?job f) [0..<?c]) [0..<F])) m"
    by (simp add: foreach_concat foreach_map)
  also have "concat (map (\<lambda>f. map (?job f) [0..<?c]) [0..<F]) = map (job_of n N) [0..<F * ?c]"
    unfolding upt_block [symmetric] by (simp add: job_of_def Let_def div_mult_mod_eq)
  finally show ?thesis .
qed

lemma job_inside:
  assumes "0 < N" and "q < F * ceil_div n N" and "job_of n N q = (k, p, nb)"
  shows "p = q \<and> nb \<le> N \<and> k + nb \<le> F * n \<and> (q div ceil_div n N) * n \<le> k \<and> k + nb \<le> (q div ceil_div n N + 1) * n"
proof -
  let ?c = "ceil_div n N"
  have c: "0 < ?c" using assms(2) by (cases "?c") auto
  then have n: "0 < n" using assms(1) by (cases n) (auto simp: ceil_div_def)
  have f: "q div ?c < F" using assms(2) c by (simp add: less_mult_imp_div_less)
  have "q mod ?c \<le> ?c - 1" using c by (simp add: less_Suc_eq_le [symmetric])
  then have "q mod ?c * N \<le> (?c - 1) * N" by (rule mult_right_mono) simp
  also have "\<dots> < n" by (rule ceil_div_bounds(3) [OF assms(1) n])
  finally have "q mod ?c * N < n" .
  moreover have "(q div ?c + 1) * n \<le> F * n" using f by (intro mult_right_mono) auto
  ultimately show ?thesis using assms(3) by (auto simp: job_of_def Let_def)
qed

section \<open>What is written\<close>

lemma pack_jobs:
  assumes N: "0 < N" and len: "F * n \<le> length xs" and Q: "Q \<le> F * ceil_div n N" "F * ceil_div n N \<le> length sy"
  shows "\<exists>sy'. foreach (pack_at rd_elt wr_sym msb) (map (job_of n N) [0..<Q]) (xs, sy) = (Inr (), (xs, sy')) \<and>
    length sy' = length sy \<and> (\<forall>q < Q. \<exists>k nb. job_of n N q = (k, q, nb) \<and>
      sy' ! q = symbol msb (map (\<lambda>j. xs ! (k + j) \<noteq> 0) [0..<nb]))"
  using Q(1)
proof (induction Q)
  case (Suc Q)
  then obtain sy1 where 1: "foreach (pack_at rd_elt wr_sym msb) (map (job_of n N) [0..<Q]) (xs, sy) = (Inr (), (xs, sy1))"
    "length sy1 = length sy" "\<forall>q < Q. \<exists>k nb. job_of n N q = (k, q, nb) \<and>
      sy1 ! q = symbol msb (map (\<lambda>j. xs ! (k + j) \<noteq> 0) [0..<nb])" by auto
  obtain k p nb where j: "job_of n N Q = (k, p, nb)" by (cases "job_of n N Q")
  from job_inside [OF N _ j, of F] Suc.prems have in_xs: "p = Q" "k + nb \<le> length xs" using len by auto
  have "Q < length sy1" using Suc.prems Q(2) 1(2) by simp
  with in_xs j have "pack_at rd_elt wr_sym msb (job_of n N Q) (xs, sy1) =
      (Inr (), (xs, sy1[Q := symbol msb (map (\<lambda>j. xs ! (k + j) \<noteq> 0) [0..<nb])]))"
    by (simp add: pack_at_def read_bits_elt wr_sym_def)
  with 1 j in_xs \<open>Q < length sy1\<close> show ?case
    by (auto simp: foreach_append foreach_one nth_list_update less_Suc_eq simp del: foreach.simps(2))
qed simp

lemma unpack_one:
  fixes ys :: "'e::len word list"
  assumes "k + nb \<le> length ys" and "q < length (sy :: 's::len word list)"
  shows "\<exists>ys'. unpack_at rd_sym wr_elt msb (k, q, nb) (ys, sy) = (Inr (), (ys', sy)) \<and> length ys' = length ys \<and>
    (\<forall>j < nb. ys' ! (k + j) = of_bool (bit (sy ! q) (if msb then LENGTH('s) - 1 - j else j))) \<and>
    (\<forall>e. e < k \<longrightarrow> ys' ! e = ys ! e)"
  using assms(1)
proof (induction nb)
  case (Suc nb)
  then obtain ys1 where 1: "unpack_at rd_sym wr_elt msb (k, q, nb) (ys, sy) = (Inr (), (ys1, sy))" "length ys1 = length ys"
    "\<forall>j < nb. ys1 ! (k + j) = of_bool (bit (sy ! q) (if msb then LENGTH('s) - 1 - j else j))"
    "\<forall>e. e < k \<longrightarrow> ys1 ! e = ys ! e" by auto
  then have "unpack_at rd_sym wr_elt msb (k, q, Suc nb) (ys, sy) =
    (Inr (), (ys1[k + nb := of_bool (bit (sy ! q) (if msb then LENGTH('s) - 1 - nb else nb))], sy))"
    using Suc.prems assms(2) by (simp add: unpack_at_def foreach_append foreach_one rd_sym_def wr_elt_def del: foreach.simps(2))
  with 1 Suc.prems show ?case by (auto simp: nth_list_update less_Suc_eq)
qed (simp add: unpack_at_def)

lemma job_order:
  assumes "0 < N" and "q < q'" and "q' < F * ceil_div n N" and "job_of n N q = (k, p, nb)" and "job_of n N q' = (k', p', nb')"
  shows "k + nb \<le> k'"
proof -
  let ?c = "ceil_div n N"
  have q: "q < F * ?c" using assms(2,3) by simp
  show ?thesis
  proof (cases "q div ?c = q' div ?c")
    case True
    then have "q mod ?c < q' mod ?c" using assms(2) by (metis div_mult_mod_eq nat_add_left_cancel_less)
    then have "(q mod ?c + 1) * N \<le> q' mod ?c * N" by (intro mult_right_mono) auto
    with True assms(4,5) show ?thesis by (auto simp: job_of_def Let_def)
  next
    case False
    then have "q div ?c + 1 \<le> q' div ?c" using assms(2) div_le_mono [of q q' ?c] by simp
    then have "(q div ?c + 1) * n \<le> (q' div ?c) * n" by (rule mult_right_mono) simp
    with job_inside [OF assms(1) q assms(4)] job_inside [OF assms(1,3,5)] show ?thesis by simp
  qed
qed

lemma unpack_jobs:
  fixes ys :: "'e::len word list" and sy :: "'s::len word list"
  assumes N: "0 < N" and len: "F * n \<le> length ys" and Q: "Q \<le> F * ceil_div n N" "F * ceil_div n N \<le> length sy"
  shows "\<exists>ys'. foreach (unpack_at rd_sym wr_elt msb) (map (job_of n N) [0..<Q]) (ys, sy) = (Inr (), (ys', sy)) \<and>
    length ys' = length ys \<and> (\<forall>q < Q. \<forall>k nb. job_of n N q = (k, q, nb) \<longrightarrow>
      (\<forall>j < nb. ys' ! (k + j) = of_bool (bit (sy ! q) (if msb then LENGTH('s) - 1 - j else j))))"
  using Q(1)
proof (induction Q)
  case (Suc Q)
  then obtain ys1 where 1: "foreach (unpack_at rd_sym wr_elt msb) (map (job_of n N) [0..<Q]) (ys, sy) = (Inr (), (ys1, sy))"
    "length ys1 = length ys" "\<forall>q < Q. \<forall>k nb. job_of n N q = (k, q, nb) \<longrightarrow>
      (\<forall>j < nb. ys1 ! (k + j) = of_bool (bit (sy ! q) (if msb then LENGTH('s) - 1 - j else j)))" by auto
  obtain k p nb where j: "job_of n N Q = (k, p, nb)" by (cases "job_of n N Q")
  have Q': "Q < F * ceil_div n N" using Suc.prems by simp
  from job_inside [OF N Q' j] have in_ys: "p = Q" "k + nb \<le> length ys1" using len 1(2) by auto
  obtain ys2 where 2: "unpack_at rd_sym wr_elt msb (k, Q, nb) (ys1, sy) = (Inr (), (ys2, sy))" "length ys2 = length ys1"
    "\<forall>j < nb. ys2 ! (k + j) = of_bool (bit (sy ! Q) (if msb then LENGTH('s) - 1 - j else j))" "\<forall>e. e < k \<longrightarrow> ys2 ! e = ys1 ! e"
    using unpack_one [OF in_ys(2), of Q sy msb] Q' Q(2) by auto
  have "ys2 ! (k' + j) = of_bool (bit (sy ! q) (if msb then LENGTH('s) - 1 - j else j))"
    if q: "q < Suc Q" "job_of n N q = (k', q, nb')" "j < nb'" for q k' nb' j
  proof (cases "q = Q")
    case False
    then have "k' + nb' \<le> k" using job_order [OF N _ Q' q(2) j] q(1) by simp
    with q False 1(3) 2(4) show ?thesis by simp
  qed (use q 2(3) j in simp)
  with 1 2 j in_ys show ?case by (auto simp: foreach_append foreach_one simp del: foreach.simps(2))
qed simp

lemma job_at:
  assumes "0 < N" and "e < F * n"
  shows "\<exists>q k nb j. q < F * ceil_div n N \<and> job_of n N q = (k, q, nb) \<and> j < nb \<and> nb \<le> N \<and> k + j = e"
proof -
  let ?c = "ceil_div n N" and ?r = "e mod n"
  have n: "0 < n" using assms(2) by (cases n) auto
  then have r: "?r < n" by simp
  let ?i = "?r div N" and ?j = "?r mod N"
  have "?r < ?c * N" using r ceil_div_bounds(1) [OF assms(1) n] by linarith
  then have i: "?i < ?c" by (simp add: less_mult_imp_div_less)
  then have c: "0 < ?c" by simp
  let ?q = "e div n * ?c + ?i"
  have f: "e div n < F" using assms(2) by (simp add: less_mult_imp_div_less)
  have "?q < (e div n + 1) * ?c" using i by simp
  also have "\<dots> \<le> F * ?c" using f by (intro mult_right_mono) auto
  finally have q: "?q < F * ?c" .
  have "?i * N + ?j < n" using r by (simp only: div_mult_mod_eq)
  then have "?j < n - ?i * N" by linarith
  then have j: "?j < min N (n - ?i * N)" using mod_less_divisor [OF assms(1), of ?r] by (simp only: min_less_iff_conj)
  have e: "e div n * n + ?i * N + ?j = e" by (metis add.assoc div_mult_mod_eq)
  have "?q div ?c = e div n" "?q mod ?c = ?i" using i by simp_all
  then have "job_of n N ?q = (e div n * n + ?i * N, ?q, min N (n - ?i * N))" by (simp add: job_of_def Let_def)
  with q j e show ?thesis by (metis min.cobounded1)
qed

lemma pack_unpack_ptr:
  fixes xs ys :: "'e::len word list" and sy :: "'s::len word list"
  assumes N: "0 < N" "N \<le> LENGTH('s)" "N < 2 ^ 24" and n: "n < 2 ^ 24" and len: "length xs = F * n" "length ys = F * n"
    and room: "F * ceil_div n N \<le> length sy"
  shows "\<exists>sy'. pack_ptr xs sy n (int F) msb (int N) = (Inr (), (xs, sy')) \<and> length sy' = length sy \<and>
    unpack_ptr sy' ys n (int F) msb (int N) = (Inr (), (map (\<lambda>x. of_bool (x \<noteq> 0)) xs, sy'))"
proof -
  let ?Q = "F * ceil_div n N"
  have ok: "nbps_ok LENGTH('s) (int N)" using N by (simp add: nbps_ok_def)
  obtain sy' where sy': "foreach (pack_at rd_elt wr_sym msb) (map (job_of n N) [0..<?Q]) (xs, sy) = (Inr (), (xs, sy'))"
    "length sy' = length sy" "\<forall>q < ?Q. \<exists>k nb. job_of n N q = (k, q, nb) \<and>
      sy' ! q = symbol msb (map (\<lambda>j. xs ! (k + j) \<noteq> 0) [0..<nb])" using pack_jobs [OF N(1) eq_refl [OF len(1) [symmetric]] order_refl room] by blast
  have room': "?Q \<le> length sy'" using room sy'(2) by simp
  obtain ys' where ys': "foreach (unpack_at rd_sym wr_elt msb) (map (job_of n N) [0..<?Q]) (ys, sy') = (Inr (), (ys', sy'))"
    "length ys' = length ys" "\<forall>q < ?Q. \<forall>k nb. job_of n N q = (k, q, nb) \<longrightarrow>
      (\<forall>j < nb. ys' ! (k + j) = of_bool (bit (sy' ! q) (if msb then LENGTH('s) - 1 - j else j)))"
    using unpack_jobs [OF N(1) eq_refl [OF len(2) [symmetric]] order_refl room', of msb] by blast
  have "ys' ! e = of_bool (xs ! e \<noteq> 0)" if e: "e < F * n" for e
  proof -
    obtain q k nb j where j: "q < ?Q" "job_of n N q = (k, q, nb)" "j < nb" "nb \<le> N" "k + j = e" using job_at [OF N(1) e] by blast
    have "sy' ! q = symbol msb (map (\<lambda>j. xs ! (k + j) \<noteq> 0) [0..<nb])" using sy'(3) j(1,2) by auto
    then have "bit (sy' ! q) (if msb then LENGTH('s) - 1 - j else j) \<longleftrightarrow> xs ! (k + j) \<noteq> 0"
      using bit_symbol [of "map (\<lambda>j. xs ! (k + j) \<noteq> 0) [0..<nb]" j msb, where 's = 's] j N(2) by simp
    moreover have "ys' ! (k + j) = of_bool (bit (sy' ! q) (if msb then LENGTH('s) - 1 - j else j))" using ys'(3) j by blast
    ultimately show ?thesis using j(5) by simp
  qed
  then have "ys' = map (\<lambda>x. of_bool (x \<noteq> 0)) xs" by (intro nth_equalityI) (simp_all add: ys'(2) len)
  with sy' ys' show ?thesis by (simp add: pack_ptr_def unpack_ptr_def over_frames_jobs [OF ok n N(3)])
qed

text \<open>
  C23: For every number of bits per symbol the type allows, both orders of the bits, every number of frames (a
  last symbol of a frame that is not full included) and every content of the output, \<open>pack\<close> returns and
  \<open>unpack\<close> gives back the bits of the input: an element is 1 where the input is not 0. The output has room for
  \<open>\<lceil>n / Nbps\<rceil>\<close> symbols per frame, and the sizes are below 2^24, where the \<^verbatim>\<open>float\<close> division of the code is exact.
\<close>

theorem pack_unpack_roundtrip:
  fixes xs ys :: "'e::len word list" and sy :: "'s::len word list"
  assumes "0 < N" and "N \<le> LENGTH('s)" and "N < 2 ^ 24" and "0 < F" and "n < 2 ^ 24" and "length xs = F * n"
    and "length ys = F * n" and "F * ceil_div n N \<le> length sy" and "length sy * N < 2 ^ 64"
  shows "\<exists>sy'. pack_per_symbol xs sy (int F) msb (int N) = (Inr (), (xs, sy')) \<and> length sy' = length sy \<and>
    unpack_per_symbol sy' ys (int F) msb (int N) = (Inr (), (map (\<lambda>x. of_bool (x \<noteq> 0)) xs, sy'))"
proof -
  have "n \<le> ceil_div n N * N" using ceil_div_bounds(1) [OF assms(1), of n] by (cases n) auto
  then have "F * n \<le> F * ceil_div n N * N" by (simp add: mult.assoc)
  also have "\<dots> \<le> length sy * N" using assms(8) by (rule mult_right_mono) simp
  finally have enough: "F * n \<le> length sy * N" .
  have "N < 2 ^ 64" using assms(3) by simp
  then have cast: "size_cast (int N) = N" by (simp add: size_cast_def nat_mod_distrib)
  then have ok: "frames_guard (F * n) (int F) = Inr ()" "room (length sy) (Suc 0) (int N) = length sy * N" "F * n div F = n"
    using assms(4,9) by (simp_all add: frames_guard_def room_def)
  from pack_unpack_ptr [OF assms(1,2,3,5,6,7,8), of msb] obtain sy' where
    "pack_ptr xs sy n (int F) msb (int N) = (Inr (), (xs, sy'))" "length sy' = length sy"
    "unpack_ptr sy' ys n (int F) msb (int N) = (Inr (), (map (\<lambda>x. of_bool (x \<noteq> 0)) xs, sy'))" by blast
  then show ?thesis
    using enough by (intro exI [of _ sy']) (simp add: pack_per_symbol_def unpack_per_symbol_def pack_vec_def unpack_vec_def assms(6,7) ok)
qed

lemma pack_unpack_roundtrip_witness:
  "\<exists>sy'. pack_per_symbol [7, 0, 1, 1, 1, 0 :: 32 word] [9, 9, 9, 9 :: 8 word] (int 2) True (int 2) = (Inr (), ([7, 0, 1, 1, 1, 0], sy')) \<and>
     length sy' = length [9, 9, 9, 9 :: 8 word] \<and>
     unpack_per_symbol sy' [5, 5, 5, 5, 5, 5 :: 32 word] (int 2) True (int 2) =
       (Inr (), (map (\<lambda>x. of_bool (x \<noteq> 0)) [7, 0, 1, 1, 1, 0 :: 32 word], sy'))"
  by (rule pack_unpack_roundtrip [where n = 3]) (simp_all add: ceil_div_def)

section \<open>Where the checks are not enough\<close>

text \<open>
  The check of \<^verbatim>\<open>pack\<close> is on the number of bits: with two frames of three bits, two bits per symbol, three
  symbols have room for six bits, but each frame takes two symbols.
\<close>

lemma pack_writes_out_of_bounds:
  "fst (pack_per_symbol (replicate 6 (1 :: 8 word)) (replicate 3 (0 :: 8 word)) 2 False 2) = Inl UB"
proof -
  have "room 3 (Suc 0) 2 = 6" by (simp add: room_def size_cast_def)
  moreover have "over_frames (pack_at rd_elt wr_sym False) 8 3 2 2 m =
      foreach (pack_at rd_elt wr_sym False) (map (job_of 3 2) [0..<4]) m" for m :: "8 word list \<times> 8 word list"
    using over_frames_jobs [of 8 2 3 _ 2 m] by (simp add: nbps_ok_def ceil_div_def)
  moreover have "map (job_of 3 2) [0..<4] = [(0, 0, 2), (2, 1, 1), (3, 2, 2), (5, 3, 1)]"
    by (simp add: job_of_def ceil_div_def upt_rec)
  ultimately show ?thesis
    by (simp add: pack_per_symbol_def pack_vec_def frames_guard_def pack_ptr_def pack_at_def read_bits_elt wr_sym_def
        del: read_bits.simps)
qed

text \<open>In one vector, \<^verbatim>\<open>unpack\<close> works on one frame only: the second one is read out of the copy.\<close>

lemma unpack_in_place_second_frame:
  "fst (unpack_in_place 1 (replicate 4 0) 2 2 False 1) = Inl UB"
proof -
  have "float_ceil_div 2 1 = 2" by (simp add: float_ceil_div_exact ceil_div_def)
  moreover have "[0..<2] = [0, Suc 0]" by (simp add: upt_rec)
  ultimately show ?thesis
    by (simp add: unpack_in_place_def unpack_frame_in_place_def nbps_ok_def over_symbols_def unpack_at_def wr_byte_elt_def numeral_2_eq_2)
qed

end
