(* ===== verification/Thread_pool.thy ===== *)
theory Thread_pool
  imports Prelude
begin

text \<open>
  \<^verbatim>\<open>tools::Thread_pool_standard\<close> with its \<^verbatim>\<open>Thread_barrier_standard\<close>: \<open>n\<close> workers and the thread that owns the pool.
  Each access to a shared variable, a mutex or a condition variable is one step, so the threads interleave as
  on the machine. \<open>pool_step a\<close> is the step of the action \<open>a\<close>, \<open>None\<close> when the thread is blocked or elsewhere.

  A condition variable forgets a notification nobody waits for; the language allows a wait to end without one
  (\<open>Spurious\<close>). The function that the workers execute returns. \<open>p_crashed\<close> is \<^verbatim>\<open>std::terminate\<close>: an exception
  leaves the function of a thread.
\<close>

section \<open>State\<close>

text \<open>
  A worker is before: its initialisation, the test of the loop, the lock, the two operations of \<^verbatim>\<open>arrive\<close>, the
  wait, asleep, notified (and not yet in possession of the lock), the test after the wait, in the function, at
  the end of the body, finished.
\<close>

datatype wpc = W_off | W_init | W_head | W_lock | W_arrive | W_check | W_wait | W_sleep | W_wake | W_awake | W_exec
  | W_unlock | W_done

datatype mpc = M_new | M_init nat | M_wait | M_reset | M_idle | M_run nat | M_locked nat | M_notified nat | M_busy
  | M_dlock nat | M_dlocked nat | M_dnotified nat | M_join nat | M_gone

datatype owner = Free | By_main | By_worker

record pool =
  p_initialized :: bool
  p_stop :: bool
  p_func :: bool
  p_count :: nat
  p_mtx :: "nat \<Rightarrow> owner"
  p_pc :: "nat \<Rightarrow> wpc"
  p_main :: mpc
  p_crashed :: bool
  p_runs :: nat
  p_execs :: "nat \<Rightarrow> nat"

text \<open>\<open>p_func\<close>: a function is set (\<^verbatim>\<open>unset_func_exec\<close> puts one that throws). \<open>p_runs\<close> and \<open>p_execs\<close> count the
  calls of \<^verbatim>\<open>run\<close> and of the function.\<close>

definition new_pool :: pool where
  "new_pool = \<lparr>p_initialized = False, p_stop = False, p_func = False, p_count = 0, p_mtx = (\<lambda>_. Free),
     p_pc = (\<lambda>_. W_off), p_main = M_new, p_crashed = False, p_runs = 0, p_execs = (\<lambda>_. 0)\<rparr>"

abbreviation goto :: "nat \<Rightarrow> wpc \<Rightarrow> pool \<Rightarrow> pool" where
  "goto i c s \<equiv> s\<lparr>p_pc := (p_pc s)(i := c)\<rparr>"

abbreviation own :: "nat \<Rightarrow> owner \<Rightarrow> pool \<Rightarrow> pool" where
  "own i b s \<equiv> s\<lparr>p_mtx := (p_mtx s)(i := b)\<rparr>"

section \<open>The barrier\<close>

definition barrier_inc :: "nat \<Rightarrow> nat" where
  "barrier_inc c = (c + 1) mod 2 ^ 32"

definition barrier_check :: "nat \<Rightarrow> nat \<Rightarrow> exn + unit" where
  "barrier_check n c = (if c > n then Inl Runtime_error else Inr ())"

definition barrier_full :: "nat \<Rightarrow> nat \<Rightarrow> bool" where
  "barrier_full n c \<longleftrightarrow> c = n"

section \<open>The workers\<close>

definition worker_step :: "nat \<Rightarrow> nat \<Rightarrow> pool \<Rightarrow> pool option" where
  "worker_step n i s = (case p_pc s i of
     W_init \<Rightarrow> Some (goto i W_head s)
   | W_head \<Rightarrow> Some (goto i (if p_stop s then W_done else W_lock) s)
   | W_lock \<Rightarrow> if p_mtx s i = Free then Some (goto i W_arrive (own i By_worker s)) else None
   | W_arrive \<Rightarrow> Some (goto i W_check (s\<lparr>p_count := barrier_inc (p_count s)\<rparr>))
   | W_check \<Rightarrow> (case barrier_check n (p_count s) of Inl _ \<Rightarrow> Some (s\<lparr>p_crashed := True\<rparr>)
       | Inr _ \<Rightarrow> Some (goto i W_wait s))
   | W_wait \<Rightarrow> Some (goto i W_sleep (own i Free s))
   | W_wake \<Rightarrow> if p_mtx s i = Free then Some (goto i W_awake (own i By_worker s)) else None
   | W_awake \<Rightarrow> if p_stop s then Some (goto i W_unlock s)
       else if p_func s then Some (goto i W_exec s) else Some (s\<lparr>p_crashed := True\<rparr>)
   | W_exec \<Rightarrow> Some (goto i W_unlock (s\<lparr>p_execs := (p_execs s)(i := p_execs s i + 1)\<rparr>))
   | W_unlock \<Rightarrow> Some (goto i W_head (own i Free s))
   | _ \<Rightarrow> None)"

section \<open>The owner\<close>

text \<open>
  The owner constructs the pool and calls \<^verbatim>\<open>init\<close>, which spawns the workers and waits; then it calls \<^verbatim>\<open>run(f, true)\<close>
  (\<open>Run\<close>), later \<^verbatim>\<open>wait\<close> (\<open>Wait\<close>), \<^verbatim>\<open>unset_func_exec\<close> (\<open>Unset\<close>) and the destructor (\<open>Destroy\<close>; \<open>Destroy_busy\<close>
  when it did not wait). \<open>Go\<close> is the next step of a call under way.
\<close>

datatype action = Go | Run | Wait | Unset | Destroy | Destroy_busy | Worker nat | Spurious nat

definition notify :: "nat \<Rightarrow> pool \<Rightarrow> pool" where
  "notify i s = (if p_pc s i = W_sleep then goto i W_wake s else s)"

definition init_guard_pool :: "pool \<Rightarrow> exn + unit" where
  "init_guard_pool s = (if p_initialized s then Inl Runtime_error else Inr ())"

definition owner_go :: "nat \<Rightarrow> pool \<Rightarrow> pool option" where
  "owner_go n s = (case p_main s of
     M_new \<Rightarrow> (case init_guard_pool s of Inl _ \<Rightarrow> None | Inr _ \<Rightarrow> Some (s\<lparr>p_main := M_init 0\<rparr>))
   | M_init i \<Rightarrow> Some (if i < n then goto i W_init (s\<lparr>p_main := M_init (Suc i)\<rparr>) else s\<lparr>p_main := M_wait\<rparr>)
   | M_wait \<Rightarrow> if barrier_full n (p_count s) then Some (s\<lparr>p_main := M_reset\<rparr>) else None
   | M_reset \<Rightarrow> Some (s\<lparr>p_count := 0, p_initialized := True, p_main := M_idle\<rparr>)
   | M_run i \<Rightarrow> if i < n then (if p_mtx s i = Free then Some (own i By_main (s\<lparr>p_main := M_locked i\<rparr>)) else None)
       else Some (s\<lparr>p_main := M_busy\<rparr>)
   | M_locked i \<Rightarrow> Some (notify i (s\<lparr>p_main := M_notified i\<rparr>))
   | M_notified i \<Rightarrow> Some (own i Free (s\<lparr>p_main := M_run (Suc i)\<rparr>))
   | M_dlock i \<Rightarrow> if i < n then (if p_mtx s i = Free then Some (own i By_main (s\<lparr>p_main := M_dlocked i\<rparr>)) else None)
       else Some (s\<lparr>p_main := M_join 0\<rparr>)
   | M_dlocked i \<Rightarrow> Some (notify i (s\<lparr>p_main := M_dnotified i\<rparr>))
   | M_dnotified i \<Rightarrow> Some (own i Free (s\<lparr>p_main := M_dlock (Suc i)\<rparr>))
   | M_join i \<Rightarrow> if i < n then (if p_pc s i = W_done then Some (s\<lparr>p_main := M_join (Suc i)\<rparr>) else None)
       else Some (s\<lparr>p_main := M_gone\<rparr>)
   | _ \<Rightarrow> None)"

definition run_call :: "pool \<Rightarrow> exn + pool" where
  "run_call s = (let s1 = s\<lparr>p_func := True\<rparr> in
     if \<not> p_initialized s1 then Inl Runtime_error else Inr (s1\<lparr>p_main := M_run 0, p_runs := p_runs s1 + 1\<rparr>))"

fun pool_step :: "nat \<Rightarrow> action \<Rightarrow> pool \<Rightarrow> pool option" where
  "pool_step n Go s = owner_go n s"
| "pool_step n Run s = (if p_main s = M_idle then (case run_call s of Inl _ \<Rightarrow> None | Inr s' \<Rightarrow> Some s') else None)"
| "pool_step n Wait s = (if p_main s = M_busy then Some (s\<lparr>p_main := M_wait\<rparr>) else None)"
| "pool_step n Unset s = (if p_main s = M_idle then Some (s\<lparr>p_func := False\<rparr>) else None)"
| "pool_step n Destroy s = (if p_main s = M_idle then Some (s\<lparr>p_stop := True, p_main := M_dlock 0\<rparr>) else None)"
| "pool_step n Destroy_busy s = (if p_main s = M_busy then Some (s\<lparr>p_stop := True, p_main := M_dlock 0\<rparr>) else None)"
| "pool_step n (Worker i) s = (if i < n then worker_step n i s else None)"
| "pool_step n (Spurious i) s = (if i < n \<and> p_pc s i = W_sleep then Some (goto i W_wake s) else None)"

fun pool_trace :: "nat \<Rightarrow> action list \<Rightarrow> pool \<Rightarrow> pool option" where
  "pool_trace n [] s = Some s"
| "pool_trace n (a # acts) s = (case pool_step n a s of None \<Rightarrow> None | Some s' \<Rightarrow> pool_trace n acts s')"

inductive pool_reach :: "(action \<Rightarrow> bool) \<Rightarrow> nat \<Rightarrow> pool \<Rightarrow> bool" for allowed n where
  start: "pool_reach allowed n new_pool"
| move: "pool_reach allowed n s \<Longrightarrow> allowed a \<Longrightarrow> \<not> p_crashed s \<Longrightarrow> pool_step n a s = Some s' \<Longrightarrow> pool_reach allowed n s'"

text \<open>No wait ends by itself, and the owner waits before it destroys the pool.\<close>

fun calm :: "action \<Rightarrow> bool" where
  "calm (Spurious _) = False"
| "calm Destroy_busy = False"
| "calm _ = True"

section \<open>The invariant\<close>

text \<open>
  A cycle is the initialisation or a \<^verbatim>\<open>run\<close>: the workers below \<open>released\<close> have been let go in the current cycle,
  the others stand where they were at the end of the last one. A \<open>late\<close> worker has counted itself, a \<open>fresh\<close>
  one has still to execute the function.
\<close>

fun released :: "nat \<Rightarrow> mpc \<Rightarrow> nat" where
  "released n M_new = 0"
| "released n (M_init j) = j"
| "released n M_idle = 0"
| "released n (M_run j) = j"
| "released n (M_locked j) = j"
| "released n (M_notified j) = Suc j"
| "released n (M_dlock j) = j"
| "released n (M_dlocked j) = j"
| "released n (M_dnotified j) = Suc j"
| "released n _ = n"

fun place_ok :: "nat \<Rightarrow> mpc \<Rightarrow> bool" where
  "place_ok n (M_init j) = (j \<le> n)"
| "place_ok n (M_run j) = (j \<le> n)"
| "place_ok n (M_locked j) = (j < n)"
| "place_ok n (M_notified j) = (j < n)"
| "place_ok n (M_dlock j) = (j \<le> n)"
| "place_ok n (M_dlocked j) = (j < n)"
| "place_ok n (M_dnotified j) = (j < n)"
| "place_ok n (M_join j) = (j \<le> n)"
| "place_ok n _ = True"

fun stopping :: "mpc \<Rightarrow> bool" where
  "stopping (M_dlock _) = True"
| "stopping (M_dlocked _) = True"
| "stopping (M_dnotified _) = True"
| "stopping (M_join _) = True"
| "stopping M_gone = True"
| "stopping _ = False"

fun holds_lock :: "mpc \<Rightarrow> nat \<Rightarrow> bool" where
  "holds_lock (M_locked j) i = (i = j)"
| "holds_lock (M_notified j) i = (i = j)"
| "holds_lock (M_dlocked j) i = (i = j)"
| "holds_lock (M_dnotified j) i = (i = j)"
| "holds_lock _ i = False"

fun unborn :: "mpc \<Rightarrow> nat \<Rightarrow> bool" where
  "unborn M_new i = True"
| "unborn (M_init j) i = (j \<le> i)"
| "unborn _ i = False"

definition late :: "wpc \<Rightarrow> bool" where
  "late c \<longleftrightarrow> c = W_check \<or> c = W_wait \<or> c = W_sleep"

definition fresh :: "wpc \<Rightarrow> bool" where
  "fresh c \<longleftrightarrow> c = W_wake \<or> c = W_awake \<or> c = W_exec"

definition inside :: "wpc \<Rightarrow> bool" where
  "inside c \<longleftrightarrow> c = W_arrive \<or> c = W_check \<or> c = W_wait \<or> c = W_awake \<or> c = W_exec \<or> c = W_unlock"

definition leaving :: "wpc \<Rightarrow> bool" where
  "leaving c \<longleftrightarrow> c = W_wake \<or> c = W_awake \<or> c = W_unlock \<or> c = W_head \<or> c = W_done"

definition lock_ok :: "owner \<Rightarrow> mpc \<Rightarrow> nat \<Rightarrow> wpc \<Rightarrow> bool" where
  "lock_ok b m i c \<longleftrightarrow> (b = By_worker) = inside c \<and> (b = By_main) = holds_lock m i"

definition where_ok :: "nat \<Rightarrow> mpc \<Rightarrow> nat \<Rightarrow> nat \<Rightarrow> wpc \<Rightarrow> nat \<Rightarrow> bool" where
  "where_ok n m runs i c execs \<longleftrightarrow>
     (if unborn m i then c = W_off \<and> execs = 0 \<and> runs = 0
      else if stopping m then execs = runs \<and> (if i < released n m then leaving c else late c)
      else if i < released n m then c \<noteq> W_off \<and> c \<noteq> W_done \<and> execs + of_bool (fresh c) = runs
      else late c \<and> execs + of_bool (m \<noteq> M_idle) = runs)"

definition worker_ok :: "nat \<Rightarrow> pool \<Rightarrow> nat \<Rightarrow> bool" where
  "worker_ok n s i \<longleftrightarrow> lock_ok (p_mtx s i) (p_main s) i (p_pc s i) \<and>
     where_ok n (p_main s) (p_runs s) i (p_pc s i) (p_execs s i)"

fun func_ok :: "mpc \<Rightarrow> bool \<Rightarrow> nat \<Rightarrow> bool" where
  "func_ok (M_run _) f r = (f \<and> 0 < r)"
| "func_ok (M_locked _) f r = (f \<and> 0 < r)"
| "func_ok (M_notified _) f r = (f \<and> 0 < r)"
| "func_ok M_busy f r = (f \<and> 0 < r)"
| "func_ok M_new f r = (r = 0)"
| "func_ok (M_init _) f r = (r = 0)"
| "func_ok M_wait f r = (f \<or> r = 0)"
| "func_ok M_reset f r = (f \<or> r = 0)"
| "func_ok _ f r = True"

definition arrived :: "nat \<Rightarrow> pool \<Rightarrow> nat set" where
  "arrived n s = {i. i < released n (p_main s) \<and> late (p_pc s i)}"

definition count_ok :: "nat \<Rightarrow> pool \<Rightarrow> bool" where
  "count_ok n s \<longleftrightarrow> p_count s = (if stopping (p_main s) then 0 else card (arrived n s)) \<and>
     (p_main s = M_reset \<longrightarrow> p_count s = n)"

definition pool_ok :: "nat \<Rightarrow> pool \<Rightarrow> bool" where
  "pool_ok n s \<longleftrightarrow> \<not> p_crashed s \<and> place_ok n (p_main s) \<and> p_stop s = stopping (p_main s) \<and>
     func_ok (p_main s) (p_func s) (p_runs s) \<and> (p_main s = M_new \<longrightarrow> \<not> p_initialized s) \<and> (p_main s = M_idle \<longrightarrow> p_initialized s) \<and>
     count_ok n s \<and> (\<forall>i < n. worker_ok n s i)"

lemma released_le: "place_ok n m \<Longrightarrow> released n m \<le> n"
  by (cases m) auto

lemma arrived_sub: "place_ok n (p_main s) \<Longrightarrow> arrived n s \<subseteq> {..<n}"
  using released_le [of n "p_main s"] by (auto simp: arrived_def)

lemma card_arrived: "place_ok n (p_main s) \<Longrightarrow> card (arrived n s) \<le> n"
  using card_mono [OF _ arrived_sub, of n s] by simp

lemmas pc_sets = late_def fresh_def inside_def leaving_def

lemma func_set:
  assumes "pool_ok n s" and "i < n" and "p_pc s i = W_awake" and "\<not> p_stop s"
  shows "p_func s"
proof -
  have "where_ok n (p_main s) (p_runs s) i W_awake (p_execs s i)" "func_ok (p_main s) (p_func s) (p_runs s)" "\<not> stopping (p_main s)"
    using assms by (auto simp: pool_ok_def worker_ok_def)
  then show ?thesis by (cases "p_main s") (auto simp: where_ok_def pc_sets split: if_splits)
qed

lemma arrived_goto:
  "arrived n (goto i c s) = (if i < released n (p_main s) \<and> late c then insert i (arrived n s) else arrived n s - {i})"
  by (auto simp: arrived_def)

text \<open>A step of a worker that changes its own place only, and counts itself when it becomes late.\<close>

lemma worker_moves:
  assumes ok: "pool_ok n s" and i: "i < n"
    and s': "s' = s\<lparr>p_pc := (p_pc s)(i := c), p_mtx := (p_mtx s)(i := b), p_execs := (p_execs s)(i := x), p_count := k\<rparr>"
    and own: "lock_ok b (p_main s) i c" and at_i: "where_ok n (p_main s) (p_runs s) i c x"
    and count: "k = p_count s + of_bool (late c \<and> \<not> late (p_pc s i))" and bk: "late (p_pc s i) \<Longrightarrow> late c"
    and goes: "late c \<and> \<not> late (p_pc s i) \<Longrightarrow> \<not> stopping (p_main s) \<and> i < released n (p_main s)"
  shows "pool_ok n s'"
proof -
  have "worker_ok n s' j" if "j < n" for j
    using ok own at_i that by (cases "j = i") (auto simp: s' pool_ok_def worker_ok_def)
  moreover have "count_ok n s'"
  proof -
    have c0: "count_ok n s" using ok by (simp add: pool_ok_def)
    show ?thesis
    proof (cases "late c \<and> \<not> late (p_pc s i)")
      case True
      then have K: "\<not> stopping (p_main s)" "i < released n (p_main s)" using goes by auto
      have "arrived n s' = insert i (arrived n s)" using True K by (auto simp: arrived_def s')
      moreover have "i \<notin> arrived n s" using True by (simp add: arrived_def)
      moreover have fin: "finite (arrived n s)" "card (insert i (arrived n s)) \<le> n"
      proof -
        have sub: "arrived n s \<subseteq> {..<n}" using ok by (intro arrived_sub) (simp add: pool_ok_def)
        then show "finite (arrived n s)" by (rule finite_subset) simp
        from sub i have "insert i (arrived n s) \<subseteq> {..<n}" by auto
        then show "card (insert i (arrived n s)) \<le> n" using card_mono [of "{..<n}"] by simp
      qed
      ultimately show ?thesis using c0 True K count by (auto simp: count_ok_def s')
    next
      case False
      then have "late c = late (p_pc s i)" using bk by auto
      then have "arrived n s' = arrived n s" by (auto simp: arrived_def s')
      with False c0 count show ?thesis by (auto simp: count_ok_def s')
    qed
  qed
  ultimately show ?thesis using ok by (simp add: pool_ok_def s')
qed

lemma not_all:
  assumes "pool_ok n s" and "i < n" and "\<not> late (p_pc s i)" and "\<not> stopping (p_main s)"
  shows "p_count s < n"
proof -
  have "arrived n s \<subseteq> {..<n} - {i}"
    using assms arrived_sub [of n s] by (auto simp: pool_ok_def arrived_def)
  then have "card (arrived n s) \<le> card ({..<n} - {i})" by (intro card_mono) auto
  with assms show ?thesis by (auto simp: pool_ok_def count_ok_def)
qed

lemma worker_keeps:
  assumes ok: "pool_ok n s" and i: "i < n" and n: "n < 2 ^ 32" and step: "worker_step n i s = Some s'"
  shows "pool_ok n s'"
proof -
  let ?m = "p_main s" and ?c = "p_pc s i"
  have lk: "lock_ok (p_mtx s i) ?m i ?c" and wh: "where_ok n ?m (p_runs s) i ?c (p_execs s i)" and stop: "p_stop s = stopping ?m"
    using ok i by (auto simp: pool_ok_def worker_ok_def)
  have le: "p_count s \<le> n"
    using ok card_arrived [of n s] by (auto simp: pool_ok_def count_ok_def)
  note moves = worker_moves [OF ok i]
  note sets = pc_sets lock_ok_def where_ok_def
  show ?thesis
  proof (cases ?c)
    case W_init
    show ?thesis
      by (rule moves [where c = W_head and b = "p_mtx s i" and x = "p_execs s i" and k = "p_count s"])
        (use step lk wh W_init in \<open>auto simp: worker_step_def sets split: if_splits\<close>)
  next
    case W_head
    show ?thesis
      by (rule moves [where c = "if p_stop s then W_done else W_lock" and b = "p_mtx s i" and x = "p_execs s i" and k = "p_count s"])
        (use step lk wh stop W_head in \<open>auto simp: worker_step_def sets split: if_splits\<close>)
  next
    case W_lock
    show ?thesis
      by (rule moves [where c = W_arrive and b = By_worker and x = "p_execs s i" and k = "p_count s"])
        (use step lk wh W_lock in \<open>auto simp: worker_step_def sets split: if_splits\<close>)
  next
    case W_arrive
    have "p_count s < n" using not_all [OF ok i] W_arrive wh by (auto simp: sets split: if_splits)
    then have inc: "barrier_inc (p_count s) = p_count s + 1" using n by (simp add: barrier_inc_def)
    show ?thesis
    proof (rule moves [where c = W_check and b = "p_mtx s i" and x = "p_execs s i" and k = "p_count s + 1"], goal_cases)
      case 1
      then show ?case using step W_arrive inc by (auto simp: worker_step_def)
    qed (use lk wh W_arrive in \<open>auto simp: sets split: if_splits\<close>)
  next
    case W_check
    show ?thesis
    proof (rule moves [where c = W_wait and b = "p_mtx s i" and x = "p_execs s i" and k = "p_count s"], goal_cases)
      case 1
      then show ?case using step W_check le by (auto simp: worker_step_def barrier_check_def)
    qed (use lk wh W_check in \<open>auto simp: sets split: if_splits\<close>)
  next
    case W_wait
    show ?thesis
      by (rule moves [where c = W_sleep and b = Free and x = "p_execs s i" and k = "p_count s"])
        (use step lk wh W_wait in \<open>auto simp: worker_step_def sets split: if_splits\<close>)
  next
    case W_wake
    show ?thesis
      by (rule moves [where c = W_awake and b = By_worker and x = "p_execs s i" and k = "p_count s"])
        (use step lk wh W_wake in \<open>auto simp: worker_step_def sets split: if_splits\<close>)
  next
    case W_awake
    show ?thesis
    proof (rule moves [where c = "if p_stop s then W_unlock else W_exec" and b = "p_mtx s i" and x = "p_execs s i" and k = "p_count s"],
        goal_cases)
      case 1
      then show ?case using step W_awake func_set [OF ok i W_awake] by (auto simp: worker_step_def split: if_splits)
    qed (use lk wh W_awake stop in \<open>auto simp: sets split: if_splits\<close>)
  next
    case W_exec
    show ?thesis
    proof (rule moves [where c = W_unlock and b = "p_mtx s i" and x = "p_execs s i + 1" and k = "p_count s"], goal_cases)
      case 1
      then show ?case using step W_exec by (auto simp: worker_step_def)
    qed (use lk wh W_exec in \<open>auto simp: sets split: if_splits\<close>)
  next
    case W_unlock
    show ?thesis
      by (rule moves [where c = W_head and b = Free and x = "p_execs s i" and k = "p_count s"])
        (use step lk wh W_unlock in \<open>auto simp: worker_step_def sets split: if_splits\<close>)
  qed (use step in \<open>simp_all add: worker_step_def\<close>)
qed

lemma all_arrived:
  assumes "pool_ok n s" and "\<not> stopping (p_main s)" and "p_count s = n" and "i < n"
  shows "late (p_pc s i)"
  using not_all [OF assms(1,4) _ assms(2)] assms(3) by auto

text \<open>A step of the owner inside a call.\<close>

lemma owner_moves:
  assumes ok: "pool_ok n s" and s': "s' = s\<lparr>p_main := m, p_pc := pc, p_mtx := mtx\<rparr>"
    and same: "place_ok n m" "stopping m = stopping (p_main s)" "func_ok m (p_func s) (p_runs s)" "m \<noteq> M_new" "m \<noteq> M_idle"
      "m = M_reset \<longrightarrow> p_count s = n"
    and workers: "\<And>i. i < n \<Longrightarrow> worker_ok n s i \<Longrightarrow> worker_ok n s' i"
    and late: "\<And>i. i < n \<Longrightarrow> \<not> stopping m \<Longrightarrow> (i < released n m \<and> late (pc i)) = (i < released n (p_main s) \<and> late (p_pc s i))"
  shows "pool_ok n s'"
proof -
  have "count_ok n s'"
  proof (cases "stopping m")
    case False
    have "released n m \<le> n" "released n (p_main s) \<le> n" using ok same(1) by (auto intro!: released_le simp: pool_ok_def)
    with late False have "arrived n s' = arrived n s" unfolding arrived_def s' by simp (meson order_less_le_trans)
    with ok same False show ?thesis by (auto simp: pool_ok_def count_ok_def s')
  next
    case True
    with ok same show ?thesis by (auto simp: pool_ok_def count_ok_def s')
  qed
  with ok same workers show ?thesis by (auto simp: pool_ok_def s')
qed

lemma owner_touches:
  assumes ok: "pool_ok n s" and i: "i < n"
    and s': "s' = s\<lparr>p_main := m, p_pc := (p_pc s)(i := c), p_mtx := (p_mtx s)(i := b)\<rparr>"
    and same: "place_ok n m" "stopping m = stopping (p_main s)" "func_ok m (p_func s) (p_runs s)" "m \<notin> {M_new, M_idle, M_reset}"
    and at_i: "lock_ok b m i c" "where_ok n m (p_runs s) i c (p_execs s i)"
      "\<not> stopping m \<Longrightarrow> (i < released n m \<and> late c) = (i < released n (p_main s) \<and> late (p_pc s i))"
    and others: "\<And>j. j \<noteq> i \<Longrightarrow> holds_lock m j = holds_lock (p_main s) j" "\<And>j. j \<noteq> i \<Longrightarrow> unborn m j = unborn (p_main s) j"
      "\<And>j. j \<noteq> i \<Longrightarrow> (j < released n m) = (j < released n (p_main s))" "p_main s \<noteq> M_idle"
  shows "pool_ok n s'"
proof (rule owner_moves [OF ok s'])
  fix j
  assume j: "j < n" and w: "worker_ok n s j"
  show "worker_ok n s' j"
  proof (cases "j = i")
    case True
    then show ?thesis using at_i by (simp add: worker_ok_def s')
  next
    case False
    then show ?thesis using w others same by (auto simp: worker_ok_def lock_ok_def where_ok_def s' split: if_splits)
  qed
next
  fix j
  assume "j < n" and "\<not> stopping m"
  then show "(j < released n m \<and> late (((p_pc s)(i := c)) j)) = (j < released n (p_main s) \<and> late (p_pc s j))"
    using at_i(3) others(3) by (cases "j = i") simp_all
qed (use same in auto)

lemma owner_goes:
  assumes ok: "pool_ok n s" and s': "s' = s\<lparr>p_main := m\<rparr>"
    and same: "place_ok n m" "stopping m = stopping (p_main s)" "func_ok m (p_func s) (p_runs s)" "m \<noteq> M_new" "m \<noteq> M_idle" "p_main s \<noteq> M_idle"
      "m = M_reset \<longrightarrow> p_count s = n"
    and all: "\<And>j. j < n \<Longrightarrow> holds_lock m j = holds_lock (p_main s) j" "\<And>j. j < n \<Longrightarrow> unborn m j = unborn (p_main s) j"
      "\<And>j. j < n \<Longrightarrow> (j < released n m) = (j < released n (p_main s))"
  shows "pool_ok n s'"
proof (rule owner_moves [OF ok, where m = m and pc = "p_pc s" and mtx = "p_mtx s"])
  fix j
  assume "j < n" and "worker_ok n s j"
  then show "worker_ok n s' j"
    using all [of j] same by (auto simp: worker_ok_def lock_ok_def where_ok_def s' split: if_splits)
qed (use s' same all in auto)

lemma owner_facts:
  assumes "pool_ok n s"
  shows "func_ok (p_main s) (p_func s) (p_runs s)" and "place_ok n (p_main s)"
    and "i < n \<Longrightarrow> lock_ok (p_mtx s i) (p_main s) i (p_pc s i)"
    and "i < n \<Longrightarrow> where_ok n (p_main s) (p_runs s) i (p_pc s i) (p_execs s i)"
  using assms by (auto simp: pool_ok_def worker_ok_def)

lemmas place_sets = pc_sets lock_ok_def where_ok_def worker_ok_def

lemma owner_keeps_init:
  assumes ok: "pool_ok n s" and step: "owner_go n s = Some s'" and "p_main s = M_new \<or> (\<exists>i. p_main s = M_init i) \<or> p_main s = M_wait"
  shows "pool_ok n s'"
proof (cases "p_main s")
  case M_new
  show ?thesis
  proof (rule owner_goes [OF ok, where m = "M_init 0"], goal_cases)
    case 1
    then show ?case using step M_new by (auto simp: owner_go_def init_guard_pool_def split: if_splits)
  qed (use owner_facts(1,2) [OF ok] M_new in auto)
next
  case (M_init i)
  show ?thesis
  proof (cases "i < n")
    case True
    show ?thesis
    proof (rule owner_touches [OF ok True, where m = "M_init (Suc i)" and c = W_init and b = "p_mtx s i"], goal_cases)
      case 1
      then show ?case using step M_init True by (auto simp: owner_go_def notify_def split: if_splits)
    qed (use owner_facts(1) [OF ok] owner_facts(3,4) [OF ok True] M_init True in \<open>auto simp: place_sets split: if_splits\<close>)
  next
    case False
    show ?thesis
    proof (rule owner_goes [OF ok, where m = M_wait], goal_cases)
      case 1
      then show ?case using step M_init False by (auto simp: owner_go_def init_guard_pool_def split: if_splits)
    qed (use owner_facts(1,2) [OF ok] M_init False in auto)
  qed
next
  case M_wait
  then have full: "p_count s = n" using step by (simp add: owner_go_def barrier_full_def split: if_splits)
  show ?thesis
  proof (rule owner_goes [OF ok, where m = M_reset], goal_cases)
    case 1
    then show ?case using step M_wait full by (auto simp: owner_go_def init_guard_pool_def split: if_splits)
  qed (use owner_facts(1,2) [OF ok] M_wait full in auto)
qed (use assms in auto)

lemma owner_keeps_run:
  assumes ok: "pool_ok n s" and step: "owner_go n s = Some s'" and "\<exists>i. p_main s = M_run i \<or> p_main s = M_locked i \<or> p_main s = M_notified i"
  shows "pool_ok n s'"
proof (cases "p_main s")
  case (M_run i)
  show ?thesis
  proof (cases "i < n")
    case True
    then have free: "p_mtx s i = Free" using step M_run by (simp add: owner_go_def split: if_splits)
    show ?thesis
    proof (rule owner_touches [OF ok True, where m = "M_locked i" and c = "p_pc s i" and b = By_main], goal_cases)
      case 1
      then show ?case using step M_run True by (auto simp: owner_go_def notify_def split: if_splits)
    qed (use owner_facts(1) [OF ok] owner_facts(3,4) [OF ok True] M_run True free in \<open>auto simp: place_sets split: if_splits\<close>)
  next
    case False
    show ?thesis
    proof (rule owner_goes [OF ok, where m = M_busy], goal_cases)
      case 1
      then show ?case using step M_run False by (auto simp: owner_go_def init_guard_pool_def split: if_splits)
    qed (use owner_facts(1,2) [OF ok] M_run False in auto)
  qed
next
  case (M_locked i)
  with owner_facts(2) [OF ok] have i: "i < n" by simp
  then have sleeps: "p_pc s i = W_sleep" using owner_facts(3,4) [OF ok i] M_locked by (auto simp: place_sets)
  show ?thesis
  proof (rule owner_touches [OF ok i, where m = "M_notified i" and c = W_wake and b = "p_mtx s i"], goal_cases)
    case 1
    then show ?case using step M_locked i sleeps by (auto simp: owner_go_def notify_def split: if_splits)
  qed (use owner_facts(1) [OF ok] owner_facts(3,4) [OF ok i] M_locked i sleeps in \<open>auto simp: place_sets split: if_splits\<close>)
next
  case (M_notified i)
  with owner_facts(2) [OF ok] have i: "i < n" by simp
  show ?thesis
  proof (rule owner_touches [OF ok i, where m = "M_run (Suc i)" and c = "p_pc s i" and b = Free], goal_cases)
    case 1
    then show ?case using step M_notified i by (auto simp: owner_go_def notify_def split: if_splits)
  qed (use owner_facts(1) [OF ok] owner_facts(3,4) [OF ok i] M_notified i in \<open>auto simp: place_sets split: if_splits\<close>)
qed (use assms in auto)

lemma owner_keeps_stop:
  assumes ok: "pool_ok n s" and step: "owner_go n s = Some s'" and "\<exists>i. p_main s = M_dlock i \<or> p_main s = M_dlocked i \<or> p_main s = M_dnotified i"
  shows "pool_ok n s'"
proof (cases "p_main s")
  case (M_dlock i)
  show ?thesis
  proof (cases "i < n")
    case True
    then have free: "p_mtx s i = Free" using step M_dlock by (simp add: owner_go_def split: if_splits)
    show ?thesis
    proof (rule owner_touches [OF ok True, where m = "M_dlocked i" and c = "p_pc s i" and b = By_main], goal_cases)
      case 1
      then show ?case using step M_dlock True by (auto simp: owner_go_def notify_def split: if_splits)
    qed (use owner_facts(1) [OF ok] owner_facts(3,4) [OF ok True] M_dlock True free in \<open>auto simp: place_sets split: if_splits\<close>)
  next
    case False
    show ?thesis
    proof (rule owner_goes [OF ok, where m = "M_join 0"], goal_cases)
      case 1
      then show ?case using step M_dlock False by (auto simp: owner_go_def init_guard_pool_def split: if_splits)
    qed (use owner_facts(1,2) [OF ok] M_dlock False in auto)
  qed
next
  case (M_dlocked i)
  with owner_facts(2) [OF ok] have i: "i < n" by simp
  then have sleeps: "p_pc s i = W_sleep" using owner_facts(3,4) [OF ok i] M_dlocked by (auto simp: place_sets)
  show ?thesis
  proof (rule owner_touches [OF ok i, where m = "M_dnotified i" and c = W_wake and b = "p_mtx s i"], goal_cases)
    case 1
    then show ?case using step M_dlocked i sleeps by (auto simp: owner_go_def notify_def split: if_splits)
  qed (use owner_facts(1) [OF ok] owner_facts(3,4) [OF ok i] M_dlocked i sleeps in \<open>auto simp: place_sets split: if_splits\<close>)
next
  case (M_dnotified i)
  with owner_facts(2) [OF ok] have i: "i < n" by simp
  show ?thesis
  proof (rule owner_touches [OF ok i, where m = "M_dlock (Suc i)" and c = "p_pc s i" and b = Free], goal_cases)
    case 1
    then show ?case using step M_dnotified i by (auto simp: owner_go_def notify_def split: if_splits)
  qed (use owner_facts(1) [OF ok] owner_facts(3,4) [OF ok i] M_dnotified i in \<open>auto simp: place_sets split: if_splits\<close>)
qed (use assms in auto)

lemma owner_keeps_join:
  assumes ok: "pool_ok n s" and step: "owner_go n s = Some s'" and m: "p_main s = M_join i"
  shows "pool_ok n s'"
proof -
  define m' where "m' = (if i < n then M_join (Suc i) else M_gone)"
  show ?thesis
  proof (rule owner_goes [OF ok, where m = m'], goal_cases)
    case 1
    then show ?case using step m by (auto simp: owner_go_def m'_def split: if_splits)
  qed (use owner_facts(1,2) [OF ok] m in \<open>auto simp: m'_def\<close>)
qed

lemma owner_keeps_reset:
  assumes ok: "pool_ok n s" and step: "owner_go n s = Some s'" and m: "p_main s = M_reset"
  shows "pool_ok n s'"
proof -
  have s': "s' = s\<lparr>p_count := 0, p_initialized := True, p_main := M_idle\<rparr>"
    using step m by (simp add: owner_go_def)
  have "worker_ok n s' i" if "i < n" for i
    using all_arrived [OF ok _ _ that] owner_facts(3,4) [OF ok that] ok m that
    by (auto simp: pool_ok_def count_ok_def s' place_sets)
  moreover have "count_ok n s'" by (simp add: count_ok_def arrived_def s')
  ultimately show ?thesis using ok m by (simp add: pool_ok_def s')
qed

lemma owner_keeps:
  assumes "pool_ok n s" and "owner_go n s = Some s'"
  shows "pool_ok n s'"
  using owner_keeps_init [OF assms] owner_keeps_run [OF assms] owner_keeps_stop [OF assms] owner_keeps_join [OF assms]
    owner_keeps_reset [OF assms] assms(2)
  by (cases "p_main s") (auto simp: owner_go_def)

section \<open>Every reachable state is right\<close>

lemma pool_ok_new: "pool_ok n new_pool"
  by (auto simp: pool_ok_def new_pool_def count_ok_def arrived_def place_sets)

lemma main_only:
  assumes "pool_ok n s" and "p_main s = m" and "s' = s\<lparr>p_main := m', p_func := f, p_stop := b, p_runs := r\<rparr>"
    and "place_ok n m'" and "b = stopping m'" and "func_ok m' f r" and "m' \<noteq> M_new" and "m' = M_idle \<Longrightarrow> p_initialized s" and "m' \<noteq> M_reset"
    and "\<And>i c x. lock_ok (p_mtx s i) m i c \<Longrightarrow> lock_ok (p_mtx s i) m' i c"
    and "\<And>i c x. where_ok n m (p_runs s) i c x \<Longrightarrow> where_ok n m' r i c x"
    and "if stopping m' then p_count s = 0 else \<not> stopping m \<and> released n m' = released n m"
  shows "pool_ok n s'"
  using assms by (auto simp: pool_ok_def worker_ok_def count_ok_def arrived_def split: if_splits)

lemma step_keeps:
  assumes ok: "pool_ok n s" and n: "n < 2 ^ 32" and calm: "calm a" and step: "pool_step n a s = Some s'"
  shows "pool_ok n s'"
proof (cases a)
  case Go
  then show ?thesis using owner_keeps [OF ok] step by simp
next
  case (Worker i)
  then show ?thesis using worker_keeps [OF ok _ n] step by (simp split: if_splits)
next
  case Run
  then have "p_main s = M_idle" "s' = s\<lparr>p_func := True, p_main := M_run 0, p_runs := p_runs s + 1\<rparr>"
    using step by (auto simp: run_call_def Let_def split: if_splits)
  then show ?thesis
    by (intro main_only [OF ok, where m' = "M_run 0" and f = True and b = "p_stop s" and r = "p_runs s + 1"])
      (use ok in \<open>auto simp: pool_ok_def lock_ok_def where_ok_def split: if_splits\<close>)
next
  case Wait
  then have "p_main s = M_busy" "s' = s\<lparr>p_main := M_wait\<rparr>" using step by (auto split: if_splits)
  then show ?thesis
    by (intro main_only [OF ok, where m' = M_wait and f = "p_func s" and b = "p_stop s" and r = "p_runs s"])
      (use ok in \<open>auto simp: pool_ok_def lock_ok_def where_ok_def split: if_splits\<close>)
next
  case Unset
  then have "p_main s = M_idle" "s' = s\<lparr>p_func := False\<rparr>" using step by (auto split: if_splits)
  then show ?thesis
    by (intro main_only [OF ok, where m' = M_idle and f = False and b = "p_stop s" and r = "p_runs s"])
      (use ok in \<open>auto simp: pool_ok_def lock_ok_def where_ok_def split: if_splits\<close>)
next
  case Destroy
  then have m: "p_main s = M_idle" "s' = s\<lparr>p_stop := True, p_main := M_dlock 0\<rparr>" using step by (auto split: if_splits)
  moreover have "p_count s = 0" using ok m by (simp add: pool_ok_def count_ok_def arrived_def)
  ultimately show ?thesis
    by (intro main_only [OF ok, where m' = "M_dlock 0" and f = "p_func s" and b = True and r = "p_runs s"])
      (use ok in \<open>auto simp: pool_ok_def lock_ok_def where_ok_def split: if_splits\<close>)
qed (use calm in simp_all)

lemma reach_ok:
  assumes "pool_reach calm n s" and "n < 2 ^ 32"
  shows "pool_ok n s"
  using assms(1) by (induction rule: pool_reach.induct) (use pool_ok_new step_keeps assms(2) in auto)

section \<open>A call returns\<close>

text \<open>The steps that need no new call of the owner: the workers and the call under way.\<close>

fun internal :: "action \<Rightarrow> bool" where
  "internal Go = True"
| "internal (Worker _) = True"
| "internal _ = False"

text \<open>No call is under way.\<close>

definition at_rest :: "pool \<Rightarrow> bool" where
  "at_rest s \<longleftrightarrow> p_main s = M_idle \<or> p_main s = M_busy \<or> p_main s = M_gone"

text \<open>A bound on the internal steps that are left; a notification pays for the steps of the worker it wakes.\<close>

fun worker_work :: "wpc \<Rightarrow> nat" where
  "worker_work W_wake = 9"
| "worker_work W_awake = 8"
| "worker_work W_exec = 7"
| "worker_work W_unlock = 6"
| "worker_work W_init = 6"
| "worker_work W_head = 5"
| "worker_work W_lock = 4"
| "worker_work W_arrive = 3"
| "worker_work W_check = 2"
| "worker_work W_wait = 1"
| "worker_work _ = 0"

fun owner_work :: "nat \<Rightarrow> mpc \<Rightarrow> nat" where
  "owner_work n M_new = 8 * n + 4"
| "owner_work n (M_init j) = 8 * (n - j) + 3"
| "owner_work n M_wait = 2"
| "owner_work n M_reset = 1"
| "owner_work n (M_run j) = 12 * (n - j) + 1"
| "owner_work n (M_locked j) = 12 * (n - j)"
| "owner_work n (M_notified j) = 12 * (n - j) - 10"
| "owner_work n (M_dlock j) = 12 * (n - j) + n + 2"
| "owner_work n (M_dlocked j) = 12 * (n - j) + n + 1"
| "owner_work n (M_dnotified j) = 12 * (n - j) + n - 9"
| "owner_work n (M_join j) = n - j + 1"
| "owner_work n _ = 0"

definition work :: "nat \<Rightarrow> pool \<Rightarrow> nat" where
  "work n s = owner_work n (p_main s) + (\<Sum>i < n. worker_work (p_pc s i))"

lemma work_moved:
  assumes "i < n" and "p_pc s' = (p_pc s)(i := c)"
    and "owner_work n (p_main s') + worker_work c < owner_work n (p_main s) + worker_work (p_pc s i)"
  shows "work n s' < work n s"
proof -
  have "(\<Sum>j < n. worker_work (pc j)) = worker_work (pc i) + (\<Sum>j \<in> {..<n} - {i}. worker_work (pc j))" for pc
    using assms(1) by (simp add: sum.remove)
  moreover have "(\<Sum>j \<in> {..<n} - {i}. worker_work (p_pc s' j)) = (\<Sum>j \<in> {..<n} - {i}. worker_work (p_pc s j))"
    using assms(2) by (intro sum.cong) auto
  ultimately show ?thesis using assms(2,3) by (simp add: work_def)
qed

lemma worker_work_down:
  assumes "worker_step n i s = Some s'" and "i < n" and "\<not> p_crashed s'"
  shows "work n s' < work n s"
  by (rule work_moved [OF assms(2), where c = "p_pc s' i"])
    (use assms in \<open>auto simp: worker_step_def split: wpc.splits if_splits sum.splits\<close>)

lemma owner_work_down:
  assumes ok: "pool_ok n s" and step: "owner_go n s = Some s'"
  shows "work n s' < work n s"
proof (cases "p_pc s' = p_pc s")
  case True
  have "owner_work n (p_main s') < owner_work n (p_main s)"
    using step owner_facts(2) [OF ok] by (auto simp: owner_go_def notify_def split: mpc.splits if_splits sum.splits)
  with True show ?thesis by (simp add: work_def)
next
  case False
  then obtain i where m: "p_main s = M_init i \<and> i < n \<or> p_main s = M_locked i \<or> p_main s = M_dlocked i"
    using step by (cases "p_main s") (auto simp: owner_go_def split: if_splits sum.splits)
  then have i: "i < n" using owner_facts(2) [OF ok] by auto
  then obtain k where k: "n - i = Suc k" by (metis Suc_diff_Suc)
  show ?thesis
    by (rule work_moved [OF i, where c = "p_pc s' i"])
      (use False m step k owner_facts(4) [OF ok i] in \<open>auto simp: owner_go_def notify_def place_sets split: if_splits\<close>)
qed

lemma worker_can_go:
  assumes "worker_ok n s i" and "p_pc s i \<notin> {W_off, W_sleep, W_done}" and "\<not> holds_lock (p_main s) i"
  shows "worker_step n i s \<noteq> None"
  using assms by (cases "p_mtx s i"; cases "p_pc s i") (auto simp: worker_ok_def lock_ok_def inside_def worker_step_def split: sum.splits)

lemma no_deadlock:
  assumes ok: "pool_ok n s" and call: "\<not> at_rest s"
  shows "\<exists>a. internal a \<and> pool_step n a s \<noteq> None"
proof (rule ccontr)
  assume stuck: "\<nexists>a. internal a \<and> pool_step n a s \<noteq> None"
  have idle: "worker_step n i s = None" if "i < n" for i
    using stuck that by (metis internal.simps(2) pool_step.simps(7))
  have go: "owner_go n s = None" using stuck by (metis internal.simps(1) pool_step.simps(1))
  have still: "p_pc s i \<in> {W_off, W_sleep, W_done} \<or> holds_lock (p_main s) i" if "i < n" for i
    using worker_can_go [of n s i] idle [OF that] ok that by (metis pool_ok_def)
  show False
  proof (cases "p_main s")
    case (M_run i)
    with still [of i] owner_facts(3,4) [OF ok, of i] go show ?thesis
      by (cases "p_mtx s i") (auto simp: owner_go_def place_sets split: if_splits)
  next
    case (M_dlock i)
    with still [of i] owner_facts(3,4) [OF ok, of i] go show ?thesis
      by (cases "p_mtx s i") (auto simp: owner_go_def place_sets split: if_splits)
  next
    case (M_join i)
    with still [of i] owner_facts(3,4) [OF ok, of i] go show ?thesis
      by (cases "p_mtx s i") (auto simp: owner_go_def place_sets split: if_splits)
  next
    case M_wait
    have "late (p_pc s i)" if "i < n" for i
      using still [OF that] owner_facts(4) [OF ok that] that M_wait by (auto simp: where_ok_def late_def)
    then have "arrived n s = {..<n}" using M_wait by (auto simp: arrived_def)
    then have "p_count s = n" using ok M_wait by (simp add: pool_ok_def count_ok_def)
    with go M_wait show ?thesis by (simp add: owner_go_def barrier_full_def)
  qed (use call ok go in \<open>auto simp: at_rest_def owner_go_def pool_ok_def init_guard_pool_def split: if_splits\<close>)
qed

lemma internal_trace:
  assumes "pool_ok n s" and "n < 2 ^ 32" and "list_all internal acts" and "pool_trace n acts s = Some s'"
  shows "pool_ok n s' \<and> length acts + work n s' \<le> work n s"
  using assms
proof (induction acts arbitrary: s)
  case (Cons a acts)
  then obtain s1 where s1: "pool_step n a s = Some s1" and rest: "pool_trace n acts s1 = Some s'"
    by (auto split: option.splits)
  have "calm a" using Cons.prems(3) by (cases a) auto
  then have ok: "pool_ok n s1" using step_keeps [OF Cons.prems(1,2) _ s1] by simp
  have "work n s1 < work n s"
    using Cons.prems(1,3) s1 ok worker_work_down owner_work_down by (cases a) (auto simp: pool_ok_def split: if_splits)
  with Cons.IH [OF ok Cons.prems(2) _ rest] Cons.prems(3) show ?case by simp
qed simp

section \<open>What the pool promises\<close>

lemma trace_reach:
  assumes "pool_reach calm n s" and "n < 2 ^ 32" and "list_all calm acts" and "pool_trace n acts s = Some s'"
  shows "pool_reach calm n s'"
  using assms
proof (induction acts arbitrary: s)
  case (Cons a acts)
  then obtain s1 where s1: "pool_step n a s = Some s1" and rest: "pool_trace n acts s1 = Some s'"
    by (auto split: option.splits)
  have "\<not> p_crashed s" using reach_ok [OF Cons.prems(1,2)] by (simp add: pool_ok_def)
  then have "pool_reach calm n s1" using Cons.prems(1,3) s1 by (auto intro: pool_reach.move)
  with Cons rest show ?case by simp
qed simp

text \<open>
  C8: \<^bold>\<open>A run of the pool executes the function once on each worker.\<close> Whatever the interleaving of the owner and of
  the \<open>n\<close> workers, as long as no wait of a condition variable ends without a notification and the owner waits
  before it destroys the pool: no exception leaves a thread (the barrier never counts more than \<open>n\<close>, no worker
  calls a function that is not set), and when no call is under way after a \<^verbatim>\<open>wait\<close> each worker has executed the
  function exactly as often as \<^verbatim>\<open>run\<close> was called; the same holds once the destructor has joined the workers. In between,
  no worker is more than one execution behind.
\<close>

theorem run_executes_once:
  assumes "pool_reach calm n s" and "n < 2 ^ 32"
  shows "\<not> p_crashed s \<and>
    (\<forall>i < n. p_main s = M_idle \<or> p_main s = M_gone \<longrightarrow> p_execs s i = p_runs s) \<and>
    (\<forall>i < n. p_runs s \<le> p_execs s i + 1 \<and> p_execs s i \<le> p_runs s)"
proof -
  have ok: "pool_ok n s" by (rule reach_ok [OF assms])
  have "p_execs s i = p_runs s" if "i < n" and "p_main s = M_idle \<or> p_main s = M_gone" for i
    using owner_facts(4) [OF ok that(1)] that(2) by (auto simp: where_ok_def)
  moreover have "p_runs s \<le> p_execs s i + 1 \<and> p_execs s i \<le> p_runs s" if "i < n" for i
    using owner_facts(4) [OF ok that] by (auto simp: where_ok_def of_bool_def split: if_splits)
  ultimately show ?thesis using ok by (auto simp: pool_ok_def)
qed


section \<open>On one worker\<close>

definition init_trace :: "action list" where
  "init_trace = [Go, Go, Go, Worker 0, Worker 0, Worker 0, Worker 0, Worker 0, Worker 0, Go, Go]"

definition run_trace :: "action list" where
  "run_trace = [Run, Go, Go, Go, Go, Wait, Worker 0, Worker 0, Worker 0, Worker 0, Worker 0, Worker 0, Worker 0, Worker 0, Worker 0, Go, Go]"

lemmas run_steps = init_trace_def run_trace_def new_pool_def owner_go_def worker_step_def init_guard_pool_def run_call_def notify_def
  barrier_inc_def barrier_check_def barrier_full_def Let_def

lemma one_run: "\<exists>s. pool_trace 1 (init_trace @ run_trace) new_pool = Some s \<and> p_main s = M_idle \<and> p_runs s = 1 \<and> p_execs s 0 = 1"
  by (simp add: run_steps)

lemma run_executes_once_witness:
  "\<exists>s. pool_reach calm 1 s \<and> p_main s = M_idle \<and> p_runs s = 1 \<and> \<not> p_crashed s \<and> p_execs s 0 = 1"
proof -
  obtain s where s: "pool_trace 1 (init_trace @ run_trace) new_pool = Some s" "p_main s = M_idle" "p_runs s = 1"
    using one_run by blast
  have "pool_reach calm 1 s"
    by (rule trace_reach [OF start _ _ s(1)]) (simp_all add: init_trace_def run_trace_def)
  with run_executes_once [OF this] s show ?thesis by auto
qed


text \<open>
  What \<^verbatim>\<open>calm\<close> excludes. \<^verbatim>\<open>cnd[tid].wait(lock)\<close> has no predicate: a wait that ends by itself executes the function
  outside of a run (here the one that throws, and the program ends). A pool destroyed while its workers still
  run can wait for ever: the worker tests \<^verbatim>\<open>stop_threads\<close> before the destructor sets it, and the notification
  comes before its wait.
\<close>

lemma spurious_wakeup_crashes:
  "\<exists>s. pool_trace 1 (init_trace @ [Spurious 0, Worker 0, Worker 0]) new_pool = Some s \<and> p_runs s = 0 \<and> p_crashed s"
  by (simp add: run_steps)

lemma destroying_a_busy_pool_blocks:
  "\<exists>s. pool_trace 1 (init_trace @ [Run, Go, Go, Go, Go, Worker 0, Worker 0, Worker 0, Worker 0, Worker 0, Destroy_busy, Go, Go, Go, Go,
       Worker 0, Worker 0, Worker 0, Worker 0]) new_pool = Some s \<and>
     \<not> at_rest s \<and> pool_step 1 Go s = None \<and> pool_step 1 (Worker 0) s = None"
  by (simp add: run_steps at_rest_def)

end
