(* ===== verification/Pipelines.thy ===== *)
theory Pipelines
  imports Sequence_Nocopy Sequence_Frames Sequence_Build Adaptor
begin

text \<open>
  \<^verbatim>\<open>runtime::Pipeline\<close> (\<^verbatim>\<open>Pipeline.hpp\<close>, \<^verbatim>\<open>Pipeline.cpp\<close>): stages, which are sequences, joined by adaptors. Its
  construction looks for the sockets bound from one stage to a later one (the orphans), makes an adaptor for
  each junction, and replaces the bindings: the output is bound to the \<^verbatim>\<open>push\<close> task of the adaptor, the \<^verbatim>\<open>pull\<close>
  task to the input or to the next adaptor.

  The state is the pipeline and the store of the runtime. An adaptor is a module of the store with its two
  tasks, an \<open>inst\<close> of its own and the \<open>shared\<close> part of its junction. The processes of a sub-sequence are its
  tasks; an \<^verbatim>\<open>assert\<close> that fails is \<open>UB\<close>.
\<close>

section \<open>State\<close>

text \<open>\<open>out_orphan\<close>: an output bound out of its stage. \<open>orphan\<close>: a binding from a stage to a later one.\<close>

record out_orphan =
  oo_sck :: sid
  oo_occ :: nat
  oo_sta :: nat
  oo_tsk_id :: nat
  oo_sck_id :: nat

record orphan =
  or_out :: sid
  or_sta :: nat
  or_tsk_id :: nat
  or_sck_id :: nat
  or_pos :: nat
  oi_sck :: "sid option"
  oi_sta :: nat
  oi_tsk_id :: nat
  oi_sck_id :: nat
  oi_tsk :: "tid option"

record adp_bind =
  ab_out :: sid
  ab_in :: "sid option"
  ab_prio :: nat
  ab_tsk :: "tid option"

record pipe =
  l_original :: seq
  l_stages :: "seq list"
  l_adaptors :: "(mid list \<times> mid list) list"
  l_orphans :: "orphan list"
  l_adp_binds :: "adp_bind list"
  l_saved_firsts :: "nat list list"
  l_saved_lasts :: "nat list list"
  l_bound :: bool
  l_auto_stop :: bool
  l_shared :: "nat \<Rightarrow> shared"
  l_inst :: "mid \<Rightarrow> inst"
  l_next_mod :: mid

type_synonym pstate = "pipe \<times> world"

definition look :: "'a list \<Rightarrow> nat \<Rightarrow> exn + 'a" where
  "look xs k = (if k < length xs then Inr (xs ! k) else Inl UB)"

definition lift_exn :: "exn + 'a \<Rightarrow> 's \<Rightarrow> ('s, 'a) outcome" where
  "lift_exn r s = (r, s)"

section \<open>The checks of the construction\<close>

definition pipe_sizes_guard :: "nat \<Rightarrow> nat \<Rightarrow> nat \<Rightarrow> nat \<Rightarrow> nat \<Rightarrow> nat \<Rightarrow> exn + unit" where
  "pipe_sizes_guard stages threads buffers waiting pinning puids =
     (if stages \<noteq> threads \<and> threads \<noteq> 0 then Inl Invalid_argument
      else if stages \<noteq> buffers + 1 \<and> buffers \<noteq> 0 then Inl Invalid_argument
      else if stages \<noteq> waiting + 1 \<and> waiting \<noteq> 0 then Inl Invalid_argument
      else if stages \<noteq> pinning \<and> pinning \<noteq> 0 then Inl Invalid_argument
      else if stages \<noteq> puids \<and> puids \<noteq> 0 then Inl Invalid_argument
      else Inr ())"

definition same_tasks_guard :: "tid list \<Rightarrow> tid list \<Rightarrow> exn + unit" where
  "same_tasks_guard ref_tasks cur_tasks =
     (if length ref_tasks \<noteq> length cur_tasks then Inl Invalid_argument
      else if \<exists>t \<in> set cur_tasks. t \<notin> set ref_tasks then Inl Invalid_argument else Inr ())"

section \<open>The stages together\<close>

definition merge_threads :: "'a list list \<Rightarrow> 'a list list \<Rightarrow> 'a list list" where
  "merge_threads acc add = map (\<lambda>t. (if t < length acc then acc ! t else []) @ (if t < length add then add ! t else []))
     [0..<max (length acc) (length add)]"

definition pipe_tasks_per_threads :: "pipe \<Rightarrow> exn + tid list list" where
  "pipe_tasks_per_threads p = (case map_exn get_tasks_per_threads (l_stages p) of Inl e \<Rightarrow> Inl e
     | Inr tsss \<Rightarrow> Inr (foldl merge_threads [] tsss))"

definition pipe_modules_per_threads :: "pipe \<Rightarrow> mid list list" where
  "pipe_modules_per_threads p = foldl merge_threads [] (map get_modules_per_threads (l_stages p))"

definition pipe_tasks_per_types :: "pipe \<Rightarrow> exn + tid list list" where
  "pipe_tasks_per_types p = (case map_exn get_tasks_per_types (l_stages p) of Inl e \<Rightarrow> Inl e | Inr tsss \<Rightarrow> Inr (concat tsss))"

definition pipe_modules_per_types :: "pipe \<Rightarrow> exn + mid list list" where
  "pipe_modules_per_types p = (case map_exn get_modules_per_types (l_stages p) of Inl e \<Rightarrow> Inl e | Inr msss \<Rightarrow> Inr (concat msss))"

definition pipe_original_modules :: "pipe \<Rightarrow> exn + mid list list" where
  "pipe_original_modules p = get_modules_per_types (l_original p)"

definition pipe_get_n_frames :: "pipe \<Rightarrow> world \<Rightarrow> exn + nat" where
  "pipe_get_n_frames p w = (case l_stages p of [] \<Rightarrow> Inl UB
     | q # _ \<Rightarrow> (case seq_get_n_frames q w of Inl e \<Rightarrow> Inl e
       | Inr n \<Rightarrow> (case map_exn (\<lambda>q'. case seq_get_n_frames q' w of Inl e \<Rightarrow> Inl e
             | Inr n' \<Rightarrow> if n' \<noteq> n then Inl Runtime_error else Inr ()) (l_stages p) of
           Inl e \<Rightarrow> Inl e | Inr _ \<Rightarrow> Inr n)))"

definition pipe_set_auto_stop :: "bool \<Rightarrow> pipe \<Rightarrow> pipe" where
  "pipe_set_auto_stop b p = p\<lparr>l_auto_stop := b, l_stages := map (set_auto_stop b) (l_stages p)\<rparr>"

section \<open>The orphans\<close>

text \<open>An output of the stage \<open>sta\<close>, once per socket bound to it out of the stage (\<open>own\<close>).\<close>

definition note_out :: "nat \<Rightarrow> nat \<Rightarrow> nat \<Rightarrow> sid \<Rightarrow> out_orphan list \<Rightarrow> out_orphan list" where
  "note_out sta tsk_id sck_id sck os = (case find_pos sck (map oo_sck os) of
     None \<Rightarrow> os @ [\<lparr>oo_sck = sck, oo_occ = 1, oo_sta = sta, oo_tsk_id = tsk_id, oo_sck_id = sck_id\<rparr>]
   | Some pos \<Rightarrow> os[pos := (os ! pos)\<lparr>oo_occ := oo_occ (os ! pos) + 1\<rparr>])"

definition outs_of_socket :: "world \<Rightarrow> tid list \<Rightarrow> nat \<Rightarrow> nat \<Rightarrow> nat \<times> sid \<Rightarrow> out_orphan list \<Rightarrow> out_orphan list" where
  "outs_of_socket w own sta tsk_id x os = (case x of (sck_id, sck) \<Rightarrow>
     if s_type (socks w sck) = SOUT \<or> s_type (socks w sck) = SFWD
     then fold (\<lambda>b os. if s_task (socks w b) \<notin> set own then note_out sta tsk_id sck_id sck os else os) (s_bound_sockets (socks w sck)) os
     else os)"

definition outs_of_task :: "world \<Rightarrow> tid list \<Rightarrow> nat \<Rightarrow> nat \<times> tid \<Rightarrow> out_orphan list \<Rightarrow> out_orphan list" where
  "outs_of_task w own sta x = (case x of (tsk_id, t) \<Rightarrow> fold (outs_of_socket w own sta tsk_id) (enumerate 0 (t_sockets (tsks w t))))"

definition outs_of_stage :: "world \<Rightarrow> nat \<Rightarrow> tid list \<Rightarrow> out_orphan list \<Rightarrow> out_orphan list" where
  "outs_of_stage w sta own = fold (outs_of_task w own sta) (enumerate 0 own)"

text \<open>
  An input bound to an output that is known: \<open>task\<close> is the task of a fake input. Its position among the bound
  sockets is the size of the list when it is not there.
\<close>

definition note_in :: "world \<Rightarrow> tid list \<Rightarrow> nat \<Rightarrow> out_orphan list \<Rightarrow> nat \<Rightarrow> tid option \<Rightarrow> nat \<times> sid \<Rightarrow> orphan list \<Rightarrow> orphan list" where
  "note_in w own sta os tsk_id task x bs = (case x of (sck_id, sck) \<Rightarrow> (case get_bound_socket sck w of Inl _ \<Rightarrow> bs
     | Inr b \<Rightarrow> if s_task (socks w b) \<in> set own then bs
         else case find (\<lambda>o'. oo_sck o' = b) os of None \<Rightarrow> bs
         | Some o' \<Rightarrow> bs @ [\<lparr>or_out = oo_sck o', or_sta = oo_sta o', or_tsk_id = oo_tsk_id o', or_sck_id = oo_sck_id o',
             or_pos = (case find_pos sck (s_bound_sockets (socks w b)) of Some k \<Rightarrow> k | None \<Rightarrow> length (s_bound_sockets (socks w b))),
             oi_sck = (case task of None \<Rightarrow> Some sck | Some _ \<Rightarrow> None), oi_sta = sta, oi_tsk_id = tsk_id, oi_sck_id = sck_id,
             oi_tsk = task\<rparr>]))"

definition ins_of_task :: "world \<Rightarrow> tid list \<Rightarrow> nat \<Rightarrow> out_orphan list \<Rightarrow> nat \<times> tid \<Rightarrow> orphan list \<Rightarrow> orphan list" where
  "ins_of_task w own sta os x bs = (case x of (tsk_id, t) \<Rightarrow>
     fold (note_in w own sta os tsk_id (Some t)) (enumerate 0 (t_fake_input_sockets (tsks w t)))
       (fold (\<lambda>x bs. if s_type (socks w (snd x)) = SIN \<or> s_type (socks w (snd x)) = SFWD
           then note_in w own sta os tsk_id None x bs else bs) (enumerate 0 (t_sockets (tsks w t))) bs))"

definition ins_of_stage :: "world \<Rightarrow> nat \<Rightarrow> tid list \<Rightarrow> out_orphan list \<Rightarrow> orphan list \<Rightarrow> orphan list" where
  "ins_of_stage w sta own os = fold (ins_of_task w own sta os) (enumerate 0 own)"

text \<open>\<open>tss\<close>: the tasks of the first thread of each stage.\<close>

definition junction :: "world \<Rightarrow> tid list list \<Rightarrow> nat \<Rightarrow> out_orphan list \<times> orphan list \<Rightarrow> out_orphan list \<times> orphan list" where
  "junction w tss sta v = (case v of (os, bs) \<Rightarrow> let os' = outs_of_stage w sta (tss ! sta) os in
     (os', ins_of_stage w (sta + 1) (tss ! (sta + 1)) os' bs))"

definition find_orphans :: "world \<Rightarrow> tid list list \<Rightarrow> orphan list" where
  "find_orphans w tss = snd (fold (junction w tss) [0..<length tss - 1] ([], []))"

definition first_threads :: "seq list \<Rightarrow> exn + tid list list" where
  "first_threads qs = map_exn (\<lambda>q. case get_tasks_per_threads q of Inl e \<Rightarrow> Inl e | Inr tss \<Rightarrow> look tss 0) qs"

section \<open>Adaptors\<close>

definition on_world :: "(world \<Rightarrow> (world, 'a) outcome) \<Rightarrow> pstate \<Rightarrow> (pstate, 'a) outcome" where
  "on_world f v = (case v of (p, w) \<Rightarrow> (case f w of (r, w') \<Rightarrow> (r, (p, w'))))"

definition on_adp :: "nat \<Rightarrow> mid \<Rightarrow> (shared \<times> inst \<Rightarrow> (shared \<times> inst, 'a) outcome) \<Rightarrow> pstate \<Rightarrow> (pstate, 'a) outcome" where
  "on_adp j md f v = (case v of (p, w) \<Rightarrow> (case f (l_shared p j, l_inst p md) of (r, (sh, i)) \<Rightarrow>
     (r, (p\<lparr>l_shared := (l_shared p)(j := sh), l_inst := (l_inst p)(md := i)\<rparr>, w))))"

definition on_pipe :: "(pipe \<Rightarrow> pipe) \<Rightarrow> pstate \<Rightarrow> (pstate, unit) outcome" where
  "on_pipe f v = (Inr (), (f (fst v), snd v))"

text \<open>\<^verbatim>\<open>Adaptor_m_to_n::init\<close>: the tasks \<^verbatim>\<open>push\<close> and \<^verbatim>\<open>pull\<close>, with a socket for each element of \<open>n_elmts\<close>.\<close>

definition adp_task :: "mid \<Rightarrow> string \<Rightarrow> (tid \<Rightarrow> nat \<Rightarrow> world \<Rightarrow> (world, nat) outcome) \<Rightarrow> nat \<Rightarrow> world \<Rightarrow> (world, unit) outcome" where
  "adp_task md name sck n w = bindo (create_task md name (-1) w) (\<lambda>t w1.
     bindo (foreach (\<lambda>s w2. drop_value (sck t s w2)) [0..<n] w1) (\<lambda>_ w2. create_codelet (Suc (next_sock w2)) t w2))"

definition adp_init :: "mid \<Rightarrow> nat list \<Rightarrow> type_index list \<Rightarrow> world \<Rightarrow> (world, unit) outcome" where
  "adp_init md n_elmts datatype w = bindo (set_single_wave md True (set_short_name md ''Adaptor_m_to_n'' (set_name md ''Adaptor_m_to_n'' w)))
     (\<lambda>_ w1. bindo (adp_task md ''push''
         (\<lambda>t s. mod_create_socket_in md t (''in'' @ nat_to_string s) (n_elmts ! s) (datatype ! s)) (length n_elmts) w1)
       (\<lambda>_. adp_task md ''pull''
         (\<lambda>t s. mod_create_socket_out md t (''out'' @ nat_to_string s) (n_elmts ! s) (datatype ! s)) (length n_elmts)))"

definition make_adaptor :: "nat \<Rightarrow> nat list \<Rightarrow> type_index list \<Rightarrow> nat \<Rightarrow> pstate \<Rightarrow> (pstate, mid) outcome" where
  "make_adaptor j n_elmts datatype buffer_size v = (case v of (p, w) \<Rightarrow> (case new_adaptor n_elmts datatype buffer_size of
     Inl e \<Rightarrow> (Inl e, v)
   | Inr (sh, i) \<Rightarrow> let md = l_next_mod p in
       bindo (on_world (adp_init md n_elmts datatype)
           (p\<lparr>l_next_mod := Suc md, l_shared := (l_shared p)(j := sh), l_inst := (l_inst p)(md := i)\<rparr>, upd_mod md (\<lambda>_. new_module) w))
         (\<lambda>_ v'. (Inr md, v'))))"

text \<open>\<^verbatim>\<open>clone\<close>: the copy of the module (with its tasks), then \<^verbatim>\<open>deep_copy\<close>.\<close>

definition copy_adaptor :: "nat \<Rightarrow> mid \<Rightarrow> pstate \<Rightarrow> (pstate, mid) outcome" where
  "copy_adaptor j md v = (let md' = l_next_mod (fst v) in
     bindo (on_pipe (\<lambda>p. p\<lparr>l_next_mod := Suc md'\<rparr>) v) (\<lambda>_ v1.
     bindo (on_world (\<lambda>w. deep_copy (Suc (next_sock w)) md md' w) v1) (\<lambda>_ v2.
     bindo (on_adp j md clone_adaptor v2) (\<lambda>i v3.
       (Inr md', (fst v3\<lparr>l_inst := (l_inst (fst v3))(md' := i)\<rparr>, snd v3))))))"

definition adp_set_n_frames :: "nat \<Rightarrow> nat \<Rightarrow> mid \<Rightarrow> pstate \<Rightarrow> (pstate, unit) outcome" where
  "adp_set_n_frames n j md v = (if m_n_frames (mods (snd v) md) = n then (Inr (), v)
     else bindo (on_world (set_n_frames 2 md n) v) (\<lambda>_. on_adp j md (set_n_frames_adaptor n)))"

text \<open>\<open>operator()\<close> of a module and \<open>tasks_per_threads[t][tsk_id]->sockets[sck_id]\<close>.\<close>

definition socket_at :: "world \<Rightarrow> tid list list \<Rightarrow> nat \<Rightarrow> nat \<Rightarrow> nat \<Rightarrow> exn + sid" where
  "socket_at w tss t tsk_id sck_id = (case look tss t of Inl e \<Rightarrow> Inl e | Inr ts \<Rightarrow> (case look ts tsk_id of Inl e \<Rightarrow> Inl e
     | Inr tk \<Rightarrow> look (t_sockets (tsks w tk)) sck_id))"

definition task_at :: "tid list list \<Rightarrow> nat \<Rightarrow> nat \<Rightarrow> exn + tid" where
  "task_at tss t tsk_id = (case look tss t of Inl e \<Rightarrow> Inl e | Inr ts \<Rightarrow> look ts tsk_id)"

text \<open>\<^verbatim>\<open>std::map::operator[]\<close> inserts 0 for a key it does not hold.\<close>

definition map_at :: "(sid \<rightharpoonup> nat) \<Rightarrow> sid \<Rightarrow> nat" where
  "map_at m k = (case m k of Some v \<Rightarrow> v | None \<Rightarrow> 0)"

section \<open>The pull side of a junction\<close>

definition ends_at :: "nat \<Rightarrow> orphan \<Rightarrow> bool" where
  "ends_at sta b \<longleftrightarrow> or_sta b < sta \<and> oi_sta b = sta"

definition pull_bind :: "world \<Rightarrow> tid list list \<Rightarrow> sid list \<Rightarrow> (sid \<rightharpoonup> nat) \<Rightarrow> nat \<Rightarrow> orphan \<Rightarrow> adp_bind list \<Rightarrow> (adp_bind list, unit) outcome" where
  "pull_bind w tss pulls ids t b bs = (case look pulls (map_at ids (or_out b)) of Inl e \<Rightarrow> (Inl e, bs)
     | Inr out \<Rightarrow> (case oi_sck b of
         Some _ \<Rightarrow> (case socket_at w tss t (oi_tsk_id b) (oi_sck_id b) of Inl e \<Rightarrow> (Inl e, bs)
           | Inr i \<Rightarrow> (Inr (), bs @ [\<lparr>ab_out = out, ab_in = Some i, ab_prio = or_pos b, ab_tsk = None\<rparr>]))
       | None \<Rightarrow> (case task_at tss t (oi_tsk_id b) of Inl e \<Rightarrow> (Inl e, bs)
           | Inr tk \<Rightarrow> (Inr (), bs @ [\<lparr>ab_out = out, ab_in = None, ab_prio = or_pos b, ab_tsk = Some tk\<rparr>]))))"

definition on_stage :: "nat \<Rightarrow> (seq \<Rightarrow> (seq, 'a) outcome) \<Rightarrow> pstate \<Rightarrow> (pstate, 'a) outcome" where
  "on_stage sta f v = (case f (l_stages (fst v) ! sta) of (r, q) \<Rightarrow>
     (r, (fst v\<lparr>l_stages := (l_stages (fst v))[sta := q]\<rparr>, snd v)))"

definition add_module :: "nat \<Rightarrow> mid \<Rightarrow> seq \<Rightarrow> (seq, unit) outcome" where
  "add_module t md q = (if t < length (q_all_modules q)
     then (Inr (), q\<lparr>q_all_modules := (q_all_modules q)[t := q_all_modules q ! t @ [md]]\<rparr>) else (Inl UB, q))"

definition pull_module :: "nat \<Rightarrow> nat \<Rightarrow> mid \<Rightarrow> pstate \<Rightarrow> (pstate, mid) outcome" where
  "pull_module sta t adp v = (if t = 0 then (Inr adp, (fst v, set_fast_module adp True (snd v)))
     else bindo (copy_adaptor (sta - 1) adp v) (\<lambda>md v1. bindo (on_adp (sta - 1) md add_puller v1) (\<lambda>_ v2.
       (Inr md, (fst v2\<lparr>l_adaptors := (l_adaptors (fst v2))[sta - 1 := (fst (l_adaptors (fst v2) ! (sta - 1)),
            snd (l_adaptors (fst v2) ! (sta - 1)) @ [md])]\<rparr>,
          set_custom_name md (''Adp_m_to_n_'' @ nat_to_string (sta - 1)) (set_fast_module md True (snd v2)))))))"

definition pull_thread :: "nat \<Rightarrow> tid list list \<Rightarrow> orphan list \<Rightarrow> (sid \<rightharpoonup> nat) \<Rightarrow> mid \<Rightarrow> nat \<Rightarrow> pstate \<Rightarrow> (pstate, unit) outcome" where
  "pull_thread sta tss cpy ids adp t v = bindo (pull_module sta t adp v) (\<lambda>md v1.
     (case find_task md ''pull'' (snd v1) of Inl e \<Rightarrow> (Inl e, v1)
      | Inr task_pull \<Rightarrow> (case foreach (pull_bind (snd v1) tss (t_sockets (tsks (snd v1) task_pull)) ids t) (filter (ends_at sta) cpy)
            (l_adp_binds (fst v1)) of
          (Inl e, bs) \<Rightarrow> (Inl e, (fst v1\<lparr>l_adp_binds := bs\<rparr>, snd v1))
        | (Inr _, bs) \<Rightarrow> let v2 = (fst v1\<lparr>l_adp_binds := bs\<rparr>, snd v1) in
            if t > 0 then on_stage sta (add_module t md) v2 else (Inr (), v2))))"

definition pull_stage :: "nat \<Rightarrow> tid list list \<Rightarrow> orphan list \<Rightarrow> (sid \<rightharpoonup> nat) \<Rightarrow> mid option \<Rightarrow> pstate \<Rightarrow> (pstate, orphan list) outcome" where
  "pull_stage sta tss cpy ids adp v = (case adp of None \<Rightarrow> (Inl UB, v)
     | Some md \<Rightarrow> (let n = q_n_threads (l_stages (fst v) ! sta) in
         bindo (foreach (pull_thread sta tss cpy ids md) [0..<n] v) (\<lambda>_ v1.
         bindo (on_pipe (\<lambda>p. p\<lparr>l_saved_firsts := (l_saved_firsts p)[sta := q_firsts_id (l_stages p ! sta)]\<rparr>) v1) (\<lambda>_ v2.
         bindo (on_adp (sta - 1) md alloc_buffers v2) (\<lambda>_ v3.
           (Inr (if n = 0 then [] else filter (\<lambda>b. \<not> ends_at sta b) cpy), v3))))))"

section \<open>The push side of a junction\<close>

text \<open>
  The sockets of the adaptor of the stage \<open>sta\<close>: one per output that leaves the stage or an earlier one, but one
  only for the outputs that share a memory (\<open>seen\<close>).
\<close>

definition adp_note :: "world \<Rightarrow> orphan \<Rightarrow> sid list \<times> ptr list \<times> nat list \<times> type_index list \<times> nat \<Rightarrow> sid list \<times> ptr list \<times> nat list \<times> type_index list \<times> nat" where
  "adp_note w b a = (case a of (passed, seen, elts, types, nf) \<Rightarrow> let out = or_out b; s = socks w out in
     if out \<in> set passed then a
     else if s_dataptr s \<in> set seen then (passed @ [out], seen, elts, types, nf)
     else let nf' = m_n_frames (mods w (t_module (tsks w (s_task s)))) in
       (passed @ [out], seen @ [s_dataptr s], elts @ [get_n_elmts s div nf'], types @ [s_datatype s], nf'))"

definition adp_shape :: "world \<Rightarrow> nat \<Rightarrow> orphan list \<Rightarrow> nat list \<times> type_index list \<times> nat" where
  "adp_shape w sta cpy = snd (snd (fold (adp_note w) (filter (\<lambda>b. or_sta b \<le> sta) cpy) ([], [], [], [], 1)))"

text \<open>The output a socket of the adaptor is bound to: in the stage, or the previous adaptor.\<close>

definition push_source :: "pipe \<Rightarrow> world \<Rightarrow> nat \<Rightarrow> tid list list \<Rightarrow> (sid \<rightharpoonup> nat) \<Rightarrow> nat \<Rightarrow> orphan \<Rightarrow> exn + sid" where
  "push_source p w sta tss ids t b = (if or_sta b = sta then socket_at w tss t (or_tsk_id b) (or_sck_id b)
     else case (if t = 0 then look (fst (l_adaptors p ! (sta - 1))) 0 else look (snd (l_adaptors p ! (sta - 1))) (t - 1)) of Inl e \<Rightarrow> Inl e
       | Inr md \<Rightarrow> (case look (m_tasks_with_nullptr (mods w md)) 1 of
            Inr (Some tk) \<Rightarrow> look (t_sockets (tsks w tk)) (map_at ids (or_out b)) | _ \<Rightarrow> Inl UB))"

type_synonym push_acc = "sid list \<times> ptr list \<times> (sid \<rightharpoonup> nat) \<times> nat \<times> adp_bind list"

definition push_bind :: "world \<Rightarrow> (orphan \<Rightarrow> exn + sid) \<Rightarrow> sid list \<Rightarrow> orphan \<Rightarrow> push_acc \<Rightarrow> (push_acc, unit) outcome" where
  "push_bind w src pushes b a = (case a of (passed, seen, ids, k, bs) \<Rightarrow> let out = or_out b; d = s_dataptr (socks w out) in
     if d = Null then (Inl UB, a)
     else if out \<in> set passed \<or> d \<in> set seen then (Inr (), a)
     else case src b of Inl e \<Rightarrow> (Inl e, a)
       | Inr s \<Rightarrow> (case look pushes k of Inl e \<Rightarrow> (Inl e, a)
         | Inr i \<Rightarrow> (Inr (), (passed @ [out], seen @ [d], ids(out \<mapsto> k), k + 1,
             bs @ [\<lparr>ab_out = s, ab_in = Some i, ab_prio = or_pos b, ab_tsk = None\<rparr>]))))"

definition push_module :: "nat \<Rightarrow> nat \<Rightarrow> mid \<Rightarrow> pstate \<Rightarrow> (pstate, mid) outcome" where
  "push_module sta t adp v = bindo (if t = 0 then (Inr adp, v) else copy_adaptor sta adp v) (\<lambda>md v1.
     let v2 = (fst v1, set_custom_name md (''Adp_m_to_n_'' @ nat_to_string sta) (snd v1)) in
     bindo (if t > 0 then on_adp sta md add_pusher v2 else (Inr (), v2)) (\<lambda>_ v3.
       (Inr md, (fst v3\<lparr>l_adaptors := (l_adaptors (fst v3))[sta := (fst (l_adaptors (fst v3) ! sta) @ [md], snd (l_adaptors (fst v3) ! sta))]\<rparr>,
          snd v3))))"

definition push_thread :: "nat \<Rightarrow> tid list list \<Rightarrow> orphan list \<Rightarrow> (sid \<rightharpoonup> nat) \<Rightarrow> mid \<Rightarrow> nat \<Rightarrow> (sid \<rightharpoonup> nat) \<times> pstate \<Rightarrow>
    ((sid \<rightharpoonup> nat) \<times> pstate, unit) outcome" where
  "push_thread sta tss cpy ids adp t a = (case push_module sta t adp (snd a) of (Inl e, v1) \<Rightarrow> (Inl e, (fst a, v1))
     | (Inr md, v1) \<Rightarrow> (case find_task md ''push'' (snd v1) of Inl e \<Rightarrow> (Inl e, (fst a, v1))
       | Inr task_push \<Rightarrow> (case foreach (push_bind (snd v1) (push_source (fst v1) (snd v1) sta tss ids t) (t_sockets (tsks (snd v1) task_push)))
              (filter (\<lambda>b. or_sta b \<le> sta) cpy) ([], [], Map.empty, 0, l_adp_binds (fst v1)) of
            (r, (_, _, ids', _, bs)) \<Rightarrow> (r, (ids', (fst v1\<lparr>l_adp_binds := bs\<rparr>, snd v1))))))"

definition push_stage :: "nat list \<Rightarrow> nat \<Rightarrow> tid list list \<Rightarrow> orphan list \<Rightarrow> (sid \<rightharpoonup> nat) \<Rightarrow> pstate \<Rightarrow> (pstate, mid \<times> (sid \<rightharpoonup> nat)) outcome" where
  "push_stage sizes sta tss cpy ids v = (case adp_shape (snd v) sta cpy of (elts, types, nf) \<Rightarrow>
     bindo (make_adaptor sta elts types (if sizes = [] then 1 else sizes ! sta) v) (\<lambda>adp v1.
     bindo (adp_set_n_frames nf sta adp v1) (\<lambda>_ v2.
       (case foreach (push_thread sta tss cpy ids adp) [0..<q_n_threads (l_stages (fst v2) ! sta)] (Map.empty, v2) of
          (Inl e, (_, v3)) \<Rightarrow> (Inl e, v3)
        | (Inr _, (ids', v3)) \<Rightarrow> bindo (on_pipe (\<lambda>p. p\<lparr>l_saved_lasts := (l_saved_lasts p)[sta := q_lasts_id (l_stages p ! sta)]\<rparr>) v3)
            (\<lambda>_ v4. (Inr (adp, ids'), v4))))))"

section \<open>All the junctions\<close>

type_synonym junctions = "orphan list \<times> mid option \<times> (sid \<rightharpoonup> nat)"

definition adp_stage :: "nat list \<Rightarrow> nat \<Rightarrow> junctions \<times> pstate \<Rightarrow> (junctions \<times> pstate, unit) outcome" where
  "adp_stage sizes sta a = (case a of ((cpy, adp, ids), v) \<Rightarrow> (case get_tasks_per_threads (l_stages (fst v) ! sta) of
     Inl e \<Rightarrow> (Inl e, a)
   | Inr tss \<Rightarrow> (case (if sta > 0 then pull_stage sta tss cpy ids adp v else (Inr cpy, v)) of
       (Inl e, v1) \<Rightarrow> (Inl e, ((cpy, adp, ids), v1))
     | (Inr cpy1, v1) \<Rightarrow> if sta < length (l_stages (fst v1)) - 1
         then (case push_stage sizes sta tss cpy1 ids v1 of
             (Inl e, v2) \<Rightarrow> (Inl e, ((cpy1, adp, ids), v2))
           | (Inr (adp', ids'), v2) \<Rightarrow> (Inr (), ((cpy1, Some adp', ids'), v2)))
         else (Inr (), ((cpy1, adp, Map.empty), v1)))))"

definition create_adaptors :: "nat list \<Rightarrow> pstate \<Rightarrow> (pstate, unit) outcome" where
  "create_adaptors sizes v = (case first_threads (l_stages (fst v)) of Inl e \<Rightarrow> (Inl e, v)
     | Inr tss \<Rightarrow> let os = l_orphans (fst v) @ find_orphans (snd v) tss; v1 = (fst v\<lparr>l_orphans := os\<rparr>, snd v) in
       (case foreach (adp_stage sizes) [0..<length (l_stages (fst v))] ((os, None, Map.empty), v1) of (r, (_, v2)) \<Rightarrow> (r, v2)))"

section \<open>The tasks of the adaptors in the stages\<close>

text \<open>
  The adaptor of the thread \<open>t\<close> that the stage pulls from: the first pusher of the junction is also its first
  puller.
\<close>

definition puller :: "nat \<Rightarrow> nat \<Rightarrow> pipe \<Rightarrow> exn + mid" where
  "puller sta t p = (case look (l_adaptors p) (sta - 1) of Inl e \<Rightarrow> Inl e
     | Inr (fs, ss) \<Rightarrow> if t > 0 then look ss (t - 1) else look fs 0)"

definition pusher :: "nat \<Rightarrow> nat \<Rightarrow> pipe \<Rightarrow> exn + mid" where
  "pusher sta t p = (case look (l_adaptors p) sta of Inl e \<Rightarrow> Inl e | Inr (fs, ss) \<Rightarrow> look fs t)"

definition on_node :: "nat option \<Rightarrow> (subseq \<Rightarrow> (exn + subseq)) \<Rightarrow> seq \<Rightarrow> (seq, unit) outcome" where
  "on_node x f q = (case x of None \<Rightarrow> (Inl UB, q) | Some n \<Rightarrow> (case contents_of (q_graph q) n of None \<Rightarrow> (Inl UB, q)
     | Some c \<Rightarrow> (case f c of Inl e \<Rightarrow> (Inl e, q) | Inr c' \<Rightarrow> (Inr (), q\<lparr>q_graph := set_contents n (Some c') (q_graph q)\<rparr>))))"

definition add_first :: "nat \<Rightarrow> tid \<Rightarrow> seq \<Rightarrow> (seq, unit) outcome" where
  "add_first t tk q = bindo (on_node (Some (q_sequences q ! t)) (\<lambda>c. Inr (c\<lparr>ss_tasks := tk # ss_tasks c\<rparr>)) q)
     (\<lambda>_. update_tasks_id t)"

definition drop_first :: "nat \<Rightarrow> seq \<Rightarrow> (seq, unit) outcome" where
  "drop_first t q = bindo (on_node (Some (q_sequences q ! t)) (\<lambda>c. if ss_tasks c = [] then Inl UB else Inr (c\<lparr>ss_tasks := tl (ss_tasks c)\<rparr>)) q)
     (\<lambda>_. update_tasks_id t)"

definition add_last :: "nat \<Rightarrow> tid \<Rightarrow> seq \<Rightarrow> (seq, nat) outcome" where
  "add_last t tk q = (case get_last_subsequence t q of Inl e \<Rightarrow> (Inl e, q)
     | Inr x \<Rightarrow> bindo (on_node x (\<lambda>c. if ss_tasks_id c = [] then Inl UB
           else Inr (c\<lparr>ss_tasks := ss_tasks c @ [tk], ss_tasks_id := ss_tasks_id c @ [last (ss_tasks_id c) + 1]\<rparr>)) q)
         (\<lambda>_ q'. (Inr (case x of None \<Rightarrow> 0 | Some n \<Rightarrow> (case contents_of (q_graph q') n of None \<Rightarrow> 0 | Some c \<Rightarrow> last (ss_tasks_id c))), q')))"

definition remove_last :: "nat \<Rightarrow> seq \<Rightarrow> (seq, unit) outcome" where
  "remove_last t q = (case get_last_subsequence t q of Inl e \<Rightarrow> (Inl e, q)
     | Inr x \<Rightarrow> on_node x (\<lambda>c. if ss_tasks c = [] \<or> ss_tasks_id c = [] then Inl UB
         else Inr (c\<lparr>ss_tasks := butlast (ss_tasks c), ss_tasks_id := butlast (ss_tasks_id c)\<rparr>)) q)"

definition pop_module :: "nat \<Rightarrow> seq \<Rightarrow> (seq, unit) outcome" where
  "pop_module t q = (if t < length (q_all_modules q) \<and> q_all_modules q ! t \<noteq> []
     then (Inr (), q\<lparr>q_all_modules := (q_all_modules q)[t := butlast (q_all_modules q ! t)]\<rparr>) else (Inl UB, q))"

definition bind_pull_thread :: "nat \<Rightarrow> nat \<Rightarrow> pstate \<Rightarrow> (pstate, unit) outcome" where
  "bind_pull_thread sta t v = (case puller sta t (fst v) of Inl e \<Rightarrow> (Inl e, v)
     | Inr md \<Rightarrow> bindo (if t > 0 \<or> sta = length (l_stages (fst v)) - 1 then on_stage sta (add_module t md) v else (Inr (), v))
         (\<lambda>_ v1. case find_task md ''pull'' (snd v1) of Inl e \<Rightarrow> (Inl e, v1) | Inr tk \<Rightarrow> on_stage sta (add_first t tk) v1))"

definition bind_pull_stage :: "nat \<Rightarrow> pstate \<Rightarrow> (pstate, unit) outcome" where
  "bind_pull_stage sta v = bindo (foreach (bind_pull_thread sta) [0..<q_n_threads (l_stages (fst v) ! sta)] v)
     (\<lambda>_. on_stage sta (\<lambda>q. (Inr (), q\<lparr>q_firsts_id := [0], q_n_tasks := q_n_tasks q + 1\<rparr>)))"

definition bind_push_thread :: "nat \<Rightarrow> nat \<Rightarrow> nat \<times> pstate \<Rightarrow> (nat \<times> pstate, unit) outcome" where
  "bind_push_thread sta t a = (case pusher sta t (fst (snd a)) of Inl e \<Rightarrow> (Inl e, a)
     | Inr md \<Rightarrow> (case on_stage sta (add_module t md) (snd a) of (Inl e, v1) \<Rightarrow> (Inl e, (fst a, v1))
       | (Inr _, v1) \<Rightarrow> (case find_task md ''push'' (snd v1) of Inl e \<Rightarrow> (Inl e, (fst a, v1))
         | Inr tk \<Rightarrow> (case on_stage sta (add_last t tk) v1 of (Inl e, v2) \<Rightarrow> (Inl e, (fst a, v2))
           | (Inr i, v2) \<Rightarrow> (Inr (), (i, v2))))))"

definition bind_push_stage :: "nat \<Rightarrow> pstate \<Rightarrow> (pstate, unit) outcome" where
  "bind_push_stage sta v = (case foreach (bind_push_thread sta) [0..<q_n_threads (l_stages (fst v) ! sta)] (0, v) of
     (Inl e, (_, v1)) \<Rightarrow> (Inl e, v1)
   | (Inr _, (i, v1)) \<Rightarrow> on_stage sta (\<lambda>q. (Inr (), q\<lparr>q_lasts_id := [i], q_n_tasks := q_n_tasks q + 1\<rparr>)) v1)"

definition bind_stage :: "nat \<Rightarrow> pstate \<Rightarrow> (pstate, unit) outcome" where
  "bind_stage sta v = bindo (if sta > 0 then bind_pull_stage sta v else (Inr (), v)) (\<lambda>_ v1.
     bindo (if sta < length (l_stages (fst v1)) - 1 then bind_push_stage sta v1 else (Inr (), v1)) (\<lambda>_.
     on_stage sta update_firsts_and_lasts_tasks))"

definition unbind_pull_thread :: "nat \<Rightarrow> nat \<Rightarrow> pstate \<Rightarrow> (pstate, unit) outcome" where
  "unbind_pull_thread sta t v = bindo (if t > 0 \<or> sta = length (l_stages (fst v)) - 1 then on_stage sta (pop_module t) v else (Inr (), v))
     (\<lambda>_. on_stage sta (drop_first t))"

definition unbind_pull_stage :: "nat \<Rightarrow> pstate \<Rightarrow> (pstate, unit) outcome" where
  "unbind_pull_stage sta v = bindo (foreach (unbind_pull_thread sta) [0..<q_n_threads (l_stages (fst v) ! sta)] v)
     (\<lambda>_ v1. on_stage sta (\<lambda>q. (Inr (), q\<lparr>q_firsts_id := l_saved_firsts (fst v1) ! sta, q_n_tasks := size_sub (q_n_tasks q) 1\<rparr>)) v1)"

definition unbind_push_thread :: "nat \<Rightarrow> nat \<Rightarrow> pstate \<Rightarrow> (pstate, unit) outcome" where
  "unbind_push_thread sta t v = bindo (on_stage sta (pop_module t) v) (\<lambda>_. on_stage sta (remove_last t))"

definition unbind_push_stage :: "nat \<Rightarrow> pstate \<Rightarrow> (pstate, unit) outcome" where
  "unbind_push_stage sta v = bindo (foreach (unbind_push_thread sta) [0..<q_n_threads (l_stages (fst v) ! sta)] v)
     (\<lambda>_ v1. on_stage sta (\<lambda>q. (Inr (), q\<lparr>q_lasts_id := l_saved_lasts (fst v1) ! sta, q_n_tasks := size_sub (q_n_tasks q) 1\<rparr>)) v1)"

definition unbind_stage :: "nat \<Rightarrow> pstate \<Rightarrow> (pstate, unit) outcome" where
  "unbind_stage sta v = bindo (if sta > 0 then unbind_pull_stage sta v else (Inr (), v)) (\<lambda>_ v1.
     bindo (if sta < length (l_stages (fst v1)) - 1 then unbind_push_stage sta v1 else (Inr (), v1)) (\<lambda>_.
     on_stage sta update_firsts_and_lasts_tasks))"

section \<open>The sockets\<close>

definition on_link :: "(sid \<Rightarrow> world \<Rightarrow> (world, 'a) outcome) \<Rightarrow> (tid \<Rightarrow> world \<Rightarrow> (world, 'b) outcome) \<Rightarrow> sid option \<Rightarrow> tid option \<Rightarrow>
    world \<Rightarrow> (world, unit) outcome" where
  "on_link on_sck on_tsk i t w = (case i of Some i' \<Rightarrow> drop_value (on_sck i' w)
     | None \<Rightarrow> (case t of None \<Rightarrow> (Inl UB, w) | Some t' \<Rightarrow> drop_value (on_tsk t' w)))"

definition unbind_orphan :: "orphan \<Rightarrow> world \<Rightarrow> (world, unit) outcome" where
  "unbind_orphan b = on_link (\<lambda>i. unbind_sck i (or_out b)) (\<lambda>t. unbind_tsk t (or_out b)) (oi_sck b) (oi_tsk b)"

definition bind_orphan :: "orphan \<Rightarrow> world \<Rightarrow> (world, unit) outcome" where
  "bind_orphan b = on_link (\<lambda>i. bind_sck i (or_out b) (int (or_pos b))) (\<lambda>t. bind_tsk t (or_out b) (int (or_pos b))) (oi_sck b) (oi_tsk b)"

definition bind_adp :: "adp_bind \<Rightarrow> world \<Rightarrow> (world, unit) outcome" where
  "bind_adp b = on_link (\<lambda>i. bind_sck i (ab_out b) (int (ab_prio b))) (\<lambda>t. bind_tsk t (ab_out b) (int (ab_prio b))) (ab_in b) (ab_tsk b)"

definition unbind_adp :: "adp_bind \<Rightarrow> world \<Rightarrow> (world, unit) outcome" where
  "unbind_adp b = on_link (\<lambda>i. unbind_sck i (ab_out b)) (\<lambda>t. unbind_tsk t (ab_out b)) (ab_in b) (ab_tsk b)"

definition bind_adaptors_raw :: "bool \<Rightarrow> pstate \<Rightarrow> (pstate, unit) outcome" where
  "bind_adaptors_raw bind_them v = (if l_bound (fst v) then (Inr (), v)
     else bindo (foreach bind_stage [0..<length (l_stages (fst v))] v) (\<lambda>_ v1.
       bindo (on_world (foreach unbind_orphan (l_orphans (fst v1))) v1) (\<lambda>_ v2.
       bindo (if bind_them then on_world (foreach bind_adp (l_adp_binds (fst v2))) v2 else (Inr (), v2)) (\<lambda>_.
       on_pipe (\<lambda>p. p\<lparr>l_bound := True\<rparr>)))))"

definition unbind_adaptors_raw :: "bool \<Rightarrow> pstate \<Rightarrow> (pstate, unit) outcome" where
  "unbind_adaptors_raw bind_orphans v = (if \<not> l_bound (fst v) then (Inr (), v)
     else bindo (foreach unbind_stage [0..<length (l_stages (fst v))] v) (\<lambda>_ v1.
       bindo (on_world (foreach unbind_adp (l_adp_binds (fst v1))) v1) (\<lambda>_ v2.
       bindo (if bind_orphans then on_world (foreach bind_orphan (l_orphans (fst v2))) v2 else (Inr (), v2)) (\<lambda>_.
       on_pipe (\<lambda>p. p\<lparr>l_bound := False\<rparr>)))))"

definition bind_adaptors :: "pstate \<Rightarrow> (pstate, unit) outcome" where
  "bind_adaptors = bind_adaptors_raw True"

definition unbind_adaptors :: "pstate \<Rightarrow> (pstate, unit) outcome" where
  "unbind_adaptors = unbind_adaptors_raw True"

section \<open>Construction and frames\<close>

text \<open>\<^verbatim>\<open>Sequence::allocate_outbuffers\<close> with the \<^verbatim>\<open>Buffer_allocator\<close>: the output buffers of every task of a sequence.\<close>

definition allocate_sequence_memory :: "seq \<Rightarrow> world \<Rightarrow> (world, unit) outcome" where
  "allocate_sequence_memory q w = (case get_tasks_per_threads q of Inl e \<Rightarrow> (Inl e, w)
     | Inr tss \<Rightarrow> foreach (\<lambda>t w. allocate_outbuffers (Suc (next_sock w)) t w) (concat tss) w)"

definition deallocate_sequence_memory :: "seq \<Rightarrow> world \<Rightarrow> (world, unit) outcome" where
  "deallocate_sequence_memory q w = (case get_tasks_per_threads q of Inl e \<Rightarrow> (Inl e, w)
     | Inr tss \<Rightarrow> foreach (\<lambda>t w. deallocate_outbuffers (Suc (next_sock w)) t w) (concat tss) w)"

definition seq_allocate :: "seq \<Rightarrow> world \<Rightarrow> (world, seq) outcome" where
  "seq_allocate q w = (if q_memory q then (Inl Invalid_argument, w)
     else bindo (allocate_sequence_memory q w) (\<lambda>_ w'. (Inr (q\<lparr>q_memory := True\<rparr>), w')))"

definition seq_deallocate :: "seq \<Rightarrow> world \<Rightarrow> (world, seq) outcome" where
  "seq_deallocate q w = (if \<not> q_memory q then (Inl Invalid_argument, w)
     else bindo (deallocate_sequence_memory q w) (\<lambda>_ w'. (Inr (q\<lparr>q_memory := False\<rparr>), w')))"

definition allocate_stage :: "nat \<Rightarrow> pstate \<Rightarrow> (pstate, unit) outcome" where
  "allocate_stage sta v = (case seq_allocate (l_stages (fst v) ! sta) (snd v) of (Inl e, w) \<Rightarrow> (Inl e, (fst v, w))
     | (Inr q, w) \<Rightarrow> (Inr (), (fst v\<lparr>l_stages := (l_stages (fst v))[sta := q]\<rparr>, w)))"

text \<open>\<^verbatim>\<open>init\<close> once the stages are built (\<open>l_stages\<close>): the comparison with the sequential program, the adaptors, the memory.\<close>

definition pipe_join :: "nat list \<Rightarrow> pstate \<Rightarrow> (pstate, unit) outcome" where
  "pipe_join sizes v = (case get_tasks_per_threads (l_original (fst v)) of Inl e \<Rightarrow> (Inl e, v)
     | Inr ref \<Rightarrow> (case pipe_tasks_per_threads (fst v) of Inl e \<Rightarrow> (Inl e, v)
       | Inr cur \<Rightarrow> (case look ref 0 of Inl e \<Rightarrow> (Inl e, v) | Inr ref_tasks \<Rightarrow> (case look cur 0 of Inl e \<Rightarrow> (Inl e, v)
         | Inr cur_tasks \<Rightarrow> (case same_tasks_guard ref_tasks cur_tasks of Inl e \<Rightarrow> (Inl e, v)
           | Inr _ \<Rightarrow> bindo (create_adaptors sizes v) (\<lambda>_ v1. bindo (bind_adaptors v1) (\<lambda>_ v2.
               foreach allocate_stage [0..<length (l_stages (fst v2))] v2)))))))"

text \<open>The adaptors of all the junctions, each with the number of its junction.\<close>

definition all_adaptors :: "pipe \<Rightarrow> (nat \<times> mid) list" where
  "all_adaptors p = concat (map (\<lambda>j. map (Pair j) (fst (l_adaptors p ! j) @ snd (l_adaptors p ! j))) [0..<length (l_adaptors p)])"

text \<open>The clones of the adaptors are modules of their stage: the number of frames of an \<open>inst\<close> is the one of its module.\<close>

definition frames_stage :: "nat \<Rightarrow> nat \<Rightarrow> nat \<Rightarrow> pstate \<Rightarrow> (pstate, unit) outcome" where
  "frames_stage F n sta v = (case on_world (frames_set F (l_stages (fst v) ! sta) n) v of (r, (p, w)) \<Rightarrow>
     (r, (p\<lparr>l_inst := (\<lambda>m. if m \<in> set (concat (q_all_modules (l_stages p ! sta))) then (l_inst p m)\<lparr>i_n_frames := m_n_frames (mods w m)\<rparr>
        else l_inst p m)\<rparr>, w)))"

definition unbind_frames_stage :: "nat \<Rightarrow> ((sid \<times> sid) list \<times> (tid \<times> sid) list) list \<times> pstate \<Rightarrow>
    (((sid \<times> sid) list \<times> (tid \<times> sid) list) list \<times> pstate, unit) outcome" where
  "unbind_frames_stage sta a = (case frames_unbind (l_stages (fst (snd a)) ! sta) (snd (snd a)) of
     (Inl e, (w, _, _)) \<Rightarrow> (Inl e, (fst a, (fst (snd a), w)))
   | (Inr _, (w, us, ut)) \<Rightarrow> (Inr (), (fst a @ [(us, ut)], (fst (snd a), w))))"

definition pipe_set_n_frames :: "nat \<Rightarrow> nat \<Rightarrow> pstate \<Rightarrow> (pstate, unit) outcome" where
  "pipe_set_n_frames F n v = (let was_bound = l_bound (fst v) in
     bindo (if \<not> was_bound then bind_adaptors v else (Inr (), v)) (\<lambda>_ v0.
     bindo (unbind_adaptors_raw False v0) (\<lambda>_ v1.
       (case map_exn (\<lambda>q. seq_get_n_frames q (snd v1)) (l_stages (fst v1)) of Inl e \<Rightarrow> (Inl e, v1)
        | Inr olds \<Rightarrow> let todo = filter (\<lambda>s. olds ! s \<noteq> n) [0..<length (l_stages (fst v1))] in
          (case foreach unbind_frames_stage todo ([], v1) of (Inl e, (_, v2)) \<Rightarrow> (Inl e, v2)
           | (Inr _, (undone, v2)) \<Rightarrow>
             bindo (foreach (frames_stage F n) todo v2) (\<lambda>_ v3.
             bindo (foreach (\<lambda>(us, ut). on_world (frames_rebind us ut)) undone v3) (\<lambda>_ v4.
             bindo (foreach (\<lambda>(j, md). adp_set_n_frames n j md) (all_adaptors (fst v4)) v4) (\<lambda>_ v5.
             bindo (on_world (foreach bind_orphan (l_orphans (fst v5))) v5) (\<lambda>_ v6.
               if was_bound then bind_adaptors v6 else (Inr (), v6))))))))))"

section \<open>Execution\<close>

definition exec_guard_pipe :: "nat \<Rightarrow> pipe \<Rightarrow> exn + unit" where
  "exec_guard_pipe n_conditions p =
     (if n_conditions \<noteq> length (l_stages p) \<and> n_conditions \<noteq> 1 then Inl Invalid_argument
      else if \<not> l_bound p then Inl Runtime_error else Inr ())"

text \<open>The stop condition of a stage, when it has one: the last stage always has.\<close>

definition stop_condition_of :: "nat \<Rightarrow> pipe \<Rightarrow> nat \<Rightarrow> nat option" where
  "stop_condition_of n_conditions p s = (if s = length (l_stages p) - 1 then Some (n_conditions - 1)
     else if n_conditions = length (l_stages p) then Some s else None)"

fun has_infix :: "'a list \<Rightarrow> 'a list \<Rightarrow> bool" where
  "has_infix xs [] = (xs = [])"
| "has_infix xs (y # ys) = (take (length xs) (y # ys) = xs \<or> has_infix xs ys)"

text \<open>
  A thread that leaves the stage \<open>s\<close> cancels the pull adaptors of the next stage; the last stage cancels the adaptors
  of all the others. \<open>is_adp\<close>: the module is an adaptor, the only module that waits.
\<close>

definition cancelled_after :: "(mid \<Rightarrow> bool) \<Rightarrow> pipe \<Rightarrow> world \<Rightarrow> nat \<Rightarrow> exn + mid list" where
  "cancelled_after is_adp p w s = (case get_tasks_per_threads (l_stages p ! (s + 1)) of Inl e \<Rightarrow> Inl e
     | Inr tss \<Rightarrow> Inr (map (\<lambda>t. t_module (tsks w t)) (filter (\<lambda>t. is_adp (t_module (tsks w t)) \<and> has_infix ''pull'' (t_name (tsks w t))) (concat tss))))"

definition cancelled_before_last :: "(mid \<Rightarrow> bool) \<Rightarrow> pipe \<Rightarrow> mid list" where
  "cancelled_before_last is_adp p = filter is_adp (concat (concat (map q_all_modules (butlast (l_stages p)))))"

definition cancel_all :: "mid list \<Rightarrow> pipe \<Rightarrow> pipe" where
  "cancel_all mds p = p\<lparr>l_inst := (\<lambda>m. if m \<in> set mds then cancel_waiting (l_inst p m) else l_inst p m)\<rparr>"

text \<open>The end of an execution: the stages leave the no copy mode, the adaptors are reset.\<close>

definition reset_all :: "pstate \<Rightarrow> (pstate, unit) outcome" where
  "reset_all v = foreach (\<lambda>(j, md). on_adp j md (\<lambda>s. (Inr (), reset_adaptor s))) (all_adaptors (fst v)) v"

end
