(* ===== verification/Pipeline_Links.thy ===== *)
theory Pipeline_Links
  imports Pipelines
begin

text \<open>
  The orphans of a pipeline are the links from a stage to a later one: unbinding them cuts the stages apart.
\<close>

section \<open>Loops that collect\<close>

lemma fold_collects:
  assumes "\<And>x s. x \<in> set xs \<Longrightarrow> g (f x s) = g s \<union> S x"
  shows "g (fold f xs s) = g s \<union> (\<Union>x \<in> set xs. S x)"
  using assms by (induction xs arbitrary: s) auto

lemma fold_appends:
  assumes "\<And>x s. x \<in> set xs \<Longrightarrow> h (f x s) = h s @ N x"
  shows "h (fold f xs s) = h s @ concat (map N xs)"
  using assms by (induction xs arbitrary: s) auto

lemma fold_collects_numbered:
  assumes "\<And>k x s. x \<in> set xs \<Longrightarrow> g (f (k, x) s) = g s \<union> S x"
  shows "g (fold f (enumerate n xs) s) = g s \<union> (\<Union>x \<in> set xs. S x)"
  using assms by (induction xs arbitrary: n s) auto

lemma fold_appends_numbered:
  assumes "\<And>k x s. x \<in> set xs \<Longrightarrow> h (f (k, x) s) = h s @ N x"
  shows "h (fold f (enumerate n xs) s) = h s @ concat (map N xs)"
  using assms by (induction xs arbitrary: n s) auto

section \<open>The outputs\<close>

definition outs_known :: "out_orphan list \<Rightarrow> sid set" where
  "outs_known os = oo_sck ` set os"

lemma outs_note [simp]: "outs_known (note_out sta k l sck os) = insert sck (outs_known os)"
proof (cases "find_pos sck (map oo_sck os)")
  case (Some pos)
  then have pos: "pos < length os" "oo_sck (os ! pos) = sck" using find_pos_Some by fastforce+
  have "map oo_sck (os[pos := (os ! pos)\<lparr>oo_occ := n\<rparr>]) = map oo_sck os" for n
    using pos(1) by (simp add: map_update) (metis list_update_id nth_map)
  then have "outs_known (note_out sta k l sck os) = outs_known os"
    using Some unfolding note_out_def outs_known_def by (metis list.set_map option.simps(5))
  moreover have "sck \<in> outs_known os" using pos by (auto simp: outs_known_def)
  ultimately show ?thesis by (simp add: insert_absorb)
next
  case None
  then have "note_out sta k l sck os = os @ [\<lparr>oo_sck = sck, oo_occ = 1, oo_sta = sta, oo_tsk_id = k, oo_sck_id = l\<rparr>]"
    by (simp only: note_out_def option.case)
  then show ?thesis by (simp add: outs_known_def)
qed

text \<open>The outputs \<open>os\<close> that are bound out of \<open>own\<close>.\<close>

definition leaves :: "world \<Rightarrow> tid list \<Rightarrow> sid \<Rightarrow> bool" where
  "leaves w own out \<longleftrightarrow> s_type (socks w out) \<noteq> SIN \<and> (\<exists>b \<in> set (s_bound_sockets (socks w out)). s_task (socks w b) \<notin> set own)"

lemma outs_of_socket: "outs_known (outs_of_socket w own sta k x os) = outs_known os \<union> (if leaves w own (snd x) then {snd x} else {})"
proof -
  obtain l sck where x: "x = (l, sck)" by (cases x)
  have "outs_known (fold (\<lambda>b os. if s_task (socks w b) \<notin> set own then note_out sta k l sck os else os) bs os) =
      outs_known os \<union> (\<Union>b \<in> set bs. if s_task (socks w b) \<notin> set own then {sck} else {})" for bs
    by (rule fold_collects [where g = outs_known]) simp
  moreover have "s_type (socks w sck) = SOUT \<or> s_type (socks w sck) = SFWD \<longleftrightarrow> s_type (socks w sck) \<noteq> SIN"
    by (cases "s_type (socks w sck)") simp_all
  ultimately show ?thesis by (auto simp: outs_of_socket_def x leaves_def)
qed

lemma outs_of_task:
  "outs_known (outs_of_task w own sta (k, t) os) = outs_known os \<union> {out \<in> set (t_sockets (tsks w t)). leaves w own out}"
proof -
  have "outs_known (fold (outs_of_socket w own sta k) (enumerate 0 (t_sockets (tsks w t))) os) = outs_known os \<union>
      (\<Union>out \<in> set (t_sockets (tsks w t)). if leaves w own out then {out} else {})"
    by (rule fold_collects_numbered) (simp add: outs_of_socket)
  then show ?thesis by (auto simp: outs_of_task_def)
qed

lemma outs_of_stage:
  "outs_known (outs_of_stage w sta own os) = outs_known os \<union> {out. (\<exists>t \<in> set own. out \<in> set (t_sockets (tsks w t))) \<and> leaves w own out}"
proof -
  have "outs_known (fold (outs_of_task w own sta) (enumerate 0 own) os) = outs_known os \<union>
      (\<Union>t \<in> set own. {out \<in> set (t_sockets (tsks w t)). leaves w own out})"
    by (rule fold_collects_numbered) (rule outs_of_task)
  then show ?thesis by (auto simp: outs_of_stage_def)
qed

section \<open>The inputs\<close>

text \<open>The link an orphan stands for.\<close>

definition links_of :: "orphan list \<Rightarrow> (sid option \<times> sid) list" where
  "links_of bs = map (\<lambda>b. (oi_sck b, or_out b)) bs"

definition comes_from :: "world \<Rightarrow> tid list \<Rightarrow> sid set \<Rightarrow> sid \<Rightarrow> bool" where
  "comes_from w own outs i \<longleftrightarrow> s_type (socks w i) \<noteq> SOUT \<and>
     (\<exists>out. s_bound_socket (socks w i) = Some out \<and> s_task (socks w out) \<notin> set own \<and> out \<in> outs)"

definition link_in :: "world \<Rightarrow> sid \<Rightarrow> sid option \<times> sid" where
  "link_in w i = (Some i, the (s_bound_socket (socks w i)))"

lemma find_known: "find (\<lambda>o'. oo_sck o' = b) os = None \<longleftrightarrow> b \<notin> outs_known os"
  by (auto simp: outs_known_def find_None_iff)

lemma find_knownD: "find (\<lambda>o'. oo_sck o' = b) os = Some o' \<Longrightarrow> oo_sck o' = b"
  by (auto simp: find_Some_iff)

lemma note_in_links:
  "links_of (if s_type (socks w i) = SIN \<or> s_type (socks w i) = SFWD then note_in w own sta os k None (l, i) bs else bs) =
    links_of bs @ (if comes_from w own (outs_known os) i then [link_in w i] else [])"
proof (cases "s_type (socks w i) = SOUT \<or> s_bound_socket (socks w i) = None")
  case True
  then show ?thesis by (auto simp: note_in_def get_bound_socket_def comes_from_def)
next
  case False
  then obtain out where out: "s_bound_socket (socks w i) = Some out" "s_type (socks w i) = SIN \<or> s_type (socks w i) = SFWD"
    by (metis option.exhaust socket_t.exhaust)
  show ?thesis
  proof (cases "find (\<lambda>o'. oo_sck o' = out) os")
    case None
    moreover have "out \<notin> outs_known os" using None find_known by metis
    ultimately show ?thesis using out by (auto simp: note_in_def get_bound_socket_def comes_from_def)
  next
    case (Some o')
    moreover have "out \<in> outs_known os" using Some find_known by (metis option.distinct(1))
    moreover have "oo_sck o' = out" using Some by (rule find_knownD)
    ultimately show ?thesis
      using out by (auto simp: note_in_def get_bound_socket_def comes_from_def links_of_def link_in_def)
  qed
qed

lemma ins_of_task_links:
  assumes "t_fake_input_sockets (tsks w t) = []"
  shows "links_of (ins_of_task w own sta os (k, t) bs) =
    links_of bs @ map (link_in w) (filter (comes_from w own (outs_known os)) (t_sockets (tsks w t)))"
proof -
  have "links_of (fold (\<lambda>x bs. if s_type (socks w (snd x)) = SIN \<or> s_type (socks w (snd x)) = SFWD
        then note_in w own sta os k None x bs else bs) (enumerate 0 (t_sockets (tsks w t))) bs) =
      links_of bs @ concat (map (\<lambda>i. if comes_from w own (outs_known os) i then [link_in w i] else []) (t_sockets (tsks w t)))"
    by (rule fold_appends_numbered) (simp only: snd_conv note_in_links)
  moreover have "concat (map (\<lambda>i. if P i then [g i] else []) xs) = map g (filter P xs)" for P and g :: "sid \<Rightarrow> sid option \<times> sid" and xs
    by (induction xs) auto
  ultimately show ?thesis using assms by (simp add: ins_of_task_def)
qed

definition stage_sockets :: "world \<Rightarrow> tid list \<Rightarrow> sid list" where
  "stage_sockets w own = concat (map (\<lambda>t. t_sockets (tsks w t)) own)"

lemma ins_of_stage_links:
  assumes "no_fakes w"
  shows "links_of (ins_of_stage w sta own os bs) =
    links_of bs @ map (link_in w) (filter (comes_from w own (outs_known os)) (stage_sockets w own))"
proof -
  have "links_of (fold (ins_of_task w own sta os) (enumerate 0 own) bs) = links_of bs @
      concat (map (\<lambda>t. map (link_in w) (filter (comes_from w own (outs_known os)) (t_sockets (tsks w t)))) own)"
    by (rule fold_appends_numbered) (use assms in \<open>simp add: ins_of_task_links no_fakes_def\<close>)
  then show ?thesis by (simp add: ins_of_stage_def stage_sockets_def filter_concat map_concat comp_def)
qed

section \<open>All the stages\<close>

definition outs_before :: "world \<Rightarrow> tid list list \<Rightarrow> nat \<Rightarrow> sid set" where
  "outs_before w tss k = {out. \<exists>a < k. out \<in> set (stage_sockets w (tss ! a)) \<and> leaves w (tss ! a) out}"

lemma junctions_links:
  assumes "no_fakes w"
  shows "(case fold (junction w tss) [0..<n] ([], []) of (os, bs) \<Rightarrow> outs_known os = outs_before w tss n \<and>
    links_of bs = concat (map (\<lambda>j. map (link_in w) (filter (comes_from w (tss ! (j + 1)) (outs_before w tss (j + 1)))
      (stage_sockets w (tss ! (j + 1))))) [0..<n]))"
proof (induction n)
  case 0
  show ?case by (simp add: outs_known_def outs_before_def links_of_def)
next
  case (Suc n)
  obtain os bs where v: "fold (junction w tss) [0..<n] ([], []) = (os, bs)" by fastforce
  have os: "outs_known (outs_of_stage w n (tss ! n) os) = outs_before w tss (Suc n)"
    using Suc unfolding v by (auto simp: outs_of_stage outs_before_def stage_sockets_def less_Suc_eq)
  have step: "fold (junction w tss) [0..<Suc n] ([], []) = junction w tss n (os, bs)" by (simp add: v)
  have IH: "outs_known os = outs_before w tss n" "links_of bs = concat (map (\<lambda>j. map (link_in w)
      (filter (comes_from w (tss ! (j + 1)) (outs_before w tss (j + 1))) (stage_sockets w (tss ! (j + 1))))) [0..<n])"
    using Suc unfolding v by simp_all
  show ?case
    unfolding step unfolding junction_def Let_def prod.case using os by (simp add: ins_of_stage_links [OF assms] IH)
qed

text \<open>
  What the construction relies on: the sockets of a task belong to it, a task is in one stage only, and only once.
\<close>

definition stages_ok :: "world \<Rightarrow> tid list list \<Rightarrow> bool" where
  "stages_ok w tss \<longleftrightarrow> wf_links w \<and> no_fakes w \<and> distinct (concat tss) \<and>
     (\<forall>t. distinct (t_sockets (tsks w t)) \<and> (\<forall>i \<in> set (t_sockets (tsks w t)). s_task (socks w i) = t))"

text \<open>A socket of the tasks \<open>ts\<close>; the links from a stage to a later one.\<close>

definition in_stage :: "world \<Rightarrow> tid list \<Rightarrow> sid \<Rightarrow> bool" where
  "in_stage w ts i \<longleftrightarrow> s_task (socks w i) \<in> set ts \<and> i \<in> set (t_sockets (tsks w (s_task (socks w i))))"

definition crossing :: "world \<Rightarrow> tid list list \<Rightarrow> (sid \<times> sid) set" where
  "crossing w tss = {(i, out). s_bound_socket (socks w i) = Some out \<and> s_type (socks w i) \<noteq> SOUT \<and> s_type (socks w out) \<noteq> SIN \<and>
     (\<exists>a b. a < b \<and> b < length tss \<and> in_stage w (tss ! a) out \<and> in_stage w (tss ! b) i)}"

lemma crossing_bound: "(i, out) \<in> crossing w tss \<Longrightarrow> s_bound_socket (socks w i) = Some out"
  by (simp add: crossing_def)

lemma stage_sockets_iff: "stages_ok w tss \<Longrightarrow> i \<in> set (stage_sockets w ts) \<longleftrightarrow> in_stage w ts i"
  by (auto simp: stages_ok_def stage_sockets_def in_stage_def)

lemma apart: "distinct (concat tss) \<Longrightarrow> a < b \<Longrightarrow> b < length tss \<Longrightarrow> set (tss ! a) \<inter> set (tss ! b) = {}"
proof (induction tss arbitrary: a b)
  case (Cons ts tss)
  obtain b' where b: "b = Suc b'" "b' < length tss" using Cons.prems(2,3) by (cases b) auto
  show ?case
  proof (cases a)
    case 0
    have "set (tss ! b') \<subseteq> \<Union> (set ` set tss)" using nth_mem [OF b(2)] by blast
    then show ?thesis using Cons.prems(1) b 0 by auto
  next
    case (Suc a')
    then show ?thesis using Cons.IH [of a' b'] Cons.prems b by simp
  qed
qed simp

lemma one_stage: "distinct (concat tss) \<Longrightarrow> a < length tss \<Longrightarrow> b < length tss \<Longrightarrow> t \<in> set (tss ! a) \<Longrightarrow> t \<in> set (tss ! b) \<Longrightarrow> a = b"
  using apart [of tss a b] apart [of tss b a] by (cases a b rule: linorder_cases) auto

lemma comes_from_crossing:
  assumes ok: "stages_ok w tss" and b: "b < length tss" and i: "in_stage w (tss ! b) i"
  shows "comes_from w (tss ! b) (outs_before w tss b) i \<longleftrightarrow> (\<exists>out. (i, out) \<in> crossing w tss)"
proof -
  have wf: "wf_links w" and d: "distinct (concat tss)" using ok by (auto simp: stages_ok_def)
  note one = one_stage [OF d]
  have out_iff: "out \<in> outs_before w tss b \<longleftrightarrow> s_type (socks w out) \<noteq> SIN \<and> (\<exists>a < b. in_stage w (tss ! a) out)"
    if "s_bound_socket (socks w i) = Some out" for out
  proof -
    have "i \<in> set (s_bound_sockets (socks w out))" using that wf_linksD(1) [OF wf] by auto
    moreover have "s_task (socks w i) \<notin> set (tss ! a)" if "a < b" for a
      using one [of a b "s_task (socks w i)"] i that b by (auto simp: in_stage_def)
    ultimately show ?thesis
      by (auto simp: outs_before_def stage_sockets_iff [OF ok] leaves_def)
  qed
  have other: "s_task (socks w out) \<notin> set (tss ! b)" if "a < b" "in_stage w (tss ! a) out" for a out
    using one [of a b "s_task (socks w out)"] that b by (auto simp: in_stage_def)
  have only_b: "b' = b" if "in_stage w (tss ! b') i" "b' < length tss" for b'
    using one [of b' b "s_task (socks w i)"] that i b by (auto simp: in_stage_def)
  show ?thesis
  proof
    assume "comes_from w (tss ! b) (outs_before w tss b) i"
    then obtain out where out: "s_type (socks w i) \<noteq> SOUT" "s_bound_socket (socks w i) = Some out" "out \<in> outs_before w tss b"
      by (auto simp: comes_from_def)
    with out_iff i b show "\<exists>out. (i, out) \<in> crossing w tss" by (auto simp: crossing_def)
  next
    assume "\<exists>out. (i, out) \<in> crossing w tss"
    then obtain out a b' where out: "s_type (socks w i) \<noteq> SOUT" "s_bound_socket (socks w i) = Some out" "s_type (socks w out) \<noteq> SIN"
        "a < b'" "b' < length tss" "in_stage w (tss ! a) out" "in_stage w (tss ! b') i"
      by (auto simp: crossing_def)
    with only_b have "b' = b" by blast
    with out out_iff other show "comes_from w (tss ! b) (outs_before w tss b) i" by (auto simp: comes_from_def)
  qed
qed

text \<open>The links of the orphans, each once.\<close>

definition crossing_inputs :: "world \<Rightarrow> tid list list \<Rightarrow> sid list" where
  "crossing_inputs w tss = concat (map (\<lambda>j. filter (comes_from w (tss ! (j + 1)) (outs_before w tss (j + 1)))
     (stage_sockets w (tss ! (j + 1)))) [0..<length tss - 1])"

lemma find_orphans_links: "no_fakes w \<Longrightarrow> links_of (find_orphans w tss) = map (link_in w) (crossing_inputs w tss)"
  using junctions_links [of w tss "length tss - 1"]
  by (simp add: find_orphans_def crossing_inputs_def map_concat comp_def split: prod.splits)

lemma crossing_inputs_iff:
  assumes ok: "stages_ok w tss"
  shows "i \<in> set (crossing_inputs w tss) \<longleftrightarrow> (\<exists>out. (i, out) \<in> crossing w tss)"
proof -
  have "i \<in> set (crossing_inputs w tss) \<longleftrightarrow> (\<exists>j < length tss - 1. in_stage w (tss ! (j + 1)) i \<and> comes_from w (tss ! (j + 1)) (outs_before w tss (j + 1)) i)"
    by (auto simp: crossing_inputs_def stage_sockets_iff [OF ok])
  also have "\<dots> \<longleftrightarrow> (\<exists>j < length tss - 1. in_stage w (tss ! (j + 1)) i \<and> (\<exists>out. (i, out) \<in> crossing w tss))"
    using comes_from_crossing [OF ok] by (metis less_diff_conv)
  also have "\<dots> \<longleftrightarrow> (\<exists>out. (i, out) \<in> crossing w tss)"
  proof -
    have "\<exists>j < length tss - 1. in_stage w (tss ! (j + 1)) i" if cross: "(i, out) \<in> crossing w tss" for out
    proof -
      obtain a b where "a < b" "b < length tss" "in_stage w (tss ! b) i" using cross by (auto simp: crossing_def)
      then show ?thesis by (intro exI [of _ "b - 1"]) auto
    qed
    then show ?thesis by blast
  qed
  finally show ?thesis .
qed

lemma crossing_inputs_distinct:
  assumes ok: "stages_ok w tss"
  shows "distinct (crossing_inputs w tss)"
proof -
  have sck: "distinct (t_sockets (tsks w t))" "i \<in> set (t_sockets (tsks w t)) \<Longrightarrow> s_task (socks w i) = t" for t i
    using ok by (auto simp: stages_ok_def)
  have stage: "distinct (stage_sockets w ts)" if "distinct ts" for ts
    using that
  proof (induction ts)
    case (Cons t ts)
    with sck(1) show ?case by (auto simp: stage_sockets_def) (metis sck(2))
  qed (simp add: stage_sockets_def)
  have d: "distinct (concat tss)" using ok by (simp add: stages_ok_def)
  define N where "N = (\<lambda>j. filter (comes_from w (tss ! (j + 1)) (outs_before w tss (j + 1))) (stage_sockets w (tss ! (j + 1))))"
  have "distinct (concat (map N [0..<k]))" if "k \<le> length tss - 1" for k
    using that
  proof (induction k)
    case (Suc k)
    then have k: "k + 1 < length tss" by arith
    then have "distinct (tss ! (k + 1))" using d by (auto simp: distinct_concat_iff)
    then have "distinct (N k)" by (simp only: N_def distinct_filter stage)
    moreover have "i \<notin> set (N k)" if "j < k" "i \<in> set (N j)" for i j
      using one_stage [OF d, of "j + 1" "k + 1" "s_task (socks w i)"] that k by (auto simp: N_def stage_sockets_iff [OF ok] in_stage_def)
    then have "set (concat (map N [0..<k])) \<inter> set (N k) = {}" by auto
    moreover have "concat (map N [0..<Suc k]) = concat (map N [0..<k]) @ N k" by simp
    ultimately show ?case using Suc by (simp only: distinct_append)
  qed simp
  then show ?thesis by (simp add: crossing_inputs_def N_def)
qed

section \<open>Unbinding the orphans\<close>

lemma unbind_orphans_cut:
  assumes "wf_links w" and "links_of bs = map (link_in w) is'" and "distinct is'" and "\<And>i. i \<in> set is' \<Longrightarrow> s_bound_socket (socks w i) \<noteq> None"
  shows "\<exists>w'. foreach unbind_orphan bs w = (Inr (), w') \<and> severed {(i, out). i \<in> set is' \<and> s_bound_socket (socks w i) = Some out} w w'"
  using assms
proof (induction bs arbitrary: w is')
  case Nil
  then show ?case using cut_refl by (auto simp: links_of_def)
next
  case (Cons b bs)
  then obtain i js where is': "is' = i # js" "oi_sck b = Some i" "or_out b = the (s_bound_socket (socks w i))" "links_of bs = map (link_in w) js"
    by (cases is') (auto simp: links_of_def link_in_def)
  obtain out where out: "s_bound_socket (socks w i) = Some out" using Cons.prems(4) is' by auto
  have mem: "i \<in> set (s_bound_sockets (socks w out))" using out wf_linksD(1) [OF Cons.prems(1)] by auto
  let ?w1 = "unlink i out w"
  have w1: "wf_links ?w1" "severed {(i, out)} w ?w1"
    using wf_links_unlink [OF Cons.prems(1) out] cut_unlink [OF Cons.prems(1) out] by auto
  have same: "s_bound_socket (socks ?w1 j) = s_bound_socket (socks w j)" if "j \<in> set js" for j
    using that Cons.prems(3) is' by (auto simp: unlink_sel)
  have step: "unbind_orphan b w = (Inr (), ?w1)"
    using unbind_linked [OF out mem] is' out by (auto simp: unbind_orphan_def on_link_def drop_value_def)
  have "links_of bs = map (link_in ?w1) js" using is'(4) same by (auto simp: link_in_def)
  moreover have "distinct js" "\<And>j. j \<in> set js \<Longrightarrow> s_bound_socket (socks ?w1 j) \<noteq> None"
    using Cons.prems(3,4) same is' by auto
  ultimately obtain w' where w': "foreach unbind_orphan bs ?w1 = (Inr (), w')"
    "severed {(j, out). j \<in> set js \<and> s_bound_socket (socks ?w1 j) = Some out} ?w1 w'"
    using Cons.IH [OF w1(1)] by blast
  have "severed {(j, o'). j \<in> set is' \<and> s_bound_socket (socks w j) = Some o'} w w'"
    by (rule cut_cong [OF cut_trans [OF w1(2) w'(2)]]) (use same is' out Cons.prems(3) in auto)
  with step w'(1) show ?case by auto
qed

lemma find_orphans_cut:
  assumes ok: "stages_ok w tss"
  shows "\<exists>w'. foreach unbind_orphan (find_orphans w tss) w = (Inr (), w') \<and> severed (crossing w tss) w w'"
proof -
  have wf: "wf_links w" "no_fakes w" using ok by (auto simp: stages_ok_def)
  have b: "s_bound_socket (socks w i) \<noteq> None" if "i \<in> set (crossing_inputs w tss)" for i
    using that crossing_inputs_iff [OF ok] by (auto simp: crossing_def)
  obtain w' where "foreach unbind_orphan (find_orphans w tss) w = (Inr (), w')"
    "severed {(i, out). i \<in> set (crossing_inputs w tss) \<and> s_bound_socket (socks w i) = Some out} w w'"
    using unbind_orphans_cut [OF wf(1) find_orphans_links [OF wf(2)] crossing_inputs_distinct [OF ok] b] by blast
  moreover have "severed (crossing w tss) w w'"
    by (rule cut_cong [OF calculation(2)]) (use crossing_inputs_iff [OF ok] crossing_bound in fastforce)
  ultimately show ?thesis by blast
qed

text \<open>No stage reads from a later one, and a link goes from an output to an input.\<close>

definition forward :: "world \<Rightarrow> tid list list \<Rightarrow> bool" where
  "forward w tss \<longleftrightarrow> (\<forall>i out. s_bound_socket (socks w i) = Some out \<longrightarrow> s_type (socks w i) \<noteq> SOUT \<and> s_type (socks w out) \<noteq> SIN \<and>
     (\<forall>a < length tss. \<forall>b < length tss. in_stage w (tss ! a) out \<longrightarrow> in_stage w (tss ! b) i \<longrightarrow> a \<le> b))"


section \<open>On four stages of one task\<close>

text \<open>The output 0 of the first task is read by the inputs 1, 2 and 3 of the next ones, the last one first.\<close>

definition fan_out :: world where
  "fan_out = (blank_world (\<lambda>i. if i = 0 then SOUT else SIN) 4)
     \<lparr>socks := (\<lambda>i. (blank_socket (if i = 0 then SOUT else SIN))\<lparr>s_task := i, s_dataptr := Ptr 1 0,
         s_bound_sockets := (if i = 0 then [3, 2, 1] else []), s_bound_socket := (if i \<in> {1, 2, 3} then Some 0 else None)\<rparr>),
       tsks := (\<lambda>t. blank_task\<lparr>t_sockets := (if t < 4 then [t] else [])\<rparr>)\<rparr>"

definition four_stages :: "tid list list" where
  "four_stages = [[0], [1], [2], [3]]"

lemmas fan_defs = fan_out_def four_stages_def blank_defs

lemma fan_out_ok: "stages_ok fan_out four_stages"
  by (auto simp: stages_ok_def wf_links_def no_fakes_def fan_defs)


text \<open>
  \<^verbatim>\<open>unbind_adaptors\<close> binds the orphans again, each at the position it had in the whole list, in the order of the
  stages: the readers do not come back in their order.
\<close>

lemma rebound_in_an_other_order:
  "let r = bindo (foreach unbind_orphan (find_orphans fan_out four_stages) fan_out) (\<lambda>_. foreach bind_orphan (find_orphans fan_out four_stages))
   in is_ok r \<and> s_bound_sockets (socks fan_out 0) = [3, 2, 1] \<and> s_bound_sockets (socks (snd r) 0) = [3, 1, 2]"
  by code_simp

text \<open>
  A binding from a stage to an earlier one is not an orphan, so it stays when the stages are executed by their own
  threads; the comparison with the sequential program looks at the sizes and at one inclusion only.
\<close>

lemma backward_link_is_no_orphan: "Some 1 \<notin> set (map oi_sck (find_orphans fan_out [[1], [0], [2], [3]]))"
  by code_simp

lemma same_tasks_guard_accepts: "same_tasks_guard [1, 2] [1, 1] = Inr ()"
  by (simp add: same_tasks_guard_def)

text \<open>
  \<^verbatim>\<open>create_adaptors\<close> and \<^verbatim>\<open>_bind_adaptors\<close> both add the pull adaptor of a further thread to its stage: these threads
  have one module more than the first, on whose number \<^verbatim>\<open>get_modules_per_types\<close> relies.
\<close>

lemma replicated_stage_overruns_the_types:
  assumes "q_all_modules q = [ms, ns]" and "length ns = length ms"
  shows "\<exists>q'. foreach (\<lambda>(t, md). add_module t md) [(1, c), (0, a), (1, c)] q = (Inr (), q') \<and> get_modules_per_types q' = Inl UB"
  using assms by (auto simp: add_module_def get_modules_per_types_def)

end
