(* ===== verification/Pipeline_Routes.thy ===== *)
theory Pipeline_Routes
  imports Pipeline_Links
begin

text \<open>
  The route through a junction: the socket of the \<^verbatim>\<open>push\<close> task that takes an output and the socket of the \<^verbatim>\<open>pull\<close>
  task its readers are bound to.
\<close>

section \<open>The push side\<close>

text \<open>\<open>taken\<close>: the outputs that got a socket, in the order of the sockets, with the bindings made for them.\<close>

definition memory_of :: "world \<Rightarrow> orphan \<Rightarrow> ptr" where
  "memory_of w b = s_dataptr (socks w (or_out b))"

definition taken :: "world \<Rightarrow> (orphan \<Rightarrow> exn + sid) \<Rightarrow> sid list \<Rightarrow> orphan list \<Rightarrow> push_acc \<Rightarrow> bool" where
  "taken w src pushes B a = (case a of (passed, seen, ids, k, bs) \<Rightarrow>
     distinct passed \<and> k = length passed \<and> k \<le> length pushes \<and> seen = map (\<lambda>out. s_dataptr (socks w out)) passed \<and>
     dom ids = set passed \<and> (\<forall>b \<in> set B. memory_of w b \<in> set seen) \<and>
     (\<forall>j < k. ids (passed ! j) = Some j \<and> (\<exists>b \<in> set B. or_out b = passed ! j \<and> (\<exists>s. src b = Inr s \<and>
        (\<exists>x \<in> set bs. ab_out x = s \<and> ab_in x = Some (pushes ! j))))))"

lemma taken_more: "taken w src pushes B (passed, seen, ids, k, bs) \<Longrightarrow> memory_of w b \<in> set seen \<Longrightarrow> taken w src pushes (B @ [b]) (passed, seen, ids, k, bs)"
  by (auto simp: taken_def)

lemma taken_new:
  assumes t: "taken w src pushes B (passed, seen, ids, k, bs)" and new: "or_out b \<notin> set passed"
    and s: "src b = Inr s" and k: "k < length pushes"
  shows "taken w src pushes (B @ [b]) (passed @ [or_out b], seen @ [memory_of w b], ids(or_out b \<mapsto> k), k + 1,
     bs @ [\<lparr>ab_out = s, ab_in = Some (pushes ! k), ab_prio = or_pos b, ab_tsk = None\<rparr>])"
proof -
  have len: "k = length passed" using t by (simp add: taken_def)
  have each: "(ids(or_out b \<mapsto> k)) ((passed @ [or_out b]) ! j) = Some j \<and> (\<exists>b' \<in> set (B @ [b]). or_out b' = (passed @ [or_out b]) ! j \<and>
      (\<exists>s'. src b' = Inr s' \<and> (\<exists>x \<in> set (bs @ [\<lparr>ab_out = s, ab_in = Some (pushes ! k), ab_prio = or_pos b, ab_tsk = None\<rparr>]).
        ab_out x = s' \<and> ab_in x = Some (pushes ! j))))" if "j < k + 1" for j
  proof (cases "j = k")
    case True
    then show ?thesis using s len by auto
  next
    case False
    then have j: "j < k" using that by simp
    then have "passed ! j \<in> set passed" using len by simp
    then have "passed ! j \<noteq> or_out b" using new by auto
    moreover have "ids (passed ! j) = Some j \<and> (\<exists>b' \<in> set B. or_out b' = passed ! j \<and> (\<exists>s. src b' = Inr s \<and>
        (\<exists>x \<in> set bs. ab_out x = s \<and> ab_in x = Some (pushes ! j))))" using t j by (simp add: taken_def)
    ultimately show ?thesis using j len by (auto simp: nth_append)
  qed
  have rest: "distinct (passed @ [or_out b])" "k + 1 = length (passed @ [or_out b])" "k + 1 \<le> length pushes"
    "seen @ [memory_of w b] = map (\<lambda>out. s_dataptr (socks w out)) (passed @ [or_out b])"
    "dom (ids(or_out b \<mapsto> k)) = set (passed @ [or_out b])"
    "\<forall>b' \<in> set (B @ [b]). memory_of w b' \<in> set (seen @ [memory_of w b])"
    using t new k by (auto simp: taken_def memory_of_def)
  show ?thesis unfolding taken_def prod.case by (intro conjI) (use rest each in blast)+
qed

lemma push_bind_taken:
  assumes t: "taken w src pushes B a" and r: "push_bind w src pushes b a = (Inr (), a')"
  shows "taken w src pushes (B @ [b]) a'"
proof -
  obtain passed seen ids k bs where a: "a = (passed, seen, ids, k, bs)" by (cases a)
  show ?thesis
  proof (cases "or_out b \<in> set passed \<or> memory_of w b \<in> set seen")
    case True
    then have "memory_of w b \<in> set seen" using t by (auto simp: a taken_def memory_of_def)
    moreover have "a' = a" using r True by (auto simp: push_bind_def a Let_def memory_of_def split: if_splits)
    ultimately show ?thesis using taken_more t by (simp add: a)
  next
    case False
    then obtain s where "src b = Inr s" "k < length pushes" "a' = (passed @ [or_out b], seen @ [memory_of w b], ids(or_out b \<mapsto> k), k + 1,
        bs @ [\<lparr>ab_out = s, ab_in = Some (pushes ! k), ab_prio = or_pos b, ab_tsk = None\<rparr>])"
      using r by (auto simp: push_bind_def a Let_def memory_of_def look_def split: if_splits sum.splits)
    then show ?thesis using taken_new [OF t [unfolded a]] False by simp
  qed
qed

lemma push_binds_taken:
  assumes "taken w src pushes B a" and "foreach (push_bind w src pushes) C a = (Inr (), a')"
  shows "taken w src pushes (B @ C) a'"
  using assms
proof (induction C arbitrary: B a)
  case (Cons b C)
  then obtain a1 where a1: "push_bind w src pushes b a = (Inr (), a1)" "foreach (push_bind w src pushes) C a1 = (Inr (), a')"
    by (auto elim: bindo_InrD)
  from Cons.IH [OF push_bind_taken [OF Cons.prems(1) a1(1)] a1(2)] show ?case by simp
qed simp

lemma taken_start: "taken w src pushes [] ([], [], Map.empty, 0, bs)"
  by (simp add: taken_def)

lemma taken_place:
  assumes t: "taken w src pushes B (passed, seen, ids, k, bs)" and b: "b \<in> set B"
  shows "\<exists>j < k. passed ! j \<in> set passed \<and> s_dataptr (socks w (passed ! j)) = memory_of w b \<and> ids (passed ! j) = Some j"
proof -
  have "memory_of w b \<in> set (map (\<lambda>out. s_dataptr (socks w out)) passed)" and k: "k = length passed"
    using t b by (auto simp: taken_def)
  then obtain j where j: "j < k" "s_dataptr (socks w (passed ! j)) = memory_of w b" by (auto simp: in_set_conv_nth)
  with t k show ?thesis by (auto simp: taken_def)
qed

section \<open>The pull side\<close>

text \<open>The binding of the reader of \<open>b\<close> in the thread \<open>t\<close> to the output \<open>out\<close>.\<close>

definition reads :: "world \<Rightarrow> tid list list \<Rightarrow> nat \<Rightarrow> orphan \<Rightarrow> sid \<Rightarrow> adp_bind \<Rightarrow> bool" where
  "reads w tss t b out x \<longleftrightarrow> ab_out x = out \<and> (case oi_sck b of
     Some _ \<Rightarrow> ab_tsk x = None \<and> (\<exists>i. ab_in x = Some i \<and> socket_at w tss t (oi_tsk_id b) (oi_sck_id b) = Inr i)
   | None \<Rightarrow> ab_in x = None \<and> (\<exists>tk. ab_tsk x = Some tk \<and> task_at tss t (oi_tsk_id b) = Inr tk))"

lemma pull_bind_reads:
  assumes "pull_bind w tss pulls ids t b bs = (Inr (), bs')"
  shows "map_at ids (or_out b) < length pulls \<and> (\<exists>x. bs' = bs @ [x] \<and> reads w tss t b (pulls ! map_at ids (or_out b)) x)"
  using assms by (auto simp: pull_bind_def look_def reads_def split: sum.splits if_splits option.splits)

lemma pull_binds_read:
  assumes "foreach (pull_bind w tss pulls ids t) C bs = (Inr (), bs')"
  shows "set bs \<subseteq> set bs' \<and> (\<forall>b \<in> set C. map_at ids (or_out b) < length pulls \<and> (\<exists>x \<in> set bs'. reads w tss t b (pulls ! map_at ids (or_out b)) x))"
  using assms
proof (induction C arbitrary: bs)
  case (Cons b C)
  then obtain bs1 where bs1: "pull_bind w tss pulls ids t b bs = (Inr (), bs1)" "foreach (pull_bind w tss pulls ids t) C bs1 = (Inr (), bs')"
    by (auto elim: bindo_InrD)
  from pull_bind_reads [OF bs1(1)] Cons.IH [OF bs1(2)] show ?case by auto
qed simp

section \<open>The route\<close>

text \<open>
  C19: \<^bold>\<open>A junction routes each output to its own readers.\<close> \<open>B\<close> are the bindings that leave the stage or an earlier
  one, \<open>C\<close> the ones that end in the next stage. When two outputs never share a memory, the reader of an output in
  the next stage is bound to the socket of the \<^verbatim>\<open>pull\<close> task with the number of the socket of the \<^verbatim>\<open>push\<close> task that
  the output (in its stage, or behind the previous adaptor) is bound to.
\<close>

theorem junction_routes:
  assumes "foreach (push_bind w src pushes) B ([], [], Map.empty, 0, bs) = (Inr (), (passed, seen, ids, k, bs'))"
    and "foreach (pull_bind w' tss pulls ids t) C as = (Inr (), as')"
    and "\<And>b b'. b \<in> set B \<Longrightarrow> b' \<in> set B \<Longrightarrow> memory_of w b = memory_of w b' \<Longrightarrow> or_out b = or_out b'"
    and "b \<in> set B" and "b \<in> set C"
  shows "\<exists>j < length pushes. \<exists>b0 \<in> set B. \<exists>s. or_out b0 = or_out b \<and> src b0 = Inr s \<and>
    (\<exists>x \<in> set bs'. ab_out x = s \<and> ab_in x = Some (pushes ! j)) \<and> (\<exists>y \<in> set as'. reads w' tss t b (pulls ! j) y)"
proof -
  have t: "taken w src pushes B (passed, seen, ids, k, bs')" using push_binds_taken [OF taken_start assms(1)] by simp
  then obtain j where j: "j < k" "s_dataptr (socks w (passed ! j)) = memory_of w b" using taken_place assms(4) by blast
  define out where "out = passed ! j"
  obtain b0 s where b0: "b0 \<in> set B" "or_out b0 = out" "src b0 = Inr s" "\<exists>x \<in> set bs'. ab_out x = s \<and> ab_in x = Some (pushes ! j)"
    "ids out = Some j" using t j(1) unfolding taken_def out_def prod.case by blast
  have out: "s_dataptr (socks w out) = memory_of w b" using j(2) by (simp add: out_def)
  have same: "or_out b = out" using assms(3) [OF assms(4) b0(1)] out b0(2) by (simp add: memory_of_def)
  then have "map_at ids (or_out b) = j" using b0(5) by (simp add: map_at_def)
  moreover have "j < length pushes" using j t by (simp add: taken_def)
  ultimately show ?thesis using pull_binds_read [OF assms(2)] assms(5) b0 same by metis
qed

text \<open>
  \<^bold>\<open>An output whose memory is already on the way is lost.\<close> An output that shares its memory with one that got
  the socket \<open>j\<close> gets no socket and no entry in \<^verbatim>\<open>sck_to_adp_sck_id\<close>, which answers 0: its readers are bound to
  the socket 0 of the \<^verbatim>\<open>pull\<close> task, whatever \<open>j\<close> is.
\<close>

theorem shared_memory_is_misrouted:
  assumes "foreach (push_bind w src pushes) B ([], [], Map.empty, 0, bs) = (Inr (), (passed, seen, ids, k, bs'))"
    and "foreach (pull_bind w' tss pulls ids t) C as = (Inr (), as')"
    and "b \<in> set B" and "b \<in> set C" and "or_out b \<notin> set passed"
  shows "(\<exists>j < k. s_dataptr (socks w (passed ! j)) = memory_of w b \<and> passed ! j \<noteq> or_out b \<and> ids (passed ! j) = Some j) \<and>
    (\<exists>y \<in> set as'. reads w' tss t b (pulls ! 0) y)"
proof -
  have t: "taken w src pushes B (passed, seen, ids, k, bs')" using push_binds_taken [OF taken_start assms(1)] by simp
  then obtain j where j: "j < k" "passed ! j \<in> set passed" "s_dataptr (socks w (passed ! j)) = memory_of w b" "ids (passed ! j) = Some j"
    using taken_place assms(3) by blast
  have "passed ! j \<noteq> or_out b" using j(2) assms(5) by auto
  moreover have "ids (or_out b) = None" using t assms(5) by (auto simp: taken_def)
  then have "map_at ids (or_out b) = 0" by (simp add: map_at_def)
  ultimately show ?thesis using pull_binds_read [OF assms(2)] assms(4) j by metis
qed

section \<open>Two outputs and a forward socket\<close>

text \<open>
  The outputs 0 and 1 have a memory each, the forward socket 2 is the memory of 1; the inputs 3, 4 and 5 of the
  next stage read them. The sockets of \<^verbatim>\<open>push\<close> are 6 and 7, the ones of \<^verbatim>\<open>pull\<close> 8 and 9.
\<close>

definition fwd_world :: world where
  "fwd_world = (blank_world (\<lambda>_. SIN) 10)
     \<lparr>socks := (\<lambda>i. (blank_socket SIN)\<lparr>s_dataptr := (if i = 0 then Ptr 1 0 else Ptr 2 0)\<rparr>),
       tsks := (\<lambda>t. blank_task\<lparr>t_sockets := [3, 4, 5]\<rparr>)\<rparr>"

definition fwd_orphan :: "nat \<Rightarrow> orphan" where
  "fwd_orphan k = \<lparr>or_out = k, or_sta = 0, or_tsk_id = 0, or_sck_id = k, or_pos = 0, oi_sck = Some (k + 3), oi_sta = 1, oi_tsk_id = 0,
     oi_sck_id = k, oi_tsk = None\<rparr>"

lemmas fwd_defs = fwd_world_def fwd_orphan_def blank_defs push_bind_def pull_bind_def look_def memory_of_def Let_def map_at_def
  socket_at_def reads_def

lemma push_fwd: "foreach (push_bind fwd_world (\<lambda>b. Inr (or_out b)) [6, 7]) (map fwd_orphan [0, 1, 2]) ([], [], Map.empty, 0, []) =
   (Inr (), ([0, 1], [Ptr 1 0, Ptr 2 0], [0 \<mapsto> 0, 1 \<mapsto> 1], 2,
     [\<lparr>ab_out = 0, ab_in = Some 6, ab_prio = 0, ab_tsk = None\<rparr>, \<lparr>ab_out = 1, ab_in = Some 7, ab_prio = 0, ab_tsk = None\<rparr>]))"
  by (simp add: fwd_defs)

lemma pull_fwd: "foreach (pull_bind fwd_world [[1]] [8, 9] [0 \<mapsto> 0, 1 \<mapsto> 1] 0) (map fwd_orphan [0, 1, 2]) [] =
   (Inr (), [\<lparr>ab_out = 8, ab_in = Some 3, ab_prio = 0, ab_tsk = None\<rparr>, \<lparr>ab_out = 9, ab_in = Some 4, ab_prio = 0, ab_tsk = None\<rparr>,
     \<lparr>ab_out = 8, ab_in = Some 5, ab_prio = 0, ab_tsk = None\<rparr>])"
  by (simp add: fwd_defs)

lemma shared_memory_is_misrouted_witness:
  "memory_of fwd_world (fwd_orphan 2) = s_dataptr (socks fwd_world 1) \<and> (\<exists>y. reads fwd_world [[1]] 0 (fwd_orphan 2) 8 y)"
proof -
  have B: "fwd_orphan 2 \<in> set (map fwd_orphan [0, 1, 2])" by simp
  have "or_out (fwd_orphan 2) \<notin> set [0, 1]" by (simp add: fwd_orphan_def)
  from shared_memory_is_misrouted [OF push_fwd pull_fwd B B this] have "\<exists>y. reads fwd_world [[1]] 0 (fwd_orphan 2) ([8, 9] ! 0) y" by blast
  moreover have "memory_of fwd_world (fwd_orphan 2) = s_dataptr (socks fwd_world 1)" by (simp add: fwd_defs)
  ultimately show ?thesis by simp
qed

lemma push_two: "foreach (push_bind fwd_world (\<lambda>b. Inr (or_out b)) [6, 7]) (map fwd_orphan [0, 1]) ([], [], Map.empty, 0, []) =
   (Inr (), ([0, 1], [Ptr 1 0, Ptr 2 0], [0 \<mapsto> 0, 1 \<mapsto> 1], 2,
     [\<lparr>ab_out = 0, ab_in = Some 6, ab_prio = 0, ab_tsk = None\<rparr>, \<lparr>ab_out = 1, ab_in = Some 7, ab_prio = 0, ab_tsk = None\<rparr>]))"
  by (simp add: fwd_defs)

lemma pull_two: "foreach (pull_bind fwd_world [[1]] [8, 9] [0 \<mapsto> 0, 1 \<mapsto> 1] 0) (map fwd_orphan [0, 1]) [] =
   (Inr (), [\<lparr>ab_out = 8, ab_in = Some 3, ab_prio = 0, ab_tsk = None\<rparr>, \<lparr>ab_out = 9, ab_in = Some 4, ab_prio = 0, ab_tsk = None\<rparr>])"
  by (simp add: fwd_defs)

lemma junction_routes_witness: "\<exists>j < 2. \<exists>y. reads fwd_world [[1]] 0 (fwd_orphan 1) ([8, 9] ! j) y"
proof -
  have B: "fwd_orphan 1 \<in> set (map fwd_orphan [0, 1])" by simp
  have inj: "or_out b = or_out b'" if "b \<in> set (map fwd_orphan [0, 1])" "b' \<in> set (map fwd_orphan [0, 1])"
    "memory_of fwd_world b = memory_of fwd_world b'" for b b' using that by (auto simp: fwd_world_def fwd_orphan_def memory_of_def)
  from junction_routes [OF push_two pull_two inj B B] obtain j y where "j < length [6 :: sid, 7]"
    "reads fwd_world [[1]] 0 (fwd_orphan 1) ([8, 9] ! j) y" by blast
  then show ?thesis by (intro exI [of _ j] exI [of _ y] conjI) simp_all
qed

end
