(* ===== verification/Binary_Files.thy ===== *)
theory Binary_Files
  imports Bit_packer
begin

text \<open>
  The binary files: \<^verbatim>\<open>module::Source_user_binary\<close> (\<^verbatim>\<open>Source_user_binary.cpp\<close>) reads the bits of a file frame by
  frame, \<^verbatim>\<open>module::Sink_user_binary\<close> (\<^verbatim>\<open>Sink_user_binary.cpp\<close>) writes bits to a file. The size of a frame needs not
  be a whole number of bytes: the source keeps the bits it read too early, the sink the bits that do not make a
  byte yet. A file is a list of bytes. An input stream is its position with its \<open>eofbit\<close> and \<open>failbit\<close>; a
  stream whose file is not \<open>f_seekable\<close> fails when it goes back to the beginning. Writes succeed on an output stream
  that does not have its \<open>failbit\<close>. An access out of a buffer is \<open>UB\<close>.
\<close>

section \<open>The source\<close>

record 'b ub_source =
  f_max :: nat
  f_data :: "8 word list"
  f_pos :: nat
  f_eof :: bool
  f_fail :: bool
  f_seekable :: bool
  f_auto :: bool
  f_fifo :: bool
  f_done :: bool
  f_left :: nat
  f_memblk :: "8 word list"
  f_left_bits :: "'b list"

text \<open>\<open>fd\<close> is the content of the file, \<open>None\<close> when it cannot be opened.\<close>

definition new_ub_source :: "int \<Rightarrow> 8 word list option \<Rightarrow> bool \<Rightarrow> bool \<Rightarrow> bool \<Rightarrow> exn + 'e::len word ub_source" where
  "new_ub_source max_data_size fd seekable auto fifo =
     (if max_data_size \<le> 0 then Inl Invalid_argument
      else case fd of None \<Rightarrow> Inl Runtime_error
      | Some bs \<Rightarrow> Inr \<lparr>f_max = nat max_data_size, f_data = bs, f_pos = 0, f_eof = False, f_fail = False,
          f_seekable = seekable, f_auto = (if fifo then True else auto), f_fifo = fifo, f_done = False, f_left = 0,
          f_memblk = replicate (nat max_data_size) 0, f_left_bits = replicate 8 0\<rparr>)"

definition reset_source :: "'e::len word ub_source \<Rightarrow> ('e word ub_source, unit) outcome" where
  "reset_source s = (let s1 = s\<lparr>f_eof := False, f_fail := False\<rparr>;
       s2 = (if f_fifo s1 then s1 else if f_seekable s1 then s1\<lparr>f_pos := 0\<rparr> else s1\<lparr>f_fail := True\<rparr>) in
     if f_fail s2 then (Inl Runtime_error, s2) else (Inr (), s2\<lparr>f_done := False, f_left := 0\<rparr>))"

text \<open>\<^verbatim>\<open>source_file.read(memblk.data() + off, n)\<close> with \<^verbatim>\<open>gcount\<close>.\<close>

definition read_file :: "nat \<Rightarrow> nat \<Rightarrow> 'e::len word ub_source \<Rightarrow> nat \<times> 'e word ub_source" where
  "read_file off n s = (if f_eof s \<or> f_fail s then (0, s\<lparr>f_fail := True\<rparr>)
     else let m = min n (length (f_data s) - f_pos s) in
       (m, s\<lparr>f_memblk := take off (f_memblk s) @ take m (drop (f_pos s) (f_data s)) @ drop (off + m) (f_memblk s),
             f_pos := f_pos s + m, f_eof := (m < n), f_fail := (m < n)\<rparr>))"

text \<open>The loop that reads the bytes of a frame may not end: on an empty file, \<open>auto_reset\<close> starts again for ever.\<close>

partial_function (option) read_loop :: "nat \<Rightarrow> nat \<Rightarrow> 'e::len word ub_source \<Rightarrow> ('e word ub_source, nat) outcome option" where
  "read_loop needed k s = (if \<not> k < needed then Some (Inr k, s)
     else if needed > length (f_memblk s) then Some (Inl UB, s)
     else (case read_file k (needed - k) s of (m, s1) \<Rightarrow>
       if \<not> f_fail s1 then read_loop needed (k + m) s1
       else if \<not> f_eof s1 then Some (Inl Runtime_error, s1)
       else if \<not> f_auto s1 then Some (Inr (k + m), s1)
       else (case reset_source s1 of (r, s2) \<Rightarrow>
         (case r of Inl e \<Rightarrow> Some (Inl e, s2) | Inr _ \<Rightarrow> read_loop needed (k + m) s2))))"

definition fill_zeros :: "nat \<Rightarrow> nat \<Rightarrow> 'e::len word list \<Rightarrow> 'e word list" where
  "fill_zeros a b xs = take a xs @ replicate (b - a) 0 @ drop b xs"

text \<open>\<^verbatim>\<open>Bit_packer::unpack(bs, out + off, n)\<close>.\<close>

definition unpack_to :: "8 word list \<Rightarrow> nat \<Rightarrow> nat \<Rightarrow> 'e::len word list \<Rightarrow> exn + 'e word list" where
  "unpack_to bs off n out = (case unpack_ptr bs (drop off out) n 1 False 8 of
     (Inl e, _) \<Rightarrow> Inl e | (Inr _, (ys, _)) \<Rightarrow> Inr (take off out @ ys))"

definition n_left_after :: "nat \<Rightarrow> 'e::len word ub_source \<Rightarrow> nat" where
  "n_left_after k s = nat (int (k * 8) - (int (f_max s) - int (f_left s)))"

definition gen_short :: "nat \<Rightarrow> nat \<Rightarrow> 'e::len word ub_source \<Rightarrow> 'e word list \<Rightarrow> ('e word ub_source \<times> 'e word list \<times> nat, unit) outcome" where
  "gen_short frame k s out = (let n = f_left s + k * 8; over = (\<not> f_auto s \<and> f_eof s);
       s1 = (if over then s\<lparr>f_done := True\<rparr> else s) in
     if over \<and> n = 0
     then (if frame = 0 then (Inl Processing_aborted, (s1, out, 0)) else (Inr (), (s1, fill_zeros 0 (f_max s) out, 0)))
     else case unpack_to (f_memblk s) (f_left s) (k * 8) out of Inl e \<Rightarrow> (Inl e, (s1, out, n))
     | Inr out1 \<Rightarrow> (Inr (), (s1\<lparr>f_left := n_left_after k s\<rparr>, fill_zeros n (f_max s) out1, n)))"

text \<open>The bits of the last byte that belong to the next frame.\<close>

definition shift_left_bits :: "nat \<Rightarrow> 'e::len word list \<Rightarrow> 'e word list" where
  "shift_left_bits n bits = fold (\<lambda>i l. l[i := l ! (i + 8 - n)]) [0..<n] bits"

definition gen_full :: "nat \<Rightarrow> nat \<Rightarrow> 'e::len word ub_source \<Rightarrow> 'e word list \<Rightarrow> ('e word ub_source \<times> 'e word list \<times> nat, unit) outcome" where
  "gen_full needed k s out = (case unpack_to (f_memblk s) (f_left s) (f_max s - f_left s) out of
     Inl e \<Rightarrow> (Inl e, (s, out, f_max s))
   | Inr out1 \<Rightarrow> (let n = n_left_after k s; s1 = s\<lparr>f_left := n\<rparr> in
       if n = 0 then (Inr (), (s1, out1, f_max s))
       else case unpack_to (drop (needed - 1) (f_memblk s)) 0 8 (f_left_bits s) of Inl e \<Rightarrow> (Inl e, (s1, out1, f_max s))
       | Inr bits \<Rightarrow> (Inr (), (s1\<lparr>f_left_bits := shift_left_bits n bits\<rparr>, out1, f_max s))))"

definition n_bytes_needed :: "nat \<Rightarrow> nat \<Rightarrow> nat" where
  "n_bytes_needed max_data_size n_left = (size_sub max_data_size n_left + 7) mod 2 ^ 64 div 8"

text \<open>\<^verbatim>\<open>_generate\<close>: \<open>out\<close> is the buffer of the output socket, \<open>c\<close> what \<^verbatim>\<open>out_count\<close> points at.\<close>

definition generate :: "nat \<Rightarrow> 'e::len word ub_source \<times> 'e word list \<times> nat \<Rightarrow> ('e word ub_source \<times> 'e word list \<times> nat, unit) outcome option" where
  "generate frame v = (case v of (s, out, c) \<Rightarrow>
     if length out < f_max s then Some (Inl UB, v)
     else if f_done s then Some (Inr (), (s, fill_zeros 0 (f_max s) out, 0))
     else if length out < f_left s \<or> length (f_left_bits s) < f_left s then Some (Inl UB, v)
     else let needed = n_bytes_needed (f_max s) (f_left s);
              out1 = take (f_left s) (f_left_bits s) @ drop (f_left s) out in
       case read_loop needed 0 s of None \<Rightarrow> None
       | Some (Inl e, s1) \<Rightarrow> Some (Inl e, (s1, out1, c))
       | Some (Inr k, s1) \<Rightarrow> Some (if f_left s1 + k * 8 \<le> f_max s1 then gen_short frame k s1 out1
           else gen_full needed k s1 out1))"

section \<open>The sink\<close>

record 'b ub_sink =
  k_max :: nat
  k_file :: "8 word list"
  k_fail :: bool
  k_chunk :: "8 word list"
  k_rec :: "'b list"
  k_left :: nat

definition new_ub_sink :: "int \<Rightarrow> bool \<Rightarrow> exn + 'e::len word ub_sink" where
  "new_ub_sink max_data_size opened =
     (if max_data_size \<le> 0 then Inl Invalid_argument
      else if max_data_size < 8 then Inl Runtime_error
      else if \<not> opened then Inl Runtime_error
      else Inr \<lparr>k_max = nat max_data_size, k_file = [], k_fail = False, k_chunk = replicate (nat max_data_size) 0,
        k_rec = replicate 8 0, k_left = 0\<rparr>)"

definition reset_sink :: "bool \<Rightarrow> 'e::len word ub_sink \<Rightarrow> ('e word ub_sink, unit) outcome" where
  "reset_sink opened k = (if \<not> opened then (Inl Runtime_error, k\<lparr>k_fail := True\<rparr>)
     else (Inr (), k\<lparr>k_file := [], k_fail := False, k_left := 0\<rparr>))"

text \<open>The bits left by the last call make a byte with the first \<open>nc\<close> bits of the input.\<close>

definition complete_byte :: "'e::len word list \<Rightarrow> nat \<Rightarrow> 'e word ub_sink \<Rightarrow> ('e word ub_sink, unit) outcome" where
  "complete_byte xs nc k = (if k_left k = 0 then (Inr (), k)
     else if length xs < nc \<or> length (k_rec k) < k_left k + nc then (Inl UB, k)
     else let k1 = k\<lparr>k_rec := take (k_left k) (k_rec k) @ take nc xs @ drop (k_left k + nc) (k_rec k)\<rparr> in
       case pack_ptr (k_rec k1) [0] 8 1 False 8 of (Inl e, _) \<Rightarrow> (Inl e, k1)
       | (Inr _, (_, bs)) \<Rightarrow> (Inr (), k1\<lparr>k_file := k_file k1 @ bs\<rparr>))"

text \<open>The conversion of a \<^verbatim>\<open>size_t\<close> to the type \<^verbatim>\<open>int\<close> of an argument.\<close>

definition int_arg :: "nat \<Rightarrow> int" where
  "int_arg n = sint (word_of_nat n :: 32 word)"

text \<open>\<open>mc\<close> bytes are packed from the input and written; the number of bits is passed as an \<^verbatim>\<open>int\<close>.\<close>

definition write_chunk :: "'e::len word list \<Rightarrow> nat \<Rightarrow> nat \<Rightarrow> 'e word ub_sink \<Rightarrow> ('e word ub_sink, unit) outcome" where
  "write_chunk xs nc mc k = (let n = int_arg (mc * 8) in
     case (if n < 0 then (Inr (), (drop nc xs, k_chunk k)) else pack_ptr (drop nc xs) (k_chunk k) (nat n) 1 False 8) of
       (Inl e, _) \<Rightarrow> (Inl e, k)
     | (Inr _, (_, chunk)) \<Rightarrow> if length chunk < mc then (Inl UB, k\<lparr>k_chunk := chunk\<rparr>)
         else (Inr (), k\<lparr>k_chunk := chunk, k_file := k_file k @ take mc chunk\<rparr>))"

definition keep_rest :: "'e::len word list \<Rightarrow> nat \<Rightarrow> nat \<Rightarrow> 'e word ub_sink \<Rightarrow> ('e word ub_sink, unit) outcome" where
  "keep_rest xs start count k = (if start < count \<and> (length xs < count \<or> length (k_rec k) < count - start) then (Inl UB, k\<lparr>k_left := 0\<rparr>)
     else (Inr (), k\<lparr>k_left := count - start,
       k_rec := take (count - start) (drop start xs) @ drop (count - start) (k_rec k)\<rparr>))"

text \<open>\<^verbatim>\<open>_send_count\<close>: \<open>xs\<close> is the buffer of the input socket, \<open>count\<close> what \<^verbatim>\<open>in_count\<close> points at.\<close>

definition send_count :: "'e::len word list \<Rightarrow> nat \<Rightarrow> 'e word ub_sink \<Rightarrow> ('e word ub_sink, unit) outcome" where
  "send_count xs count k = (let nc = (8 - k_left k) mod 8; mc = size_sub count nc div 8 in
     if k_fail k then (Inl Runtime_error, k)
     else bindo (complete_byte xs nc k) (\<lambda>_ k1.
       bindo (write_chunk xs nc mc k1) (\<lambda>_. keep_rest xs ((nc + mc * 8) mod 2 ^ 64) count)))"

text \<open>\<^verbatim>\<open>_send\<close> of the base class sends the whole frame.\<close>

definition send_all :: "'e::len word list \<Rightarrow> 'e word ub_sink \<Rightarrow> ('e word ub_sink, unit) outcome" where
  "send_all xs k = send_count xs (k_max k) k"

section \<open>A chain of the two\<close>

text \<open>
  The chain of the two modules, as a sequence with one thread runs it: a round generates a frame and sends it; the
  rounds go on until the source is done, or stops the sequence with \<^verbatim>\<open>processing_aborted\<close>. \<open>None\<close>: the fuel is
  used up, or a read does not end.
\<close>

fun copy_rounds :: "nat \<Rightarrow> 'e::len word ub_source \<times> 'e word list \<times> nat \<Rightarrow> 'e word ub_sink \<Rightarrow> ('e word ub_sink, unit) outcome option" where
  "copy_rounds 0 v k = None"
| "copy_rounds (Suc fuel) v k = (case generate 0 v of None \<Rightarrow> None
     | Some (Inl e, v1) \<Rightarrow> Some (if e = Processing_aborted then Inr () else Inl e, k)
     | Some (Inr _, (s1, out1, c1)) \<Rightarrow> (case send_count out1 c1 k of
         (Inl e, k1) \<Rightarrow> Some (Inl e, k1)
       | (Inr _, k1) \<Rightarrow> if f_done s1 then Some (Inr (), k1) else copy_rounds fuel (s1, out1, c1) k1))"

section \<open>Bits and bytes\<close>

definition bits8 :: "8 word \<Rightarrow> bool list" where
  "bits8 b = map (bit b) [0..<8]"

definition fbits :: "8 word list \<Rightarrow> bool list" where
  "fbits bs = concat (map bits8 bs)"

abbreviation as_bits :: "'e::len word list \<Rightarrow> bool list" where
  "as_bits xs \<equiv> map (\<lambda>x. x \<noteq> 0) xs"

lemma fbits_simps [simp]: "fbits [] = []" "fbits (xs @ ys) = fbits xs @ fbits ys" "fbits (b # xs) = bits8 b @ fbits xs"
  by (simp_all add: fbits_def)

lemma length_bits8 [simp]: "length (bits8 b) = 8"
  by (simp add: bits8_def)

lemma length_fbits [simp]: "length (fbits bs) = 8 * length bs"
  by (induction bs) auto

lemma nth_fbits: "e < 8 * length bs \<Longrightarrow> fbits bs ! e = bit (bs ! (e div 8)) (e mod 8)"
proof (induction bs arbitrary: e)
  case (Cons b bs)
  show ?case
  proof (cases "e < 8")
    case False
    with Cons.prems have "fbits bs ! (e - 8) = bit (bs ! ((e - 8) div 8)) ((e - 8) mod 8)" by (intro Cons.IH) simp
    moreover have "e div 8 = Suc ((e - 8) div 8)" "(e - 8) mod 8 = e mod 8" using False by (simp_all add: le_div_geq le_mod_geq)
    ultimately show ?thesis using False by (simp add: nth_append)
  qed (simp add: nth_append bits8_def)
qed simp

lemma fbits_inject [simp]: "fbits xs = fbits ys \<longleftrightarrow> xs = ys"
proof
  assume eq: "fbits xs = fbits ys"
  then have "8 * length xs = 8 * length ys" unfolding length_fbits [symmetric] by (rule arg_cong)
  then have len: "length xs = length ys" by simp
  show "xs = ys"
  proof (rule nth_equalityI [OF len])
    fix i
    assume i: "i < length xs"
    have "bit (xs ! i) j = bit (ys ! i) j" if j: "j < 8" for j
    proof -
      have e: "8 * i + j < 8 * length xs" using i j by simp
      have "(8 * i + j) div 8 = i" "(8 * i + j) mod 8 = j" using j by simp_all
      with nth_fbits [of "8 * i + j" xs] nth_fbits [of "8 * i + j" ys] e len eq show ?thesis by simp
    qed
    then show "xs ! i = ys ! i" by (intro bit_word_eqI) simp
  qed
qed simp

lemma fbits_take: "fbits (take n bs) = take (8 * n) (fbits bs)"
proof (induction bs arbitrary: n)
  case (Cons b bs)
  then show ?case by (cases n) simp_all
qed simp

lemma as_bits_of_bool [simp]: "as_bits (map of_bool bs :: 'e::len word list) = bs"
  by (induction bs) auto

lemma one_frame_jobs:
  "n < 2 ^ 24 \<Longrightarrow> over_frames act 8 n 1 8 m = foreach act (map (job_of n 8) [0..<ceil_div n 8]) m"
  using over_frames_jobs [of 8 8 n act 1 m] by (simp add: nbps_ok_def)

lemma ceil_div_8: "n \<le> 8 * m \<Longrightarrow> ceil_div n 8 \<le> m"
  by (simp add: ceil_div_def)

lemma unpack_bits:
  fixes ys :: "'e::len word list"
  assumes n: "n \<le> 8 * length bs" "n \<le> length ys" "n < 2 ^ 24"
  shows "\<exists>ys'. unpack_ptr bs ys n 1 False 8 = (Inr (), (ys', bs)) \<and> length ys' = length ys \<and>
    take n ys' = map of_bool (take n (fbits bs))"
proof -
  let ?c = "ceil_div n 8"
  have room: "1 * ?c \<le> length bs" using ceil_div_8 [OF n(1)] by simp
  have n1: "1 * n \<le> length ys" using n(2) by simp
  obtain ys' where ys': "foreach (unpack_at rd_sym wr_elt False) (map (job_of n 8) [0..<?c]) (ys, bs) = (Inr (), (ys', bs))"
    "length ys' = length ys" "\<forall>q < ?c. \<forall>k nb. job_of n 8 q = (k, q, nb) \<longrightarrow> (\<forall>j < nb. ys' ! (k + j) = of_bool (bit (bs ! q) j))"
    using unpack_jobs [where N = 8 and F = 1 and n = n and Q = "ceil_div n 8" and msb = False and ys = ys and sy = bs, OF _ n1 _ room] by auto
  have "ys' ! e = of_bool (fbits bs ! e)" if e: "e < n" for e
  proof -
    obtain q k nb j where j: "q < ?c" "job_of n 8 q = (k, q, nb)" "j < nb" "nb \<le> 8" "k + j = e"
      using job_at [of 8 e 1 n] e by auto
    have "k = q * 8" using j(1,2) by (auto simp: job_of_def Let_def)
    then have "e div 8 = q" "e mod 8 = j" using j by auto
    moreover have "ys' ! (k + j) = of_bool (bit (bs ! q) j)" using ys'(3) j by blast
    moreover have "e < 8 * length bs" using e n(1) by simp
    ultimately show ?thesis using j(5) nth_fbits [of e bs] by simp
  qed
  then have "take n ys' = map of_bool (take n (fbits bs))" using n ys'(2) by (intro nth_equalityI) auto
  with ys' show ?thesis by (simp add: unpack_ptr_def one_frame_jobs [OF n(3)])
qed

lemma pack_bits:
  fixes xs :: "'e::len word list"
  assumes n: "8 * m \<le> length xs" "m \<le> length sy" "8 * m < 2 ^ 24"
  shows "\<exists>sy'. pack_ptr xs sy (8 * m) 1 False 8 = (Inr (), (xs, sy')) \<and> length sy' = length sy \<and>
    fbits (take m sy') = as_bits (take (8 * m) xs)"
proof -
  have c: "ceil_div (8 * m) 8 = m" by (simp add: ceil_div_def)
  have n1: "1 * (8 * m) \<le> length xs" using n(1) by simp
  obtain sy' where sy': "foreach (pack_at rd_elt wr_sym False) (map (job_of (8 * m) 8) [0..<m]) (xs, sy) = (Inr (), (xs, sy'))"
    "length sy' = length sy" "\<forall>q < m. \<exists>k nb. job_of (8 * m) 8 q = (k, q, nb) \<and>
      sy' ! q = symbol False (map (\<lambda>j. xs ! (k + j) \<noteq> 0) [0..<nb])"
    using pack_jobs [where N = 8 and F = 1 and n = "8 * m" and Q = m and msb = False and xs = xs and sy = sy, OF _ n1] n(2) by (auto simp: c)
  have "fbits (take m sy') ! e = (xs ! e \<noteq> 0)" if e: "e < 8 * m" for e
  proof -
    let ?q = "e div 8"
    have q: "?q < m" using e by auto
    then have "job_of (8 * m) 8 ?q = (?q * 8, ?q, 8)" by (simp add: job_of_def c Let_def)
    with sy'(3) q have "sy' ! ?q = symbol False (map (\<lambda>j. xs ! (?q * 8 + j) \<noteq> 0) [0..<8])" by auto
    moreover have "bit (symbol False (map (\<lambda>j. xs ! (?q * 8 + j) \<noteq> 0) [0..<8]) :: 8 word) (e mod 8) \<longleftrightarrow> xs ! (?q * 8 + e mod 8) \<noteq> 0"
      using bit_symbol [of "map (\<lambda>j. xs ! (?q * 8 + j) \<noteq> 0) [0..<8]" "e mod 8" False, where 's = 8] by simp
    ultimately show ?thesis using nth_fbits [of e "take m sy'"] e q sy'(2) n(2) by (simp add: div_mult_mod_eq)
  qed
  then have "fbits (take m sy') = as_bits (take (8 * m) xs)" using n sy'(2) by (intro nth_equalityI) auto
  with sy' show ?thesis by (simp add: pack_ptr_def one_frame_jobs [OF n(3)] c)
qed

section \<open>What a call of the sink writes\<close>

definition sent :: "'e::len word ub_sink \<Rightarrow> bool list" where
  "sent k = fbits (k_file k) @ as_bits (take (k_left k) (k_rec k))"

definition sink_ok :: "nat \<Rightarrow> 'e::len word ub_sink \<Rightarrow> bool" where
  "sink_ok D k \<longleftrightarrow> \<not> k_fail k \<and> length (k_rec k) = 8 \<and> k_left k < 8 \<and> length (k_chunk k) = D"

lemma complete_byte_bits:
  fixes k :: "'e::len word ub_sink"
  assumes ok: "sink_ok D k" and nc: "(8 - k_left k) mod 8 \<le> length xs"
  shows "\<exists>k1. complete_byte xs ((8 - k_left k) mod 8) k = (Inr (), k1) \<and> sink_ok D k1 \<and>
    fbits (k_file k1) = sent k @ as_bits (take ((8 - k_left k) mod 8) xs)"
proof (cases "k_left k = 0")
  case True
  with ok show ?thesis by (simp add: complete_byte_def sent_def)
next
  case False
  let ?l = "k_left k"
  define rec' where "rec' = take ?l (k_rec k) @ take (8 - ?l) xs"
  have l: "?l < 8" "length (k_rec k) = 8" using ok by (auto simp: sink_ok_def)
  have n8: "(8 - ?l) mod 8 = 8 - ?l" using False l by simp
  have len: "length rec' = 8" using l nc n8 by (simp add: rec'_def)
  obtain sy' where sy': "pack_ptr rec' [0 :: 8 word] 8 1 False 8 = (Inr (), (rec', sy'))" "length sy' = 1"
    "fbits (take 1 sy') = as_bits (take 8 rec')"
    using pack_bits [where m = 1 and xs = rec' and sy = "[0]"] len by auto
  have "take 1 sy' = sy'" "take 8 rec' = rec'" using sy'(2) len by simp_all
  with sy'(3) have bits: "fbits sy' = as_bits rec'" by simp
  have 1: "complete_byte xs (8 - ?l) k = (Inr (), k\<lparr>k_rec := rec', k_file := k_file k @ sy'\<rparr>)"
    using False l nc sy'(1) unfolding n8 by (simp add: complete_byte_def rec'_def)
  show ?thesis unfolding n8 using ok bits len 1 by (auto simp: sink_ok_def sent_def rec'_def)
qed

lemma write_chunk_bits:
  assumes ok: "sink_ok D k" and mc: "nc + 8 * mc \<le> D" "length xs = D" "D < 2 ^ 24"
  shows "\<exists>k1. write_chunk xs nc mc k = (Inr (), k1) \<and> sink_ok D k1 \<and>
    fbits (k_file k1) = fbits (k_file k) @ as_bits (take (8 * mc) (drop nc xs))"
proof -
  have "int_arg (mc * 8) = int (8 * mc)"
    unfolding int_arg_def signed_of_nat using mc by (simp add: signed_take_bit_int_eq_self)
  then have arg: "\<not> int_arg (mc * 8) < 0" "nat (int_arg (mc * 8)) = 8 * mc" by simp_all
  have "8 * mc \<le> length (drop nc xs)" "mc \<le> length (k_chunk k)" "8 * mc < 2 ^ 24" using mc ok by (auto simp: sink_ok_def)
  from pack_bits [OF this] obtain sy' where "pack_ptr (drop nc xs) (k_chunk k) (8 * mc) 1 False 8 = (Inr (), (drop nc xs, sy'))"
    "length sy' = length (k_chunk k)" "fbits (take mc sy') = as_bits (take (8 * mc) (drop nc xs))" by auto
  with ok mc show ?thesis by (auto simp: write_chunk_def Let_def arg sink_ok_def)
qed

lemma send_count_bits:
  fixes k :: "'e::len word ub_sink"
  assumes ok: "sink_ok D k" and c: "count \<le> D" "(8 - k_left k) mod 8 \<le> count" and D: "length xs = D" "D < 2 ^ 24"
  shows "\<exists>k'. send_count xs count k = (Inr (), k') \<and> sink_ok D k' \<and> sent k' = sent k @ as_bits (take count xs)"
proof -
  define nc where "nc = (8 - k_left k) mod 8"
  define mc where "mc = (count - nc) div 8"
  let ?st = "nc + mc * 8"
  have c': "nc \<le> count" "nc \<le> length xs" using c D by (simp_all add: nc_def)
  have le: "8 * mc \<le> count - nc" by (simp add: mc_def)
  have "(count - nc) mod 8 < 8" by simp
  moreover have "(count - nc) mod 8 = count - nc - 8 * mc" by (simp add: mc_def minus_mult_div_eq_mod [symmetric])
  ultimately have small: "count - ?st < 8" by simp
  have st: "?st \<le> count" "nc + 8 * mc \<le> D" using le c' c by simp_all
  then have mod: "?st mod 2 ^ 64 = ?st" using c D by (intro mod_less) simp
  obtain k1 where 1: "complete_byte xs nc k = (Inr (), k1)" "sink_ok D k1" "fbits (k_file k1) = sent k @ as_bits (take nc xs)"
    using complete_byte_bits [OF ok, of xs] c'(2) unfolding nc_def by auto
  from write_chunk_bits [OF 1(2) st(2) D] obtain k2 where 2: "write_chunk xs nc mc k1 = (Inr (), k2)" "sink_ok D k2"
    "fbits (k_file k2) = fbits (k_file k1) @ as_bits (take (8 * mc) (drop nc xs))" by auto
  let ?k = "k2\<lparr>k_left := count - ?st, k_rec := take (count - ?st) (drop ?st xs) @ drop (count - ?st) (k_rec k2)\<rparr>"
  have 3: "keep_rest xs ?st count k2 = (Inr (), ?k)" using 2(2) c D small by (auto simp: keep_rest_def sink_ok_def)
  have sub: "size_sub count nc div 8 = mc" using c' by (simp add: size_sub_def mc_def)
  have "send_count xs count k = (Inr (), ?k)"
    unfolding send_count_def Let_def nc_def [symmetric] sub mod using ok 1(1) 2(1) 3 by (simp add: sink_ok_def)
  moreover have "sink_ok D ?k" using 2(2) small st D c by (simp add: sink_ok_def)
  moreover have "sent ?k = sent k @ as_bits (take count xs)"
  proof -
    have "count = nc + (8 * mc + (count - ?st))" using st by simp
    then have "take count xs = take (nc + (8 * mc + (count - ?st))) xs" by (rule arg_cong)
    also have "\<dots> = take nc xs @ take (8 * mc) (drop nc xs) @ take (count - ?st) (drop ?st xs)"
      by (simp only: take_add drop_drop add.commute mult.commute)
    finally have "take count xs = take nc xs @ take (8 * mc) (drop nc xs) @ take (count - ?st) (drop ?st xs)" .
    moreover have "length (drop ?st xs) \<ge> count - ?st" using c D by simp
    ultimately show ?thesis using 1(3) 2(3) by (simp add: sent_def)
  qed
  ultimately show ?thesis by blast
qed

section \<open>What a call of the source reads\<close>

text \<open>A source that reads its file once, between two calls; \<open>given s\<close> bits were generated.\<close>

definition reading :: "nat \<Rightarrow> 'e::len word ub_source \<Rightarrow> bool" where
  "reading D s \<longleftrightarrow> \<not> f_eof s \<and> \<not> f_fail s \<and> \<not> f_auto s \<and> \<not> f_done s \<and> f_max s = D \<and> length (f_memblk s) = D \<and>
     length (f_left_bits s) = 8 \<and> f_pos s \<le> length (f_data s) \<and> f_left s < 8 \<and> f_left s \<le> 8 * f_pos s \<and>
     take (f_left s) (f_left_bits s) = map of_bool (drop (8 * f_pos s - f_left s) (fbits (take (f_pos s) (f_data s))))"

definition given :: "'e::len word ub_source \<Rightarrow> nat" where
  "given s = 8 * f_pos s - f_left s"

lemma read_once:
  assumes s: "\<not> f_eof s" "\<not> f_fail s" "\<not> f_auto s" and n: "0 < needed" "needed \<le> length (f_memblk s)"
    and m: "m = min needed (length (f_data s) - f_pos s)"
  shows "read_loop needed 0 s = Some (Inr m, s\<lparr>f_memblk := take m (drop (f_pos s) (f_data s)) @ drop m (f_memblk s),
     f_pos := f_pos s + m, f_eof := (m < needed), f_fail := (m < needed)\<rparr>)"
proof -
  have r: "read_file 0 needed s = (m, s\<lparr>f_memblk := take m (drop (f_pos s) (f_data s)) @ drop m (f_memblk s),
      f_pos := f_pos s + m, f_eof := (m < needed), f_fail := (m < needed)\<rparr>)"
    using s by (simp add: read_file_def m Let_def)
  show ?thesis
  proof (cases "m < needed")
    case True
    with s n r show ?thesis by (subst read_loop.simps) simp
  next
    case False
    then have "m = needed" using m by simp
    moreover have "read_loop needed needed s' = Some (Inr needed, s')" for s' :: "'a word ub_source"
      by (subst read_loop.simps) simp
    ultimately show ?thesis using s n r by (subst read_loop.simps) simp
  qed
qed

lemma unpack_to_bits:
  fixes out :: "'e::len word list"
  assumes "n \<le> 8 * length bs" and "off + n \<le> length out" and "n < 2 ^ 24"
  shows "\<exists>out'. unpack_to bs off n out = Inr out' \<and> length out' = length out \<and>
    take (off + n) out' = take off out @ map of_bool (take n (fbits bs))"
proof -
  have "n \<le> length (drop off out)" using assms(2) by simp
  from unpack_bits [OF assms(1) this assms(3)] obtain ys where "unpack_ptr bs (drop off out) n 1 False 8 = (Inr (), (ys, bs))"
    "length ys = length (drop off out)" "take n ys = map of_bool (take n (fbits bs))" by blast
  with assms(2) show ?thesis by (intro exI [of _ "take off out @ ys"]) (simp add: unpack_to_def)
qed

lemma shift_left_bits:
  assumes "length bits = 8" and "n < 8"
  shows "take n (shift_left_bits n bits) = drop (8 - n) bits" and "length (shift_left_bits n bits) = 8"
proof -
  have "length (fold (\<lambda>i l. l[i := l ! (i + 8 - n)]) [0..<j] bits) = 8 \<and>
      (\<forall>i < 8. fold (\<lambda>i l. l[i := l ! (i + 8 - n)]) [0..<j] bits ! i = (if i < j then bits ! (i + 8 - n) else bits ! i))"
    if "j \<le> n" for j
    using that
  proof (induction j)
    case (Suc j)
    then have "length (fold (\<lambda>i l. l[i := l ! (i + 8 - n)]) [0..<j] bits) = 8"
      "fold (\<lambda>i l. l[i := l ! (i + 8 - n)]) [0..<j] bits ! (j + 8 - n) = bits ! (j + 8 - n)" using assms(2) by auto
    with Suc assms(2) show ?case by (auto simp: nth_list_update less_Suc_eq)
  qed (use assms in simp)
  from this [of n] show "length (shift_left_bits n bits) = 8" "take n (shift_left_bits n bits) = drop (8 - n) bits"
    using assms by (auto simp: shift_left_bits_def intro!: nth_equalityI) (simp_all add: add.commute)
qed

lemma fill_zeros_prefix:
  "length xs = b \<Longrightarrow> a \<le> b \<Longrightarrow> take a (fill_zeros a b xs) = take a xs \<and> length (fill_zeros a b xs) = b"
  by (simp add: fill_zeros_def)

lemma next_bits:
  assumes s: "reading D s" and m: "m \<le> length (f_data s) - f_pos s" "n \<le> 8 * m"
  shows "take (f_left s) (f_left_bits s) @ map of_bool (take n (fbits (take m (drop (f_pos s) (f_data s)) @ junk))) =
    map of_bool (take (f_left s + n) (drop (given s) (fbits (f_data s))))"
proof -
  let ?p = "f_pos s" and ?d = "f_data s"
  have l: "f_left s \<le> 8 * ?p" "?p \<le> length ?d" using s by (auto simp: reading_def)
  have "fbits ?d = fbits (take ?p ?d) @ fbits (drop ?p ?d)" by (simp flip: fbits_simps(2))
  then have "drop (given s) (fbits ?d) = drop (given s) (fbits (take ?p ?d)) @ fbits (drop ?p ?d)"
    using l by (simp add: given_def)
  moreover have "length (drop (given s) (fbits (take ?p ?d))) = f_left s" using l by (simp add: given_def)
  ultimately have "take (f_left s + n) (drop (given s) (fbits ?d)) = drop (given s) (fbits (take ?p ?d)) @ take n (fbits (drop ?p ?d))"
    by simp
  moreover have "take n (fbits (take m (drop ?p ?d) @ junk)) = take n (fbits (drop ?p ?d))"
    using m by (simp add: fbits_take min_def)
  ultimately show ?thesis using s by (simp add: reading_def given_def)
qed

text \<open>The file holds enough bytes for the frame.\<close>

lemma generate_whole:
  fixes s :: "'e::len word ub_source"
  assumes s: "reading D s" and D: "8 \<le> D" "D < 2 ^ 24" "length out = D"
    and m: "m = (D - f_left s + 7) div 8" "m \<le> length (f_data s) - f_pos s"
  shows "\<exists>s' out'. generate frame (s, out, c) = Some (Inr (), (s', out', D)) \<and> length out' = D \<and> reading D s' \<and>
    f_data s' = f_data s \<and> given s' = given s + D \<and> as_bits out' = take D (drop (given s) (fbits (f_data s)))"
proof -
  let ?p = "f_pos s" and ?d = "f_data s" and ?l = "f_left s"
  have r: "\<not> f_eof s" "\<not> f_fail s" "\<not> f_auto s" "\<not> f_done s" "f_max s = D" "length (f_memblk s) = D"
    "length (f_left_bits s) = 8" "?p \<le> length ?d" "?l < 8" "?l \<le> 8 * ?p" using s by (auto simp: reading_def)
  have mb: "D \<le> ?l + 8 * m" "?l + 8 * m < D + 8" "0 < m" "m \<le> D"
  proof -
    have "D - ?l + 7 = m * 8 + (D - ?l + 7) mod 8" by (simp add: m(1))
    moreover have "(D - ?l + 7) mod 8 < 8" by simp
    ultimately show "D \<le> ?l + 8 * m" "?l + 8 * m < D + 8" "0 < m" "m \<le> D" using D r by linarith+
  qed
  have needed: "n_bytes_needed D ?l = m" using D(1,2) r(9) by (simp add: n_bytes_needed_def size_sub_def m(1))
  let ?s = "s\<lparr>f_memblk := take m (drop ?p ?d) @ drop m (f_memblk s), f_pos := ?p + m, f_eof := False, f_fail := False\<rparr>"
  have read: "read_loop m 0 s = Some (Inr m, ?s)"
    using read_once [OF r(1-3) mb(3), of m] mb(4) m(2) r(6) by (simp add: min_def)
  let ?out = "take ?l (f_left_bits s) @ drop ?l out"
  let ?n = "D - ?l"
  have lenm: "length (take m (drop ?p ?d)) = m" using m(2) by simp
  have lens: "length (f_memblk ?s) = D" "length ?out = D" using lenm mb(4) r(6,7,9) D(1,3) by simp_all
  have ln: "?l + ?n = D" using r(9) D(1) by simp
  have "?n \<le> 8 * length (f_memblk ?s)" "?l + ?n \<le> length ?out" "?n < 2 ^ 24" unfolding lens ln using D(2) by simp_all
  from unpack_to_bits [OF this] obtain out' where out': "unpack_to (f_memblk ?s) ?l ?n ?out = Inr out'" "length out' = D"
    "take (?l + ?n) out' = take ?l ?out @ map of_bool (take ?n (fbits (f_memblk ?s)))" unfolding lens by blast
  have n8: "?n \<le> 8 * m" using mb(1) by simp
  have tl: "take ?l ?out = take ?l (f_left_bits s)" using r(7,9) by simp
  have "take D out' = map of_bool (take D (drop (given s) (fbits ?d)))"
    using out'(3) next_bits [OF s m(2) n8, of "drop m (f_memblk s)"] unfolding ln tl by simp
  then have "out' = map of_bool (take D (drop (given s) (fbits ?d)))" using out'(2) by simp
  then have bits: "as_bits out' = take D (drop (given s) (fbits ?d))" by (simp only: as_bits_of_bool)
  have g': "8 * (?p + m) - (?l + 8 * m - D) = given s + D" using r(9,10) mb(1,2) D(1) by (simp add: given_def)
  have gen: "generate frame (s, out, c) = Some (if ?l + m * 8 \<le> D then gen_short frame m ?s ?out else gen_full m m ?s ?out)"
    unfolding generate_def using r(4,5,7,9) D(1,3) read by (simp add: Let_def needed)
  have after: "n_left_after m ?s = ?l + 8 * m - D" using r(5) mb(1) by (simp add: n_left_after_def nat_diff_distrib)
  show ?thesis
  proof (cases "?l + m * 8 \<le> D")
    case True
    then have n: "m * 8 = ?n" "?l + m * 8 = D" using mb by auto
    have "gen_short frame m ?s ?out = (Inr (), (?s\<lparr>f_left := 0\<rparr>, out', D))"
      using r out' n D after by (simp add: gen_short_def Let_def fill_zeros_def)
    moreover have "reading D (?s\<lparr>f_left := 0\<rparr>)" using s m(2) mb lenm by (simp add: reading_def)
    moreover have "given (?s\<lparr>f_left := 0\<rparr>) = given s + D" using g' n by (simp add: given_def)
    ultimately show ?thesis using gen True bits out'(2) by auto
  next
    case False
    let ?l' = "?l + 8 * m - D" and ?b = "?d ! (?p + m - 1)"
    have l': "0 < ?l'" "?l' < 8" using False mb by auto
    have "take m (drop ?p ?d) = take (m - 1) (drop ?p ?d) @ [drop ?p ?d ! (m - 1)]"
      using take_Suc_conv_app_nth [of "m - 1" "drop ?p ?d"] m(2) mb(3) by simp
    then have "drop (m - 1) (f_memblk ?s) = ?b # drop m (f_memblk s)" using m(2) mb(3) by simp
    moreover obtain bits where b: "unpack_to (?b # drop m (f_memblk s)) 0 8 (f_left_bits s) = Inr bits" "length bits = 8"
      "take (0 + 8) bits = take 0 (f_left_bits s) @ map of_bool (take 8 (fbits (?b # drop m (f_memblk s))))"
      using unpack_to_bits [of 8 "?b # drop m (f_memblk s)" 0 "f_left_bits s"] r(7) by auto
    moreover have "bits = map of_bool (bits8 ?b)" using b(2,3) by simp
    ultimately have last: "unpack_to (drop (m - 1) (f_memblk ?s)) 0 8 (f_left_bits s) = Inr (map of_bool (bits8 ?b))" by simp
    let ?s' = "?s\<lparr>f_left := ?l', f_left_bits := shift_left_bits ?l' (map of_bool (bits8 ?b))\<rparr>"
    have "gen_full m m ?s ?out = (Inr (), (?s', out', D))"
      using r out'(1) after last l' by (simp add: gen_full_def Let_def)
    moreover have "reading D ?s'"
    proof -
      have "take (?p + m) ?d = take (?p + m - 1) ?d @ [?b]"
        using take_Suc_conv_app_nth [of "?p + m - 1" ?d] m(2) mb(3) by simp
      then have t: "fbits (take (?p + m) ?d) = fbits (take (?p + m - 1) ?d) @ bits8 ?b" by simp
      have "8 * (?p + m) = 8 * (?p + m - 1) + 8" using mb(3) by simp
      moreover have lenA: "length (fbits (take (?p + m - 1) ?d)) = 8 * (?p + m - 1)" using m(2) r(8) by simp
      ultimately have e: "8 * (?p + m) - ?l' = length (fbits (take (?p + m - 1) ?d)) + (8 - ?l')"
        unfolding lenA using l' by linarith
      have "drop (8 * (?p + m) - ?l') (fbits (take (?p + m) ?d)) = drop (8 - ?l') (bits8 ?b)"
        unfolding e t drop_append by simp
      moreover have "?p + m \<le> length ?d" "?l' \<le> 8 * (?p + m)" using m(2) mb(3) l' r(8) by auto
      ultimately show ?thesis
        using r l' lenm mb shift_left_bits [of "map of_bool (bits8 ?b)" ?l'] by (simp add: reading_def drop_map)
    qed
    moreover have "given ?s' = given s + D" using g' by (simp add: given_def)
    ultimately show ?thesis using gen False bits out'(2) by auto
  qed
qed

text \<open>The end of the file.\<close>

lemma generate_end:
  fixes s :: "'e::len word ub_source"
  assumes s: "reading D s" and D: "8 \<le> D" "D < 2 ^ 24" "length out = D"
    and m: "length (f_data s) - f_pos s < (D - f_left s + 7) div 8" and c: "c = 8 * length (f_data s) - given s"
  shows "c < D \<and> given s + c = 8 * length (f_data s) \<and>
    (if c = 0 then \<exists>v. generate 0 (s, out, c0) = Some (Inl Processing_aborted, v)
     else \<exists>s' out'. generate 0 (s, out, c0) = Some (Inr (), (s', out', c)) \<and> length out' = D \<and> f_done s' \<and>
       as_bits (take c out') = take c (drop (given s) (fbits (f_data s))))"
proof -
  let ?p = "f_pos s" and ?d = "f_data s" and ?l = "f_left s"
  define m where "m = length ?d - ?p"
  let ?needed = "(D - ?l + 7) div 8"
  have r: "\<not> f_eof s" "\<not> f_fail s" "\<not> f_auto s" "\<not> f_done s" "f_max s = D" "length (f_memblk s) = D"
    "length (f_left_bits s) = 8" "?p \<le> length ?d" "?l < 8" "?l \<le> 8 * ?p" using s by (auto simp: reading_def)
  have mn: "m < ?needed" using m by (simp add: m_def)
  have n: "0 < ?needed" "?needed \<le> D" using mn D(1) by auto
  have "8 * ?needed \<le> D - ?l + 7" by simp
  then have mb: "?l + 8 * m < D" using mn r(9) D(1) by linarith
  have cm: "c = ?l + 8 * m" using c r(8,10) by (simp add: given_def m_def)
  have whole: "given s + c = 8 * length ?d" using c r(8,10) by (simp add: given_def)
  have needed: "n_bytes_needed D ?l = ?needed" using D(1,2) r(9) by (simp add: n_bytes_needed_def size_sub_def)
  let ?s = "s\<lparr>f_memblk := take m (drop ?p ?d) @ drop m (f_memblk s), f_pos := ?p + m, f_eof := True, f_fail := True\<rparr>"
  have read: "read_loop ?needed 0 s = Some (Inr m, ?s)"
    using read_once [OF r(1-3) n(1), of m] n(2) mn r(6) by (simp add: m_def)
  let ?out = "take ?l (f_left_bits s) @ drop ?l out"
  have gen: "generate 0 (s, out, c0) = Some (gen_short 0 m ?s ?out)"
    unfolding generate_def using r(4,5,7,9) D(1,3) read mb by (simp add: Let_def needed)
  show ?thesis
  proof (cases "c = 0")
    case True
    then have "gen_short 0 m ?s ?out = (Inl Processing_aborted, (?s\<lparr>f_done := True\<rparr>, ?out, 0))"
      using r(3) cm by (simp add: gen_short_def Let_def)
    with gen True whole mb cm show ?thesis by simp
  next
    case False
    have lenm: "length (take m (drop ?p ?d)) = m" by (simp add: m_def)
    have lens: "length (f_memblk ?s) = D" "length ?out = D" using lenm mb r(6,7,9) D(1,3) by simp_all
    have "m * 8 \<le> 8 * length (f_memblk ?s)" "?l + m * 8 \<le> length ?out" "m * 8 < 2 ^ 24" unfolding lens using D(2) mb by simp_all
    from unpack_to_bits [OF this] obtain out' where out': "unpack_to (f_memblk ?s) ?l (m * 8) ?out = Inr out'" "length out' = D"
      "take (?l + m * 8) out' = take ?l ?out @ map of_bool (take (m * 8) (fbits (f_memblk ?s)))" unfolding lens by blast
    have tl: "take ?l ?out = take ?l (f_left_bits s)" using r(7,9) by simp
    have m8: "m \<le> length ?d - ?p" "m * 8 \<le> 8 * m" by (simp_all add: m_def)
    have lc: "?l + m * 8 = c" using cm by simp
    have "take c out' = map of_bool (take c (drop (given s) (fbits ?d)))"
      using out'(3) next_bits [OF s m8, of "drop m (f_memblk s)"] unfolding lc tl by simp
    then have bits: "as_bits (take c out') = take c (drop (given s) (fbits ?d))" by (simp only: as_bits_of_bool)
    let ?s' = "?s\<lparr>f_done := True, f_left := n_left_after m ?s\<rparr>"
    have "gen_short 0 m ?s ?out = (Inr (), (?s', fill_zeros c D out', c))"
      using r(3,5) False out'(1) lc by (simp add: gen_short_def Let_def)
    moreover have "take c (fill_zeros c D out') = take c out' \<and> length (fill_zeros c D out') = D"
      by (rule fill_zeros_prefix [OF out'(2)]) (use mb cm in simp)
    ultimately show ?thesis using gen False whole mb cm bits by auto
  qed
qed

section \<open>The copy of a file\<close>

lemma all_sent:
  assumes "sent k = fbits fd" and "k_left k < 8" and "length (k_rec k) = 8"
  shows "k_file k = fd \<and> k_left k = 0"
proof -
  have "length (sent k) = 8 * length (k_file k) + k_left k" using assms(2,3) by (simp add: sent_def)
  with assms(1) have "8 * length fd = 8 * length (k_file k) + k_left k" by simp
  with assms(2) have "k_left k = 0" by presburger
  with assms(1) show ?thesis by (simp add: sent_def)
qed

lemma completing_fits:
  fixes l x y c :: nat
  assumes "l < 8" and "8 * x + (l + c) = 8 * y" and "0 < c"
  shows "(8 - l) mod 8 \<le> c"
proof (cases "l = 0")
  case False
  from assms(2,3) have "x < y" by linarith
  with assms(2) have "8 \<le> l + c" by linarith
  with False show ?thesis by simp
qed simp

lemma copy_from:
  fixes s :: "'e::len word ub_source"
  assumes D: "8 \<le> D" "D < 2 ^ 24"
  shows "reading D s \<Longrightarrow> sink_ok D k \<Longrightarrow> sent k = take (given s) (fbits (f_data s)) \<Longrightarrow> given s \<le> 8 * length (f_data s) \<Longrightarrow>
    length out = D \<Longrightarrow> 8 * length (f_data s) - given s < fuel * D \<Longrightarrow>
    \<exists>k'. copy_rounds fuel (s, out, c) k = Some (Inr (), k') \<and> k_file k' = f_data s \<and> k_left k' = 0"
proof (induction fuel arbitrary: s k out c)
  case (Suc fuel)
  note s = Suc.prems(1) and k = Suc.prems(2) and snt = Suc.prems(3) and le = Suc.prems(4) and out = Suc.prems(5) and f = Suc.prems(6)
  let ?F = "fbits (f_data s)"
  have split: "take (given s) ?F @ take n (drop (given s) ?F) = take (given s + n) ?F" for n by (simp only: take_add)
  show ?case
  proof (cases "(D - f_left s + 7) div 8 \<le> length (f_data s) - f_pos s")
    case True
    from generate_whole [OF s D out refl True, of 0 c] obtain s' out' where
      g: "generate 0 (s, out, c) = Some (Inr (), (s', out', D))" "length out' = D" "reading D s'" "f_data s' = f_data s"
        "given s' = given s + D" "as_bits out' = take D (drop (given s) ?F)" by blast
    have "(8 - k_left k) mod 8 \<le> D" using D(1) by (meson le_trans less_imp_le mod_less_divisor zero_less_numeral)
    from send_count_bits [OF k order_refl this g(2) D(2)] obtain k' where
      k': "send_count out' D k = (Inr (), k')" "sink_ok D k'" "sent k' = sent k @ as_bits (take D out')" by blast
    have st: "sent k' = take (given s') (fbits (f_data s'))"
      using k'(3) snt g split [of D] by simp
    have "length (as_bits out') = D" using g(2) by simp
    then have le': "given s' \<le> 8 * length (f_data s')" using g(4,5,6) le by simp
    have f': "8 * length (f_data s') - given s' < fuel * D" using f g(4,5) le' by simp
    have "\<not> f_done s'" using g(3) by (simp add: reading_def)
    with g(1) k'(1) Suc.IH [OF g(3) k'(2) st le' g(2) f', of D] g(4) show ?thesis by simp
  next
    case False
    let ?c = "8 * length (f_data s) - given s"
    from False have m: "length (f_data s) - f_pos s < (D - f_left s + 7) div 8" by simp
    note e = generate_end [OF s D out m refl, of c]
    show ?thesis
    proof (cases "?c = 0")
      case True
      then have "sent k = ?F" using snt le by simp
      with k have "k_file k = f_data s \<and> k_left k = 0" by (intro all_sent) (auto simp: sink_ok_def)
      moreover obtain v where "generate 0 (s, out, c) = Some (Inl Processing_aborted, v)" using e True by auto
      ultimately show ?thesis by simp
    next
      case F: False
      with e obtain s' out' where g: "?c < D" "given s + ?c = 8 * length (f_data s)"
        "generate 0 (s, out, c) = Some (Inr (), (s', out', ?c))" "length out' = D" "f_done s'"
        "as_bits (take ?c out') = take ?c (drop (given s) ?F)" by auto
      have "length (sent k) = given s" using snt le by simp
      moreover have "length (sent k) = 8 * length (k_file k) + k_left k" using k by (simp add: sent_def sink_ok_def)
      ultimately have gv: "given s = 8 * length (k_file k) + k_left k" by simp
      have "(8 - k_left k) mod 8 \<le> ?c"
      proof -
        have "k_left k < 8" using k by (simp add: sink_ok_def)
        moreover have "8 * length (k_file k) + (k_left k + ?c) = 8 * length (f_data s)" using gv g(2) by simp
        ultimately show ?thesis using F by (intro completing_fits) simp_all
      qed
      from send_count_bits [OF k less_imp_le [OF g(1)] this g(4) D(2)] obtain k' where
        k': "send_count out' ?c k = (Inr (), k')" "sink_ok D k'" "sent k' = sent k @ as_bits (take ?c out')" by blast
      have "sent k' = ?F" using k'(3) snt g(2,6) split [of ?c] by simp
      with k'(2) have "k_file k' = f_data s \<and> k_left k' = 0" by (intro all_sent) (auto simp: sink_ok_def)
      with g k' show ?thesis by simp
    qed
  qed
qed simp

text \<open>
  C22: A chain of a binary source and a binary sink copies the file: for every frame size of at least one byte (a
  whole number of bytes or not) and every file, the rounds end, and then the file of the sink is the file of the
  source, without a bit left.
\<close>

theorem source_then_sink_copies_the_file:
  fixes s :: "'e::len word ub_source" and k :: "'e word ub_sink"
  assumes "8 \<le> D" and "D < 2 ^ 24" and "new_ub_source (int D) (Some fd) seekable False False = Inr s"
    and "new_ub_sink (int D) True = Inr k" and "length out = D" and "length fd < fuel"
  shows "\<exists>k'. copy_rounds fuel (s, out, c) k = Some (Inr (), k') \<and> k_file k' = fd \<and> k_left k' = 0"
proof -
  have s: "reading D s" "f_data s = fd" "given s = 0"
    using assms(1,3) by (auto simp: new_ub_source_def reading_def given_def split: if_splits)
  have k: "sink_ok D k" "sent k = []"
    using assms(1,4) by (auto simp: new_ub_sink_def sink_ok_def sent_def split: if_splits)
  have "8 * length fd < fuel * 8" using assms(6) by simp
  also have "\<dots> \<le> fuel * D" using assms(1) by simp
  finally show ?thesis using copy_from [OF assms(1,2) s(1) k(1), of out fuel c] k(2) s(2,3) assms(5) by simp
qed

lemma source_then_sink_copies_the_file_witness:
  "\<exists>s k k'. new_ub_source (int 12) (Some [165, 60, 7]) True False False = Inr (s :: 8 word ub_source) \<and>
     new_ub_sink (int 12) True = Inr (k :: 8 word ub_sink) \<and>
     copy_rounds 4 (s, replicate 12 0, 0) k = Some (Inr (), k') \<and> k_file k' = [165, 60, 7] \<and> k_left k' = 0"
proof -
  obtain s where s: "new_ub_source (int 12) (Some [165, 60, 7]) True False False = Inr (s :: 8 word ub_source)"
    by (simp add: new_ub_source_def)
  obtain k where k: "new_ub_sink (int 12) True = Inr (k :: 8 word ub_sink)" by (simp add: new_ub_sink_def)
  from source_then_sink_copies_the_file [of 12 "[165, 60, 7]" True s k "replicate 12 0" 4 0] s k show ?thesis by auto
qed

section \<open>Where the modules fail\<close>

text \<open>
  At the end of the file \<^verbatim>\<open>auto_reset\<close> calls \<^verbatim>\<open>reset\<close> in the middle of a frame, which forgets the number of the bits
  already copied in it: they are overwritten by the beginning of the file, and the frame may be short.
\<close>

lemma auto_reset_drops_the_left_bits:
  fixes s :: "'e::len word ub_source"
  assumes s: "f_auto s" "\<not> f_fifo s" "f_seekable s" "\<not> f_eof s" "\<not> f_fail s" "\<not> f_done s" "f_pos s = length (f_data s)"
    "f_max s = D" "length (f_memblk s) = D" "length (f_left_bits s) = 8" "0 < f_left s" "f_left s < 8"
    and D: "8 \<le> D" "D < 2 ^ 24" "length out = D" and n: "n = (D - f_left s + 7) div 8" "n \<le> length (f_data s)" "8 * n \<le> D"
  shows "\<exists>s' out'. generate frame (s, out, c) = Some (Inr (), (s', out', 8 * n)) \<and>
    as_bits (take (8 * n) out') = take (8 * n) (fbits (f_data s))"
proof -
  have nb: "0 < n" "n \<le> D" using n(1) D(1) s(12) by auto
  have needed: "n_bytes_needed D (f_left s) = n" using D(1,2) s(12) by (simp add: n_bytes_needed_def size_sub_def n(1))
  let ?s = "s\<lparr>f_left := 0, f_memblk := take n (f_data s) @ drop n (f_memblk s), f_pos := n\<rparr>"
  have read: "read_loop n 0 s = Some (Inr n, ?s)"
  proof -
    have 1: "read_file 0 n s = (0, s\<lparr>f_eof := True, f_fail := True\<rparr>)" using s(4,5,7) nb(1) by (simp add: read_file_def)
    have 2: "reset_source (s\<lparr>f_eof := True, f_fail := True\<rparr>) =
        (Inr (), s\<lparr>f_eof := False, f_fail := False, f_pos := 0, f_done := False, f_left := 0\<rparr>)"
      using s(2,3) by (simp add: reset_source_def Let_def)
    have 3: "read_file 0 n (s\<lparr>f_eof := False, f_fail := False, f_pos := 0, f_done := False, f_left := 0\<rparr>) = (n, ?s)"
      using s(4,5,6) n(2) by (simp add: read_file_def Let_def)
    have 4: "read_loop n n ?s = Some (Inr n, ?s)" by (subst read_loop.simps) simp
    show ?thesis
      using s(1,4,5,9) nb by (subst read_loop.simps, simp add: 1 2, subst read_loop.simps, simp add: 3 4)
  qed
  let ?out = "take (f_left s) (f_left_bits s) @ drop (f_left s) out"
  have gen: "generate frame (s, out, c) = Some (gen_short frame n ?s ?out)"
    unfolding generate_def using s(6,8,10,12) D(1,3) read n(3) by (simp add: Let_def needed)
  have lens: "length (f_memblk ?s) = D" "length ?out = D" using n(2) nb(2) s(9,10,12) D(1,3) by simp_all
  have "n * 8 \<le> 8 * length (f_memblk ?s)" "0 + n * 8 \<le> length ?out" "n * 8 < 2 ^ 24" unfolding lens using n(3) D(2) nb(2) by simp_all
  from unpack_to_bits [OF this] obtain out' where out': "unpack_to (f_memblk ?s) 0 (n * 8) ?out = Inr out'" "length out' = D"
    "take (0 + n * 8) out' = take 0 ?out @ map of_bool (take (n * 8) (fbits (f_memblk ?s)))" unfolding lens by blast
  have "take (8 * n) (fbits (f_memblk ?s)) = take (8 * n) (fbits (f_data s))" using n(2) by (simp add: fbits_take)
  then have "take (8 * n) out' = map of_bool (take (8 * n) (fbits (f_data s)))" using out'(3) by (simp add: mult.commute)
  then have "as_bits (take (8 * n) out') = take (8 * n) (fbits (f_data s))" by (simp only: as_bits_of_bool)
  moreover have "take (8 * n) (fill_zeros (8 * n) D out') = take (8 * n) out'" using fill_zeros_prefix [OF out'(2) n(3)] by simp
  ultimately show ?thesis using s(1,8) out'(1) by (simp add: gen gen_short_def Let_def mult.commute)
qed

text \<open>On an empty file \<^verbatim>\<open>auto_reset\<close> never returns.\<close>

lemma auto_reset_of_an_empty_file:
  fixes s :: "'e::len word ub_source"
  assumes "f_auto s" and "\<not> f_fifo s" and "f_seekable s" and "f_data s = []" and "\<not> f_eof s" and "\<not> f_fail s" and "0 < needed"
    and "needed \<le> length (f_memblk s)"
  shows "read_loop needed 0 s = None"
proof (rule ccontr)
  assume "read_loop needed 0 s \<noteq> None"
  then obtain x where x: "read_loop needed 0 s = Some x" by blast
  let ?P = "\<lambda>needed (k :: nat) (s :: 'e word ub_source) (x :: ('e word ub_source, nat) outcome). \<not> (k = 0 \<and> f_auto s \<and> \<not> f_fifo s \<and> f_seekable s \<and> f_data s = [] \<and>
    \<not> f_eof s \<and> \<not> f_fail s \<and> 0 < needed \<and> needed \<le> length (f_memblk s))"
  have "?P needed 0 s x"
  proof (rule read_loop.raw_induct [where P = ?P, OF _ x], goal_cases)
    case (1 rec n k s y)
    show ?case
    proof
      assume a: "k = 0 \<and> f_auto s \<and> \<not> f_fifo s \<and> f_seekable s \<and> f_data s = [] \<and> \<not> f_eof s \<and> \<not> f_fail s \<and> 0 < n \<and> n \<le> length (f_memblk s)"
      then have "read_file 0 n s = (0, s\<lparr>f_eof := True, f_fail := True\<rparr>)" by (simp add: read_file_def)
      moreover have "reset_source (s\<lparr>f_eof := True, f_fail := True\<rparr>) =
        (Inr (), s\<lparr>f_eof := False, f_fail := False, f_pos := 0, f_done := False, f_left := 0\<rparr>)"
        using a by (simp add: reset_source_def Let_def)
      ultimately have "rec n 0 (s\<lparr>f_eof := False, f_fail := False, f_pos := 0, f_done := False, f_left := 0\<rparr>) = Some y"
        using 1(2) a by simp
      from 1(1) [OF this] a show False by simp
    qed
  qed
  with assms show False by simp
qed

text \<open>
  The sink subtracts the bits that complete a byte from the number it is given without a test: with fewer bits the
  subtraction wraps, and about 2^61 bytes are written from a buffer of the size of a frame.
\<close>

lemma short_send_overruns:
  assumes k: "sink_ok D k" "0 < k_left k" and c: "count < 8 - k_left k" and D: "8 \<le> D" "D < 2 ^ 24" "length xs = D"
  shows "fst (send_count xs count k) = Inl UB"
proof -
  let ?nc = "(8 - k_left k) mod 8"
  have nc: "?nc = 8 - k_left k" "?nc \<le> length xs" "count < ?nc" "?nc - count < 8" using k c D by (auto simp: sink_ok_def)
  obtain k1 where k1: "complete_byte xs ?nc k = (Inr (), k1)" "sink_ok D k1" using complete_byte_bits [OF k(1) nc(2)] by blast
  have mc: "size_sub count ?nc div 8 = 2 ^ 61 - 1"
    using nc(3,4) by (intro div_nat_eqI) (auto simp: size_sub_def)
  have "int_arg ((2 ^ 61 - 1) * 8) < 0" by (simp add: int_arg_def)
  moreover have "length (k_chunk k1) < 2 ^ 61 - 1" using k1(2) D by (simp add: sink_ok_def)
  ultimately have "fst (write_chunk xs ?nc (2 ^ 61 - 1) k1) = Inl UB" by (simp add: write_chunk_def Let_def)
  then show ?thesis
    using k(1) k1(1) mc by (cases "write_chunk xs ?nc (2 ^ 61 - 1) k1") (simp add: send_count_def Let_def sink_ok_def)
qed

text \<open>
  The source does not ask for frames of at least one byte as the sink does: with a smaller frame it keeps more
  bits than a frame holds, and the next call copies them all.
\<close>

lemma small_frames_overrun:
  fixes s :: "'e::len word ub_source"
  assumes "new_ub_source 3 (Some (b # bs)) seekable auto False = Inr s" and "length out = 3"
  shows "\<exists>s' out'. generate frame (s, out, c) = Some (Inr (), (s', out', 3)) \<and> f_left s' = 5 \<and>
    generate frame' (s', out', 3) = Some (Inl UB, (s', out', 3))"
proof -
  have s: "s = \<lparr>f_max = 3, f_data = b # bs, f_pos = 0, f_eof = False, f_fail = False, f_seekable = seekable,
      f_auto = auto, f_fifo = False, f_done = False, f_left = 0, f_memblk = replicate 3 0, f_left_bits = replicate 8 0\<rparr>"
    using assms(1) by (simp add: new_ub_source_def)
  let ?s = "s\<lparr>f_memblk := [b, 0, 0], f_pos := 1\<rparr>"
  have "read_file 0 1 s = (1, ?s)" by (simp add: read_file_def s numeral_3_eq_3)
  moreover have "read_loop 1 1 ?s = Some (Inr 1, ?s)" by (subst read_loop.simps) simp
  ultimately have read: "read_loop 1 0 s = Some (Inr 1, ?s)" by (subst read_loop.simps) (simp add: s)
  have needed: "n_bytes_needed 3 0 = 1" by (simp add: n_bytes_needed_def size_sub_def)
  obtain out' where out': "unpack_to [b, 0, 0] 0 3 out = Inr out'" "length out' = 3"
    using unpack_to_bits [of 3 "[b, 0, 0]" 0 out] assms(2) by auto
  obtain bits where bits: "unpack_to [b, 0, 0] 0 8 (replicate 8 (0 :: 'e word)) = Inr bits" "length bits = 8"
    using unpack_to_bits [of 8 "[b, 0, 0]" 0 "replicate 8 (0 :: 'e word)"] by auto
  let ?s' = "?s\<lparr>f_left := 5, f_left_bits := shift_left_bits 5 bits\<rparr>"
  have "generate frame (s, out, c) = Some (gen_full 1 1 ?s out)"
    unfolding generate_def using assms(2) read needed by (simp add: s Let_def)
  also have "gen_full 1 1 ?s out = (Inr (), (?s', out', 3))"
    using out' bits by (simp add: gen_full_def n_left_after_def s Let_def)
  finally show ?thesis
    using out'(2) by (intro exI [of _ ?s'] exI [of _ out']) (simp add: generate_def s)
qed

end
