(* ===== verification/Stateful_Modules.thy ===== *)
theory Stateful_Modules
  imports Module_Ops Tools_Math Task_Contract
begin

text \<open>
  The construction of the modules of the library (\<^verbatim>\<open>src/Module/Stateful\<close>): each constructor checks its arguments and
  creates tasks with their sockets, in an order the enumerations of the headers rely on. A constructor is a
  function from its arguments to an exception or a shape: the names, the mode and the tasks; \<open>construct\<close> runs the
  calls of \<^verbatim>\<open>module::Module\<close> for a shape. \<open>T\<close>, \<open>TI\<close>, \<open>TO\<close> are the types of the templates. The names of the
  operators of \<^verbatim>\<open>Reducer\<close>, \<^verbatim>\<open>Binaryop\<close> and \<^verbatim>\<open>Unaryop\<close> are arguments. What the codelets compute is in
  \<^verbatim>\<open>Codelets\<close>.
\<close>

section \<open>Shapes\<close>

record sck_shape =
  h_type :: socket_t
  h_sck :: string
  h_n_elmts :: nat
  h_datatype :: type_index

record shape =
  h_name :: string
  h_short :: string
  h_single :: bool
  h_clonable :: bool
  h_replicable :: "nat list"
  h_tasks :: "(string \<times> sck_shape list) list"

abbreviation sck_in :: "string \<Rightarrow> nat \<Rightarrow> type_index \<Rightarrow> sck_shape" where
  "sck_in s n T \<equiv> \<lparr>h_type = SIN, h_sck = s, h_n_elmts = n, h_datatype = T\<rparr>"

abbreviation sck_out :: "string \<Rightarrow> nat \<Rightarrow> type_index \<Rightarrow> sck_shape" where
  "sck_out s n T \<equiv> \<lparr>h_type = SOUT, h_sck = s, h_n_elmts = n, h_datatype = T\<rparr>"

abbreviation sck_fwd :: "string \<Rightarrow> nat \<Rightarrow> type_index \<Rightarrow> sck_shape" where
  "sck_fwd s n T \<equiv> \<lparr>h_type = SFWD, h_sck = s, h_n_elmts = n, h_datatype = T\<rparr>"

definition plain_shape :: "string \<Rightarrow> bool \<Rightarrow> (string \<times> sck_shape list) list \<Rightarrow> shape" where
  "plain_shape name single ts = \<lparr>h_name = name, h_short = name, h_single = single, h_clonable = True,
     h_replicable = [], h_tasks = ts\<rparr>"

definition make_socket :: "mid \<Rightarrow> tid \<Rightarrow> sck_shape \<Rightarrow> world \<Rightarrow> (world, unit) outcome" where
  "make_socket md t h w = drop_value (case h_type h of
     SIN \<Rightarrow> mod_create_socket_in md t (h_sck h) (h_n_elmts h) (h_datatype h) w
   | SOUT \<Rightarrow> mod_create_socket_out md t (h_sck h) (h_n_elmts h) (h_datatype h) w
   | SFWD \<Rightarrow> mod_create_socket_fwd md t (h_sck h) (h_n_elmts h) (h_datatype h) w)"

definition make_task :: "mid \<Rightarrow> string \<times> sck_shape list \<Rightarrow> world \<Rightarrow> (world, unit) outcome" where
  "make_task md x w = bindo (create_task md (fst x) (-1) w) (\<lambda>t w1.
     bindo (foreach (make_socket md t) (snd x) w1) (\<lambda>_ w2. create_codelet (Suc (next_sock w2)) t w2))"

text \<open>\<open>md\<close> is the address of a new object; \<^verbatim>\<open>set_replicability\<close> is called on the tasks at the positions \<open>h_replicable\<close>.\<close>

definition construct :: "mid \<Rightarrow> shape \<Rightarrow> world \<Rightarrow> (world, unit) outcome" where
  "construct md h w =
     (let w0 = set_short_name md (h_short h) (set_name md (h_name h)
        (upd_mod md (\<lambda>_. new_module\<lparr>m_clonable := h_clonable h\<rparr>) w)) in
      bindo (if h_single h then set_single_wave md True w0 else (Inr (), w0))
       (\<lambda>_ w1. bindo (foreach (make_task md) (h_tasks h) w1)
         (\<lambda>_ w2. foreach (\<lambda>k w3. set_replicability (m_tasks (mods w3 md) ! k) True w3) (h_replicable h) w2)))"

section \<open>The constructors\<close>

definition switcher_shape :: "nat \<Rightarrow> nat \<Rightarrow> type_index \<Rightarrow> nat \<Rightarrow> type_index \<Rightarrow> exn + shape" where
  "switcher_shape n_data_sockets n_commute T_commute n_select T_select =
     (case compute_bytes_all [n_commute, n_select] [T_commute, T_select] of Inl e \<Rightarrow> Inl e
      | Inr _ \<Rightarrow> if n_data_sockets = 0 then Inl Invalid_argument
        else if n_commute = 0 then Inl Invalid_argument
        else if n_select = 0 then Inl Invalid_argument
        else Inr (plain_shape ''Switcher'' True
          [(''commute'', [sck_in ''in_data'' n_commute T_commute, sck_in ''in_ctrl'' 1 T_int8] @
              map (\<lambda>s. sck_out (''out_data'' @ nat_to_string s) n_commute T_commute) [0..<n_data_sockets]),
           (''select'', map (\<lambda>s. sck_in (''in_data'' @ nat_to_string s) n_select T_select) [0..<n_data_sockets] @
              [sck_out ''out_data'' n_select T_select])]))"

definition switcher_shape1 :: "nat \<Rightarrow> nat \<Rightarrow> type_index \<Rightarrow> exn + shape" where
  "switcher_shape1 n_data_sockets n T = switcher_shape n_data_sockets n T n T"

definition iterator_shape :: "exn + shape" where
  "iterator_shape = Inr (plain_shape ''Iterator'' True [(''iterate'', [sck_out ''out'' 1 T_int8]), (''reset'', [])])"

definition incrementer_shape :: "type_index \<Rightarrow> nat \<Rightarrow> exn + shape" where
  "incrementer_shape T n = (if n = 0 then Inl Invalid_argument
     else Inr (plain_shape ''Incrementer'' False
       [(''increment'', [sck_in ''in'' n T, sck_out ''out'' n T]), (''incrementf'', [sck_fwd ''fwd'' n T])]))"

definition relayer_shape :: "type_index \<Rightarrow> nat \<Rightarrow> exn + shape" where
  "relayer_shape T n = (if n = 0 then Inl Invalid_argument
     else Inr (plain_shape ''Relayer'' False
       [(''relay'', [sck_in ''in'' n T, sck_out ''out'' n T]), (''relayf'', [sck_fwd ''fwd'' n T])]))"

definition reducer_shape :: "string \<Rightarrow> type_index \<Rightarrow> type_index \<Rightarrow> nat \<Rightarrow> exn + shape" where
  "reducer_shape op TI TO n = (if n = 0 then Inl Invalid_argument
     else Inr ((plain_shape ''Reducer'' True [(''reduce'', [sck_in ''in'' n TI, sck_out ''out'' 1 TO])])
       \<lparr>h_name := ''Reducer<'' @ op @ ''>''\<rparr>))"

definition initializer_shape :: "type_index \<Rightarrow> nat \<Rightarrow> exn + shape" where
  "initializer_shape T n = (if n = 0 then Inl Invalid_argument
     else Inr (plain_shape ''Initializer'' False [(''initialize'', [sck_out ''out'' n T])]))"

definition finalizer_shape :: "type_index \<Rightarrow> nat \<Rightarrow> nat \<Rightarrow> exn + shape" where
  "finalizer_shape T n history_size = (if n = 0 then Inl Invalid_argument
     else if history_size = 0 then Inl Invalid_argument
     else Inr (plain_shape ''Finalizer'' False [(''finalize'', [sck_in ''in'' n T])]))"

definition delayer_shape :: "type_index \<Rightarrow> nat \<Rightarrow> exn + shape" where
  "delayer_shape T n = (if n = 0 then Inl Invalid_argument
     else Inr (plain_shape ''Delayer'' False [(''memorize'', [sck_in ''in'' n T]), (''produce'', [sck_out ''out'' n T])]))"

definition binaryop_shape :: "string \<Rightarrow> type_index \<Rightarrow> type_index \<Rightarrow> nat \<Rightarrow> nat \<Rightarrow> exn + shape" where
  "binaryop_shape op TI TO n_in0 n_in1 = (let n = (if n_in0 > n_in1 then n_in0 else n_in1) in
     if n_in0 = 0 then Inl Invalid_argument
     else if n_in1 = 0 then Inl Invalid_argument
     else if n_in0 \<noteq> n_in1 \<and> n_in0 \<noteq> 1 \<and> n_in1 \<noteq> 1 then Inl Invalid_argument
     else Inr ((plain_shape ''Binaryop'' False
         [(''perform'', [sck_in ''in0'' n_in0 TI, sck_in ''in1'' n_in1 TI, sck_out ''out'' n TO]),
          (''performf'', [sck_in ''in'' n_in0 TI, sck_fwd ''fwd'' n_in1 TI])])
       \<lparr>h_name := ''Binaryop<'' @ op @ ''>''\<rparr>))"

definition binaryop_shape1 :: "string \<Rightarrow> type_index \<Rightarrow> type_index \<Rightarrow> nat \<Rightarrow> exn + shape" where
  "binaryop_shape1 op TI TO n = binaryop_shape op TI TO n n"

definition unaryop_shape :: "string \<Rightarrow> type_index \<Rightarrow> type_index \<Rightarrow> nat \<Rightarrow> exn + shape" where
  "unaryop_shape op TI TO n = (if n = 0 then Inl Invalid_argument
     else Inr ((plain_shape ''Unaryop'' False [(''perform'', [sck_in ''in'' n TI, sck_out ''out'' n TO])])
       \<lparr>h_name := ''Unaryop<'' @ op @ ''>''\<rparr>))"

definition sleeper_shape :: "exn + shape" where
  "sleeper_shape = Inr (plain_shape ''Sleeper'' False [(''sleep'', [])])"

definition controller_shape :: "exn + shape" where
  "controller_shape = Inr ((plain_shape ''Controller'' True [(''control'', [sck_out ''out'' 1 T_int8]), (''reset'', [])])
     \<lparr>h_name := ''Module''\<rparr>)"

text \<open>A derived class changes the name and calls \<^verbatim>\<open>set_replicability\<close> on some of the tasks.\<close>

definition derived :: "string \<Rightarrow> nat list \<Rightarrow> shape \<Rightarrow> exn + shape" where
  "derived name ks h = Inr (h\<lparr>h_name := name, h_replicable := ks\<rparr>)"

definition controller_cyclic_shape :: "nat \<Rightarrow> exn + shape" where
  "controller_cyclic_shape n_paths = (if n_paths = 0 then Inl UB else and_then controller_shape (derived ''Controller_cyclic'' [0]))"

definition controller_limit_shape :: "exn + shape" where
  "controller_limit_shape = and_then controller_shape (derived ''Controller_limit'' [0])"

definition controller_static_shape :: "exn + shape" where
  "controller_static_shape = and_then controller_shape (derived ''Controller_static'' [0])"

text \<open>\<^verbatim>\<open>clone\<close> of \<^verbatim>\<open>Source\<close> and \<^verbatim>\<open>Sink\<close> throws; the classes that override it are clonable.\<close>

definition source_shape :: "type_index \<Rightarrow> int \<Rightarrow> exn + shape" where
  "source_shape B max_data_size = (if max_data_size \<le> 0 then Inl Invalid_argument
     else Inr ((plain_shape ''Source'' False
       [(''generate'', [sck_out ''out_data'' (nat max_data_size) B, sck_out ''out_count'' 1 T_uint32])])\<lparr>h_clonable := False\<rparr>))"

definition sink_shape :: "type_index \<Rightarrow> int \<Rightarrow> exn + shape" where
  "sink_shape B max_data_size = (if max_data_size \<le> 0 then Inl Invalid_argument
     else Inr ((plain_shape ''Sink'' False
       [(''send'', [sck_in ''in_data'' (nat max_data_size) B]),
        (''send_count'', [sck_in ''in_data'' (nat max_data_size) B, sck_in ''in_count'' 1 T_uint32])])\<lparr>h_clonable := False\<rparr>))"

definition clonable :: "shape \<Rightarrow> exn + shape" where
  "clonable h = Inr (h\<lparr>h_clonable := True\<rparr>)"

definition source_AZCW_shape :: "type_index \<Rightarrow> int \<Rightarrow> exn + shape" where
  "source_AZCW_shape B n = and_then (and_then (source_shape B n) clonable) (derived ''Source_AZCW'' [0])"

definition source_random_shape :: "type_index \<Rightarrow> int \<Rightarrow> exn + shape" where
  "source_random_shape B n = and_then (and_then (source_shape B n) clonable) (derived ''Source_random'' [0])"

definition sink_NO_shape :: "type_index \<Rightarrow> int \<Rightarrow> exn + shape" where
  "sink_NO_shape B n = and_then (and_then (sink_shape B n) clonable) (derived ''Sink_NO'' [0, 1])"

definition probe_shape :: "type_index \<Rightarrow> nat \<Rightarrow> string \<Rightarrow> exn + shape" where
  "probe_shape T socket_size col = Inr ((plain_shape (''Probe<'' @ col @ ''>'') False
     [(''probe'', if socket_size > 0 then [sck_in ''in'' socket_size T] else [])])\<lparr>h_clonable := False\<rparr>)"

section \<open>What a constructor leaves\<close>

type_synonym entry = "socket_t \<times> string \<times> type_index \<times> nat"

definition entry :: "sck_shape \<Rightarrow> entry" where
  "entry h = (h_type h, h_sck h, h_datatype h, h_n_elmts h * type_to_size (h_datatype h))"

definition entry_of :: "world \<Rightarrow> sid \<Rightarrow> entry" where
  "entry_of w i = (s_type (socks w i), s_name (socks w i), s_datatype (socks w i), s_databytes (socks w i))"

definition status_entry :: entry where
  "status_entry = (SOUT, status_name, T_int32, 4)"

definition task_entries :: "tid \<Rightarrow> world \<Rightarrow> entry list" where
  "task_entries t w = map (entry_of w) (t_sockets (tsks w t))"

definition module_entries :: "mid \<Rightarrow> world \<Rightarrow> (string \<times> entry list) list" where
  "module_entries md w = map (\<lambda>t. (t_name (tsks w t), task_entries t w)) (m_tasks (mods w md))"

definition shape_entries :: "shape \<Rightarrow> (string \<times> entry list) list" where
  "shape_entries h = map (\<lambda>x. (fst x, map entry (snd x) @ [status_entry])) (h_tasks h)"

definition socks_ok :: "sck_shape list \<Rightarrow> bool" where
  "socks_ok ss \<longleftrightarrow> distinct (map h_sck ss) \<and>
     (\<forall>s \<in> set ss. h_sck s \<noteq> [] \<and> h_sck s \<noteq> status_name \<and> type_to_size (h_datatype s) \<noteq> 0)"

definition shape_ok :: "shape \<Rightarrow> bool" where
  "shape_ok h \<longleftrightarrow> distinct (map fst (h_tasks h)) \<and> (\<forall>x \<in> set (h_tasks h). socks_ok (snd x)) \<and>
     (h_replicable h \<noteq> [] \<longrightarrow> h_clonable h) \<and> (\<forall>k \<in> set (h_replicable h). k < length (h_tasks h))"

definition unbound :: "world \<Rightarrow> sid \<Rightarrow> bool" where
  "unbound w i \<longleftrightarrow> s_bound_socket (socks w i) = None \<and> s_bound_sockets (socks w i) = []"

text \<open>Only the task \<open>t\<close> and new sockets change; the new sockets are not bound.\<close>

definition only_task :: "tid \<Rightarrow> world \<Rightarrow> world \<Rightarrow> bool" where
  "only_task t w w' \<longleftrightarrow> (\<forall>u. u \<noteq> t \<longrightarrow> tsks w' u = tsks w u) \<and> mods w' = mods w \<and> next_task w' = next_task w \<and>
     task_autoalloc w' = task_autoalloc w \<and> (\<forall>i < next_sock w. socks w' i = socks w i) \<and> next_sock w \<le> next_sock w' \<and>
     t_module (tsks w' t) = t_module (tsks w t) \<and> t_name (tsks w' t) = t_name (tsks w t) \<and>
     set (t_sockets (tsks w' t)) \<subseteq> set (t_sockets (tsks w t)) \<union> {next_sock w..} \<and>
     (\<forall>i \<ge> next_sock w. unbound w i \<longrightarrow> unbound w' i)"

lemma only_task_refl [simp]: "only_task t w w"
  by (simp add: only_task_def)

lemma only_task_trans: "only_task t u v \<Longrightarrow> only_task t v w \<Longrightarrow> only_task t u w"
proof -
  assume a: "only_task t u v" and b: "only_task t v w"
  have n: "next_sock u \<le> next_sock v" using a by (simp add: only_task_def)
  have new: "unbound w i" if i: "next_sock u \<le> i" "unbound u i" for i
  proof -
    have v: "unbound v i" using a i by (simp add: only_task_def)
    show ?thesis
    proof (cases "i < next_sock v")
      case True
      then have "socks w i = socks v i" using b by (simp add: only_task_def)
      with v show ?thesis by (simp add: unbound_def)
    next
      case False
      with b v show ?thesis by (simp add: only_task_def)
    qed
  qed
  have "set (t_sockets (tsks v t)) \<subseteq> set (t_sockets (tsks u t)) \<union> {next_sock u..}"
    "set (t_sockets (tsks w t)) \<subseteq> set (t_sockets (tsks v t)) \<union> {next_sock v..}" using a b by (simp_all only: only_task_def)
  then have sub: "set (t_sockets (tsks w t)) \<subseteq> set (t_sockets (tsks u t)) \<union> {next_sock u..}" using n by fastforce
  show ?thesis using a b new sub n unfolding only_task_def by (elim conjE) (simp only: simp_thms; simp)
qed

text \<open>A module in one frame and one wave, as it is in its constructor.\<close>

definition fresh_module :: "mid \<Rightarrow> world \<Rightarrow> bool" where
  "fresh_module md w \<longleftrightarrow> m_n_frames (mods w md) = 1 \<and> m_n_frames_per_wave (mods w md) = 1 \<and> m_n_waves (mods w md) = 1 \<and>
     \<not> task_autoalloc w"

lemma create_2d_fresh:
  assumes wf: "wf_task t w" and f: "fresh_module (t_module (tsks w t)) w" and n: "name \<noteq> []" "name = status_name \<longrightarrow> hack"
    and free: "name_free t name w" and T: "type_to_size T \<noteq> 0"
  shows "\<exists>w'. create_2d_socket t name 1 n T ty hack w = (Inr (next_sock w), w') \<and> created t name 1 n T ty w w' \<and>
    only_task t w w'"
proof -
  have "n * type_to_size T mod type_to_size T = 0" by simp
  then show ?thesis
    using assms unfolding create_2d_socket_def new_socket_def created_def name_free_def only_task_def fresh_module_def unbound_def Let_def
    by (auto simp: vec_resize_def empty_vec_def)
qed

lemma entries_created:
  assumes "wf_task t w" and "created t name 1 n T ty w w'"
  shows "task_entries t w' = task_entries t w @ [(ty, name, T, n * type_to_size T)]"
proof -
  have "entry_of w' i = entry_of w i" if "i \<in> set (t_sockets (tsks w t))" for i
    using assms that by (auto simp: created_def wf_task_def entry_of_def Let_def)
  with assms(2) show ?thesis by (simp add: task_entries_def created_def Let_def entry_of_def)
qed

lemma entries_upd_tsk [simp]:
  "(\<And>x. t_sockets (f x) = t_sockets x) \<Longrightarrow> task_entries t (upd_tsk t f w) = task_entries t w"
  by (simp add: task_entries_def entry_of_def)

lemma only_task_upd: "only_task t w w' \<Longrightarrow> (\<And>x. t_module (f x) = t_module x) \<Longrightarrow> (\<And>x. t_name (f x) = t_name x) \<Longrightarrow>
    (\<And>x. t_sockets (f x) = t_sockets x) \<Longrightarrow> only_task t w (upd_tsk t f w')"
  by (simp add: only_task_def unbound_def)

lemma name_free_entries: "name_free t name w \<longleftrightarrow> (\<forall>e \<in> set (task_entries t w). fst (snd e) \<noteq> name \<and> fst (snd e) \<noteq> status_name)"
  by (auto simp: name_free_def task_entries_def entry_of_def)

lemma make_socket_fresh:
  assumes wf: "wf_task t w" and f: "fresh_module md w" "t_module (tsks w t) = md"
    and h: "h_sck h \<noteq> []" "h_sck h \<noteq> status_name" "name_free t (h_sck h) w" "type_to_size (h_datatype h) \<noteq> 0"
  shows "\<exists>w'. make_socket md t h w = (Inr (), w') \<and> wf_task t w' \<and> only_task t w w' \<and>
    task_entries t w' = task_entries t w @ [entry h]"
proof -
  have fr: "m_n_frames (mods w md) = 1" using f by (simp add: fresh_module_def)
  obtain w1 where 1: "create_2d_socket t (h_sck h) 1 (h_n_elmts h) (h_datatype h) (h_type h) False w = (Inr (next_sock w), w1)"
    "created t (h_sck h) 1 (h_n_elmts h) (h_datatype h) (h_type h) w w1" "only_task t w w1"
    using create_2d_fresh [of t w "h_sck h" False "h_datatype h" "h_n_elmts h" "h_type h"] wf f h by auto
  have "\<not> (\<exists>k. h_datatype h = T_other k)" using h(4) by auto
  then have T: "(case h_datatype h of T_other _ \<Rightarrow> a | _ \<Rightarrow> b) = b" for a b :: "(world, nat) outcome"
    by (cases "h_datatype h") auto
  note e = entries_created [OF wf 1(2)]
  have keep: "wf_task t w1'" if "w1' = upd_tsk t g w1" "\<And>x. t_sockets (g x) = t_sockets x" "\<And>x. t_dataptr_init (g x) = t_dataptr_init x"
      "\<And>x. t_databytes_per_frame (g x) = t_databytes_per_frame x" "\<And>x. t_data (g x) = t_data x"
      "\<And>x. t_fake_input_sockets (g x) = t_fake_input_sockets x"
      "\<And>x. t_n_input_sockets (g x) = t_n_input_sockets (bump (h_type h) x)"
      "\<And>x. t_n_output_sockets (g x) = t_n_output_sockets (bump (h_type h) x)"
      "\<And>x. t_n_fwd_sockets (g x) = t_n_fwd_sockets (bump (h_type h) x)" for w1' g
    using wf_task_created [OF wf 1(2) h(3), of g] that by simp
  show ?thesis
  proof (cases "h_type h")
    case SIN
    let ?g = "\<lambda>x. x\<lparr>t_last_input_socket := Some (next_sock w), t_n_input_sockets := t_n_input_sockets x + 1\<rparr>"
    have "make_socket md t h w = (Inr (), upd_tsk t ?g w1)"
      using SIN 1(1) fr by (simp add: make_socket_def mod_create_socket_in_def create_2d_socket_in_def T Let_def drop_value_def)
    moreover have "wf_task t (upd_tsk t ?g w1)" by (rule keep [OF refl]) (simp_all add: SIN bump_def)
    ultimately show ?thesis using only_task_upd [OF 1(3), of ?g] e by (auto simp: entry_def)
  next
    case SOUT
    let ?g = "\<lambda>x. x\<lparr>t_n_output_sockets := t_n_output_sockets x + 1\<rparr>"
    have "make_socket md t h w = (Inr (), upd_tsk t ?g w1)"
      using SOUT 1(1) fr by (simp add: make_socket_def mod_create_socket_out_def create_2d_socket_out_def T Let_def drop_value_def)
    moreover have "wf_task t (upd_tsk t ?g w1)" by (rule keep [OF refl]) (simp_all add: SOUT bump_def)
    ultimately show ?thesis using only_task_upd [OF 1(3), of ?g] e by (auto simp: entry_def)
  next
    case SFWD
    let ?g = "\<lambda>x. x\<lparr>t_last_input_socket := Some (next_sock w), t_n_fwd_sockets := t_n_fwd_sockets x + 1\<rparr>"
    have "make_socket md t h w = (Inr (), upd_tsk t ?g w1)"
      using SFWD 1(1) fr by (simp add: make_socket_def mod_create_socket_fwd_def create_2d_socket_fwd_def T Let_def drop_value_def)
    moreover have "wf_task t (upd_tsk t ?g w1)" by (rule keep [OF refl]) (simp_all add: SFWD bump_def)
    ultimately show ?thesis using only_task_upd [OF 1(3), of ?g] e by (auto simp: entry_def)
  qed
qed

lemma only_task_module: "only_task t w w' \<Longrightarrow> fresh_module md w' = fresh_module md w \<and> t_module (tsks w' t) = t_module (tsks w t)"
  by (simp add: only_task_def fresh_module_def)

lemma make_sockets_fresh:
  assumes "socks_ok ss" and "wf_task t w" and "fresh_module md w" and "t_module (tsks w t) = md"
    and "\<forall>e \<in> set (task_entries t w). fst (snd e) \<noteq> status_name \<and> fst (snd e) \<notin> h_sck ` set ss"
  shows "\<exists>w'. foreach (make_socket md t) ss w = (Inr (), w') \<and> wf_task t w' \<and> only_task t w w' \<and>
    task_entries t w' = task_entries t w @ map entry ss"
  using assms
proof (induction ss arbitrary: w)
  case Nil
  then show ?case by simp
next
  case (Cons h ss)
  have h: "h_sck h \<noteq> []" "h_sck h \<noteq> status_name" "name_free t (h_sck h) w" "type_to_size (h_datatype h) \<noteq> 0"
    using Cons.prems(1,5) by (auto simp: socks_ok_def name_free_entries)
  obtain w1 where 1: "make_socket md t h w = (Inr (), w1)" "wf_task t w1" "only_task t w w1" "task_entries t w1 = task_entries t w @ [entry h]"
    using make_socket_fresh [OF Cons.prems(2,3,4) h] by blast
  have ok: "socks_ok ss" "h_sck h \<notin> h_sck ` set ss" using Cons.prems(1) by (auto simp: socks_ok_def)
  have "\<forall>e \<in> set (task_entries t w1). fst (snd e) \<noteq> status_name \<and> fst (snd e) \<notin> h_sck ` set ss"
    using Cons.prems(5) 1(4) ok(2) h(2) by (auto simp: entry_def)
  moreover have "fresh_module md w1" "t_module (tsks w1 t) = md" using only_task_module [OF 1(3)] Cons.prems(3,4) by auto
  ultimately obtain w2 where "foreach (make_socket md t) ss w1 = (Inr (), w2)" "wf_task t w2" "only_task t w1 w2"
    "task_entries t w2 = task_entries t w1 @ map entry ss" using Cons.IH [OF ok(1) 1(2)] by blast
  with 1 only_task_trans [OF 1(3)] show ?case by auto
qed

lemma wf_task_cong:
  assumes "\<And>i. s_name (socks w' i) = s_name (socks w i)" and "\<And>i. s_type (socks w' i) = s_type (socks w i)"
    and "tsks w' t = tsks w t" and "next_sock w' = next_sock w"
  shows "wf_task t w' \<longleftrightarrow> wf_task t w"
  unfolding wf_task_def of_type_def Let_def assms by (rule refl)

lemma create_codelet_fresh:
  assumes wf: "wf_task t w" and f: "fresh_module md w" "t_module (tsks w t) = md"
    and free: "\<forall>e \<in> set (task_entries t w). fst (snd e) \<noteq> status_name"
  shows "\<exists>w'. create_codelet k t w = (Inr (), w') \<and> wf_task t w' \<and> only_task t w w' \<and>
    task_entries t w' = task_entries t w @ [status_entry] \<and> t_sockets (tsks w' t) = t_sockets (tsks w t) @ [next_sock w]"
proof -
  have nf: "name_free t status_name w" using free by (auto simp: name_free_entries)
  have sn: "status_name \<noteq> []" by (simp add: status_name_def)
  obtain w1 where 1: "create_2d_socket t status_name 1 1 T_int32 SOUT True w = (Inr (next_sock w), w1)"
    "created t status_name 1 1 T_int32 SOUT w w1" "only_task t w w1"
    using create_2d_fresh [of t w status_name True T_int32 1 SOUT] wf f nf sn by auto
  let ?g = "\<lambda>x. x\<lparr>t_n_output_sockets := t_n_output_sockets x + 1\<rparr>"
  let ?w2 = "upd_tsk t ?g w1"
  have wf2: "wf_task t ?w2" by (rule wf_task_created [OF wf 1(2) nf]) (simp_all add: bump_def)
  have last: "t_sockets (tsks ?w2 t) ! last_pos t ?w2 = next_sock w" and in2: "next_sock w < next_sock ?w2"
    using 1(2) by (auto simp: created_def Let_def last_pos_def nth_append)
  let ?w3 = "upd_sck (next_sock w) (\<lambda>x. x\<lparr>s_dataptr := vec_data (t_status (tsks ?w2 t))\<rparr>) ?w2"
  have "m_n_waves (mods w (t_module (tsks w t))) = 1" using f by (simp add: fresh_module_def)
  moreover have "\<not> task_autoalloc w1" using 1(3) f(1) by (simp add: only_task_def fresh_module_def)
  ultimately have "create_codelet k t w = (Inr (), ?w3)"
    using 1(1) last unfolding create_codelet_def create_2d_socket_out_def by (simp add: Let_def)
  moreover have "wf_task t ?w3"
    by (rule wf_task_cong [THEN iffD2, OF _ _ _ _ wf2]) simp_all
  moreover have "only_task t w ?w3" using only_task_upd [OF 1(3), of ?g] by (simp add: only_task_def unbound_def)
  moreover have "task_entries t ?w3 = task_entries t w @ [status_entry]"
  proof -
    have "task_entries t ?w3 = task_entries t ?w2" by (simp add: task_entries_def entry_of_def)
    then show ?thesis using entries_created [OF wf 1(2)] by (simp add: status_entry_def)
  qed
  moreover have "t_sockets (tsks ?w3 t) = t_sockets (tsks w t) @ [next_sock w]" using 1(2) by (simp add: created_def Let_def)
  ultimately show ?thesis by (intro exI conjI)
qed

text \<open>The tasks of the module so far, all well formed and older than the next one.\<close>

definition module_inv :: "mid \<Rightarrow> world \<Rightarrow> bool" where
  "module_inv md w \<longleftrightarrow> fresh_module md w \<and> distinct (m_tasks (mods w md)) \<and>
     (\<forall>t \<in> set (m_tasks (mods w md)). t < next_task w \<and> t_module (tsks w t) = md \<and> wf_task t w)"

lemma only_task_keeps:
  assumes "only_task t w w'" and "u \<noteq> t" and "wf_task u w"
  shows "wf_task u w' \<and> task_entries u w' = task_entries u w \<and> t_name (tsks w' u) = t_name (tsks w u)"
proof -
  have s: "socks w' i = socks w i" if "i \<in> set (t_sockets (tsks w u))" for i
    using assms that by (auto simp: only_task_def wf_task_def Let_def)
  have u: "tsks w' u = tsks w u" using assms by (simp add: only_task_def)
  have n: "next_sock w \<le> next_sock w'" using assms(1) by (simp add: only_task_def)
  have "\<forall>i \<in> set (t_fake_input_sockets (tsks w u)). i < next_sock w'" using assms(3) n by (auto simp: wf_task_def Let_def)
  with assms(1) have "wf_task u w'" by (intro wf_task_frame [OF assms(3) n]) (simp_all add: u only_task_def)
  moreover have "task_entries u w' = task_entries u w" using s by (simp add: task_entries_def u entry_of_def)
  ultimately show ?thesis by (simp add: u)
qed

lemma create_task_fresh:
  assumes "\<forall>t \<in> set (m_tasks (mods w md)). t_name (tsks w t) \<noteq> n"
  obtains w1 st where "create_task md n (-1) w = (Inr (next_task w), w1)"
    "tsks w1 (next_task w) = blank_task\<lparr>t_module := md, t_name := n, t_replicable := m_clonable (mods w md), t_status := st\<rparr>"
    "\<forall>u. u \<noteq> next_task w \<longrightarrow> tsks w1 u = tsks w u" "socks w1 = socks w" "next_sock w1 = next_sock w"
    "next_task w1 = Suc (next_task w)" "task_autoalloc w1 = task_autoalloc w"
    "mods w1 md = (mods w md)\<lparr>m_tasks := m_tasks (mods w md) @ [next_task w],
      m_tasks_with_nullptr := m_tasks_with_nullptr (mods w md) @ [Some (next_task w)]\<rparr>"
proof -
  let ?t = "next_task w"
  have no: "\<not> (\<exists>t \<in> set (m_tasks (mods w md)). t_name (tsks w t) = n)" using assms by simp
  obtain v wv where v: "vec_resize (4 * m_n_waves (mods w md)) empty_vec w = (v, wv)" by (cases "vec_resize (4 * m_n_waves (mods w md)) empty_vec w")
  then have wv: "tsks wv = tsks w" "socks wv = socks w" "mods wv = mods w" "next_sock wv = next_sock w" "next_task wv = ?t"
    "task_autoalloc wv = task_autoalloc w" by (auto simp: vec_resize_def Let_def split: if_splits)
  let ?w1 = "upd_mod md (\<lambda>x. x\<lparr>m_tasks_with_nullptr := m_tasks_with_nullptr (mods w md) @ [Some ?t], m_tasks := m_tasks x @ [?t]\<rparr>)
    (wv\<lparr>tsks := (tsks wv)(?t := blank_task\<lparr>t_module := md, t_name := n, t_replicable := m_clonable (mods w md), t_status := v\<rparr>),
       next_task := Suc ?t\<rparr>)"
  show thesis
  proof (rule that [of ?w1 v])
    show "create_task md n (-1) w = (Inr ?t, ?w1)"
      unfolding create_task_def new_task_def Let_def v by (simp only: no if_False prod.case wv simp_thms) simp
  qed (simp_all add: wv)
qed

lemma make_task_fresh:
  assumes inv: "module_inv md w" and x: "socks_ok (snd x)" "fst x \<notin> fst ` set (module_entries md w)"
  shows "\<exists>w'. make_task md x w = (Inr (), w') \<and> module_inv md w' \<and> m_clonable (mods w' md) = m_clonable (mods w md) \<and>
    module_entries md w' = module_entries md w @ [(fst x, map entry (snd x) @ [status_entry])]"
proof -
  let ?t = "next_task w"
  have f: "fresh_module md w" using inv by (simp add: module_inv_def)
  have no: "\<forall>t \<in> set (m_tasks (mods w md)). t_name (tsks w t) \<noteq> fst x" using x(2) by (auto simp: module_entries_def image_iff)
  obtain w1 st where w1: "create_task md (fst x) (-1) w = (Inr ?t, w1)" "tsks w1 ?t = blank_task\<lparr>t_module := md, t_name := fst x,
      t_replicable := m_clonable (mods w md), t_status := st\<rparr>"
    "\<forall>u. u \<noteq> ?t \<longrightarrow> tsks w1 u = tsks w u" "socks w1 = socks w" "next_sock w1 = next_sock w" "next_task w1 = Suc ?t"
    "task_autoalloc w1 = task_autoalloc w" "mods w1 md = (mods w md)\<lparr>m_tasks := m_tasks (mods w md) @ [?t],
      m_tasks_with_nullptr := m_tasks_with_nullptr (mods w md) @ [Some ?t]\<rparr>"
    by (rule create_task_fresh [OF no])
  have wf1: "wf_task ?t w1" using w1(2) by (simp add: wf_task_def of_type_def blank_task_def Let_def)
  have f1: "fresh_module md w1" "t_module (tsks w1 ?t) = md" using f w1 by (simp_all add: fresh_module_def)
  have e1: "task_entries ?t w1 = []" using w1(2) by (simp add: task_entries_def blank_task_def)
  obtain w2 where w2: "foreach (make_socket md ?t) (snd x) w1 = (Inr (), w2)" "wf_task ?t w2" "only_task ?t w1 w2"
    "task_entries ?t w2 = map entry (snd x)" using make_sockets_fresh [OF x(1) wf1 f1] e1 by auto
  have f2: "fresh_module md w2" "t_module (tsks w2 ?t) = md" using only_task_module [OF w2(3)] f1 by auto
  have st: "\<forall>e \<in> set (task_entries ?t w2). fst (snd e) \<noteq> status_name" using w2(4) x(1) by (auto simp: socks_ok_def entry_def)
  obtain w3 where w3: "create_codelet (Suc (next_sock w2)) ?t w2 = (Inr (), w3)" "wf_task ?t w3" "only_task ?t w2 w3"
    "task_entries ?t w3 = map entry (snd x) @ [status_entry]"
    using create_codelet_fresh [OF w2(2) f2 st] w2(4) by auto
  have o: "only_task ?t w1 w3" by (rule only_task_trans [OF w2(3) w3(3)])
  have name: "t_name (tsks w3 ?t) = fst x" using o w1(2) by (simp add: only_task_def)
  have mods3: "mods w3 = mods w1" "next_task w3 = Suc ?t" "t_module (tsks w3 ?t) = md" using o w1(6) f1 by (simp_all add: only_task_def)
  have old: "wf_task u w3 \<and> task_entries u w3 = task_entries u w \<and> t_name (tsks w3 u) = t_name (tsks w u) \<and> t_module (tsks w3 u) = md \<and> u < ?t"
    if "u \<in> set (m_tasks (mods w md))" for u
  proof -
    have u: "u < ?t" "wf_task u w" "t_module (tsks w u) = md" using inv that by (auto simp: module_inv_def)
    then have "tsks w1 u = tsks w u" using w1(3) by simp
    with u w1(4,5) have "wf_task u w1" "task_entries u w1 = task_entries u w"
      by (simp_all add: wf_task_def of_type_def task_entries_def entry_of_def)
    with only_task_keeps [OF o, of u] u \<open>tsks w1 u = tsks w u\<close> o show ?thesis by (simp add: only_task_def)
  qed
  have "module_inv md w3"
    using old inv w3(2) mods3 w1(8) only_task_module [OF o] f1 unfolding module_inv_def by (auto simp: less_Suc_eq)
  moreover have "module_entries md w3 = module_entries md w @ [(fst x, map entry (snd x) @ [status_entry])]"
    using old w3(4) name mods3(1) w1(8) by (auto simp: module_entries_def)
  moreover have "make_task md x w = (Inr (), w3)" using w1(1) w2(1) w3(1) by (simp add: make_task_def)
  moreover have "m_clonable (mods w3 md) = m_clonable (mods w md)" using mods3(1) w1(8) by simp
  ultimately show ?thesis by blast
qed

lemma make_tasks_fresh:
  assumes "module_inv md w" and "distinct (map fst xs)" and "\<forall>x \<in> set xs. socks_ok (snd x)"
    and "fst ` set (module_entries md w) \<inter> fst ` set xs = {}"
  shows "\<exists>w'. foreach (make_task md) xs w = (Inr (), w') \<and> module_inv md w' \<and> m_clonable (mods w' md) = m_clonable (mods w md) \<and>
    module_entries md w' = module_entries md w @ map (\<lambda>x. (fst x, map entry (snd x) @ [status_entry])) xs"
  using assms
proof (induction xs arbitrary: w)
  case (Cons x xs)
  have x: "socks_ok (snd x)" "fst x \<notin> fst ` set (module_entries md w)" using Cons.prems(3,4) by auto
  obtain w1 where 1: "make_task md x w = (Inr (), w1)" "module_inv md w1" "m_clonable (mods w1 md) = m_clonable (mods w md)"
    "module_entries md w1 = module_entries md w @ [(fst x, map entry (snd x) @ [status_entry])]"
    using make_task_fresh [OF Cons.prems(1) x] by blast
  have "fst ` set (module_entries md w1) \<inter> fst ` set xs = {}" using Cons.prems(2,4) 1(4) by auto
  with Cons.IH [OF 1(2)] Cons.prems(2,3) 1 show ?case by auto
qed simp

lemma replicable_fresh:
  assumes "module_inv md w" and "m_clonable (mods w md)" and "\<forall>k \<in> set ks. k < length (m_tasks (mods w md))"
  shows "\<exists>w'. foreach (\<lambda>k w3. set_replicability (m_tasks (mods w3 md) ! k) True w3) ks w = (Inr (), w') \<and>
    module_inv md w' \<and> module_entries md w' = module_entries md w"
  using assms
proof (induction ks arbitrary: w)
  case (Cons k ks)
  let ?t = "m_tasks (mods w md) ! k"
  let ?w1 = "upd_tsk ?t (\<lambda>x. x\<lparr>t_replicable := True\<rparr>) w"
  have t: "t_module (tsks w ?t) = md" using Cons.prems(1,3) by (simp add: module_inv_def)
  have wf: "wf_task u ?w1 \<longleftrightarrow> wf_task u w" for u by (simp add: wf_task_def of_type_def Let_def)
  have "module_inv md ?w1" using Cons.prems(1) by (auto simp: module_inv_def fresh_module_def wf)
  moreover have "module_entries md ?w1 = module_entries md w"
    by (simp add: module_entries_def task_entries_def entry_of_def)
  moreover have "set_replicability ?t True w = (Inr (), ?w1)" using Cons.prems(2) t by (simp add: set_replicability_def)
  ultimately show ?case using Cons.IH [of ?w1] Cons.prems(2,3) by auto
qed simp

lemma single_wave_fresh:
  assumes "fresh_module md w"
  shows "set_single_wave md True w = (Inr (), upd_mod md (\<lambda>x. x\<lparr>m_single_wave := True\<rparr>) w)"
proof -
  let ?w1 = "upd_mod md (\<lambda>x. x\<lparr>m_single_wave := True\<rparr>) w"
  have "set_n_frames 2 md 1 ?w1 = (Inr (), ?w1)" "set_n_frames_per_wave 2 md 1 ?w1 = (Inr (), ?w1)"
    using assms by (simp_all add: numeral_2_eq_2 fresh_module_def)
  then show ?thesis using assms by (simp add: set_single_wave_def Let_def fresh_module_def)
qed

lemma construct_fresh:
  assumes h: "shape_ok h" and w: "\<not> task_autoalloc w"
  shows "\<exists>w'. construct md h w = (Inr (), w') \<and> module_entries md w' = shape_entries h \<and>
    (\<forall>t \<in> set (m_tasks (mods w' md)). t_module (tsks w' t) = md \<and> wf_task t w')"
proof -
  let ?w0 = "set_short_name md (h_short h) (set_name md (h_name h) (upd_mod md (\<lambda>_. new_module\<lparr>m_clonable := h_clonable h\<rparr>) w))"
  have 0: "m_tasks (mods ?w0 md) = []" "m_clonable (mods ?w0 md) = h_clonable h" "fresh_module md ?w0"
    using w by (simp_all add: set_short_name_def set_name_def new_module_def fresh_module_def)
  obtain w1 where 1: "(if h_single h then set_single_wave md True ?w0 else (Inr (), ?w0)) = (Inr (), w1)"
    "m_tasks (mods w1 md) = []" "m_clonable (mods w1 md) = h_clonable h" "fresh_module md w1"
  proof (cases "h_single h")
    case True
    let ?w1 = "upd_mod md (\<lambda>x. x\<lparr>m_single_wave := True\<rparr>) ?w0"
    have "set_single_wave md True ?w0 = (Inr (), ?w1)" by (rule single_wave_fresh [OF 0(3)])
    with True 0 that [of ?w1] show thesis by (simp add: fresh_module_def)
  qed (use 0 that in simp)
  have inv: "module_inv md w1" "module_entries md w1 = []" using 1(2,4) by (simp_all add: module_inv_def module_entries_def)
  have xs: "distinct (map fst (h_tasks h))" "\<forall>x \<in> set (h_tasks h). socks_ok (snd x)" using h by (simp_all add: shape_ok_def)
  obtain w2 where 2: "foreach (make_task md) (h_tasks h) w1 = (Inr (), w2)" "module_inv md w2" "m_clonable (mods w2 md) = h_clonable h"
    "module_entries md w2 = shape_entries h"
    using make_tasks_fresh [OF inv(1) xs] inv(2) 1(3) by (auto simp: shape_entries_def)
  have "length (m_tasks (mods w2 md)) = length (h_tasks h)"
    using arg_cong [where f = length, OF 2(4)] by (simp add: module_entries_def shape_entries_def)
  then have ks: "\<forall>k \<in> set (h_replicable h). k < length (m_tasks (mods w2 md))" "h_replicable h \<noteq> [] \<longrightarrow> m_clonable (mods w2 md)"
    using h 2(3) by (auto simp: shape_ok_def)
  obtain w3 where 3: "foreach (\<lambda>k w3. set_replicability (m_tasks (mods w3 md) ! k) True w3) (h_replicable h) w2 = (Inr (), w3)"
    "module_inv md w3" "module_entries md w3 = shape_entries h"
  proof (cases "h_replicable h = []")
    case False
    with replicable_fresh [OF 2(2), of "h_replicable h"] ks 2(4) that show thesis by auto
  qed (use 2 that in simp)
  have "construct md h w = (Inr (), w3)" unfolding construct_def Let_def 1(1) using 2(1) 3(1) by simp
  with 3(2,3) show ?thesis by (auto simp: module_inv_def)
qed

text \<open>Digits are injective, so are the numbered names of the sockets.\<close>

lemma nat_to_string_inject [simp]: "nat_to_string m = nat_to_string n \<longleftrightarrow> m = n"
proof
  show "nat_to_string m = nat_to_string n \<Longrightarrow> m = n"
  proof (induction m arbitrary: n rule: nat_to_string.induct)
    case (1 m)
    have digit: "d = e" if "(char_of (48 + d) :: char) = char_of (48 + e)" "d < 10" "e < 10" for d e :: nat
    proof -
      have "of_char (char_of (48 + d) :: char) = (of_char (char_of (48 + e) :: char) :: nat)" by (simp only: that(1))
      with that(2,3) show ?thesis by simp
    qed
    have len: "length (nat_to_string k) = 1 \<Longrightarrow> k < 10" for k
      by (subst (asm) nat_to_string.simps) (auto split: if_splits)
    show ?case
    proof (cases "m < 10 \<or> n < 10")
      case True
      have "length (nat_to_string m) = length (nat_to_string n)" using 1(2) by simp
      moreover have "length (nat_to_string k) = 1" if "k < 10" for k using that by (subst nat_to_string.simps) simp
      ultimately have "m < 10" "n < 10" using True len by metis+
      with 1(2) show ?thesis
        using digit [of m n] by (subst (asm) nat_to_string.simps, subst (asm) (2) nat_to_string.simps) simp
    next
      case False
      then have s: "nat_to_string k = nat_to_string (k div 10) @ [char_of (48 + k mod 10)]" if "k = m \<or> k = n" for k
        using that by (subst nat_to_string.simps) auto
      then have "nat_to_string (m div 10) @ [char_of (48 + m mod 10)] = nat_to_string (n div 10) @ [char_of (48 + n mod 10)]"
        using 1(2) by (simp only: s [of m, OF disjI1 [OF refl]] s [of n, OF disjI2 [OF refl]])
      then have t: "nat_to_string (m div 10) = nat_to_string (n div 10)" "(char_of (48 + m mod 10) :: char) = char_of (48 + n mod 10)"
        by simp_all
      from False have "m div 10 = n div 10" by (intro 1(1) t(1)) simp
      moreover have "m mod 10 = n mod 10" by (rule digit [OF t(2)]) simp_all
      ultimately show ?thesis by (metis div_mult_mod_eq)
    qed
  qed
qed simp

section \<open>Every module of the library\<close>

datatype ctor_call =
    New_Switcher nat nat type_index nat type_index
  | New_Iterator
  | New_Incrementer type_index nat
  | New_Relayer type_index nat
  | New_Reducer string type_index type_index nat
  | New_Initializer type_index nat
  | New_Finalizer type_index nat nat
  | New_Delayer type_index nat
  | New_Binaryop string type_index type_index nat nat
  | New_Unaryop string type_index type_index nat
  | New_Sleeper
  | New_Controller_cyclic nat
  | New_Controller_limit
  | New_Controller_static
  | New_Source type_index int
  | New_Source_AZCW type_index int
  | New_Source_random type_index int
  | New_Sink type_index int
  | New_Sink_NO type_index int
  | New_Probe type_index nat string

fun shape_of :: "ctor_call \<Rightarrow> exn + shape" where
  "shape_of (New_Switcher n nc Tc ns Ts) = switcher_shape n nc Tc ns Ts"
| "shape_of New_Iterator = iterator_shape"
| "shape_of (New_Incrementer T n) = incrementer_shape T n"
| "shape_of (New_Relayer T n) = relayer_shape T n"
| "shape_of (New_Reducer op TI TO n) = reducer_shape op TI TO n"
| "shape_of (New_Initializer T n) = initializer_shape T n"
| "shape_of (New_Finalizer T n h) = finalizer_shape T n h"
| "shape_of (New_Delayer T n) = delayer_shape T n"
| "shape_of (New_Binaryop op TI TO n0 n1) = binaryop_shape op TI TO n0 n1"
| "shape_of (New_Unaryop op TI TO n) = unaryop_shape op TI TO n"
| "shape_of New_Sleeper = sleeper_shape"
| "shape_of (New_Controller_cyclic n) = controller_cyclic_shape n"
| "shape_of New_Controller_limit = controller_limit_shape"
| "shape_of New_Controller_static = controller_static_shape"
| "shape_of (New_Source T n) = source_shape T n"
| "shape_of (New_Source_AZCW T n) = source_AZCW_shape T n"
| "shape_of (New_Source_random T n) = source_random_shape T n"
| "shape_of (New_Sink T n) = sink_shape T n"
| "shape_of (New_Sink_NO T n) = sink_NO_shape T n"
| "shape_of (New_Probe T n col) = probe_shape T n col"

text \<open>The types of the explicit instantiations of the templates; a \<^verbatim>\<open>Switcher\<close> checks its types itself.\<close>

fun types_of :: "ctor_call \<Rightarrow> type_index set" where
  "types_of (New_Incrementer T n) = {T}"
| "types_of (New_Relayer T n) = {T}"
| "types_of (New_Reducer op TI TO n) = {TI, TO}"
| "types_of (New_Initializer T n) = {T}"
| "types_of (New_Finalizer T n h) = {T}"
| "types_of (New_Delayer T n) = {T}"
| "types_of (New_Binaryop op TI TO n0 n1) = {TI, TO}"
| "types_of (New_Unaryop op TI TO n) = {TI, TO}"
| "types_of (New_Source T n) = {T}"
| "types_of (New_Source_AZCW T n) = {T}"
| "types_of (New_Source_random T n) = {T}"
| "types_of (New_Sink T n) = {T}"
| "types_of (New_Sink_NO T n) = {T}"
| "types_of (New_Probe T n col) = {T}"
| "types_of c = {}"

definition known :: "type_index \<Rightarrow> bool" where
  "known T \<longleftrightarrow> type_to_size T \<noteq> 0"

lemma switcher_types: "switcher_shape n nc Tc ns Ts = Inr h \<Longrightarrow> type_to_size Tc \<noteq> 0 \<and> type_to_size Ts \<noteq> 0"
  by (cases Tc; cases Ts) (auto simp: switcher_shape_def compute_bytes_def split: if_splits)

lemma switcher_shape_ok: "switcher_shape n nc Tc ns Ts = Inr h \<Longrightarrow> shape_ok h"
  using switcher_types [of n nc Tc ns Ts h]
  by (auto simp: switcher_shape_def plain_shape_def shape_ok_def socks_ok_def status_name_def comp_def distinct_map inj_on_def
      split: sum.splits if_splits)

lemma socks_ok_simps [simp]:
  "socks_ok []"
  "socks_ok (s # ss) \<longleftrightarrow> h_sck s \<notin> h_sck ` set ss \<and> h_sck s \<noteq> [] \<and> h_sck s \<noteq> status_name \<and> known (h_datatype s) \<and> socks_ok ss"
  by (auto simp: socks_ok_def known_def)

lemma known_simps [simp]: "known T_int8" "known T_uint32"
  by (simp_all add: known_def)

lemma shape_ok_updates [simp]:
  "shape_ok (h\<lparr>h_name := a\<rparr>) = shape_ok h" "shape_ok (h\<lparr>h_short := a\<rparr>) = shape_ok h"
  by (simp_all add: shape_ok_def)

lemma plain_shape_ok [simp]:
  "shape_ok (plain_shape name single ts) \<longleftrightarrow> distinct (map fst ts) \<and> (\<forall>x \<in> set ts. socks_ok (snd x))"
  "shape_ok (plain_shape name single ts\<lparr>h_clonable := c\<rparr>) \<longleftrightarrow> distinct (map fst ts) \<and> (\<forall>x \<in> set ts. socks_ok (snd x))"
  by (simp_all add: shape_ok_def plain_shape_def)

lemma derived_shape_ok:
  "derived name ks h = Inr h' \<Longrightarrow> shape_ok h \<Longrightarrow> h_clonable h \<Longrightarrow> \<forall>k \<in> set ks. k < length (h_tasks h) \<Longrightarrow> shape_ok h'"
  by (auto simp: derived_def shape_ok_def)

lemma small_shapes_ok:
  "incrementer_shape T n = Inr h \<Longrightarrow> known T \<Longrightarrow> shape_ok h"
  "relayer_shape T n = Inr h \<Longrightarrow> known T \<Longrightarrow> shape_ok h"
  "reducer_shape op T T' n = Inr h \<Longrightarrow> known T \<Longrightarrow> known T' \<Longrightarrow> shape_ok h"
  "initializer_shape T n = Inr h \<Longrightarrow> known T \<Longrightarrow> shape_ok h"
  "finalizer_shape T n k = Inr h \<Longrightarrow> known T \<Longrightarrow> shape_ok h"
  "delayer_shape T n = Inr h \<Longrightarrow> known T \<Longrightarrow> shape_ok h"
  "unaryop_shape op T T' n = Inr h \<Longrightarrow> known T \<Longrightarrow> known T' \<Longrightarrow> shape_ok h"
  "binaryop_shape op T T' n n' = Inr h \<Longrightarrow> known T \<Longrightarrow> known T' \<Longrightarrow> shape_ok h"
  "iterator_shape = Inr h \<Longrightarrow> shape_ok h" "sleeper_shape = Inr h \<Longrightarrow> shape_ok h"
  "source_shape T i = Inr h \<Longrightarrow> known T \<Longrightarrow> shape_ok h" "sink_shape T i = Inr h \<Longrightarrow> known T \<Longrightarrow> shape_ok h"
  "probe_shape T n col = Inr h \<Longrightarrow> known T \<Longrightarrow> shape_ok h"
  by (auto simp: incrementer_shape_def relayer_shape_def reducer_shape_def initializer_shape_def finalizer_shape_def
      delayer_shape_def unaryop_shape_def binaryop_shape_def iterator_shape_def sleeper_shape_def source_shape_def
      sink_shape_def probe_shape_def status_name_def Let_def split: if_splits)

lemma derived_shapes_ok:
  "controller_cyclic_shape n = Inr h \<Longrightarrow> shape_ok h"
  "controller_limit_shape = Inr h \<Longrightarrow> shape_ok h" "controller_static_shape = Inr h \<Longrightarrow> shape_ok h"
  "source_AZCW_shape T i = Inr h \<Longrightarrow> known T \<Longrightarrow> shape_ok h" "source_random_shape T i = Inr h \<Longrightarrow> known T \<Longrightarrow> shape_ok h"
  "sink_NO_shape T i = Inr h \<Longrightarrow> known T \<Longrightarrow> shape_ok h"
  by (auto simp: controller_cyclic_shape_def controller_limit_shape_def controller_static_shape_def controller_shape_def
      source_AZCW_shape_def source_random_shape_def sink_NO_shape_def source_shape_def sink_shape_def clonable_def derived_def
      and_then_Inr plain_shape_def shape_ok_def status_name_def split: if_splits)

lemma shape_of_ok: "shape_of c = Inr h \<Longrightarrow> \<forall>T \<in> types_of c. known T \<Longrightarrow> shape_ok h"
  by (cases c) (auto intro: switcher_shape_ok small_shapes_ok derived_shapes_ok)



end
