(* ===== verification/Codelets.thy ===== *)
theory Codelets
  imports Sequences
begin

text \<open>
  What the tasks of the library compute (\<^verbatim>\<open>src/Module/Stateful\<close>): the codelets, with the state of their module
  and the contents of the buffers of their sockets. A read or a write out of a buffer is \<open>UB\<close>. The active waiting of
  the argument \<open>ns\<close>, which only takes time, is not modelled. The constructors are in \<^verbatim>\<open>Stateful_Modules\<close>.
\<close>

text \<open>\<^verbatim>\<open>std::copy(xs, xs + n, out)\<close>.\<close>

definition copy_n :: "nat \<Rightarrow> 'a list \<Rightarrow> 'a list \<Rightarrow> exn + 'a list" where
  "copy_n n xs out = (if length xs < n \<or> length out < n then Inl UB else Inr (take n xs @ drop n out))"

section \<open>Switcher\<close>

record switcher =
  w_n_data_sockets :: nat
  w_n_bytes_commute :: nat
  w_n_bytes_select :: nat
  w_path :: nat
  w_no_copy_commute :: bool
  w_no_copy_select :: bool

definition new_switcher :: "nat \<Rightarrow> nat \<Rightarrow> nat \<Rightarrow> switcher" where
  "new_switcher n bytes_commute bytes_select = \<lparr>w_n_data_sockets = n, w_n_bytes_commute = bytes_commute,
     w_n_bytes_select = bytes_select, w_path = n - 1, w_no_copy_commute = False, w_no_copy_select = False\<rparr>"

definition set_path :: "nat \<Rightarrow> switcher \<Rightarrow> switcher" where
  "set_path path z = z\<lparr>w_path := path mod w_n_data_sockets z\<rparr>"

definition reset_switcher :: "switcher \<Rightarrow> switcher" where
  "reset_switcher z = z\<lparr>w_path := w_n_data_sockets z - 1\<rparr>"

text \<open>\<open>ctrl\<close> is the control (an \<^verbatim>\<open>int8_t\<close>), \<open>data\<close> the input, \<open>outs\<close> the outputs. The status is the path.\<close>

definition commute :: "nat \<Rightarrow> int \<Rightarrow> byte list \<Rightarrow> switcher \<times> byte list list \<Rightarrow> (switcher \<times> byte list list, int) outcome" where
  "commute n_frames ctrl data v = (case v of (z, outs) \<Rightarrow> let z1 = set_path (size_cast ctrl) z; path = w_path z1 in
     if w_no_copy_commute z1 then (Inr (int path), (z1, outs))
     else if length outs \<le> path then (Inl UB, (z1, outs))
     else (case copy_n (n_frames * w_n_bytes_commute z1) data (outs ! path) of Inl e \<Rightarrow> (Inl e, (z1, outs))
       | Inr xs \<Rightarrow> (Inr (int path), (z1, outs[path := xs]))))"

definition select :: "nat \<Rightarrow> byte list list \<Rightarrow> switcher \<times> byte list \<Rightarrow> (switcher \<times> byte list, int) outcome" where
  "select n_frames ins v = (case v of (z, out) \<Rightarrow>
     if w_no_copy_select z then (Inr 0, v)
     else if length ins \<le> w_path z then (Inl UB, v)
     else (case copy_n (n_frames * w_n_bytes_select z) (ins ! w_path z) out of Inl e \<Rightarrow> (Inl e, v)
       | Inr xs \<Rightarrow> (Inr 0, (z, xs))))"

section \<open>Iterator and controllers\<close>

record iterator =
  r_limit :: nat
  r_counter :: nat

definition new_iterator :: "nat \<Rightarrow> iterator" where
  "new_iterator limit = \<lparr>r_limit = limit, r_counter = 0\<rparr>"

text \<open>\<^verbatim>\<open>counter % (limit + 1)\<close> on \<^verbatim>\<open>size_t\<close>: a division by zero for the largest limit.\<close>

definition wrap_counter :: "nat \<Rightarrow> iterator \<Rightarrow> (iterator, unit) outcome" where
  "wrap_counter c r = (let m = (r_limit r + 1) mod 2 ^ 64 in
     if m = 0 then (Inl UB, r\<lparr>r_counter := c\<rparr>) else (Inr (), r\<lparr>r_counter := c mod m\<rparr>))"

definition set_limit :: "nat \<Rightarrow> iterator \<Rightarrow> (iterator, unit) outcome" where
  "set_limit limit r = wrap_counter (r_counter r) (r\<lparr>r_limit := limit\<rparr>)"

definition reset_iterator :: "iterator \<Rightarrow> iterator" where
  "reset_iterator r = r\<lparr>r_counter := 0\<rparr>"

definition iterate :: "iterator \<Rightarrow> (iterator, int) outcome" where
  "iterate r = (let is_over_path = (if r_counter r < r_limit r then 0 else 1) in
     bindo (wrap_counter ((r_counter r + 1) mod 2 ^ 64) r) (\<lambda>_ r1. (Inr is_over_path, r1)))"

record controller =
  u_init_path :: nat
  u_path :: nat
  u_counter :: nat

definition new_controller :: "nat \<Rightarrow> controller" where
  "new_controller init_path = \<lparr>u_init_path = init_path, u_path = init_path, u_counter = 0\<rparr>"

definition set_path_controller :: "nat \<Rightarrow> controller \<Rightarrow> controller" where
  "set_path_controller path u = u\<lparr>u_path := path\<rparr>"

definition reset_controller :: "controller \<Rightarrow> controller" where
  "reset_controller u = u\<lparr>u_path := u_init_path u\<rparr>"

text \<open>The path is stored in an \<^verbatim>\<open>int8_t\<close>.\<close>

definition int8_of :: "nat \<Rightarrow> int" where
  "int8_of p = sint (word_of_nat p :: 8 word)"

definition control_static :: "controller \<Rightarrow> int \<times> controller" where
  "control_static u = (int8_of (u_path u), u)"

definition control_limit :: "nat \<Rightarrow> controller \<Rightarrow> int \<times> controller" where
  "control_limit limit u = (let u1 = (if u_counter u \<ge> limit then u\<lparr>u_path := (if u_init_path u = 0 then 1 else 0)\<rparr> else u) in
     (int8_of (u_path u1), u1\<lparr>u_counter := (u_counter u1 + 1) mod 2 ^ 64\<rparr>))"

definition reset_limit :: "controller \<Rightarrow> controller" where
  "reset_limit u = (reset_controller u)\<lparr>u_counter := 0\<rparr>"

text \<open>The cyclic controller: \<open>n\<close> paths, 0 is refused by the division (\<open>UB\<close>) in the constructor.\<close>

definition new_cyclic :: "nat \<Rightarrow> nat \<Rightarrow> exn + controller" where
  "new_cyclic n init_path = (if n = 0 then Inl UB else Inr (new_controller (init_path mod n)))"

definition set_n_paths :: "nat \<Rightarrow> controller \<Rightarrow> exn + controller" where
  "set_n_paths n u = (if n = 0 then Inl UB else Inr (u\<lparr>u_path := u_path u mod n\<rparr>))"

definition set_path_cyclic :: "nat \<Rightarrow> nat \<Rightarrow> controller \<Rightarrow> controller" where
  "set_path_cyclic n path u = u\<lparr>u_path := path mod n\<rparr>"

definition reset_cyclic :: "nat \<Rightarrow> controller \<Rightarrow> controller" where
  "reset_cyclic n u = u\<lparr>u_path := u_init_path u mod n\<rparr>"

definition control_cyclic :: "nat \<Rightarrow> controller \<Rightarrow> int \<times> controller" where
  "control_cyclic n u = (let p = u_path u mod n in (int8_of p, u\<lparr>u_path := p + 1\<rparr>))"

section \<open>Operations on the elements\<close>

definition increment :: "nat \<Rightarrow> 'e::len word list \<Rightarrow> 'e word list \<Rightarrow> exn + 'e word list" where
  "increment n_elmts xs out = copy_n n_elmts (map (\<lambda>x. x + 1) xs) out"

text \<open>A relayer whose sockets share their memory copies nothing.\<close>

definition relay :: "nat \<Rightarrow> bool \<Rightarrow> 'a list \<Rightarrow> 'a list \<Rightarrow> exn + 'a list" where
  "relay n_elmts same xs out = (if same then Inr out else copy_n n_elmts xs out)"

definition unaryop :: "('a \<Rightarrow> 'b) \<Rightarrow> nat \<Rightarrow> 'a list \<Rightarrow> 'b list \<Rightarrow> exn + 'b list" where
  "unaryop UOP n_elmts xs out = copy_n n_elmts (map UOP xs) out"

text \<open>
  \<^verbatim>\<open>Binaryop\<close>: the codelet of \<^verbatim>\<open>perform\<close> reads one operand once when its socket has one element; the one of
  \<^verbatim>\<open>performf\<close> tests the first operand only.
\<close>

definition binaryop :: "('a \<Rightarrow> 'a \<Rightarrow> 'b) \<Rightarrow> nat \<Rightarrow> nat \<Rightarrow> 'a list \<Rightarrow> 'a list \<Rightarrow> 'b list \<Rightarrow> exn + 'b list" where
  "binaryop BOP n_in0 n_in1 in0 in1 out = (let n = (if n_in0 > n_in1 then n_in0 else n_in1) in
     if in0 = [] \<or> in1 = [] then Inl UB
     else if n_in0 = 1 then copy_n n (map (\<lambda>y. BOP (hd in0) y) in1) out
     else if n_in1 = 1 then copy_n n (map (\<lambda>x. BOP x (hd in1)) in0) out
     else copy_n n (map2 BOP in0 in1) out)"

definition binaryop_fwd :: "('a \<Rightarrow> 'a \<Rightarrow> 'a) \<Rightarrow> nat \<Rightarrow> nat \<Rightarrow> 'a list \<Rightarrow> 'a list \<Rightarrow> exn + 'a list" where
  "binaryop_fwd BOP n_in0 n_in1 xs fwd = (let n = (if n_in0 > n_in1 then n_in0 else n_in1) in
     if xs = [] then Inl UB
     else if n_in0 = 1 then copy_n n (map (\<lambda>y. BOP y (hd xs)) fwd) fwd
     else copy_n n (map2 BOP fwd xs) fwd)"

text \<open>\<^verbatim>\<open>_reduce\<close>, with the conversions between the types of its input and of its output.\<close>

definition reduce :: "('i \<Rightarrow> 'o) \<Rightarrow> ('o \<Rightarrow> 'i) \<Rightarrow> ('i \<Rightarrow> 'i \<Rightarrow> 'o) \<Rightarrow> nat \<Rightarrow> nat \<Rightarrow> 'i list \<Rightarrow> exn + 'o" where
  "reduce to_o to_i BOP n_frames n_elmts xs = (if length xs < n_frames * n_elmts \<or> xs = [] then Inl UB
     else Inr (fold (\<lambda>f r. fold (\<lambda>e r. BOP (to_i r) (xs ! (f * n_elmts + e))) [(if f = 0 then 1 else 0)..<n_elmts] r)
       [0..<n_frames] (to_o (xs ! 0))))"

section \<open>Initializer\<close>

text \<open>\<open>data\<close> holds one vector per frame; \<^verbatim>\<open>set_init_data\<close> with one vector per frame throws half way.\<close>

definition new_initializer :: "nat \<Rightarrow> 'a::zero list list" where
  "new_initializer n_elmts = [replicate n_elmts 0]"

definition set_init_data :: "'a list \<Rightarrow> 'a list list \<Rightarrow> ('a list list, unit) outcome" where
  "set_init_data init data = (case data of [] \<Rightarrow> (Inl UB, data)
     | d # _ \<Rightarrow> if length init \<noteq> length d then (Inl Invalid_argument, data) else (Inr (), map (\<lambda>_. init) data))"

fun replace_frames :: "'a list list \<Rightarrow> 'a list list \<Rightarrow> ('a list list, unit) outcome" where
  "replace_frames [] data = (Inr (), data)"
| "replace_frames (x # xs) [] = (Inl UB, [])"
| "replace_frames (x # xs) (d # data) = (if length x \<noteq> length d then (Inl Invalid_argument, d # data)
     else (case replace_frames xs data of (r, data') \<Rightarrow> (r, x # data')))"

definition set_init_data_frames :: "nat \<Rightarrow> 'a list list \<Rightarrow> 'a list list \<Rightarrow> ('a list list, unit) outcome" where
  "set_init_data_frames n_frames init data =
     (if length init \<noteq> n_frames then (Inl Invalid_argument, data) else replace_frames init data)"

definition set_init_data_val :: "'a \<Rightarrow> 'a list list \<Rightarrow> 'a list list" where
  "set_init_data_val val data = map (\<lambda>d. replicate (length d) val) data"

text \<open>After \<^verbatim>\<open>Module::set_n_frames\<close>: the new frames get the data of the first one.\<close>

definition initializer_frames :: "nat \<Rightarrow> nat \<Rightarrow> 'a list list \<Rightarrow> 'a list list" where
  "initializer_frames old n data = (if old = n then data else
     fold (\<lambda>f d. d[f := d ! 0]) [old..<n] (take n data @ replicate (n - length data) []))"

definition initialize :: "'a list list \<Rightarrow> nat \<Rightarrow> 'a list \<Rightarrow> exn + 'a list" where
  "initialize data frame_id out = (if length data \<le> frame_id then Inl UB else copy_n (length (data ! frame_id)) (data ! frame_id) out)"

section \<open>Finalizer\<close>

record 'a finalizer =
  z_data :: "'a list list list"
  z_next :: nat

definition new_finalizer :: "nat \<Rightarrow> nat \<Rightarrow> 'a::zero finalizer" where
  "new_finalizer n_elmts history_size = \<lparr>z_data = replicate history_size [replicate n_elmts 0], z_next = 0\<rparr>"

definition get_final_data :: "'a finalizer \<Rightarrow> exn + 'a list list" where
  "get_final_data z = (let last_stream_id = (if z_next z \<noteq> 0 then z_next z - 1 else size_sub (length (z_data z)) 1) in
     if last_stream_id < length (z_data z) then Inr (z_data z ! last_stream_id) else Inl UB)"

definition resize_list :: "nat \<Rightarrow> 'a \<Rightarrow> 'a list \<Rightarrow> 'a list" where
  "resize_list n x xs = take n xs @ replicate (n - length xs) x"

definition finalizer_frames :: "nat \<Rightarrow> nat \<Rightarrow> 'a::zero finalizer \<Rightarrow> 'a finalizer" where
  "finalizer_frames old n z = (if old = n then z else z\<lparr>z_data := map (\<lambda>st.
     fold (\<lambda>f d. d[f := resize_list (length (d ! 0)) 0 (d ! f)]) [old..<n] (resize_list n [] st)) (z_data z)\<rparr>)"

definition finalize :: "nat \<Rightarrow> 'a list \<Rightarrow> nat \<Rightarrow> 'a finalizer \<Rightarrow> ('a finalizer, unit) outcome" where
  "finalize n_frames xs frame_id z = (if length (z_data z) \<le> z_next z then (Inl UB, z)
     else let st = z_data z ! z_next z in
       if st = [] \<or> length st \<le> frame_id then (Inl UB, z)
       else (case copy_n (length (st ! 0)) xs (st ! frame_id) of Inl e \<Rightarrow> (Inl e, z)
         | Inr d \<Rightarrow> (Inr (), z\<lparr>z_data := (z_data z)[z_next z := st[frame_id := d]],
             z_next := (if frame_id = n_frames - 1 then (z_next z + 1) mod length (z_data z) else z_next z)\<rparr>)))"

definition reset_finalizer :: "'a finalizer \<Rightarrow> 'a finalizer" where
  "reset_finalizer z = z\<lparr>z_next := 0\<rparr>"

section \<open>Delayer\<close>

record 'a delayer =
  l_size :: nat
  l_init_val :: 'a
  l_data :: "'a list"

definition new_delayer :: "nat \<Rightarrow> 'a \<Rightarrow> exn + 'a delayer" where
  "new_delayer n init_val = (if n = 0 then Inl Invalid_argument else Inr \<lparr>l_size = n, l_init_val = init_val, l_data = replicate n init_val\<rparr>)"

definition memorize :: "'a list \<Rightarrow> nat \<Rightarrow> 'a delayer \<Rightarrow> ('a delayer, unit) outcome" where
  "memorize xs frame_id l = (let at = l_size l * frame_id in
     case copy_n (l_size l) xs (drop at (l_data l)) of Inl e \<Rightarrow> (Inl e, l)
     | Inr d \<Rightarrow> (Inr (), l\<lparr>l_data := take at (l_data l) @ d\<rparr>))"

definition produce :: "'a delayer \<Rightarrow> nat \<Rightarrow> 'a list \<Rightarrow> exn + 'a list" where
  "produce l frame_id out = copy_n (l_size l) (drop (l_size l * frame_id) (l_data l)) out"

definition delayer_frames :: "nat \<Rightarrow> nat \<Rightarrow> 'a delayer \<Rightarrow> 'a delayer" where
  "delayer_frames old n l = (if old = n then l
     else l\<lparr>l_data := resize_list (length (l_data l) div old * n) (l_init_val l) (l_data l)\<rparr>)"

definition set_delayer_data :: "'a list \<Rightarrow> 'a delayer \<Rightarrow> ('a delayer, unit) outcome" where
  "set_delayer_data init l = (if length init < length (l_data l) then (Inl Invalid_argument, l)
     else (Inr (), l\<lparr>l_data := take (length (l_data l)) init\<rparr>))"

section \<open>Sources and sinks\<close>

text \<open>
  \<^verbatim>\<open>Source::_generate\<close> with a count calls the one without it. \<^verbatim>\<open>Source_AZCW\<close> generates zeros; the generator of
  \<^verbatim>\<open>Source_random\<close> is an argument.
\<close>

definition generate_count :: "('s \<Rightarrow> 'a list \<Rightarrow> (exn + 'a list) \<times> 's) \<Rightarrow> nat \<Rightarrow> 's \<Rightarrow> 'a list \<times> nat \<Rightarrow> (exn + 'a list \<times> nat) \<times> 's" where
  "generate_count gen max_data_size s v = (case gen s (fst v) of (Inl e, s') \<Rightarrow> (Inl e, s') | (Inr out, s') \<Rightarrow> (Inr (out, max_data_size), s'))"

definition generate_AZCW :: "nat \<Rightarrow> 'a::zero list \<Rightarrow> exn + 'a list" where
  "generate_AZCW max_data_size out = copy_n max_data_size (replicate max_data_size 0) out"

fun generate_random :: "('g \<Rightarrow> 'a \<times> 'g) \<Rightarrow> nat \<Rightarrow> 'g \<Rightarrow> 'a list \<Rightarrow> (exn + 'a list) \<times> 'g" where
  "generate_random draw 0 g out = (Inr out, g)"
| "generate_random draw (Suc n) g out = (case draw g of (x, g1) \<Rightarrow> (case out of [] \<Rightarrow> (Inl UB, g1)
     | _ # ys \<Rightarrow> (case generate_random draw n g1 ys of (Inl e, g2) \<Rightarrow> (Inl e, g2) | (Inr zs, g2) \<Rightarrow> (Inr (x # zs), g2))))"

text \<open>
  \<^verbatim>\<open>Source_user\<close>: the file is the list of the numbers read from it, \<open>None\<close> when it cannot be opened; a number that is
  missing leaves a variable that was not initialised. \<^verbatim>\<open>%=\<close> on \<^verbatim>\<open>int\<close> keeps the sign.
\<close>

record 'a user_source =
  g_source :: "'a list list"
  g_next :: int
  g_counter :: nat
  g_auto :: bool
  g_start :: int
  g_done :: bool

definition c_mod :: "int \<Rightarrow> int \<Rightarrow> int" where
  "c_mod a n = (if a < 0 then - ((- a) mod n) else a mod n)"

fun rows_of :: "nat \<Rightarrow> nat \<Rightarrow> 'a list \<Rightarrow> (exn + 'a list list)" where
  "rows_of 0 n xs = Inr []"
| "rows_of (Suc k) n xs = (if length xs < n then Inl UB
     else (case rows_of k n (drop n xs) of Inl e \<Rightarrow> Inl e | Inr r \<Rightarrow> Inr (take n xs # r)))"

definition new_user_source :: "int \<Rightarrow> string \<Rightarrow> int list option \<Rightarrow> bool \<Rightarrow> int \<Rightarrow> exn + int user_source" where
  "new_user_source max_data_size filename fd auto start_idx = (if max_data_size \<le> 0 then Inl Invalid_argument
     else if filename = [] then Inl Invalid_argument
     else case fd of None \<Rightarrow> Inl Invalid_argument
     | Some xs \<Rightarrow> let n_src = (case xs of x # _ \<Rightarrow> x | _ \<Rightarrow> 0); src_size = (case xs of _ # y # _ \<Rightarrow> y | _ \<Rightarrow> 0) in
         if n_src \<le> 0 \<or> src_size \<le> 0 then Inl Runtime_error
         else if src_size \<noteq> max_data_size then Inl Runtime_error
         else (case rows_of (nat n_src) (nat src_size) (drop 2 xs) of Inl e \<Rightarrow> Inl e
           | Inr rows \<Rightarrow> Inr \<lparr>g_source = rows, g_next = c_mod start_idx n_src, g_counter = 0, g_auto = auto, g_start = start_idx, g_done = False\<rparr>))"

definition reset_user_source :: "'a user_source \<Rightarrow> 'a user_source" where
  "reset_user_source g = g\<lparr>g_next := g_start g, g_counter := 0, g_done := False\<rparr>"

definition generate_user :: "'a user_source \<Rightarrow> 'a list \<Rightarrow> (exn + 'a list) \<times> 'a user_source" where
  "generate_user g out = (if g_next g < 0 \<or> int (length (g_source g)) \<le> g_next g then (Inl UB, g)
     else let row = g_source g ! nat (g_next g); n = length (g_source g) in
       case copy_n (length row) row out of Inl e \<Rightarrow> (Inl e, g)
       | Inr out' \<Rightarrow> let g1 = g\<lparr>g_next := c_mod (g_next g + 1) (int n)\<rparr> in
           (Inr out', if g_auto g1 then g1
            else let c = (g_counter g1 + 1) mod n in g1\<lparr>g_counter := c, g_done := (if c = 0 then True else g_done g1)\<rparr>))"

section \<open>What the codelets compute\<close>

lemma copy_n_whole [simp]: "length xs = n \<Longrightarrow> length out = n \<Longrightarrow> copy_n n xs out = Inr xs"
  by (simp add: copy_n_def)

lemma copy_n_ok: "n \<le> length xs \<Longrightarrow> n \<le> length out \<Longrightarrow> copy_n n xs out = Inr (take n xs @ drop n out)"
  by (simp add: copy_n_def)

text \<open>The path of a switcher is always one of its paths, whatever the control.\<close>

lemma commute_path:
  "0 < w_n_data_sockets z \<Longrightarrow> w_path (fst (snd (commute n ctrl data (z, outs)))) < w_n_data_sockets z"
  by (auto simp: commute_def set_path_def Let_def split: sum.splits)

text \<open>The reduction runs over the elements of all the frames.\<close>

lemma fold_frames:
  "fold (\<lambda>f r. fold (\<lambda>e r. g r (xs ! (f * n + e))) [0..<n] r) [0..<m] r = fold (\<lambda>k r. g r (xs ! k)) [0..<m * n] r"
proof (induction m)
  case (Suc m)
  have "[0..<Suc m * n] = [0..<m * n] @ map (\<lambda>e. m * n + e) [0..<n]"
    using upt_add_eq_append [of 0 "m * n" n] by (simp add: map_add_upt add.commute)
  with Suc show ?case by (simp add: fold_map comp_def del: upt_Suc mult_Suc) simp
qed simp

lemma fold_upt_nth: "a \<le> b \<Longrightarrow> b \<le> length xs \<Longrightarrow> fold (\<lambda>k r. g r (xs ! k)) [a..<b] r = fold (\<lambda>x r. g r x) (drop a (take b xs)) r"
proof -
  assume "a \<le> b" and "b \<le> length xs"
  then have "drop a (take b xs) = map ((!) xs) [a..<b]" by (intro nth_equalityI) auto
  then show ?thesis by (simp add: fold_map comp_def)
qed

lemma reduce_folds_all_frames:
  assumes "0 < n_frames" and "0 < n" and "n_frames * n \<le> length xs"
  shows "reduce to_o to_i BOP n_frames n xs =
    Inr (fold (\<lambda>x r. BOP (to_i r) x) (drop 1 (take (n_frames * n) xs)) (to_o (hd xs)))"
proof -
  obtain m where m: "n_frames = Suc m" using assms(1) by (cases n_frames) auto
  have xs: "xs \<noteq> []" "1 \<le> n_frames * n" using assms by auto
  let ?g = "\<lambda>r x. BOP (to_i r) x"
  let ?r0 = "to_o (xs ! 0)"
  have first: "fold (\<lambda>f r. fold (\<lambda>e r. ?g r (xs ! (f * n + e))) [(if f = 0 then 1 else 0)..<n] r) [0..<n_frames] ?r0 =
      fold (\<lambda>f r. fold (\<lambda>e r. ?g r (xs ! (f * n + e))) [(if f = 0 then 1 else 0)..<n] r) [1..<n_frames]
        (fold (\<lambda>e r. ?g r (xs ! e)) [1..<n] ?r0)"
    using m by (simp add: upt_conv_Cons del: upt_Suc)
  also have "\<dots> = fold (\<lambda>f r. fold (\<lambda>e r. ?g r (xs ! (f * n + e))) [0..<n] r) [1..<n_frames] (fold (\<lambda>e r. ?g r (xs ! e)) [1..<n] ?r0)"
    by (rule fold_cong) auto
  also have "[1..<n_frames] = map Suc [0..<m]" by (simp add: m map_Suc_upt)
  also have "fold (\<lambda>f r. fold (\<lambda>e r. ?g r (xs ! (f * n + e))) [0..<n] r) (map Suc [0..<m]) (fold (\<lambda>e r. ?g r (xs ! e)) [1..<n] ?r0) =
      fold (\<lambda>k r. ?g r (drop n xs ! k)) [0..<m * n] (fold (\<lambda>e r. ?g r (xs ! e)) [1..<n] ?r0)"
  proof -
    have "xs ! (Suc f * n + e) = drop n xs ! (f * n + e)" if "f < m" "e < n" for f e
      using assms(3) that m by (simp add: add.assoc)
    then have "fold (\<lambda>f r. fold (\<lambda>e r. ?g r (xs ! (Suc f * n + e))) [0..<n] r) [0..<m] r =
        fold (\<lambda>f r. fold (\<lambda>e r. ?g r (drop n xs ! (f * n + e))) [0..<n] r) [0..<m] r" for r
      by (intro fold_cong refl ext) auto
    then show ?thesis using fold_frames [of ?g "drop n xs" n m] by (simp add: fold_map comp_def)
  qed
  also have "\<dots> = fold (\<lambda>x r. ?g r x) (take (m * n) (drop n xs)) (fold (\<lambda>x r. ?g r x) (drop 1 (take n xs)) ?r0)"
    using fold_upt_nth [of 0 "m * n" "drop n xs" ?g] fold_upt_nth [of 1 n xs ?g] assms m by (simp add: add.commute)
  also have "\<dots> = fold (\<lambda>x r. ?g r x) (drop 1 (take (n_frames * n) xs)) ?r0"
  proof -
    have "take (n_frames * n) xs = take n xs @ take (m * n) (drop n xs)" by (simp add: m take_add)
    moreover have "take n xs \<noteq> []" using assms(2) xs(1) by simp
    ultimately have "drop 1 (take (n_frames * n) xs) = drop 1 (take n xs) @ take (m * n) (drop n xs)"
      by (cases "take n xs") auto
    then show ?thesis by simp
  qed
  finally show ?thesis using assms(3) xs(1) by (simp add: reduce_def hd_conv_nth)
qed

text \<open>With \<^verbatim>\<open>produce\<close> before \<^verbatim>\<open>memorize\<close> in a round, each frame gets what was memorized for it one round before.\<close>

definition delay_round :: "'a list \<Rightarrow> nat \<Rightarrow> 'a list \<Rightarrow> 'a delayer \<Rightarrow> ('a delayer, 'a list) outcome" where
  "delay_round xs f out l = (case produce l f out of Inl e \<Rightarrow> (Inl e, l) | Inr out' \<Rightarrow> bindo (memorize xs f l) (\<lambda>_ l'. (Inr out', l')))"

lemma block_before: "n + a \<le> b \<Longrightarrow> take n (drop a (take b d)) = take n (drop a d)"
  by (simp only: drop_take take_take) (simp add: min_def)

lemma block_after:
  assumes "length xs = n" and "n + b \<le> a" and "n + b \<le> length d"
  shows "drop a (take b d @ xs @ drop (n + b) d) = drop a d"
proof -
  have "take b d @ xs @ drop (n + b) d = (take b d @ xs) @ drop (n + b) d" by simp
  also have "drop a \<dots> = drop (a - (n + b)) (drop (n + b) d)" using assms by (simp add: min_def add.commute)
  finally show ?thesis using assms(2) by (simp only: drop_drop) simp
qed

lemma delayer_delays_one_round:
  assumes "length xs = l_size l" and "length out = l_size l" and "l_size l * (f + 1) \<le> length (l_data l)" and "length out' = l_size l"
  shows "\<exists>l1. delay_round xs f out l = (Inr (take (l_size l) (drop (l_size l * f) (l_data l))), l1) \<and>
    l_size l1 = l_size l \<and> length (l_data l1) = length (l_data l) \<and> produce l1 f out' = Inr xs \<and>
    (\<forall>g \<noteq> f. l_size l * (g + 1) \<le> length (l_data l) \<longrightarrow> take (l_size l) (drop (l_size l * g) (l_data l1)) = take (l_size l) (drop (l_size l * g) (l_data l)))"
proof -
  let ?n = "l_size l" and ?d = "l_data l"
  let ?l1 = "l\<lparr>l_data := take (?n * f) ?d @ xs @ drop (?n + ?n * f) ?d\<rparr>"
  have len: "?n * f + ?n \<le> length ?d" using assms(3) by (simp add: algebra_simps)
  have "produce l f out = Inr (take ?n (drop (?n * f) ?d))" using len assms(2) by (simp add: produce_def copy_n_ok)
  moreover have "memorize xs f l = (Inr (), ?l1)"
    using len assms(1) by (simp add: memorize_def Let_def copy_n_ok)
  moreover have "produce ?l1 f out' = Inr xs" using len assms(1,4) by (simp add: produce_def copy_n_ok)
  moreover have "length (l_data ?l1) = length ?d" using len assms(1) by simp
  moreover have "take ?n (drop (?n * g) (l_data ?l1)) = take ?n (drop (?n * g) ?d)" if g: "g \<noteq> f" "?n * (g + 1) \<le> length ?d" for g
  proof (cases "g < f")
    case True
    then have "?n * (g + 1) \<le> ?n * f" by (intro mult_left_mono) auto
    then show ?thesis using len by (simp add: block_before algebra_simps)
  next
    case False
    with g have "?n * (f + 1) \<le> ?n * g" by (intro mult_left_mono) auto
    then have "?n + ?n * f \<le> ?n * g" "?n + ?n * f \<le> length ?d" using len by (simp_all add: algebra_simps)
    then have "drop (?n * g) (take (?n * f) ?d @ xs @ drop (?n + ?n * f) ?d) = drop (?n * g) ?d" by (rule block_after [OF assms(1)])
    moreover have "l_data ?l1 = take (?n * f) ?d @ xs @ drop (?n + ?n * f) ?d" by simp
    ultimately show ?thesis by (simp only:)
  qed
  ultimately show ?thesis by (simp add: delay_round_def)
qed

text \<open>The calls of \<^verbatim>\<open>iterate\<close> answer 0 \<open>limit\<close> times and then 1, again and again.\<close>

lemma iterate_step:
  assumes "r_limit r < 2 ^ 64 - 1" and "r_counter r \<le> r_limit r"
  shows "iterate r = (Inr (if r_counter r < r_limit r then 0 else 1),
    r\<lparr>r_counter := (if r_counter r < r_limit r then r_counter r + 1 else 0)\<rparr>)"
  using assms by (auto simp: iterate_def wrap_counter_def Let_def)

lemma largest_limit_divides_by_zero: "fst (iterate (new_iterator (2 ^ 64 - 1))) = Inl UB"
  by (simp add: iterate_def wrap_counter_def new_iterator_def)

text \<open>\<^verbatim>\<open>reset\<close> of a \<^verbatim>\<open>Source_user\<close> forgets the modulo of the constructor: the next frame may not exist.\<close>

lemma reset_user_source_out_of_range:
  assumes "int (length (g_source g)) \<le> g_start g"
  shows "fst (generate_user (reset_user_source g) out) = Inl UB"
  using assms by (simp add: generate_user_def reset_user_source_def)

text \<open>A forward socket of one element, with more elements in the other operand: \<^verbatim>\<open>performf\<close> writes out of it.\<close>

lemma forward_operand_overruns:
  assumes "1 < n" and "length xs = n" and "length fwd = 1"
  shows "binaryop_fwd BOP n 1 xs fwd = Inl UB"
  using assms by (auto simp: binaryop_fwd_def Let_def copy_n_def)

text \<open>From 128 paths the control is negative, and the switcher takes an other path.\<close>

lemma path_128_is_path_88:
  "fst (control_cyclic 200 (new_controller 128)) = -128 \<and> w_path (set_path (size_cast (-128)) (new_switcher 200 1 1)) = 88"
  by (simp add: control_cyclic_def new_controller_def int8_of_def set_path_def new_switcher_def size_cast_def)

section \<open>A loop\<close>

text \<open>
  The loop of \<^verbatim>\<open>tests/bootstrap/for_loop.cpp\<close>: an initializer, the \<^verbatim>\<open>select\<close> of a switcher with two paths, the iterator
  that controls the \<^verbatim>\<open>commute\<close>, a body on the path 0, which goes back to the \<^verbatim>\<open>select\<close>, and a finalizer on the path 1.
  The state holds the modules and the buffers of the outputs; \<open>src\<close> is what the initializer gives, \<open>body\<close> the function of
  the body.
\<close>

record loop =
  o_iter :: iterator
  o_swi :: switcher
  o_ctrl :: int
  o_ins :: "byte list list"
  o_sel :: "byte list"
  o_outs :: "byte list list"
  o_final :: "byte list list"

definition loop_graph :: "subseq graph" where
  "loop_graph = (let node = (\<lambda>ty ts cs. \<lparr>dn_parents = [], dn_children = cs,
       dn_contents = Some (new_subseq\<lparr>ss_type := ty, ss_tasks := ts\<rparr>), dn_depth = 0\<rparr>) in
     \<lparr>g_node = (\<lambda>n. if n = 0 then node STD [0] [1] else if n = 1 then node SELECT [1, 2] [2]
        else if n = 2 then node COMMUTE [3] [3, 4] else if n = 3 then node STD [4] [1] else node STD [5] []),
      g_next = 5\<rparr>)"

definition loop_run :: "nat \<Rightarrow> byte list \<Rightarrow> (byte list \<Rightarrow> byte list) \<Rightarrow> tid \<Rightarrow> loop \<Rightarrow> (exn + int) \<times> loop" where
  "loop_run n_frames src body t s =
     (if t = 0 then (Inr 0, s\<lparr>o_ins := (o_ins s)[1 := src]\<rparr>)
      else if t = 1 then (case select n_frames (o_ins s) (o_swi s, o_sel s) of (r, (z, x)) \<Rightarrow> (r, s\<lparr>o_swi := z, o_sel := x\<rparr>))
      else if t = 2 then bindo (case iterate (o_iter s) of (r, i) \<Rightarrow> (r, s\<lparr>o_iter := i\<rparr>)) (\<lambda>c s1. (Inr 0, s1\<lparr>o_ctrl := c\<rparr>))
      else if t = 3 then (case commute n_frames (o_ctrl s) (o_sel s) (o_swi s, o_outs s) of (r, (z, xs)) \<Rightarrow>
        (r, s\<lparr>o_swi := z, o_outs := xs\<rparr>))
      else if t = 4 then (Inr 0, s\<lparr>o_ins := (o_ins s)[0 := body (o_outs s ! 0)]\<rparr>)
      else (Inr 0, s\<lparr>o_final := o_final s @ [o_outs s ! 1]\<rparr>))"

text \<open>The state between two visits of the \<^verbatim>\<open>select\<close>: \<open>p\<close> is the path of the switcher, \<open>c\<close> the counter of the iterator.\<close>

definition loop_at :: "nat \<Rightarrow> nat \<Rightarrow> nat \<Rightarrow> nat \<Rightarrow> nat \<Rightarrow> loop \<Rightarrow> bool" where
  "loop_at n_frames bytes limit p c s \<longleftrightarrow> o_swi s = \<lparr>w_n_data_sockets = 2, w_n_bytes_commute = bytes, w_n_bytes_select = bytes,
       w_path = p, w_no_copy_commute = False, w_no_copy_select = False\<rparr> \<and>
     o_iter s = \<lparr>r_limit = limit, r_counter = c\<rparr> \<and> length (o_ins s) = 2 \<and> length (o_outs s) = 2 \<and>
     length (o_sel s) = n_frames * bytes \<and> (\<forall>xs \<in> set (o_outs s). length xs = n_frames * bytes)"

lemma loop_nodes:
  "contents_of loop_graph 0 = Some (new_subseq\<lparr>ss_type := STD, ss_tasks := [0]\<rparr>)" "children_of loop_graph 0 = [1]"
  "contents_of loop_graph 1 = Some (new_subseq\<lparr>ss_type := SELECT, ss_tasks := [1, 2]\<rparr>)" "children_of loop_graph 1 = [2]"
  "contents_of loop_graph 2 = Some (new_subseq\<lparr>ss_type := COMMUTE, ss_tasks := [3]\<rparr>)" "children_of loop_graph 2 = [3, 4]"
  "contents_of loop_graph 3 = Some (new_subseq\<lparr>ss_type := STD, ss_tasks := [4]\<rparr>)" "children_of loop_graph 3 = [1]"
  "contents_of loop_graph 4 = Some (new_subseq\<lparr>ss_type := STD, ss_tasks := [5]\<rparr>)" "children_of loop_graph 4 = []"
  by (simp_all add: loop_graph_def Let_def)

lemmas loop_simps = loop_nodes loop_nodes [unfolded One_nat_def] node_walk_def run_one_def loop_run_def

lemma walk_on: "node_walk run G n s = (Inr ns, s') \<Longrightarrow> walk run G (n # rest) s = walk run G (ns @ rest) s'"
  by (subst walk.simps) simp

text \<open>One visit of the \<^verbatim>\<open>select\<close> and of the \<^verbatim>\<open>commute\<close>: the selected data goes to the output of the new path.\<close>

lemma loop_visit:
  assumes at: "loop_at n b limit p c s" and p: "p < 2" "length (o_ins s ! p) = n * b" and c: "c \<le> limit" "limit < 2 ^ 64 - 1"
    and q: "q = (if c < limit then 0 else 1)"
  shows "\<exists>s'. walk (loop_run n src body) loop_graph [1] s = walk (loop_run n src body) loop_graph [3 + q] s' \<and>
    loop_at n b limit q (if c < limit then c + 1 else 0) s' \<and> o_outs s' ! q = o_ins s ! p \<and> o_ins s' = o_ins s \<and> o_final s' = o_final s"
proof -
  let ?run = "loop_run n src body" and ?x = "o_ins s ! p"
  let ?c = "if c < limit then c + 1 else 0"
  note at' = at [unfolded loop_at_def]
  have sel: "select n (o_ins s) (o_swi s, o_sel s) = (Inr 0, (o_swi s, ?x))" using at' p by (simp add: select_def)
  have it: "iterate (o_iter s) = (Inr (int q), (o_iter s)\<lparr>r_counter := ?c\<rparr>)"
    using at' c iterate_step [of "o_iter s"] by (simp add: q)
  let ?s1 = "s\<lparr>o_sel := ?x, o_iter := (o_iter s)\<lparr>r_counter := ?c\<rparr>, o_ctrl := int q\<rparr>"
  have s1: "node_walk ?run loop_graph 1 s = (Inr [2], ?s1)"
    using it by (simp add: loop_simps sel)
  let ?z = "(o_swi s)\<lparr>w_path := q\<rparr>" and ?s2 = "?s1\<lparr>o_swi := (o_swi s)\<lparr>w_path := q\<rparr>, o_outs := (o_outs s)[q := ?x]\<rparr>"
  have q2: "q < 2" by (simp add: q)
  have com: "commute n (int q) ?x (o_swi s, o_outs s) = (Inr (int q), (?z, (o_outs s)[q := ?x]))"
    using at' p q2 by (simp add: commute_def Let_def set_path_def)
  have s2: "node_walk ?run loop_graph 2 ?s1 = (Inr [[3, 4] ! q], ?s2)"
    using com q2 by (simp add: loop_simps)
  have "[3, 4] ! q = 3 + q" using q2 by (auto simp: less_2_cases_iff)
  then have "walk ?run loop_graph [1] s = walk ?run loop_graph [3 + q] ?s2" using walk_on [OF s1, of "[]"] walk_on [OF s2, of "[]"] by simp
  moreover have "loop_at n b limit q ?c ?s2"
    using at' p q2 by (auto simp: loop_at_def dest!: set_update_subset_insert [THEN subsetD])
  ultimately show ?thesis using at' q2 by (intro exI [of _ ?s2]) simp
qed

lemma loop_from_select:
  assumes body: "\<And>x. length x = n * b \<Longrightarrow> length (body x) = n * b" and limit: "limit < 2 ^ 64 - 1"
  shows "loop_at n b limit p c s \<Longrightarrow> p < 2 \<Longrightarrow> length (o_ins s ! p) = n * b \<Longrightarrow> k = limit - c \<Longrightarrow> c \<le> limit \<Longrightarrow>
    \<exists>s'. walk (loop_run n src body) loop_graph [1] s = Some (Inr (), s') \<and> loop_at n b limit 1 0 s' \<and>
      o_final s' = o_final s @ [(body ^^ k) (o_ins s ! p)]"
proof (induction k arbitrary: c p s)
  case 0
  then have c: "c = limit" by simp
  obtain s2 where 2: "walk (loop_run n src body) loop_graph [1] s = walk (loop_run n src body) loop_graph [4] s2"
    "loop_at n b limit 1 0 s2" "o_outs s2 ! 1 = o_ins s ! p" "o_final s2 = o_final s"
    using loop_visit [OF 0(1-3,5) limit refl, of src body] c by auto
  let ?s3 = "s2\<lparr>o_final := o_final s2 @ [o_ins s ! p]\<rparr>"
  have "node_walk (loop_run n src body) loop_graph 4 s2 = (Inr [], ?s3)"
    using 2(3) by (simp add: loop_simps)
  then have "walk (loop_run n src body) loop_graph [4] s2 = Some (Inr (), ?s3)"
    using walk_on [where rest = "[]"] by (subst walk.simps) (simp add: walk.simps)
  with 2 show ?case by (intro exI [of _ ?s3]) (simp add: loop_at_def)
next
  case (Suc k)
  then have c: "c < limit" by simp
  obtain s2 where 2: "walk (loop_run n src body) loop_graph [1] s = walk (loop_run n src body) loop_graph [3] s2"
    "loop_at n b limit 0 (c + 1) s2" "o_outs s2 ! 0 = o_ins s ! p" "o_ins s2 = o_ins s" "o_final s2 = o_final s"
    using loop_visit [OF Suc.prems(1-3,5) limit refl, of src body] c by auto
  let ?s3 = "s2\<lparr>o_ins := (o_ins s2)[0 := body (o_ins s ! p)]\<rparr>"
  have "node_walk (loop_run n src body) loop_graph 3 s2 = (Inr [1], ?s3)"
    using 2(3) by (simp add: loop_simps)
  then have 3: "walk (loop_run n src body) loop_graph [3] s2 = walk (loop_run n src body) loop_graph [1] ?s3"
    using walk_on [where rest = "[]"] by fastforce
  have at: "loop_at n b limit 0 (c + 1) ?s3" using 2(2) by (simp add: loop_at_def)
  have ins: "o_ins ?s3 ! 0 = body (o_ins s ! p)" using 2(2,4) by (auto simp: loop_at_def)
  then have "length (o_ins ?s3 ! 0) = n * b" using body Suc.prems(3) by simp
  moreover have "k = limit - (c + 1)" "c + 1 \<le> limit" using Suc.prems(4) c by simp_all
  ultimately obtain s' where "walk (loop_run n src body) loop_graph [1] ?s3 = Some (Inr (), s')"
    "loop_at n b limit 1 0 s'" "o_final s' = o_final ?s3 @ [(body ^^ k) (o_ins ?s3 ! 0)]" using Suc.IH [OF at zero_less_numeral] by blast
  with 2 3 ins show ?case by (auto simp: funpow_swap1)
qed

text \<open>
  C17: The for loop of the tests: whatever the limit of the iterator (but the largest number) and the body, a round of the
  sequence ends, runs the body exactly \<open>limit\<close> times on the data of the initializer, gives the result to the finalizer
  once, and leaves the iterator and the switcher as they were before the round, so that the next round does the same.
\<close>

theorem for_loop_runs_limit_times:
  assumes "\<And>x. length x = n * b \<Longrightarrow> length (body x) = n * b" and "limit < 2 ^ 64 - 1" and "loop_at n b limit 1 0 s"
    and "length src = n * b"
  shows "\<exists>s'. walk (loop_run n src body) loop_graph [0] s = Some (Inr (), s') \<and> loop_at n b limit 1 0 s' \<and>
    o_final s' = o_final s @ [(body ^^ limit) src]"
proof -
  let ?s1 = "s\<lparr>o_ins := (o_ins s)[1 := src]\<rparr>"
  have "node_walk (loop_run n src body) loop_graph 0 s = (Inr [1], ?s1)"
    by (simp add: loop_simps)
  then have "walk (loop_run n src body) loop_graph [0] s = walk (loop_run n src body) loop_graph [1] ?s1"
    using walk_on [where rest = "[]"] by fastforce
  moreover have at: "loop_at n b limit 1 0 ?s1" and ins: "o_ins ?s1 ! 1 = src" using assms(3) by (auto simp: loop_at_def)
  moreover have "length (o_ins ?s1 ! 1) = n * b" using ins assms(4) by simp
  ultimately show ?thesis
    using loop_from_select [where n = n and b = b and body = body and limit = limit and src = src and p = 1 and c = 0 and s = ?s1 and k = limit,
        OF assms(1,2) at _ _ _ ] ins by auto
qed

definition loop_start :: loop where
  "loop_start = \<lparr>o_iter = new_iterator 3, o_swi = new_switcher 2 2 2, o_ctrl = 0, o_ins = [[0, 0], [0, 0]], o_sel = [0, 0],
     o_outs = [[0, 0], [0, 0]], o_final = []\<rparr>"

lemma for_loop_runs_limit_times_witness:
  "\<exists>s'. walk (loop_run 1 [5, 9] (map (\<lambda>x. x + 1))) loop_graph [0] loop_start = Some (Inr (), s') \<and> loop_at 1 2 3 1 0 s' \<and>
    o_final s' = o_final loop_start @ [(map (\<lambda>x. x + 1) ^^ 3) [5, 9]]"
  by (rule for_loop_runs_limit_times) (auto simp: loop_at_def loop_start_def new_iterator_def new_switcher_def)

end
