(* ===== verification/Pinning.thy ===== *)
theory Pinning
  imports Strings
begin

text \<open>
  The syntax of the pinning of the threads (\<^verbatim>\<open>Thread_pinning_utils.cpp\<close>): stages separated by \<^verbatim>\<open>|\<close>, threads by
  \<^verbatim>\<open>;\<close>, objects by \<^verbatim>\<open>,\<close>, an object being a name of \<^verbatim>\<open>object_map\<close>, an underscore and a number. The spaces are skipped.
\<close>

section \<open>The parsers\<close>

text \<open>The loop of the three parsers: \<open>tmp\<close> is the piece that is being read.\<close>

fun split_loop :: "char \<Rightarrow> string \<Rightarrow> string \<Rightarrow> string list" where
  "split_loop sep tmp [] = [tmp]"
| "split_loop sep tmp (c # cs) =
     (if c = sep then tmp # split_loop sep [] cs
      else if c \<noteq> CHR '' '' then split_loop sep (tmp @ [c]) cs
      else split_loop sep tmp cs)"

text \<open>A single piece is given to all the \<open>n\<close> stages or threads.\<close>

definition unpack_pieces :: "string list \<Rightarrow> nat \<Rightarrow> exn + string list" where
  "unpack_pieces vs n = (if length vs = 1 \<and> n > 1 then Inr (vs @ replicate (n - 1) (vs ! 0))
     else if length vs \<noteq> n then Inl Runtime_error else Inr vs)"

definition pipeline_parser_unpacker :: "string \<Rightarrow> nat \<Rightarrow> exn + string list" where
  "pipeline_parser_unpacker s number_of_stages = unpack_pieces (split_loop CHR ''|'' [] s) number_of_stages"

definition stage_parser_unpacker :: "string \<Rightarrow> nat \<Rightarrow> exn + string list" where
  "stage_parser_unpacker s number_of_threads = unpack_pieces (split_loop CHR '';'' [] s) number_of_threads"

definition thread_parser :: "string \<Rightarrow> string list" where
  "thread_parser s = split_loop CHR '','' [] s"

text \<open>
  \<^verbatim>\<open>std::stoi\<close>: white space, a sign, the longest run of digits; without digits, or when the value does not fit in an
  \<^verbatim>\<open>int\<close>, an exception of the library.
\<close>

definition is_space :: "char \<Rightarrow> bool" where
  "is_space c \<longleftrightarrow> c = CHR '' '' \<or> (9 \<le> (of_char c :: nat) \<and> (of_char c :: nat) \<le> 13)"

definition read_sign :: "string \<Rightarrow> int \<times> string" where
  "read_sign s = (case s of [] \<Rightarrow> (1, []) | c # cs \<Rightarrow>
     if c = CHR ''-'' then (-1, cs) else if c = CHR ''+'' then (1, cs) else (1, s))"

definition stoi :: "string \<Rightarrow> exn + int" where
  "stoi s = (case read_sign (dropWhile is_space s) of (sg, r) \<Rightarrow> let ds = takeWhile is_digit r; v = sg * int (read_nat ds) in
     if ds = [] then Inl Other_exn else if v < - (2 ^ 31) \<or> 2 ^ 31 \<le> v then Inl Other_exn else Inr v)"

text \<open>The types of the objects of \<^verbatim>\<open>hwloc\<close> the names stand for.\<close>

datatype hwloc_obj_type =
    HWLOC_OBJ_MACHINE | HWLOC_OBJ_NUMANODE | HWLOC_OBJ_PACKAGE | HWLOC_OBJ_CORE | HWLOC_OBJ_PU | HWLOC_OBJ_L1CACHE
  | HWLOC_OBJ_L2CACHE | HWLOC_OBJ_L3CACHE | HWLOC_OBJ_L4CACHE | HWLOC_OBJ_L5CACHE | HWLOC_OBJ_L1ICACHE
  | HWLOC_OBJ_L2ICACHE | HWLOC_OBJ_L3ICACHE | HWLOC_OBJ_GROUP

definition object_map :: "(string \<times> hwloc_obj_type) list" where
  "object_map =
     [(''MACHINE'', HWLOC_OBJ_MACHINE), (''NUMA'', HWLOC_OBJ_NUMANODE), (''PACKAGE'', HWLOC_OBJ_PACKAGE),
      (''CORE'', HWLOC_OBJ_CORE), (''PU'', HWLOC_OBJ_PU), (''L1D'', HWLOC_OBJ_L1CACHE),
      (''L2D'', HWLOC_OBJ_L2CACHE), (''L3D'', HWLOC_OBJ_L3CACHE), (''L4D'', HWLOC_OBJ_L4CACHE),
      (''L5D'', HWLOC_OBJ_L5CACHE), (''L1I'', HWLOC_OBJ_L1ICACHE), (''L2I'', HWLOC_OBJ_L2ICACHE),
      (''L3I'', HWLOC_OBJ_L3ICACHE), (''GROUP'', HWLOC_OBJ_GROUP)]"

text \<open>
  \<^verbatim>\<open>std::getline\<close> up to an underscore: the item and what is left, \<open>None\<close> when the end of the stream was reached. At the
  end of the stream a second call leaves the item as it was.
\<close>

definition get_item :: "string \<Rightarrow> string \<times> string option" where
  "get_item s = (takeWhile (\<lambda>c. c \<noteq> CHR ''_'') s,
     case dropWhile (\<lambda>c. c \<noteq> CHR ''_'') s of [] \<Rightarrow> None | _ # r \<Rightarrow> Some r)"

definition str_to_hwloc_object :: "string \<Rightarrow> exn + hwloc_obj_type \<times> int" where
  "str_to_hwloc_object s = (case get_item s of (item, rest) \<Rightarrow>
     case map_of object_map item of None \<Rightarrow> Inl Invalid_argument
     | Some ty \<Rightarrow> let item2 = (case rest of None \<Rightarrow> item | Some r \<Rightarrow> fst (get_item r)) in
         and_then (stoi item2) (\<lambda>k. Inr (ty, k)))"

text \<open>The objects a thread is pinned to (\<^verbatim>\<open>Thread_pinning::pin\<close>, up to the calls of \<^verbatim>\<open>hwloc\<close>).\<close>

fun map_res :: "('a \<Rightarrow> exn + 'b) \<Rightarrow> 'a list \<Rightarrow> exn + 'b list" where
  "map_res f [] = Inr []"
| "map_res f (x # xs) = and_then (f x) (\<lambda>y. and_then (map_res f xs) (\<lambda>ys. Inr (y # ys)))"

definition pin_objects :: "string \<Rightarrow> exn + (hwloc_obj_type \<times> int) list" where
  "pin_objects s = map_res str_to_hwloc_object (thread_parser s)"

section \<open>Printed pieces are read back\<close>

definition strip :: "string \<Rightarrow> string" where
  "strip s = filter (\<lambda>c. c \<noteq> CHR '' '') s"

lemma strip_simps [simp]: "strip [] = []" "strip (c # s) = (if c = CHR '' '' then strip s else c # strip s)"
    "strip (s @ t) = strip s @ strip t" "strip (strip s) = strip s"
  by (simp_all add: strip_def)

lemma set_strip: "set (strip s) = set s - {CHR '' ''}"
  by (auto simp: strip_def)

fun join :: "string \<Rightarrow> string list \<Rightarrow> string" where
  "join sep [] = []"
| "join sep [x] = x"
| "join sep (x # y # xs) = x @ sep @ join sep (y # xs)"

text \<open>The loops of the code write the separator before every piece but the first.\<close>

lemma join_map_upt:
  "concat (map (\<lambda>i. (if i = 0 then '''' else sep) @ f i) [0..<n]) = join sep (map f [0..<n])"
proof -
  have later: "concat (map (\<lambda>i. (if i = 0 then '''' else sep) @ f i) [Suc a..<b]) = concat (map (\<lambda>x. sep @ x) (map f [Suc a..<b]))"
    for a b by (intro arg_cong [of _ _ concat]) auto
  have join: "join sep (x # xs) = x @ concat (map (\<lambda>x. sep @ x) xs)" for x xs
    by (induction xs arbitrary: x) auto
  show ?thesis
  proof (cases n)
    case (Suc k)
    then show ?thesis by (simp add: upt_conv_Cons join later del: upt_Suc)
  qed simp
qed

lemma set_join: "set (join sep xs) \<subseteq> set sep \<union> (\<Union>x \<in> set xs. set x)"
  by (induction sep xs rule: join.induct) auto

lemma split_loop_piece: "sep \<notin> set x \<Longrightarrow> split_loop sep tmp (x @ rest) = split_loop sep (tmp @ strip x) rest"
  by (induction x arbitrary: tmp) auto

lemma split_loop_blank: "strip b = [] \<Longrightarrow> sep \<noteq> CHR '' '' \<Longrightarrow> split_loop sep tmp (b @ rest) = split_loop sep tmp rest"
  by (induction b) (auto split: if_splits)

lemma split_join:
  assumes "\<forall>x \<in> set xs. sep \<notin> set x" and "xs \<noteq> []" and "sep \<noteq> CHR '' ''" and "strip a = []" and "strip b = []"
  shows "split_loop sep [] (join (a @ sep # b) xs) = map strip xs"
  using assms(1,2)
proof (induction "a @ sep # b" xs rule: join.induct)
  case (2 x)
  then show ?case using split_loop_piece [of sep x "[]" "[]"] by simp
next
  case (3 x y xs)
  have "split_loop sep [] (join (a @ sep # b) (x # y # xs)) = split_loop sep (strip x) (a @ sep # b @ join (a @ sep # b) (y # xs))"
    using 3(2) split_loop_piece [of sep x "[]"] by simp
  also have "\<dots> = strip x # split_loop sep [] (join (a @ sep # b) (y # xs))"
    using assms(3-5) by (simp add: split_loop_blank)
  finally show ?case using 3 by simp
qed simp

text \<open>Only the spaces of a piece are lost, so a piece can be printed again.\<close>

lemma split_join_exact:
  assumes "\<forall>x \<in> set xs. sep \<notin> set x \<and> CHR '' '' \<notin> set x" and "xs \<noteq> []" and "sep \<noteq> CHR '' ''" and "strip a = []" and "strip b = []"
  shows "split_loop sep [] (join (a @ sep # b) xs) = xs"
proof -
  have "strip x = x" if "x \<in> set xs" for x
    using that assms(1) by (auto simp: strip_def filter_id_conv)
  then show ?thesis using split_join [OF _ assms(2-5)] assms(1) by (simp add: map_idI)
qed

lemma strip_join: "strip (join sep xs) = join (strip sep) (map strip xs)"
  by (induction sep xs rule: join.induct) auto

lemma unpack_exact: "length vs = n \<Longrightarrow> unpack_pieces vs n = Inr vs"
  by (auto simp: unpack_pieces_def)

lemma unpack_single: "0 < n \<Longrightarrow> unpack_pieces [v] n = Inr (replicate n v)"
  by (cases n) (auto simp: unpack_pieces_def)

lemma unpack_pieces_length: "unpack_pieces vs n = Inr us \<Longrightarrow> length us = n"
  by (auto simp: unpack_pieces_def split: if_splits)

text \<open>The characters of a number.\<close>

lemma digits_plain: "list_all is_digit s \<Longrightarrow> c \<in> set s \<Longrightarrow> c \<noteq> CHR '' '' \<and> c \<noteq> CHR '','' \<and> c \<noteq> CHR '';'' \<and> c \<noteq> CHR ''|'' \<and> c \<noteq> CHR ''_''
    \<and> c \<noteq> CHR ''-'' \<and> c \<noteq> CHR ''+''"
  by (auto simp: list_all_iff is_digit_def)

lemma takeWhile_all: "list_all P s \<Longrightarrow> takeWhile P s = s"
  by (auto simp: list_all_iff intro: takeWhile_eq_all_conv [THEN iffD2])

lemma is_digit_not_space: "is_digit c \<Longrightarrow> \<not> is_space c"
  by (auto simp: is_digit_def is_space_def)

lemma stoi_number: "n < 2 ^ 31 \<Longrightarrow> stoi (nat_to_string n) = Inr (int n)"
proof -
  assume n: "n < 2 ^ 31"
  obtain c cs where s: "nat_to_string n = c # cs" using nat_to_string_nonempty by (cases "nat_to_string n") blast+
  have d: "list_all is_digit (nat_to_string n)" by (rule nat_to_string_digits)
  then have "dropWhile is_space (nat_to_string n) = nat_to_string n" "read_sign (nat_to_string n) = (1, nat_to_string n)"
    using is_digit_not_space [of c] digits_plain [OF d, of c] by (auto simp: s read_sign_def)
  with n d show ?thesis by (simp add: stoi_def takeWhile_all Let_def)
qed

lemma pu_object: "n < 2 ^ 31 \<Longrightarrow> str_to_hwloc_object (''PU_'' @ nat_to_string n) = Inr (HWLOC_OBJ_PU, int n)"
proof -
  assume n: "n < 2 ^ 31"
  have "takeWhile (\<lambda>c. c \<noteq> CHR ''_'') (nat_to_string n) = nat_to_string n"
    using digits_plain [OF nat_to_string_digits] by (intro takeWhile_eq_all_conv [THEN iffD2]) blast
  then show ?thesis by (simp add: str_to_hwloc_object_def get_item_def object_map_def stoi_number [OF n] del: takeWhile_eq_all_conv)
qed

lemma machine_object: "str_to_hwloc_object ''MACHINE_0'' = Inr (HWLOC_OBJ_MACHINE, 0)"
proof -
  have "nat_to_string 0 = ''0''" by (subst nat_to_string.simps) code_simp
  with stoi_number [of 0] have "stoi ''0'' = Inr 0" by simp
  then show ?thesis by (simp add: str_to_hwloc_object_def get_item_def object_map_def)
qed

text \<open>An object without a number, and the mark of a stage that is not pinned.\<close>

lemma bare_name_is_refused: "str_to_hwloc_object ''PU'' = Inl Other_exn" "str_to_hwloc_object ''NO_PIN'' = Inl Invalid_argument"
  by (simp_all add: str_to_hwloc_object_def get_item_def object_map_def stoi_def read_sign_def is_space_def is_digit_def)

end
