(* ===== verification/Scheduler_File.thy ===== *)
theory Scheduler_File
  imports Schedulers Pinning "HOL-Library.Multiset"
begin

text \<open>
  The scheduler that reads its solution in a file (\<^verbatim>\<open>Scheduler_from_file.cpp\<close>): the two versions of the format, the
  units each stage gets from the lists of the file, and the mapping of the threads that \<^verbatim>\<open>Pipeline\<close> parses
  (\<^verbatim>\<open>Pinning\<close>).

  The library that reads the file (\<^verbatim>\<open>nlohmann::json\<close>) is an argument: \<open>'j\<close> is its type of values and \<open>json_lib\<close> the
  calls the code makes. \<open>j_items\<close> gives the elements of an array, the ones of \<^verbatim>\<open>size()\<close>, of \<open>[d]\<close> and of an
  iteration; the conversions throw when the value has an other type. The topology of \<^verbatim>\<open>hwloc\<close> is an argument as well:
  \<open>None\<close> when the library is not linked, else the children of a core, each with its logical index and whether it is a
  processing unit, \<open>None\<close> for a core that does not exist.
\<close>

section \<open>State\<close>

record 'j json_lib =
  j_contains :: "'j \<Rightarrow> string \<Rightarrow> bool"
  j_field :: "'j \<Rightarrow> string \<Rightarrow> 'j"
  j_items :: "'j \<Rightarrow> 'j list"
  j_is_array :: "'j \<Rightarrow> bool"
  j_is_unsigned :: "'j \<Rightarrow> bool"
  j_is_integer :: "'j \<Rightarrow> bool"
  j_is_string :: "'j \<Rightarrow> bool"
  j_size_t :: "'j \<Rightarrow> exn + nat"
  j_int :: "'j \<Rightarrow> exn + int"
  j_string :: "'j \<Rightarrow> exn + string"

type_synonym topology = "(nat \<Rightarrow> (bool \<times> nat) list option) option"

record from_file =
  ff_version :: nat
  ff_solution :: solution
  ff_buffs :: "nat list"
  ff_waits :: "bool list"
  ff_puids :: "nat list list"
  ff_p_list :: "nat list list"
  ff_e_list :: "nat list list"
  ff_policy :: "string list"

definition new_from_file :: "nat \<Rightarrow> from_file" where
  "new_from_file version = \<lparr>ff_version = version, ff_solution = [], ff_buffs = [], ff_waits = [], ff_puids = [],
     ff_p_list = [], ff_e_list = [], ff_policy = []\<rparr>"

text \<open>A check that throws.\<close>

definition require :: "bool \<Rightarrow> exn + unit" where
  "require b = (if b then Inr () else Inl Runtime_error)"

text \<open>\<^verbatim>\<open>resize(size() - 1, x)\<close>: the subtraction wraps on an empty array and the vector throws.\<close>

definition links_vector :: "nat \<Rightarrow> 'a \<Rightarrow> exn + 'a list" where
  "links_vector n x = (if n = 0 then Inl Other_exn else Inr (replicate (n - 1) x))"

fun over_entries :: "(nat \<Rightarrow> 'j \<Rightarrow> 's \<Rightarrow> exn + 's) \<Rightarrow> nat \<Rightarrow> 'j list \<Rightarrow> 's \<Rightarrow> exn + 's" where
  "over_entries f d [] s = Inr s"
| "over_entries f d (e # es) s = and_then (f d e s) (over_entries f (Suc d) es)"

section \<open>The first format\<close>

definition v1_cores :: "'j json_lib \<Rightarrow> nat \<Rightarrow> nat \<Rightarrow> 'j \<Rightarrow> from_file \<Rightarrow> exn + from_file \<times> nat" where
  "v1_cores J n d e f = (let c = j_field J e ''cores'' in
     if j_is_array J c
     then (let puids = (if ff_puids f = [] then replicate n [] else ff_puids f) in
       and_then (map_res (j_size_t J) (j_items J c)) (\<lambda>us.
         if d < length puids then Inr (f\<lparr>ff_puids := puids[d := us]\<rparr>, length (j_items J c)) else Inl UB))
     else if j_is_unsigned J c then and_then (j_size_t J c) (\<lambda>r. Inr (f, r))
     else Inl Runtime_error)"

definition v1_buff :: "'j json_lib \<Rightarrow> nat \<Rightarrow> nat \<Rightarrow> 'j \<Rightarrow> from_file \<Rightarrow> exn + from_file" where
  "v1_buff J n d e f = (if \<not> j_contains J e ''sync_buff_size'' then Inr f
     else and_then (require (d \<noteq> n - 1)) (\<lambda>_. let b = j_field J e ''sync_buff_size'' in
       and_then (require (j_is_unsigned J b)) (\<lambda>_. and_then (j_size_t J b) (\<lambda>k.
         if d < length (ff_buffs f) then Inr (f\<lparr>ff_buffs := (ff_buffs f)[d := k]\<rparr>) else Inl UB))))"

text \<open>The two formats read the waiting type alike.\<close>

definition entry_waiting :: "'j json_lib \<Rightarrow> nat \<Rightarrow> nat \<Rightarrow> 'j \<Rightarrow> from_file \<Rightarrow> exn + from_file" where
  "entry_waiting J n d e f = (if \<not> j_contains J e ''sync_waiting_type'' then Inr f
     else and_then (require (d \<noteq> n - 1)) (\<lambda>_. let t = j_field J e ''sync_waiting_type'' in
       and_then (require (j_is_string J t)) (\<lambda>_. and_then (j_string J t) (\<lambda>w.
         and_then (require (w = ''active'' \<or> w = ''passive'')) (\<lambda>_.
           if w \<noteq> ''active'' then Inr f
           else if d < length (ff_waits f) then Inr (f\<lparr>ff_waits := (ff_waits f)[d := True]\<rparr>) else Inl UB)))))"

definition v1_stage :: "'j json_lib \<Rightarrow> nat \<Rightarrow> nat \<Rightarrow> 'j \<Rightarrow> from_file \<times> nat \<Rightarrow> exn + from_file \<times> nat" where
  "v1_stage J n d e v = (case v of (f, n_tasks_json) \<Rightarrow>
     and_then (require (j_contains J e ''cores'')) (\<lambda>_. and_then (require (j_contains J e ''tasks'')) (\<lambda>_.
     and_then (v1_cores J n d e f) (\<lambda>(f1, r). let t = j_field J e ''tasks'' in
     and_then (require (j_is_unsigned J t)) (\<lambda>_. and_then (j_size_t J t) (\<lambda>k.
     and_then (v1_buff J n d e (f1\<lparr>ff_solution := ff_solution f1 @ [(k, r)]\<rparr>)) (\<lambda>f2.
     and_then (entry_waiting J n d e f2) (\<lambda>f3. Inr (f3, (n_tasks_json + k) mod 2 ^ 64)))))))))"

text \<open>\<open>n_tasks\<close> is the number of tasks of the first thread of the sequence (\<^verbatim>\<open>get_tasks_per_threads()[0]\<close>).\<close>

definition contsruct_policy_v1 :: "'j json_lib \<Rightarrow> 'j \<Rightarrow> nat \<Rightarrow> from_file \<Rightarrow> exn + from_file" where
  "contsruct_policy_v1 J data n_tasks f =
     and_then (require (j_contains J data ''schedule'')) (\<lambda>_. let sched = j_field J data ''schedule'' in
     and_then (require (j_is_array J sched)) (\<lambda>_. let es = j_items J sched; n = length es in
     and_then (links_vector n 1) (\<lambda>bs. and_then (links_vector n False) (\<lambda>ws.
     and_then (over_entries (v1_stage J n) 0 es (f\<lparr>ff_buffs := bs, ff_waits := ws\<rparr>, 0)) (\<lambda>(f1, k).
     and_then (require (k = n_tasks)) (\<lambda>_. Inr f1))))))"

section \<open>The second format: the units\<close>

definition get_pu_from_core :: "(nat \<Rightarrow> (bool \<times> nat) list option) \<Rightarrow> nat \<Rightarrow> exn + nat list" where
  "get_pu_from_core hw core = (case hw core of None \<Rightarrow> Inl Runtime_error | Some cs \<Rightarrow> Inr (map snd (filter fst cs)))"

text \<open>
  The four regular expressions: a prefix, then digits, or digits, a dash and digits, up to the end of the string.
\<close>

definition after_prefix :: "string \<Rightarrow> string \<Rightarrow> string option" where
  "after_prefix p s = (if take (length p) s = p then Some (drop (length p) s) else None)"

definition match_single :: "string \<Rightarrow> string \<Rightarrow> string option" where
  "match_single p s = (case after_prefix p s of None \<Rightarrow> None | Some r \<Rightarrow> if r \<noteq> [] \<and> list_all is_digit r then Some r else None)"

definition match_range :: "string \<Rightarrow> string \<Rightarrow> (string \<times> string) option" where
  "match_range p s = (case after_prefix p s of None \<Rightarrow> None | Some r \<Rightarrow>
     let a = takeWhile is_digit r in (case drop (length a) r of c # b \<Rightarrow>
       if a \<noteq> [] \<and> c = CHR ''-'' \<and> b \<noteq> [] \<and> list_all is_digit b then Some (a, b) else None | [] \<Rightarrow> None))"

definition get_node_pus_from_node :: "topology \<Rightarrow> string \<Rightarrow> exn + nat list list" where
  "get_node_pus_from_node hw s = (case match_single ''PU'' s of
       Some a \<Rightarrow> and_then (stoi a) (\<lambda>i. Inr [[size_cast i]])
     | None \<Rightarrow> (case match_range ''PU'' s of
       Some (a, b) \<Rightarrow> and_then (stoi a) (\<lambda>i. and_then (stoi b) (\<lambda>j. Inr (map (\<lambda>u. [u]) [size_cast i..<Suc (size_cast j)])))
     | None \<Rightarrow> (case match_single ''core'' s of
       Some a \<Rightarrow> (case hw of None \<Rightarrow> Inl Runtime_error
         | Some h \<Rightarrow> and_then (stoi a) (\<lambda>i. and_then (get_pu_from_core h (size_cast i)) (\<lambda>us. Inr [us])))
     | None \<Rightarrow> (case match_range ''core'' s of
       Some (a, b) \<Rightarrow> (case hw of None \<Rightarrow> Inl Runtime_error
         | Some h \<Rightarrow> and_then (stoi a) (\<lambda>i. and_then (stoi b) (\<lambda>j.
             map_res (get_pu_from_core h) [size_cast i..<Suc (size_cast j)])))
     | None \<Rightarrow> Inl Runtime_error))))"

definition int_to_string :: "int \<Rightarrow> string" where
  "int_to_string i = (if i < 0 then ''-'' @ nat_to_string (nat (- i)) else nat_to_string (nat i))"

definition node_pus :: "'j json_lib \<Rightarrow> topology \<Rightarrow> 'j \<Rightarrow> exn + nat list list" where
  "node_pus J hw node = (if j_is_string J node then and_then (j_string J node) (get_node_pus_from_node hw)
     else if j_is_integer J node then and_then (j_int J node) (\<lambda>i. get_node_pus_from_node hw (''PU'' @ int_to_string i))
     else Inl Runtime_error)"

text \<open>
  One pass over the list for a further hardware thread of the cores: each core with more than one unit left gives its
  second one to a new entry at the end, which the pass reaches too.
\<close>

definition n_long :: "nat list list \<Rightarrow> nat" where
  "n_long l = length (filter (\<lambda>x. 1 < length x) l)"

lemma n_long_step: "j < length l \<Longrightarrow> 1 < length (l ! j) \<Longrightarrow> n_long (drop (Suc j) (l[j := x] @ [[u]])) < n_long (drop j l)"
  by (simp add: n_long_def Cons_nth_drop_Suc [symmetric] drop_update_swap)

lemma n_long_skip: "n_long (drop (Suc j) l) \<le> n_long (drop j l)"
  by (cases "j < length l") (simp_all add: n_long_def Cons_nth_drop_Suc [symmetric])

function smt_pass :: "nat \<Rightarrow> nat list list \<Rightarrow> nat list list" where
  "smt_pass j l = (if j < length l
     then (if 1 < length (l ! j) then smt_pass (Suc j) (l[j := del_at 1 (l ! j)] @ [[l ! j ! 1]]) else smt_pass (Suc j) l)
     else l)"
  by pat_completeness auto
termination
proof (relation "measure (\<lambda>(j, l). length l - j + n_long (drop j l))")
  show "((Suc j, l[j := del_at 1 (l ! j)] @ [[l ! j ! 1]]), (j, l)) \<in> measure (\<lambda>(j, l). length l - j + n_long (drop j l))"
    if "j < length l" "1 < length (l ! j)" for j l
    using that n_long_step [OF that, of "del_at 1 (l ! j)" "l ! j ! 1"] by (simp add: diff_less_mono)
  show "((Suc j, l), (j, l)) \<in> measure (\<lambda>(j, l). length l - j + n_long (drop j l))" if "j < length l" for j l
    using that n_long_skip [of j l] by simp
qed simp

declare smt_pass.simps [simp del]

definition spread_smt :: "nat \<Rightarrow> nat list list \<Rightarrow> nat list list" where
  "spread_smt smt l = (if 1 < smt then (smt_pass 0 ^^ (smt - 1)) l else l)"

definition pu_list :: "'j json_lib \<Rightarrow> topology \<Rightarrow> nat \<Rightarrow> 'j \<Rightarrow> exn + nat list list" where
  "pu_list J hw smt nodes = and_then (map_res (node_pus J hw) (j_items J nodes)) (\<lambda>vs. Inr (spread_smt smt (concat vs)))"

section \<open>The second format: the policies\<close>

text \<open>
  Both loops take the first unit of an entry of the list and drop an entry that is empty. \<open>packed\<close> goes on with the next
  entry, \<open>distant\<close> alternates between two halves of the list. The index of \<open>packed\<close> wraps when the first entry is dropped.
\<close>

definition take_unit :: "nat \<Rightarrow> nat list list \<Rightarrow> nat \<times> nat list list" where
  "take_unit i l = (hd (l ! i), if tl (l ! i) = [] then del_at i l else l[i := tl (l ! i)])"

fun packed_loop :: "nat \<Rightarrow> nat \<Rightarrow> nat list list \<Rightarrow> nat list \<Rightarrow> exn + nat list list \<times> nat list" where
  "packed_loop 0 i l out = Inr (l, out)"
| "packed_loop (Suc k) i l out =
     (if l = [] then Inl Runtime_error
      else if length l \<le> i \<or> l ! i = [] then Inl UB
      else case take_unit i l of (u, l') \<Rightarrow>
        let i1 = (if tl (l ! i) = [] then size_sub i 1 else i);
            i2 = (if length l' > 0 then ((i1 + 1) mod 2 ^ 64) mod length l' else i1) in
        packed_loop k i2 l' (out @ [u]))"

definition build_stage_policy_packed :: "nat list list \<Rightarrow> nat \<Rightarrow> exn + nat list list \<times> nat list" where
  "build_stage_policy_packed l n_replicates = packed_loop n_replicates 0 l []"

definition build_stage_policy_guided :: "nat list list \<Rightarrow> exn + nat list" where
  "build_stage_policy_guided l = (if [] \<in> set l then Inl UB else Inr (map hd l))"

fun distant_loop :: "nat \<Rightarrow> nat \<Rightarrow> nat \<Rightarrow> nat list list \<Rightarrow> nat list \<Rightarrow> exn + nat list list \<times> nat list" where
  "distant_loop 0 c smt l out = Inr (l, out)"
| "distant_loop (Suc k) c smt l out =
     (if l = [] then Inl Runtime_error
      else if (2 * smt) mod 2 ^ 64 = 0 then Inl UB
      else let i = (c mod 2) * (length l div ((2 * smt) mod 2 ^ 64)) in
        if length l \<le> i \<or> l ! i = [] then Inl UB
        else case take_unit i l of (u, l') \<Rightarrow> distant_loop k (Suc c) smt l' (out @ [u]))"

definition build_stage_policy_distant :: "nat list list \<Rightarrow> nat \<Rightarrow> nat \<Rightarrow> nat \<Rightarrow> exn + nat list list \<times> nat list" where
  "build_stage_policy_distant l n_replicates curr_type_index smt_value = distant_loop n_replicates curr_type_index smt_value l []"

text \<open>
  A stage on the list \<open>l\<close> of its type of cores: the list that is left, the units of the stage and its policy, which is
  \<open>loose\<close> when it is not known.
\<close>

definition stage_units :: "string \<Rightarrow> nat list list \<Rightarrow> nat \<Rightarrow> nat \<Rightarrow> nat \<Rightarrow> exn + nat list list \<times> nat list \<times> string" where
  "stage_units policy l n_replicates stage_index smt =
     (if policy = ''packed'' then and_then (build_stage_policy_packed l n_replicates) (\<lambda>(l', us). Inr (l', us, policy))
      else if policy = ''guided'' then and_then (build_stage_policy_guided l) (\<lambda>us. Inr (l, us, policy))
      else if policy = ''distant'' then and_then (build_stage_policy_distant l n_replicates stage_index smt) (\<lambda>(l', us). Inr (l', us, policy))
      else Inr (l, [1], ''loose''))"

record v2_state =
  vs_file :: from_file
  vs_tasks :: nat
  vs_p_stage :: nat
  vs_e_stage :: nat

definition v2_core_type :: "string \<Rightarrow> string \<Rightarrow> nat \<Rightarrow> nat \<Rightarrow> nat \<Rightarrow> v2_state \<Rightarrow> exn + v2_state" where
  "v2_core_type core_type policy n_replicates p_smt e_smt v = (let f = vs_file v in
     if core_type = ''p-core'' then and_then (stage_units policy (ff_p_list f) n_replicates (vs_p_stage v) p_smt) (\<lambda>(l, us, pol).
       Inr (v\<lparr>vs_file := f\<lparr>ff_p_list := l, ff_puids := ff_puids f @ [us], ff_policy := ff_policy f @ [pol]\<rparr>,
              vs_p_stage := Suc (vs_p_stage v)\<rparr>))
     else if core_type = ''e-core'' then and_then (stage_units policy (ff_e_list f) n_replicates (vs_e_stage v) e_smt) (\<lambda>(l, us, pol).
       Inr (v\<lparr>vs_file := f\<lparr>ff_e_list := l, ff_puids := ff_puids f @ [us], ff_policy := ff_policy f @ [pol]\<rparr>,
              vs_e_stage := Suc (vs_e_stage v)\<rparr>))
     else Inl Runtime_error)"

text \<open>Unlike the first format, the size of a buffer is not refused on the last stage.\<close>

definition v2_buff :: "'j json_lib \<Rightarrow> nat \<Rightarrow> 'j \<Rightarrow> from_file \<Rightarrow> exn + from_file" where
  "v2_buff J d e f = (if \<not> j_contains J e ''sync_buff_size'' then Inr f
     else let b = j_field J e ''sync_buff_size'' in
       and_then (require (j_is_unsigned J b)) (\<lambda>_. and_then (j_size_t J b) (\<lambda>k.
         if d < length (ff_buffs f) then Inr (f\<lparr>ff_buffs := (ff_buffs f)[d := k]\<rparr>) else Inl UB)))"

definition v2_stage :: "'j json_lib \<Rightarrow> nat \<Rightarrow> nat \<Rightarrow> nat \<Rightarrow> nat \<Rightarrow> 'j \<Rightarrow> v2_state \<Rightarrow> exn + v2_state" where
  "v2_stage J n p_smt e_smt d e v =
     and_then (require (j_contains J e ''tasks'')) (\<lambda>_. let t = j_field J e ''tasks'' in
     and_then (require (j_is_integer J t)) (\<lambda>_. and_then (j_size_t J t) (\<lambda>k.
     and_then (require (j_contains J e ''threads'')) (\<lambda>_. let r = j_field J e ''threads'' in
     and_then (require (j_is_integer J r)) (\<lambda>_. and_then (j_size_t J r) (\<lambda>n_replicates.
     and_then (require (j_contains J e ''pinning-policy'')) (\<lambda>_. let p = j_field J e ''pinning-policy'' in
     and_then (require (j_is_string J p)) (\<lambda>_. and_then (j_string J p) (\<lambda>policy.
     and_then (require (j_contains J e ''core-type'')) (\<lambda>_. let c = j_field J e ''core-type'' in
     and_then (require (j_is_string J c)) (\<lambda>_. and_then (j_string J c) (\<lambda>core_type.
     and_then (v2_core_type core_type policy n_replicates p_smt e_smt (v\<lparr>vs_tasks := (vs_tasks v + k) mod 2 ^ 64,
         vs_file := (vs_file v)\<lparr>ff_solution := ff_solution (vs_file v) @ [(k, n_replicates)]\<rparr>\<rparr>)) (\<lambda>v1.
     and_then (v2_buff J d e (vs_file v1)) (\<lambda>f2. and_then (entry_waiting J n d e f2) (\<lambda>f3.
       Inr (v1\<lparr>vs_file := f3\<rparr>))))))))))))))))"

definition v2_lists :: "'j json_lib \<Rightarrow> topology \<Rightarrow> 'j \<Rightarrow> exn + nat \<times> nat list list \<times> nat \<times> nat list list" where
  "v2_lists J hw data =
     and_then (require (j_contains J data ''resources'')) (\<lambda>_. let resources = j_field J data ''resources'' in
     and_then (require (j_contains J resources ''p-core'')) (\<lambda>_.
     and_then (require (j_contains J resources ''e-core'')) (\<lambda>_.
     let pr = j_field J resources ''p-core''; er = j_field J resources ''e-core'' in
     and_then (require (j_contains J pr ''node-list'')) (\<lambda>_.
     and_then (require (j_contains J er ''node-list'')) (\<lambda>_.
     and_then (require (j_contains J pr ''smt'')) (\<lambda>_. and_then (j_size_t J (j_field J pr ''smt'')) (\<lambda>p_smt.
     and_then (require (j_contains J er ''smt'')) (\<lambda>_. and_then (j_size_t J (j_field J er ''smt'')) (\<lambda>e_smt.
     and_then (pu_list J hw p_smt (j_field J pr ''node-list'')) (\<lambda>pl.
     and_then (pu_list J hw e_smt (j_field J er ''node-list'')) (\<lambda>el. Inr (p_smt, pl, e_smt, el))))))))))))"

definition contsruct_policy_v2 :: "'j json_lib \<Rightarrow> topology \<Rightarrow> 'j \<Rightarrow> nat \<Rightarrow> from_file \<Rightarrow> exn + from_file" where
  "contsruct_policy_v2 J hw data n_tasks f =
     and_then (v2_lists J hw data) (\<lambda>(p_smt, pl, e_smt, el).
     and_then (require (j_contains J data ''schedule'')) (\<lambda>_. let sched = j_field J data ''schedule'' in
     and_then (require (j_is_array J sched)) (\<lambda>_. let es = j_items J sched; n = length es in
     and_then (links_vector n 1) (\<lambda>bs. and_then (links_vector n False) (\<lambda>ws.
     and_then (over_entries (v2_stage J n p_smt e_smt) 0 es
       \<lparr>vs_file = f\<lparr>ff_p_list := pl, ff_e_list := el, ff_buffs := bs, ff_waits := ws\<rparr>, vs_tasks = 0, vs_p_stage = 0, vs_e_stage = 0\<rparr>) (\<lambda>v.
     and_then (require (vs_tasks v = n_tasks)) (\<lambda>_. Inr (vs_file v))))))))"

text \<open>The constructor: \<open>None\<close> is a file that cannot be opened, \<open>parse\<close> the reading of its text, which may throw.\<close>

definition new_scheduler_from_file ::
  "'j json_lib \<Rightarrow> (string \<Rightarrow> exn + 'j) \<Rightarrow> topology \<Rightarrow> string option \<Rightarrow> nat \<Rightarrow> nat \<Rightarrow> exn + from_file" where
  "new_scheduler_from_file J parse hw file version n_tasks = (case file of None \<Rightarrow> Inl Invalid_argument
     | Some text \<Rightarrow> and_then (parse text) (\<lambda>data.
         if version = 1 then contsruct_policy_v1 J data n_tasks (new_from_file version)
         else if version = 2 then contsruct_policy_v2 J hw data n_tasks (new_from_file version)
         else Inl Runtime_error))"

section \<open>From the file to the pipeline\<close>

definition ff_schedule :: "from_file \<Rightarrow> sched \<Rightarrow> (sched, unit) outcome option" where
  "ff_schedule f sc = Some (Inr (), sc\<lparr>sc_solution := ff_solution f\<rparr>)"

definition ff_thread_pinnings :: "from_file \<Rightarrow> exn + bool list" where
  "ff_thread_pinnings f = (if \<exists>s < length (ff_puids f). ff_puids f ! s \<noteq> [] \<and> length (ff_solution f) \<le> s then Inl UB
     else Inr (map (\<lambda>s. s < length (ff_puids f) \<and> ff_puids f ! s \<noteq> []) [0..<length (ff_solution f)]))"

definition pu_name :: "nat \<Rightarrow> string" where
  "pu_name u = ''PU_'' @ nat_to_string u"

definition list_units :: "string \<Rightarrow> nat list \<Rightarrow> string" where
  "list_units sep us = concat (map (\<lambda>i. (if i = 0 then '''' else sep) @ pu_name (us ! i)) [0..<length us])"

definition no_pin :: "nat list \<Rightarrow> string" where
  "no_pin us = (if us = [] then ''NO_PIN'' else '''')"

definition stage_text :: "from_file \<Rightarrow> nat \<Rightarrow> exn + string" where
  "stage_text f sta = (let p = ff_policy f ! sta; v = ff_version f; us = ff_puids f ! sta in
     if v = 1 \<or> (v = 2 \<and> p = ''packed'') \<or> (v = 2 \<and> p = ''distant'') then
       (if sta < length (ff_puids f) then Inr (list_units ''; '' us @ no_pin us) else Inl UB)
     else if v = 2 \<and> p = ''guided'' then
       (if sta < length (ff_solution f) \<and> sta < length (ff_puids f) then
         Inr (concat (map (\<lambda>i. (if i = 0 then '''' else '' ; '') @ list_units '', '' us) [0..<snd (ff_solution f ! sta)]) @ no_pin us)
        else Inl UB)
     else if p = ''loose'' then Inr ''MACHINE_0''
     else Inl Runtime_error)"

definition ff_threads_mapping :: "from_file \<Rightarrow> sched \<Rightarrow> exn + string" where
  "ff_threads_mapping f sc = (if ff_puids f = [] then get_threads_mapping sc
     else and_then (map_res (stage_text f) [0..<length (ff_policy f)]) (\<lambda>ts.
       Inr (concat (map (\<lambda>i. (if i = 0 then '''' else '' | '') @ ts ! i) [0..<length ts]))))"

text \<open>\<^verbatim>\<open>generate_pipeline\<close> with the functions this scheduler overrides, after the profiling.\<close>

definition ff_generate_pipeline :: "from_file \<Rightarrow> sched \<Rightarrow> exn + pipeline_args" where
  "ff_generate_pipeline f sc = (let sc1 = (if sc_solution sc = [] then sc\<lparr>sc_solution := ff_solution f\<rparr> else sc) in
     and_then (ff_threads_mapping f sc1) (\<lambda>mapping.
     and_then (if mapping = '''' then Inr (replicate (length (sc_solution sc1)) False) else ff_thread_pinnings f) (\<lambda>pins.
       instantiate_pipeline (ff_buffs f) (ff_waits f) pins mapping sc1)))"

end
