(* ===== verification/File_Pinning.thy ===== *)
theory File_Pinning
  imports Scheduler_File Scheduling Pipelines
begin

text \<open>
  What a scheduler read from a file (\<^verbatim>\<open>Scheduler_File\<close>) does with the units of the machine: no unit is given twice by
  the policies that take units, and the mapping that is printed is read back, by the parsers of \<^verbatim>\<open>Pinning\<close>, as the
  objects each thread was given.
\<close>

section \<open>The units of a list\<close>

abbreviation units :: "nat list list \<Rightarrow> nat multiset" where
  "units l \<equiv> mset (concat l)"

lemma and_then_eq [simp]: "and_then (Inr x) f = f x" "and_then (Inl e) f = Inl e"
  by simp_all

lemma require_simps [simp]: "require b = Inr x \<longleftrightarrow> b" "require b = Inl e \<longleftrightarrow> \<not> b \<and> e = Runtime_error"
  by (auto simp: require_def)

lemma units_at: "i < length l \<Longrightarrow> units l = mset (l ! i) + units (take i l @ drop (Suc i) l)"
  by (subst id_take_nth_drop [of i l]) auto

lemma units_update: "i < length l \<Longrightarrow> units (l[i := x]) = mset x + units (take i l @ drop (Suc i) l)"
  by (simp add: upd_conv_take_nth_drop)

lemma take_unit_units:
  assumes "i < length l" and "l ! i \<noteq> []" and "take_unit i l = (u, l')"
  shows "units l = add_mset u (units l')"
proof -
  obtain us where x: "l ! i = u # us" using assms(2,3) by (cases "l ! i") (auto simp: take_unit_def)
  then have "l' = (if us = [] then del_at i l else l[i := us])" using assms(3) by (auto simp: take_unit_def)
  then show ?thesis using units_at [OF assms(1)] units_update [OF assms(1), of us] x by (auto simp: del_at_def)
qed

lemma take_unit_nonempty:
  assumes "[] \<notin> set l" and "take_unit i l = (u, l')"
  shows "[] \<notin> set l'"
  using assms by (auto simp: take_unit_def del_at_def dest!: in_set_takeD in_set_dropD subsetD [OF set_update_subset_insert] split: if_splits)

lemma take_unit_length:
  assumes "i < length l" and "take_unit i l = (u, l')"
  shows "length l' = (if tl (l ! i) = [] then length l - 1 else length l)"
  using assms by (auto simp: take_unit_def length_del_at)

text \<open>A loop that succeeds moved its units from the list to the stage.\<close>

lemma packed_loop_units:
  "packed_loop k i l out = Inr (l', out') \<Longrightarrow> \<exists>us. out' = out @ us \<and> length us = k \<and> units l = mset us + units l'"
proof (induction k i l out rule: packed_loop.induct)
  case (2 k i l out)
  obtain u l1 where t: "take_unit i l = (u, l1)" by fastforce
  from 2(2) t have i: "i < length l" "l ! i \<noteq> []" by (auto split: if_splits)
  from 2(1) [OF _ _ t [symmetric] refl refl] 2(2) t i
  obtain us where "out' = (out @ [u]) @ us" "length us = k" "units l1 = mset us + units l'"
    by (auto simp: Let_def split: if_splits)
  with take_unit_units [OF i t] show ?case by (intro exI [of _ "u # us"]) simp
qed simp

lemma distant_loop_units:
  "distant_loop k c smt l out = Inr (l', out') \<Longrightarrow> \<exists>us. out' = out @ us \<and> length us = k \<and> units l = mset us + units l'"
proof (induction k c smt l out rule: distant_loop.induct)
  case (2 k c smt l out)
  define i where "i = (c mod 2) * (length l div ((2 * smt) mod 2 ^ 64))"
  obtain u l1 where t: "take_unit i l = (u, l1)" by fastforce
  from 2(2) have ne: "l \<noteq> []" "2 * smt mod 2 ^ 64 \<noteq> 0" "\<not> (length l \<le> i \<or> l ! i = [])"
    by (auto simp: i_def Let_def split: if_splits)
  then have i: "i < length l" "l ! i \<noteq> []" by auto
  have "distant_loop k (Suc c) smt l1 (out @ [u]) = Inr (l', out')"
    using 2(2) ne t by (simp add: Let_def i_def [simplified, symmetric])
  from 2(1) [OF ne(1,2) i_def ne(3) t [symmetric] this]
  obtain us where "out' = (out @ [u]) @ us" "length us = k" "units l1 = mset us + units l'" by blast
  with take_unit_units [OF i t] show ?case by (intro exI [of _ "u # us"]) simp
qed simp

text \<open>Without empty entries, \<open>packed\<close> takes as many units as it is asked for, or throws when there are not enough.\<close>

lemma packed_loop_enough:
  assumes "[] \<notin> set l" and "l = [] \<or> i < length l" and "length l < 2 ^ 64"
  shows "if k \<le> size (units l) then \<exists>l' us. packed_loop k i l out = Inr (l', us) else packed_loop k i l out = Inl Runtime_error"
  using assms
proof (induction k arbitrary: i l out)
  case (Suc k)
  show ?case
  proof (cases "l = []")
    case False
    with Suc.prems have i: "i < length l" by simp
    with Suc.prems(1) have ne: "l ! i \<noteq> []" by (metis nth_mem)
    obtain u l1 where t: "take_unit i l = (u, l1)" by fastforce
    define i1 where "i1 = (if tl (l ! i) = [] then size_sub i 1 else i)"
    define i2 where "i2 = (if length l1 > 0 then ((i1 + 1) mod 2 ^ 64) mod length l1 else i1)"
    have le: "length l1 \<le> length l" using take_unit_length [OF i t] by simp
    have "size (units l) = Suc (size (units l1))" using take_unit_units [OF i ne t] by simp
    moreover have "l1 = [] \<or> i2 < length l1" by (simp add: i2_def)
    moreover have "packed_loop (Suc k) i l out = packed_loop k i2 l1 (out @ [u])"
      using False i ne t by (simp add: i1_def i2_def Let_def del: One_nat_def)
    ultimately show ?thesis
      using Suc.IH [OF take_unit_nonempty [OF Suc.prems(1) t], of i2 "out @ [u]"] le Suc.prems(3) by simp
  qed simp
qed simp

section \<open>The stages of the second format\<close>

definition taking :: "string \<Rightarrow> bool" where
  "taking policy \<longleftrightarrow> policy = ''packed'' \<or> policy = ''distant''"

definition policy_ok :: "string \<Rightarrow> bool" where
  "policy_ok policy \<longleftrightarrow> taking policy \<or> policy = ''guided'' \<or> policy = ''loose''"

text \<open>The units of the stages whose policy takes them.\<close>

definition taken_units :: "from_file \<Rightarrow> nat list" where
  "taken_units f = concat (map snd (filter (\<lambda>x. taking (fst x)) (zip (ff_policy f) (ff_puids f))))"

definition file_ok :: "nat multiset \<Rightarrow> from_file \<Rightarrow> bool" where
  "file_ok M f \<longleftrightarrow> ff_version f = 2 \<and> length (ff_policy f) = length (ff_solution f) \<and> length (ff_puids f) = length (ff_solution f) \<and>
     (\<forall>k < length (ff_solution f). policy_ok (ff_policy f ! k) \<and>
        (taking (ff_policy f ! k) \<longrightarrow> length (ff_puids f ! k) = snd (ff_solution f ! k))) \<and>
     mset (taken_units f) + units (ff_p_list f) + units (ff_e_list f) = M"

lemma stage_units_ok:
  assumes "stage_units policy l r c smt = Inr (l', us, pol)"
  shows "policy_ok pol" "taking pol \<Longrightarrow> length us = r \<and> units l = mset us + units l'" "\<not> taking pol \<Longrightarrow> l' = l"
  using assms packed_loop_units [of r 0 l "[]" l' us] distant_loop_units [of r c smt l "[]" l' us]
  by (auto simp: stage_units_def policy_ok_def taking_def build_stage_policy_packed_def build_stage_policy_distant_def
      and_then_Inr split: if_splits)

lemma taken_snoc: "length ps = length uss \<Longrightarrow>
    concat (map snd (filter (\<lambda>x. taking (fst x)) (zip (ps @ [p]) (uss @ [us])))) =
      concat (map snd (filter (\<lambda>x. taking (fst x)) (zip ps uss))) @ (if taking p then us else [])"
  by simp

lemma file_ok_snoc:
  assumes ok: "file_ok M f" and p: "policy_ok pol" and u: "taking pol \<Longrightarrow> length us = r"
    and l: "mset (if taking pol then us else []) + units pl + units el = units (ff_p_list f) + units (ff_e_list f)"
  shows "file_ok M (f\<lparr>ff_solution := ff_solution f @ [(k, r)], ff_p_list := pl, ff_e_list := el,
    ff_puids := ff_puids f @ [us], ff_policy := ff_policy f @ [pol]\<rparr>)"
proof -
  define g where "g = f\<lparr>ff_solution := ff_solution f @ [(k, r)], ff_p_list := pl, ff_e_list := el,
    ff_puids := ff_puids f @ [us], ff_policy := ff_policy f @ [pol]\<rparr>"
  have "mset (taken_units g) = mset (taken_units f) + mset (if taking pol then us else [])"
    using ok by (simp add: taken_units_def g_def file_ok_def)
  then have "mset (taken_units g) + units (ff_p_list g) + units (ff_e_list g) = M"
    using ok l by (simp add: g_def file_ok_def ac_simps)
  then show ?thesis using ok p u by (auto simp: file_ok_def g_def nth_append less_Suc_eq)
qed

lemma v2_core_type_ok:
  assumes "file_ok M f" and v: "vs_file v = f\<lparr>ff_solution := ff_solution f @ [(k, r)]\<rparr>"
    and s: "v2_core_type ct policy r ps es v = Inr v'"
  shows "file_ok M (vs_file v')" "ff_solution (vs_file v') = ff_solution f @ [(k, r)]" "vs_tasks v' = vs_tasks v"
    "ff_buffs (vs_file v') = ff_buffs f" "ff_waits (vs_file v') = ff_waits f"
proof -
  consider (p) l us pol where "stage_units policy (ff_p_list f) r (vs_p_stage v) ps = Inr (l, us, pol)"
      "v' = v\<lparr>vs_file := (vs_file v)\<lparr>ff_p_list := l, ff_puids := ff_puids f @ [us], ff_policy := ff_policy f @ [pol]\<rparr>, vs_p_stage := Suc (vs_p_stage v)\<rparr>"
    | (e) l us pol where "stage_units policy (ff_e_list f) r (vs_e_stage v) es = Inr (l, us, pol)"
      "v' = v\<lparr>vs_file := (vs_file v)\<lparr>ff_e_list := l, ff_puids := ff_puids f @ [us], ff_policy := ff_policy f @ [pol]\<rparr>, vs_e_stage := Suc (vs_e_stage v)\<rparr>"
    using s v by (auto simp: v2_core_type_def and_then_Inr Let_def split: if_splits)
  then have "file_ok M (vs_file v') \<and> ff_solution (vs_file v') = ff_solution f @ [(k, r)] \<and> vs_tasks v' = vs_tasks v \<and>
    ff_buffs (vs_file v') = ff_buffs f \<and> ff_waits (vs_file v') = ff_waits f"
  proof cases
    case p
    let ?g = "f\<lparr>ff_solution := ff_solution f @ [(k, r)], ff_p_list := l, ff_e_list := ff_e_list f,
        ff_puids := ff_puids f @ [us], ff_policy := ff_policy f @ [pol]\<rparr>"
    from stage_units_ok [OF p(1)] have "file_ok M ?g" by (intro file_ok_snoc [OF assms(1)]) auto
    moreover have "vs_file v' = ?g" using p(2) v by simp
    ultimately show ?thesis using p(2) v by simp
  next
    case e
    let ?g = "f\<lparr>ff_solution := ff_solution f @ [(k, r)], ff_p_list := ff_p_list f, ff_e_list := l,
        ff_puids := ff_puids f @ [us], ff_policy := ff_policy f @ [pol]\<rparr>"
    from stage_units_ok [OF e(1)] have "file_ok M ?g" by (intro file_ok_snoc [OF assms(1)]) auto
    moreover have "vs_file v' = ?g" using e(2) v by simp
    ultimately show ?thesis using e(2) v by simp
  qed
  then show "file_ok M (vs_file v')" "ff_solution (vs_file v') = ff_solution f @ [(k, r)]" "vs_tasks v' = vs_tasks v"
    "ff_buffs (vs_file v') = ff_buffs f" "ff_waits (vs_file v') = ff_waits f" by auto
qed

text \<open>The sizes of the buffers and the waiting types are written in fields of their own.\<close>

lemma v2_buff_keeps: "v2_buff J d e f = Inr g \<Longrightarrow> \<exists>bs. g = f\<lparr>ff_buffs := bs\<rparr> \<and> length bs = length (ff_buffs f)"
  by (auto simp: v2_buff_def and_then_Inr Let_def split: if_splits intro: exI [of _ "ff_buffs f"])

lemma v1_buff_keeps: "v1_buff J n d e f = Inr g \<Longrightarrow> \<exists>bs. g = f\<lparr>ff_buffs := bs\<rparr> \<and> length bs = length (ff_buffs f)"
  by (auto simp: v1_buff_def and_then_Inr Let_def split: if_splits intro: exI [of _ "ff_buffs f"])

lemma entry_waiting_keeps: "entry_waiting J n d e f = Inr g \<Longrightarrow> \<exists>ws. g = f\<lparr>ff_waits := ws\<rparr> \<and> length ws = length (ff_waits f)"
  by (auto simp: entry_waiting_def and_then_Inr Let_def split: if_splits intro: exI [of _ "ff_waits f"])

lemma file_ok_sync [simp]: "file_ok M (f\<lparr>ff_buffs := bs\<rparr>) = file_ok M f" "file_ok M (f\<lparr>ff_waits := ws\<rparr>) = file_ok M f"
  by (simp_all add: file_ok_def taken_units_def)

definition v2_ok :: "nat \<Rightarrow> nat multiset \<Rightarrow> v2_state \<Rightarrow> bool" where
  "v2_ok m M v \<longleftrightarrow> file_ok M (vs_file v) \<and> length (ff_buffs (vs_file v)) = m \<and> length (ff_waits (vs_file v)) = m \<and>
     vs_tasks v = sum_list (map fst (ff_solution (vs_file v))) mod 2 ^ 64"

lemma v2_stage_ok:
  assumes ok: "v2_ok m M v" and s: "v2_stage J n ps es d e v = Inr v'"
  shows "v2_ok m M v' \<and> length (ff_solution (vs_file v')) = Suc (length (ff_solution (vs_file v)))"
proof -
  from s obtain k r ct policy v1 f2 f3 where
    1: "v2_core_type ct policy r ps es (v\<lparr>vs_tasks := (vs_tasks v + k) mod 2 ^ 64,
      vs_file := (vs_file v)\<lparr>ff_solution := ff_solution (vs_file v) @ [(k, r)]\<rparr>\<rparr>) = Inr v1"
    and 2: "v2_buff J d e (vs_file v1) = Inr f2" "entry_waiting J n d e f2 = Inr f3" "v' = v1\<lparr>vs_file := f3\<rparr>"
    by (auto simp: v2_stage_def and_then_Inr Let_def)
  have f: "file_ok M (vs_file v)" and t: "vs_tasks v = sum_list (map fst (ff_solution (vs_file v))) mod 2 ^ 64"
    using ok by (simp_all add: v2_ok_def)
  note c = v2_core_type_ok [OF f _ 1, of k]
  have "file_ok M f3" "ff_solution f3 = ff_solution (vs_file v) @ [(k, r)]" "length (ff_buffs f3) = length (ff_buffs (vs_file v))"
    "length (ff_waits f3) = length (ff_waits (vs_file v))"
    using c v2_buff_keeps [OF 2(1)] entry_waiting_keeps [OF 2(2)] by auto
  moreover have "vs_tasks v' = (vs_tasks v + k) mod 2 ^ 64" using c(3) 2(3) by simp
  ultimately show ?thesis using 2(3) t ok by (simp add: v2_ok_def mod_simps)
qed

lemma over_entries_inv:
  assumes "\<And>d e s s'. P s \<Longrightarrow> f d e s = Inr s' \<Longrightarrow> P s' \<and> m s' = Suc (m s)" and "over_entries f d es s = Inr s'" and "P s"
  shows "P s' \<and> m s' = m s + length es"
  using assms(2,3) by (induction es arbitrary: d s) (fastforce simp: and_then_Inr dest: assms(1))+

lemma contsruct_policy_v2_ok:
  assumes "contsruct_policy_v2 J hw data n (new_from_file 2) = Inr f"
  obtains ps pl es el where "v2_lists J hw data = Inr (ps, pl, es, el)" "file_ok (units pl + units el) f"
    "n = sum_list (map fst (ff_solution f)) mod 2 ^ 64" "ff_solution f \<noteq> []"
    "length (ff_buffs f) = length (ff_solution f) - 1" "length (ff_waits f) = length (ff_solution f) - 1"
proof -
  let ?es = "j_items J (j_field J data ''schedule'')"
  from assms obtain ps pl es el bs ws v where l: "v2_lists J hw data = Inr (ps, pl, es, el)"
    and o: "over_entries (v2_stage J (length ?es) ps es) 0 ?es
       \<lparr>vs_file = (new_from_file 2)\<lparr>ff_p_list := pl, ff_e_list := el, ff_buffs := bs, ff_waits := ws\<rparr>, vs_tasks = 0,
         vs_p_stage = 0, vs_e_stage = 0\<rparr> = Inr v" (is "over_entries _ _ _ ?v = _")
    and n: "vs_tasks v = n" "f = vs_file v" "?es \<noteq> []" "length bs = length ?es - 1" "length ws = length ?es - 1"
    by (auto simp: contsruct_policy_v2_def and_then_Inr Let_def links_vector_def split: if_splits)
  have "v2_ok (length ?es - 1) (units pl + units el) v \<and> length (ff_solution (vs_file v)) = length (ff_solution (vs_file ?v)) + length ?es"
    by (rule over_entries_inv [where m = "\<lambda>v. length (ff_solution (vs_file v))", OF v2_stage_ok o])
      (assumption | simp add: v2_ok_def file_ok_def taken_units_def new_from_file_def n(4,5))+
  then show thesis by (intro that [OF l]) (use n in \<open>auto simp: v2_ok_def new_from_file_def\<close>)
qed

section \<open>The units of the cores\<close>

text \<open>Spreading the hardware threads keeps the units.\<close>

lemma smt_pass_units: "units (smt_pass j l) = units l"
proof (induction j l rule: smt_pass.induct)
  case (1 j l)
  show ?case
  proof (cases "j < length l \<and> 1 < length (l ! j)")
    case True
    then have "units (l[j := del_at 1 (l ! j)] @ [[l ! j ! 1]]) = units l"
      using units_at [of j l] units_update [of j l "del_at 1 (l ! j)"] id_take_nth_drop [of 1 "l ! j"]
      by (simp add: del_at_def) (metis mset.simps(2) mset_append union_mset_add_mset_right)
    with True 1(1) show ?thesis by (subst smt_pass.simps) auto
  next
    case False
    with 1(2) show ?thesis by (subst smt_pass.simps) auto
  qed
qed

lemma spread_smt_units: "units (spread_smt smt l) = units l"
proof -
  have "units ((smt_pass 0 ^^ k) l) = units l" for k
    by (induction k) (simp_all add: smt_pass_units)
  then show ?thesis by (simp add: spread_smt_def)
qed

section \<open>Every unit once\<close>

text \<open>
  C21: In the second format, the stages whose policy takes units (packed and distant) never get a unit twice, on the
  two types of cores together, when the lists of the file name each unit once; the units that are left in the lists
  are the ones no stage has taken.
\<close>

theorem file_gives_each_unit_once:
  assumes "contsruct_policy_v2 J hw data n (new_from_file 2) = Inr f"
    and "v2_lists J hw data = Inr (p_smt, pl, e_smt, el)" and "distinct (concat pl @ concat el)"
  shows "distinct (taken_units f) \<and> set (taken_units f) \<subseteq> set (concat pl @ concat el) \<and>
    set (taken_units f) \<inter> set (concat (ff_p_list f) @ concat (ff_e_list f)) = {}"
proof -
  from contsruct_policy_v2_ok [OF assms(1)] assms(2)
  have "mset (taken_units f @ concat (ff_p_list f) @ concat (ff_e_list f)) = mset (concat pl @ concat el)"
    by (metis (no_types, lifting) Inr_inject Pair_inject add.assoc file_ok_def mset_append)
  then have "distinct (taken_units f @ concat (ff_p_list f) @ concat (ff_e_list f))"
    and "set (taken_units f @ concat (ff_p_list f) @ concat (ff_e_list f)) = set (concat pl @ concat el)"
    using assms(3) mset_eq_imp_distinct_iff mset_eq_setD by metis+
  then show ?thesis by auto
qed

section \<open>The mapping is read back\<close>

lemma list_units_join: "list_units sep us = join sep (map pu_name us)"
proof -
  have "map (\<lambda>i. pu_name (us ! i)) [0..<length us] = map pu_name us" by (rule nth_equalityI) simp_all
  then show ?thesis by (simp add: list_units_def join_map_upt)
qed

lemma pu_name_plain:
  "CHR '' '' \<notin> set (pu_name u)" "CHR '','' \<notin> set (pu_name u)" "CHR '';'' \<notin> set (pu_name u)" "CHR ''|'' \<notin> set (pu_name u)"
  using digits_plain [OF nat_to_string_digits, of _ u] by (auto simp: pu_name_def)

lemma strip_pu_name [simp]: "strip (pu_name u) = pu_name u"
  using pu_name_plain(1) [of u] by (auto simp: strip_def filter_id_conv)

lemma join_plain: "c \<notin> set sep \<Longrightarrow> \<forall>x \<in> set xs. c \<notin> set x \<Longrightarrow> c \<notin> set (join sep xs)"
  using set_join [of sep xs] by blast

lemma pu_name_object: "u < 2 ^ 31 \<Longrightarrow> str_to_hwloc_object (pu_name u) = Inr (HWLOC_OBJ_PU, int u)"
  unfolding pu_name_def by (rule pu_object)

lemma pin_pu_names:
  assumes "us \<noteq> []" and "\<forall>u \<in> set us. u < 2 ^ 31"
  shows "pin_objects (join '','' (map pu_name us)) = Inr (map (\<lambda>u. (HWLOC_OBJ_PU, int u)) us)"
proof -
  have "thread_parser (join '','' (map pu_name us)) = map pu_name us"
    using split_join_exact [of "map pu_name us" "CHR '',''" "[]" "[]"] assms(1) pu_name_plain by (simp add: thread_parser_def)
  moreover have "map_res str_to_hwloc_object (map pu_name us) = Inr (map (\<lambda>u. (HWLOC_OBJ_PU, int u)) us)"
    using assms(2) by (induction us) (simp_all add: pu_name_object)
  ultimately show ?thesis by (simp add: pin_objects_def)
qed

text \<open>The objects the thread \<open>t\<close> of the stage \<open>k\<close> is given.\<close>

definition thread_objects :: "from_file \<Rightarrow> nat \<Rightarrow> nat \<Rightarrow> (hwloc_obj_type \<times> int) list" where
  "thread_objects f k t =
     (if taking (ff_policy f ! k) then [(HWLOC_OBJ_PU, int (ff_puids f ! k ! t))]
      else if ff_policy f ! k = ''guided'' then map (\<lambda>u. (HWLOC_OBJ_PU, int u)) (ff_puids f ! k)
      else [(HWLOC_OBJ_MACHINE, 0)])"

lemma map_res_nth: "(\<And>x. x \<in> set xs \<Longrightarrow> f x = Inr (g x)) \<Longrightarrow> map_res f xs = Inr (map g xs)"
  by (induction xs) auto

text \<open>One stage: its text has no bar, and without its spaces it is parsed into its threads.\<close>

lemma stage_text_read:
  assumes ok: "file_ok M f" and k: "k < length (ff_solution f)" and r: "0 < snd (ff_solution f ! k)"
    and us: "ff_puids f ! k \<noteq> []" "\<forall>u \<in> set (ff_puids f ! k). u < 2 ^ 31"
  shows "\<exists>tx. stage_text f k = Inr tx \<and> CHR ''|'' \<notin> set tx \<and>
    (\<exists>ths. stage_parser_unpacker (strip tx) (snd (ff_solution f ! k)) = Inr ths \<and>
      (\<forall>t < snd (ff_solution f ! k). pin_objects (ths ! t) = Inr (thread_objects f k t)))"
proof -
  let ?us = "ff_puids f ! k" and ?r = "snd (ff_solution f ! k)"
  have v: "ff_version f = 2" and p: "policy_ok (ff_policy f ! k)" and len: "length (ff_puids f) = length (ff_solution f)"
    and tk: "taking (ff_policy f ! k) \<Longrightarrow> length ?us = ?r" using ok k by (auto simp: file_ok_def)
  from p consider (takes) "taking (ff_policy f ! k)" | (guided) "ff_policy f ! k = ''guided''" | (loose) "ff_policy f ! k = ''loose''"
    by (auto simp: policy_ok_def)
  then show ?thesis
  proof cases
    case takes
    let ?tx = "join ''; '' (map pu_name ?us)"
    have "stage_text f k = Inr ?tx"
      using takes v k len us(1) by (auto simp: stage_text_def taking_def list_units_join no_pin_def)
    moreover have "CHR ''|'' \<notin> set ?tx" using pu_name_plain by (intro join_plain) auto
    moreover have "stage_parser_unpacker (strip ?tx) ?r = Inr (map pu_name ?us)"
      using split_join_exact [of "map pu_name ?us" "CHR '';''" "[]" "[]"] us(1) pu_name_plain tk [OF takes]
      by (simp add: stage_parser_unpacker_def strip_join comp_def unpack_exact)
    moreover have "pin_objects (pu_name (?us ! t)) = Inr [(HWLOC_OBJ_PU, int (?us ! t))]" if "t < ?r" for t
      using pin_pu_names [of "[?us ! t]"] us(2) that tk [OF takes] by simp
    ultimately show ?thesis using takes tk by (auto simp: thread_objects_def)
  next
    case guided
    let ?g = "join '', '' (map pu_name ?us)"
    let ?tx = "join '' ; '' (map (\<lambda>_. ?g) [0..<?r])"
    have "\<not> taking (ff_policy f ! k)" using guided by (simp add: taking_def)
    moreover have "stage_text f k = Inr ?tx"
      using guided v k len us(1) by (simp add: stage_text_def no_pin_def list_units_join join_map_upt)
    moreover have "CHR ''|'' \<notin> set ?g" using pu_name_plain by (intro join_plain) auto
    then have "CHR ''|'' \<notin> set ?tx" by (intro join_plain) auto
    moreover have "strip ?g = join '','' (map pu_name ?us)" by (simp add: strip_join comp_def)
    moreover have "CHR '';'' \<notin> set (join '','' (map pu_name ?us)) \<and> CHR '' '' \<notin> set (join '','' (map pu_name ?us))"
      using pu_name_plain by (intro conjI join_plain) auto
    ultimately show ?thesis
      using split_join_exact [of "map (\<lambda>_. strip ?g) [0..<?r]" "CHR '';''" "[]" "[]"] r pin_pu_names [OF us] guided
      by (simp add: stage_parser_unpacker_def strip_join comp_def unpack_exact thread_objects_def)
  next
    case loose
    have "pin_objects ''MACHINE_0'' = Inr [(HWLOC_OBJ_MACHINE, 0)]"
      by (simp add: pin_objects_def thread_parser_def machine_object)
    then show ?thesis
      using loose v r by (simp add: stage_text_def stage_parser_unpacker_def unpack_single taking_def thread_objects_def)
  qed
qed

text \<open>
  C24: The mapping a file of the second format gives is read back by the parsers of the library: the pipeline finds one text
  per stage, the sequence of a stage one text per thread, and the thread pins itself to the objects it was given: its own unit for
  packed and distant, all the units of the list for guided, the machine for loose.
\<close>

theorem file_mapping_is_read_back:
  assumes "contsruct_policy_v2 J hw data n (new_from_file 2) = Inr f" and "\<forall>s \<in> set (ff_solution f). 0 < snd s"
    and "\<forall>us \<in> set (ff_puids f). us \<noteq> [] \<and> (\<forall>u \<in> set us. u < 2 ^ 31)"
  shows "\<exists>mapping stages. ff_threads_mapping f sc = Inr mapping \<and>
    pipeline_parser_unpacker mapping (length (ff_solution f)) = Inr stages \<and>
    (\<forall>k < length (ff_solution f). \<exists>ths. stage_parser_unpacker (stages ! k) (snd (ff_solution f ! k)) = Inr ths \<and>
      (\<forall>t < snd (ff_solution f ! k). pin_objects (ths ! t) = Inr (thread_objects f k t)))"
proof -
  from contsruct_policy_v2_ok [OF assms(1)] obtain M where ok: "file_ok M f" and ne: "ff_solution f \<noteq> []" by metis
  let ?n = "length (ff_solution f)"
  have len: "length (ff_policy f) = ?n" "length (ff_puids f) = ?n" using ok by (simp_all add: file_ok_def)
  have "\<exists>tx. k < ?n \<longrightarrow> stage_text f k = Inr tx \<and> CHR ''|'' \<notin> set tx \<and>
    (\<exists>ths. stage_parser_unpacker (strip tx) (snd (ff_solution f ! k)) = Inr ths \<and>
      (\<forall>t < snd (ff_solution f ! k). pin_objects (ths ! t) = Inr (thread_objects f k t)))" for k
  proof (cases "k < ?n")
    case True
    have "ff_solution f ! k \<in> set (ff_solution f)" "ff_puids f ! k \<in> set (ff_puids f)" using True len by simp_all
    with assms(2,3) have "0 < snd (ff_solution f ! k)" "ff_puids f ! k \<noteq> []" "\<forall>u \<in> set (ff_puids f ! k). u < 2 ^ 31" by blast+
    from stage_text_read [OF ok True this] show ?thesis by blast
  qed simp
  then obtain tx where tx: "\<And>k. k < ?n \<Longrightarrow> stage_text f k = Inr (tx k) \<and> CHR ''|'' \<notin> set (tx k) \<and>
    (\<exists>ths. stage_parser_unpacker (strip (tx k)) (snd (ff_solution f ! k)) = Inr ths \<and>
      (\<forall>t < snd (ff_solution f ! k). pin_objects (ths ! t) = Inr (thread_objects f k t)))"
    by metis
  have "map_res (stage_text f) [0..<?n] = Inr (map tx [0..<?n])" using tx by (intro map_res_nth) simp
  moreover have "ff_puids f \<noteq> []" using ne len by auto
  moreover have "join '' | '' (map ((!) (map tx [0..<?n])) [0..<?n]) = join '' | '' (map tx [0..<?n])"
    by (rule arg_cong [of _ _ "join '' | ''"]) (rule nth_equalityI, simp_all)
  ultimately have m: "ff_threads_mapping f sc = Inr (join '' | '' (map tx [0..<?n]))"
    using len by (simp add: ff_threads_mapping_def join_map_upt [symmetric])
  have "split_loop CHR ''|'' [] (join ('' '' @ CHR ''|'' # '' '') (map tx [0..<?n])) = map strip (map tx [0..<?n])"
    using tx ne by (intro split_join) auto
  then have "pipeline_parser_unpacker (join '' | '' (map tx [0..<?n])) ?n = Inr (map strip (map tx [0..<?n]))"
    by (simp add: pipeline_parser_unpacker_def unpack_exact)
  with m tx show ?thesis by (intro exI [of _ "join '' | '' (map tx [0..<?n])"] exI [of _ "map strip (map tx [0..<?n])"]) simp
qed

section \<open>The pipeline of a file\<close>

lemma stage_text_defined:
  assumes ok: "file_ok M f" and k: "k < length (ff_solution f)"
  shows "\<exists>tx. stage_text f k = Inr tx"
  using assms by (auto simp: file_ok_def policy_ok_def taking_def stage_text_def Let_def)

lemma map_res_defined: "(\<And>x. x \<in> set xs \<Longrightarrow> \<exists>y. f x = Inr y) \<Longrightarrow> \<exists>ys. map_res f xs = Inr ys"
  by (induction xs) fastforce+

text \<open>
  C27: A file of the second format that was accepted for the tasks of the profiled sequence always gives a pipeline: every task in
  one stage, in the order of the sequence, with the numbers of threads of the file, and vectors whose sizes pass the checks of
  the constructor of the pipeline.
\<close>

theorem file_pipeline_covers_tasks:
  assumes "contsruct_policy_v2 J hw data (length (sc_descs sc)) (new_from_file 2) = Inr f"
    and "sum_list (map fst (ff_solution f)) < 2 ^ 64" and "sc_solution sc = []"
  shows "\<exists>args. ff_generate_pipeline f sc = Inr args \<and> concat (map fst (pa_stages args)) = map td_task (sc_descs sc) \<and>
    map snd (pa_stages args) = map fst (pa_stages args) \<and> pa_firsts args = map (\<lambda>d. Some (td_task d)) (sc_descs sc) \<and>
    pa_threads args = map snd (ff_solution f) \<and>
    pipe_sizes_guard (length (pa_stages args)) (length (pa_threads args)) (length (pa_buffers args)) (length (pa_waits args))
      (length (pa_pins args)) 0 = Inr ()"
proof -
  obtain M where ok: "file_ok M f" and n: "length (sc_descs sc) = sum_list (map fst (ff_solution f)) mod 2 ^ 64" "ff_solution f \<noteq> []"
    and bw: "length (ff_buffs f) = length (ff_solution f) - 1" "length (ff_waits f) = length (ff_solution f) - 1"
    by (rule contsruct_policy_v2_ok [OF assms(1)]) blast
  let ?sc = "sc\<lparr>sc_solution := ff_solution f\<rparr>"
  have len: "length (ff_policy f) = length (ff_solution f)" "length (ff_puids f) = length (ff_solution f)"
    using ok by (simp_all add: file_ok_def)
  have "\<exists>ts. map_res (stage_text f) [0..<length (ff_policy f)] = Inr ts"
    using stage_text_defined [OF ok] len by (intro map_res_defined) simp
  moreover have "ff_puids f \<noteq> []" using n(2) len by auto
  ultimately obtain mapping where m: "ff_threads_mapping f ?sc = Inr mapping" by (auto simp: ff_threads_mapping_def)
  obtain pins where p: "(if mapping = '''' then Inr (replicate (length (ff_solution f)) False) else ff_thread_pinnings f) = Inr pins"
    "length pins = length (ff_solution f)" using len by (cases "mapping = ''''") (auto simp: ff_thread_pinnings_def)
  obtain args where a: "instantiate_pipeline (ff_buffs f) (ff_waits f) pins mapping ?sc = Inr args"
    "concat (map fst (pa_stages args)) = map td_task (sc_descs sc)" "map snd (pa_stages args) = map fst (pa_stages args)"
    "pa_firsts args = map (\<lambda>d. Some (td_task d)) (sc_descs sc)" "pa_threads args = map snd (ff_solution f)"
    "pa_buffers args = ff_buffs f" "pa_waits args = ff_waits f" "length (pa_stages args) = length (ff_solution f)"
    using instantiate_covers [of ?sc "ff_buffs f" "ff_waits f" pins mapping] n assms(2) by auto
  have "pa_pins args = pins" using a(1) n(2) by (auto simp: instantiate_pipeline_def Let_def split: sum.splits)
  moreover have "ff_generate_pipeline f sc = Inr args" 
    using assms(3) m p(1) a(1) by (cases "mapping = []") (auto simp: ff_generate_pipeline_def Let_def)
  ultimately show ?thesis using a bw p(2) n(2) by (simp add: pipe_sizes_guard_def)
qed

section \<open>An example of a file\<close>

text \<open>A small library of JSON values, with the conversions of the calls of the model.\<close>

datatype js = JN nat | JS string | JA "js list" | JO "(string \<times> js) list"

definition js_lib :: "js json_lib" where
  "js_lib = \<lparr>j_contains = (\<lambda>j k. case j of JO fs \<Rightarrow> map_of fs k \<noteq> None | _ \<Rightarrow> False),
     j_field = (\<lambda>j k. case j of JO fs \<Rightarrow> (case map_of fs k of Some v \<Rightarrow> v | None \<Rightarrow> JA []) | _ \<Rightarrow> JA []),
     j_items = (\<lambda>j. case j of JA js \<Rightarrow> js | _ \<Rightarrow> []),
     j_is_array = (\<lambda>j. case j of JA _ \<Rightarrow> True | _ \<Rightarrow> False),
     j_is_unsigned = (\<lambda>j. case j of JN _ \<Rightarrow> True | _ \<Rightarrow> False),
     j_is_integer = (\<lambda>j. case j of JN _ \<Rightarrow> True | _ \<Rightarrow> False),
     j_is_string = (\<lambda>j. case j of JS _ \<Rightarrow> True | _ \<Rightarrow> False),
     j_size_t = (\<lambda>j. case j of JN n \<Rightarrow> Inr n | _ \<Rightarrow> Inl Other_exn),
     j_int = (\<lambda>j. case j of JN n \<Rightarrow> Inr (int n) | _ \<Rightarrow> Inl Other_exn),
     j_string = (\<lambda>j. case j of JS s \<Rightarrow> Inr s | _ \<Rightarrow> Inl Other_exn)\<rparr>"

definition js_stage :: "nat \<Rightarrow> nat \<Rightarrow> string \<Rightarrow> string \<Rightarrow> js" where
  "js_stage k r policy cores = JO [(''tasks'', JN k), (''threads'', JN r), (''pinning-policy'', JS policy), (''core-type'', JS cores)]"

definition js_file :: js where
  "js_file = JO [(''resources'', JO [(''p-core'', JO [(''node-list'', JA [JS ''PU0-3'']), (''smt'', JN 1)]),
       (''e-core'', JO [(''node-list'', JA [JN 4, JS ''PU6'']), (''smt'', JN 1)])]),
     (''schedule'', JA [js_stage 1 1 ''packed'' ''p-core'', js_stage 2 2 ''distant'' ''p-core'',
        js_stage 1 2 ''guided'' ''e-core'', js_stage 1 3 ''any'' ''e-core''])]"

definition js_result :: from_file where
  "js_result = \<lparr>ff_version = 2, ff_solution = [(1, 1), (2, 2), (1, 2), (1, 3)], ff_buffs = [1, 1, 1], ff_waits = [False, False, False],
     ff_puids = [[0], [2, 1], [4, 6], [1]], ff_p_list = [[3]], ff_e_list = [[4], [6]],
     ff_policy = [''packed'', ''distant'', ''guided'', ''loose'']\<rparr>"

lemma js_lists: "v2_lists js_lib None js_file = Inr (1, [[0], [1], [2], [3]], 1, [[4], [6]])"
  by code_simp

lemma js_loops:
  "packed_loop 1 0 [[0], [1], [2], [3]] [] = Inr ([[1], [2], [3]], [0])"
  "distant_loop 2 1 1 [[1], [2], [3]] [] = Inr ([[3]], [2, 1])"
  by (simp add: take_unit_def del_at_def, subst (1) numeral_2_eq_2, simp add: take_unit_def del_at_def)

lemma js_entries:
  "v2_stage js_lib n ps es d (js_stage k r policy cores) v = v2_core_type cores policy r ps es (v\<lparr>vs_tasks := (vs_tasks v + k) mod 2 ^ 64,
     vs_file := (vs_file v)\<lparr>ff_solution := ff_solution (vs_file v) @ [(k, r)]\<rparr>\<rparr>)"
  by (cases "v2_core_type cores policy r ps es (v\<lparr>vs_tasks := (vs_tasks v + k) mod 2 ^ 64,
     vs_file := (vs_file v)\<lparr>ff_solution := ff_solution (vs_file v) @ [(k, r)]\<rparr>\<rparr>)")
    (simp_all add: v2_stage_def js_lib_def js_stage_def require_def v2_buff_def entry_waiting_def Let_def)

lemma js_schedule:
  "j_contains js_lib js_file ''schedule''" "j_is_array js_lib (j_field js_lib js_file ''schedule'')"
  "j_items js_lib (j_field js_lib js_file ''schedule'') = [js_stage 1 1 ''packed'' ''p-core'', js_stage 2 2 ''distant'' ''p-core'',
     js_stage 1 2 ''guided'' ''e-core'', js_stage 1 3 ''any'' ''e-core'']"
  by (simp_all add: js_lib_def js_file_def)

lemma js_reads: "contsruct_policy_v2 js_lib None js_file 5 (new_from_file 2) = Inr js_result"
  unfolding contsruct_policy_v2_def js_lists js_schedule Let_def
  by (simp add: js_schedule js_entries links_vector_def require_def v2_core_type_def stage_units_def build_stage_policy_packed_def
      build_stage_policy_distant_def build_stage_policy_guided_def js_loops [unfolded One_nat_def] js_loops new_from_file_def js_result_def Let_def
      del: packed_loop.simps distant_loop.simps)

lemma file_gives_each_unit_once_witness: "distinct (taken_units js_result) \<and> taken_units js_result = [0, 2, 1]"
  using file_gives_each_unit_once [OF js_reads js_lists] by (simp add: js_result_def taken_units_def taking_def)

lemma file_mapping_is_read_back_witness:
  "\<exists>mapping stages. ff_threads_mapping js_result (new_sched 0) = Inr mapping \<and>
     pipeline_parser_unpacker mapping 4 = Inr stages \<and>
     (\<exists>ths. stage_parser_unpacker (stages ! 1) 2 = Inr ths \<and> pin_objects (ths ! 1) = Inr [(HWLOC_OBJ_PU, 1)])"
proof -
  have "\<forall>s \<in> set (ff_solution js_result). 0 < snd s"
    "\<forall>us \<in> set (ff_puids js_result). us \<noteq> [] \<and> (\<forall>u \<in> set us. u < 2 ^ 31)" by (simp_all add: js_result_def)
  from file_mapping_is_read_back [OF js_reads this, of "new_sched 0"] obtain mapping stages where
    m: "ff_threads_mapping js_result (new_sched 0) = Inr mapping"
      "pipeline_parser_unpacker mapping (length (ff_solution js_result)) = Inr stages" and
    "\<forall>k < length (ff_solution js_result). \<exists>ths. stage_parser_unpacker (stages ! k) (snd (ff_solution js_result ! k)) = Inr ths \<and>
      (\<forall>t < snd (ff_solution js_result ! k). pin_objects (ths ! t) = Inr (thread_objects js_result k t))" by blast
  from this(3) [rule_format, of 1] obtain ths where
    "stage_parser_unpacker (stages ! 1) (snd (ff_solution js_result ! 1)) = Inr ths"
    "\<forall>t < snd (ff_solution js_result ! 1). pin_objects (ths ! t) = Inr (thread_objects js_result 1 t)"
    by (auto simp: js_result_def)
  moreover have "length (ff_solution js_result) = 4" "snd (ff_solution js_result ! 1) = 2"
    "thread_objects js_result 1 1 = [(HWLOC_OBJ_PU, 1)]" by (simp_all add: js_result_def thread_objects_def taking_def)
  ultimately show ?thesis using m by (metis one_less_numeral_iff semiring_norm(76))
qed

lemma file_pipeline_covers_tasks_witness:
  "\<exists>args. ff_generate_pipeline js_result ((new_sched 0)\<lparr>sc_descs := map (\<lambda>t. \<lparr>td_task = t, td_exec = []\<rparr>) [7, 8, 9, 3, 4]\<rparr>) = Inr args \<and>
     concat (map fst (pa_stages args)) = [7, 8, 9, 3, 4] \<and> pa_threads args = [1, 2, 2, 3]"
proof -
  let ?sc = "(new_sched 0)\<lparr>sc_descs := map (\<lambda>t. \<lparr>td_task = t, td_exec = []\<rparr>) [7, 8, 9, 3, 4]\<rparr>"
  have l: "length (sc_descs ?sc) = 5" and "sc_solution ?sc = []" "sum_list (map fst (ff_solution js_result)) < 2 ^ 64"
    by (simp_all add: new_sched_def js_result_def)
  have "contsruct_policy_v2 js_lib None js_file (length (sc_descs ?sc)) (new_from_file 2) = Inr js_result"
    unfolding l by (rule js_reads)
  from file_pipeline_covers_tasks [OF this] \<open>sc_solution ?sc = []\<close> \<open>_ < 2 ^ 64\<close> obtain args where
    "ff_generate_pipeline js_result ?sc = Inr args" "concat (map fst (pa_stages args)) = map td_task (sc_descs ?sc)"
    "pa_threads args = map snd (ff_solution js_result)" by blast
  then show ?thesis by (intro exI [of _ args]) (simp add: js_result_def new_sched_def)
qed

section \<open>The first format\<close>

text \<open>
  A file of the first format that lists units: the policies are never filled, so the mapping is the empty string and
  the pipeline is made without pinning, although the units were read.
\<close>

lemma v1_stage_policy: "v1_stage J n d e v = Inr v' \<Longrightarrow> ff_policy (fst v) = [] \<Longrightarrow> ff_policy (fst v') = []"
  by (cases v) (auto simp: v1_stage_def v1_cores_def and_then_Inr Let_def split: if_splits dest!: v1_buff_keeps entry_waiting_keeps)

lemma over_entries_keeps:
  assumes "\<And>d e s s'. P s \<Longrightarrow> f d e s = Inr s' \<Longrightarrow> P s'" and "over_entries f d es s = Inr s'" and "P s"
  shows "P s'"
  using assms(2,3) by (induction es arbitrary: d s) (fastforce simp: and_then_Inr dest: assms(1))+

lemma first_format_loses_its_units:
  assumes "contsruct_policy_v1 J data n (new_from_file 1) = Inr f" and "ff_puids f \<noteq> []"
  shows "ff_threads_mapping f sc = Inr ''''"
    and "ff_generate_pipeline f sc = Inr args \<Longrightarrow> True \<notin> set (pa_pins args)"
proof -
  have "ff_policy f = []"
    using assms(1) over_entries_keeps [where P = "\<lambda>v. ff_policy (fst v) = []" and f = "v1_stage J (length (j_items J (j_field J data ''schedule'')))", OF v1_stage_policy]
    by (fastforce simp: contsruct_policy_v1_def and_then_Inr Let_def new_from_file_def)
  then show m: "ff_threads_mapping f sc = Inr ''''" for sc
    using assms(2) by (simp add: ff_threads_mapping_def)
  show "ff_generate_pipeline f sc = Inr args \<Longrightarrow> True \<notin> set (pa_pins args)"
    by (auto simp: ff_generate_pipeline_def m instantiate_pipeline_def Let_def split: sum.splits if_splits)
qed

text \<open>A size of buffer on the last stage: refused by the first format, written out of the vector by the second one.\<close>

lemma last_buffer_is_written_out: "v2_buff js_lib 0 (JO [(''sync_buff_size'', JN 2)]) (new_from_file 2) = Inl UB"
  by code_simp

text \<open>\<open>guided\<close> needs a list: the mapping of an empty one has a text for each thread, the last one being the mark \<open>NO_PIN\<close>.\<close>

lemma packed_enough:
  assumes "[] \<notin> set l" and "length l < 2 ^ 64"
  shows "(\<exists>l' us. build_stage_policy_packed l n = Inr (l', us)) \<longleftrightarrow> n \<le> length (concat l)"
    and "n > length (concat l) \<Longrightarrow> build_stage_policy_packed l n = Inl Runtime_error"
  using packed_loop_enough [OF assms(1), of 0 n "[]"] assms(2)
  by (cases l; auto simp: build_stage_policy_packed_def split: if_splits)+

end
