(* ===== verification/Reporters.thy ===== *)
theory Reporters
  imports Doubles Runtime_State
begin

text \<open>
  The probes and the reporter that collects their values (\<^verbatim>\<open>src/Module/Stateful/Probe\<close>, \<^verbatim>\<open>Reporter_probe.cpp\<close>): one column
  per registered probe, with a ring buffer of values the task of the probe pushes to and the report pulls from, each
  under the mutex of the column. A value is the list of its bytes, \<open>data_size\<close> elements of the type of the column.

  The vectors of the class that are indexed by the column are fields of \<open>column\<close>. The formatting of a value by the
  streams of the library, with its type, flags and precision, is the argument \<open>fmt\<close>. The clock is an argument, in
  microseconds. The tasks, sockets and frames of the module a probe is are in \<open>Module_Ops\<close>.
\<close>

section \<open>The ring buffer of a column\<close>

record column =
  q_head :: nat
  q_tail :: nat
  q_buffer :: "byte list list"
  q_datatype :: type_index
  q_flags :: nat
  q_prec :: nat
  q_data_size :: nat
  q_str :: bool
  q_name :: string
  q_unit :: string
  q_width :: nat

definition b_from_datatype :: "type_index \<Rightarrow> exn + nat" where
  "b_from_datatype ty = (if type_to_size ty = 0 then Inl Runtime_error else Inr (type_to_size ty))"

text \<open>The number of bytes that are copied, \<^verbatim>\<open>data_sizes[col]\<close> elements of the type of the column.\<close>

definition q_bytes :: "column \<Rightarrow> nat" where
  "q_bytes c = q_data_size c * type_to_size (q_datatype c)"

definition col_size :: "column \<Rightarrow> nat" where
  "col_size c = (size_sub (q_head c) (q_tail c) + (if q_head c \<ge> q_tail c then 0 else length (q_buffer c))) mod 2 ^ 64"

definition push_col :: "byte list \<Rightarrow> column \<Rightarrow> (column, bool) outcome" where
  "push_col x c = (if col_size c = size_sub (length (q_buffer c)) 1 then (Inr False, c)
     else if length (q_buffer c) \<le> q_head c \<or> length x < q_bytes c \<or> length (q_buffer c ! q_head c) < q_bytes c then (Inl UB, c)
     else (Inr True, c\<lparr>q_buffer := (q_buffer c)[q_head c := take (q_bytes c) x @ drop (q_bytes c) (q_buffer c ! q_head c)],
       q_head := (q_head c + 1) mod length (q_buffer c)\<rparr>))"

definition pull_col :: "column \<Rightarrow> (column, byte list option) outcome" where
  "pull_col c = (if col_size c = 0 then (Inr None, c)
     else if length (q_buffer c) \<le> q_tail c \<or> length (q_buffer c ! q_tail c) < q_bytes c then (Inl UB, c)
     else (Inr (Some (take (q_bytes c) (q_buffer c ! q_tail c))), c\<lparr>q_tail := (q_tail c + 1) mod length (q_buffer c)\<rparr>))"

section \<open>State\<close>

datatype probe_kind = PK_value type_index | PK_occurrence | PK_stream | PK_timestamp nat | PK_latency | PK_time
  | PK_throughput nat dbl

text \<open>\<open>pb_reporter\<close>: the probe points at the reporter. \<open>pb_start\<close> is \<^verbatim>\<open>t_start\<close>, \<open>pb_occ\<close> is \<^verbatim>\<open>occurrences\<close>.\<close>

record probe_t =
  pb_kind :: probe_kind
  pb_name :: string
  pb_size :: nat
  pb_n_frames :: nat
  pb_reporter :: bool
  pb_str :: bool
  pb_occ :: int
  pb_start :: int

record reporter =
  rp_probes :: "nat list"
  rp_cols :: "column list"
  rp_name_to_col :: "string \<rightharpoonup> nat"
  rp_col_to_name :: "nat \<rightharpoonup> string"
  rp_n_frames :: nat
  rp_objs :: "nat \<Rightarrow> probe_t"

definition new_reporter :: "string \<Rightarrow> (nat \<Rightarrow> probe_t) \<Rightarrow> exn + reporter" where
  "new_reporter group_name objs = (if group_name = [] then Inl Invalid_argument
     else Inr \<lparr>rp_probes = [], rp_cols = [], rp_name_to_col = (\<lambda>_. None), rp_col_to_name = (\<lambda>_. None), rp_n_frames = 1, rp_objs = objs\<rparr>)"

definition upd_col :: "nat \<Rightarrow> (column \<Rightarrow> column) \<Rightarrow> reporter \<Rightarrow> reporter" where
  "upd_col k f s = s\<lparr>rp_cols := (rp_cols s)[k := f (rp_cols s ! k)]\<rparr>"

definition upd_probe :: "nat \<Rightarrow> (probe_t \<Rightarrow> probe_t) \<Rightarrow> reporter \<Rightarrow> reporter" where
  "upd_probe p f s = s\<lparr>rp_objs := (rp_objs s)(p := f (rp_objs s p))\<rparr>"

section \<open>Pushing a value\<close>

text \<open>
  \<^verbatim>\<open>Reporter_probe::probe\<close>: \<^verbatim>\<open>name_to_col[name]\<close> creates the entry 0 for a name that is not known. There are 100 mutexes.
  The answer of \<^verbatim>\<open>push\<close> is not used: a value that finds the buffer full is lost.
\<close>

definition report_value :: "nat \<Rightarrow> byte list \<Rightarrow> reporter \<Rightarrow> (reporter, unit) outcome" where
  "report_value p x s = (let name = pb_name (rp_objs s p) in
     case (case rp_name_to_col s name of Some k \<Rightarrow> (k, s) | None \<Rightarrow> (0, s\<lparr>rp_name_to_col := (rp_name_to_col s)(name \<mapsto> 0)\<rparr>)) of
       (k, s1) \<Rightarrow>
     if length (rp_cols s1) \<le> k then (Inl UB, s1)
     else if type_to_size (q_datatype (rp_cols s1 ! k)) = 0 then (Inl Runtime_error, s1)
     else if 100 \<le> k then (Inl UB, s1)
     else (case push_col x (rp_cols s1 ! k) of (Inl e, c) \<Rightarrow> (Inl e, upd_col k (\<lambda>_. c) s1)
       | (Inr b, c) \<Rightarrow> (Inr (), upd_col k (\<lambda>_. c) s1)))"

definition proxy_probe :: "nat \<Rightarrow> byte list \<Rightarrow> reporter \<Rightarrow> (reporter, unit) outcome" where
  "proxy_probe p x s = (if \<not> pb_reporter (rp_objs s p) then (Inl Runtime_error, s) else report_value p x s)"

text \<open>\<^verbatim>\<open>_probe\<close> of each class. \<open>x\<close> are the bytes of the input, \<open>now\<close> the clock, \<open>enc\<close> the bytes of a \<^verbatim>\<open>double\<close>.\<close>

definition int64_bytes :: "int \<Rightarrow> byte list" where
  "int64_bytes i = map (\<lambda>k. word_of_int (i div 2 ^ (8 * k))) [0..<8]"

definition on_frames :: "nat \<Rightarrow> byte list \<Rightarrow> reporter \<Rightarrow> (reporter, unit) outcome" where
  "on_frames p x s = foreach (\<lambda>_. proxy_probe p x) [0..<pb_n_frames (rp_objs s p)] s"

definition probe_value :: "byte list \<Rightarrow> nat \<Rightarrow> reporter \<Rightarrow> (reporter, unit) outcome" where
  "probe_value x p s = proxy_probe p x s"

definition count_occurrence :: "nat \<Rightarrow> reporter \<Rightarrow> reporter" where
  "count_occurrence p s = upd_probe p (\<lambda>b. b\<lparr>pb_occ := pb_occ b + 1\<rparr>) s"

definition probe_occurrence :: "nat \<Rightarrow> reporter \<Rightarrow> (reporter, unit) outcome" where
  "probe_occurrence p s = bindo (proxy_probe p (int64_bytes (pb_occ (rp_objs s p))) s) (\<lambda>_ s1. (Inr (), count_occurrence p s1))"

definition probe_stream :: "nat \<Rightarrow> reporter \<Rightarrow> (reporter, unit) outcome" where
  "probe_stream p s = bindo (on_frames p (int64_bytes (pb_occ (rp_objs s p))) s) (\<lambda>_ s1. (Inr (), count_occurrence p s1))"

definition probe_timestamp :: "int \<Rightarrow> nat \<Rightarrow> nat \<Rightarrow> reporter \<Rightarrow> (reporter, unit) outcome" where
  "probe_timestamp now m p s = on_frames p (int64_bytes (if m = 0 then now else now mod int m)) s"

definition probe_latency :: "int \<Rightarrow> nat \<Rightarrow> reporter \<Rightarrow> (reporter, unit) outcome" where
  "probe_latency now p s = on_frames p (int64_bytes (now - pb_start (rp_objs s p))) (upd_probe p (\<lambda>b. b\<lparr>pb_start := now\<rparr>) s)"

text \<open>The time since \<^verbatim>\<open>t_start\<close> in seconds: a number of microseconds as a \<^verbatim>\<open>double\<close>, multiplied by \<^verbatim>\<open>1e-6\<close>.\<close>

definition seconds_since :: "int \<Rightarrow> probe_t \<Rightarrow> dbl" where
  "seconds_since now b = dbl_mul (dbl_of_int (now - pb_start b)) (Fin (round_bits 53 (1 / 1000000)))"

definition probe_time :: "(dbl \<Rightarrow> byte list) \<Rightarrow> int \<Rightarrow> nat \<Rightarrow> reporter \<Rightarrow> (reporter, unit) outcome" where
  "probe_time enc now p s = on_frames p (enc (seconds_since now (rp_objs s p))) s"

definition probe_throughput :: "(dbl \<Rightarrow> byte list) \<Rightarrow> int \<Rightarrow> nat \<Rightarrow> dbl \<Rightarrow> nat \<Rightarrow> reporter \<Rightarrow> (reporter, unit) outcome" where
  "probe_throughput enc now data_size factor p s = (let b = rp_objs s p;
     thr = dbl_div (dbl_div (dbl_of_int (int (data_size * pb_n_frames b mod 2 ^ 64))) factor) (seconds_since now b)
     in on_frames p (enc thr) (upd_probe p (\<lambda>b. b\<lparr>pb_start := now\<rparr>) s))"

definition run_probe :: "(dbl \<Rightarrow> byte list) \<Rightarrow> int \<Rightarrow> byte list \<Rightarrow> nat \<Rightarrow> reporter \<Rightarrow> (reporter, unit) outcome" where
  "run_probe enc now x p s = (case pb_kind (rp_objs s p) of
     PK_value ty \<Rightarrow> probe_value x p s
   | PK_occurrence \<Rightarrow> probe_occurrence p s
   | PK_stream \<Rightarrow> probe_stream p s
   | PK_timestamp m \<Rightarrow> probe_timestamp now m p s
   | PK_latency \<Rightarrow> probe_latency now p s
   | PK_time \<Rightarrow> probe_time enc now p s
   | PK_throughput data_size factor \<Rightarrow> probe_throughput enc now data_size factor p s)"

definition reset_probe :: "int \<Rightarrow> nat \<Rightarrow> reporter \<Rightarrow> reporter" where
  "reset_probe now p s = upd_probe p (\<lambda>b. case pb_kind b of
       PK_occurrence \<Rightarrow> b\<lparr>pb_occ := 0\<rparr> | PK_stream \<Rightarrow> b\<lparr>pb_occ := 0\<rparr>
     | PK_latency \<Rightarrow> b\<lparr>pb_start := now\<rparr> | PK_time \<Rightarrow> b\<lparr>pb_start := now\<rparr> | PK_throughput d f \<Rightarrow> b\<lparr>pb_start := now\<rparr> | _ \<Rightarrow> b) s"

definition reset_reporter :: "int \<Rightarrow> reporter \<Rightarrow> reporter" where
  "reset_reporter now s = fold (reset_probe now) (rp_probes s) (s\<lparr>rp_cols := map (\<lambda>c. c\<lparr>q_head := 0, q_tail := 0\<rparr>) (rp_cols s)\<rparr>)"

section \<open>The number of frames\<close>

text \<open>
  A probe and its reporter call each other: \<^verbatim>\<open>Probe::set_n_frames\<close> ends with the call of \<^verbatim>\<open>set_n_frames\<close> of the reporter
  (\<open>next\<close>), which changes its number first and then calls the one of every probe. \<^verbatim>\<open>Module::set_n_frames\<close> refuses 0.
  The fuel bounds the depth of the calls; 2 is enough (\<open>frames_fuel\<close>).
\<close>

definition probe_set_n_frames ::
  "(nat \<Rightarrow> reporter \<Rightarrow> (reporter, unit) outcome option) \<Rightarrow> nat \<Rightarrow> nat \<Rightarrow> reporter \<Rightarrow> (reporter, unit) outcome option" where
  "probe_set_n_frames rep n p s = (if pb_n_frames (rp_objs s p) = n then Some (Inr (), s)
     else if n = 0 then Some (Inl Invalid_argument, s)
     else let s1 = upd_probe p (\<lambda>b. b\<lparr>pb_n_frames := n\<rparr>) s in
       if pb_reporter (rp_objs s1 p) then rep n s1 else Some (Inr (), s1))"

definition resize_vec :: "nat \<Rightarrow> 'a \<Rightarrow> 'a list \<Rightarrow> 'a list" where
  "resize_vec n x xs = take n xs @ replicate (n - length xs) x"

definition resize_col :: "nat \<Rightarrow> column \<Rightarrow> column" where
  "resize_col n c = c\<lparr>q_buffer := resize_vec n (replicate (q_bytes c) 0) (q_buffer c)\<rparr>"

fun frames_loop :: "(nat \<Rightarrow> nat \<Rightarrow> reporter \<Rightarrow> (reporter, unit) outcome option) \<Rightarrow> nat \<Rightarrow> nat \<Rightarrow> (nat \<times> nat) list \<Rightarrow>
    reporter \<Rightarrow> (reporter, unit) outcome option" where
  "frames_loop prb old n [] s = Some (Inr (), s)"
| "frames_loop prb old n ((k, p) # ps) s = (case prb n p s of None \<Rightarrow> None | Some (Inl e, s1) \<Rightarrow> Some (Inl e, s1)
     | Some (Inr _, s1) \<Rightarrow> if old = 0 then Some (Inl UB, s1)
         else frames_loop prb old n ps (upd_col k (\<lambda>c. resize_col (n * (length (q_buffer c) div old)) c) s1))"

fun reporter_set_n_frames :: "nat \<Rightarrow> nat \<Rightarrow> reporter \<Rightarrow> (reporter, unit) outcome option" where
  "reporter_set_n_frames 0 n s = None"
| "reporter_set_n_frames (Suc k) n s = (if n = rp_n_frames s then Some (Inr (), s)
     else frames_loop (probe_set_n_frames (reporter_set_n_frames k)) (rp_n_frames s) n
       (enumerate 0 (rp_probes s)) (s\<lparr>rp_n_frames := n\<rparr>))"

section \<open>Registration and columns\<close>

definition register_probe ::
  "nat \<Rightarrow> nat \<Rightarrow> nat \<Rightarrow> type_index \<Rightarrow> string \<Rightarrow> nat \<Rightarrow> nat \<Rightarrow> nat \<Rightarrow> reporter \<Rightarrow> (reporter, unit) outcome option" where
  "register_probe fuel p data_size ty unit buffer_size ff precision s = (let b = rp_objs s p in
     if pb_name b = [] then Some (Inl Invalid_argument, s)
     else if buffer_size = 0 then Some (Inl Invalid_argument, s)
     else if p \<in> set (rp_probes s) then Some (Inl Invalid_argument, s)
     else case probe_set_n_frames (reporter_set_n_frames fuel) (rp_n_frames s) p s of None \<Rightarrow> None
     | Some (Inl e, s1) \<Rightarrow> Some (Inl e, s1)
     | Some (Inr _, s1) \<Rightarrow> let s2 = s1\<lparr>rp_probes := rp_probes s1 @ [p]\<rparr> in
       (case b_from_datatype ty of Inl e \<Rightarrow> Some (Inl e, s2)
        | Inr n \<Rightarrow> let width = length (pb_name b) + 2; k = length (rp_cols s2);
            c = \<lparr>q_head = 0, q_tail = 0, q_buffer = replicate (rp_n_frames s2 * buffer_size) (replicate (data_size * n) 0),
                 q_datatype = ty, q_flags = ff, q_prec = precision, q_data_size = data_size, q_str = pb_str b,
                 q_name = pb_name b, q_unit = unit, q_width = (if pb_str b then max width (data_size + 2) else width)\<rparr> in
          Some (Inr (), s2\<lparr>rp_cols := rp_cols s2 @ [c], rp_name_to_col := (rp_name_to_col s2)(pb_name b \<mapsto> k),
            rp_col_to_name := (rp_col_to_name s2)(k \<mapsto> pb_name b)\<rparr>)))"

text \<open>
  The arguments each class registers with: the number of elements, the type, the unit, the flags
  (scientific or fixed) and the precision; the buffers have 100 values per frame.
\<close>

definition fl_scientific :: nat where "fl_scientific = 1"
definition fl_fixed :: nat where "fl_fixed = 2"

fun registration :: "probe_kind \<Rightarrow> nat \<Rightarrow> nat \<times> type_index \<times> string \<times> nat \<times> nat" where
  "registration (PK_value ty) n = (n, ty, '''', fl_scientific, 3)"
| "registration PK_occurrence n = (1, T_int64, '''', fl_scientific, 3)"
| "registration PK_stream n = (1, T_int64, '''', fl_scientific, 3)"
| "registration (PK_timestamp m) n = (1, T_uint64, ''(us)'', fl_scientific, 2)"
| "registration PK_latency n = (1, T_int64, ''(us)'', fl_scientific, 3)"
| "registration PK_time n = (1, T_double, ''(sec)'', fl_fixed, 2)"
| "registration (PK_throughput d f) n = (1, T_double, '''', fl_fixed, 3)"

definition register_reporter :: "nat \<Rightarrow> nat \<Rightarrow> reporter \<Rightarrow> (reporter, unit) outcome option" where
  "register_reporter fuel p s = (let b = rp_objs s p in
     if pb_reporter b then Some (Inl Runtime_error, s)
     else case registration (pb_kind b) (pb_size b) of (n, ty, unit, ff, prec) \<Rightarrow>
       register_probe fuel p n ty unit 100 ff prec (upd_probe p (\<lambda>b. b\<lparr>pb_reporter := True\<rparr>) s))"

text \<open>\<open>None\<close> is a null pointer.\<close>

fun register_probes :: "nat \<Rightarrow> nat option list \<Rightarrow> reporter \<Rightarrow> (reporter, unit) outcome option" where
  "register_probes fuel [] s = Some (Inr (), s)"
| "register_probes fuel (None # ps) s = Some (Inl Invalid_argument, s)"
| "register_probes fuel (Some p # ps) s = (case register_reporter fuel p s of None \<Rightarrow> None
     | Some (Inl e, s1) \<Rightarrow> Some (Inl e, s1) | Some (Inr _, s1) \<Rightarrow> register_probes fuel ps s1)"

definition get_probe_index :: "nat \<Rightarrow> reporter \<Rightarrow> exn + nat" where
  "get_probe_index p s = (case find_pos p (rp_probes s) of Some k \<Rightarrow> Inr k | None \<Rightarrow> Inl Invalid_argument)"

definition set_col :: "(column \<Rightarrow> column) \<Rightarrow> nat \<Rightarrow> reporter \<Rightarrow> (reporter, unit) outcome" where
  "set_col f p s = (case get_probe_index p s of Inl e \<Rightarrow> (Inl e, s)
     | Inr k \<Rightarrow> if length (rp_cols s) \<le> k then (Inl UB, s) else (Inr (), upd_col k f s))"

definition set_col_unit :: "string \<Rightarrow> nat \<Rightarrow> reporter \<Rightarrow> (reporter, unit) outcome" where
  "set_col_unit unit = set_col (\<lambda>c. c\<lparr>q_unit := unit\<rparr>)"

definition set_col_buff_size :: "nat \<Rightarrow> nat \<Rightarrow> reporter \<Rightarrow> (reporter, unit) outcome" where
  "set_col_buff_size buffer_size p s = set_col (resize_col (rp_n_frames s * buffer_size)) p s"

definition set_col_fmtflags :: "nat \<Rightarrow> nat \<Rightarrow> reporter \<Rightarrow> (reporter, unit) outcome" where
  "set_col_fmtflags ff = set_col (\<lambda>c. c\<lparr>q_flags := ff\<rparr>)"

definition set_col_prec :: "nat \<Rightarrow> nat \<Rightarrow> reporter \<Rightarrow> (reporter, unit) outcome" where
  "set_col_prec precision = set_col (\<lambda>c. c\<lparr>q_prec := precision\<rparr>)"

definition set_col_width :: "nat \<Rightarrow> nat \<Rightarrow> reporter \<Rightarrow> (reporter, unit) outcome" where
  "set_col_width width = set_col (\<lambda>c. c\<lparr>q_width := width\<rparr>)"

text \<open>The forms with an \<^verbatim>\<open>s\<close> call these on every probe; the ones of a probe check that it has a reporter.\<close>

definition set_cols :: "(nat \<Rightarrow> reporter \<Rightarrow> (reporter, unit) outcome) \<Rightarrow> reporter \<Rightarrow> (reporter, unit) outcome" where
  "set_cols f s = foreach f (rp_probes s) s"

definition by_probe :: "(nat \<Rightarrow> reporter \<Rightarrow> (reporter, unit) outcome) \<Rightarrow> nat \<Rightarrow> reporter \<Rightarrow> (reporter, unit) outcome" where
  "by_probe f p s = (if \<not> pb_reporter (rp_objs s p) then (Inl Runtime_error, s) else f p s)"

section \<open>The report\<close>

text \<open>One cell: a column shown as a string writes its buffer even when nothing was pulled.\<close>

definition format_values :: "(type_index \<Rightarrow> nat \<Rightarrow> nat \<Rightarrow> byte list \<Rightarrow> string) \<Rightarrow> column \<Rightarrow> byte list option \<Rightarrow> string" where
  "format_values fmt c r = (if q_str c
     then map (\<lambda>b. char_of (unat b)) (case r of Some x \<Rightarrow> x | None \<Rightarrow> replicate (q_bytes c) 0)
     else (case r of None \<Rightarrow> '''' | Some x \<Rightarrow> fmt (q_datatype c) (q_flags c) (q_prec c) x))"

fun pull_row :: "(type_index \<Rightarrow> nat \<Rightarrow> nat \<Rightarrow> byte list \<Rightarrow> string) \<Rightarrow> column list \<Rightarrow> (column list, string list \<times> bool) outcome" where
  "pull_row fmt [] = (Inr ([], False), [])"
| "pull_row fmt (c # cs) = (if type_to_size (q_datatype c) = 0 then (Inl Runtime_error, c # cs)
     else case pull_col c of (Inl e, c1) \<Rightarrow> (Inl e, c1 # cs)
     | (Inr r, c1) \<Rightarrow> (case pull_row fmt cs of (Inl e, cs1) \<Rightarrow> (Inl e, c1 # cs1)
       | (Inr (ss, b), cs1) \<Rightarrow> (Inr (format_values fmt c r # ss, r \<noteq> None \<or> b), c1 # cs1)))"

partial_function (option) final_rows :: "(type_index \<Rightarrow> nat \<Rightarrow> nat \<Rightarrow> byte list \<Rightarrow> string) \<Rightarrow> string list \<Rightarrow> column list \<Rightarrow>
    (column list, string list) outcome option" where
  "final_rows fmt acc cs = (case pull_row fmt cs of (Inl e, cs1) \<Rightarrow> Some (Inl e, cs1)
     | (Inr (ss, b), cs1) \<Rightarrow> if b then final_rows fmt (acc @ ss) cs1 else Some (Inr acc, cs1))"

fun frame_rows :: "(type_index \<Rightarrow> nat \<Rightarrow> nat \<Rightarrow> byte list \<Rightarrow> string) \<Rightarrow> nat \<Rightarrow> string list \<Rightarrow> column list \<Rightarrow>
    (column list, string list) outcome" where
  "frame_rows fmt 0 acc cs = (Inr acc, cs)"
| "frame_rows fmt (Suc n) acc cs = (case pull_row fmt cs of (Inl e, cs1) \<Rightarrow> (Inl e, cs1)
     | (Inr (ss, b), cs1) \<Rightarrow> frame_rows fmt n (acc @ ss) cs1)"

definition report :: "(type_index \<Rightarrow> nat \<Rightarrow> nat \<Rightarrow> byte list \<Rightarrow> string) \<Rightarrow> bool \<Rightarrow> reporter \<Rightarrow> (reporter, string list) outcome option" where
  "report fmt final s = (if rp_cols s = [] then Some (Inl Runtime_error, s)
     else map_option (\<lambda>(r, cs). (r, s\<lparr>rp_cols := cs\<rparr>))
       (if final then final_rows fmt [] (rp_cols s) else Some (frame_rows fmt (rp_n_frames s) [] (rp_cols s))))"

section \<open>A column is a bounded queue\<close>

text \<open>The interface of a bounded queue, and what any sequence of calls gives.\<close>

datatype 'a q_op = Push 'a | Pull
datatype 'a q_res = Pushed bool | Pulled "'a option"

fun list_queue :: "nat \<Rightarrow> 'a q_op list \<Rightarrow> 'a list \<Rightarrow> 'a q_res list \<times> 'a list" where
  "list_queue room [] xs = ([], xs)"
| "list_queue room (Push x # ops) xs = (case list_queue room ops (if length xs < room then xs @ [x] else xs) of
     (rs, ys) \<Rightarrow> (Pushed (length xs < room) # rs, ys))"
| "list_queue room (Pull # ops) xs = (case list_queue room ops (tl xs) of
     (rs, ys) \<Rightarrow> (Pulled (case xs of [] \<Rightarrow> None | x # _ \<Rightarrow> Some x) # rs, ys))"

fun run_queue :: "('a \<Rightarrow> 'q \<Rightarrow> ('q, bool) outcome) \<Rightarrow> ('q \<Rightarrow> ('q, 'a option) outcome) \<Rightarrow> 'a q_op list \<Rightarrow> 'q \<Rightarrow> ('q, 'a q_res list) outcome" where
  "run_queue push pull [] q = (Inr [], q)"
| "run_queue push pull (Push x # ops) q = bindo (push x q) (\<lambda>b q1. bindo (run_queue push pull ops q1) (\<lambda>rs q2. (Inr (Pushed b # rs), q2)))"
| "run_queue push pull (Pull # ops) q = bindo (pull q) (\<lambda>r q1. bindo (run_queue push pull ops q1) (\<lambda>rs q2. (Inr (Pulled r # rs), q2)))"

locale bounded_queue =
  fixes ok :: "'q \<Rightarrow> bool" and elems :: "'q \<Rightarrow> 'a list" and room :: "'q \<Rightarrow> nat" and fits :: "'q \<Rightarrow> 'a \<Rightarrow> bool"
    and push :: "'a \<Rightarrow> 'q \<Rightarrow> ('q, bool) outcome" and pull :: "'q \<Rightarrow> ('q, 'a option) outcome"
  assumes push_law: "ok q \<Longrightarrow> fits q x \<Longrightarrow> \<exists>q1. push x q = (Inr (length (elems q) < room q), q1) \<and> ok q1 \<and> room q1 = room q \<and>
      fits q1 = fits q \<and> elems q1 = (if length (elems q) < room q then elems q @ [x] else elems q)"
    and pull_law: "ok q \<Longrightarrow> \<exists>q1. pull q = (Inr (case elems q of [] \<Rightarrow> None | x # _ \<Rightarrow> Some x), q1) \<and> ok q1 \<and> room q1 = room q \<and>
      fits q1 = fits q \<and> elems q1 = tl (elems q)"
begin

lemma refines_list_queue:
  "ok q \<Longrightarrow> (\<forall>x. Push x \<in> set ops \<longrightarrow> fits q x) \<Longrightarrow>
     \<exists>q1. run_queue push pull ops q = (Inr (fst (list_queue (room q) ops (elems q))), q1) \<and> ok q1 \<and>
       elems q1 = snd (list_queue (room q) ops (elems q))"
proof (induction ops arbitrary: q)
  case (Cons a ops)
  show ?case
  proof (cases a)
    case (Push x)
    with Cons.prems have "fits q x" by simp
    from push_law [OF Cons.prems(1) this] obtain q1 where q1: "push x q = (Inr (length (elems q) < room q), q1)" "ok q1"
      "room q1 = room q" "fits q1 = fits q" "elems q1 = (if length (elems q) < room q then elems q @ [x] else elems q)" by blast
    from Cons.IH [OF q1(2)] Cons.prems(2) q1(3-5) show ?thesis
      by (auto simp: Push q1(1) split: prod.split)
  next
    case Pull
    from pull_law [OF Cons.prems(1)] obtain q1 where q1: "pull q = (Inr (case elems q of [] \<Rightarrow> None | x # _ \<Rightarrow> Some x), q1)" "ok q1"
      "room q1 = room q" "fits q1 = fits q" "elems q1 = tl (elems q)" by blast
    from Cons.IH [OF q1(2)] Cons.prems(2) q1(3-5) show ?thesis
      by (auto simp: Pull q1(1) split: prod.split)
  qed
qed simp

end

text \<open>The columns: a slot is left free, so a buffer of \<open>n\<close> slots holds \<open>n - 1\<close> values.\<close>

definition ok_col :: "column \<Rightarrow> bool" where
  "ok_col c \<longleftrightarrow> q_head c < length (q_buffer c) \<and> q_tail c < length (q_buffer c) \<and> length (q_buffer c) < 2 ^ 64 \<and>
     (\<forall>x \<in> set (q_buffer c). length x = q_bytes c)"

definition queued :: "column \<Rightarrow> nat" where
  "queued c = (if q_tail c \<le> q_head c then q_head c - q_tail c else q_head c + length (q_buffer c) - q_tail c)"

definition q_list :: "column \<Rightarrow> byte list list" where
  "q_list c = map (\<lambda>i. q_buffer c ! ((q_tail c + i) mod length (q_buffer c))) [0..<queued c]"

definition q_room :: "column \<Rightarrow> nat" where
  "q_room c = length (q_buffer c) - 1"

definition q_fits :: "column \<Rightarrow> byte list \<Rightarrow> bool" where
  "q_fits c x \<longleftrightarrow> length x = q_bytes c"

lemma col_size_queued: "ok_col c \<Longrightarrow> col_size c = queued c"
proof -
  assume ok: "ok_col c"
  show ?thesis
  proof (cases "q_tail c \<le> q_head c")
    case True
    from ok have "q_head c - q_tail c < 2 ^ 64" by (auto simp: ok_col_def)
    with True show ?thesis by (simp add: col_size_def queued_def size_sub_def)
  next
    case False
    with ok have "q_head c + 2 ^ 64 - q_tail c + length (q_buffer c) = 2 ^ 64 + queued c" "queued c < 2 ^ 64"
      by (auto simp: ok_col_def queued_def)
    then have "(q_head c + 2 ^ 64 - q_tail c + length (q_buffer c)) mod 2 ^ 64 = queued c" by (simp only: mod_add_self1 mod_less)
    with False show ?thesis by (simp add: col_size_def size_sub_def)
  qed
qed

lemma length_q_list [simp]: "length (q_list c) = queued c"
  by (simp add: q_list_def)

lemma queued_le: "ok_col c \<Longrightarrow> queued c \<le> q_room c"
  by (auto simp: ok_col_def queued_def q_room_def)

lemma last_slot: "ok_col c \<Longrightarrow> (q_tail c + queued c) mod length (q_buffer c) = q_head c"
  by (auto simp: ok_col_def queued_def)

lemma other_slot:
  assumes "ok_col c" and "i < queued c"
  shows "(q_tail c + i) mod length (q_buffer c) \<noteq> q_head c"
proof -
  have "i < length (q_buffer c)" using queued_le [OF assms(1)] assms by (auto simp: ok_col_def q_room_def)
  with assms show ?thesis by (auto simp: ok_col_def queued_def mod_if split: if_splits)
qed

lemma next_head:
  assumes "ok_col c" and "queued c < q_room c"
  shows "queued (c\<lparr>q_buffer := (q_buffer c)[q_head c := x], q_head := Suc (q_head c) mod length (q_buffer c)\<rparr>) = Suc (queued c)"
  using assms by (auto simp: ok_col_def queued_def q_room_def mod_Suc split: if_splits)

lemma next_tail:
  assumes "ok_col c" and "0 < queued c"
  shows "queued (c\<lparr>q_tail := Suc (q_tail c) mod length (q_buffer c)\<rparr>) = queued c - 1"
  using assms by (auto simp: ok_col_def queued_def q_room_def mod_Suc split: if_splits)

lemma q_bytes_upd [simp]:
  "q_bytes (c\<lparr>q_buffer := b\<rparr>) = q_bytes c" "q_bytes (c\<lparr>q_head := h\<rparr>) = q_bytes c" "q_bytes (c\<lparr>q_tail := t\<rparr>) = q_bytes c"
  by (simp_all add: q_bytes_def)

lemma push_col_law:
  assumes ok: "ok_col c" and x: "q_fits c x"
  shows "\<exists>c1. push_col x c = (Inr (length (q_list c) < q_room c), c1) \<and> ok_col c1 \<and> q_room c1 = q_room c \<and>
      q_fits c1 = q_fits c \<and> q_list c1 = (if length (q_list c) < q_room c then q_list c @ [x] else q_list c)"
proof (cases "queued c < q_room c")
  case False
  then have "col_size c = size_sub (length (q_buffer c)) 1"
    using col_size_queued [OF ok] queued_le [OF ok] ok by (auto simp: q_room_def size_sub_def ok_col_def)
  with False show ?thesis by (simp add: push_col_def ok)
next
  case True
  let ?n = "length (q_buffer c)"
  let ?c = "c\<lparr>q_buffer := (q_buffer c)[q_head c := x], q_head := Suc (q_head c) mod ?n\<rparr>"
  have h: "q_head c < ?n" "length (q_buffer c ! q_head c) = q_bytes c" using ok by (auto simp: ok_col_def)
  have "push_col x c = (Inr True, ?c)"
    using True h x col_size_queued [OF ok] ok by (auto simp: push_col_def q_fits_def q_room_def size_sub_def ok_col_def)
  moreover have "Suc (q_head c) mod ?n < ?n" using h(1) by (intro mod_less_divisor) linarith
  then have "ok_col ?c" using ok x by (auto simp: ok_col_def q_fits_def dest!: subsetD [OF set_update_subset_insert])
  moreover have "q_list ?c = q_list c @ [x]"
    using other_slot [OF ok] last_slot [OF ok] h next_head [OF ok True]
    by (simp add: q_list_def) (metis atLeastLessThan_iff nth_list_update_neq)
  ultimately show ?thesis using True by (auto simp: q_room_def q_fits_def fun_eq_iff)
qed

lemma pull_col_law:
  assumes ok: "ok_col c"
  shows "\<exists>c1. pull_col c = (Inr (case q_list c of [] \<Rightarrow> None | x # _ \<Rightarrow> Some x), c1) \<and> ok_col c1 \<and> q_room c1 = q_room c \<and>
      q_fits c1 = q_fits c \<and> q_list c1 = tl (q_list c)"
proof (cases "queued c")
  case 0
  then have "q_list c = []" by (simp add: q_list_def)
  then show ?thesis using 0 ok col_size_queued [OF ok] by (simp add: pull_col_def)
next
  case (Suc k)
  let ?n = "length (q_buffer c)"
  let ?c = "c\<lparr>q_tail := Suc (q_tail c) mod ?n\<rparr>"
  have t: "q_tail c < ?n" "length (q_buffer c ! q_tail c) = q_bytes c" using ok by (auto simp: ok_col_def)
  have l: "q_list c = q_buffer c ! q_tail c # map (\<lambda>i. q_buffer c ! ((q_tail c + Suc i) mod ?n)) [0..<k]"
    using t(1) by (simp add: q_list_def Suc upt_conv_Cons map_Suc_upt [symmetric] del: upt_Suc)
  have "pull_col c = (Inr (Some (q_buffer c ! q_tail c)), ?c)"
    using Suc t col_size_queued [OF ok] by (auto simp: pull_col_def)
  moreover have "Suc (q_tail c) mod ?n < ?n" using t(1) by (intro mod_less_divisor) linarith
  then have "ok_col ?c" using ok by (auto simp: ok_col_def)
  moreover have "q_list ?c = map (\<lambda>i. q_buffer c ! ((q_tail c + Suc i) mod ?n)) [0..<k]"
    using next_tail [OF ok] Suc by (simp add: q_list_def mod_simps)
  ultimately show ?thesis using l by (auto simp: q_room_def q_fits_def fun_eq_iff)
qed

interpretation col_queue: bounded_queue ok_col q_list q_room q_fits push_col pull_col
  by unfold_locales (rule push_col_law pull_col_law; assumption)+

text \<open>
  C25: A column of the reporter is a bounded queue: whatever the sequence of pushes and pulls, they answer as a list
  that refuses the values beyond the number of slots minus one, no access is out of the buffer, and the values that
  are left are the ones of the list.
\<close>

theorem reporter_column_is_a_bounded_queue:
  assumes "ok_col c" and "\<forall>x. Push x \<in> set ops \<longrightarrow> q_fits c x"
  shows "\<exists>c1. run_queue push_col pull_col ops c = (Inr (fst (list_queue (q_room c) ops (q_list c))), c1) \<and> ok_col c1 \<and>
    q_list c1 = snd (list_queue (q_room c) ops (q_list c))"
  by (rule col_queue.refines_list_queue [OF assms])

lemma reporter_column_is_a_bounded_queue_witness:
  "\<exists>c1. run_queue push_col pull_col [Push [1], Push [2], Pull, Push [3], Push [4]]
     \<lparr>q_head = 2, q_tail = 2, q_buffer = replicate 3 [0], q_datatype = T_int8, q_flags = 0, q_prec = 0, q_data_size = 1,
       q_str = False, q_name = ''a'', q_unit = '''', q_width = 3\<rparr> =
     (Inr [Pushed True, Pushed True, Pulled (Some [1]), Pushed True, Pushed False], c1) \<and> q_list c1 = [[2], [3]]"
proof -
  let ?c = "\<lparr>q_head = 2, q_tail = 2, q_buffer = replicate 3 [0], q_datatype = T_int8, q_flags = 0, q_prec = 0, q_data_size = 1,
       q_str = False, q_name = ''a'', q_unit = '''', q_width = 3\<rparr> :: column"
  let ?ops = "[Push [1], Push [2], Pull, Push [3], Push [4]] :: byte list q_op list"
  have "ok_col ?c" "\<forall>x. Push x \<in> set ?ops \<longrightarrow> q_fits ?c x" "q_room ?c = 2" "q_list ?c = []"
    by (auto simp: ok_col_def q_bytes_def q_fits_def q_room_def q_list_def queued_def)
  note c = this
  from reporter_column_is_a_bounded_queue [OF c(1,2)] obtain c1 where
    "run_queue push_col pull_col ?ops ?c = (Inr (fst (list_queue 2 ?ops [])), c1)" "q_list c1 = snd (list_queue 2 ?ops [])"
    unfolding c(3,4) by blast
  moreover have "list_queue 2 ?ops [] = ([Pushed True, Pushed True, Pulled (Some [1]), Pushed True, Pushed False], [[2], [3]])" by simp
  ultimately show ?thesis by (intro exI [of _ c1]) (simp only: fst_conv snd_conv)
qed

end
