(* ===== verification/Reports.thy ===== *)
theory Reports
  imports Reporters
begin

text \<open>
  What the reporter gives back (\<^verbatim>\<open>Reporter_probe.cpp\<close>): the final report returns and holds every value of every column, in
  the order they were pushed; the calls between the probes and the reporter on a change of the number of frames end.
\<close>

section \<open>Rows\<close>

definition col_ok :: "column \<Rightarrow> bool" where
  "col_ok c \<longleftrightarrow> ok_col c \<and> type_to_size (q_datatype c) \<noteq> 0"

lemma pull_col_only_moves: "\<exists>t. snd (pull_col c) = c\<lparr>q_tail := t\<rparr>"
  by (cases "snd (pull_col c) = c") (auto simp: pull_col_def intro: exI [of _ "q_tail c"])

lemma format_moved [simp]: "format_values fmt (c\<lparr>q_tail := t\<rparr>) = format_values fmt c"
  by (rule ext) (simp add: format_values_def q_bytes_def split: option.split)

lemma pull_col_row:
  assumes "col_ok c"
  obtains c1 where "pull_col c = (Inr (case q_list c of [] \<Rightarrow> None | x # _ \<Rightarrow> Some x), c1)" "col_ok c1"
    "q_list c1 = tl (q_list c)" "format_values fmt c1 = format_values fmt c"
proof -
  from pull_col_law [of c] assms obtain c1 where c1: "pull_col c = (Inr (case q_list c of [] \<Rightarrow> None | x # _ \<Rightarrow> Some x), c1)"
    "ok_col c1" "q_list c1 = tl (q_list c)" by (auto simp: col_ok_def)
  obtain t where "c1 = c\<lparr>q_tail := t\<rparr>" using pull_col_only_moves [of c] c1(1) by auto
  with c1 assms that show thesis by (auto simp: col_ok_def)
qed

text \<open>The cell of a column in the row \<open>r\<close>.\<close>

definition cell :: "(type_index \<Rightarrow> nat \<Rightarrow> nat \<Rightarrow> byte list \<Rightarrow> string) \<Rightarrow> nat \<Rightarrow> column \<Rightarrow> string" where
  "cell fmt r c = format_values fmt c (if r < length (q_list c) then Some (q_list c ! r) else None)"

definition rows_left :: "column list \<Rightarrow> nat" where
  "rows_left cs = fold (\<lambda>c. max (length (q_list c))) cs 0"

lemma fold_max: "fold (\<lambda>c. max (f c)) cs a = max a (fold (\<lambda>c. max (f c)) cs (0 :: nat))"
proof (induction cs arbitrary: a)
  case (Cons c cs)
  show ?case using Cons [of "max (f c) a"] Cons [of "max (f c) 0"] by simp
qed simp

lemma rows_left_simps [simp]: "rows_left [] = 0" "rows_left (c # cs) = max (length (q_list c)) (rows_left cs)"
  using fold_max [of "\<lambda>c. length (q_list c)" cs "length (q_list c)"] by (simp_all add: rows_left_def)

lemma pull_row_law:
  assumes "\<forall>c \<in> set cs. col_ok c"
  shows "\<exists>cs1. pull_row fmt cs = (Inr (map (cell fmt 0) cs, rows_left cs \<noteq> 0), cs1) \<and> (\<forall>c \<in> set cs1. col_ok c) \<and>
    rows_left cs1 = rows_left cs - 1 \<and> map (\<lambda>c. cell fmt r c) cs1 = map (\<lambda>c. cell fmt (Suc r) c) cs"
  using assms
proof (induction cs)
  case (Cons c cs)
  from Cons.prems have ok: "col_ok c" by simp
  obtain c1 where c1: "pull_col c = (Inr (case q_list c of [] \<Rightarrow> None | x # _ \<Rightarrow> Some x), c1)" "col_ok c1"
    "q_list c1 = tl (q_list c)" "format_values fmt c1 = format_values fmt c" by (rule pull_col_row [OF ok])
  from Cons obtain cs1 where cs1: "pull_row fmt cs = (Inr (map (cell fmt 0) cs, rows_left cs \<noteq> 0), cs1)" "\<forall>c \<in> set cs1. col_ok c"
    "rows_left cs1 = rows_left cs - 1" "map (\<lambda>c. cell fmt r c) cs1 = map (\<lambda>c. cell fmt (Suc r) c) cs" by auto
  have "cell fmt r c1 = cell fmt (Suc r) c"
    using c1(3,4) by (cases "q_list c") (simp_all add: cell_def)
  moreover have "format_values fmt c (case q_list c of [] \<Rightarrow> None | x # _ \<Rightarrow> Some x) = cell fmt 0 c"
    by (cases "q_list c") (simp_all add: cell_def)
  moreover have "(case q_list c of [] \<Rightarrow> None | x # _ \<Rightarrow> Some x) \<noteq> None \<longleftrightarrow> length (q_list c) \<noteq> 0"
    by (cases "q_list c") simp_all
  moreover have "rows_left (c # cs) \<noteq> 0 \<longleftrightarrow> length (q_list c) \<noteq> 0 \<or> rows_left cs \<noteq> 0" by (auto simp del: length_q_list)
  ultimately have "pull_row fmt (c # cs) = (Inr (map (cell fmt 0) (c # cs), rows_left (c # cs) \<noteq> 0), c1 # cs1)"
    and cells: "map (cell fmt r) (c1 # cs1) = map (cell fmt (Suc r)) (c # cs)"
    using ok cs1(4) by (simp_all add: col_ok_def c1(1) cs1(1) del: rows_left_simps length_q_list)
  moreover have "rows_left (c1 # cs1) = rows_left (c # cs) - 1" using c1(3) cs1(3) by (auto simp: max_def simp del: length_q_list)
  ultimately show ?case using c1(2) cs1(2) by (intro exI [of _ "c1 # cs1"]) (simp del: list.map rows_left_simps)
qed simp

section \<open>The final report\<close>

text \<open>
  C32: The final report returns, whatever the columns hold, and gives one row of cells for each rank up to the longest column: the
  values of each column in the order they were pushed, and empty cells after its last value. All the columns are empty afterwards.
\<close>

theorem final_report_gives_every_value:
  assumes "rp_cols s \<noteq> []" and "\<forall>c \<in> set (rp_cols s). col_ok c"
  shows "\<exists>s1. report fmt True s = Some (Inr (concat (map (\<lambda>r. map (cell fmt r) (rp_cols s)) [0..<rows_left (rp_cols s)])), s1) \<and>
    (\<forall>c \<in> set (rp_cols s1). q_list c = [])"
proof -
  have "\<exists>cs1. final_rows fmt acc cs = Some (Inr (acc @ concat (map (\<lambda>r. map (cell fmt r) cs) [0..<n])), cs1) \<and>
      (\<forall>c \<in> set cs1. q_list c = [])" if "\<forall>c \<in> set cs. col_ok c" "rows_left cs = n" for acc cs n
    using that
  proof (induction n arbitrary: acc cs)
    case 0
    obtain cs1 where cs1: "pull_row fmt cs = (Inr (map (cell fmt 0) cs, False), cs1)" "rows_left cs1 = 0"
      using pull_row_law [OF 0(1), of fmt 0] 0(2) by auto
    have "\<forall>c \<in> set cs. q_list c = []" if "rows_left cs = 0" for cs using that by (induction cs) (auto simp del: length_q_list)
    with cs1 show ?case by (subst final_rows.simps) simp
  next
    case (Suc n)
    obtain cs1 where cs1: "pull_row fmt cs = (Inr (map (cell fmt 0) cs, True), cs1)" "\<forall>c \<in> set cs1. col_ok c" "rows_left cs1 = n"
      using pull_row_law [OF Suc(2), of fmt 0] Suc(3) by auto
    have rows: "map (cell fmt r) cs1 = map (cell fmt (Suc r)) cs" for r
      using pull_row_law [OF Suc(2), of fmt r] cs1(1) by auto
    from Suc.IH [OF cs1(2,3), of "acc @ map (cell fmt 0) cs"] show ?case
      by (subst final_rows.simps) (simp add: cs1(1) rows upt_conv_Cons map_Suc_upt [symmetric] comp_def del: upt_Suc)
  qed
  from this [OF assms(2) refl, of "[]"] show ?thesis using assms(1) by (auto simp: report_def)
qed

lemma final_report_gives_every_value_witness:
  "\<exists>s1. report (\<lambda>_ _ _ _. ''v'') True
     \<lparr>rp_probes = [4], rp_cols = [\<lparr>q_head = 0, q_tail = 1, q_buffer = [[7], [5], [6]], q_datatype = T_int8, q_flags = 0, q_prec = 0,
        q_data_size = 1, q_str = True, q_name = ''a'', q_unit = '''', q_width = 3\<rparr>],
      rp_name_to_col = [''a'' \<mapsto> 0], rp_col_to_name = [0 \<mapsto> ''a''], rp_n_frames = 1, rp_objs = (\<lambda>_. undefined)\<rparr> =
     Some (Inr [[char_of (5 :: nat)], [char_of (6 :: nat)]], s1)"
proof -
  define c where "c = \<lparr>q_head = 0, q_tail = 1, q_buffer = [[7], [5], [6]], q_datatype = T_int8, q_flags = 0, q_prec = 0,
        q_data_size = 1, q_str = True, q_name = ''a'', q_unit = '''', q_width = 3\<rparr>"
  let ?s = "\<lparr>rp_probes = [4], rp_cols = [c],
      rp_name_to_col = [''a'' \<mapsto> 0], rp_col_to_name = [0 \<mapsto> ''a''], rp_n_frames = 1, rp_objs = (\<lambda>_. undefined)\<rparr> :: reporter"
  have l: "q_list c = [[5], [6]]" by (simp add: c_def q_list_def queued_def upt_conv_Cons)
  have "rp_cols ?s \<noteq> []" "\<forall>c \<in> set (rp_cols ?s). col_ok c" by (auto simp: c_def col_ok_def ok_col_def q_bytes_def)
  note s = final_report_gives_every_value [OF this, of "\<lambda>_ _ _ _. ''v''"]
  have "rows_left (rp_cols ?s) = 2" by (simp add: l del: length_q_list)
  moreover have "cell (\<lambda>_ _ _ _. ''v'') 0 c = [char_of (5 :: nat)]" "cell (\<lambda>_ _ _ _. ''v'') 1 c = [char_of (6 :: nat)]"
    by (simp_all add: cell_def format_values_def l c_def [THEN arg_cong [of _ _ q_str]] del: length_q_list)
  moreover have "[0..<2] = [0, 1 :: nat]" by (simp add: upt_conv_Cons)
  ultimately have "concat (map (\<lambda>r. map (cell (\<lambda>_ _ _ _. ''v'') r) (rp_cols ?s)) [0..<rows_left (rp_cols ?s)]) =
      [[char_of (5 :: nat)], [char_of (6 :: nat)]]" by (simp only: list.map concat.simps reporter.simps append.simps)
  with s show ?thesis unfolding c_def by (simp only:) blast
qed

section \<open>The number of frames\<close>

lemma probe_frames_same: "rp_n_frames s = n \<Longrightarrow> \<exists>r s1. probe_set_n_frames (reporter_set_n_frames (Suc k)) n p s = Some (r, s1) \<and> rp_n_frames s1 = n"
  by (auto simp: probe_set_n_frames_def upd_probe_def Let_def)

lemma frames_loop_total:
  "rp_n_frames s = n \<Longrightarrow> \<exists>r s1. frames_loop (probe_set_n_frames (reporter_set_n_frames (Suc k))) old n ps s = Some (r, s1)"
proof (induction ps arbitrary: s)
  case (Cons x ps)
  obtain j p where x: "x = (j, p)" by fastforce
  from probe_frames_same [OF Cons.prems, of k p] obtain r s1 where
    s1: "probe_set_n_frames (reporter_set_n_frames (Suc k)) n p s = Some (r, s1)" "rp_n_frames s1 = n" by blast
  have "rp_n_frames (upd_col j f s1) = n" for f using s1(2) by (simp add: upd_col_def)
  with Cons.IH show ?case using s1(1) by (cases r) (auto simp: x simp del: reporter_set_n_frames.simps)
qed simp

lemma frames_fuel: "\<exists>r s1. reporter_set_n_frames (Suc (Suc k)) n s = Some (r, s1)"
  using frames_loop_total [of "s\<lparr>rp_n_frames := n\<rparr>" n k] by auto

lemma probe_frames_fuel: "\<exists>r s1. probe_set_n_frames (reporter_set_n_frames (Suc (Suc k))) n p s = Some (r, s1)"
  using frames_fuel by (auto simp: probe_set_n_frames_def Let_def)

section \<open>Limits\<close>

text \<open>A buffer that grows while its values wrap around its end: the new slots are taken for values.\<close>

lemma growing_a_wrapped_buffer_adds_values:
  assumes "c = \<lparr>q_head = 0, q_tail = 2, q_buffer = [[1], [2], [3]], q_datatype = T_int8, q_flags = 0, q_prec = 0, q_data_size = 1,
       q_str = False, q_name = ''a'', q_unit = '''', q_width = 3\<rparr>"
  shows "q_list c = [[3]]" and "q_list (resize_col 6 c) = [[3], [0], [0], [0]]"
  by (simp_all add: assms q_list_def queued_def resize_col_def resize_vec_def q_bytes_def upt_conv_Cons)

text \<open>A buffer of one slot holds nothing; one that shrinks can leave the head out of the buffer.\<close>

lemma one_slot_holds_nothing: "length (q_buffer c) = 1 \<Longrightarrow> ok_col c \<Longrightarrow> push_col x c = (Inr False, c)"
  by (simp add: push_col_def col_size_queued size_sub_def ok_col_def queued_def)

lemma shrinking_leaves_the_head_out:
  assumes "c = \<lparr>q_head = 5, q_tail = 4, q_buffer = replicate 6 [1], q_datatype = T_int8, q_flags = 0, q_prec = 0, q_data_size = 1,
       q_str = False, q_name = ''a'', q_unit = '''', q_width = 3\<rparr>"
  shows "fst (push_col [9] (resize_col 3 c)) = Inl UB"
  by (simp add: assms push_col_def col_size_def size_sub_def resize_col_def resize_vec_def q_bytes_def)

text \<open>
  The checks on the names and on the number of columns (\<^verbatim>\<open>create_probe_checks\<close>) are never called: a second probe with the
  name of the first one takes its entry, so that the values of both go to the second column.
\<close>

lemma same_name_takes_the_column:
  assumes "pb_name (rp_objs s p) = pb_name (rp_objs s p')" and "rp_name_to_col s (pb_name (rp_objs s p')) = Some k"
  shows "rp_cols (snd (report_value p x s)) = rp_cols (snd (report_value p' x s))"
  using assms by (simp add: report_value_def Let_def)

text \<open>Registration that throws leaves the probe attached to the reporter, without a column.\<close>

lemma failed_registration_attaches:
  assumes "pb_name (rp_objs s p) = []" and "\<not> pb_reporter (rp_objs s p)"
  shows "\<exists>s1. register_reporter k p s = Some (Inl Invalid_argument, s1) \<and> pb_reporter (rp_objs s1 p) \<and> rp_cols s1 = rp_cols s"
  using assms by (cases "registration (pb_kind (rp_objs s p)) (pb_size (rp_objs s p))")
    (auto simp: register_reporter_def register_probe_def upd_probe_def Let_def)

end
