(* ===== verification/Builders.thy ===== *)
theory Builders
  imports Pinning Pipelines
begin

text \<open>
  The builder of pipelines (\<^verbatim>\<open>src/Tools/Builder/Pipeline_builder.cpp\<close>): the builder keeps the addresses of the stage and synchro
  builders, which the user can still change, and reads them in \<^verbatim>\<open>build\<close>. \<open>build_pipeline\<close> gives the arguments of the constructor of
  \<^verbatim>\<open>Pipeline\<close> (\<^verbatim>\<open>Pipelines\<close>), whose policy is parsed by \<^verbatim>\<open>Pinning\<close>.
\<close>

section \<open>State\<close>

record stage_builder =
  sb_first :: "tid list"
  sb_last :: "tid list"
  sb_excluded :: "tid list"
  sb_n_threads :: nat
  sb_pinning :: bool
  sb_policy :: string

record synchro_builder =
  yb_active :: bool
  yb_buffer :: nat

record pipeline_builder =
  bd_stages :: "nat list"
  bd_synchros :: "nat list"
  bd_checking :: "tid list"
  bd_stage_at :: "nat \<Rightarrow> stage_builder"
  bd_synchro_at :: "nat \<Rightarrow> synchro_builder"

definition new_stage_builder :: stage_builder where
  "new_stage_builder = \<lparr>sb_first = [], sb_last = [], sb_excluded = [], sb_n_threads = 1, sb_pinning = False, sb_policy = ''''\<rparr>"

definition new_synchro_builder :: synchro_builder where
  "new_synchro_builder = \<lparr>yb_active = False, yb_buffer = 1\<rparr>"

section \<open>The lists\<close>

text \<open>\<^verbatim>\<open>std::find\<close> then \<^verbatim>\<open>push_back\<close>; \<^verbatim>\<open>erase\<close> of \<^verbatim>\<open>std::remove\<close>.\<close>

definition add_new :: "'a \<Rightarrow> 'a list \<Rightarrow> exn + 'a list" where
  "add_new x xs = (if x \<in> set xs then Inl Invalid_argument else Inr (xs @ [x]))"

definition remove_all :: "'a \<Rightarrow> 'a list \<Rightarrow> 'a list" where
  "remove_all x xs = filter (\<lambda>y. y \<noteq> x) xs"

definition upd_stage :: "nat \<Rightarrow> (stage_builder \<Rightarrow> stage_builder) \<Rightarrow> pipeline_builder \<Rightarrow> pipeline_builder" where
  "upd_stage a f b = b\<lparr>bd_stage_at := (bd_stage_at b)(a := f (bd_stage_at b a))\<rparr>"

definition upd_synchro :: "nat \<Rightarrow> (synchro_builder \<Rightarrow> synchro_builder) \<Rightarrow> pipeline_builder \<Rightarrow> pipeline_builder" where
  "upd_synchro a f b = b\<lparr>bd_synchro_at := (bd_synchro_at b)(a := f (bd_synchro_at b a))\<rparr>"

section \<open>The builder\<close>

definition set_tasks_for_checking :: "tid list \<Rightarrow> pipeline_builder \<Rightarrow> pipeline_builder" where
  "set_tasks_for_checking ts b = b\<lparr>bd_checking := ts\<rparr>"

definition add_task_for_checking :: "tid \<Rightarrow> pipeline_builder \<Rightarrow> exn + pipeline_builder" where
  "add_task_for_checking t b = and_then (add_new t (bd_checking b)) (\<lambda>ts. Inr (b\<lparr>bd_checking := ts\<rparr>))"

definition remove_task_for_checking :: "tid \<Rightarrow> pipeline_builder \<Rightarrow> pipeline_builder" where
  "remove_task_for_checking t b = b\<lparr>bd_checking := remove_all t (bd_checking b)\<rparr>"

definition add_stage :: "nat \<Rightarrow> pipeline_builder \<Rightarrow> exn + pipeline_builder" where
  "add_stage a b = and_then (add_new a (bd_stages b)) (\<lambda>as. Inr (b\<lparr>bd_stages := as\<rparr>))"

definition remove_stage :: "nat \<Rightarrow> pipeline_builder \<Rightarrow> pipeline_builder" where
  "remove_stage a b = b\<lparr>bd_stages := remove_all a (bd_stages b)\<rparr>"

definition get_stage :: "nat \<Rightarrow> pipeline_builder \<Rightarrow> exn + nat" where
  "get_stage k b = (if length (bd_stages b) \<le> k then Inl Length_error else Inr (bd_stages b ! k))"

definition remove_stage_id :: "nat \<Rightarrow> pipeline_builder \<Rightarrow> exn + pipeline_builder" where
  "remove_stage_id k b = and_then (get_stage k b) (\<lambda>a. Inr (remove_stage a b))"

definition configure_interstage_synchro :: "nat \<Rightarrow> pipeline_builder \<Rightarrow> exn + pipeline_builder" where
  "configure_interstage_synchro a b = and_then (add_new a (bd_synchros b)) (\<lambda>as. Inr (b\<lparr>bd_synchros := as\<rparr>))"

definition get_interstage_synchro :: "nat \<Rightarrow> pipeline_builder \<Rightarrow> exn + nat" where
  "get_interstage_synchro k b = (if length (bd_synchros b) \<le> k then Inl Length_error else Inr (bd_synchros b ! k))"

section \<open>The builders of the stages and of the synchronisations\<close>

definition set_n_threads :: "nat \<Rightarrow> stage_builder \<Rightarrow> stage_builder" where
  "set_n_threads n s = s\<lparr>sb_n_threads := n\<rparr>"

definition set_threads_pinning :: "bool \<Rightarrow> stage_builder \<Rightarrow> stage_builder" where
  "set_threads_pinning p s = s\<lparr>sb_pinning := p\<rparr>"

definition set_pinning_policy :: "string \<Rightarrow> stage_builder \<Rightarrow> stage_builder" where
  "set_pinning_policy p s = s\<lparr>sb_policy := p\<rparr>"

definition set_first_tasks :: "tid list \<Rightarrow> stage_builder \<Rightarrow> stage_builder" where
  "set_first_tasks ts s = s\<lparr>sb_first := ts\<rparr>"

definition add_first_task :: "tid \<Rightarrow> stage_builder \<Rightarrow> exn + stage_builder" where
  "add_first_task t s = and_then (add_new t (sb_first s)) (\<lambda>ts. Inr (s\<lparr>sb_first := ts\<rparr>))"

definition remove_first_task :: "tid \<Rightarrow> stage_builder \<Rightarrow> stage_builder" where
  "remove_first_task t s = s\<lparr>sb_first := remove_all t (sb_first s)\<rparr>"

definition set_last_tasks :: "tid list \<Rightarrow> stage_builder \<Rightarrow> stage_builder" where
  "set_last_tasks ts s = s\<lparr>sb_last := ts\<rparr>"

definition add_last_task :: "tid \<Rightarrow> stage_builder \<Rightarrow> exn + stage_builder" where
  "add_last_task t s = and_then (add_new t (sb_last s)) (\<lambda>ts. Inr (s\<lparr>sb_last := ts\<rparr>))"

definition remove_last_task :: "tid \<Rightarrow> stage_builder \<Rightarrow> stage_builder" where
  "remove_last_task t s = s\<lparr>sb_last := remove_all t (sb_last s)\<rparr>"

definition set_excluded_tasks :: "tid list \<Rightarrow> stage_builder \<Rightarrow> stage_builder" where
  "set_excluded_tasks ts s = s\<lparr>sb_excluded := ts\<rparr>"

definition add_excluded_task :: "tid \<Rightarrow> stage_builder \<Rightarrow> exn + stage_builder" where
  "add_excluded_task t s = and_then (add_new t (sb_excluded s)) (\<lambda>ts. Inr (s\<lparr>sb_excluded := ts\<rparr>))"

definition remove_excluded_task :: "tid \<Rightarrow> stage_builder \<Rightarrow> stage_builder" where
  "remove_excluded_task t s = s\<lparr>sb_excluded := remove_all t (sb_excluded s)\<rparr>"

definition set_active_waiting :: "bool \<Rightarrow> synchro_builder \<Rightarrow> synchro_builder" where
  "set_active_waiting w y = y\<lparr>yb_active := w\<rparr>"

definition set_buffer_size :: "nat \<Rightarrow> synchro_builder \<Rightarrow> synchro_builder" where
  "set_buffer_size n y = y\<lparr>yb_buffer := n\<rparr>"

section \<open>build\<close>

record built =
  bt_checking :: "tid list"
  bt_stages :: "(tid list \<times> tid list \<times> tid list) list"
  bt_threads :: "nat list"
  bt_buffers :: "nat list"
  bt_waits :: "bool list"
  bt_pinning :: "bool list"
  bt_policy :: string

text \<open>The loop over the stages: a bar after every policy but the last.\<close>

fun policies :: "string list \<Rightarrow> string" where
  "policies [] = ''''"
| "policies (p # ps) = p @ (if ps \<noteq> [] then ''|'' else '''') @ policies ps"

definition synchro_of :: "pipeline_builder \<Rightarrow> nat \<Rightarrow> synchro_builder" where
  "synchro_of b k = (if k < length (bd_synchros b) then bd_synchro_at b (bd_synchros b ! k) else new_synchro_builder)"

text \<open>Without stages \<^verbatim>\<open>size() - 1\<close> wraps, and the vectors of the synchronisations grow until the memory is exhausted.\<close>

definition build_pipeline :: "pipeline_builder \<Rightarrow> exn + built" where
  "build_pipeline b = (let ss = map (bd_stage_at b) (bd_stages b) in
     if ss = [] then Inl Other_exn
     else Inr \<lparr>bt_checking = bd_checking b, bt_stages = map (\<lambda>s. (sb_first s, sb_last s, sb_excluded s)) ss,
       bt_threads = map sb_n_threads ss, bt_buffers = map (\<lambda>k. yb_buffer (synchro_of b k)) [0..<length ss - 1],
       bt_waits = map (\<lambda>k. yb_active (synchro_of b k)) [0..<length ss - 1],
       bt_pinning = map sb_pinning ss, bt_policy = policies (map sb_policy ss)\<rparr>)"

section \<open>What the pipeline gets\<close>

lemma policies_join: "policies ps = join ''|'' ps"
  by (induction ps rule: induct_list012) simp_all

lemma add_new_distinct: "add_new x xs = Inr ys \<Longrightarrow> distinct xs \<Longrightarrow> distinct ys"
  by (auto simp: add_new_def split: if_splits)

text \<open>The calls that change the builder, and the invariant that its lists have no duplicates.\<close>

datatype builder_op =
    Set_checking "tid list" | Add_checking tid | Remove_checking tid | Add_stage nat | Remove_stage nat | Remove_stage_id nat
  | Configure_synchro nat | Change_stage nat "stage_builder \<Rightarrow> stage_builder" | Change_synchro nat "synchro_builder \<Rightarrow> synchro_builder"

definition or_same :: "pipeline_builder \<Rightarrow> exn + pipeline_builder \<Rightarrow> (pipeline_builder, unit) outcome" where
  "or_same b r = (case r of Inl e \<Rightarrow> (Inl e, b) | Inr b1 \<Rightarrow> (Inr (), b1))"

fun exec_builder :: "builder_op \<Rightarrow> pipeline_builder \<Rightarrow> (pipeline_builder, unit) outcome" where
  "exec_builder (Set_checking ts) b = (Inr (), set_tasks_for_checking ts b)"
| "exec_builder (Add_checking t) b = or_same b (add_task_for_checking t b)"
| "exec_builder (Remove_checking t) b = (Inr (), remove_task_for_checking t b)"
| "exec_builder (Add_stage a) b = or_same b (add_stage a b)"
| "exec_builder (Remove_stage a) b = (Inr (), remove_stage a b)"
| "exec_builder (Remove_stage_id k) b = or_same b (remove_stage_id k b)"
| "exec_builder (Configure_synchro a) b = or_same b (configure_interstage_synchro a b)"
| "exec_builder (Change_stage a f) b = (Inr (), upd_stage a f b)"
| "exec_builder (Change_synchro a f) b = (Inr (), upd_synchro a f b)"

definition builder_inv :: "pipeline_builder \<Rightarrow> bool" where
  "builder_inv b \<longleftrightarrow> distinct (bd_stages b) \<and> distinct (bd_synchros b)"

lemma exec_builder_inv: "builder_inv b \<Longrightarrow> builder_inv (snd (exec_builder x b))"
  by (cases x) (auto simp: builder_inv_def set_tasks_for_checking_def add_task_for_checking_def remove_task_for_checking_def add_stage_def
      remove_stage_def remove_stage_id_def get_stage_def configure_interstage_synchro_def upd_stage_def upd_synchro_def add_new_def
      remove_all_def or_same_def)

interpretation bld: invariant_ops exec_builder "\<lambda>_ _. True" builder_inv
  by unfold_locales (rule exec_builder_inv)

lemma all_legal_True: "all_legal exec_builder (\<lambda>_ _. True) xs b"
  by (induction xs arbitrary: b) auto

text \<open>
  Removing a stage by its index removes that stage only. The code passes a reference into the vector to \<^verbatim>\<open>std::remove\<close>, whose
  value changes while it runs: as the stages are distinct (\<open>builder_inv\<close>), this has no effect.
\<close>

lemma remove_stage_id_removes_one:
  assumes "builder_inv b" and "k < length (bd_stages b)"
  shows "remove_stage_id k b = Inr (b\<lparr>bd_stages := del_at k (bd_stages b)\<rparr>)"
proof -
  let ?as = "bd_stages b"
  have "distinct (take k ?as @ ?as ! k # drop (Suc k) ?as)" using assms by (simp add: builder_inv_def id_take_nth_drop [symmetric])
  moreover have "filter (\<lambda>y. y \<noteq> a) xs = xs" if "a \<notin> set xs" for a :: nat and xs using that by (induction xs) auto
  ultimately have "remove_all (?as ! k) (take k ?as @ ?as ! k # drop (Suc k) ?as) = del_at k ?as"
    by (simp add: remove_all_def del_at_def)
  then show ?thesis using assms(2) by (simp add: remove_stage_id_def get_stage_def remove_stage_def id_take_nth_drop [symmetric])
qed

text \<open>
  C33: Whatever the calls of the builder, what it builds for at least one stage passes the checks of the sizes of the constructor
  of the pipeline, no stage is there twice, and the parser of the pipeline gives each stage its own policy, without its
  spaces, when no policy contains a bar.
\<close>

theorem built_pipeline_is_well_formed:
  assumes "builder_inv b0" and "b = run_ops exec_builder ops b0" and "bd_stages b \<noteq> []"
    and "\<forall>a \<in> set (bd_stages b). CHR ''|'' \<notin> set (sb_policy (bd_stage_at b a))"
  shows "\<exists>r. build_pipeline b = Inr r \<and> distinct (bd_stages b) \<and>
    pipe_sizes_guard (length (bt_stages r)) (length (bt_threads r)) (length (bt_buffers r)) (length (bt_waits r))
      (length (bt_pinning r)) 0 = Inr () \<and>
    pipeline_parser_unpacker (bt_policy r) (length (bt_stages r)) = Inr (map (\<lambda>a. strip (sb_policy (bd_stage_at b a))) (bd_stages b))"
proof -
  let ?ps = "map sb_policy (map (bd_stage_at b) (bd_stages b))"
  have inv: "builder_inv b" unfolding assms(2) by (rule bld.run_inv [OF assms(1) all_legal_True])
  obtain r where r: "build_pipeline b = Inr r" "length (bt_stages r) = length (bd_stages b)" "length (bt_threads r) = length (bd_stages b)"
    "length (bt_buffers r) = length (bd_stages b) - 1" "length (bt_waits r) = length (bd_stages b) - 1"
    "length (bt_pinning r) = length (bd_stages b)" "bt_policy r = policies ?ps"
    using assms(3) by (simp add: build_pipeline_def Let_def)
  have "split_loop CHR ''|'' [] (join ([] @ CHR ''|'' # []) ?ps) = map strip ?ps"
    using assms(3,4) by (intro split_join) auto
  then have "pipeline_parser_unpacker (bt_policy r) (length (bd_stages b)) = Inr (map strip ?ps)"
    by (simp add: r(7) policies_join pipeline_parser_unpacker_def unpack_exact)
  then show ?thesis using r inv assms(3) by (simp add: builder_inv_def pipe_sizes_guard_def comp_def)
qed

lemma built_pipeline_is_well_formed_witness:
  "\<exists>r. build_pipeline (run_ops exec_builder [Add_stage 5, Add_stage 3, Add_stage 5, Change_stage 3 (set_pinning_policy ''PU_1; PU_2''), Configure_synchro 9]
      \<lparr>bd_stages = [], bd_synchros = [], bd_checking = [], bd_stage_at = (\<lambda>_. new_stage_builder), bd_synchro_at = (\<lambda>_. \<lparr>yb_active = True, yb_buffer = 4\<rparr>)\<rparr>) = Inr r \<and>
     pipeline_parser_unpacker (bt_policy r) 2 = Inr ['''', ''PU_1;PU_2''] \<and> bt_buffers r = [4]"
proof -
  let ?b0 = "\<lparr>bd_stages = [], bd_synchros = [], bd_checking = [], bd_stage_at = (\<lambda>_. new_stage_builder), bd_synchro_at = (\<lambda>_. \<lparr>yb_active = True, yb_buffer = 4\<rparr>)\<rparr>"
  let ?ops = "[Add_stage 5, Add_stage 3, Add_stage 5, Change_stage 3 (set_pinning_policy ''PU_1; PU_2''), Configure_synchro 9]"
  define b where "b = run_ops exec_builder ?ops ?b0"
  have b: "b = \<lparr>bd_stages = [5, 3], bd_synchros = [9], bd_checking = [],
      bd_stage_at = (\<lambda>_. new_stage_builder)(3 := new_stage_builder\<lparr>sb_policy := ''PU_1; PU_2''\<rparr>), bd_synchro_at = (\<lambda>_. \<lparr>yb_active = True, yb_buffer = 4\<rparr>)\<rparr>"
    by (simp add: b_def or_same_def add_stage_def add_new_def upd_stage_def set_pinning_policy_def configure_interstage_synchro_def)
  have "builder_inv ?b0" "bd_stages b \<noteq> []" "\<forall>a \<in> set (bd_stages b). CHR ''|'' \<notin> set (sb_policy (bd_stage_at b a))"
    by (simp_all add: builder_inv_def b new_stage_builder_def)
  from built_pipeline_is_well_formed [OF this(1) b_def this(2,3)] obtain r where
    "build_pipeline b = Inr r" "pipeline_parser_unpacker (bt_policy r) (length (bt_stages r)) = Inr (map (\<lambda>a. strip (sb_policy (bd_stage_at b a))) (bd_stages b))" by blast
  moreover from this(1) have "length (bt_stages r) = 2" "bt_buffers r = [4]" by (auto simp: b build_pipeline_def synchro_of_def)
  moreover have "map (\<lambda>a. strip (sb_policy (bd_stage_at b a))) (bd_stages b) = ['''', ''PU_1;PU_2'']" by (simp add: b new_stage_builder_def)
  ultimately show ?thesis unfolding b_def by (intro exI [of _ r]) (simp only:)
qed

text \<open>Without stages nothing can be built, and the policy of one stage is not checked for bars.\<close>

lemma build_without_stages: "bd_stages b = [] \<Longrightarrow> build_pipeline b = Inl Other_exn"
  by (simp add: build_pipeline_def)

end
