(* ===== verification/Sets.thy ===== *)
theory Sets
  imports Stateful_Modules Sequence_Frames
begin

text \<open>
  The module made of a sequence (\<^verbatim>\<open>src/Module/Stateful/Set/Set.cpp\<close>): a task \<^verbatim>\<open>exec\<close> with the inputs of the first tasks of the
  sequence and the outputs of its last ones; its outputs are bound to those of the last tasks, output to output, to
  read the same buffers, and its codelet hands its inputs to the first tasks and runs the sequence once.
\<close>

section \<open>The sockets\<close>

definition data_socket :: "socket_t \<Rightarrow> world \<Rightarrow> sid \<Rightarrow> bool" where
  "data_socket ty w s \<longleftrightarrow> s_type (socks w s) = ty \<and> (ty = SOUT \<longrightarrow> s_name (socks w s) \<noteq> status_name)"

definition list_sockets :: "world \<Rightarrow> tid list \<Rightarrow> sid list" where
  "list_sockets w ts = concat (map (\<lambda>t. t_sockets (tsks w t)) ts)"

text \<open>One step of the two loops of \<^verbatim>\<open>init\<close>: a type that is none of the ten ones is passed over.\<close>

definition mirror :: "mid \<Rightarrow> tid \<Rightarrow> socket_t \<Rightarrow> sid \<Rightarrow> world \<Rightarrow> (world, unit) outcome" where
  "mirror md p ty s w = (let x = socks w s in
     if data_socket ty w s then
       (if type_to_size (s_datatype x) = 0 then (Inr (), w)
        else make_socket md p \<lparr>h_type = ty, h_sck = s_name x, h_n_elmts = get_n_elmts x div m_n_frames (mods w md), h_datatype = s_datatype x\<rparr> w)
     else if s_type x = SFWD then (Inl Runtime_error, w) else (Inr (), w))"

text \<open>
  The loop that walks the outputs \<open>ss\<close> of the last tasks and the outputs of the task \<open>p\<close> together, from its socket \<open>k\<close> on:
  \<open>f\<close> is the bind or the unbind.
\<close>

definition next_socket :: "socket_t \<Rightarrow> world \<Rightarrow> tid \<Rightarrow> nat \<Rightarrow> nat option" where
  "next_socket ty w p k = find (\<lambda>j. s_type (socks w (t_sockets (tsks w p) ! j)) = ty) [k..<length (t_sockets (tsks w p))]"

fun on_pairs :: "socket_t \<Rightarrow> (sid \<Rightarrow> sid \<Rightarrow> world \<Rightarrow> (world, unit) outcome) \<Rightarrow> tid \<Rightarrow> sid list \<Rightarrow> nat \<Rightarrow> world \<Rightarrow> (world, unit) outcome" where
  "on_pairs ty f p [] k w = (Inr (), w)"
| "on_pairs ty f p (s # ss) k w = (if data_socket ty w s then
     (case next_socket ty w p k of None \<Rightarrow> (Inl UB, w)
      | Some j \<Rightarrow> bindo (f (t_sockets (tsks w p) ! j) s w) (\<lambda>_ w1. on_pairs ty f p ss (Suc j) w1))
     else on_pairs ty f p ss k w)"

definition bind_outs :: "tid \<Rightarrow> tid list \<Rightarrow> world \<Rightarrow> (world, unit) outcome" where
  "bind_outs p lasts w = on_pairs SOUT (\<lambda>i s. bind_sck i s (-1)) p (list_sockets w lasts) 0 w"

section \<open>The operations\<close>

text \<open>Both constructors call \<^verbatim>\<open>init\<close>: the one of a constant sequence first clones it. \<open>c\<close> tells
  whether the sequence can be cloned, which is what \<^verbatim>\<open>is_clonable\<close> of the module tries.\<close>

definition set_init :: "nat \<Rightarrow> mid \<Rightarrow> bool \<Rightarrow> seq \<Rightarrow> world \<Rightarrow> (world, unit) outcome" where
  "set_init F md c q w =
     (let w0 = set_short_name md ''Set'' (set_name md ''Set'' (upd_mod md (\<lambda>_. new_module\<lparr>m_is_set := True, m_clonable := c\<rparr>) w)) in
      bindo (set_single_wave md True w0) (\<lambda>_ w1.
      if q_n_threads q \<noteq> 1 then (Inl Invalid_argument, w1) else
      bindo (create_task md ''exec'' (-1) w1) (\<lambda>p w2.
      bindo (foreach (mirror md p SIN) (list_sockets w2 (q_firsts q ! 0)) w2) (\<lambda>_ w3.
      bindo (foreach (mirror md p SOUT) (list_sockets w3 (q_lasts q ! 0)) w3) (\<lambda>_ w4.
      bindo (bind_outs p (q_lasts q ! 0) w4) (\<lambda>_ w5. create_codelet F p w5))))))"

text \<open>\<^verbatim>\<open>operator=(void*)\<close> of an input; \<open>run\<close> is \<^verbatim>\<open>exec_seq\<close> of the sequence.\<close>

definition assign_ptr :: "sid \<Rightarrow> ptr \<Rightarrow> world \<Rightarrow> (world, unit) outcome" where
  "assign_ptr s a w = (if s_type (socks w s) = SIN \<or> s_type (socks w s) = SFWD then bind_raw s a w else (Inl Runtime_error, w))"

definition set_codelet :: "(world \<Rightarrow> (world, unit) outcome) \<Rightarrow> tid \<Rightarrow> tid list \<Rightarrow> world \<Rightarrow> (world, int) outcome" where
  "set_codelet run p firsts w =
     bindo (on_pairs SIN (\<lambda>i s w. assign_ptr s (get_dataptr (socks w i) 0) w) p (list_sockets w firsts) 0 w)
       (\<lambda>_ w1. bindo (run w1) (\<lambda>_ w2. (Inr 0, w2)))"

text \<open>\<open>lasts\<close> are the last tasks of the clone of the sequence. Only \<^verbatim>\<open>invalid_argument\<close> is caught.\<close>

definition set_deep_copy :: "nat \<Rightarrow> mid \<Rightarrow> mid \<Rightarrow> tid list \<Rightarrow> world \<Rightarrow> (world, unit) outcome" where
  "set_deep_copy F md md' lasts w = bindo (deep_copy F md md' w) (\<lambda>_ w1.
     case bindo (case find_task md' ''exec'' w1 of Inl e \<Rightarrow> (Inl e, w1) | Inr p \<Rightarrow> (Inr p, w1)) (\<lambda>p w2. bind_outs p lasts w2) of
       (Inl Invalid_argument, w2) \<Rightarrow> (Inr (), w2) | r \<Rightarrow> r)"

text \<open>\<open>frames\<close> is \<^verbatim>\<open>set_n_frames\<close> of the sequence.\<close>

definition set_set_n_frames :: "nat \<Rightarrow> (nat \<Rightarrow> world \<Rightarrow> (world, unit) outcome) \<Rightarrow> mid \<Rightarrow> tid list \<Rightarrow> nat \<Rightarrow> world \<Rightarrow> (world, unit) outcome" where
  "set_set_n_frames F frames md lasts n w = (if m_n_frames (mods w md) = n then (Inr (), w)
     else let p = m_tasks (mods w md) ! 0 in
       bindo (on_pairs SOUT (\<lambda>i s w. drop_value (unbind_sck i s w)) p (list_sockets w lasts) 0 w) (\<lambda>_ w1.
       bindo (set_n_frames F md n w1) (\<lambda>_ w2.
       bindo (frames n w2) (\<lambda>_ w3. bind_outs p lasts w3))))"

section \<open>The sockets of the task\<close>

text \<open>A socket that can be mirrored: it has a name of its own, one of the ten types and a whole number of elements.\<close>

definition copyable :: "world \<Rightarrow> sid \<Rightarrow> bool" where
  "copyable w s \<longleftrightarrow> s_name (socks w s) \<noteq> [] \<and> s_name (socks w s) \<noteq> status_name \<and> type_to_size (s_datatype (socks w s)) \<noteq> 0 \<and>
     s_databytes (socks w s) mod type_to_size (s_datatype (socks w s)) = 0"

lemma mirror_fresh:
  assumes wf: "wf_task p w" and f: "fresh_module md w" "t_module (tsks w p) = md" and s: "data_socket ty w s" "copyable w s"
    and free: "name_free p (s_name (socks w s)) w"
  shows "\<exists>w'. mirror md p ty s w = (Inr (), w') \<and> wf_task p w' \<and> only_task p w w' \<and>
    task_entries p w' = task_entries p w @ [entry_of w s]"
proof -
  let ?x = "socks w s"
  let ?h = "\<lparr>h_type = ty, h_sck = s_name ?x, h_n_elmts = get_n_elmts ?x div m_n_frames (mods w md), h_datatype = s_datatype ?x\<rparr>"
  have T: "type_to_size (h_datatype ?h) \<noteq> 0" "h_sck ?h \<noteq> []" "h_sck ?h \<noteq> status_name" "name_free p (h_sck ?h) w"
    using s(2) free by (simp_all add: copyable_def)
  have "m_n_frames (mods w md) = 1" using f(1) by (simp add: fresh_module_def)
  then have e: "entry ?h = entry_of w s"
    using s by (auto simp: entry_def entry_of_def get_n_elmts_def copyable_def data_socket_def)
  have "mirror md p ty s w = make_socket md p ?h w" using s T by (simp add: mirror_def Let_def)
  with make_socket_fresh [OF wf f T(2,3,4,1)] e show ?thesis by simp
qed

lemma data_old: "only_task p w w' \<Longrightarrow> s < next_sock w \<Longrightarrow> socks w' s = socks w s"
  by (simp add: only_task_def)

lemma mirrors_fresh:
  assumes "wf_task p w" and "fresh_module md w" and "t_module (tsks w p) = md"
    and "\<forall>s \<in> set ss. s < next_sock w \<and> s_type (socks w s) \<noteq> SFWD"
    and "\<forall>s \<in> set (filter (data_socket ty w) ss). copyable w s"
    and "distinct (map (\<lambda>s. s_name (socks w s)) (filter (data_socket ty w) ss))"
    and "\<forall>e \<in> set (task_entries p w). fst (snd e) \<noteq> status_name \<and>
      fst (snd e) \<notin> (\<lambda>s. s_name (socks w s)) ` set (filter (data_socket ty w) ss)"
  shows "\<exists>w'. foreach (mirror md p ty) ss w = (Inr (), w') \<and> wf_task p w' \<and> only_task p w w' \<and>
    task_entries p w' = task_entries p w @ map (entry_of w) (filter (data_socket ty w) ss)"
  using assms
proof (induction ss arbitrary: w)
  case (Cons s ss)
  show ?case
  proof (cases "data_socket ty w s")
    case False
    then have "mirror md p ty s w = (Inr (), w)" using Cons.prems(4) by (simp add: mirror_def Let_def)
    with Cons.IH [OF Cons.prems(1,2,3)] Cons.prems(4-7) False show ?thesis by simp
  next
    case True
    have free: "name_free p (s_name (socks w s)) w" using Cons.prems(7) True by (auto simp: name_free_entries)
    have c: "copyable w s" using Cons.prems(5) True by simp
    obtain w1 where 1: "mirror md p ty s w = (Inr (), w1)" "wf_task p w1" "only_task p w w1"
      "task_entries p w1 = task_entries p w @ [entry_of w s]"
      using mirror_fresh [OF Cons.prems(1,2,3) True c free] by blast
    have old: "\<forall>u \<in> set ss. u < next_sock w1 \<and> socks w1 u = socks w u" using Cons.prems(4) 1(3) by (auto simp: only_task_def)
    then have filt: "filter (data_socket ty w1) ss = filter (data_socket ty w) ss"
      by (intro filter_cong refl) (simp add: data_socket_def)
    let ?ds = "filter (data_socket ty w) ss"
    have ds: "\<forall>u \<in> set ?ds. socks w1 u = socks w u" using old by simp
    have names: "map (\<lambda>s. s_name (socks w1 s)) ?ds = map (\<lambda>s. s_name (socks w s)) ?ds"
      "(\<lambda>s. s_name (socks w1 s)) ` set ?ds = (\<lambda>s. s_name (socks w s)) ` set ?ds"
      "map (entry_of w1) ?ds = map (entry_of w) ?ds" using ds by (auto simp: entry_of_def)
    have p1: "fresh_module md w1" "t_module (tsks w1 p) = md" using only_task_module [OF 1(3)] Cons.prems(2,3) by auto
    have p2: "\<forall>u \<in> set ss. u < next_sock w1 \<and> s_type (socks w1 u) \<noteq> SFWD" using old Cons.prems(4) by simp
    have p3: "\<forall>u \<in> set (filter (data_socket ty w1) ss). copyable w1 u" unfolding filt using ds Cons.prems(5) by (auto simp: copyable_def)
    have p4: "distinct (map (\<lambda>s. s_name (socks w1 s)) (filter (data_socket ty w1) ss))" unfolding filt names using Cons.prems(6) True by simp
    have p5: "\<forall>e \<in> set (task_entries p w1). fst (snd e) \<noteq> status_name \<and>
      fst (snd e) \<notin> (\<lambda>s. s_name (socks w1 s)) ` set (filter (data_socket ty w1) ss)"
      unfolding filt names 1(4) using Cons.prems(6,7) True c by (auto simp: entry_of_def copyable_def)
    obtain w2 where "foreach (mirror md p ty) ss w1 = (Inr (), w2)" "wf_task p w2" "only_task p w1 w2"
      "task_entries p w2 = task_entries p w1 @ map (entry_of w1) (filter (data_socket ty w1) ss)"
      using Cons.IH [OF 1(2) p1 p2 p3 p4 p5] by blast
    with 1 True only_task_trans [OF 1(3)] show ?thesis by (auto simp: filt names)
  qed
qed simp

section \<open>The binds\<close>

text \<open>What a bind keeps.\<close>

definition keeps_shape :: "world \<Rightarrow> world \<Rightarrow> bool" where
  "keeps_shape w w' \<longleftrightarrow> tsks w' = tsks w \<and> mods w' = mods w \<and> next_sock w' = next_sock w \<and> task_autoalloc w' = task_autoalloc w \<and>
     (\<forall>i. s_name (socks w' i) = s_name (socks w i) \<and> s_type (socks w' i) = s_type (socks w i) \<and> s_task (socks w' i) = s_task (socks w i) \<and>
        s_datatype (socks w' i) = s_datatype (socks w i) \<and> s_databytes (socks w' i) = s_databytes (socks w i))"

lemma keeps_shape_trans: "keeps_shape u v \<Longrightarrow> keeps_shape v w \<Longrightarrow> keeps_shape u w"
  by (simp add: keeps_shape_def)

lemma bind_keeps_shape:
  assumes "erase_links w' = upd_sck i (\<lambda>s. s\<lparr>s_dataptr := d\<rparr>) (erase_links w)"
  shows "keeps_shape w w' \<and> (\<forall>j. s_dataptr (socks w' j) = (if j = i then d else s_dataptr (socks w j)))"
proof -
  have k: "f (socks (erase_links w') j) = f (socks (upd_sck i (\<lambda>s. s\<lparr>s_dataptr := d\<rparr>) (erase_links w)) j)" for f :: "socket \<Rightarrow> 'a" and j
    using assms by simp
  have g: "f (erase_links w') = f (upd_sck i (\<lambda>s. s\<lparr>s_dataptr := d\<rparr>) (erase_links w))" for f :: "world \<Rightarrow> 'a" using assms by simp
  show ?thesis using k [of s_name] k [of s_type] k [of s_task] k [of s_datatype] k [of s_databytes] k [of s_dataptr]
      g [of tsks] g [of mods] g [of next_sock] g [of task_autoalloc]
    by (simp add: keeps_shape_def erase_links_def upd_sck_def split: if_splits)
qed

abbreviation sockets_from :: "socket_t \<Rightarrow> world \<Rightarrow> tid \<Rightarrow> nat \<Rightarrow> sid list" where
  "sockets_from ty w p k \<equiv> filter (\<lambda>i. s_type (socks w i) = ty) (drop k (t_sockets (tsks w p)))"

lemma next_socket_is_next:
  assumes "sockets_from ty w p k = i # js"
  shows "\<exists>j. next_socket ty w p k = Some j \<and> t_sockets (tsks w p) ! j = i \<and> sockets_from ty w p (Suc j) = js"
  using assms
proof (induction "length (t_sockets (tsks w p)) - k" arbitrary: k)
  case 0
  then show ?case by simp
next
  case (Suc n)
  let ?ss = "t_sockets (tsks w p)"
  have k: "k < length ?ss" using Suc(2) by simp
  have d: "drop k ?ss = ?ss ! k # drop (Suc k) ?ss" using k by (rule Cons_nth_drop_Suc [symmetric])
  have u: "[k..<length ?ss] = k # [Suc k..<length ?ss]" using k by (rule upt_conv_Cons)
  show ?case
  proof (cases "s_type (socks w (?ss ! k)) = ty")
    case True
    with Suc.prems show ?thesis unfolding next_socket_def u by (simp add: d)
  next
    case False
    then have "sockets_from ty w p (Suc k) = i # js" using Suc.prems by (simp add: d)
    from Suc.hyps(1) [OF _ this] Suc.hyps(2) False show ?thesis unfolding next_socket_def u by simp
  qed
qed

text \<open>The outputs \<open>js\<close> of the task are bound, one by one, to the outputs \<open>ds\<close>.\<close>

definition bindable_pairs :: "world \<Rightarrow> sid list \<Rightarrow> sid list \<Rightarrow> bool" where
  "bindable_pairs w js ds \<longleftrightarrow> distinct js \<and> set js \<inter> set ds = {} \<and> list_all2 (\<lambda>i s. s_datatype (socks w s) = s_datatype (socks w i) \<and>
     s_databytes (socks w s) = s_databytes (socks w i)) js ds \<and>
     (\<forall>i \<in> set js. i < next_sock w \<and> s_bound_socket (socks w i) = None) \<and>
     (\<forall>s \<in> set ds. s < next_sock w \<and> \<not> (t_outbuffers_allocated (tsks w (s_task (socks w s))) \<and> s_dataptr (socks w s) = Null))"

definition bound_pairs :: "world \<Rightarrow> world \<Rightarrow> sid list \<Rightarrow> sid list \<Rightarrow> bool" where
  "bound_pairs w w' js ds \<longleftrightarrow> list_all2 (\<lambda>i s. s_bound_socket (socks w' i) = Some s \<and> s_dataptr (socks w' i) = s_dataptr (socks w s)) js ds \<and>
     (\<forall>i. i \<notin> set js \<longrightarrow> s_bound_socket (socks w' i) = s_bound_socket (socks w i) \<and> s_dataptr (socks w' i) = s_dataptr (socks w i))"

lemma bind_pairs:
  assumes "wf_links w" and "sockets_from SOUT w p k = js" and "bindable_pairs w js (filter (data_socket SOUT w) ss)"
  shows "\<exists>w'. on_pairs SOUT (\<lambda>i s. bind_sck i s (-1)) p ss k w = (Inr (), w') \<and> wf_links w' \<and> keeps_shape w w' \<and>
    bound_pairs w w' js (filter (data_socket SOUT w) ss)"
  using assms
proof (induction ss arbitrary: k w js)
  case Nil
  then show ?case by (simp add: keeps_shape_def bound_pairs_def bindable_pairs_def)
next
  case (Cons s ss)
  let ?ds = "filter (data_socket SOUT w) ss"
  show ?case
  proof (cases "data_socket SOUT w s")
    case False
    then show ?thesis using Cons.IH [OF Cons.prems(1,2)] Cons.prems(3) by simp
  next
    case True
    then have b: "bindable_pairs w js (s # ?ds)" using Cons.prems(3) by simp
    then obtain i js' where js: "js = i # js'" by (cases js) (auto simp: bindable_pairs_def)
    obtain j where j: "next_socket SOUT w p k = Some j" "t_sockets (tsks w p) ! j = i" "sockets_from SOUT w p (Suc j) = js'"
      using next_socket_is_next [where ty = SOUT and w = w and p = p and k = k and i = i and js = js'] Cons.prems(2) js by auto
    have B: "rebind_free i s w" "bind_checks i s w" "i < next_sock w" "s < next_sock w"
      using b by (auto simp: js bindable_pairs_def rebind_free_def bind_checks_def)
    obtain w1 where 1: "bind_sck i s (-1) w = (Inr (), w1)" "wf_links w1"
      "\<forall>j. s_bound_socket (socks w1 j) = (if j = i then Some s else s_bound_socket (socks w j))"
      "erase_links w1 = upd_sck i (\<lambda>x. x\<lparr>s_dataptr := s_dataptr (socks w s)\<rparr>) (erase_links w)"
      using bind_effect [OF Cons.prems(1) B, of "-1"] by blast
    have sh: "keeps_shape w w1" and dp: "\<And>j. s_dataptr (socks w1 j) = (if j = i then s_dataptr (socks w s) else s_dataptr (socks w j))"
      using bind_keeps_shape [OF 1(4)] by auto
    have filt: "filter (data_socket SOUT w1) ss = ?ds" using sh by (intro filter_cong refl) (simp add: data_socket_def keeps_shape_def)
    have sf: "sockets_from SOUT w1 p (Suc j) = js'" using j(3) sh by (simp add: keeps_shape_def)
    have "bindable_pairs w1 js' ?ds"
      using b sh 1(3) dp by (auto simp: js bindable_pairs_def keeps_shape_def)
    then have b1: "bindable_pairs w1 js' (filter (data_socket SOUT w1) ss)" by (simp only: filt)
    obtain w2 where 2: "on_pairs SOUT (\<lambda>i s. bind_sck i s (-1)) p ss (Suc j) w1 = (Inr (), w2)" "wf_links w2" "keeps_shape w1 w2"
      "bound_pairs w1 w2 js' ?ds" using Cons.IH [OF 1(2) sf b1] by (auto simp: filt)
    have "i \<notin> set js'" "i \<notin> set ?ds" "set js' \<inter> set ?ds = {}" using b by (auto simp: js bindable_pairs_def)
    moreover have "list_all2 (\<lambda>i u. s_bound_socket (socks w2 i) = Some u \<and> s_dataptr (socks w2 i) = s_dataptr (socks w u)) js' ?ds"
      by (rule list.rel_mono_strong [OF 2(4) [unfolded bound_pairs_def, THEN conjunct1]]) (use dp \<open>i \<notin> set ?ds\<close> in auto)
    ultimately have "bound_pairs w w2 js (s # ?ds)" using 2(4) 1(3) dp by (simp add: js bound_pairs_def)
    moreover have "on_pairs SOUT (\<lambda>i s. bind_sck i s (-1)) p (s # ss) k w = (Inr (), w2)" using True j(1,2) 1(1) 2(1) by simp
    ultimately show ?thesis using True 2(2) keeps_shape_trans [OF sh 2(3)] by auto
  qed
qed

section \<open>The construction\<close>

lemma wf_links_only_task:
  assumes o: "only_task p w w'" and wf: "wf_links w"
  shows "wf_links w'" "s_bound_socket (socks w' i) = s_bound_socket (socks w i)"
proof -
  have n: "next_sock w \<le> next_sock w'" using o by (simp add: only_task_def)
  have same: "s_bound_socket (socks w' i) = s_bound_socket (socks w i) \<and> s_bound_sockets (socks w' i) = s_bound_sockets (socks w i)" for i
  proof (cases "i < next_sock w")
    case True
    with o show ?thesis by (simp add: only_task_def)
  next
    case False
    then have "unbound w i" using wf by (simp add: wf_links_def unbound_def)
    moreover from this False o have "unbound w' i" by (simp add: only_task_def)
    ultimately show ?thesis by (simp add: unbound_def)
  qed
  with wf n show "wf_links w'" by (simp add: wf_links_def)
  from same show "s_bound_socket (socks w' i) = s_bound_socket (socks w i)" by simp
qed

text \<open>The inputs and the outputs of a sequence, and when a set can be made of it.\<close>

definition set_inputs :: "seq \<Rightarrow> world \<Rightarrow> sid list" where
  "set_inputs q w = filter (data_socket SIN w) (list_sockets w (q_firsts q ! 0))"

definition set_outputs :: "seq \<Rightarrow> world \<Rightarrow> sid list" where
  "set_outputs q w = filter (data_socket SOUT w) (list_sockets w (q_lasts q ! 0))"

definition can_be_a_set :: "seq \<Rightarrow> world \<Rightarrow> bool" where
  "can_be_a_set q w \<longleftrightarrow> q_n_threads q = 1 \<and> (\<forall>t \<in> set (q_firsts q ! 0 @ q_lasts q ! 0). t < next_task w \<and>
       (\<forall>s \<in> set (t_sockets (tsks w t)). s < next_sock w \<and> s_type (socks w s) \<noteq> SFWD)) \<and>
     (\<forall>s \<in> set (set_inputs q w @ set_outputs q w). copyable w s) \<and>
     distinct (map (\<lambda>s. s_name (socks w s)) (set_inputs q w @ set_outputs q w)) \<and>
     (\<forall>s \<in> set (set_outputs q w). \<not> (t_outbuffers_allocated (tsks w (s_task (socks w s))) \<and> s_dataptr (socks w s) = Null))"

lemma list_sockets_cong: "(\<And>t. t \<in> set ts \<Longrightarrow> tsks w' t = tsks w t) \<Longrightarrow> list_sockets w' ts = list_sockets w ts"
  by (simp add: list_sockets_def cong: map_cong)

lemma data_filter_cong: "(\<And>s. s \<in> set ss \<Longrightarrow> socks w' s = socks w s) \<Longrightarrow> filter (data_socket ty w') ss = filter (data_socket ty w) ss"
  by (intro filter_cong refl) (simp add: data_socket_def)

text \<open>The sockets of the task after both loops.\<close>

lemma set_sockets_fresh:
  assumes ok: "can_be_a_set q w" and w: "fresh_module md w1" "m_tasks (mods w1 md) = []" "socks w1 = socks w" "tsks w1 = tsks w"
    "next_sock w1 = next_sock w" "next_task w1 = next_task w"
  obtains w2 w3 w4 where "create_task md ''exec'' (-1) w1 = (Inr (next_task w), w2)"
    "foreach (mirror md (next_task w) SIN) (list_sockets w2 (q_firsts q ! 0)) w2 = (Inr (), w3)"
    "foreach (mirror md (next_task w) SOUT) (list_sockets w3 (q_lasts q ! 0)) w3 = (Inr (), w4)"
    "only_task (next_task w) w2 w4" "wf_task (next_task w) w4" "fresh_module md w4" "m_tasks (mods w4 md) = [next_task w]"
    "t_module (tsks w4 (next_task w)) = md" "t_name (tsks w4 (next_task w)) = ''exec''"
    "task_entries (next_task w) w4 = map (entry_of w) (set_inputs q w @ set_outputs q w)"
    "t_sockets (tsks w2 (next_task w)) = []" "socks w2 = socks w" "next_sock w2 = next_sock w"
    "\<forall>t < next_task w. tsks w4 t = tsks w t"
proof -
  let ?p = "next_task w" and ?fs = "q_firsts q ! 0" and ?ls = "q_lasts q ! 0"
  have none: "\<forall>t \<in> set (m_tasks (mods w1 md)). t_name (tsks w1 t) \<noteq> ''exec''" using w(2) by simp
  obtain w2 st where 2: "create_task md ''exec'' (-1) w1 = (Inr ?p, w2)" "tsks w2 ?p = blank_task\<lparr>t_module := md, t_name := ''exec'',
      t_replicable := m_clonable (mods w1 md), t_status := st\<rparr>"
    "\<forall>u. u \<noteq> ?p \<longrightarrow> tsks w2 u = tsks w u" "socks w2 = socks w" "next_sock w2 = next_sock w" "task_autoalloc w2 = task_autoalloc w1"
    "mods w2 md = (mods w1 md)\<lparr>m_tasks := m_tasks (mods w1 md) @ [?p], m_tasks_with_nullptr := m_tasks_with_nullptr (mods w1 md) @ [Some ?p]\<rparr>"
    using create_task_fresh [OF none] unfolding w by metis
  have t: "t \<noteq> ?p" if "t \<in> set ?fs \<or> t \<in> set ?ls" for t using ok that by (auto simp: can_be_a_set_def)
  have fs: "list_sockets w2 ?fs = list_sockets w ?fs" using 2(3) t by (intro list_sockets_cong) simp
  have wf2: "wf_task ?p w2" using 2(2) by (simp add: wf_task_def of_type_def blank_task_def Let_def)
  have f2: "fresh_module md w2" "t_module (tsks w2 ?p) = md" using w(1) 2 by (simp_all add: fresh_module_def)
  have e2: "task_entries ?p w2 = []" using 2(2) by (simp add: task_entries_def blank_task_def)
  have live: "\<forall>s \<in> set (list_sockets w ?fs) \<union> set (list_sockets w ?ls). s < next_sock w \<and> s_type (socks w s) \<noteq> SFWD"
    using ok by (auto simp: can_be_a_set_def list_sockets_def)
  have ins: "filter (data_socket SIN w2) (list_sockets w ?fs) = set_inputs q w"
    unfolding set_inputs_def by (rule data_filter_cong) (simp add: 2(4))
  obtain w3 where 3: "foreach (mirror md ?p SIN) (list_sockets w ?fs) w2 = (Inr (), w3)" "wf_task ?p w3" "only_task ?p w2 w3"
    "task_entries ?p w3 = map (entry_of w2) (set_inputs q w)"
    using mirrors_fresh [where p = ?p and md = md and ty = SIN and ss = "list_sockets w ?fs", OF wf2 f2] live ok
    by (auto simp: ins e2 2(4,5) copyable_def can_be_a_set_def)
  have eq2: "entry_of w2 = entry_of w" by (simp add: fun_eq_iff entry_of_def 2(4))
  have old3: "socks w3 s = socks w s" if "s < next_sock w" for s using 3(3) that by (simp add: only_task_def 2(4,5))
  have ls: "list_sockets w3 ?ls = list_sockets w ?ls" using 2(3) 3(3) t by (intro list_sockets_cong) (simp add: only_task_def)
  have outs: "filter (data_socket SOUT w3) (list_sockets w ?ls) = set_outputs q w"
    unfolding set_outputs_def by (rule data_filter_cong) (use live old3 in auto)
  have live_out: "socks w3 s = socks w s" if "s \<in> set (set_outputs q w)" for s
    using that live old3 by (simp add: set_outputs_def)
  have names: "map (\<lambda>s. s_name (socks w3 s)) (set_outputs q w) = map (\<lambda>s. s_name (socks w s)) (set_outputs q w)"
    "(\<lambda>s. s_name (socks w3 s)) ` set (set_outputs q w) = (\<lambda>s. s_name (socks w s)) ` set (set_outputs q w)"
    "map (entry_of w3) (set_outputs q w) = map (entry_of w) (set_outputs q w)" using live_out by (auto simp: entry_of_def)
  have f3: "fresh_module md w3" "t_module (tsks w3 ?p) = md" using only_task_module [OF 3(3)] f2 by auto
  have p1: "\<forall>s \<in> set (list_sockets w ?ls). s < next_sock w3 \<and> s_type (socks w3 s) \<noteq> SFWD"
  proof
    fix s assume "s \<in> set (list_sockets w ?ls)"
    with live have s: "s < next_sock w" "s_type (socks w s) \<noteq> SFWD" by auto
    moreover have "next_sock w \<le> next_sock w3" using 3(3) by (simp add: only_task_def 2(5))
    ultimately show "s < next_sock w3 \<and> s_type (socks w3 s) \<noteq> SFWD" using old3 [OF s(1)] by simp
  qed
  have p2: "\<forall>s \<in> set (filter (data_socket SOUT w3) (list_sockets w ?ls)). copyable w3 s"
    unfolding outs using ok live_out by (auto simp: can_be_a_set_def copyable_def)
  have p3: "distinct (map (\<lambda>s. s_name (socks w3 s)) (filter (data_socket SOUT w3) (list_sockets w ?ls)))"
    unfolding outs names using ok by (simp add: can_be_a_set_def)
  have p4: "\<forall>e \<in> set (task_entries ?p w3). fst (snd e) \<noteq> status_name \<and>
      fst (snd e) \<notin> (\<lambda>s. s_name (socks w3 s)) ` set (filter (data_socket SOUT w3) (list_sockets w ?ls))"
    unfolding outs names 3(4) eq2 using ok by (auto simp: can_be_a_set_def copyable_def entry_of_def)
  obtain w4 where 4: "foreach (mirror md ?p SOUT) (list_sockets w ?ls) w3 = (Inr (), w4)" "wf_task ?p w4" "only_task ?p w3 w4"
    "task_entries ?p w4 = task_entries ?p w3 @ map (entry_of w3) (set_outputs q w)"
    using mirrors_fresh [OF 3(2) f3 p1 p2 p3 p4] unfolding outs by blast
  have o: "only_task ?p w2 w4" by (rule only_task_trans [OF 3(3) 4(3)])
  show thesis
  proof (rule that)
    show "create_task md ''exec'' (-1) w1 = (Inr ?p, w2)" by (rule 2(1))
    show "foreach (mirror md ?p SIN) (list_sockets w2 ?fs) w2 = (Inr (), w3)" unfolding fs by (rule 3(1))
    show "foreach (mirror md ?p SOUT) (list_sockets w3 ?ls) w3 = (Inr (), w4)" unfolding ls by (rule 4(1))
    show "fresh_module md w4" using only_task_module [OF o] f2 by simp
    show "task_entries ?p w4 = map (entry_of w) (set_inputs q w @ set_outputs q w)" unfolding 4(4) 3(4) names eq2 by simp
    show "\<forall>t < ?p. tsks w4 t = tsks w t" using o 2(3) by (simp add: only_task_def)
    show "m_tasks (mods w4 md) = [?p]" using o 2(7) w(2) by (simp add: only_task_def)
    show "t_module (tsks w4 ?p) = md" "t_name (tsks w4 ?p) = ''exec''" using o 2(2) by (simp_all add: only_task_def)
  qed (use o 4(2) 2 in \<open>simp_all add: blank_task_def\<close>)
qed

lemma entries_typed: "filter ((=) SOUT \<circ> fst) (map (entry_of w) (set_inputs q w @ set_outputs q w)) = map (entry_of w) (set_outputs q w)"
proof -
  have "filter ((=) SOUT \<circ> fst) (map (entry_of w) (set_inputs q w)) = []"
    by (auto simp: filter_empty_conv set_inputs_def data_socket_def entry_of_def)
  moreover have "filter ((=) SOUT \<circ> fst) (map (entry_of w) (set_outputs q w)) = map (entry_of w) (set_outputs q w)"
    by (auto simp: filter_id_conv set_outputs_def data_socket_def entry_of_def)
  ultimately show ?thesis by simp
qed

lemma outs_of_entries:
  assumes "task_entries p w1 = map (entry_of w) (set_inputs q w @ set_outputs q w)"
  shows "map (entry_of w1) (sockets_from SOUT w1 p 0) = map (entry_of w) (set_outputs q w)"
proof -
  have "map (entry_of w1) (sockets_from SOUT w1 p 0) = filter ((=) SOUT \<circ> fst) (task_entries p w1)"
    by (auto simp: task_entries_def filter_map comp_def entry_of_def intro!: arg_cong [where f = "map _"] filter_cong)
  then show ?thesis unfolding assms entries_typed .
qed

lemma set_outputs_live: "can_be_a_set q w \<Longrightarrow> s \<in> set (set_outputs q w) \<Longrightarrow> s < next_sock w"
  by (auto simp: can_be_a_set_def set_outputs_def list_sockets_def)

lemma set_pairs_bindable:
  assumes ok: "can_be_a_set q w" and wf: "wf_links w" and p: "wf_task p w4" "only_task p w2 w4" "t_sockets (tsks w2 p) = []"
    and w2: "socks w2 = socks w" "next_sock w2 = next_sock w" and old: "\<forall>t < next_task w. tsks w4 t = tsks w t"
    and task: "\<forall>s \<in> set (set_outputs q w). s_task (socks w s) < next_task w"
    and e: "task_entries p w4 = map (entry_of w) (set_inputs q w @ set_outputs q w)"
  shows "bindable_pairs w4 (sockets_from SOUT w4 p 0) (set_outputs q w)"
proof -
  let ?js = "sockets_from SOUT w4 p 0" and ?ds = "set_outputs q w"
  note live = set_outputs_live [OF ok]
  have n: "next_sock w \<le> next_sock w4" "\<forall>i < next_sock w. socks w4 i = socks w i" using p(2) w2 by (simp_all add: only_task_def)
  have new: "next_sock w \<le> i \<and> i < next_sock w4" if "i \<in> set ?js" for i
    using that p w2(2) by (auto simp: only_task_def wf_task_def Let_def)
  have eq: "list_all2 (\<lambda>i s. entry_of w4 i = entry_of w s) ?js ?ds"
    using outs_of_entries [OF e] by (simp add: list_all2_conv_all_nth list_eq_iff_nth_eq)
  have "list_all2 (\<lambda>i s. s_datatype (socks w4 s) = s_datatype (socks w4 i) \<and> s_databytes (socks w4 s) = s_databytes (socks w4 i)) ?js ?ds"
    by (rule list.rel_mono_strong [OF eq]) (use live n in \<open>auto simp: entry_of_def\<close>)
  moreover have "wf_links w2" using wf w2 by (simp add: wf_links_def)
  then have "s_bound_socket (socks w4 i) = None" if "i \<in> set ?js" for i
    using wf_links_only_task(2) [OF p(2), of i] new [OF that] wf by (simp add: w2 wf_links_def)
  moreover have "distinct ?js" using p(1) by (simp add: wf_task_def Let_def)
  moreover have "set ?js \<inter> set ?ds = {}" using new live by fastforce
  moreover have "\<not> (t_outbuffers_allocated (tsks w4 (s_task (socks w4 s))) \<and> s_dataptr (socks w4 s) = Null)" if "s \<in> set ?ds" for s
    using ok that live [OF that] n(2) old task by (auto simp: can_be_a_set_def)
  moreover have "s < next_sock w4" if "s \<in> set ?ds" for s using live [OF that] n(1) by linarith
  ultimately show ?thesis using new by (auto simp: bindable_pairs_def)
qed


text \<open>One task with an input and an output.\<close>

definition set_world :: world where
  "set_world = upd_sck 0 (\<lambda>s. s\<lparr>s_name := ''in''\<rparr>) (upd_sck 1 (\<lambda>s. s\<lparr>s_name := ''out'', s_dataptr := Ptr 1 0\<rparr>)
     (upd_tsk 0 (\<lambda>x. x\<lparr>t_sockets := [0, 1]\<rparr>) (blank_world (\<lambda>i. if i = 0 then SIN else SOUT) 2)))"

definition set_seq :: seq where
  "set_seq = demo_seq\<lparr>q_firsts := [[0]], q_lasts := [[0]]\<rparr>"


section \<open>The number of frames\<close>

text \<open>
  A set is made with one frame, whatever the number of frames of its sequence, which is in the sizes of its sockets. Asked for
  the number of frames its sequence already has, it rescales its own sockets, the sequence keeps its own, and the
  outputs can not be bound any more: \<open>set_n_frames\<close> throws and leaves them unbound.
\<close>

lemma mismatched_bind_throws:
  assumes "list_sockets w lasts = s # ss" and "data_socket SOUT w s" and "next_socket SOUT w p 0 = Some j"
    and "\<not> s_fast (socks w (t_sockets (tsks w p) ! j))" and "s_databytes (socks w s) \<noteq> s_databytes (socks w (t_sockets (tsks w p) ! j))"
  shows "bind_outs p lasts w = (Inl Runtime_error, w)"
  using assms by (simp add: bind_outs_def bind_sck_def Let_def)

lemma set_of_frames_cannot_rescale:
  assumes "m_n_frames (mods w md) \<noteq> n" and "m_tasks (mods w md) ! 0 = p"
    and "on_pairs SOUT (\<lambda>i s w. drop_value (unbind_sck i s w)) p (list_sockets w lasts) 0 w = (Inr (), w1)"
    and "set_n_frames F md n w1 = (Inr (), w2)" and "frames n w2 = (Inr (), w2)"
    and "list_sockets w2 lasts = s # ss" and "data_socket SOUT w2 s" and "next_socket SOUT w2 p 0 = Some j"
    and "\<not> s_fast (socks w2 (t_sockets (tsks w2 p) ! j))" and "s_databytes (socks w2 s) \<noteq> s_databytes (socks w2 (t_sockets (tsks w2 p) ! j))"
  shows "set_set_n_frames F frames md lasts n w = (Inl Runtime_error, w2)"
  using assms(1-5) mismatched_bind_throws [OF assms(6-10)] by (simp add: set_set_n_frames_def Let_def)

end
