(* ===== verification/Statistics.thy ===== *)
theory Statistics
  imports Doubles Tasks "HOL-Library.Multiset"
begin

text \<open>
  The table of the measured durations (\<^verbatim>\<open>src/Tools/Display/Statistics/Statistics.cpp\<close>): the lines that are shown for a list of
  tasks, and for the clones of each task in the threads of a sequence. A line holds the values that are printed; the
  widths of the columns and the characters of the numbers are not modelled. A value of type \<^verbatim>\<open>float\<close> is a \<open>dbl\<close> of 24 bits
  (a product or quotient of two of them, rounded to 53 bits and then to 24, is the one rounded once). Durations are in
  nanoseconds; the sums are not close to the bounds of \<^verbatim>\<open>int64_t\<close>.
\<close>

section \<open>The lines\<close>

datatype colour = Red | Yellow | Green | Gray | Plain

text \<open>A number and whether it is written in the scientific format.\<close>

type_synonym cell = "dbl \<times> bool"

record line =
  l_module :: string
  l_module_cut :: bool
  l_task :: string
  l_task_cut :: bool
  l_rep :: "bool option"
  l_order :: "int option"
  l_timer :: "string option"
  l_calls :: "32 word"
  l_tot :: cell
  l_percent :: dbl
  l_colour :: colour
  l_thr :: "cell list"
  l_lat :: "cell list"

datatype out_line = Header bool | Separation bool | Line line | Unavailable

definition f_int :: "int \<Rightarrow> dbl" where
  "f_int k = Fin (round_bits 24 (of_int k))"

definition f_const :: "rat \<Rightarrow> dbl" where
  "f_const x = Fin (round_bits 24 x)"

definition f_mul :: "dbl \<Rightarrow> dbl \<Rightarrow> dbl" where
  "f_mul x y = to_float (dbl_mul x y)"

definition f_div :: "dbl \<Rightarrow> dbl \<Rightarrow> dbl" where
  "f_div x y = to_float (dbl_div x y)"

definition seconds :: "int \<Rightarrow> dbl" where
  "seconds d = f_mul (f_int d) (f_const (1 / 1000000000))"

definition micros :: "int \<Rightarrow> dbl" where
  "micros d = f_mul (f_int d) (f_const (1 / 1000))"

text \<open>\<^verbatim>\<open>l1\<close> and \<^verbatim>\<open>l2\<close>; the numbers of a throughput or a latency are also scientific below 1.\<close>

definition long_cell :: "dbl \<Rightarrow> cell" where
  "long_cell x = (x, dbl_less (f_int 99999999) x)"

definition cell_of :: "dbl \<Rightarrow> cell" where
  "cell_of x = (x, dbl_less (f_const (9999999 / 100)) x \<or> dbl_less x (f_const 1))"

definition colour_of :: "dbl \<Rightarrow> colour" where
  "colour_of p = (if dbl_less (f_const 50) p then Red else if dbl_less (f_const 25) p then Yellow
     else if dbl_less (f_const (25 / 2)) p then Green else if dbl_less p (f_const 5) then Gray else Plain)"

text \<open>The three throughputs (of \<open>n\<close> elements at a time, \<open>all_n\<close> in all) and the three latencies.\<close>

definition throughputs :: "nat \<Rightarrow> nat \<Rightarrow> int \<Rightarrow> int \<Rightarrow> int \<Rightarrow> cell list" where
  "throughputs all_n n tot mn mx = map cell_of
     [f_div (f_int (int all_n)) (micros tot), f_div (f_int (int n)) (micros mx), f_div (f_int (int n)) (micros mn)]"

definition latencies :: "32 word \<Rightarrow> int \<Rightarrow> int \<Rightarrow> int \<Rightarrow> cell list" where
  "latencies calls tot mn mx = map cell_of [f_div (micros tot) (f_int (uint calls)), micros mn, micros mx]"

definition show_task :: "dbl \<Rightarrow> string \<Rightarrow> string \<Rightarrow> bool \<Rightarrow> int \<Rightarrow> nat \<Rightarrow> 32 word \<Rightarrow> int \<Rightarrow> int \<Rightarrow> int \<Rightarrow> bool \<Rightarrow> out_line list" where
  "show_task total_sec mname tname rep order n_elmts calls tot mn mx thr =
     (if calls = 0 then [] else let percent = f_mul (f_div (seconds tot) total_sec) (f_const 100) in
      [Line \<lparr>l_module = take 18 mname, l_module_cut = (18 < length mname), l_task = take 17 tname, l_task_cut = (17 < length tname),
         l_rep = Some rep, l_order = (if 0 \<le> order then Some order else None), l_timer = None, l_calls = calls,
         l_tot = long_cell (seconds tot), l_percent = percent, l_colour = colour_of percent,
         l_thr = (if thr then throughputs (unat calls * n_elmts mod 2 ^ 64) n_elmts tot mn mx else []),
         l_lat = latencies calls tot mn mx\<rparr>])"

definition show_timer :: "dbl \<Rightarrow> 32 word \<Rightarrow> nat \<Rightarrow> string \<Rightarrow> 32 word \<Rightarrow> int \<Rightarrow> int \<Rightarrow> int \<Rightarrow> out_line list" where
  "show_timer total_sec task_calls n_elmts name calls tot mn mx =
     (if task_calls = 0 \<or> calls = 0 then [] else let rn = (n_elmts * unat task_calls mod 2 ^ 64) div unat calls in
      [Line \<lparr>l_module = ''-'', l_module_cut = False, l_task = ''-'', l_task_cut = False, l_rep = None, l_order = None,
         l_timer = Some name, l_calls = calls, l_tot = long_cell (seconds tot),
         l_percent = f_mul (f_div (seconds tot) total_sec) (f_const 100), l_colour = Plain,
         l_thr = throughputs (unat calls * rn mod 2 ^ 64) rn tot mn mx, l_lat = latencies calls tot mn mx\<rparr>])"

section \<open>What is read of a task\<close>

definition display_name :: "tid \<Rightarrow> world \<Rightarrow> string" where
  "display_name t w = (let m = mods w (t_module (tsks w t)) in if m_custom_name m = [] then m_short_name m else m_custom_name m)"

text \<open>\<^verbatim>\<open>sockets.end()[-2]\<close>: the last socket before the status. A task may have its status only.\<close>

definition last_elmts :: "tid \<Rightarrow> world \<Rightarrow> exn + nat" where
  "last_elmts t w = (let ss = t_sockets (tsks w t) in
     if length ss < 2 then Inl UB else Inr (get_n_elmts (socks w (ss ! (length ss - 2)))))"

definition trunc_div :: "int \<Rightarrow> int \<Rightarrow> exn + int" where
  "trunc_div a b = (if b = 0 then Inl UB else Inr (sgn a * sgn b * (\<bar>a\<bar> div \<bar>b\<bar>)))"

text \<open>Dereferencing the pointers of a list.\<close>

fun deref :: "'a option list \<Rightarrow> exn + 'a list" where
  "deref [] = Inr []"
| "deref (None # xs) = Inl UB"
| "deref (Some x # xs) = and_then (deref xs) (\<lambda>ys. Inr (x # ys))"

fun each :: "('a \<Rightarrow> exn + 'b list) \<Rightarrow> 'a list \<Rightarrow> exn + 'b list" where
  "each f [] = Inr []"
| "each f (x # xs) = and_then (f x) (\<lambda>ys. and_then (each f xs) (\<lambda>zs. Inr (ys @ zs)))"

text \<open>The position in the map \<^verbatim>\<open>tasks_order\<close>: the last one of a task that is there twice.\<close>

definition order_in :: "'a list \<Rightarrow> 'a \<Rightarrow> int" where
  "order_in ts t = int (length ts - 1 - length (takeWhile (\<lambda>u. u \<noteq> t) (rev ts)))"

section \<open>One thread\<close>

text \<open>The loop that erases the null pointers does not look at the one that takes the place of an erased one.\<close>

fun erase_nulls :: "'a option list \<Rightarrow> 'a option list" where
  "erase_nulls [] = []"
| "erase_nulls (Some x # xs) = Some x # erase_nulls xs"
| "erase_nulls [None] = []"
| "erase_nulls (None # y # xs) = y # erase_nulls xs"

text \<open>
  The minima over the tasks that were called: the number of elements and the number of calls, which are 0 before the first one.
\<close>

definition note_min :: "bool \<times> nat \<times> int \<Rightarrow> nat \<times> int \<Rightarrow> bool \<times> nat \<times> int" where
  "note_min s x = (case (s, x) of ((first, e0, c0), (e, c)) \<Rightarrow>
     if first then (if c \<noteq> 0 then (False, e, c) else (True, e0, c0))
     else (False, if e \<noteq> 0 then min e0 e else e0, if c \<noteq> 0 then min c0 c else c0))"

definition minima :: "(nat \<times> int) list \<Rightarrow> nat \<times> int" where
  "minima xs = snd (fold (\<lambda>x s. note_min s x) xs (True, 0, 0))"

definition timer_lines :: "tid \<Rightarrow> nat \<Rightarrow> world \<Rightarrow> out_line list" where
  "timer_lines t n_elmts w = (let x = tsks w t in concat (map (\<lambda>i. show_timer (seconds (t_duration_total x)) (t_n_calls x) n_elmts
     (t_timers_name x ! i) (t_timers_n_calls x ! i) (t_timers_total x ! i) (t_timers_min x ! i) (t_timers_max x ! i))
     [0..<length (t_timers_name x)]))"

text \<open>The lines of a task, and what it adds to the minimum and to the maximum of the total.\<close>

definition task_lines :: "dbl \<Rightarrow> int \<Rightarrow> bool \<Rightarrow> int \<Rightarrow> world \<Rightarrow> tid \<Rightarrow> exn + (int \<times> int) \<times> out_line list" where
  "task_lines total_sec order thr calls0 w t = (let x = tsks w t; c = uint (t_n_calls x) in
     and_then (last_elmts t w) (\<lambda>e.
     and_then (trunc_div (t_duration_min x * c) calls0) (\<lambda>mn.
     and_then (trunc_div (t_duration_max x * c) calls0) (\<lambda>mx.
     Inr ((mn, mx), show_task total_sec (display_name t w) (t_name x) (t_replicable x) order e (t_n_calls x)
       (t_duration_total x) (t_duration_min x) (t_duration_max x) thr @ timer_lines t e w)))))"

text \<open>The line of the total, from the lines of the tasks.\<close>

definition with_total :: "dbl \<Rightarrow> bool \<Rightarrow> bool \<Rightarrow> nat \<Rightarrow> int \<Rightarrow> int \<Rightarrow> ((int \<times> int) \<times> out_line list) list \<Rightarrow> out_line list" where
  "with_total total_sec thr rep e c tot xs = Header thr # concat (map snd xs) @ [Separation thr] @
     show_task total_sec ''TOTAL'' ''*'' rep (-1) e (word_of_int c) tot
       (sum_list (map (fst \<circ> fst) xs)) (sum_list (map (snd \<circ> fst) xs)) thr"

text \<open>
  \<^verbatim>\<open>std::sort\<close> leaves the order of equal totals open; the stable order is taken here. \<open>ordered\<close> sorts by the largest total first.
\<close>

definition show_tasks :: "bool \<Rightarrow> bool \<Rightarrow> tid option list \<Rightarrow> world \<Rightarrow> exn + out_line list" where
  "show_tasks ordered thr tasks w = and_then (deref (erase_nulls tasks)) (\<lambda>ts0.
     let ts = (if ordered then sort_key (\<lambda>t. - t_duration_total (tsks w t)) ts0 else ts0);
         tot = sum_list (map (\<lambda>t. t_duration_total (tsks w t)) ts) in
     if tot = 0 then Inr [Unavailable]
     else and_then (each (\<lambda>t. and_then (last_elmts t w) (\<lambda>e. Inr [(e, uint (t_n_calls (tsks w t)))])) ts) (\<lambda>ns.
       case minima ns of (e, c) \<Rightarrow>
       and_then (each (\<lambda>t. and_then (task_lines (seconds tot) (order_in ts0 t) thr c w t) (\<lambda>x. Inr [x])) ts) (\<lambda>xs.
       Inr (with_total (seconds tot) thr (\<forall>t \<in> set ts. t_replicable (tsks w t)) e c tot xs))))"

text \<open>\<^verbatim>\<open>show_modules\<close>: the tasks of the modules that were called.\<close>

definition show_modules :: "bool \<Rightarrow> bool \<Rightarrow> mid option list \<Rightarrow> world \<Rightarrow> exn + out_line list" where
  "show_modules ordered thr ms w = show_tasks ordered thr (map Some (filter (\<lambda>t. t_n_calls (tsks w t) \<noteq> 0)
     (concat (map (\<lambda>m. case m of None \<Rightarrow> [] | Some md \<Rightarrow> m_tasks (mods w md)) ms)))) w"

section \<open>Several threads\<close>

text \<open>The erasure of the columns whose first pointer is null; \<open>k\<close> bounds the number of columns.\<close>

fun erase_columns :: "nat \<Rightarrow> nat \<Rightarrow> 'a option list list \<Rightarrow> exn + 'a option list list" where
  "erase_columns 0 t tss = Inr tss"
| "erase_columns (Suc k) t tss = (if tss = [] \<or> length (tss ! 0) \<le> t then Inr tss
     else if tss ! 0 ! t \<noteq> None then erase_columns k (Suc t) tss
     else if \<exists>ts \<in> set tss. length ts \<le> t then Inl UB
     else erase_columns k (Suc t) (map (del_at t) tss))"

definition erase_null_columns :: "'a option list list \<Rightarrow> exn + 'a option list list" where
  "erase_null_columns tss = erase_columns (if tss = [] then 0 else length (hd tss)) 0 tss"

text \<open>An \<^verbatim>\<open>int\<close> to which the numbers of calls, of 32 bits without sign, are added.\<close>

definition int_sum :: "32 word list \<Rightarrow> int" where
  "int_sum xs = sint (sum_list xs)"

definition total_of :: "world \<Rightarrow> tid list \<Rightarrow> int" where
  "total_of w vt = sum_list (map (\<lambda>t. t_duration_total (tsks w t)) vt)"

text \<open>A task without a socket before the status has no elements here.\<close>

definition elmts_of :: "tid \<Rightarrow> world \<Rightarrow> nat" where
  "elmts_of t w = (case last_elmts t w of Inl _ \<Rightarrow> 0 | Inr e \<Rightarrow> e)"

text \<open>The timers of a task: the minimum and the maximum are the ones of the last thread with those of the task.\<close>

definition timer_lines_mt :: "tid list \<Rightarrow> 32 word \<Rightarrow> int \<Rightarrow> int \<Rightarrow> int \<Rightarrow> nat \<Rightarrow> world \<Rightarrow> exn + out_line list" where
  "timer_lines_mt vt calls tot mn mx n_elmts w = (let names = t_timers_name (tsks w (hd vt)) in
     each (\<lambda>i. if \<exists>t \<in> set vt. length (t_timers_name (tsks w t)) \<le> i then Inl UB
       else Inr (show_timer (seconds tot) calls n_elmts (names ! i)
         (sum_list (map (\<lambda>t. t_timers_n_calls (tsks w t) ! i) vt)) (sum_list (map (\<lambda>t. t_timers_total (tsks w t) ! i) vt))
         (min mn (t_timers_min (tsks w (last vt)) ! i)) (max mx (t_timers_max (tsks w (last vt)) ! i))))
     [0..<length names])"

definition task_lines_mt :: "dbl \<Rightarrow> int \<Rightarrow> int \<Rightarrow> bool \<Rightarrow> int \<Rightarrow> world \<Rightarrow> tid list \<Rightarrow> exn + (int \<times> int) \<times> out_line list" where
  "task_lines_mt total_sec whole order thr calls0 w vt = (let x = tsks w (hd vt);
       c = int_sum (map (\<lambda>t. t_n_calls (tsks w t)) vt);
       mn = fold (\<lambda>t a. min a (t_duration_min (tsks w t))) vt whole;
       mx = fold (\<lambda>t a. max a (t_duration_max (tsks w t))) vt 0; e = elmts_of (hd vt) w in
     and_then (trunc_div (mn * c) calls0) (\<lambda>tmn. and_then (trunc_div (mx * c) calls0) (\<lambda>tmx.
     and_then (timer_lines_mt vt (word_of_int c) (total_of w vt) mn mx e w) (\<lambda>ls.
     Inr ((tmn, tmx), show_task total_sec (display_name (hd vt) w) (t_name x) (t_replicable x) order e (word_of_int c)
       (total_of w vt) mn mx thr @ ls)))))"

definition show_tasks_mt :: "bool \<Rightarrow> bool \<Rightarrow> tid option list list \<Rightarrow> world \<Rightarrow> exn + out_line list" where
  "show_tasks_mt ordered thr tasks w = and_then (erase_null_columns tasks) (\<lambda>tss. and_then (each (\<lambda>ts. and_then (deref ts) (\<lambda>x. Inr [x])) tss) (\<lambda>vts0.
     if \<exists>vt \<in> set vts0. vt = [] then Inl UB else
     let vts = (if ordered then sort_key (\<lambda>vt. - total_of w vt) vts0 else vts0);
         tot = sum_list (map (total_of w) vts) in
     if tot = 0 then Inr [Unavailable]
     else case minima (map (\<lambda>vt. (elmts_of (hd vt) w, int_sum (map (\<lambda>t. t_n_calls (tsks w t)) vt))) vts) of (e, c) \<Rightarrow>
       and_then (each (\<lambda>vt. and_then (task_lines_mt (seconds tot) tot (order_in (map hd vts0) (hd vt)) thr c w vt) (\<lambda>x. Inr [x])) vts) (\<lambda>xs.
       Inr (with_total (seconds tot) thr (\<forall>vt \<in> set vts. t_replicable (tsks w (hd vt))) e c tot xs))))"

text \<open>\<^verbatim>\<open>show_modules\<close>: each list of modules are the clones of its first one.\<close>

definition show_modules_mt :: "bool \<Rightarrow> bool \<Rightarrow> mid option list list \<Rightarrow> world \<Rightarrow> exn + out_line list" where
  "show_modules_mt ordered thr mss w = and_then (each (\<lambda>vm. case vm of Some m0 # _ \<Rightarrow>
       and_then (deref vm) (\<lambda>ms. each (\<lambda>k. if \<exists>m \<in> set ms. length (m_tasks (mods w m)) \<le> k then Inl UB
         else Inr [map (\<lambda>m. Some (m_tasks (mods w m) ! k)) ms]) [0..<length (m_tasks (mods w m0))])
     | _ \<Rightarrow> Inr []) mss) (\<lambda>tss. show_tasks_mt ordered thr tss w)"

section \<open>The two tables\<close>

lemma each_Inr: "(\<And>x. x \<in> set xs \<Longrightarrow> f x = Inr [g x]) \<Longrightarrow> each f xs = Inr (map g xs)"
  by (induction xs) simp_all

lemma each_cong: "(\<And>x. x \<in> set xs \<Longrightarrow> f x = g x) \<Longrightarrow> each f xs = each g xs"
  by (induction xs) simp_all

lemma each_map: "each f (map h xs) = each (f \<circ> h) xs"
  by (induction xs) simp_all

lemma deref_Some [simp]: "deref (map Some xs) = Inr xs"
  by (induction xs) simp_all

lemma erase_nulls_Some [simp]: "erase_nulls (map Some xs) = map Some xs"
  by (induction xs) simp_all

lemma erase_columns_Some: "\<forall>ts \<in> set tss. None \<notin> set ts \<Longrightarrow> erase_columns k t tss = Inr tss"
proof (induction k arbitrary: t)
  case (Suc k)
  have "tss ! 0 ! t \<noteq> None" if "tss \<noteq> []" "t < length (tss ! 0)"
    using Suc.prems that by (metis length_greater_0_conv nth_mem)
  with Suc show ?case by auto
qed simp

lemma insort_key_map: "insort_key f (g x) (map g xs) = map g (insort_key (f \<circ> g) x xs)"
  by (induction xs) simp_all

lemma sort_key_map: "sort_key f (map g xs) = map g (sort_key (f \<circ> g) xs)"
  by (induction xs) (simp_all add: insort_key_map comp_def)

text \<open>A task that the two forms show alike: it has a socket, and the bounds of its timers enclose its own.\<close>

definition plain_task :: "int \<Rightarrow> world \<Rightarrow> tid \<Rightarrow> bool" where
  "plain_task tot w t \<longleftrightarrow> (let x = tsks w t in 2 \<le> length (t_sockets x) \<and> uint (t_n_calls x) < 2 ^ 31 \<and>
     t_duration_min x \<le> tot \<and> 0 \<le> t_duration_max x \<and>
     (\<forall>i < length (t_timers_name x). t_timers_min x ! i \<le> t_duration_min x \<and> t_duration_max x \<le> t_timers_max x ! i))"

lemma plain_elmts: "plain_task tot w t \<Longrightarrow> last_elmts t w = Inr (elmts_of t w)"
  by (simp add: plain_task_def elmts_of_def last_elmts_def Let_def)

lemma int_sum_1: "uint c < 2 ^ 31 \<Longrightarrow> int_sum [c] = uint (c :: 32 word)"
  using signed_take_bit_int_eq_self [of 31 "uint c"] uint_ge_0 [of c] by (simp add: int_sum_def sint_uint)

lemma plain_calls: "plain_task tot w t \<Longrightarrow> int_sum [t_n_calls (tsks w t)] = uint (t_n_calls (tsks w t))"
  by (simp add: plain_task_def Let_def int_sum_1)

lemma each_concat: "(\<And>x. x \<in> set xs \<Longrightarrow> f x = Inr (g x)) \<Longrightarrow> each f xs = Inr (concat (map g xs))"
  by (induction xs) simp_all

lemma timer_lines_1:
  assumes "plain_task tot w t"
  shows "timer_lines_mt [t] (t_n_calls (tsks w t)) (t_duration_total (tsks w t)) (t_duration_min (tsks w t))
    (t_duration_max (tsks w t)) e w = Inr (timer_lines t e w)"
proof -
  have *: "min (t_duration_min (tsks w t)) (t_timers_min (tsks w t) ! i) = t_timers_min (tsks w t) ! i"
    "max (t_duration_max (tsks w t)) (t_timers_max (tsks w t) ! i) = t_timers_max (tsks w t) ! i"
    if "i < length (t_timers_name (tsks w t))" for i using that assms by (auto simp: plain_task_def Let_def)
  show ?thesis unfolding timer_lines_mt_def timer_lines_def Let_def list.sel by (rule each_concat) (simp add: *)
qed

lemma task_lines_1:
  assumes "plain_task tot w t"
  shows "task_lines_mt s tot order thr c w [t] = task_lines s order thr c w t"
proof -
  have "min tot (t_duration_min (tsks w t)) = t_duration_min (tsks w t)" "max 0 (t_duration_max (tsks w t)) = t_duration_max (tsks w t)"
    using assms by (auto simp: plain_task_def Let_def)
  then show ?thesis using timer_lines_1 [OF assms]
    by (simp add: task_lines_mt_def task_lines_def Let_def plain_elmts [OF assms] plain_calls [OF assms] total_of_def)
qed

text \<open>Two tasks, with a timer each.\<close>

definition stat_world :: world where
  "stat_world = (let x = blank_task\<lparr>t_n_calls := 2, t_duration_total := 30, t_duration_min := 10, t_duration_max := 20,
       t_sockets := [0, 1], t_timers_name := [''T''], t_timers_n_calls := [1], t_timers_total := [25], t_timers_min := [7], t_timers_max := [25]\<rparr> in
     upd_tsk 0 (\<lambda>_. x) (upd_tsk 1 (\<lambda>_. x\<lparr>t_duration_total := 40\<rparr>) (blank_world (\<lambda>_. SOUT) 2)))"

text \<open>
  For one thread, the table of the clones of the tasks is the table of the tasks, in the same order, when every task has
  a socket, was called less than \<open>2 ^ 31\<close> times, and the bounds of its timers enclose its own.
\<close>

theorem one_thread_statistics:
  assumes "\<forall>t \<in> set ts. plain_task (sum_list (map (\<lambda>t. t_duration_total (tsks w t)) ts)) w t"
  shows "show_tasks_mt ordered thr (map (\<lambda>t. [Some t]) ts) w = show_tasks ordered thr (map Some ts) w"
proof -
  define f where "f = (\<lambda>t. - t_duration_total (tsks w t))"
  define us where "us = (if ordered then sort_key f ts else ts)"
  define tot where "tot = sum_list (map (\<lambda>t. t_duration_total (tsks w t)) us)"
  have mset: "mset us = mset ts" by (simp add: us_def)
  then have set: "set us = set ts" by (metis set_mset_mset)
  have "mset (map (\<lambda>t. t_duration_total (tsks w t)) us) = mset (map (\<lambda>t. t_duration_total (tsks w t)) ts)" using mset by simp
  then have "tot = sum_list (map (\<lambda>t. t_duration_total (tsks w t)) ts)" unfolding tot_def by (metis sum_mset_sum_list)
  then have plain: "plain_task tot w t" if "t \<in> set us" for t using assms that set by simp
  have vts: "(if ordered then sort_key (\<lambda>vt. - total_of w vt) (map (\<lambda>t. [t]) ts) else map (\<lambda>t. [t]) ts) = map (\<lambda>t. [t]) us"
    by (simp add: us_def sort_key_map f_def total_of_def comp_def)
  have tot_mt: "sum_list (map (total_of w) (map (\<lambda>t. [t]) us)) = tot" by (simp add: tot_def total_of_def comp_def)
  have min_mt: "map (\<lambda>vt. (elmts_of (hd vt) w, int_sum (map (\<lambda>t. t_n_calls (tsks w t)) vt))) (map (\<lambda>t. [t]) us) =
      map (\<lambda>t. (elmts_of t w, uint (t_n_calls (tsks w t)))) us"
    by (simp add: plain_calls [OF plain])
  have min_1: "each (\<lambda>t. and_then (last_elmts t w) (\<lambda>e. Inr [(e, uint (t_n_calls (tsks w t)))])) us =
      Inr (map (\<lambda>t. (elmts_of t w, uint (t_n_calls (tsks w t)))) us)"
    by (intro each_Inr) (simp add: plain_elmts [OF plain])
  have lines: "each (\<lambda>vt. and_then (task_lines_mt s tot (order_in (map hd (map (\<lambda>t. [t]) ts)) (hd vt)) thr c w vt) (\<lambda>x. Inr [x])) (map (\<lambda>t. [t]) us) =
      each (\<lambda>t. and_then (task_lines s (order_in ts t) thr c w t) (\<lambda>x. Inr [x])) us" for s c
    unfolding each_map by (intro each_cong) (simp add: task_lines_1 [OF plain] comp_def)
  have heads: "each (\<lambda>ts. and_then (deref ts) (\<lambda>x. Inr [x])) (map (\<lambda>t. [Some t]) ts) = Inr (map (\<lambda>t. [t]) ts)"
    unfolding each_map by (intro each_Inr) simp
  have erase: "erase_null_columns (map (\<lambda>t. [Some t]) ts) = Inr (map (\<lambda>t. [Some t]) ts)"
    unfolding erase_null_columns_def by (intro erase_columns_Some) auto
  have rep: "(\<forall>vt \<in> set (map (\<lambda>t. [t]) us). t_replicable (tsks w (hd vt))) = (\<forall>t \<in> set us. t_replicable (tsks w t))" by simp
  have ne: "\<not> (\<exists>vt \<in> set (map (\<lambda>t. [t]) ts). vt = [])" by auto
  show ?thesis unfolding show_tasks_mt_def show_tasks_def erase and_then.simps heads erase_nulls_Some deref_Some if_not_P [OF ne] vts Let_def
      tot_mt min_mt lines rep us_def [symmetric, unfolded f_def] tot_def [symmetric] min_1 ..
qed

lemma one_thread_statistics_witness:
  "show_tasks_mt True True [[Some 0], [Some 1]] stat_world = show_tasks True True [Some 0, Some 1] stat_world"
  using one_thread_statistics [of "[0, 1]" stat_world True True] by (simp add: stat_world_def plain_task_def blank_defs)

text \<open>The erasure skips the element after an erased one, so a second null pointer in a row is dereferenced.\<close>

lemma two_null_tasks: "show_tasks ordered thr [None, None] w = Inl UB"
  by (simp add: show_tasks_def)

text \<open>A task with its status only, as the one of a probe without input, is read out of its sockets by the first form.\<close>

lemma task_without_sockets:
  "length (t_sockets (tsks w t)) < 2 \<Longrightarrow> t_duration_total (tsks w t) \<noteq> 0 \<Longrightarrow> show_tasks ordered thr [Some t] w = Inl UB"
  by (simp add: show_tasks_def last_elmts_def)

text \<open>The minimum that is shown for a timer does not depend on the timers of the threads before the last one.\<close>

lemma timer_minimum_of_the_last:
  assumes "t_timers_name (tsks w a) = [n]" "t_timers_name (tsks w b) = [n]"
  shows "timer_lines_mt [a, b] calls tot mn mx e w = Inr (show_timer (seconds tot) calls e n
    (t_timers_n_calls (tsks w a) ! 0 + t_timers_n_calls (tsks w b) ! 0) (t_timers_total (tsks w a) ! 0 + t_timers_total (tsks w b) ! 0)
    (min mn (t_timers_min (tsks w b) ! 0)) (max mx (t_timers_max (tsks w b) ! 0)))"
  using assms by (simp add: timer_lines_mt_def)

end
