(* ===== verification/Terminals.thy ===== *)
theory Terminals
  imports Reporters
begin

text \<open>
  The display of the reporters (\<^verbatim>\<open>Terminal_std.cpp\<close>, \<^verbatim>\<open>Terminal_dump.cpp\<close>): the eight lines of the legend and the rows of values, as
  the characters that are written to a file (the styles and the colours write nothing there). A group of columns has two
  titles; a column has a name, a unit and a width, where 0 stands for the default one. \<^verbatim>\<open>unsigned\<close> has 32 bits.
\<close>

section \<open>Widths\<close>

record group =
  gr_name :: string
  gr_desc :: string
  gr_cols :: "(string \<times> string \<times> nat) list"

definition def_column_width :: nat where
  "def_column_width = 10"

definition col_width :: "string \<times> string \<times> nat \<Rightarrow> nat" where
  "col_width c = (if snd (snd c) \<noteq> 0 then snd (snd c) else def_column_width)"

definition get_group_width :: "group \<Rightarrow> nat" where
  "get_group_width g = size_sub (sum_list (map (\<lambda>c. col_width c + 1) (gr_cols g)) mod 2 ^ 64) 1 mod 2 ^ 32"

definition longest_title :: "group \<Rightarrow> nat" where
  "longest_title g = max (length (gr_name g)) (length (gr_desc g))"

definition extra_spaces :: "group \<Rightarrow> nat" where
  "extra_spaces g = (let l = longest_title g mod 2 ^ 32; w = get_group_width g in if w < l then l - w else 0)"

section \<open>The legend\<close>

definition blanks :: "nat \<Rightarrow> string" where
  "blanks n = replicate n CHR '' ''"

definition dashes :: "nat \<Rightarrow> string" where
  "dashes n = replicate n CHR ''-''"

text \<open>A line: the tag, then its parts with the separator of the groups between them.\<close>

fun sep_by :: "string \<Rightarrow> string list \<Rightarrow> string" where
  "sep_by s [] = ''''"
| "sep_by s [x] = x"
| "sep_by s (x # xs) = x @ s @ sep_by s xs"

definition full_line :: "string list \<Rightarrow> string" where
  "full_line parts = ''# '' @ sep_by ''||'' parts"

text \<open>Lines 1 and 4.\<close>

definition rule_part :: "group \<Rightarrow> string" where
  "rule_part g = dashes ((get_group_width g + extra_spaces g) mod 2 ^ 32)"

text \<open>Lines 2 and 3: a title between spaces; the longest of the two does not get the extra ones.\<close>

definition title_part :: "string \<Rightarrow> group \<Rightarrow> string" where
  "title_part text g = (let n = int (get_group_width g) - int (length text) + (if length text \<noteq> longest_title g then int (extra_spaces g) else 0);
     left = (if 0 \<le> n then nat n div 2 else 0); right = (if 0 \<le> n then nat n - left else 0) in blanks left @ text @ blanks right)"

text \<open>Lines 5 and 8, then 6 and 7; \<open>j\<close> is the number of the column.\<close>

definition col_rule :: "group \<Rightarrow> nat \<Rightarrow> string" where
  "col_rule g j = dashes (col_width (gr_cols g ! j) + (if j = 0 then extra_spaces g else 0))"

definition col_title :: "(string \<times> string \<times> nat \<Rightarrow> string) \<Rightarrow> group \<Rightarrow> nat \<Rightarrow> string" where
  "col_title txt g j = (let c = gr_cols g ! j; text = txt c;
     n = int (col_width c) - int (length text) - 1 + (if j = 0 then int (extra_spaces g) else 0) in
     (if 0 < n then blanks (nat n) else '''') @ text @ '' '')"

definition cols_part :: "(group \<Rightarrow> nat \<Rightarrow> string) \<Rightarrow> group \<Rightarrow> string" where
  "cols_part f g = sep_by ''|'' (map (f g) [0..<length (gr_cols g)])"

definition legend_lines :: "group list \<Rightarrow> string list" where
  "legend_lines gs = [full_line (map rule_part gs), full_line (map (\<lambda>g. title_part (gr_name g) g) gs),
     full_line (map (\<lambda>g. title_part (gr_desc g) g) gs), full_line (map rule_part gs),
     full_line (map (cols_part col_rule) gs), full_line (map (cols_part (col_title fst)) gs),
     full_line (map (cols_part (col_title (fst \<circ> snd))) gs), full_line (map (cols_part col_rule) gs)]"

text \<open>\<^verbatim>\<open>legend\<close>: the reporters are pointers to their groups.\<close>

definition legend :: "group list option list \<Rightarrow> exn + string list" where
  "legend rs = (if None \<in> set rs then Inl Runtime_error else Inr (legend_lines (concat (map the rs))))"

section \<open>The rows\<close>

text \<open>A cell is aligned on the right with a space after it, when it is shorter than its column.\<close>

definition pad_cell :: "string \<times> string \<times> nat \<Rightarrow> string \<Rightarrow> string" where
  "pad_cell c text = (if length text < col_width c then blanks (col_width c - (length text + 1)) @ text @ '' '' else text)"

text \<open>
  The row of \<^verbatim>\<open>Terminal_std\<close>: every cell of the report, with the column of the same number; a report may have more cells than its
  group has columns. \<open>rt\<close> is \<^verbatim>\<open>real_time_state\<close>.
\<close>

fun std_groups :: "group list \<Rightarrow> string list list \<Rightarrow> exn + string list" where
  "std_groups [] rep = Inr []"
| "std_groups (g # gs) [] = Inl UB"
| "std_groups (g # gs) (cells # rep) = (if length (gr_cols g) < length cells then Inl UB
     else and_then (std_groups gs rep) (\<lambda>ls. Inr ((blanks (extra_spaces g) @ sep_by ''|'' (map (\<lambda>(c, t). pad_cell c t) (zip (gr_cols g) cells))) # ls)))"

fun std_reporters :: "(group list \<times> string list list) option list \<Rightarrow> exn + string list" where
  "std_reporters [] = Inr []"
| "std_reporters (None # rs) = Inl Runtime_error"
| "std_reporters (Some (gs, rep) # rs) = and_then (std_groups gs rep) (\<lambda>ls. and_then (std_reporters rs) (\<lambda>ms. Inr (sep_by ''||'' ls # ms)))"

definition next_real_time :: "nat \<Rightarrow> nat" where
  "next_real_time rt = (rt + 1) mod 256 mod 4"

definition std_report :: "bool \<Rightarrow> nat \<Rightarrow> (group list \<times> string list list) option list \<Rightarrow> (nat, string) outcome" where
  "std_report final rt rs = (case std_reporters rs of Inl e \<Rightarrow> (Inl e, rt)
     | Inr ls \<Rightarrow> if final then (Inr (''  '' @ sep_by ''||'' ls @ ''  '' @ [CHR 0x0A]), rt)
         else (Inr (''  '' @ sep_by ''||'' ls @ (if rt < 2 then '' *'' else ''  '') @ [CHR 0x0D]), next_real_time rt))"

text \<open>The rows of \<^verbatim>\<open>Terminal_dump\<close>: as many cells as columns are taken from each report, dashes stand for an empty one.\<close>

definition dump_cell :: "group \<Rightarrow> string list \<Rightarrow> nat \<Rightarrow> string" where
  "dump_cell g cells j = pad_cell (gr_cols g ! j) (if cells \<noteq> [] then cells ! j else ''-'')"

definition dump_part :: "group \<Rightarrow> string list \<Rightarrow> string" where
  "dump_part g cells = blanks (extra_spaces g) @ sep_by ''|'' (map (dump_cell g cells) [0..<length (gr_cols g)])"

fun dump_groups :: "group list \<Rightarrow> string list list \<Rightarrow> exn + string list \<times> string list list" where
  "dump_groups [] rep = Inr ([], rep)"
| "dump_groups (g # gs) [] = Inl UB"
| "dump_groups (g # gs) (cells # rep) = (if cells \<noteq> [] \<and> length cells < length (gr_cols g) then Inl UB
     else and_then (dump_groups gs rep) (\<lambda>(ls, rep1). Inr (dump_part g cells # ls, drop (length (gr_cols g)) cells # rep1)))"

fun dump_reporters :: "(group list \<times> string list list) list \<Rightarrow> exn + string list \<times> (group list \<times> string list list) list" where
  "dump_reporters [] = Inr ([], [])"
| "dump_reporters ((gs, rep) # rs) = and_then (dump_groups gs rep) (\<lambda>(ls, rep1).
     and_then (dump_reporters rs) (\<lambda>(ms, rs1). Inr (sep_by ''||'' ls # ms, (gs, rep1) # rs1)))"

definition cells_left :: "(group list \<times> string list list) list \<Rightarrow> bool" where
  "cells_left rs \<longleftrightarrow> (\<exists>r \<in> set rs. \<exists>cells \<in> set (take (length (fst r)) (snd r)). cells \<noteq> [])"

partial_function (option) dump_rows :: "string list \<Rightarrow> (group list \<times> string list list) list \<Rightarrow> (exn + string list) option" where
  "dump_rows acc rs = (case dump_reporters rs of Inl e \<Rightarrow> Some (Inl e)
     | Inr (ls, rs1) \<Rightarrow> (let acc1 = acc @ [''  '' @ sep_by ''||'' ls] in
         if cells_left rs1 then dump_rows acc1 rs1 else Some (Inr acc1)))"

text \<open>The reports are asked for before the pointers are tested.\<close>

definition dump_report :: "(group list \<times> string list list) option list \<Rightarrow> (exn + string list) option" where
  "dump_report rs = (if None \<in> set rs then Some (Inl UB) else dump_rows [] (map the rs))"

text \<open>The group of a reporter of probes.\<close>

definition probe_group :: "string \<Rightarrow> string \<Rightarrow> reporter \<Rightarrow> group" where
  "probe_group name desc s = \<lparr>gr_name = name, gr_desc = desc, gr_cols = map (\<lambda>c. (q_name c, q_unit c, q_width c)) (rp_cols s)\<rparr>"

section \<open>The tables line up\<close>

text \<open>Columns, whose titles fit in their width, and sizes in the range of \<^verbatim>\<open>unsigned\<close>.\<close>

definition group_ok :: "group \<Rightarrow> bool" where
  "group_ok g \<longleftrightarrow> gr_cols g \<noteq> [] \<and> sum_list (map (\<lambda>c. col_width c + 1) (gr_cols g)) < 2 ^ 32 \<and> longest_title g < 2 ^ 32 \<and>
     (\<forall>c \<in> set (gr_cols g). length (fst c) < col_width c \<and> length (fst (snd c)) < col_width c)"

definition full_width :: "group \<Rightarrow> nat" where
  "full_width g = max (sum_list (map col_width (gr_cols g)) + (length (gr_cols g) - 1)) (longest_title g)"

definition table_width :: "group list \<Rightarrow> nat" where
  "table_width gs = 2 + (sum_list (map full_width gs) + 2 * (length gs - 1))"

lemma length_sep_by: "length (sep_by s xs) = sum_list (map length xs) + length s * (length xs - 1)"
  by (induction s xs rule: sep_by.induct) simp_all

lemma sum_Suc: "sum_list (map (\<lambda>c. f c + 1) xs) = sum_list (map f xs) + length xs" for f :: "'a \<Rightarrow> nat"
  by (induction xs) simp_all

lemma group_widths:
  assumes "group_ok g"
  shows "get_group_width g = sum_list (map col_width (gr_cols g)) + (length (gr_cols g) - 1)"
    and "get_group_width g + extra_spaces g = full_width g" and "full_width g < 2 ^ 32"
proof -
  let ?s = "sum_list (map (\<lambda>c. col_width c + 1) (gr_cols g))"
  have n: "1 \<le> length (gr_cols g)" using assms by (cases "gr_cols g") (auto simp: group_ok_def)
  have s: "?s = sum_list (map col_width (gr_cols g)) + length (gr_cols g)" by (rule sum_Suc)
  have lt: "?s < 2 ^ 32" "longest_title g < 2 ^ 32" using assms by (simp_all add: group_ok_def)
  have "get_group_width g = ?s - 1" using lt n s by (simp add: get_group_width_def size_sub_def)
  then show w: "get_group_width g = sum_list (map col_width (gr_cols g)) + (length (gr_cols g) - 1)" using s n by simp
  show "get_group_width g + extra_spaces g = full_width g" using lt(2) by (simp add: extra_spaces_def full_width_def w Let_def)
  show "full_width g < 2 ^ 32" using lt s n by (simp add: full_width_def)
qed

lemma length_rule: "group_ok g \<Longrightarrow> length (rule_part g) = full_width g"
  using group_widths [of g] by (simp add: rule_part_def dashes_def)

lemma length_title: "group_ok g \<Longrightarrow> length text \<le> longest_title g \<Longrightarrow> length (title_part text g) = full_width g"
proof -
  assume g: "group_ok g" and t: "length text \<le> longest_title g"
  note w = group_widths [OF g]
  have l: "longest_title g < 2 ^ 32" using g by (simp add: group_ok_def)
  show ?thesis
  proof (cases "length text = longest_title g")
    case True
    then show ?thesis using w(2) l by (auto simp: title_part_def blanks_def Let_def extra_spaces_def split: if_splits)
  next
    case False
    have "length text \<le> full_width g" using t by (simp add: full_width_def)
    moreover have "int (get_group_width g) - int (length text) + int (extra_spaces g) = int (full_width g) - int (length text)" using w(2) by simp
    ultimately show ?thesis using False by (simp add: title_part_def blanks_def Let_def nat_diff_distrib)
  qed
qed

lemma sum_first: "0 < n \<Longrightarrow> sum_list (map (\<lambda>j. f j + (if j = 0 then e else 0)) [0..<n]) = sum_list (map f [0..<n]) + e" for f :: "nat \<Rightarrow> nat"
proof -
  assume "0 < n"
  then have u: "[0..<n] = 0 # [Suc 0..<n]" by (rule upt_conv_Cons)
  have rest: "map (\<lambda>j. f j + (if j = 0 then e else 0)) [Suc 0..<n] = map f [Suc 0..<n]" by (rule map_cong) auto
  show ?thesis unfolding u list.map sum_list.Cons rest by simp
qed

lemma length_cols:
  assumes "group_ok g" and "\<And>j. j < length (gr_cols g) \<Longrightarrow> length (f g j) = col_width (gr_cols g ! j) + (if j = 0 then extra_spaces g else 0)"
  shows "length (cols_part f g) = full_width g"
proof -
  let ?n = "length (gr_cols g)"
  have n: "0 < ?n" using assms(1) by (auto simp: group_ok_def)
  have len: "map (length \<circ> f g) [0..<?n] = map (\<lambda>j. col_width (gr_cols g ! j) + (if j = 0 then extra_spaces g else 0)) [0..<?n]"
    using assms(2) by (intro map_cong) auto
  have "sum_list (map length (map (f g) [0..<?n])) = sum_list (map (\<lambda>j. col_width (gr_cols g ! j)) [0..<?n]) + extra_spaces g"
    unfolding map_map len by (rule sum_first [OF n])
  moreover have "map (\<lambda>j. col_width (gr_cols g ! j)) [0..<?n] = map col_width (gr_cols g)" by (intro nth_equalityI) simp_all
  ultimately have "length (cols_part f g) = get_group_width g + extra_spaces g"
    using group_widths(1) [OF assms(1)] by (simp add: cols_part_def length_sep_by)
  then show ?thesis using group_widths(2) [OF assms(1)] by simp
qed

lemma length_col_rule: "group_ok g \<Longrightarrow> length (cols_part col_rule g) = full_width g"
  by (rule length_cols) (simp_all add: col_rule_def dashes_def)

lemma length_col_title: "group_ok g \<Longrightarrow> (\<forall>c \<in> set (gr_cols g). length (txt c) < col_width c) \<Longrightarrow> length (cols_part (col_title txt) g) = full_width g"
proof (rule length_cols)
  fix j
  assume "j < length (gr_cols g)" and "\<forall>c \<in> set (gr_cols g). length (txt c) < col_width c"
  then obtain d where "col_width (gr_cols g ! j) = length (txt (gr_cols g ! j)) + 1 + d"
    using less_iff_Suc_add [of "length (txt (gr_cols g ! j))" "col_width (gr_cols g ! j)"] by auto
  then have n: "int (col_width (gr_cols g ! j)) - int (length (txt (gr_cols g ! j))) - 1 + (if j = 0 then int (extra_spaces g) else 0) =
      int (d + (if j = 0 then extra_spaces g else 0))" and w: "col_width (gr_cols g ! j) = length (txt (gr_cols g ! j)) + 1 + d" by simp_all
  show "length (col_title txt g j) = col_width (gr_cols g ! j) + (if j = 0 then extra_spaces g else 0)"
    unfolding col_title_def Let_def n by (simp add: w blanks_def nat_int_add)
qed

lemma length_full_line: "(\<And>g. g \<in> set gs \<Longrightarrow> length (f g) = full_width g) \<Longrightarrow> length (full_line (map f gs)) = table_width gs"
  by (simp add: full_line_def length_sep_by table_width_def comp_def cong: map_cong)

lemma legend_lines_align:
  assumes "\<forall>g \<in> set gs. group_ok g" and "l \<in> set (legend_lines gs)"
  shows "length l = table_width gs"
proof -
  have "length (gr_name g) \<le> longest_title g" "length (gr_desc g) \<le> longest_title g" for g by (simp_all add: longest_title_def)
  moreover have "\<forall>c \<in> set (gr_cols g). length (fst c) < col_width c" "\<forall>c \<in> set (gr_cols g). length ((fst \<circ> snd) c) < col_width c"
    if "g \<in> set gs" for g unfolding comp_apply using assms(1) that unfolding group_ok_def by blast+
  then have "length (cols_part (col_title fst) g) = full_width g" "length (cols_part (col_title (fst \<circ> snd)) g) = full_width g"
    if "g \<in> set gs" for g using assms(1) that length_col_title by blast+
  ultimately show ?thesis using assms unfolding legend_lines_def
    by (auto intro!: length_full_line length_rule length_title length_col_rule)
qed

text \<open>Reports with a whole number of rows, whose cells fit in their columns.\<close>

definition cells_ok :: "group \<Rightarrow> string list \<Rightarrow> bool" where
  "cells_ok g cells \<longleftrightarrow> group_ok g \<and> length cells mod length (gr_cols g) = 0 \<and>
     (\<forall>k < length cells. length (cells ! k) \<le> col_width (gr_cols g ! (k mod length (gr_cols g))))"

definition report_ok :: "group list \<Rightarrow> string list list \<Rightarrow> bool" where
  "report_ok gs rep \<longleftrightarrow> gs \<noteq> [] \<and> list_all2 cells_ok gs rep"

definition next_rows :: "(group list \<times> string list list) list \<Rightarrow> (group list \<times> string list list) list" where
  "next_rows = map (\<lambda>(gs, rep). (gs, map2 (\<lambda>g cells. drop (length (gr_cols g)) cells) gs rep))"

fun max_of :: "nat list \<Rightarrow> nat" where
  "max_of [] = 0"
| "max_of (x # xs) = max x (max_of xs)"

definition report_rows :: "(group list \<times> string list list) list \<Rightarrow> nat" where
  "report_rows rs = max_of (map (\<lambda>(gs, rep). max_of (map2 (\<lambda>g cells. length cells div length (gr_cols g)) gs rep)) rs)"

lemma length_pad: "length text \<le> col_width c \<Longrightarrow> length (pad_cell c text) = col_width c"
  by (auto simp: pad_cell_def blanks_def)

lemma length_dump_part:
  assumes "cells_ok g cells"
  shows "length (dump_part g cells) = full_width g"
proof -
  let ?n = "length (gr_cols g)"
  have g: "group_ok g" using assms by (simp add: cells_ok_def)
  have len: "length (dump_cell g cells j) = col_width (gr_cols g ! j)" if j: "j < ?n" for j
  proof -
    have "length (fst (gr_cols g ! j)) < col_width (gr_cols g ! j)" using g j by (simp add: group_ok_def)
    then have one: "length ''-'' \<le> col_width (gr_cols g ! j)" by simp
    have "length (cells ! j) \<le> col_width (gr_cols g ! j)" if "cells \<noteq> []"
    proof -
      have "?n dvd length cells" using assms by (simp add: cells_ok_def dvd_eq_mod_eq_0)
      then have "?n \<le> length cells" using that by (intro dvd_imp_le) auto
      then have "j < length cells" using j by simp
      moreover have "j mod ?n = j" using j by simp
      ultimately show ?thesis using assms unfolding cells_ok_def by metis
    qed
    with one show ?thesis by (simp add: dump_cell_def length_pad)
  qed
  have "map (length \<circ> dump_cell g cells) [0..<?n] = map (\<lambda>j. col_width (gr_cols g ! j)) [0..<?n]" using len by (intro map_cong) auto
  also have "\<dots> = map col_width (gr_cols g)" by (intro nth_equalityI) simp_all
  finally have "sum_list (map length (map (dump_cell g cells) [0..<?n])) = sum_list (map col_width (gr_cols g))" unfolding map_map by simp
  then have "length (dump_part g cells) = get_group_width g + extra_spaces g"
    using group_widths(1) [OF g] by (simp add: dump_part_def blanks_def length_sep_by)
  then show ?thesis using group_widths(2) [OF g] by simp
qed

lemma cells_ok_drop: "cells_ok g cells \<Longrightarrow> cells_ok g (drop (length (gr_cols g)) cells)"
proof -
  let ?n = "length (gr_cols g)"
  assume ok: "cells_ok g cells"
  have "?n dvd length cells" using ok by (simp add: cells_ok_def dvd_eq_mod_eq_0)
  then have "?n dvd length cells - ?n" by (intro dvd_diff_nat) simp_all
  moreover have "length (cells ! (?n + k)) \<le> col_width (gr_cols g ! (k mod ?n))" if "k < length cells - ?n" for k
  proof -
    have "?n + k < length cells" "(?n + k) mod ?n = k mod ?n" using that by simp_all
    with ok show ?thesis unfolding cells_ok_def by metis
  qed
  ultimately show ?thesis using ok by (simp add: cells_ok_def dvd_eq_mod_eq_0)
qed

lemma dump_groups_ok:
  "list_all2 cells_ok gs rep \<Longrightarrow> dump_groups gs rep = Inr (map2 dump_part gs rep, map2 (\<lambda>g cells. drop (length (gr_cols g)) cells) gs rep)"
proof (induction gs rep rule: list_all2_induct)
  case (Cons g gs cells rep)
  have "length (gr_cols g) \<le> length cells" if "cells \<noteq> []"
    using Cons(1) that by (intro dvd_imp_le) (auto simp: cells_ok_def dvd_eq_mod_eq_0)
  with Cons(3) show ?case by auto
qed simp

lemma dump_reporters_ok:
  "\<forall>(gs, rep) \<in> set rs. report_ok gs rep \<Longrightarrow> dump_reporters rs = Inr (map (\<lambda>(gs, rep). sep_by ''||'' (map2 dump_part gs rep)) rs, next_rows rs)"
  by (induction rs rule: dump_reporters.induct) (auto simp: next_rows_def report_ok_def dump_groups_ok)

lemma report_ok_next: "\<forall>(gs, rep) \<in> set rs. report_ok gs rep \<Longrightarrow> \<forall>(gs, rep) \<in> set (next_rows rs). report_ok gs rep"
  by (auto simp: next_rows_def report_ok_def list_all2_conv_all_nth cells_ok_drop)

lemma max_of_minus: "max_of (map (\<lambda>x. f x - 1) xs) = max_of (map f xs) - 1"
  by (induction xs) auto

lemma max_of_pos: "0 < max_of xs \<longleftrightarrow> (\<exists>x \<in> set xs. 0 < x)"
  by (induction xs) auto

lemma report_rows_part: "0 < n \<Longrightarrow> (length cells - n) div n = length cells div n - 1"
  by (cases "length cells < n") (simp_all add: le_div_geq)

lemma map2_drop: "map2 h gs (map2 k gs rep) = map2 (\<lambda>g c. h g (k g c)) gs rep"
  by (induction gs rep rule: list_induct2') simp_all

lemma report_rows_next:
  assumes "\<forall>(gs, rep) \<in> set rs. report_ok gs rep"
  shows "report_rows (next_rows rs) = report_rows rs - 1"
proof -
  have one: "max_of (map2 (\<lambda>g cells. length cells div length (gr_cols g)) gs (map2 (\<lambda>g cells. drop (length (gr_cols g)) cells) gs rep)) =
      max_of (map2 (\<lambda>g cells. length cells div length (gr_cols g)) gs rep) - 1" if r: "report_ok gs rep" for gs rep
  proof -
    have pos: "0 < length (gr_cols g)" if "(g, c) \<in> set (zip gs rep)" for g c
      using r that by (auto simp: report_ok_def cells_ok_def group_ok_def list_all2_iff)
    have "map2 (\<lambda>g c. length (drop (length (gr_cols g)) c) div length (gr_cols g)) gs rep =
        map (\<lambda>x. (case x of (g, c) \<Rightarrow> length c div length (gr_cols g)) - 1) (zip gs rep)"
      by (intro map_cong refl) (use pos in \<open>auto simp: report_rows_part\<close>)
    then show ?thesis unfolding map2_drop by (simp only: max_of_minus)
  qed
  have "map (\<lambda>(gs, rep). max_of (map2 (\<lambda>g cells. length cells div length (gr_cols g)) gs rep)) (next_rows rs) =
      map (\<lambda>x. (case x of (gs, rep) \<Rightarrow> max_of (map2 (\<lambda>g cells. length cells div length (gr_cols g)) gs rep)) - 1) rs"
    unfolding next_rows_def map_map by (intro map_cong refl) (use assms one in auto)
  then show ?thesis unfolding report_rows_def by (simp only: max_of_minus)
qed

lemma cells_left_rows:
  assumes "\<forall>(gs, rep) \<in> set rs. report_ok gs rep"
  shows "cells_left rs \<longleftrightarrow> 0 < report_rows rs"
proof -
  have one: "(\<exists>cells \<in> set (take (length gs) rep). cells \<noteq> []) \<longleftrightarrow> 0 < max_of (map2 (\<lambda>g cells. length cells div length (gr_cols g)) gs rep)"
    if "report_ok gs rep" for gs rep
  proof -
    from that have "list_all2 cells_ok gs rep" by (simp add: report_ok_def)
    then show ?thesis
    proof (induction gs rep rule: list_all2_induct)
      case (Cons g gs cells rep)
      have "0 < length (gr_cols g)" using Cons(1) by (simp add: cells_ok_def group_ok_def)
      moreover have "length (gr_cols g) dvd length cells" using Cons(1) by (simp add: cells_ok_def dvd_eq_mod_eq_0)
      ultimately have "cells \<noteq> [] \<longleftrightarrow> 0 < length cells div length (gr_cols g)"
        by (auto simp: div_greater_zero_iff dest: dvd_imp_le)
      with Cons(3) show ?case by (simp add: less_max_iff_disj)
    qed simp
  qed
  have "(\<exists>r \<in> set rs. \<exists>cells \<in> set (take (length (fst r)) (snd r)). cells \<noteq> []) \<longleftrightarrow>
      (\<exists>r \<in> set rs. 0 < (case r of (gs, rep) \<Rightarrow> max_of (map2 (\<lambda>g cells. length cells div length (gr_cols g)) gs rep)))"
  proof (intro bex_cong refl)
    fix r assume "r \<in> set rs"
    moreover obtain gs rep where r: "r = (gs, rep)" by (cases r)
    ultimately have "report_ok gs rep" using assms by auto
    from one [OF this] show "(\<exists>cells \<in> set (take (length (fst r)) (snd r)). cells \<noteq> []) \<longleftrightarrow>
        0 < (case r of (gs, rep) \<Rightarrow> max_of (map2 (\<lambda>g cells. length cells div length (gr_cols g)) gs rep))" by (simp only: r fst_conv snd_conv prod.case)
  qed
  then show ?thesis unfolding cells_left_def report_rows_def max_of_pos [of "map _ rs"] set_map bex_simps .
qed

lemma length_dump_row:
  assumes "rs \<noteq> []" and "\<forall>(gs, rep) \<in> set rs. report_ok gs rep"
  shows "length (''  '' @ sep_by ''||'' (map (\<lambda>(gs, rep). sep_by ''||'' (map2 dump_part gs rep)) rs)) = table_width (concat (map fst rs))"
proof -
  have part: "length (sep_by ''||'' (map2 dump_part gs rep)) = sum_list (map full_width gs) + 2 * (length gs - 1)" if "report_ok gs rep" for gs rep
  proof -
    have "list_all2 cells_ok gs rep" using that by (simp add: report_ok_def)
    then have "sum_list (map length (map2 dump_part gs rep)) = sum_list (map full_width gs) \<and> length gs = length rep"
      by (induction gs rep rule: list_all2_induct) (simp_all add: length_dump_part)
    then show ?thesis by (simp add: length_sep_by)
  qed
  have "sum_list (map (length \<circ> (\<lambda>(gs, rep). sep_by ''||'' (map2 dump_part gs rep))) rs) + 2 * (length rs - 1) =
      sum_list (map full_width (concat (map fst rs))) + 2 * (length (concat (map fst rs)) - 1)"
    using assms
  proof (induction rs rule: induct_list012)
    case (3 x y rs)
    obtain gs rep where x: "x = (gs, rep)" by (cases x)
    then have "1 \<le> length gs" using 3(4) by (cases gs) (auto simp: report_ok_def)
    moreover have "1 \<le> length (concat (map fst (y # rs)))" using 3(4) by (cases y) (auto simp: report_ok_def Suc_le_eq)
    ultimately show ?case using 3(2,4) part [of gs rep] by (auto simp: x)
  qed (use part in auto)
  then show ?thesis by (simp add: length_sep_by table_width_def)
qed

lemma dump_rows_return:
  assumes "rs \<noteq> []" and "\<forall>(gs, rep) \<in> set rs. report_ok gs rep"
  shows "\<exists>ls. dump_rows acc rs = Some (Inr (acc @ ls)) \<and> length ls = max 1 (report_rows rs) \<and>
    (\<forall>l \<in> set ls. length l = table_width (concat (map fst rs)))"
  using assms
proof (induction "report_rows rs" arbitrary: acc rs rule: less_induct)
  case less
  let ?l = "''  '' @ sep_by ''||'' (map (\<lambda>(gs, rep). sep_by ''||'' (map2 dump_part gs rep)) rs)"
  have step: "dump_rows acc rs = (if cells_left (next_rows rs) then dump_rows (acc @ [?l]) (next_rows rs) else Some (Inr (acc @ [?l])))"
    by (subst dump_rows.simps) (simp add: dump_reporters_ok [OF less(3)] Let_def)
  note ok = report_ok_next [OF less(3)] and w = length_dump_row [OF less(2,3)] and n = report_rows_next [OF less(3)]
  have fst: "map fst (next_rows rs) = map fst rs" by (simp add: next_rows_def comp_def split_def)
  show ?case
  proof (cases "cells_left (next_rows rs)")
    case True
    then have r: "0 < report_rows (next_rows rs)" using cells_left_rows [OF ok] by simp
    moreover have "next_rows rs \<noteq> []" using less(2) by (simp add: next_rows_def)
    moreover have "report_rows (next_rows rs) < report_rows rs" using r n by linarith
    ultimately obtain ls where "dump_rows (acc @ [?l]) (next_rows rs) = Some (Inr ((acc @ [?l]) @ ls))" "length ls = max 1 (report_rows (next_rows rs))"
      "\<forall>l \<in> set ls. length l = table_width (concat (map fst (next_rows rs)))"
      using less(1) [of "next_rows rs" "acc @ [?l]"] ok by blast
    then show ?thesis using True step w n r fst by (intro exI [of _ "?l # ls"]) (simp del: length_append)
  next
    case False
    then have "report_rows (next_rows rs) = 0" using cells_left_rows [OF ok] by simp
    then show ?thesis using False step w n by (intro exI [of _ "[?l]"]) (simp del: length_append)
  qed
qed



text \<open>The display of one row: a report of several rows, as the ones of the probes, is read out of its columns.\<close>

lemma std_report_of_several_rows:
  "length (gr_cols g) < length cells \<Longrightarrow> fst (std_report final rt [Some ([g], [cells])]) = Inl UB"
  by (simp add: std_report_def)

text \<open>The unit of a probe with a short name is wider than its column, and the line of the units longer than the others.\<close>

lemma short_name_breaks_the_table:
  "map length (legend_lines [\<lparr>gr_name = ''G'', gr_desc = '''', gr_cols = [(''T'', ''(sec)'', 3)]\<rparr>]) = [5, 5, 5, 5, 5, 5, 8, 5]"
  by (simp add: legend_lines_def full_line_def rule_part_def title_part_def cols_part_def col_rule_def col_title_def get_group_width_def
      extra_spaces_def longest_title_def col_width_def dashes_def blanks_def size_sub_def Let_def)

end
