(* ===== verification/Terminal_Thread.thy ===== *)
theory Terminal_Thread
  imports Terminals
begin

text \<open>
  The refreshing of the display (\<^verbatim>\<open>Terminal.cpp\<close>): a thread writes a temporary report each time its wait on the condition variable
  runs out, until the flag \<^verbatim>\<open>stop_terminal\<close> is set; the owner of the terminal starts it, stops it and asks for the final report. One
  step per access to what the two threads share. The mutex is only taken by the thread of the terminal, so it is never awaited, and
  a notification that is sent before the thread waits is lost.
\<close>

section \<open>State\<close>

text \<open>Where the thread is in \<^verbatim>\<open>start_thread_terminal\<close>; \<open>T_woken\<close> stands for a wait that has ended before its time.\<close>

datatype thread_pc = T_test | T_lock | T_wait | T_woken | T_report | T_ended

text \<open>The calls of the owner; all of them begin with \<^verbatim>\<open>stop_temp_report\<close>.\<close>

datatype term_call = C_stop | C_start | C_final

datatype owner_pc = O_idle | O_joinable term_call | O_set term_call | O_notify term_call | O_join term_call | O_clear term_call
  | O_zero term_call | O_launch | O_final

text \<open>\<open>tm_thread\<close> is \<open>None\<close> when \<^verbatim>\<open>term_thread\<close> is not joinable; \<open>tm_shown\<close> counts the temporary reports.\<close>

record terminal =
  tm_stop :: bool
  tm_real_time :: nat
  tm_thread :: "thread_pc option"
  tm_owner :: owner_pc
  tm_shown :: nat

definition new_terminal :: terminal where
  "new_terminal = \<lparr>tm_stop = False, tm_real_time = 0, tm_thread = None, tm_owner = O_idle, tm_shown = 0\<rparr>"

section \<open>Steps\<close>

definition show_temp :: "terminal \<Rightarrow> terminal" where
  "show_temp s = s\<lparr>tm_shown := tm_shown s + 1, tm_real_time := next_real_time (tm_real_time s)\<rparr>"

definition wake :: "thread_pc option \<Rightarrow> thread_pc option" where
  "wake p = (if p = Some T_wait then Some T_woken else p)"

definition after_stop :: "term_call \<Rightarrow> owner_pc" where
  "after_stop c = (case c of C_stop \<Rightarrow> O_idle | C_start \<Rightarrow> O_launch | C_final \<Rightarrow> O_final)"

inductive thread_step :: "terminal \<Rightarrow> terminal \<Rightarrow> bool" where
  test: "tm_thread s = Some T_test \<Longrightarrow> thread_step s (s\<lparr>tm_thread := Some (if tm_stop s then T_ended else T_lock)\<rparr>)"
| lock: "tm_thread s = Some T_lock \<Longrightarrow> thread_step s (s\<lparr>tm_thread := Some T_wait\<rparr>)"
| timeout: "tm_thread s = Some T_wait \<Longrightarrow> thread_step s (s\<lparr>tm_thread := Some T_report\<rparr>)"
| spurious: "tm_thread s = Some T_wait \<Longrightarrow> thread_step s (s\<lparr>tm_thread := Some T_woken\<rparr>)"
| woken: "tm_thread s = Some T_woken \<Longrightarrow> thread_step s (s\<lparr>tm_thread := Some T_test\<rparr>)"
| report: "tm_thread s = Some T_report \<Longrightarrow> thread_step s ((show_temp s)\<lparr>tm_thread := Some T_test\<rparr>)"

inductive owner_step :: "terminal \<Rightarrow> terminal \<Rightarrow> bool" where
  temp_report: "tm_owner s = O_idle \<Longrightarrow> owner_step s (show_temp s)"
| call: "tm_owner s = O_idle \<Longrightarrow> owner_step s (s\<lparr>tm_owner := O_joinable c\<rparr>)"
| joinable: "tm_owner s = O_joinable c \<Longrightarrow> owner_step s (s\<lparr>tm_owner := (if tm_thread s \<noteq> None then O_set c else O_zero c)\<rparr>)"
| set_stop: "tm_owner s = O_set c \<Longrightarrow> owner_step s (s\<lparr>tm_stop := True, tm_owner := O_notify c\<rparr>)"
| notify: "tm_owner s = O_notify c \<Longrightarrow> owner_step s (s\<lparr>tm_thread := wake (tm_thread s), tm_owner := O_join c\<rparr>)"
| join: "tm_owner s = O_join c \<Longrightarrow> tm_thread s = Some T_ended \<Longrightarrow> owner_step s (s\<lparr>tm_thread := None, tm_owner := O_clear c\<rparr>)"
| clear: "tm_owner s = O_clear c \<Longrightarrow> owner_step s (s\<lparr>tm_stop := False, tm_owner := O_zero c\<rparr>)"
| zero: "tm_owner s = O_zero c \<Longrightarrow> owner_step s (s\<lparr>tm_real_time := 0, tm_owner := after_stop c\<rparr>)"
| launch: "tm_owner s = O_launch \<Longrightarrow> owner_step s (s\<lparr>tm_thread := Some T_test, tm_owner := O_idle\<rparr>)"
| final: "tm_owner s = O_final \<Longrightarrow> owner_step s (s\<lparr>tm_owner := O_idle\<rparr>)"

definition term_step :: "terminal \<Rightarrow> terminal \<Rightarrow> bool" where
  "term_step s t \<longleftrightarrow> thread_step s t \<or> owner_step s t"

inductive term_reachable :: "terminal \<Rightarrow> bool" where
  start: "term_reachable new_terminal"
| step: "term_reachable s \<Longrightarrow> term_step s t \<Longrightarrow> term_reachable t"

text \<open>The steps of a call: \<open>n\<close> of them, none after the call has returned.\<close>

inductive in_call :: "terminal \<Rightarrow> nat \<Rightarrow> terminal \<Rightarrow> bool" where
  here: "in_call s 0 s"
| more: "tm_owner s \<noteq> O_idle \<Longrightarrow> term_step s t \<Longrightarrow> in_call t n u \<Longrightarrow> in_call s (Suc n) u"

section \<open>Invariant\<close>

fun owner_ok :: "owner_pc \<Rightarrow> bool \<Rightarrow> thread_pc option \<Rightarrow> bool" where
  "owner_ok O_idle stop p \<longleftrightarrow> \<not> stop \<and> p \<noteq> Some T_ended"
| "owner_ok (O_joinable c) stop p \<longleftrightarrow> \<not> stop \<and> p \<noteq> Some T_ended"
| "owner_ok (O_set c) stop p \<longleftrightarrow> \<not> stop \<and> p \<noteq> Some T_ended \<and> p \<noteq> None"
| "owner_ok (O_notify c) stop p \<longleftrightarrow> stop \<and> p \<noteq> None"
| "owner_ok (O_join c) stop p \<longleftrightarrow> stop \<and> p \<noteq> None"
| "owner_ok (O_clear c) stop p \<longleftrightarrow> stop \<and> p = None"
| "owner_ok (O_zero c) stop p \<longleftrightarrow> \<not> stop \<and> p = None"
| "owner_ok O_launch stop p \<longleftrightarrow> \<not> stop \<and> p = None"
| "owner_ok O_final stop p \<longleftrightarrow> \<not> stop \<and> p = None"

definition term_ok :: "terminal \<Rightarrow> bool" where
  "term_ok s \<longleftrightarrow> owner_ok (tm_owner s) (tm_stop s) (tm_thread s)"

lemma thread_step_ok: "thread_step s t \<Longrightarrow> term_ok s \<Longrightarrow> term_ok t"
  unfolding term_ok_def by (induction rule: thread_step.induct) (auto simp: show_temp_def elim!: owner_ok.elims)

lemma owner_step_ok: "owner_step s t \<Longrightarrow> term_ok s \<Longrightarrow> term_ok t"
  by (induction rule: owner_step.induct) (auto simp: term_ok_def show_temp_def wake_def after_stop_def split: term_call.splits)

lemma term_reachable_ok: "term_reachable s \<Longrightarrow> term_ok s"
proof (induction rule: term_reachable.induct)
  case start
  show ?case by (simp add: new_terminal_def term_ok_def)
next
  case (step s t)
  then show ?case unfolding term_step_def using thread_step_ok owner_step_ok by blast
qed

section \<open>The end of a call\<close>

text \<open>What is left to do once \<^verbatim>\<open>stop_terminal\<close> is set: by the owner, by the thread, and the report the thread may still write.\<close>

fun owner_left :: "owner_pc \<Rightarrow> nat" where
  "owner_left (O_notify c) = 5"
| "owner_left (O_join c) = 4"
| "owner_left (O_clear c) = 3"
| "owner_left (O_zero c) = 2"
| "owner_left O_launch = 1"
| "owner_left O_final = 1"
| "owner_left _ = 0"

fun thread_left :: "thread_pc option \<Rightarrow> nat" where
  "thread_left (Some T_lock) = 4"
| "thread_left (Some T_wait) = 3"
| "thread_left (Some T_report) = 2"
| "thread_left (Some T_woken) = 2"
| "thread_left (Some T_test) = 1"
| "thread_left _ = 0"

definition steps_left :: "terminal \<Rightarrow> nat" where
  "steps_left s = (if tm_owner s = O_idle then 0 else owner_left (tm_owner s) + thread_left (tm_thread s))"

definition may_show :: "terminal \<Rightarrow> nat" where
  "may_show s = (if tm_thread s \<in> {Some T_lock, Some T_wait, Some T_report} then 1 else 0)"

text \<open>The owner has set the flag, or has just returned.\<close>

definition closing :: "terminal \<Rightarrow> bool" where
  "closing s \<longleftrightarrow> (case tm_owner s of O_idle \<Rightarrow> tm_real_time s = 0 | O_launch \<Rightarrow> tm_real_time s = 0 | O_final \<Rightarrow> tm_real_time s = 0
     | O_joinable c \<Rightarrow> False | O_set c \<Rightarrow> False | _ \<Rightarrow> True)"

lemmas closing_defs = closing_def term_ok_def steps_left_def may_show_def show_temp_def wake_def after_stop_def

lemma closing_thread_step:
  "thread_step s t \<Longrightarrow> tm_owner s \<noteq> O_idle \<Longrightarrow> closing s \<Longrightarrow> term_ok s \<Longrightarrow>
     closing t \<and> steps_left t < steps_left s \<and> tm_shown t + may_show t \<le> tm_shown s + may_show s"
  by (induction rule: thread_step.induct) (auto simp: closing_defs split: owner_pc.splits)

lemma closing_owner_step:
  "owner_step s t \<Longrightarrow> tm_owner s \<noteq> O_idle \<Longrightarrow> closing s \<Longrightarrow> term_ok s \<Longrightarrow>
     closing t \<and> steps_left t < steps_left s \<and> tm_shown t + may_show t \<le> tm_shown s + may_show s"
  by (induction rule: owner_step.induct) (auto simp: closing_defs split: owner_pc.splits term_call.splits)

lemma closing_step:
  assumes "term_step s t" "tm_owner s \<noteq> O_idle" "closing s" "term_ok s"
  shows "closing t \<and> term_ok t \<and> steps_left t < steps_left s \<and> tm_shown t + may_show t \<le> tm_shown s + may_show s"
  using assms closing_thread_step closing_owner_step thread_step_ok owner_step_ok unfolding term_step_def by blast

lemma closing_run:
  "in_call s n t \<Longrightarrow> closing s \<Longrightarrow> term_ok s \<Longrightarrow>
     closing t \<and> term_ok t \<and> steps_left t + n \<le> steps_left s \<and> tm_shown t + may_show t \<le> tm_shown s + may_show s"
proof (induction rule: in_call.induct)
  case (more s t n u)
  then show ?case using closing_step [OF more.hyps(2,1) more.prems] by linarith
qed simp

lemma steps_left_le: "steps_left s \<le> 9"
proof -
  have "owner_left p \<le> 5" for p by (cases p) simp_all
  moreover have "thread_left q \<le> 4" for q by (induction q rule: thread_left.induct) simp_all
  ultimately have "owner_left (tm_owner s) + thread_left (tm_thread s) \<le> 5 + 4" by (rule add_mono)
  then show ?thesis by (simp add: steps_left_def)
qed

lemma thread_can_step: "tm_thread s = Some p \<Longrightarrow> p \<noteq> T_ended \<Longrightarrow> \<exists>t. thread_step s t"
  by (cases p) (blast intro: thread_step.intros)+

lemma owner_can_step: "tm_owner s \<noteq> O_idle \<Longrightarrow> (\<And>c. tm_owner s = O_join c \<Longrightarrow> tm_thread s = Some T_ended) \<Longrightarrow> \<exists>t. owner_step s t"
  by (cases "tm_owner s") (blast intro: owner_step.intros)+

lemma never_stuck:
  assumes "term_ok s"
  shows "\<exists>t. term_step s t"
proof (cases "\<exists>p. tm_thread s = Some p \<and> p \<noteq> T_ended")
  case True
  then show ?thesis using thread_can_step unfolding term_step_def by blast
next
  case False
  then have "tm_owner s = O_join c \<Longrightarrow> tm_thread s = Some T_ended" for c using assms by (auto simp: term_ok_def)
  then show ?thesis using owner_can_step [of s] owner_step.temp_report [of s] unfolding term_step_def by (cases "tm_owner s = O_idle") blast+
qed

text \<open>
  C34: A call on the terminal returns once it has set the flag of the thread, also when its notification is lost: whatever the
  interleaving, at most nine steps are left and one more temporary report, some step can always be taken before the call
  has returned, and at the end the flag is down again and the state of the display is 0.
\<close>

theorem stopping_the_terminal_returns:
  assumes "term_reachable s" and "tm_stop s" and "in_call s n t"
  shows "n \<le> 9 \<and> tm_shown t \<le> tm_shown s + 1 \<and>
    (tm_owner t = O_idle \<and> \<not> tm_stop t \<and> tm_real_time t = 0 \<and> tm_thread t \<noteq> Some T_ended \<or> tm_owner t \<noteq> O_idle \<and> (\<exists>u. term_step t u))"
proof -
  have ok: "term_ok s" using assms(1) by (rule term_reachable_ok)
  then have "closing s" using assms(2) by (auto simp: closing_def term_ok_def split: owner_pc.splits)
  note r = closing_run [OF assms(3) this ok]
  then have "n \<le> 9" using steps_left_le [of s] by linarith
  moreover have "may_show s \<le> 1" by (simp add: may_show_def)
  then have "tm_shown t \<le> tm_shown s + 1" using r by linarith
  moreover have "tm_owner t = O_idle \<Longrightarrow> \<not> tm_stop t \<and> tm_real_time t = 0 \<and> tm_thread t \<noteq> Some T_ended"
    using r by (simp add: closing_def term_ok_def)
  ultimately show ?thesis using never_stuck [of t] r by blast
qed

text \<open>A terminal that is started, writes a report, and is stopped while its thread has not begun to wait.\<close>

definition stopping :: terminal where
  "stopping = \<lparr>tm_stop = True, tm_real_time = 1, tm_thread = Some T_lock, tm_owner = O_notify C_stop, tm_shown = 1\<rparr>"

lemma stopping_reachable: "term_reachable stopping"
proof -
  let ?s = "\<lambda>b r p q k. \<lparr>tm_stop = b, tm_real_time = r, tm_thread = p, tm_owner = q, tm_shown = k\<rparr>"
  note t = term_reachable.step [unfolded term_step_def]
  have "term_reachable (?s False 0 None O_idle 0)" using term_reachable.start by (simp add: new_terminal_def)
  from t [OF this disjI2 [OF owner_step.call [where c = C_start]]] have "term_reachable (?s False 0 None (O_joinable C_start) 0)" by simp
  from t [OF this disjI2 [OF owner_step.joinable [where c = C_start]]] have "term_reachable (?s False 0 None (O_zero C_start) 0)" by simp
  from t [OF this disjI2 [OF owner_step.zero [where c = C_start]]] have "term_reachable (?s False 0 None O_launch 0)" by (simp add: after_stop_def)
  from t [OF this disjI2 [OF owner_step.launch]] have "term_reachable (?s False 0 (Some T_test) O_idle 0)" by simp
  from t [OF this disjI1 [OF thread_step.test]] have "term_reachable (?s False 0 (Some T_lock) O_idle 0)" by simp
  from t [OF this disjI1 [OF thread_step.lock]] have "term_reachable (?s False 0 (Some T_wait) O_idle 0)" by simp
  from t [OF this disjI1 [OF thread_step.timeout]] have "term_reachable (?s False 0 (Some T_report) O_idle 0)" by simp
  from t [OF this disjI1 [OF thread_step.report]] have "term_reachable (?s False 1 (Some T_test) O_idle 1)" by (simp add: show_temp_def next_real_time_def)
  from t [OF this disjI1 [OF thread_step.test]] have "term_reachable (?s False 1 (Some T_lock) O_idle 1)" by simp
  from t [OF this disjI2 [OF owner_step.call [where c = C_stop]]] have "term_reachable (?s False 1 (Some T_lock) (O_joinable C_stop) 1)" by simp
  from t [OF this disjI2 [OF owner_step.joinable [where c = C_stop]]] have "term_reachable (?s False 1 (Some T_lock) (O_set C_stop) 1)" by simp
  from t [OF this disjI2 [OF owner_step.set_stop [where c = C_stop]]] have "term_reachable (?s True 1 (Some T_lock) (O_notify C_stop) 1)" by simp
  then show ?thesis by (simp add: stopping_def)
qed

text \<open>The notification is lost, the wait runs out, and the thread writes one more report before it ends.\<close>

lemma stopping_run: "in_call stopping 8 \<lparr>tm_stop = False, tm_real_time = 0, tm_thread = None, tm_owner = O_idle, tm_shown = 2\<rparr>"
proof -
  let ?s = "\<lambda>b r p q k. \<lparr>tm_stop = b, tm_real_time = r, tm_thread = p, tm_owner = q, tm_shown = k\<rparr>"
  let ?e = "?s False 0 None O_idle 2"
  have more: "in_call s (Suc n) ?e" if "in_call t n ?e" "tm_owner s \<noteq> O_idle" "term_step s t" for s t n
    using that by (blast intro: in_call.more)
  have "in_call ?e 0 ?e" by (rule in_call.here)
  from more [OF this, where s = "?s False 2 None (O_zero C_stop) 2"] have "in_call (?s False 2 None (O_zero C_stop) 2) (Suc 0) ?e"
    using owner_step.zero [of "?s False 2 None (O_zero C_stop) 2" C_stop] by (simp add: term_step_def show_temp_def next_real_time_def after_stop_def wake_def numeral_2_eq_2)
  from more [OF this, where s = "?s True 2 None (O_clear C_stop) 2"] have "in_call (?s True 2 None (O_clear C_stop) 2) (Suc (Suc 0)) ?e"
    using owner_step.clear [of "?s True 2 None (O_clear C_stop) 2" C_stop] by (simp add: term_step_def show_temp_def next_real_time_def after_stop_def wake_def numeral_2_eq_2)
  from more [OF this, where s = "?s True 2 (Some T_ended) (O_join C_stop) 2"] have "in_call (?s True 2 (Some T_ended) (O_join C_stop) 2) (Suc (Suc (Suc 0))) ?e"
    using owner_step.join [of "?s True 2 (Some T_ended) (O_join C_stop) 2" C_stop] by (simp add: term_step_def show_temp_def next_real_time_def after_stop_def wake_def numeral_2_eq_2)
  from more [OF this, where s = "?s True 2 (Some T_test) (O_join C_stop) 2"] have "in_call (?s True 2 (Some T_test) (O_join C_stop) 2) (Suc (Suc (Suc (Suc 0)))) ?e"
    using thread_step.test [of "?s True 2 (Some T_test) (O_join C_stop) 2"] by (simp add: term_step_def show_temp_def next_real_time_def after_stop_def wake_def numeral_2_eq_2)
  from more [OF this, where s = "?s True 1 (Some T_report) (O_join C_stop) 1"] have "in_call (?s True 1 (Some T_report) (O_join C_stop) 1) (Suc (Suc (Suc (Suc (Suc 0))))) ?e"
    using thread_step.report [of "?s True 1 (Some T_report) (O_join C_stop) 1"] by (simp add: term_step_def show_temp_def next_real_time_def after_stop_def wake_def numeral_2_eq_2)
  from more [OF this, where s = "?s True 1 (Some T_wait) (O_join C_stop) 1"] have "in_call (?s True 1 (Some T_wait) (O_join C_stop) 1) (Suc (Suc (Suc (Suc (Suc (Suc 0)))))) ?e"
    using thread_step.timeout [of "?s True 1 (Some T_wait) (O_join C_stop) 1"] by (simp add: term_step_def show_temp_def next_real_time_def after_stop_def wake_def numeral_2_eq_2)
  from more [OF this, where s = "?s True 1 (Some T_lock) (O_join C_stop) 1"] have "in_call (?s True 1 (Some T_lock) (O_join C_stop) 1) (Suc (Suc (Suc (Suc (Suc (Suc (Suc 0))))))) ?e"
    using thread_step.lock [of "?s True 1 (Some T_lock) (O_join C_stop) 1"] by (simp add: term_step_def show_temp_def next_real_time_def after_stop_def wake_def numeral_2_eq_2)
  from more [OF this, where s = "?s True 1 (Some T_lock) (O_notify C_stop) 1"] have "in_call (?s True 1 (Some T_lock) (O_notify C_stop) 1) (Suc (Suc (Suc (Suc (Suc (Suc (Suc (Suc 0)))))))) ?e"
    using owner_step.notify [of "?s True 1 (Some T_lock) (O_notify C_stop) 1" C_stop] by (simp add: term_step_def show_temp_def next_real_time_def after_stop_def wake_def numeral_2_eq_2)
  then show ?thesis by (simp add: stopping_def eval_nat_numeral)
qed

lemma stopping_the_terminal_returns_witness:
  "term_reachable stopping \<and> tm_stop stopping \<and>
     (\<exists>n t. n = 8 \<and> in_call stopping n t \<and> n \<le> 9 \<and> tm_shown t \<le> tm_shown stopping + 1 \<and> tm_owner t = O_idle \<and> \<not> tm_stop t)"
  using stopping_the_terminal_returns [OF stopping_reachable _ stopping_run] stopping_reachable stopping_run
  by (intro conjI exI [of _ 8] exI [of _ "\<lparr>tm_stop = False, tm_real_time = 0, tm_thread = None, tm_owner = O_idle, tm_shown = 2\<rparr>"])
    (simp_all add: stopping_def)

end
