(* ===== verification/Sequence_Threads.thy ===== *)
theory Sequence_Threads
  imports Sequence_Exec
begin

text \<open>
  The threads of \<^verbatim>\<open>Sequence::exec\<close> together: the loops of \<^verbatim>\<open>_exec\<close> and \<^verbatim>\<open>_exec_without_statuses\<close> share the flag
  \<^verbatim>\<open>force_exit_loop\<close>, the mutex \<^verbatim>\<open>mtx_exception\<close> and the lists of messages; the caller, who runs the loop of the thread 0, waits for
  the pool and then throws the last message. One step per access to what is shared. What a pass and a stop condition may give is an
  argument: \<open>may_give tid r\<close> holds of the results \<^const>\<open>pass_result\<close> of the passes of a thread, \<open>may_throw e\<close> of the exceptions of the stop condition.
\<close>

section \<open>State\<close>

text \<open>
  Where a thread is: in its pass, at one of the three tests of the loop, after the loop, or in the handler of an exception with the
  flag, the mutex and the message.
\<close>

datatype lpc = L_pass | L_force | L_stop | L_sig | L_after | L_set exn | L_lock exn | L_record exn | L_unlock | L_done

text \<open>
  \<open>pr_return\<close> is the result of \<^verbatim>\<open>exec\<close>; \<open>pr_passes\<close> counts the passes of each thread and \<open>pr_results\<close> lists how the threads have ended, in
  the order they did.
\<close>

record par =
  pr_seq :: seq
  pr_mutex :: "nat option"
  pr_pc :: "nat \<Rightarrow> lpc"
  pr_return :: "(exn + unit) option"
  pr_passes :: "nat \<Rightarrow> nat"
  pr_results :: "(nat \<times> exn option) list"

definition start_par :: "seq \<Rightarrow> par" where
  "start_par q = \<lparr>pr_seq = q, pr_mutex = None, pr_pc = (\<lambda>_. L_pass), pr_return = None, pr_passes = (\<lambda>_. 0), pr_results = []\<rparr>"

definition move_to :: "nat \<Rightarrow> lpc \<Rightarrow> par \<Rightarrow> par" where
  "move_to i p s = s\<lparr>pr_pc := (pr_pc s)(i := p)\<rparr>"

text \<open>A thread that ends without a message, and what an exception of its loop makes of it.\<close>

definition ended :: "nat \<Rightarrow> exn option \<Rightarrow> par \<Rightarrow> par" where
  "ended i r s = (move_to i L_done s)\<lparr>pr_results := pr_results s @ [(i, r)]\<rparr>"

definition caught :: "nat \<Rightarrow> exn \<Rightarrow> par \<Rightarrow> par" where
  "caught i e s = (if e = Waiting_canceled then ended i (Some e) s else move_to i (L_set e) s)"

definition count_pass :: "nat \<Rightarrow> par \<Rightarrow> par" where
  "count_pass i s = s\<lparr>pr_passes := (pr_passes s)(i := pr_passes s i + 1)\<rparr>"

section \<open>Steps\<close>

inductive loop_step :: "(nat \<Rightarrow> exn option \<Rightarrow> bool) \<Rightarrow> (exn \<Rightarrow> bool) \<Rightarrow> (exn \<Rightarrow> string) \<Rightarrow> (exn \<Rightarrow> string) \<Rightarrow> nat \<Rightarrow> par \<Rightarrow> par \<Rightarrow> bool"
  for may_give may_throw what what_full i where
  pass: "pr_pc s i = L_pass \<Longrightarrow> may_give i None \<Longrightarrow> loop_step may_give may_throw what what_full i s (move_to i L_force (count_pass i s))"
| pass_throws: "pr_pc s i = L_pass \<Longrightarrow> may_give i (Some e) \<Longrightarrow> loop_step may_give may_throw what what_full i s (caught i e (count_pass i s))"
| force: "pr_pc s i = L_force \<Longrightarrow> loop_step may_give may_throw what what_full i s (move_to i (if q_force_exit (pr_seq s) then L_after else L_stop) s)"
| stop: "pr_pc s i = L_stop \<Longrightarrow> loop_step may_give may_throw what what_full i s (move_to i (if b then L_after else L_sig) s)"
| stop_throws: "pr_pc s i = L_stop \<Longrightarrow> may_throw e \<Longrightarrow> loop_step may_give may_throw what what_full i s (caught i e s)"
| sigint: "pr_pc s i = L_sig \<Longrightarrow> loop_step may_give may_throw what what_full i s (move_to i (if b then L_after else L_pass) s)"
| after: "pr_pc s i = L_after \<Longrightarrow> loop_step may_give may_throw what what_full i s (ended i None s)"
| set_force: "pr_pc s i = L_set e \<Longrightarrow> loop_step may_give may_throw what what_full i s (move_to i (L_lock e) (s\<lparr>pr_seq := pr_seq s\<lparr>q_force_exit := True\<rparr>\<rparr>))"
| lock: "pr_pc s i = L_lock e \<Longrightarrow> pr_mutex s = None \<Longrightarrow> loop_step may_give may_throw what what_full i s (move_to i (L_record e) (s\<lparr>pr_mutex := Some i\<rparr>))"
| record_it: "pr_pc s i = L_record e \<Longrightarrow> record_message (what e) (what_full e) (pr_seq s) = (Inr (), q) \<Longrightarrow>
    loop_step may_give may_throw what what_full i s (move_to i L_unlock (s\<lparr>pr_seq := q, pr_results := pr_results s @ [(i, Some e)]\<rparr>))"
| unlock: "pr_pc s i = L_unlock \<Longrightarrow> loop_step may_give may_throw what what_full i s (move_to i L_done (s\<lparr>pr_mutex := None\<rparr>))"

text \<open>The end of \<^verbatim>\<open>exec\<close>, once all the threads have ended.\<close>

definition exec_return :: "par \<Rightarrow> par" where
  "exec_return s = (if q_display (pr_seq s) \<noteq> [] then s\<lparr>pr_seq := pr_seq s\<lparr>q_force_exit := False\<rparr>, pr_return := Some (Inl Other_exn)\<rparr>
     else s\<lparr>pr_return := Some (Inr ())\<rparr>)"

inductive par_step :: "(nat \<Rightarrow> exn option \<Rightarrow> bool) \<Rightarrow> (exn \<Rightarrow> bool) \<Rightarrow> (exn \<Rightarrow> string) \<Rightarrow> (exn \<Rightarrow> string) \<Rightarrow> par \<Rightarrow> par \<Rightarrow> bool"
  for may_give may_throw what what_full where
  thread: "i < q_n_threads (pr_seq s) \<Longrightarrow> pr_return s = None \<Longrightarrow> loop_step may_give may_throw what what_full i s t \<Longrightarrow> par_step may_give may_throw what what_full s t"
| return: "\<forall>i < q_n_threads (pr_seq s). pr_pc s i = L_done \<Longrightarrow> pr_return s = None \<Longrightarrow> par_step may_give may_throw what what_full s (exec_return s)"

inductive par_run :: "(nat \<Rightarrow> exn option \<Rightarrow> bool) \<Rightarrow> (exn \<Rightarrow> bool) \<Rightarrow> (exn \<Rightarrow> string) \<Rightarrow> (exn \<Rightarrow> string) \<Rightarrow> par \<Rightarrow> nat \<Rightarrow> par \<Rightarrow> bool"
  for may_give may_throw what what_full where
  here: "par_run may_give may_throw what what_full s 0 s"
| more: "par_run may_give may_throw what what_full s n t \<Longrightarrow> par_step may_give may_throw what what_full t u \<Longrightarrow> par_run may_give may_throw what what_full s (Suc n) u"

section \<open>Invariant\<close>

text \<open>
  The sequence is the one the end of an execution makes of the results so far, but for the flag, which a thread sets before it takes
  the mutex; the holder of the mutex is the one thread between the message and the release.
\<close>

definition raises :: "lpc \<Rightarrow> bool" where
  "raises p \<longleftrightarrow> (\<exists>e. p = L_lock e \<or> p = L_record e)"

definition raised :: "nat \<Rightarrow> par \<Rightarrow> bool" where
  "raised n s \<longleftrightarrow> (\<exists>i < n. raises (pr_pc s i))"

definition holds_mutex :: "lpc \<Rightarrow> bool" where
  "holds_mutex p \<longleftrightarrow> p = L_unlock \<or> (\<exists>e. p = L_record e)"

definition has_result :: "lpc \<Rightarrow> bool" where
  "has_result p \<longleftrightarrow> p = L_unlock \<or> p = L_done"

definition seq_of :: "(exn \<Rightarrow> string) \<Rightarrow> (exn \<Rightarrow> string) \<Rightarrow> seq \<Rightarrow> par \<Rightarrow> bool" where
  "seq_of what what_full q s \<longleftrightarrow> (\<exists>q1. foreach (thread_end what what_full) (map snd (pr_results s)) q = (Inr (), q1) \<and>
     same_messages q1 \<and> q_n_threads q1 = q_n_threads q \<and> (q_force_exit q1 \<longrightarrow> q_display q1 \<noteq> []) \<and>
     pr_seq s = q1\<lparr>q_force_exit := q_force_exit q1 \<or> raised (q_n_threads q) s\<rparr>)"

definition mutex_ok :: "nat \<Rightarrow> par \<Rightarrow> bool" where
  "mutex_ok n s \<longleftrightarrow> (\<forall>i < n. holds_mutex (pr_pc s i) \<longleftrightarrow> pr_mutex s = Some i) \<and> (\<forall>i. pr_mutex s = Some i \<longrightarrow> i < n)"

definition results_ok :: "nat \<Rightarrow> par \<Rightarrow> bool" where
  "results_ok n s \<longleftrightarrow> distinct (map fst (pr_results s)) \<and> set (map fst (pr_results s)) = {i. i < n \<and> has_result (pr_pc s i)}"

definition par_ok :: "(exn \<Rightarrow> string) \<Rightarrow> (exn \<Rightarrow> string) \<Rightarrow> seq \<Rightarrow> par \<Rightarrow> bool" where
  "par_ok what what_full q s \<longleftrightarrow> seq_of what what_full q s \<and> mutex_ok (q_n_threads q) s \<and> results_ok (q_n_threads q) s"

lemmas par_defs = move_to_def ended_def caught_def count_pass_def

lemma record_force: "record_message m f (q\<lparr>q_force_exit := b\<rparr>) = (fst (record_message m f q), snd (record_message m f q)\<lparr>q_force_exit := b\<rparr>)"
  by (simp add: record_message_def)

lemma record_ok: "same_messages q \<Longrightarrow> \<exists>q'. record_message m f q = (Inr (), q') \<and> same_messages q' \<and> q_display q' \<noteq> [] \<and>
    q_n_threads q' = q_n_threads q \<and> q_force_exit q' = q_force_exit q"
  by (auto simp: record_message_def same_messages_def)

lemma record_keeps: "record_message m f q = (Inr (), q') \<Longrightarrow> q_n_threads q' = q_n_threads q \<and> q_force_exit q' = q_force_exit q"
  by (auto simp: record_message_def split: if_splits)

lemma thread_end_none: "thread_end what what_full None q = (Inr (), q)" "thread_end what what_full (Some Waiting_canceled) q = (Inr (), q)"
  by (simp_all add: thread_end_def)

lemma thread_end_some: "e \<noteq> Waiting_canceled \<Longrightarrow> thread_end what what_full (Some e) q = record_message (what e) (what_full e) (q\<lparr>q_force_exit := True\<rparr>)"
  by (simp add: thread_end_def)

lemma foreach_snoc: "foreach f xs s = (Inr (), s1) \<Longrightarrow> foreach f (xs @ [x]) s = f x s1"
  by (cases "f x s1" rule: is_ok.cases) (simp_all add: foreach_append)

text \<open>A thread that moves between two places of the same kind changes nothing of the invariant.\<close>

lemma raised_move: "raises p = raises (pr_pc s i) \<Longrightarrow> raised n (move_to i p s) = raised n s"
  unfolding raised_def move_to_def by (intro ex_cong1) simp

lemma mutex_move: "holds_mutex p = holds_mutex (pr_pc s i) \<Longrightarrow> mutex_ok n s \<Longrightarrow> mutex_ok n (move_to i p s)"
  by (simp add: mutex_ok_def move_to_def)

lemma results_move: "has_result p = has_result (pr_pc s i) \<Longrightarrow> results_ok n s \<Longrightarrow> results_ok n (move_to i p s)"
proof -
  assume p: "has_result p = has_result (pr_pc s i)" and r: "results_ok n s"
  have "{j. j < n \<and> has_result (((pr_pc s)(i := p)) j)} = {j. j < n \<and> has_result (pr_pc s j)}" using p by auto
  then show ?thesis using r by (simp add: results_ok_def move_to_def)
qed

lemma seq_of_move: "raises p = raises (pr_pc s i) \<Longrightarrow> seq_of what what_full q s \<Longrightarrow> seq_of what what_full q (move_to i p s)"
  using raised_move [of p s i "q_n_threads q"] by (simp add: seq_of_def move_to_def)

lemma par_ok_move: "raises p = raises (pr_pc s i) \<Longrightarrow> holds_mutex p = holds_mutex (pr_pc s i) \<Longrightarrow> has_result p = has_result (pr_pc s i) \<Longrightarrow>
    par_ok what what_full q s \<Longrightarrow> par_ok what what_full q (move_to i p s)"
  by (simp add: par_ok_def mutex_move results_move seq_of_move)

lemmas place_defs = raises_def holds_mutex_def has_result_def

text \<open>A thread that ends without a message.\<close>

lemma results_snoc: "results_ok n s \<Longrightarrow> i < n \<Longrightarrow> \<not> has_result (pr_pc s i) \<Longrightarrow> has_result p \<Longrightarrow>
    results_ok n ((move_to i p s)\<lparr>pr_results := pr_results s @ [(i, r)]\<rparr>)"
  by (auto simp: results_ok_def move_to_def)

lemma par_ok_ended:
  assumes "par_ok what what_full q s" "i < q_n_threads q" "pr_pc s i \<in> {L_pass, L_stop, L_after}" "r = None \<or> r = Some Waiting_canceled"
  shows "par_ok what what_full q (ended i r s)"
proof -
  have pl: "raises L_done = raises (pr_pc s i)" "holds_mutex L_done = holds_mutex (pr_pc s i)" "\<not> has_result (pr_pc s i)"
    using assms(3) by (auto simp: place_defs)
  obtain q1 where q1: "foreach (thread_end what what_full) (map snd (pr_results s)) q = (Inr (), q1)"
    "same_messages q1" "q_n_threads q1 = q_n_threads q" "q_force_exit q1 \<longrightarrow> q_display q1 \<noteq> []"
    "pr_seq s = q1\<lparr>q_force_exit := q_force_exit q1 \<or> raised (q_n_threads q) s\<rparr>" using assms(1) by (auto simp: par_ok_def seq_of_def)
  have "thread_end what what_full r q1 = (Inr (), q1)" using assms(4) thread_end_none by metis
  then have fe: "foreach (thread_end what what_full) (map snd (pr_results (ended i r s))) q = (Inr (), q1)"
    using foreach_snoc [OF q1(1), of r] by (simp add: ended_def)
  have r: "raised (q_n_threads q) (ended i r s) = raised (q_n_threads q) s"
    using raised_move [OF pl(1)] by (simp add: ended_def raised_def)
  have "pr_seq (ended i r s) = pr_seq s" by (simp add: ended_def move_to_def)
  then have "pr_seq (ended i r s) = q1\<lparr>q_force_exit := q_force_exit q1 \<or> raised (q_n_threads q) (ended i r s)\<rparr>" unfolding r using q1(5) by (rule trans)
  with fe q1(2-4) have "seq_of what what_full q (ended i r s)" unfolding seq_of_def by blast
  moreover have "mutex_ok (q_n_threads q) (move_to i L_done s)" using assms(1) by (intro mutex_move [OF pl(2)]) (simp add: par_ok_def)
  then have "mutex_ok (q_n_threads q) (ended i r s)" by (simp add: ended_def mutex_ok_def)
  moreover have "results_ok (q_n_threads q) (ended i r s)"
    unfolding ended_def using results_snoc assms(1,2) pl(3) by (simp add: par_ok_def has_result_def)
  ultimately show ?thesis by (simp add: par_ok_def)
qed

lemma par_ok_count: "par_ok what what_full q (count_pass i s) = par_ok what what_full q s"
  by (simp add: par_ok_def seq_of_def mutex_ok_def results_ok_def raised_def count_pass_def)

lemma par_ok_caught:
  "par_ok what what_full q s \<Longrightarrow> i < q_n_threads q \<Longrightarrow> pr_pc s i \<in> {L_pass, L_stop} \<Longrightarrow> par_ok what what_full q (caught i e s)"
  unfolding caught_def using par_ok_ended [of what what_full q s i "Some e"] par_ok_move [of "L_set e" s i]
  by (auto simp: place_defs)

text \<open>The handler.\<close>

lemma par_ok_set:
  assumes "par_ok what what_full q s" "i < q_n_threads q" "pr_pc s i = L_set e"
  shows "par_ok what what_full q (move_to i (L_lock e) (s\<lparr>pr_seq := pr_seq s\<lparr>q_force_exit := True\<rparr>\<rparr>))" (is "par_ok what what_full q ?t")
proof -
  have "raised (q_n_threads q) ?t" using assms(2) by (auto simp: raised_def raises_def move_to_def)
  moreover obtain q1 where "foreach (thread_end what what_full) (map snd (pr_results s)) q = (Inr (), q1)"
    "same_messages q1" "q_n_threads q1 = q_n_threads q" "q_force_exit q1 \<longrightarrow> q_display q1 \<noteq> []"
    "pr_seq s = q1\<lparr>q_force_exit := q_force_exit q1 \<or> raised (q_n_threads q) s\<rparr>" using assms(1) by (auto simp: par_ok_def seq_of_def)
  ultimately have "seq_of what what_full q ?t" unfolding seq_of_def by (intro exI [of _ q1]) (simp add: move_to_def)
  moreover have "mutex_ok (q_n_threads q) (move_to i (L_lock e) s)" "results_ok (q_n_threads q) (move_to i (L_lock e) s)"
    using mutex_move [of "L_lock e" s i] results_move [of "L_lock e" s i] assms by (simp_all add: par_ok_def place_defs)
  then have "mutex_ok (q_n_threads q) ?t" "results_ok (q_n_threads q) ?t" by (simp_all add: mutex_ok_def results_ok_def move_to_def)
  ultimately show ?thesis by (simp add: par_ok_def)
qed

lemma par_ok_lock:
  assumes "par_ok what what_full q s" "i < q_n_threads q" "pr_pc s i = L_lock e" "pr_mutex s = None"
  shows "par_ok what what_full q (move_to i (L_record e) (s\<lparr>pr_mutex := Some i\<rparr>))"
proof -
  let ?s = "s\<lparr>pr_mutex := Some i\<rparr>"
  have "seq_of what what_full q ?s" "results_ok (q_n_threads q) ?s" using assms(1) by (simp_all add: par_ok_def seq_of_def results_ok_def raised_def)
  then have "seq_of what what_full q (move_to i (L_record e) ?s)" "results_ok (q_n_threads q) (move_to i (L_record e) ?s)"
    using seq_of_move [of "L_record e" ?s i] results_move [of "L_record e" ?s i] assms(3) by (simp_all add: place_defs)
  moreover have "mutex_ok (q_n_threads q) (move_to i (L_record e) ?s)"
    using assms(1,2,4) by (auto simp: par_ok_def mutex_ok_def move_to_def holds_mutex_def)
  ultimately show ?thesis by (simp add: par_ok_def)
qed

lemma par_ok_unlock:
  assumes "par_ok what what_full q s" "i < q_n_threads q" "pr_pc s i = L_unlock"
  shows "par_ok what what_full q (move_to i L_done (s\<lparr>pr_mutex := None\<rparr>))"
proof -
  let ?s = "s\<lparr>pr_mutex := None\<rparr>"
  have "pr_mutex s = Some i" using assms by (auto simp: par_ok_def mutex_ok_def holds_mutex_def)
  then have "mutex_ok (q_n_threads q) (move_to i L_done ?s)"
    using assms(1,2) by (auto simp: par_ok_def mutex_ok_def move_to_def holds_mutex_def)
  moreover have "seq_of what what_full q ?s" "results_ok (q_n_threads q) ?s" using assms(1) by (simp_all add: par_ok_def seq_of_def results_ok_def raised_def)
  then have "seq_of what what_full q (move_to i L_done ?s)" "results_ok (q_n_threads q) (move_to i L_done ?s)"
    using seq_of_move [of L_done ?s i] results_move [of L_done ?s i] assms(3) by (simp_all add: place_defs)
  ultimately show ?thesis by (simp add: par_ok_def)
qed

lemma par_ok_record:
  assumes "par_ok what what_full q s" "i < q_n_threads q" "pr_pc s i = L_record e" "e \<noteq> Waiting_canceled"
    and "record_message (what e) (what_full e) (pr_seq s) = (Inr (), q2)"
  shows "par_ok what what_full q (move_to i L_unlock (s\<lparr>pr_seq := q2, pr_results := pr_results s @ [(i, Some e)]\<rparr>))" (is "par_ok what what_full q ?t")
proof -
  obtain q1 where q1: "foreach (thread_end what what_full) (map snd (pr_results s)) q = (Inr (), q1)"
    "same_messages q1" "q_n_threads q1 = q_n_threads q"
    "pr_seq s = q1\<lparr>q_force_exit := q_force_exit q1 \<or> raised (q_n_threads q) s\<rparr>" using assms(1) by (auto simp: par_ok_def seq_of_def)
  have r: "raised (q_n_threads q) s" using assms(2,3) by (auto simp: raised_def raises_def)
  then have "thread_end what what_full (Some e) q1 = (Inr (), q2)" using assms(4,5) q1(4) by (simp add: thread_end_some)
  then have fe: "foreach (thread_end what what_full) (map snd (pr_results s @ [(i, Some e)])) q = (Inr (), q2)"
    using foreach_snoc [OF q1(1)] by simp
  have "same_messages (pr_seq s)" using q1(2,4) by (simp add: same_messages_def)
  with record_ok [OF this, of "what e" "what_full e"] assms(5) q1(3,4) r
  have q2: "same_messages q2" "q_display q2 \<noteq> []" "q_n_threads q2 = q_n_threads q" "q_force_exit q2" by auto
  have "seq_of what what_full q ?t" unfolding seq_of_def using fe q2 by (intro exI [of _ q2]) (simp add: move_to_def)
  moreover have "mutex_ok (q_n_threads q) (move_to i L_unlock s)" using mutex_move [of L_unlock s i] assms by (simp add: par_ok_def holds_mutex_def)
  then have "mutex_ok (q_n_threads q) ?t" by (simp add: mutex_ok_def move_to_def)
  moreover have "results_ok (q_n_threads q) ?t"
    using results_snoc [of "q_n_threads q" s i L_unlock "Some e"] assms(1-3) unfolding par_ok_def by (simp add: move_to_def has_result_def results_ok_def)
  ultimately show ?thesis by (simp add: par_ok_def)
qed

text \<open>The exceptions in the handler; \<^verbatim>\<open>waiting_canceled\<close> never gets there.\<close>

fun handler_pc :: "lpc \<Rightarrow> bool" where
  "handler_pc (L_set e) \<longleftrightarrow> e \<noteq> Waiting_canceled"
| "handler_pc (L_lock e) \<longleftrightarrow> e \<noteq> Waiting_canceled"
| "handler_pc (L_record e) \<longleftrightarrow> e \<noteq> Waiting_canceled"
| "handler_pc _ \<longleftrightarrow> True"

definition handler_ok :: "nat \<Rightarrow> par \<Rightarrow> bool" where
  "handler_ok n s \<longleftrightarrow> (\<forall>i < n. handler_pc (pr_pc s i))"

lemma handler_step: "loop_step may_give may_throw what what_full i s t \<Longrightarrow> i < n \<Longrightarrow> handler_ok n s \<Longrightarrow> handler_ok n t"
proof (induction rule: loop_step.induct)
  case (set_force s e)
  then show ?case by (auto simp: handler_ok_def move_to_def)
next
  case (lock s e)
  then show ?case by (auto simp: handler_ok_def move_to_def)
qed (auto simp: handler_ok_def par_defs)

lemma par_ok_seq: "par_ok what what_full q s \<Longrightarrow> same_messages (pr_seq s) \<and> q_n_threads (pr_seq s) = q_n_threads q"
  by (auto simp: par_ok_def seq_of_def same_messages_def)

lemma loop_step_ok:
  assumes "loop_step may_give may_throw what what_full i s t" "i < q_n_threads q" "par_ok what what_full q s" "handler_ok (q_n_threads q) s"
  shows "par_ok what what_full q t"
  using assms(1)
proof cases
  case pass
  then have "pr_pc (count_pass i s) i = L_pass" "par_ok what what_full q (count_pass i s)" using assms(3) par_ok_count by (simp_all add: count_pass_def)
  then show ?thesis unfolding pass(1) by (intro par_ok_move) (simp_all add: place_defs)
next
  case (pass_throws e)
  then have "pr_pc (count_pass i s) i = L_pass" "par_ok what what_full q (count_pass i s)" using assms(3) par_ok_count by (simp_all add: count_pass_def)
  then show ?thesis unfolding pass_throws(1) using assms(2) by (intro par_ok_caught) simp_all
next
  case force
  then show ?thesis using assms(3) by (auto simp: place_defs intro: par_ok_move)
next
  case (stop b)
  then show ?thesis using assms(3) by (auto simp: place_defs intro: par_ok_move)
next
  case (stop_throws e)
  then show ?thesis using par_ok_caught [OF assms(3,2)] by simp
next
  case (sigint b)
  then show ?thesis using assms(3) by (auto simp: place_defs intro: par_ok_move)
next
  case after
  then show ?thesis using par_ok_ended [OF assms(3,2)] by simp
next
  case (set_force e)
  then show ?thesis using par_ok_set [OF assms(3,2)] by simp
next
  case (lock e)
  then show ?thesis using par_ok_lock [OF assms(3,2)] by simp
next
  case (record_it e q2)
  have "e \<noteq> Waiting_canceled" using assms(2,4) record_it(2) by (auto simp: handler_ok_def)
  then show ?thesis using record_it par_ok_record [OF assms(3,2)] by simp
next
  case unlock
  then show ?thesis using par_ok_unlock [OF assms(3,2)] by simp
qed

section \<open>The end of the threads is the end of an execution\<close>

definition ends_as :: "(exn \<Rightarrow> string) \<Rightarrow> (exn \<Rightarrow> string) \<Rightarrow> seq \<Rightarrow> par \<Rightarrow> (exn + unit) \<Rightarrow> bool" where
  "ends_as what what_full q s r \<longleftrightarrow> distinct (map fst (pr_results s)) \<and> set (map fst (pr_results s)) = {..<q_n_threads q} \<and>
     exec_end what what_full (map snd (pr_results s)) q = (r, pr_seq s)"

definition run_ok :: "(exn \<Rightarrow> string) \<Rightarrow> (exn \<Rightarrow> string) \<Rightarrow> seq \<Rightarrow> par \<Rightarrow> bool" where
  "run_ok what what_full q s \<longleftrightarrow> (case pr_return s of None \<Rightarrow> par_ok what what_full q s \<and> handler_ok (q_n_threads q) s
     | Some r \<Rightarrow> ends_as what what_full q s r)"

lemma all_done_ends:
  assumes "par_ok what what_full q s" and "\<forall>i < q_n_threads (pr_seq s). pr_pc s i = L_done"
  shows "\<exists>r. pr_return (exec_return s) = Some r \<and> ends_as what what_full q (exec_return s) r"
proof -
  obtain q1 where q1: "foreach (thread_end what what_full) (map snd (pr_results s)) q = (Inr (), q1)" "q_n_threads q1 = q_n_threads q"
    "pr_seq s = q1\<lparr>q_force_exit := q_force_exit q1 \<or> raised (q_n_threads q) s\<rparr>" using assms(1) by (auto simp: par_ok_def seq_of_def)
  have n: "q_n_threads (pr_seq s) = q_n_threads q" using par_ok_seq [OF assms(1)] by simp
  then have "\<not> raised (q_n_threads q) s" using assms(2) by (simp add: raised_def raises_def)
  then have s: "pr_seq s = q1" using q1(3) by simp
  have "results_ok (q_n_threads q) s" using assms(1) by (simp add: par_ok_def)
  then have "distinct (map fst (pr_results s))" "set (map fst (pr_results s)) = {..<q_n_threads q}"
    using assms(2) n by (auto simp: results_ok_def has_result_def)
  then show ?thesis using q1(1) s by (simp add: exec_return_def ends_as_def exec_end_def)
qed

lemma par_step_ok: "par_step may_give may_throw what what_full s t \<Longrightarrow> run_ok what what_full q s \<Longrightarrow> run_ok what what_full q t"
proof (induction rule: par_step.induct)
  case (thread i s t)
  have ok: "par_ok what what_full q s" "handler_ok (q_n_threads q) s" using thread.prems thread.hyps(2) by (simp_all add: run_ok_def)
  have i: "i < q_n_threads q" using thread.hyps(1) par_ok_seq [OF ok(1)] by simp
  have "pr_return t = pr_return s" using thread.hyps(3) by cases (simp_all add: par_defs)
  then show ?case using thread.hyps(2) loop_step_ok [OF thread.hyps(3) i ok] handler_step [OF thread.hyps(3) i ok(2)] by (simp add: run_ok_def)
next
  case (return s)
  then show ?case using all_done_ends [of what what_full q s] by (auto simp: run_ok_def)
qed

lemma run_keeps_ok: "par_run may_give may_throw what what_full s n t \<Longrightarrow> run_ok what what_full q s \<Longrightarrow> run_ok what what_full q t"
  by (induction rule: par_run.induct) (auto dest: par_step_ok)

lemma start_ok: "same_messages q \<Longrightarrow> \<not> q_force_exit q \<Longrightarrow> run_ok what what_full q (start_par q)"
  by (auto simp: run_ok_def start_par_def par_ok_def seq_of_def mutex_ok_def results_ok_def handler_ok_def raised_def place_defs)

section \<open>A concrete execution\<close>

text \<open>Two threads: the pass of the first one throws while the second is in its own, which it ends.\<close>

definition pair_seq :: seq where
  "pair_seq = demo_seq\<lparr>q_n_threads := 2\<rparr>"

definition pair_give :: "nat \<Rightarrow> exn option \<Rightarrow> bool" where
  "pair_give i r \<longleftrightarrow> r = (if i = 0 then Some Runtime_error else None)"

abbreviation pair_run :: "par \<Rightarrow> nat \<Rightarrow> par \<Rightarrow> bool" where
  "pair_run \<equiv> par_run pair_give (\<lambda>e. False) (\<lambda>e. ''x'') (\<lambda>e. ''x'')"

abbreviation pair_loop :: "nat \<Rightarrow> par \<Rightarrow> par \<Rightarrow> bool" where
  "pair_loop \<equiv> loop_step pair_give (\<lambda>e. False) (\<lambda>e. ''x'') (\<lambda>e. ''x'')"

lemma run_thread: "par_run may_give may_throw what what_full s n t \<Longrightarrow> loop_step may_give may_throw what what_full i t u \<Longrightarrow>
    i < q_n_threads (pr_seq t) \<Longrightarrow> pr_return t = None \<Longrightarrow> par_run may_give may_throw what what_full s (Suc n) u"
  by (blast intro: par_run.more par_step.thread)

definition pair_forced :: par where
  "pair_forced = move_to 0 (L_lock Runtime_error) ((move_to 0 (L_set Runtime_error) (count_pass 0 (start_par pair_seq)))\<lparr>pr_seq := pair_seq\<lparr>q_force_exit := True\<rparr>\<rparr>)"

definition pair_recorded :: seq where
  "pair_recorded = pair_seq\<lparr>q_force_exit := True, q_messages := [''x''], q_display := [''x'']\<rparr>"

definition pair_done :: par where
  "pair_done = ended 1 None (move_to 1 L_after (move_to 1 L_force (count_pass 1 (move_to 0 L_done ((move_to 0 L_unlock ((move_to 0 (L_record Runtime_error)
     (pair_forced\<lparr>pr_mutex := Some 0\<rparr>))\<lparr>pr_seq := pair_recorded, pr_results := [(0, Some Runtime_error)]\<rparr>))\<lparr>pr_mutex := None\<rparr>)))))"

lemmas pair_defs = par_defs pair_forced_def pair_done_def pair_recorded_def pair_seq_def pair_give_def start_par_def demo_seq_def

lemma pair_first: "pair_run (start_par pair_seq) 2 pair_forced"
proof -
  have "pair_run (start_par pair_seq) 0 (start_par pair_seq)" by (rule par_run.here)
  then have "pair_run (start_par pair_seq) (Suc 0) (move_to 0 (L_set Runtime_error) (count_pass 0 (start_par pair_seq)))"
    by (rule run_thread [where i = 0]) (use loop_step.pass_throws [of "start_par pair_seq" 0 pair_give Runtime_error] in \<open>simp_all add: pair_defs\<close>)
  then have "pair_run (start_par pair_seq) (Suc (Suc 0)) pair_forced"
    by (rule run_thread [where i = 0])
      (use loop_step.set_force [of "move_to 0 (L_set Runtime_error) (count_pass 0 (start_par pair_seq))" 0 Runtime_error] in \<open>simp_all add: pair_defs\<close>)
  then show ?thesis by (simp add: numeral_2_eq_2)
qed

lemma pair_rest: "pair_run pair_forced 7 (exec_return pair_done)"
proof -
  let ?s1 = "move_to 0 (L_record Runtime_error) (pair_forced\<lparr>pr_mutex := Some 0\<rparr>)"
  let ?s2 = "move_to 0 L_unlock (?s1\<lparr>pr_seq := pair_recorded, pr_results := [(0, Some Runtime_error)]\<rparr>)"
  let ?s3 = "move_to 0 L_done (?s2\<lparr>pr_mutex := None\<rparr>)"
  let ?s4 = "move_to 1 L_force (count_pass 1 ?s3)"
  let ?s5 = "move_to 1 L_after ?s4"
  have p: "pr_seq pair_forced = pair_seq\<lparr>q_force_exit := True\<rparr>" "pr_results pair_forced = []" "pr_return pair_forced = None"
    "pr_pc pair_forced = (\<lambda>_. L_pass)(0 := L_lock Runtime_error)" "pr_mutex pair_forced = None" "q_n_threads pair_seq = 2"
    "q_n_threads pair_recorded = 2" "q_force_exit pair_recorded"
    by (simp_all add: pair_defs)
  have "pair_run pair_forced 0 pair_forced" by (rule par_run.here)
  then have "pair_run pair_forced 1 ?s1" unfolding One_nat_def by (rule run_thread [where i = 0]) (use p loop_step.lock [of pair_forced 0] in auto)
  moreover have "record_message ''x'' ''x'' (pr_seq ?s1) = (Inr (), pair_recorded)" by (simp add: record_message_def pair_defs)
  then have "pair_loop 0 ?s1 ?s2" using loop_step.record_it [of ?s1 0 Runtime_error "\<lambda>e. ''x''" "\<lambda>e. ''x''" pair_recorded] p by (simp add: move_to_def)
  ultimately have "pair_run pair_forced (Suc 1) ?s2" by (rule run_thread [where i = 0]) (simp_all add: move_to_def p)
  then have "pair_run pair_forced (Suc (Suc 1)) ?s3" by (rule run_thread [where i = 0]) (use loop_step.unlock [of ?s2 0] in \<open>simp_all add: move_to_def p\<close>)
  then have "pair_run pair_forced (Suc (Suc (Suc 1))) ?s4"
    by (rule run_thread [where i = 1]) (use loop_step.pass [of ?s3 1 pair_give] in \<open>simp_all add: move_to_def count_pass_def p pair_give_def\<close>)
  then have "pair_run pair_forced (Suc (Suc (Suc (Suc 1)))) ?s5"
    by (rule run_thread [where i = 1]) (use loop_step.force [of ?s4 1] in \<open>simp_all add: move_to_def count_pass_def p\<close>)
  then have "pair_run pair_forced (Suc (Suc (Suc (Suc (Suc 1))))) pair_done"
    by (rule run_thread [where i = 1]) (use loop_step.after [of ?s5 1] in \<open>simp_all add: pair_done_def move_to_def count_pass_def p\<close>)
  moreover have "par_step pair_give (\<lambda>e. False) (\<lambda>e. ''x'') (\<lambda>e. ''x'') pair_done (exec_return pair_done)"
    by (rule par_step.return) (auto simp: pair_defs less_2_cases_iff)
  ultimately have "pair_run pair_forced (Suc (Suc (Suc (Suc (Suc (Suc 1)))))) (exec_return pair_done)" by (rule par_run.more)
  then show ?thesis by (simp add: eval_nat_numeral)
qed

lemma par_run_trans: "par_run g h w f t m u \<Longrightarrow> par_run g h w f s n t \<Longrightarrow> par_run g h w f s (n + m) u"
  by (induction rule: par_run.induct) (auto intro: par_run.more)

lemma pair_return: "pr_return (exec_return pair_done) = Some (Inl Other_exn)"
  by (simp add: exec_return_def pair_defs)

text \<open>
  C15: Whatever the interleaving of the threads, an execution of a sequence that returns ends as \<^const>\<open>exec_end\<close> does with the results of
  all its threads, each once, in some order: the flag, the messages and the exception that is thrown are the same.
\<close>

theorem threads_end_as_one:
  assumes "par_run may_give may_throw what what_full (start_par q) n s" and "pr_return s = Some r"
    and "same_messages q" and "\<not> q_force_exit q"
  shows "\<exists>rs. distinct (map fst rs) \<and> set (map fst rs) = {..<q_n_threads q} \<and> exec_end what what_full (map snd rs) q = (r, pr_seq s)"
  using run_keeps_ok [OF assms(1) start_ok [OF assms(3,4)]] assms(2) by (auto simp: run_ok_def ends_as_def)

lemma threads_end_as_one_witness:
  "par_run pair_give (\<lambda>e. False) (\<lambda>e. ''x'') (\<lambda>e. ''x'') (start_par pair_seq) 9 (exec_return pair_done) \<and>
     (\<exists>rs. distinct (map fst rs) \<and> set (map fst rs) = {..<(2::nat)} \<and>
       exec_end (\<lambda>e. ''x'') (\<lambda>e. ''x'') (map snd rs) pair_seq = (Inl Other_exn, pr_seq (exec_return pair_done)))"
proof -
  have r: "pair_run (start_par pair_seq) 9 (exec_return pair_done)" using par_run_trans [OF pair_rest pair_first] by simp
  have "same_messages pair_seq" "\<not> q_force_exit pair_seq" "q_n_threads pair_seq = 2" by (simp_all add: same_messages_def pair_seq_def demo_seq_def)
  then show ?thesis using threads_end_as_one [OF r pair_return] r by simp
qed

section \<open>An exception stops all the threads\<close>

fun place_left :: "lpc \<Rightarrow> nat" where
  "place_left L_done = 0"
| "place_left L_unlock = 1"
| "place_left (L_record e) = 2"
| "place_left (L_lock e) = 3"
| "place_left (L_set e) = 4"
| "place_left L_after = 1"
| "place_left L_force = 2"
| "place_left L_pass = 5"
| "place_left L_sig = 6"
| "place_left L_stop = 7"

definition par_left :: "nat \<Rightarrow> par \<Rightarrow> nat" where
  "par_left n s = (\<Sum>i<n. place_left (pr_pc s i)) + (if pr_return s = None then 1 else 0)"

definition pass_left :: "par \<Rightarrow> nat \<Rightarrow> nat" where
  "pass_left s i = (if pr_pc s i \<in> {L_pass, L_sig, L_stop} then 1 else 0)"

definition forced :: "par \<Rightarrow> bool" where
  "forced s \<longleftrightarrow> pr_return s = None \<and> q_force_exit (pr_seq s) \<or> pr_return s = Some (Inl Other_exn) \<and> \<not> q_force_exit (pr_seq s)"

lemma place_left_le: "place_left p \<le> 7"
  by (cases p) simp_all

lemma forced_thread:
  assumes "loop_step may_give may_throw what what_full i s t" "q_force_exit (pr_seq s)"
  shows "q_force_exit (pr_seq t) \<and> place_left (pr_pc t i) < place_left (pr_pc s i) \<and> (\<forall>j. j \<noteq> i \<longrightarrow> pr_pc t j = pr_pc s j) \<and>
    pr_return t = pr_return s \<and> (\<forall>j. pr_passes t j + pass_left t j \<le> pr_passes s j + pass_left s j)"
  using assms(1)
proof cases
  case (record_it e q2)
  then show ?thesis using record_keeps [OF record_it(3)] assms(2) by (auto simp: par_defs pass_left_def)
qed (use assms(2) in \<open>auto simp: par_defs pass_left_def\<close>)

lemma forced_step:
  assumes "par_step may_give may_throw what what_full s t" "forced s" "run_ok what what_full q s"
  shows "forced t \<and> par_left (q_n_threads q) t < par_left (q_n_threads q) s \<and> (\<forall>j. pr_passes t j + pass_left t j \<le> pr_passes s j + pass_left s j)"
  using assms(1)
proof cases
  case (thread i)
  then have f: "q_force_exit (pr_seq s)" using assms(2) by (simp add: forced_def)
  note r = forced_thread [OF thread(3) f]
  have ok: "par_ok what what_full q s" using assms(3) thread(2) by (simp add: run_ok_def)
  have i: "i \<in> {..<q_n_threads q}" using thread(1) par_ok_seq [OF ok] by simp
  have "(\<Sum>j<q_n_threads q. place_left (pr_pc t j)) < (\<Sum>j<q_n_threads q. place_left (pr_pc s j))"
    using r i by (intro sum_strict_mono_ex1) (auto simp: order_le_less)
  then show ?thesis using r thread(2) by (simp add: forced_def par_left_def)
next
  case return
  then have f: "q_force_exit (pr_seq s)" using assms(2) by (simp add: forced_def)
  have ok: "par_ok what what_full q s" using assms(3) return(3) by (simp add: run_ok_def)
  then obtain q1 where q1: "q_n_threads q1 = q_n_threads q" "q_force_exit q1 \<longrightarrow> q_display q1 \<noteq> []"
    "pr_seq s = q1\<lparr>q_force_exit := q_force_exit q1 \<or> raised (q_n_threads q) s\<rparr>" by (auto simp: par_ok_def seq_of_def)
  have "\<not> raised (q_n_threads q) s" using return(2) q1 by (simp add: raised_def raises_def)
  then have "q_display (pr_seq s) \<noteq> []" using q1 f by simp
  then show ?thesis using return by (simp add: exec_return_def forced_def par_left_def pass_left_def)
qed

lemma forced_run:
  "par_run may_give may_throw what what_full s n t \<Longrightarrow> forced s \<Longrightarrow> run_ok what what_full q s \<Longrightarrow>
     forced t \<and> run_ok what what_full q t \<and> par_left (q_n_threads q) t + n \<le> par_left (q_n_threads q) s \<and>
     (\<forall>j. pr_passes t j + pass_left t j \<le> pr_passes s j + pass_left s j)"
proof (induction rule: par_run.induct)
  case (more s n t u)
  then have ih: "forced t" "run_ok what what_full q t" "par_left (q_n_threads q) t + n \<le> par_left (q_n_threads q) s"
    "\<forall>j. pr_passes t j + pass_left t j \<le> pr_passes s j + pass_left s j" by blast+
  note st = forced_step [OF more.hyps(2) ih(1,2)]
  then have "\<forall>j. pr_passes u j + pass_left u j \<le> pr_passes s j + pass_left s j" using ih(4) order_trans by blast
  moreover have "par_left (q_n_threads q) u + Suc n \<le> par_left (q_n_threads q) s" using st ih(3) by linarith
  ultimately show ?case using st par_step_ok [OF more.hyps(2) ih(2)] by blast
qed simp

text \<open>No deadlock: the holder of the mutex can go on, and the mutex is free for the others when nobody holds it.\<close>

lemma thread_goes_on:
  assumes "same_messages (pr_seq s)" "\<exists>r. may_give i r" "pr_pc s i \<noteq> L_done" "\<And>e. pr_pc s i = L_lock e \<Longrightarrow> pr_mutex s = None"
  shows "\<exists>t. loop_step may_give may_throw what what_full i s t"
proof (cases "pr_pc s i")
  case L_pass
  obtain r where "may_give i r" using assms(2) by blast
  then show ?thesis using L_pass by (cases r) (blast intro: loop_step.intros)+
next
  case (L_record e)
  then show ?thesis using record_ok [OF assms(1)] by (blast intro: loop_step.intros)
qed (use assms in \<open>blast intro: loop_step.intros\<close>)+

lemma run_goes_on:
  assumes "run_ok what what_full q s" "pr_return s = None" "\<And>i. \<exists>r. may_give i r"
  shows "\<exists>t. par_step may_give may_throw what what_full s t"
proof (cases "\<forall>i < q_n_threads (pr_seq s). pr_pc s i = L_done")
  case True
  then show ?thesis using assms(2) by (blast intro: par_step.return)
next
  case False
  then obtain i where i: "i < q_n_threads (pr_seq s)" "pr_pc s i \<noteq> L_done" by blast
  have ok: "par_ok what what_full q s" using assms(1,2) by (simp add: run_ok_def)
  note sq = par_ok_seq [OF ok]
  have "\<exists>j < q_n_threads (pr_seq s). \<exists>t. loop_step may_give may_throw what what_full j s t"
  proof (cases "pr_mutex s")
    case None
    then show ?thesis using i thread_goes_on [of s may_give i] sq assms(3) by blast
  next
    case (Some j)
    then have j: "j < q_n_threads (pr_seq s)" "holds_mutex (pr_pc s j)" using ok sq by (auto simp: par_ok_def mutex_ok_def)
    then have "pr_pc s j \<noteq> L_done" "pr_pc s j \<noteq> L_lock e" for e by (auto simp: holds_mutex_def)
    then show ?thesis using j(1) thread_goes_on [of s may_give j] sq assms(3) by blast
  qed
  then show ?thesis using assms(2) par_step.thread by blast
qed

text \<open>
  C7: When a thread of a sequence throws, the execution ends and throws, whatever the interleaving: once the flag is set, each thread
  ends at most one more pass, at most seven steps per thread and the return of \<^verbatim>\<open>exec\<close> are left, a step can always be taken
  until then, and \<^verbatim>\<open>exec\<close> then throws and lowers the flag. The passes and the stop condition themselves have to return.
\<close>

theorem an_exception_ends_the_execution:
  assumes "par_run may_give may_throw what what_full (start_par q) m s" and "q_force_exit (pr_seq s)" and "same_messages q" and "\<not> q_force_exit q"
    and "par_run may_give may_throw what what_full s n t" and "\<And>i. \<exists>r. may_give i r" and "pr_return s = None"
  shows "n \<le> 7 * q_n_threads q + 1 \<and> (\<forall>j. pr_passes t j \<le> pr_passes s j + 1) \<and>
    (pr_return t = Some (Inl Other_exn) \<and> \<not> q_force_exit (pr_seq t) \<or>
     pr_return t = None \<and> (\<exists>u. par_step may_give may_throw what what_full t u))"
proof -
  have ok: "run_ok what what_full q s" using run_keeps_ok [OF assms(1) start_ok [OF assms(3,4)]] .
  have f: "forced s" using assms(2,7) by (simp add: forced_def)
  note r = forced_run [OF assms(5) f ok]
  have "(\<Sum>i<q_n_threads q. place_left (pr_pc s i)) \<le> (\<Sum>i<q_n_threads q. 7)" by (intro sum_mono place_left_le)
  then have "par_left (q_n_threads q) s \<le> 7 * q_n_threads q + 1" by (simp add: par_left_def)
  then have "n \<le> 7 * q_n_threads q + 1" using r by linarith
  moreover have "pass_left s j \<le> 1" for j by (simp add: pass_left_def)
  then have "pr_passes t j \<le> pr_passes s j + 1" for j using r by (meson add_leD1 add_left_mono le_trans)
  ultimately show ?thesis using r run_goes_on [of what what_full q t] assms(6) by (auto simp: forced_def)
qed

lemma an_exception_ends_the_execution_witness:
  "par_run pair_give (\<lambda>e. False) (\<lambda>e. ''x'') (\<lambda>e. ''x'') (start_par pair_seq) 2 pair_forced \<and>
     par_run pair_give (\<lambda>e. False) (\<lambda>e. ''x'') (\<lambda>e. ''x'') pair_forced 7 (exec_return pair_done) \<and> (7::nat) \<le> 7 * 2 + 1 \<and>
     pr_passes (exec_return pair_done) 1 \<le> pr_passes pair_forced 1 + 1 \<and> pr_return (exec_return pair_done) = Some (Inl Other_exn)"
proof -
  have "q_force_exit (pr_seq pair_forced)" "pr_return pair_forced = None" "same_messages pair_seq" "\<not> q_force_exit pair_seq" "q_n_threads pair_seq = 2"
    by (simp_all add: same_messages_def pair_defs)
  moreover have "\<exists>r. pair_give i r" for i by (simp add: pair_give_def)
  ultimately show ?thesis using an_exception_ends_the_execution [OF pair_first _ _ _ pair_rest] pair_first pair_rest pair_return by simp
qed

end
