(* ===== verification/Operators.thy ===== *)
theory Operators
  imports Prelude
begin

text \<open>
  The operators of \<^verbatim>\<open>binaryop.hxx\<close> and \<^verbatim>\<open>unaryop.hxx\<close> on the integer types. A value is an integer of its type; the operands of
  an arithmetic operator are first promoted to \<^verbatim>\<open>int\<close> when their type is narrower, a signed operation that leaves its type is
  undefined, an unsigned one wraps, and the result is converted to the type of the output. The floating-point instances are not
  modelled.
\<close>

unbundle bit_operations_syntax

section \<open>Integer types\<close>

record ity =
  i_bits :: nat
  i_signed :: bool

definition int32_t :: ity where
  "int32_t = \<lparr>i_bits = 32, i_signed = True\<rparr>"

definition in_type :: "ity \<Rightarrow> int \<Rightarrow> bool" where
  "in_type T x \<longleftrightarrow> (if i_signed T then - (2 ^ (i_bits T - 1)) \<le> x \<and> x < 2 ^ (i_bits T - 1) else 0 \<le> x \<and> x < 2 ^ i_bits T)"

definition conv :: "ity \<Rightarrow> int \<Rightarrow> int" where
  "conv T x = (if i_signed T then (x + 2 ^ (i_bits T - 1)) mod 2 ^ i_bits T - 2 ^ (i_bits T - 1) else x mod 2 ^ i_bits T)"

definition promoted :: "ity \<Rightarrow> ity" where
  "promoted T = (if i_bits T < 32 then int32_t else T)"

definition arith :: "ity \<Rightarrow> int \<Rightarrow> exn + int" where
  "arith T x = (if i_signed T then if in_type T x then Inr x else Inl UB else Inr (conv T x))"

text \<open>The division of C++ truncates towards zero.\<close>

definition trunc_quot :: "int \<Rightarrow> int \<Rightarrow> int" where
  "trunc_quot a b = sgn a * sgn b * (\<bar>a\<bar> div \<bar>b\<bar>)"

section \<open>Binary operators\<close>

definition bop_add :: "ity \<Rightarrow> ity \<Rightarrow> int \<Rightarrow> int \<Rightarrow> exn + int" where
  "bop_add TI TO a b = map_sum id (conv TO) (arith (promoted TI) (a + b))"

definition bop_sub :: "ity \<Rightarrow> ity \<Rightarrow> int \<Rightarrow> int \<Rightarrow> exn + int" where
  "bop_sub TI TO a b = map_sum id (conv TO) (arith (promoted TI) (a - b))"

definition bop_mul :: "ity \<Rightarrow> ity \<Rightarrow> int \<Rightarrow> int \<Rightarrow> exn + int" where
  "bop_mul TI TO a b = map_sum id (conv TO) (arith (promoted TI) (a * b))"

definition bop_div :: "ity \<Rightarrow> ity \<Rightarrow> int \<Rightarrow> int \<Rightarrow> exn + int" where
  "bop_div TI TO a b = (if b = 0 then Inl UB else map_sum id (conv TO) (arith (promoted TI) (trunc_quot a b)))"

definition bop_or :: "ity \<Rightarrow> ity \<Rightarrow> int \<Rightarrow> int \<Rightarrow> exn + int" where
  "bop_or TI TO a b = Inr (conv TO (a OR b))"

definition bop_xor :: "ity \<Rightarrow> ity \<Rightarrow> int \<Rightarrow> int \<Rightarrow> exn + int" where
  "bop_xor TI TO a b = Inr (conv TO (a XOR b))"

definition bop_and :: "ity \<Rightarrow> ity \<Rightarrow> int \<Rightarrow> int \<Rightarrow> exn + int" where
  "bop_and TI TO a b = Inr (conv TO (a AND b))"

definition bop_min :: "ity \<Rightarrow> ity \<Rightarrow> int \<Rightarrow> int \<Rightarrow> exn + int" where
  "bop_min TI TO a b = Inr (conv TO (min a b))"

definition bop_max :: "ity \<Rightarrow> ity \<Rightarrow> int \<Rightarrow> int \<Rightarrow> exn + int" where
  "bop_max TI TO a b = Inr (conv TO (max a b))"

definition of_test :: "ity \<Rightarrow> bool \<Rightarrow> exn + int" where
  "of_test TO p = Inr (conv TO (if p then 1 else 0))"

definition bop_gt :: "ity \<Rightarrow> ity \<Rightarrow> int \<Rightarrow> int \<Rightarrow> exn + int" where
  "bop_gt TI TO a b = of_test TO (a > b)"

definition bop_ge :: "ity \<Rightarrow> ity \<Rightarrow> int \<Rightarrow> int \<Rightarrow> exn + int" where
  "bop_ge TI TO a b = of_test TO (a \<ge> b)"

definition bop_lt :: "ity \<Rightarrow> ity \<Rightarrow> int \<Rightarrow> int \<Rightarrow> exn + int" where
  "bop_lt TI TO a b = of_test TO (a < b)"

definition bop_le :: "ity \<Rightarrow> ity \<Rightarrow> int \<Rightarrow> int \<Rightarrow> exn + int" where
  "bop_le TI TO a b = of_test TO (a \<le> b)"

definition bop_ne :: "ity \<Rightarrow> ity \<Rightarrow> int \<Rightarrow> int \<Rightarrow> exn + int" where
  "bop_ne TI TO a b = of_test TO (a \<noteq> b)"

definition bop_eq :: "ity \<Rightarrow> ity \<Rightarrow> int \<Rightarrow> int \<Rightarrow> exn + int" where
  "bop_eq TI TO a b = of_test TO (a = b)"

section \<open>Unary operators\<close>

definition uop_cast :: "ity \<Rightarrow> ity \<Rightarrow> int \<Rightarrow> exn + int" where
  "uop_cast TI TO a = Inr (conv TO a)"

definition uop_neg :: "ity \<Rightarrow> ity \<Rightarrow> int \<Rightarrow> exn + int" where
  "uop_neg TI TO a = map_sum id (conv TO) (arith (promoted TI) (- a))"

definition uop_not :: "ity \<Rightarrow> ity \<Rightarrow> int \<Rightarrow> exn + int" where
  "uop_not TI TO a = map_sum id (conv TO) (arith (promoted TI) (NOT a))"

definition uop_abs :: "ity \<Rightarrow> ity \<Rightarrow> int \<Rightarrow> exn + int" where
  "uop_abs TI TO a = map_sum id (conv TO) (arith (promoted TI) \<bar>a\<bar>)"

definition uop_not_abs :: "ity \<Rightarrow> ity \<Rightarrow> int \<Rightarrow> exn + int" where
  "uop_not_abs TI TO a = and_then (arith (promoted TI) \<bar>a\<bar>) (\<lambda>x. map_sum id (conv TO) (arith (promoted TI) (NOT x)))"

text \<open>\<^verbatim>\<open>signbit\<close> of an integer is the one of its value as a double.\<close>

definition uop_sign :: "ity \<Rightarrow> ity \<Rightarrow> int \<Rightarrow> exn + int" where
  "uop_sign TI TO a = of_test TO (a < 0)"

section \<open>Conversions\<close>

lemma conv_same: "0 < i_bits T \<Longrightarrow> in_type T x \<Longrightarrow> conv T x = x"
proof -
  assume b: "0 < i_bits T" and x: "in_type T x"
  have p: "(2::int) ^ i_bits T = 2 * 2 ^ (i_bits T - 1)" using b by (cases "i_bits T") simp_all
  show ?thesis using x p by (auto simp: conv_def in_type_def)
qed

lemma conv_in_type: "0 < i_bits T \<Longrightarrow> in_type T (conv T x)"
proof -
  assume b: "0 < i_bits T"
  have p: "(2::int) ^ i_bits T = 2 * 2 ^ (i_bits T - 1)" using b by (cases "i_bits T") simp_all
  have "0 \<le> y mod 2 ^ i_bits T \<and> y mod 2 ^ i_bits T < 2 ^ i_bits T" for y :: int by simp
  from this [of "x + 2 ^ (i_bits T - 1)"] this [of x] show ?thesis using p by (auto simp: conv_def in_type_def)
qed

text \<open>The narrow types, whose operands are promoted.\<close>

definition narrow :: "ity \<Rightarrow> bool" where
  "narrow T \<longleftrightarrow> 0 < i_bits T \<and> i_bits T \<le> 16"

lemma narrow_in_type: "narrow T \<Longrightarrow> in_type T x \<Longrightarrow> - 32768 \<le> x \<and> x < 65536"
proof -
  assume n: "narrow T" and x: "in_type T x"
  have "(2::int) ^ (i_bits T - 1) \<le> 2 ^ 15" using n by (intro power_increasing) (auto simp: narrow_def)
  moreover have "(2::int) ^ i_bits T \<le> 2 ^ 16" using n by (intro power_increasing) (auto simp: narrow_def)
  ultimately show ?thesis using x by (auto simp: in_type_def split: if_splits)
qed

lemma narrow_signed: "narrow T \<Longrightarrow> i_signed T \<Longrightarrow> in_type T x \<Longrightarrow> \<bar>x\<bar> \<le> 32768"
proof -
  assume n: "narrow T" and s: "i_signed T" and x: "in_type T x"
  have "(2::int) ^ (i_bits T - 1) \<le> 2 ^ 15" using n by (intro power_increasing) (auto simp: narrow_def)
  then show ?thesis using s x by (auto simp: in_type_def)
qed

lemma narrow_arith: "narrow T \<Longrightarrow> - 2147483648 \<le> x \<Longrightarrow> x < 2147483648 \<Longrightarrow> arith (promoted T) x = Inr x"
  by (simp add: narrow_def promoted_def int32_t_def arith_def in_type_def)

lemma trunc_quot_bound: "\<bar>trunc_quot a b\<bar> \<le> \<bar>a\<bar>"
proof (cases "b = 0")
  case False
  have "\<bar>a\<bar> div \<bar>b\<bar> \<le> \<bar>a\<bar>" using zdiv_mono2 [of "\<bar>a\<bar>" 1 "\<bar>b\<bar>"] False by simp
  moreover have "0 \<le> \<bar>a\<bar> div \<bar>b\<bar>" using False by (simp add: pos_imp_zdiv_nonneg_iff)
  ultimately show ?thesis unfolding trunc_quot_def abs_mult abs_sgn_eq by (simp del: abs_div)
qed (simp add: trunc_quot_def)


lemma narrow_product:
  assumes "narrow T" "i_signed T \<or> i_bits T < 16" "in_type T a" "in_type T b"
  shows "- 2147483648 \<le> a * b \<and> a * b < 2147483648"
proof -
  have "\<bar>x\<bar> \<le> 32768" if "in_type T x" for x
  proof (cases "i_signed T")
    case True
    then show ?thesis using narrow_signed [OF assms(1)] that by simp
  next
    case False
    then have "(2::int) ^ i_bits T \<le> 2 ^ 15" using assms(2) by (intro power_increasing) auto
    then show ?thesis using False that by (simp add: in_type_def)
  qed
  then have "\<bar>a\<bar> * \<bar>b\<bar> \<le> 32768 * 32768" using assms(3,4) by (intro mult_mono) auto
  then have "\<bar>a * b\<bar> \<le> 1073741824" by (simp add: abs_mult)
  then show ?thesis by linarith
qed



text \<open>The product of two \<^verbatim>\<open>uint16_t\<close> is computed in \<^verbatim>\<open>int\<close>, which it may leave; so does the negation of the least \<^verbatim>\<open>int\<close>.\<close>

lemma product_of_uint16: "bop_mul \<lparr>i_bits = 16, i_signed = False\<rparr> T 65535 65535 = Inl UB"
  by (simp add: bop_mul_def promoted_def int32_t_def arith_def in_type_def)

lemma negation_of_the_least: "uop_neg int32_t T (- 2147483648) = Inl UB" "bop_div int32_t T (- 2147483648) (- 1) = Inl UB"
  by (simp_all add: uop_neg_def bop_div_def promoted_def int32_t_def arith_def in_type_def trunc_quot_def)

end
