(* ===== verification/Messages.thy ===== *)
theory Messages
  imports Tasks Strings
begin

text \<open>
  The texts of the library: the message of an exception (\<^verbatim>\<open>exception.cpp\<close> and the classes below it), the tags before the lines of a
  message (\<^verbatim>\<open>rang_format.cpp\<close>), the two parts of a path (\<^verbatim>\<open>system_functions.cpp\<close>) and the help of a module, of a task and of
  a socket (\<^verbatim>\<open>Help.cpp\<close>), as the characters written without colours. The text of an address is an argument.
\<close>

section \<open>Exceptions\<close>

fun default_message :: "exn \<Rightarrow> string" where
  "default_message Cannot_allocate = ''Cannot allocate the object.''"
| "default_message Control_flow_error = ''Control flow error.''"
| "default_message Domain_error = ''Domain error.''"
| "default_message Invalid_argument = ''Given argument is invalid.''"
| "default_message Length_error = ''Length error.''"
| "default_message Logic_error = ''Logic error.''"
| "default_message Out_of_range = ''Out of range.''"
| "default_message Overflow_error = ''Overflow error.''"
| "default_message Processing_aborted = ''Processing aborted.''"
| "default_message Range_error = ''Range error.''"
| "default_message Runtime_error = ''Runtime error.''"
| "default_message Underflow_error = ''Underflow error.''"
| "default_message Unimplemented_error = ''Unimplemented function or method.''"
| "default_message Waiting_canceled = ''Waiting canceled thread.''"
| "default_message _ = ''''"

definition int_text :: "int \<Rightarrow> string" where
  "int_text k = (if k < 0 then CHR ''-'' # nat_to_string (nat (- k)) else nat_to_string (nat k))"

definition exception_text :: "string \<Rightarrow> int \<Rightarrow> string \<Rightarrow> string \<Rightarrow> string" where
  "exception_text filename line_num funcname message =
     (if filename \<noteq> [] then ''In the '' @ [CHR 0x27] @ filename @ [CHR 0x27] @ '' file'' else '''') @
     (if line_num \<ge> 0 then '' at line '' @ int_text line_num else '''') @
     (if funcname \<noteq> [] then '' ('' @ [CHR 0x27] @ funcname @ [CHR 0x27] @ '' function)'' else '''') @ '': '' @ [CHR 0x22] @ message @ [CHR 0x22]"

text \<open>The classes: their constructors, the two with a message replace an empty one.\<close>

definition new_exn :: "exn \<Rightarrow> string" where
  "new_exn e = default_message e"

definition new_exn_message :: "exn \<Rightarrow> string \<Rightarrow> string" where
  "new_exn_message e message = (if message = [] then default_message e else message)"

definition new_exn_at :: "exn \<Rightarrow> string \<Rightarrow> int \<Rightarrow> string \<Rightarrow> string \<Rightarrow> string" where
  "new_exn_at e filename line_num funcname message =
     exception_text filename line_num funcname (if message = [] then default_message e else message)"

section \<open>Lines\<close>

definition newline :: char where
  "newline = CHR 0x0A"

text \<open>\<^verbatim>\<open>std::getline\<close> until the end: no line after a last newline.\<close>

lemma shorter: "s \<noteq> [] \<Longrightarrow> length (tl (dropWhile p s)) < length s"
  using length_dropWhile_le [of p s] by (cases s) (auto simp: le_imp_less_Suc intro: le_less_trans [OF diff_le_self])

function get_lines :: "string \<Rightarrow> string list" where
  "get_lines s = (if s = [] then [] else takeWhile (\<lambda>c. c \<noteq> newline) s # get_lines (tl (dropWhile (\<lambda>c. c \<noteq> newline) s)))"
  by pat_completeness auto

termination get_lines
  by (relation "measure length") (simp_all add: shorter del: length_tl)

declare get_lines.simps [simp del]

text \<open>\<^verbatim>\<open>c_str\<close> in a stream stops at the first null character.\<close>

definition c_string :: "string \<Rightarrow> string" where
  "c_string s = takeWhile (\<lambda>c. c \<noteq> CHR 0x00) s"

datatype tag = Tag_error | Tag_warning | Tag_info | Tag_comment | Tag_positive

fun tag_text :: "tag \<Rightarrow> string" where
  "tag_text Tag_error = ''(EE) ''"
| "tag_text Tag_warning = ''(WW) ''"
| "tag_text Tag_info = ''(II) ''"
| "tag_text Tag_comment = ''# ''"
| "tag_text Tag_positive = ''(II) ''"

function format_on_each_line :: "tag \<Rightarrow> string \<Rightarrow> string" where
  "format_on_each_line f s = (if newline \<in> set s
     then tag_text f @ takeWhile (\<lambda>c. c \<noteq> newline) s @ [newline] @ format_on_each_line f (tl (dropWhile (\<lambda>c. c \<noteq> newline) s))
     else if s \<noteq> [] then tag_text f @ s else '''')"
  by pat_completeness auto

termination format_on_each_line
  by (relation "measure (length \<circ> snd)") (auto intro!: shorter simp del: length_tl)

declare format_on_each_line.simps [simp del]

text \<open>The directory and the name of a file; without a separator both are the whole path (\<^verbatim>\<open>npos + 1\<close> is 0).\<close>

definition is_separator :: "char \<Rightarrow> bool" where
  "is_separator c \<longleftrightarrow> c = CHR ''/'' \<or> c = CHR 0x5C"

definition split_path :: "string \<Rightarrow> string \<times> string" where
  "split_path path = (if \<exists>c \<in> set path. is_separator c
     then (let k = length path - 1 - length (takeWhile (\<lambda>c. \<not> is_separator c) (rev path)) in (take k path, drop (k + 1) path))
     else (path, path))"

section \<open>Help\<close>

text \<open>A number in a stream, in decimal or, after \<^verbatim>\<open>std::hex\<close>, in hexadecimal.\<close>

definition hex_digit :: "nat \<Rightarrow> char" where
  "hex_digit d = (if d < 10 then char_of (48 + d) else char_of (87 + d))"

fun nat_to_hex :: "nat \<Rightarrow> string" where
  "nat_to_hex n = (if n < 16 then [hex_digit n] else nat_to_hex (n div 16) @ [hex_digit (n mod 16)])"

declare nat_to_hex.simps [simp del]

record addresses =
  ad_module :: "mid \<Rightarrow> string"
  ad_task :: "tid \<Rightarrow> string"
  ad_socket :: "sid \<Rightarrow> string"
  ad_data :: "ptr \<Rightarrow> string"

definition socket_help :: "addresses \<Rightarrow> bool \<Rightarrow> world \<Rightarrow> sid \<Rightarrow> string" where
  "socket_help A verbose w i = (let s = socks w i in
     ''|- '' @ s_name s @ '': '' @ ''{ n_elts = '' @ nat_to_string (get_n_elmts s div m_n_frames (mods w (t_module (tsks w (s_task s))))) @
     '', datatype = '' @ type_to_string (s_datatype s) @
     (if verbose then '', databytes = '' @ nat_to_string (s_databytes s) @ '', dataptr = '' @ ad_data A (s_dataptr s) @ '', address = '' @ ad_socket A i
      else '''') @ '' }'' @ [newline])"

definition indented :: "string \<Rightarrow> string \<Rightarrow> string" where
  "indented mark s = concat (map (\<lambda>l. mark @ c_string l @ [newline]) (get_lines s))"

definition is_input :: "world \<Rightarrow> sid \<Rightarrow> bool" where
  "is_input w i \<longleftrightarrow> s_type (socks w i) = SIN \<or> s_type (socks w i) = SFWD"

definition sockets_help :: "string \<Rightarrow> addresses \<Rightarrow> bool \<Rightarrow> world \<Rightarrow> sid list \<Rightarrow> string" where
  "sockets_help title A verbose w ks = (if ks = [] then ''''
     else title @ [newline] @ concat (map (\<lambda>i. indented ''|  |  '' (socket_help A verbose w i)) ks))"

definition task_help :: "addresses \<Rightarrow> bool \<Rightarrow> world \<Rightarrow> tid \<Rightarrow> string" where
  "task_help A verbose w t = (let ts = tsks w t in
     ''|- name: '' @ t_name ts @ [newline] @ (if verbose then ''|  |- address: '' @ ad_task A t @ [newline] else '''') @
     sockets_help ''|  |- sockets in:'' A verbose w (filter (is_input w) (t_sockets ts)) @
     sockets_help ''|  |- sockets out:'' A verbose w (filter (\<lambda>i. \<not> is_input w i) (t_sockets ts)))"

text \<open>\<^verbatim>\<open>std::hex\<close> stays set in the stream of the module, so with the addresses the number of frames is in hexadecimal.\<close>

definition module_help :: "addresses \<Rightarrow> bool \<Rightarrow> world \<Rightarrow> mid \<Rightarrow> string" where
  "module_help A verbose w m = (let md = mods w m in
     ''# module:'' @ [newline] @ ''# |- name: '' @ m_name md @ [newline] @ ''# |- short name: '' @ m_short_name md @ [newline] @
     (if m_custom_name md \<noteq> [] then ''# |- custom name: '' @ m_custom_name md @ [newline] else '''') @
     (if verbose then ''# |- address: '' @ ad_module A m @ [newline] else '''') @
     ''# |- n_frames: '' @ (if verbose then nat_to_hex else nat_to_string) (m_n_frames md) @ [newline] @
     (if m_tasks md \<noteq> [] then ''# |- tasks:'' @ [newline] @ concat (map (\<lambda>t. indented ''# |  '' (task_help A verbose w t)) (m_tasks md)) else ''''))"

definition print_help :: "addresses \<Rightarrow> bool \<Rightarrow> world \<Rightarrow> mid \<Rightarrow> string" where
  "print_help A verbose w m = module_help A verbose w m @ [newline]"

section \<open>Facts\<close>

text \<open>The message of an exception is never empty.\<close>

lemma exception_has_a_message: "exception_text f l g m \<noteq> []"
  by (simp add: exception_text_def)

text \<open>The parts of a path give it back, around its last separator.\<close>

lemma split_path_parts:
  assumes "\<exists>c \<in> set path. is_separator c"
  shows "\<exists>c. is_separator c \<and> path = fst (split_path path) @ c # snd (split_path path) \<and> (\<forall>d \<in> set (snd (split_path path)). \<not> is_separator d)"
proof -
  let ?n = "takeWhile (\<lambda>c. \<not> is_separator c) (rev path)" and ?r = "dropWhile (\<lambda>c. \<not> is_separator c) (rev path)"
  have "?r \<noteq> []" using assms by (simp add: dropWhile_eq_Nil_conv)
  then obtain c ds where r: "?r = c # ds" by (cases ?r) auto
  then have c: "is_separator c" using hd_dropWhile [of "\<lambda>c. \<not> is_separator c" "rev path"] by auto
  have "rev path = ?n @ c # ds" using takeWhile_dropWhile_id [of "\<lambda>c. \<not> is_separator c" "rev path"] r by simp
  then have p: "path = rev ds @ c # rev ?n" by (metis append.assoc append_Cons append_Nil rev.simps(2) rev_append rev_rev_ident)
  have "length path - 1 - length ?n = length (rev ds)" by (subst p) simp
  then have "split_path path = (take (length (rev ds)) path, drop (length (rev ds) + 1) path)" using assms by (simp add: split_path_def Let_def)
  moreover have "take (length (rev ds)) path = rev ds" "drop (length (rev ds) + 1) path = rev ?n" by (subst p, simp)+
  ultimately have "split_path path = (rev ds, rev ?n)" by simp
  moreover have "\<forall>d \<in> set ?n. \<not> is_separator d" using set_takeWhileD by fastforce
  ultimately show ?thesis using c p by (intro exI [of _ c]) simp
qed

lemma file_in_the_current_directory: "split_path ''main'' = (''main'', ''main'')"
  by (simp add: split_path_def is_separator_def)

text \<open>With the addresses, 16 frames are written as 10.\<close>

lemma frames_in_hexadecimal:
  assumes "m_n_frames (mods w m) = 16" "m_tasks (mods w m) = []" "m_custom_name (mods w m) = []"
  shows "\<exists>pre. module_help A True w m = pre @ ''# |- n_frames: 10'' @ [newline]"
    "\<exists>pre. module_help A False w m = pre @ ''# |- n_frames: 16'' @ [newline]"
proof -
  have "nat_to_hex 16 = ''10''" "nat_to_string 16 = ''16''" by code_simp+
  then show "\<exists>pre. module_help A True w m = pre @ ''# |- n_frames: 10'' @ [newline]"
    "\<exists>pre. module_help A False w m = pre @ ''# |- n_frames: 16'' @ [newline]"
    unfolding module_help_def Let_def using assms by (simp_all add: newline_def)
qed

end
