(* ===== verification/Spec2Isabelle.thy ===== *)
theory Spec2Isabelle
  imports Prelude Runtime_State Float32 Sockets Tasks Task_Contract Task_Exec Module_Ops Tools_Math Adaptor Adaptor_Net Doubles Strings Schedulers Scheduling Digraph Sequences Sequence_Exec Sequence_Frames Sequence_Build Sequence_Order Sequence_Nocopy Sequence_Init Sequence_Clean Bit_packer Thread_pool Pipelines Pipeline_Links Pipeline_Routes Binary_Files Stateful_Modules Codelets Pinning Scheduler_File File_Pinning Reporters Reports Builders Sets Statistics Terminals Terminal_Thread Sequence_Threads Operators Messages
begin

text \<open>
  StreamPU, a library for streaming applications. A module owns tasks; a task owns a codelet and sockets; an output socket is bound to
  input and forward sockets. A sequence is the graph of the tasks reachable along the bindings, replicated for its threads; a pipeline
  is a list of sequences (stages) joined by adaptors. Schedulers cut a chain of tasks into the stages of a pipeline. Around this core
  are the modules of the library, the reporters with their terminals, the statistics, and the tools. Paths are relative to \<^verbatim>\<open>src/\<close>.

  \<^bold>\<open>How the code is modelled.\<close> Objects live in a store (\<open>world\<close>) that maps addresses to records with the fields of the classes; an
  operation takes the store and returns an \<open>outcome\<close>: an exception or a value, and the store reached, since a C++ throw keeps what was
  written. \<^verbatim>\<open>UB\<close> stands for what the language leaves undefined. \<^verbatim>\<open>size_t\<close> is a natural number with its wrap around written out where
  the code can reach it; counters that wrap in practice are words. Concurrent code is a step relation with one step per access to a
  shared variable, so a theorem on its reachable states holds in every interleaving. Codelets, stop conditions, clocks, random
  generators, the JSON library, hwloc and the files are arguments of the definitions.

  \<^bold>\<open>The parts.\<close>

  \<^item> \<^verbatim>\<open>Prelude\<close>: exceptions, outcomes, helpers on lists, and the locale \<open>invariant_ops\<close> (operations that keep an invariant), which is
    interpreted for the sockets, the tasks and the builder. \<^verbatim>\<open>Strings\<close>: decimal numbers. \<^verbatim>\<open>Float32\<close>, \<^verbatim>\<open>Doubles\<close>: the rounding of the
    divisions the code makes in floating point.
  \<^item> \<^verbatim>\<open>Runtime_State\<close>: the records of \<^verbatim>\<open>include/Runtime/Socket/Socket.hpp\<close>, \<^verbatim>\<open>include/Runtime/Task/Task.hpp\<close> and
    \<^verbatim>\<open>include/Module/Module.hpp\<close>.
  \<^item> \<^verbatim>\<open>Sockets\<close>: \<^verbatim>\<open>Runtime/Socket/Socket.hxx\<close>. Binding succeeds exactly when its checks pass; binding and unbinding are inverse; every
    sequence of operations keeps the two sides of the links in agreement.
  \<^item> \<^verbatim>\<open>Tasks\<close>, \<^verbatim>\<open>Task_Contract\<close>, \<^verbatim>\<open>Task_Exec\<close>: \<^verbatim>\<open>Runtime/Task/Task.cpp\<close>. Creation of the sockets, buffers (they reach every reader, through
    forward sockets), frames, cloning; the execution by waves puts every data pointer back.
  \<^item> \<^verbatim>\<open>Module_Ops\<close>: \<^verbatim>\<open>Module/Module.cpp\<close>. Frames and waves are rescaled together in both modes.
  \<^item> \<^verbatim>\<open>Adaptor\<close>, \<^verbatim>\<open>Adaptor_Net\<close>: \<^verbatim>\<open>Module/Stateful/Adaptor\<close>. Ring buffers between threads: order of the frames and absence of deadlock for
    any number of pushers and pullers (locale \<open>round_robin\<close>).
  \<^item> \<^verbatim>\<open>Stateful_Modules\<close>, \<^verbatim>\<open>Codelets\<close>, \<^verbatim>\<open>Binary_Files\<close>, \<^verbatim>\<open>Operators\<close>: the other modules of \<^verbatim>\<open>Module/Stateful\<close>: the shape every constructor
    leaves, what every codelet computes, the files read and written bit by bit, the operators on integers.
  \<^item> \<^verbatim>\<open>Digraph\<close>, \<^verbatim>\<open>Sequences\<close>, \<^verbatim>\<open>Sequence_Build\<close>, \<^verbatim>\<open>Sequence_Order\<close>, \<^verbatim>\<open>Sequence_Init\<close>, \<^verbatim>\<open>Sequence_Clean\<close>, \<^verbatim>\<open>Sequence_Exec\<close>, \<^verbatim>\<open>Sequence_Frames\<close>,
    \<^verbatim>\<open>Sequence_Nocopy\<close>, \<^verbatim>\<open>Sequence_Threads\<close>: \<^verbatim>\<open>Tools/Algo/Digraph\<close>, \<^verbatim>\<open>Runtime/Sequence\<close>. Construction of the graph, replication, removal of
    the empty nodes (a refinement of the rounds), the passes of a thread and the step by step execution (equivalent), the mode
    without copies (undone after an execution), and all the threads of an execution: they end as one, and an exception stops them.
  \<^item> \<^verbatim>\<open>Pipelines\<close>, \<^verbatim>\<open>Pipeline_Links\<close>, \<^verbatim>\<open>Pipeline_Routes\<close>: \<^verbatim>\<open>Runtime/Pipeline\<close>. The checks, the links between stages, the adaptors and the route of
    each output, binding and unbinding, the guards and the cancellations of an execution.
  \<^item> \<^verbatim>\<open>Thread_pool\<close>: \<^verbatim>\<open>Tools/Thread/Thread_pool\<close> and \<^verbatim>\<open>Thread_barrier\<close>. Each run executes the function once per worker, and calls return.
  \<^item> \<^verbatim>\<open>Schedulers\<close>, \<^verbatim>\<open>Scheduling\<close>, \<^verbatim>\<open>Scheduler_File\<close>, \<^verbatim>\<open>Pinning\<close>, \<^verbatim>\<open>File_Pinning\<close>: \<^verbatim>\<open>Scheduler\<close>, \<^verbatim>\<open>Tools/Thread/Thread_pinning\<close>. OTAC cuts the chain
    into stages within its resources; the two formats of files, their policies and the mapping that is parsed back.
  \<^item> \<^verbatim>\<open>Builders\<close>: \<^verbatim>\<open>Tools/Builder\<close>. \<^verbatim>\<open>Sets\<close>: \<^verbatim>\<open>Module/Stateful/Set\<close>, a sequence as a module.
  \<^item> \<^verbatim>\<open>Bit_packer\<close>, \<^verbatim>\<open>Tools_Math\<close>: \<^verbatim>\<open>Tools/Algo/Bit_packer\<close>, \<^verbatim>\<open>Tools/Math\<close>, \<^verbatim>\<open>Tools/compute_bytes.cpp\<close>.
  \<^item> \<^verbatim>\<open>Reporters\<close>, \<^verbatim>\<open>Reports\<close>: the probes and their reporter; a column refines a bounded queue (locale \<open>bounded_queue\<close>), and the final
    report gives every value. \<^verbatim>\<open>Terminals\<close>, \<^verbatim>\<open>Terminal_Thread\<close>: the tables and the thread that refreshes them. \<^verbatim>\<open>Statistics\<close>: the
    table of the durations. \<^verbatim>\<open>Messages\<close>: exceptions, help, tags.

  \<^bold>\<open>Composition.\<close> A loop built from an iterator, a switcher and a body (\<^verbatim>\<open>Codelets\<close>) is run by the walk of a sequence (\<^verbatim>\<open>Sequences\<close>); a source
  and a sink of files are run in rounds; the solution of a scheduler is the argument of the pipeline; the mapping printed by
  \<^verbatim>\<open>Scheduler_File\<close> goes through the three parsers of \<^verbatim>\<open>Pinning\<close>; a set takes the sockets of its sequence; the groups of a terminal
  are the columns of a reporter.

  \<^bold>\<open>Loops and fuel.\<close> A loop that may not end is a \<^verbatim>\<open>partial_function\<close>, and \<open>None\<close> means that it does not return; the theorems
  state when it does. Fuel bounds the depth of the recursions over the store: 2 for the two setters of the frames of a module
  (\<open>fuel_2\<close>), 2 for the probes and their reporter (\<open>frames_fuel\<close>), the number of nodes for the passes over a graph (\<open>seq_fuel\<close>,
  \<open>dfs_total\<close>), the number of sockets for the chains of forward sockets (\<open>fuel_of\<close>), the length of the file for the copy of a file; for the
  construction of a sequence the theorem states that some fuel is enough. Steps of the concurrent models are bounded in their theorems
  (nine for the end of a call on a terminal, seven per thread for the end of an execution that failed).

  \<^bold>\<open>Not modelled.\<close> The output of the debug mode of the tasks, \<^verbatim>\<open>export_dot\<close>, escape sequences and the header of the statistics: output only.
  Destructors and \<^verbatim>\<open>delete_tree\<close>: they free memory. The deprecated wrappers and the overloads of the constructors forward to modelled
  operations. \<^verbatim>\<open>Signal_handler\<close>, \<^verbatim>\<open>System/memory\<close>, \<^verbatim>\<open>run_system_command\<close>, \<^verbatim>\<open>get_binary_path\<close> and the calls of hwloc belong to the operating
  system or to other libraries. \<^verbatim>\<open>check_ctrl_flow\<close> is commented out. The execution of a pipeline is not one definition: its parts (thread
  pool, stages, adaptors, cancellations, resets) are. The theorems on interleavings assume sequentially consistent memory, also for the
  plain booleans the code shares, and that codelets and stop conditions return.
\<close>

end
